(* ===== verification/Prelude.thy ===== *)
theory Prelude
  imports Complex_Main "HOL-Library.AList" "HOL-Library.Sublist"
begin

text \<open>
  Shared vocabulary of the development: Python strings and the string methods the sources
  call, insertion-ordered dictionaries, slices, and small facts on lists that several
  components use.

  \<^item> A \<open>str\<close> is a list of HOL characters, read as code points below 256 (Latin-1).
    \<open>str.isspace\<close> is the test Python makes on that range.
  \<^item> A \<open>dict\<close> is an association list with distinct keys in insertion order: assigning an
    existing key keeps its place, a new key goes to the end, \<open>pop\<close> removes the pair. This is
    the order Python guarantees when a dictionary is iterated, and several components
    iterate over theirs.
  \<^item> Clock readings (\<open>time.time()\<close>, \<open>time.monotonic()\<close>, \<open>datetime.now()\<close>) are real
    numbers given to the operation that reads the clock; fresh identifiers
    (\<open>uuid4\<close>) are arguments as well.
\<close>

named_theorems dict_laws \<open>lookup, size and key laws of insertion-ordered dictionaries\<close>
named_theorems str_laws \<open>laws of the string methods\<close>

section \<open>Strings\<close>

type_synonym str = string

definition is_space :: "char \<Rightarrow> bool" where
  "is_space c \<longleftrightarrow> c \<in> set [CHR '' '', CHR 0x09, CHR 0x0A, CHR 0x0B, CHR 0x0C, CHR 0x0D,
     CHR 0x1C, CHR 0x1D, CHR 0x1E, CHR 0x1F, CHR 0x85, CHR 0xA0]"

definition lstrip :: "str \<Rightarrow> str" where
  "lstrip s = dropWhile is_space s"

definition rstrip :: "str \<Rightarrow> str" where
  "rstrip s = rev (dropWhile is_space (rev s))"

definition strip :: "str \<Rightarrow> str" where
  "strip s = rstrip (lstrip s)"

abbreviation startswith :: "str \<Rightarrow> str \<Rightarrow> bool" where
  "startswith s p \<equiv> prefix p s"

text \<open>\<open>s.split(c)\<close> and the two halves of \<open>s.split(c, 1)\<close> for a one-character separator.\<close>

fun split_on :: "char \<Rightarrow> str \<Rightarrow> str list" where
  "split_on c [] = [[]]"
| "split_on c (x # xs) =
     (if x = c then [] # split_on c xs
      else (case split_on c xs of [] \<Rightarrow> [[x]] | y # ys \<Rightarrow> (x # y) # ys))"

definition before_sep :: "char \<Rightarrow> str \<Rightarrow> str" where
  "before_sep c s = takeWhile (\<lambda>x. x \<noteq> c) s"

definition after_sep :: "char \<Rightarrow> str \<Rightarrow> str" where
  "after_sep c s = drop (Suc (length (before_sep c s))) s"

text \<open>\<open>s.replace(c, d)\<close> for single characters, \<open>sep.join(parts)\<close>, \<open>x or d\<close> for strings.\<close>

definition replace_char :: "char \<Rightarrow> char \<Rightarrow> str \<Rightarrow> str" where
  "replace_char c d s = map (\<lambda>x. if x = c then d else x) s"

fun join :: "str \<Rightarrow> str list \<Rightarrow> str" where
  "join sep [] = []"
| "join sep [x] = x"
| "join sep (x # y # ys) = x @ sep @ join sep (y # ys)"

definition str_or :: "str \<Rightarrow> str \<Rightarrow> str" where
  "str_or s d = (if s = [] then d else s)"

text \<open>\<open>(s or '')\<close> and truth value of an optional string.\<close>

definition opt_str :: "str option \<Rightarrow> str" where
  "opt_str s = (case s of None \<Rightarrow> [] | Some t \<Rightarrow> t)"

lemma opt_str_simps [simp]: "opt_str None = []" "opt_str (Some s) = s"
  by (simp_all add: opt_str_def)

lemma opt_str_eq_Nil: "opt_str s = [] \<longleftrightarrow> s = None \<or> s = Some []"
  by (cases s) simp_all

lemma str_or_Nil [simp]: "str_or [] d = d"
  by (simp add: str_or_def)

lemma str_or_nonempty [simp]: "s \<noteq> [] \<Longrightarrow> str_or s d = s"
  by (simp add: str_or_def)

lemma str_or_eq_Nil [simp]: "str_or s d = [] \<longleftrightarrow> s = [] \<and> d = []"
  by (simp add: str_or_def)

lemma lstrip_Nil [simp]: "lstrip [] = []"
  by (simp add: lstrip_def)

lemma rstrip_Nil [simp]: "rstrip [] = []"
  by (simp add: rstrip_def)

lemma strip_Nil [simp]: "strip [] = []"
  by (simp add: strip_def)

lemma rstrip_snoc: "rstrip (s @ [c]) = (if is_space c then rstrip s else s @ [c])"
  by (simp add: rstrip_def)

lemma dropWhile_idem: "dropWhile P (dropWhile P xs) = dropWhile P xs"
  by (induction xs) simp_all

lemma rstrip_idem [simp]: "rstrip (rstrip s) = rstrip s"
  by (simp add: rstrip_def dropWhile_idem)

lemma rstrip_Cons: "\<not> is_space c \<Longrightarrow> rstrip (c # s) = c # rstrip s"
proof -
  assume "\<not> is_space c"
  then have "dropWhile is_space (rev s @ [c]) = dropWhile is_space (rev s) @ [c]"
    by (induction "rev s" arbitrary: s rule: list.induct) (simp_all add: dropWhile_append3 dropWhile_append)
  then show ?thesis by (simp add: rstrip_def)
qed

lemma lstrip_Cons: "lstrip (c # s) = (if is_space c then lstrip s else c # s)"
  by (simp add: lstrip_def)

lemma lstrip_cases: "lstrip s = [] \<or> \<not> is_space (hd (lstrip s))"
  by (cases "lstrip s = []") (simp_all add: lstrip_def hd_dropWhile)

lemma lstrip_idem [simp]: "lstrip (lstrip s) = lstrip s"
  by (simp add: lstrip_def dropWhile_idem)

lemma lstrip_strip [simp]: "lstrip (strip s) = strip s"
proof (cases "lstrip s")
  case (Cons c t)
  with lstrip_cases [of s] have "\<not> is_space c" by simp
  then show ?thesis by (simp add: strip_def Cons rstrip_Cons lstrip_Cons)
qed (simp add: strip_def)

lemma strip_idem [simp, str_laws]: "strip (strip s) = strip s"
proof -
  have "strip (strip s) = rstrip (strip s)" by (simp add: strip_def [of "strip s"])
  then show ?thesis by (simp add: strip_def)
qed

lemma strip_id_iff_ends:
  assumes "s \<noteq> []" and "\<not> is_space (hd s)" and "\<not> is_space (last s)"
  shows "strip s = s"
proof -
  have "lstrip s = s" using assms by (cases s) (simp_all add: lstrip_Cons)
  moreover obtain t c where "s = t @ [c]" using assms(1) by (cases s rule: rev_cases) auto
  with assms(3) have "rstrip s = s" by (simp add: rstrip_snoc)
  ultimately show ?thesis by (simp add: strip_def)
qed

lemma rstrip_eq_Nil: "rstrip s = [] \<longleftrightarrow> (\<forall>c \<in> set s. is_space c)"
  by (simp add: rstrip_def dropWhile_eq_Nil_conv)

lemma lstrip_eq_Nil: "lstrip s = [] \<longleftrightarrow> (\<forall>c \<in> set s. is_space c)"
  by (simp add: lstrip_def dropWhile_eq_Nil_conv)

lemma strip_eq_Nil: "strip s = [] \<longleftrightarrow> (\<forall>c \<in> set s. is_space c)"
proof (cases "lstrip s = []")
  case False
  then have "\<not> is_space (hd (lstrip s))" "hd (lstrip s) \<in> set (lstrip s)"
    using lstrip_cases by auto
  then have "strip s \<noteq> []" by (auto simp: strip_def rstrip_eq_Nil)
  with False show ?thesis by (simp add: lstrip_eq_Nil)
qed (simp add: strip_def lstrip_eq_Nil [symmetric])

lemma last_rstrip: "rstrip s \<noteq> [] \<Longrightarrow> \<not> is_space (last (rstrip s))"
  by (simp add: rstrip_def last_rev hd_dropWhile)

lemma last_strip: "strip s \<noteq> [] \<Longrightarrow> \<not> is_space (last (strip s))"
  unfolding strip_def by (rule last_rstrip)

lemma strip_tail_Nil:
  assumes "strip (p @ t) = p @ t" and "strip t = []"
  shows "t = []"
proof (rule ccontr)
  assume t: "t \<noteq> []"
  then have "\<not> is_space (last t)" using last_strip [of "p @ t"] assms(1) by simp
  with t assms(2) show False by (simp add: strip_eq_Nil)
qed

lemma set_lstrip: "set (lstrip s) \<subseteq> set s"
  unfolding lstrip_def by (auto dest: set_dropWhileD)

lemma set_rstrip: "set (rstrip s) \<subseteq> set s"
  unfolding rstrip_def by (auto dest: set_dropWhileD)

lemma set_strip: "set (strip s) \<subseteq> set s"
  unfolding strip_def using set_rstrip set_lstrip by fast

lemma split_on_not_Nil [simp]: "split_on c s \<noteq> []"
  by (induction s) (auto split: list.split)

lemma join_split_on [str_laws]: "join [c] (split_on c s) = s"
proof (induction s)
  case (Cons x xs)
  obtain y ys where y: "split_on c xs = y # ys"
    using split_on_not_Nil by (metis neq_Nil_conv)
  with Cons show ?case by (cases ys) auto
qed simp

lemma split_on_no_sep [str_laws]: "c \<notin> set s \<Longrightarrow> split_on c s = [s]"
  by (induction s) auto

lemma split_on_parts_no_sep: "p \<in> set (split_on c s) \<Longrightarrow> c \<notin> set p"
proof (induction s arbitrary: p)
  case (Cons x xs)
  obtain y ys where y: "split_on c xs = y # ys"
    using split_on_not_Nil by (metis neq_Nil_conv)
  with Cons show ?case by (auto split: if_splits)
qed simp

lemma before_after_sep: "c \<in> set s \<Longrightarrow> before_sep c s @ [c] @ after_sep c s = s"
proof -
  assume "c \<in> set s"
  then obtain t u where s: "s = t @ c # u" and t: "c \<notin> set t"
    by (meson split_list_first)
  have "before_sep c s = t"
    unfolding before_sep_def s using t by (auto simp: takeWhile_append)
  then show ?thesis by (simp add: after_sep_def s)
qed

lemma before_sep_append: "c \<notin> set t \<Longrightarrow> before_sep c (t @ c # u) = t"
  by (auto simp: before_sep_def takeWhile_append)

lemma after_sep_append: "c \<notin> set t \<Longrightarrow> after_sep c (t @ c # u) = u"
  by (simp add: after_sep_def before_sep_append)

lemma replace_char_absent: "c \<notin> set s \<Longrightarrow> replace_char c d s = s"
  by (induction s) (auto simp: replace_char_def)

lemma replace_char_removes: "c \<noteq> d \<Longrightarrow> c \<notin> set (replace_char c d s)"
  by (auto simp: replace_char_def)

text \<open>\<open>s.lower()\<close> on the Latin-1 range.\<close>

definition lower_char :: "char \<Rightarrow> char" where
  "lower_char c =
     (let n = of_char c :: nat
      in if (65 \<le> n \<and> n \<le> 90) \<or> (192 \<le> n \<and> n \<le> 222 \<and> n \<noteq> 215) then char_of (n + 32) else c)"

definition lower :: "str \<Rightarrow> str" where
  "lower s = map lower_char s"

lemma lower_Nil [simp]: "lower [] = []"
  by (simp add: lower_def)

lemma lower_eq_Nil [simp]: "lower s = [] \<longleftrightarrow> s = []"
  by (simp add: lower_def)

section \<open>Dictionaries\<close>

text \<open>
  \<open>d[k] = v\<close> is \<open>AList.update k v d\<close>, \<open>d.pop(k, None)\<close> and \<open>del d[k]\<close> are
  \<open>AList.delete k d\<close>, \<open>d.get(k)\<close> is \<open>map_of d k\<close>.
\<close>

type_synonym ('k, 'v) dict = "('k \<times> 'v) list"

abbreviation dset :: "'k \<Rightarrow> 'v \<Rightarrow> ('k, 'v) dict \<Rightarrow> ('k, 'v) dict" where
  "dset \<equiv> AList.update"

abbreviation dpop :: "'k \<Rightarrow> ('k, 'v) dict \<Rightarrow> ('k, 'v) dict" where
  "dpop \<equiv> AList.delete"

abbreviation dkeys :: "('k, 'v) dict \<Rightarrow> 'k list" where
  "dkeys \<equiv> map fst"

definition dict_ok :: "('k, 'v) dict \<Rightarrow> bool" where
  "dict_ok d \<longleftrightarrow> distinct (dkeys d)"

definition has_key :: "'k \<Rightarrow> ('k, 'v) dict \<Rightarrow> bool" where
  "has_key k d \<longleftrightarrow> k \<in> set (dkeys d)"

lemma dget_dset [simp, dict_laws]: "map_of (dset k v d) k' = (if k' = k then Some v else map_of d k')"
  by (simp add: update_conv')

lemma dget_dpop [simp, dict_laws]: "map_of (dpop k d) k' = (if k' = k then None else map_of d k')"
  by (simp add: delete_conv')

lemma dict_ok_Nil [simp, dict_laws]: "dict_ok []"
  by (simp add: dict_ok_def)

lemma dict_ok_dset [simp, dict_laws]: "dict_ok d \<Longrightarrow> dict_ok (dset k v d)"
  by (simp add: dict_ok_def distinct_update)

lemma dict_ok_dpop [simp, dict_laws]: "dict_ok d \<Longrightarrow> dict_ok (dpop k d)"
  by (simp add: dict_ok_def distinct_delete)

lemma set_dkeys_dset [simp, dict_laws]: "set (dkeys (dset k v d)) = insert k (set (dkeys d))"
  by (metis dom_map_of_conv_image_fst dom_update image_set insert_is_Un list.set_map)

lemma set_dkeys_dpop [simp, dict_laws]: "set (dkeys (dpop k d)) = set (dkeys d) - {k}"
  by (simp add: delete_keys)

lemma has_key_iff: "has_key k d \<longleftrightarrow> map_of d k \<noteq> None"
  by (simp add: has_key_def map_of_eq_None_iff)

lemma has_key_dset [simp, dict_laws]: "has_key k' (dset k v d) \<longleftrightarrow> k' = k \<or> has_key k' d"
  by (simp add: has_key_iff)

lemma has_key_dpop [simp, dict_laws]: "has_key k' (dpop k d) \<longleftrightarrow> k' \<noteq> k \<and> has_key k' d"
  by (auto simp: has_key_iff)

lemma has_key_Nil [simp]: "\<not> has_key k []"
  by (simp add: has_key_def)

lemma dset_absent [dict_laws]: "\<not> has_key k d \<Longrightarrow> dset k v d = d @ [(k, v)]"
  by (induction d) (auto simp: has_key_def)

lemma dpop_absent [dict_laws]: "\<not> has_key k d \<Longrightarrow> dpop k d = d"
  by (simp add: has_key_def delete_id)

lemma dget_in_set: "map_of d k = Some v \<Longrightarrow> (k, v) \<in> set d"
  by (rule map_of_SomeD)

lemma in_set_dget: "dict_ok d \<Longrightarrow> (k, v) \<in> set d \<Longrightarrow> map_of d k = Some v"
  by (simp add: dict_ok_def)

lemma length_dpop: "dict_ok d \<Longrightarrow> has_key k d \<Longrightarrow> Suc (length (dpop k d)) = length d"
  by (induction d) (auto simp: dict_ok_def has_key_def delete_id dpop_absent)

lemma length_dset:
  "length (dset k v d) = (if has_key k d then length d else Suc (length d))"
  by (induction d) (auto simp: has_key_def)

section \<open>Slices and runs\<close>

text \<open>\<open>xs[i:j]\<close> with Python's rule for negative bounds.\<close>

definition slice_bound :: "int \<Rightarrow> nat \<Rightarrow> nat" where
  "slice_bound i n = nat (if i < 0 then max 0 (int n + i) else min i (int n))"

definition slice :: "'a list \<Rightarrow> int \<Rightarrow> int \<Rightarrow> 'a list" where
  "slice xs i j =
     (let a = slice_bound i (length xs); b = slice_bound j (length xs)
      in take (b - a) (drop a xs))"

lemma slice_nonneg: "0 \<le> i \<Longrightarrow> 0 \<le> j \<Longrightarrow> slice xs i j = take (nat j - nat i) (drop (nat i) xs)"
proof -
  assume "0 \<le> i" "0 \<le> j"
  then have a: "slice_bound i (length xs) = min (nat i) (length xs)"
    and b: "slice_bound j (length xs) = min (nat j) (length xs)"
    by (auto simp: slice_bound_def min_def)
  show ?thesis
  proof (cases "nat i \<le> length xs")
    case True
    then show ?thesis
      by (cases "nat j \<le> length xs") (simp_all add: slice_def a b Let_def)
  qed (simp add: slice_def a b Let_def)
qed

text \<open>A sequence of calls that thread a state, with every call's answer.\<close>

fun run_ops :: "('x \<Rightarrow> 's \<Rightarrow> 'r \<times> 's) \<Rightarrow> 'x list \<Rightarrow> 's \<Rightarrow> 'r list \<times> 's" where
  "run_ops f [] s = ([], s)"
| "run_ops f (x # xs) s =
     (case f x s of (r, s') \<Rightarrow> (case run_ops f xs s' of (rs, s'') \<Rightarrow> (r # rs, s'')))"

lemma run_ops_Cons [simp]:
  "fst (run_ops f (x # xs) s) = fst (f x s) # fst (run_ops f xs (snd (f x s)))"
  "snd (run_ops f (x # xs) s) = snd (run_ops f xs (snd (f x s)))"
  by (simp_all split: prod.split)

declare run_ops.simps(2) [simp del]

lemma length_run_ops [simp]: "length (fst (run_ops f xs s)) = length xs"
  by (induction xs arbitrary: s) simp_all

lemma run_ops_invariant:
  assumes "\<And>x s. P s \<Longrightarrow> P (snd (f x s))" and "P s"
  shows "P (snd (run_ops f xs s))"
  using assms(2) by (induction xs arbitrary: s) (simp_all add: assms(1))

lemma nth_update: "j < length xs \<Longrightarrow> xs[i := x] ! j = (if i = j then x else xs ! j)"
  by (cases "i = j") simp_all

section \<open>Searching\<close>

lemma find_SomeD: "find P xs = Some x \<Longrightarrow> P x \<and> x \<in> set xs"
  by (induction xs) (auto split: if_splits)

lemma find_NoneD: "find P xs = None \<Longrightarrow> x \<in> set xs \<Longrightarrow> \<not> P x"
  by (auto simp: find_None_iff)

end
