(* ===== verification/Futures.thy ===== *)
theory Futures
  imports Prelude
begin

text \<open>
  One-shot futures and the tables that hold them. An \<open>asyncio.Future\<close> is an object that
  several parties share, so a future is an index into a heap of outcomes: the party that waits
  keeps the index, the registry keeps it under a key. Setting the outcome of a future that has
  one raises \<open>InvalidStateError\<close> in Python; here it is the error branch of
  \<open>fut_set\<close>, and the tables are shown never to take it.

  The permission registry, the batch questions, the replies between agents, the terminal
  notices of subagents and the output bus all use the same table discipline, which the locale
  \<open>one_shot\<close> states once; each of them interprets it on its own operations.
\<close>

datatype 'a fut = Pending | Result 'a | Failed str | Cancelled

datatype fut_error = InvalidStateError

type_synonym fid = nat

definition fut_done :: "'a fut list \<Rightarrow> fid \<Rightarrow> bool" where
  "fut_done h f \<longleftrightarrow> h ! f \<noteq> Pending"

definition fut_set :: "fid \<Rightarrow> 'a fut \<Rightarrow> 'a fut list \<Rightarrow> fut_error + 'a fut list" where
  "fut_set f r h = (if fut_done h f then Inl InvalidStateError else Inr (h[f := r]))"

record ('k, 'a) waiters =
  tbl :: "('k, fid) dict"
  heap :: "'a fut list"

definition no_waiters :: "('k, 'a) waiters" where
  "no_waiters = \<lparr>tbl = [], heap = []\<rparr>"

text \<open>\<open>table[key] = loop.create_future()\<close>: the key may already hold another future.\<close>

definition add_wait :: "'k \<Rightarrow> ('k, 'a) waiters \<Rightarrow> fid \<times> ('k, 'a) waiters" where
  "add_wait k w =
     (length (heap w),
      w\<lparr>tbl := dset k (length (heap w)) (tbl w), heap := heap w @ [Pending]\<rparr>)"

text \<open>
  \<open>fut = table.pop(key, None); if fut is None or fut.done(): return False;
  fut.set_...(r); return True\<close>.
\<close>

definition pop_settle :: "'k \<Rightarrow> 'a fut \<Rightarrow> ('k, 'a) waiters \<Rightarrow> bool \<times> ('k, 'a) waiters" where
  "pop_settle k r w =
     (case map_of (tbl w) k of
        None \<Rightarrow> (False, w)
      | Some f \<Rightarrow>
          let w' = w\<lparr>tbl := dpop k (tbl w)\<rparr>
          in (case fut_set f r (heap w) of
                Inl _ \<Rightarrow> (False, w')
              | Inr h \<Rightarrow> (True, w'\<lparr>heap := h\<rparr>)))"

text \<open>The table points into the heap, and no future is held under two keys.\<close>

definition waiters_ok :: "('k, 'a) waiters \<Rightarrow> bool" where
  "waiters_ok w \<longleftrightarrow> dict_ok (tbl w) \<and> (\<forall>f \<in> snd ` set (tbl w). f < length (heap w))
     \<and> inj_on (\<lambda>k. map_of (tbl w) k) (set (dkeys (tbl w)))"

definition waiting :: "('k, 'a) waiters \<Rightarrow> 'k \<Rightarrow> bool" where
  "waiting w k \<longleftrightarrow> (case map_of (tbl w) k of None \<Rightarrow> False | Some f \<Rightarrow> \<not> fut_done (heap w) f)"

lemma waiters_ok_no_waiters [simp]: "waiters_ok no_waiters"
  by (simp add: waiters_ok_def no_waiters_def)

lemma waiters_ok_bound: "waiters_ok w \<Longrightarrow> map_of (tbl w) k = Some f \<Longrightarrow> f < length (heap w)"
  by (force simp: waiters_ok_def dest: map_of_SomeD)

lemma waiters_ok_inj:
  "waiters_ok w \<Longrightarrow> map_of (tbl w) k = Some f \<Longrightarrow> map_of (tbl w) k' = Some f \<Longrightarrow> k' = k"
  unfolding waiters_ok_def inj_on_def
  by (metis domI dom_map_of_conv_image_fst list.set_map)

lemma waiters_okI:
  assumes "dict_ok (tbl w)"
    and "\<And>k f. map_of (tbl w) k = Some f \<Longrightarrow> f < length (heap w)"
    and "\<And>k k' f. map_of (tbl w) k = Some f \<Longrightarrow> map_of (tbl w) k' = Some f \<Longrightarrow> k' = k"
  shows "waiters_ok w"
proof -
  have "f < length (heap w)" if "f \<in> snd ` set (tbl w)" for f
    using that assms(1,2) by (force simp: dict_ok_def)
  moreover have "inj_on (\<lambda>k. map_of (tbl w) k) (set (dkeys (tbl w)))"
  proof (rule inj_onI)
    fix x y
    assume "x \<in> set (dkeys (tbl w))" and eq: "map_of (tbl w) x = map_of (tbl w) y"
    then obtain f where "map_of (tbl w) x = Some f"
      by (metis dom_map_of_conv_image_fst domD list.set_map)
    with eq assms(3) show "x = y" by metis
  qed
  ultimately show ?thesis using assms(1) by (simp add: waiters_ok_def)
qed

lemma waiters_ok_dict: "waiters_ok w \<Longrightarrow> dict_ok (tbl w)"
  by (simp add: waiters_ok_def)

lemma add_wait_ok: "waiters_ok w \<Longrightarrow> waiters_ok (snd (add_wait k w))"
proof (rule waiters_okI)
  assume ok: "waiters_ok w"
  then show "dict_ok (tbl (snd (add_wait k w)))"
    by (simp add: add_wait_def waiters_ok_dict)
  show "f < length (heap (snd (add_wait k w)))" if "map_of (tbl (snd (add_wait k w))) j = Some f" for j f
    using that waiters_ok_bound [OF ok] by (fastforce simp: add_wait_def split: if_splits)
  show "j' = j" if "map_of (tbl (snd (add_wait k w))) j = Some f"
    and "map_of (tbl (snd (add_wait k w))) j' = Some f" for j j' f
    using that waiters_ok_bound [OF ok] waiters_ok_inj [OF ok]
    by (auto simp: add_wait_def split: if_splits)
qed

lemma add_wait_waiting: "waiting (snd (add_wait k w)) k"
  by (simp add: waiting_def add_wait_def fut_done_def)

lemma pop_settle_ok: "waiters_ok w \<Longrightarrow> waiters_ok (snd (pop_settle k r w))"
proof (rule waiters_okI)
  assume ok: "waiters_ok w"
  then show "dict_ok (tbl (snd (pop_settle k r w)))"
    by (simp add: pop_settle_def fut_set_def Let_def waiters_ok_dict split: option.split)
  show "f < length (heap (snd (pop_settle k r w)))"
    if "map_of (tbl (snd (pop_settle k r w))) j = Some f" for j f
    using that waiters_ok_bound [OF ok]
    by (auto simp: pop_settle_def fut_set_def Let_def split: option.splits if_splits)
  show "j' = j" if "map_of (tbl (snd (pop_settle k r w))) j = Some f"
    and "map_of (tbl (snd (pop_settle k r w))) j' = Some f" for j j' f
    using that waiters_ok_inj [OF ok]
    by (auto simp: pop_settle_def fut_set_def Let_def split: option.splits if_splits)
qed

lemma pop_settle_iff: "fst (pop_settle k r w) \<longleftrightarrow> waiting w k"
  by (auto simp: pop_settle_def waiting_def fut_set_def Let_def split: option.split)

lemma pop_settle_consumes: "\<not> has_key k (tbl (snd (pop_settle k r w)))"
  by (auto simp: pop_settle_def fut_set_def Let_def has_key_iff split: option.split)

lemma not_has_key_not_waiting: "\<not> has_key k (tbl w) \<Longrightarrow> \<not> waiting w k"
  by (simp add: has_key_iff waiting_def)

lemma pop_settle_frame:
  assumes ok: "waiters_ok w" and ne: "k' \<noteq> k"
  shows "waiting (snd (pop_settle k r w)) k' = waiting w k'"
proof (cases "map_of (tbl w) k")
  case (Some f)
  have "f' \<noteq> f" if "map_of (tbl w) k' = Some f'" for f'
    using waiters_ok_inj [OF ok Some, of k'] that ne by blast
  with Some ne show ?thesis
    by (auto simp: pop_settle_def waiting_def fut_set_def fut_done_def Let_def nth_list_update
        split: option.split)
qed (simp add: pop_settle_def)

text \<open>A future that has its outcome keeps it, whatever the table does next.\<close>

lemma add_wait_heap: "f < length (heap w) \<Longrightarrow> heap (snd (add_wait k w)) ! f = heap w ! f"
  by (simp add: add_wait_def nth_append)

lemma pop_settle_heap: "fut_done (heap w) f \<Longrightarrow> heap (snd (pop_settle k r w)) ! f = heap w ! f"
  by (auto simp: pop_settle_def fut_set_def Let_def fut_done_def split: option.split)
    (metis nth_list_update_neq)

lemma pop_settle_result:
  "waiters_ok w \<Longrightarrow> waiting w k \<Longrightarrow>
     \<exists>f. map_of (tbl w) k = Some f \<and> heap (snd (pop_settle k r w)) ! f = r"
  by (auto simp: waiting_def pop_settle_def fut_set_def Let_def split: option.splits
      dest: waiters_ok_bound)

lemmas pop_settle_laws = pop_settle_ok pop_settle_iff pop_settle_consumes pop_settle_frame

text \<open>\<open>for fut in table.values(): if not fut.done(): fut.cancel()\<close>, then \<open>clear\<close>.\<close>

fun cancel_futs :: "fid list \<Rightarrow> 'a fut list \<Rightarrow> 'a fut list" where
  "cancel_futs [] h = h"
| "cancel_futs (f # fs) h = cancel_futs fs (case fut_set f Cancelled h of Inl _ \<Rightarrow> h | Inr h' \<Rightarrow> h')"

definition cancel_all_waits :: "('k, 'a) waiters \<Rightarrow> ('k, 'a) waiters" where
  "cancel_all_waits w = w\<lparr>tbl := [], heap := cancel_futs (map snd (tbl w)) (heap w)\<rparr>"

lemma length_cancel_futs [simp]: "length (cancel_futs fs h) = length h"
  by (induction fs arbitrary: h) (simp_all add: fut_set_def)

lemma cancel_futs_nth:
  "f < length h \<Longrightarrow> cancel_futs fs h ! f = (if f \<in> set fs \<and> h ! f = Pending then Cancelled else h ! f)"
  by (induction fs arbitrary: h) (auto simp: fut_set_def fut_done_def nth_update split: if_splits)

lemma cancel_all_waits_laws:
  "waiters_ok (cancel_all_waits w)"
  "\<not> waiting (cancel_all_waits w) k"
  "waiters_ok w \<Longrightarrow> map_of (tbl w) k = Some f \<Longrightarrow> fut_done (heap (cancel_all_waits w)) f"
proof -
  show "waiters_ok (cancel_all_waits w)" "\<not> waiting (cancel_all_waits w) k"
    by (simp_all add: waiters_ok_def cancel_all_waits_def waiting_def)
  assume "waiters_ok w" and "map_of (tbl w) k = Some f"
  moreover from this have "f < length (heap w)" "f \<in> set (map snd (tbl w))"
    by (force dest: waiters_ok_bound dget_in_set)+
  ultimately show "fut_done (heap (cancel_all_waits w)) f"
    by (auto simp: cancel_all_waits_def fut_done_def cancel_futs_nth)
qed

text \<open>
  A waiter that gives up (\<open>asyncio.wait_for\<close> cancels the future) leaves the key in the table.
\<close>

definition give_up :: "'k \<Rightarrow> ('k, 'a) waiters \<Rightarrow> ('k, 'a) waiters" where
  "give_up k w =
     (case map_of (tbl w) k of
        None \<Rightarrow> w
      | Some f \<Rightarrow> (case fut_set f Cancelled (heap w) of Inl _ \<Rightarrow> w | Inr h \<Rightarrow> w\<lparr>heap := h\<rparr>))"

lemma give_up_laws:
  "waiters_ok w \<Longrightarrow> waiters_ok (give_up k w)"
  "waiters_ok w \<Longrightarrow> waiting (give_up k w) k' = (k' \<noteq> k \<and> waiting w k')"
proof -
  show "waiters_ok w \<Longrightarrow> waiters_ok (give_up k w)"
    by (auto simp: give_up_def fut_set_def waiters_ok_def split: option.splits)
  assume ok: "waiters_ok w"
  show "waiting (give_up k w) k' = (k' \<noteq> k \<and> waiting w k')"
    using waiters_ok_bound [OF ok] waiters_ok_inj [OF ok]
    by (auto simp: give_up_def fut_set_def waiting_def fut_done_def nth_update split: option.splits if_splits)
qed

text \<open>
  \<open>old = table.get(key); if old is not None and not old.done(): old.cancel();
  table[key] = loop.create_future()\<close>: the latest waiter of a key replaces the one before.
\<close>

definition replace_wait :: "'k \<Rightarrow> ('k, 'a) waiters \<Rightarrow> fid \<times> ('k, 'a) waiters" where
  "replace_wait k w = add_wait k (give_up k w)"

lemma replace_wait_laws:
  "waiters_ok w \<Longrightarrow> waiters_ok (snd (replace_wait k w))"
  "waiting (snd (replace_wait k w)) k"
  by (simp_all add: replace_wait_def add_wait_ok give_up_laws add_wait_waiting)

lemma replaced_is_done:
  assumes "waiters_ok w" and "map_of (tbl w) k = Some f"
  shows "fut_done (heap (snd (replace_wait k w))) f"
  using assms waiters_ok_bound [OF assms]
  by (auto simp: replace_wait_def add_wait_def give_up_def fut_set_def fut_done_def nth_append nth_update
      split: option.splits)

section \<open>The contract of a table of one-shot waiters\<close>

text \<open>
  \<open>settle\<close> answers whether it woke somebody; \<open>norm\<close> is the normalisation of the key
  that the operation applies first (most strip the identifier they get from outside).
\<close>

locale one_shot =
  fixes inv :: "'s \<Rightarrow> bool"
    and norm :: "'k \<Rightarrow> 'i"
    and pending :: "'s \<Rightarrow> 'i \<Rightarrow> bool"
    and settle :: "'k \<Rightarrow> 'v \<Rightarrow> 's \<Rightarrow> bool \<times> 's"
  assumes settle_inv: "inv s \<Longrightarrow> inv (snd (settle k v s))"
    and settle_iff: "inv s \<Longrightarrow> fst (settle k v s) \<Longrightarrow> pending s (norm k)"
    and settle_consumes: "inv s \<Longrightarrow> fst (settle k v s) \<Longrightarrow> \<not> pending (snd (settle k v s)) (norm k)"
    and settle_frame: "inv s \<Longrightarrow> pending (snd (settle k v s)) i \<Longrightarrow> pending s i"
begin

lemma no_revival:
  assumes "inv s" and "\<not> pending s i"
  shows "\<not> pending (snd (run_ops (\<lambda>(k, v). settle k v) xs s)) i"
proof -
  have "inv (snd (run_ops (\<lambda>(k, v). settle k v) xs s))
      \<and> \<not> pending (snd (run_ops (\<lambda>(k, v). settle k v) xs s)) i"
    by (rule run_ops_invariant [where P = "\<lambda>s. inv s \<and> \<not> pending s i"])
      (use assms settle_inv settle_frame in \<open>auto split: prod.splits\<close>)
  then show ?thesis by blast
qed

lemma step_laws:
  assumes "inv s"
  shows "inv (snd (settle k v s))"
    and "\<not> pending s i \<Longrightarrow> \<not> pending (snd (settle k v s)) i"
    and "norm k = i \<Longrightarrow> \<not> pending s i \<Longrightarrow> \<not> fst (settle k v s)"
    and "norm k = i \<Longrightarrow> fst (settle k v s) \<Longrightarrow> \<not> pending (snd (settle k v s)) i"
  using settle_inv [OF assms] settle_frame [OF assms] settle_iff [OF assms]
    settle_consumes [OF assms] by blast+

lemma not_pending_none_woken:
  assumes "inv s" and "\<not> pending s i"
  shows "filter (\<lambda>(x, woke). norm (fst x) = i \<and> woke)
           (zip xs (fst (run_ops (\<lambda>(k, v). settle k v) xs s))) = []"
  using assms
proof (induction xs arbitrary: s)
  case (Cons x xs)
  obtain k v where x: "x = (k, v)" by (cases x)
  have "filter (\<lambda>(x, woke). norm (fst x) = i \<and> woke)
      (zip xs (fst (run_ops (\<lambda>(k, v). settle k v) xs (snd (settle k v s))))) = []"
    using Cons.prems by (intro Cons.IH step_laws(1,2))
  moreover have "\<not> (norm k = i \<and> fst (settle k v s))"
    using step_laws(3) [OF Cons.prems(1)] Cons.prems(2) by blast
  ultimately show ?case by (simp add: x)
qed simp

theorem settled_at_most_once:
  assumes "inv s"
  shows "length (filter (\<lambda>(x, woke). norm (fst x) = i \<and> woke)
           (zip xs (fst (run_ops (\<lambda>(k, v). settle k v) xs s)))) \<le> 1"
  using assms
proof (induction xs arbitrary: s)
  case (Cons x xs)
  obtain k v where x: "x = (k, v)" by (cases x)
  let ?s = "snd (settle k v s)"
  have inv': "inv ?s" by (rule step_laws(1) [OF Cons.prems])
  show ?case
  proof (cases "norm k = i \<and> fst (settle k v s)")
    case True
    then have "\<not> pending ?s i" using step_laws(4) [OF Cons.prems] by blast
    from not_pending_none_woken [OF inv' this, of xs] True show ?thesis by (simp add: x)
  next
    case False
    then have "filter (\<lambda>(x, woke). norm (fst x) = i \<and> woke)
        (zip (x # xs) (fst (run_ops (\<lambda>(k, v). settle k v) (x # xs) s)))
      = filter (\<lambda>(x, woke). norm (fst x) = i \<and> woke)
        (zip xs (fst (run_ops (\<lambda>(k, v). settle k v) xs ?s)))"
      by (auto simp: x)
    with Cons.IH [OF inv'] show ?thesis by metis
  qed
qed simp

end

text \<open>The generic table is itself such a table.\<close>

interpretation table: one_shot waiters_ok "\<lambda>k. k" waiting pop_settle
proof
  fix w :: "('a, 'b) waiters" and k i r
  assume ok: "waiters_ok w"
  then show "waiters_ok (snd (pop_settle k r w))" by (rule pop_settle_ok)
  show "fst (pop_settle k r w) \<Longrightarrow> waiting w k" by (simp add: pop_settle_iff)
  show "\<not> waiting (snd (pop_settle k r w)) k"
    by (rule not_has_key_not_waiting) (rule pop_settle_consumes)
  show "waiting (snd (pop_settle k r w)) i \<Longrightarrow> waiting w i"
    using pop_settle_frame [OF ok] pop_settle_consumes not_has_key_not_waiting by metis
qed

end
