(* ===== verification/Py_Values.thy ===== *)
theory Py_Values
  imports Prelude
begin

text \<open>
  Dynamically typed values: what a JSON payload, a metadata dictionary or a tool argument can
  hold when the code treats it as \<open>Any\<close>. The operations are the built-ins the sources apply
  to such values: truth, \<open>str\<close>, \<open>int\<close>, \<open>isinstance\<close>, \<open>dict.get\<close> and
  \<open>x or y\<close>. Numbers are Python integers; floating-point payload values do not occur in the
  fields the modelled code reads.
\<close>

datatype pyval =
    PyNone
  | PyBool bool
  | PyInt int
  | PyStr str
  | PyList "pyval list"
  | PyDict "(str \<times> pyval) list"

datatype py_exn = ValueError str | KeyError str | RuntimeError str | TypeError str | OSError str
  | TimeoutError str

fun truthy :: "pyval \<Rightarrow> bool" where
  "truthy PyNone = False"
| "truthy (PyBool b) = b"
| "truthy (PyInt i) = (i \<noteq> 0)"
| "truthy (PyStr s) = (s \<noteq> [])"
| "truthy (PyList xs) = (xs \<noteq> [])"
| "truthy (PyDict d) = (d \<noteq> [])"

definition py_or :: "pyval \<Rightarrow> pyval \<Rightarrow> pyval" where
  "py_or x y = (if truthy x then x else y)"

fun is_dict :: "pyval \<Rightarrow> bool" where
  "is_dict (PyDict _) = True"
| "is_dict _ = False"

fun is_list :: "pyval \<Rightarrow> bool" where
  "is_list (PyList _) = True"
| "is_list _ = False"

fun dict_of :: "pyval \<Rightarrow> (str \<times> pyval) list" where
  "dict_of (PyDict d) = d"
| "dict_of _ = []"

fun list_of :: "pyval \<Rightarrow> pyval list" where
  "list_of (PyList xs) = xs"
| "list_of _ = []"

text \<open>\<open>d.get(k)\<close> and \<open>d.get(k, default)\<close>.\<close>

definition py_get :: "(str, pyval) dict \<Rightarrow> str \<Rightarrow> pyval" where
  "py_get d k = (case map_of d k of None \<Rightarrow> PyNone | Some v \<Rightarrow> v)"

definition py_get_or :: "(str, pyval) dict \<Rightarrow> str \<Rightarrow> pyval \<Rightarrow> pyval" where
  "py_get_or d k v = (case map_of d k of None \<Rightarrow> v | Some w \<Rightarrow> w)"

section \<open>str and repr\<close>

fun nat_digits :: "nat \<Rightarrow> str" where
  "nat_digits n =
     (let d = char_of (48 + n mod 10)
      in if n < 10 then [d] else nat_digits (n div 10) @ [d])"

declare nat_digits.simps [simp del]

definition int_str :: "int \<Rightarrow> str" where
  "int_str i = (if i < 0 then CHR ''-'' # nat_digits (nat (- i)) else nat_digits (nat i))"

definition hex_digit :: "nat \<Rightarrow> char" where
  "hex_digit n = char_of (if n < 10 then 48 + n else 87 + n)"

definition repr_char :: "char \<Rightarrow> char \<Rightarrow> str" where
  "repr_char quo c =
     (let n = of_char c :: nat
      in if c = quo \<or> c = CHR 0x5C then [CHR 0x5C, c]
         else if c = CHR 0x0A then [CHR 0x5C, CHR ''n'']
         else if c = CHR 0x0D then [CHR 0x5C, CHR ''r'']
         else if c = CHR 0x09 then [CHR 0x5C, CHR ''t'']
         else if n < 32 \<or> (127 \<le> n \<and> n \<le> 160) \<or> n = 173
         then [CHR 0x5C, CHR ''x'', hex_digit (n div 16), hex_digit (n mod 16)]
         else [c])"

definition repr_str :: "str \<Rightarrow> str" where
  "repr_str s =
     (let quo = (if CHR 0x27 \<in> set s \<and> CHR 0x22 \<notin> set s then CHR 0x22 else CHR 0x27)
      in [quo] @ concat (map (repr_char quo) s) @ [quo])"

fun py_repr :: "pyval \<Rightarrow> str" where
  "py_repr PyNone = ''None''"
| "py_repr (PyBool b) = (if b then ''True'' else ''False'')"
| "py_repr (PyInt i) = int_str i"
| "py_repr (PyStr s) = repr_str s"
| "py_repr (PyList xs) = ''['' @ join '', '' (map py_repr xs) @ '']''"
| "py_repr (PyDict d) =
     ''{'' @ join '', '' (map (\<lambda>(k, v). repr_str k @ '': '' @ py_repr v) d) @ ''}''"

fun py_str :: "pyval \<Rightarrow> str" where
  "py_str (PyStr s) = s"
| "py_str v = py_repr v"

text \<open>\<open>str(x or '').strip()\<close>, the way most fields of a payload are read.\<close>

definition clean_str :: "pyval \<Rightarrow> str" where
  "clean_str v = strip (py_str (py_or v (PyStr [])))"

section \<open>int\<close>

definition is_digit :: "char \<Rightarrow> bool" where
  "is_digit c \<longleftrightarrow> 48 \<le> (of_char c :: nat) \<and> (of_char c :: nat) \<le> 57"

definition digit_val :: "char \<Rightarrow> nat" where
  "digit_val c = of_char c - 48"

text \<open>
  Decimal digits with single underscores between them, most significant first;
  \<open>None\<close> where \<open>int\<close> raises \<open>ValueError\<close>.
\<close>

fun digits_val :: "nat \<Rightarrow> str \<Rightarrow> nat option" where
  "digits_val acc [] = Some acc"
| "digits_val acc (c # cs) =
     (if is_digit c then digits_val (10 * acc + digit_val c) cs
      else if c = CHR ''_'' \<and> cs \<noteq> [] \<and> is_digit (hd cs) then digits_val acc cs
      else None)"

definition nat_of_str :: "str \<Rightarrow> nat option" where
  "nat_of_str s = (case s of [] \<Rightarrow> None | c # cs \<Rightarrow> if is_digit c then digits_val 0 s else None)"

definition int_of_str :: "str \<Rightarrow> int option" where
  "int_of_str raw =
     (case strip raw of
        [] \<Rightarrow> None
      | c # cs \<Rightarrow>
          if c = CHR ''-'' then map_option (\<lambda>n. - int n) (nat_of_str cs)
          else if c = CHR ''+'' then map_option int (nat_of_str cs)
          else map_option int (nat_of_str (c # cs)))"

fun py_int :: "pyval \<Rightarrow> py_exn + int" where
  "py_int (PyInt i) = Inr i"
| "py_int (PyBool b) = Inr (if b then 1 else 0)"
| "py_int (PyStr s) = (case int_of_str s of None \<Rightarrow> Inl (ValueError s) | Some i \<Rightarrow> Inr i)"
| "py_int v = Inl (TypeError (py_repr v))"

text \<open>\<open>str(d.get(k) or v)\<close>, and \<open>s.replace('Z', '+00:00')\<close>.\<close>

definition text_or :: "(str, pyval) dict \<Rightarrow> str \<Rightarrow> str \<Rightarrow> str" where
  "text_or payload k v = py_str (py_or (py_get payload k) (PyStr v))"

definition utc_suffix :: "str \<Rightarrow> str" where
  "utc_suffix s = concat (map (\<lambda>c. if c = CHR ''Z'' then ''+00:00'' else [c]) s)"

section \<open>Laws\<close>

lemma py_or_truthy [simp]: "truthy x \<Longrightarrow> py_or x y = x"
  by (simp add: py_or_def)

lemma py_or_falsy [simp]: "\<not> truthy x \<Longrightarrow> py_or x y = y"
  by (simp add: py_or_def)

lemma clean_str_PyStr [simp]: "clean_str (PyStr s) = strip s"
  by (cases "s = []") (simp_all add: clean_str_def)

lemma clean_str_PyNone [simp]: "clean_str PyNone = []"
  by (simp add: clean_str_def)

lemma strip_clean_str [simp]: "strip (clean_str v) = clean_str v"
  by (simp add: clean_str_def)

lemma py_get_dset [simp]: "py_get (dset k v d) k' = (if k' = k then v else py_get d k')"
  by (simp add: py_get_def)

lemma is_digit_char: "n < 10 \<Longrightarrow> is_digit (char_of (48 + n)) \<and> digit_val (char_of (48 + n)) = n"
  by (simp add: is_digit_def digit_val_def)

lemma digits_val_append:
  "list_all is_digit t \<Longrightarrow>
     digits_val a (t @ u) = digits_val (foldl (\<lambda>a c. 10 * a + digit_val c) a t) u"
  by (induction t arbitrary: a) simp_all

lemma nat_digits_props:
  "nat_digits n \<noteq> [] \<and> list_all is_digit (nat_digits n)
     \<and> foldl (\<lambda>a c. 10 * a + digit_val c) 0 (nat_digits n) = n"
proof (induction n rule: nat_digits.induct)
  case (1 n)
  then show ?case
    using is_digit_char [of "n mod 10"] is_digit_char [of n]
    by (subst (1 2 3) nat_digits.simps) (auto simp: Let_def)
qed

lemma digits_val_nat_digits: "digits_val 0 (nat_digits n) = Some n"
  using digits_val_append [of "nat_digits n" 0 "[]"] nat_digits_props [of n] by simp

lemma nat_digits_no_space: "c \<in> set (nat_digits n) \<Longrightarrow> is_digit c"
  using nat_digits_props [of n] by (simp add: list_all_iff)

lemma is_digit_not_space: "is_digit c \<Longrightarrow> \<not> is_space c"
  by (auto simp: is_digit_def is_space_def)

lemma strip_digits: "s \<noteq> [] \<Longrightarrow> list_all is_digit s \<Longrightarrow> strip s = s"
  by (rule strip_id_iff_ends) (auto simp: list_all_iff is_digit_not_space)

lemma nat_of_str_nat_digits: "nat_of_str (nat_digits n) = Some n"
  using nat_digits_props [of n] digits_val_nat_digits [of n]
  by (cases "nat_digits n") (simp_all add: nat_of_str_def)

lemma int_of_str_nat_digits: "int_of_str (nat_digits n) = Some (int n)"
proof -
  obtain c cs where nd: "nat_digits n = c # cs" and "is_digit c"
    using nat_digits_props [of n] by (cases "nat_digits n") auto
  then have "c \<noteq> CHR ''-''" "c \<noteq> CHR ''+''" by (auto simp: is_digit_def)
  moreover have "strip (nat_digits n) = nat_digits n"
    using nat_digits_props [of n] by (simp add: strip_digits)
  ultimately show ?thesis
    using nat_of_str_nat_digits [of n] by (simp add: int_of_str_def nd)
qed

lemma int_of_str_int_str: "int_of_str (int_str i) = Some i"
proof (cases "i < 0")
  case True
  let ?d = "nat_digits (nat (- i))"
  have "strip (CHR ''-'' # ?d) = CHR ''-'' # ?d"
  proof (rule strip_id_iff_ends)
    show "\<not> is_space (last (CHR ''-'' # ?d))"
      using nat_digits_props [of "nat (- i)"]
      by (simp add: is_digit_not_space list_all_iff)
  qed (auto simp: is_space_def)
  with True show ?thesis
    by (simp add: int_str_def int_of_str_def nat_of_str_nat_digits)
qed (simp add: int_str_def int_of_str_nat_digits)

end
