(* ===== verification/Permissions.thy ===== *)
theory Permissions
  imports Futures Py_Values
begin

text \<open>
  Waiting for a human (\<open>agent_core/permissions/wait_registry.py\<close>) and the one-shot
  licence to run a dangerous command
  (\<open>agent_core/permissions/bash_danger_approvals.py\<close>).

  The module-level dictionary of futures is a \<open>waiters\<close> table keyed by permission id. The
  notification is modelled as the choice of the channel that gets it; the handlers are opaque
  values of type \<open>'h\<close>. Scheduling the coroutine or calling the hook is the host's.
\<close>

section \<open>Decisions and the table of waits\<close>

record perm_decision =
  d_allowed :: bool
  d_path_prefix :: "str option"
  d_note :: "str option"
  d_clarify_requested :: bool
  d_user_instruction :: "str option"
  d_persist_acl :: bool
  d_path_grants :: "pyval list option"

type_synonym perm_waits = "(str, perm_decision) waiters"

definition register_permission_wait :: "str \<Rightarrow> perm_waits \<Rightarrow> fid \<times> perm_waits" where
  "register_permission_wait pid w = add_wait pid w"

definition resolve_permission :: "str \<Rightarrow> perm_decision \<Rightarrow> perm_waits \<Rightarrow> bool \<times> perm_waits" where
  "resolve_permission permission_id d w = pop_settle (strip permission_id) (Result d) w"

definition cancel_permission_wait :: "str \<Rightarrow> str \<Rightarrow> perm_waits \<Rightarrow> bool \<times> perm_waits" where
  "cancel_permission_wait permission_id reason w = pop_settle permission_id (Failed reason) w"

section \<open>Where a pending request is announced\<close>

record 'h notify_env =
  ne_ipc_stream :: "'h option"
  ne_session_streams :: "(str, 'h) dict"
  ne_hook :: "'h option"

text \<open>
  The scope of \<open>permission_session_notify_scope\<close>: entering saves the handler that was
  there, leaving puts it back. A blank session id makes it a no-op.
\<close>

definition enter_session_scope :: "str \<Rightarrow> 'h \<Rightarrow> 'h notify_env \<Rightarrow> 'h option \<times> 'h notify_env" where
  "enter_session_scope session_id h env =
     (let sid = strip session_id
      in if sid = [] then (None, env)
         else (map_of (ne_session_streams env) sid,
               env\<lparr>ne_session_streams := dset sid h (ne_session_streams env)\<rparr>))"

definition leave_session_scope :: "str \<Rightarrow> 'h option \<Rightarrow> 'h notify_env \<Rightarrow> 'h notify_env" where
  "leave_session_scope session_id prev env =
     (let sid = strip session_id
      in if sid = [] then env
         else (case prev of
                 None \<Rightarrow> env\<lparr>ne_session_streams := dpop sid (ne_session_streams env)\<rparr>
               | Some h \<Rightarrow> env\<lparr>ne_session_streams := dset sid h (ne_session_streams env)\<rparr>))"

datatype 'h notice = NoNotice | StreamTask 'h | HookCall 'h

text \<open>\<open>loop\<close>: an event loop is running in the calling thread.\<close>

definition notify_permission_pending :: "bool \<Rightarrow> pyval \<Rightarrow> 'h notify_env \<Rightarrow> 'h notice" where
  "notify_permission_pending loop session_id env =
     (case ne_ipc_stream env of
        Some h \<Rightarrow> if loop then StreamTask h else NoNotice
      | None \<Rightarrow>
          let sid = clean_str session_id;
              via_hook = (case ne_hook env of None \<Rightarrow> NoNotice | Some h \<Rightarrow> HookCall h)
          in if sid \<noteq> []
             then (case map_of (ne_session_streams env) sid of
                     Some h \<Rightarrow> if loop then StreamTask h else NoNotice
                   | None \<Rightarrow> via_hook)
             else via_hook)"

section \<open>Licences for dangerous commands\<close>

type_synonym danger_grants = "(str, str) dict"

definition register_bash_danger_grant :: "str \<Rightarrow> str \<Rightarrow> danger_grants \<Rightarrow> danger_grants" where
  "register_bash_danger_grant permission_id command g =
     (let pid = strip permission_id; cmd = strip command
      in if pid = [] \<or> cmd = [] then g else dset pid cmd g)"

definition consume_bash_danger_grant ::
  "str option \<Rightarrow> str \<Rightarrow> danger_grants \<Rightarrow> bool \<times> danger_grants" where
  "consume_bash_danger_grant permission_id command g =
     (if opt_str permission_id = [] then (False, g)
      else
        let pid = strip (opt_str permission_id); cmd = strip command
        in (case map_of g pid of
              None \<Rightarrow> (False, g)
            | Some expected \<Rightarrow> if expected \<noteq> cmd then (False, g) else (True, dpop pid g)))"

section \<open>Both tables keep the one-shot contract\<close>

interpretation perm: one_shot waiters_ok strip waiting resolve_permission
proof
  fix w :: perm_waits and k d i
  assume ok: "waiters_ok w"
  then show "waiters_ok (snd (resolve_permission k d w))"
    by (simp add: resolve_permission_def pop_settle_ok)
  show "fst (resolve_permission k d w) \<Longrightarrow> waiting w (strip k)"
    by (simp add: resolve_permission_def pop_settle_iff)
  show "\<not> waiting (snd (resolve_permission k d w)) (strip k)"
    by (simp add: resolve_permission_def not_has_key_not_waiting pop_settle_consumes)
  show "waiting (snd (resolve_permission k d w)) i \<Longrightarrow> waiting w i"
    unfolding resolve_permission_def by (rule table.settle_frame [OF ok])
qed

interpretation danger: one_shot "\<lambda>_. True" "\<lambda>p. strip (opt_str p)" "\<lambda>g i. has_key i g"
    consume_bash_danger_grant
  by unfold_locales
    (auto simp: consume_bash_danger_grant_def Let_def has_key_iff split: if_splits option.splits)

lemma cancel_laws:
  "waiters_ok w \<Longrightarrow> waiters_ok (snd (cancel_permission_wait pid r w))"
  "\<not> waiting (snd (cancel_permission_wait pid r w)) pid"
  by (simp_all add: cancel_permission_wait_def pop_settle_ok not_has_key_not_waiting pop_settle_consumes)

lemma not_waiting_resolve: "\<not> waiting w (strip pid) \<Longrightarrow> fst (resolve_permission pid d w) = False"
  by (simp add: resolve_permission_def pop_settle_iff)

lemma scope_restores:
  assumes "enter_session_scope sid h env = (prev, env')"
  shows "map_of (ne_session_streams (leave_session_scope sid prev env')) k
     = map_of (ne_session_streams env) k"
  using assms
  by (auto simp: enter_session_scope_def leave_session_scope_def Let_def split: if_splits option.splits)

definition demo_approval :: perm_decision where
  "demo_approval = \<lparr>d_allowed = True, d_path_prefix = None, d_note = None,
     d_clarify_requested = False, d_user_instruction = None, d_persist_acl = False,
     d_path_grants = None\<rparr>"

section \<open>Properties\<close>

text \<open>Whatever sequence of answers reaches the permission registry, for any permission id at
  most one of them is accepted: a request is decided once.\<close>

theorem permission_decided_once:
  assumes "waiters_ok w"
  shows "length (filter (\<lambda>((permission_id, _), accepted). strip permission_id = i \<and> accepted)
           (zip answers (fst (run_ops (\<lambda>(k, d). resolve_permission k d) answers w)))) \<le> 1"
  using perm.settled_at_most_once [OF assms, of i answers]
  by (simp add: case_prod_unfold)

text \<open>A licence for a dangerous command is spent at most once: among any sequence of attempts
  to use it, at most one per permission id succeeds, and a successful attempt names exactly the
  approved command (up to surrounding blanks).\<close>

theorem danger_licence_spent_once:
  "length (filter (\<lambda>((pid, _), used). strip (opt_str pid) = i \<and> used)
      (zip attempts (fst (run_ops (\<lambda>(k, c). consume_bash_danger_grant k c) attempts g)))) \<le> 1
   \<and> (fst (consume_bash_danger_grant pid command g) \<longleftrightarrow>
        opt_str pid \<noteq> [] \<and> map_of g (strip (opt_str pid)) = Some (strip command))"
  using danger.settled_at_most_once [OF TrueI, of i attempts g]
  by (auto simp: case_prod_unfold consume_bash_danger_grant_def Let_def split: option.splits if_splits)

lemma permission_decided_once_witness:
  "let w = snd (register_permission_wait ''p'' no_waiters);
       answers = [(''p'', demo_approval), ('' p'', demo_approval)]
   in waiters_ok w \<and> fst (resolve_permission ''p'' demo_approval w)
      \<and> length (filter (\<lambda>((permission_id, _), accepted). strip permission_id = ''p'' \<and> accepted)
          (zip answers (fst (run_ops (\<lambda>(k, d). resolve_permission k d) answers w)))) \<le> 1"
proof -
  have ok: "waiters_ok (snd (register_permission_wait ''p'' (no_waiters :: perm_waits)))"
    unfolding register_permission_wait_def by (rule add_wait_ok) simp
  have "strip ''p'' = ''p''" by (simp add: strip_id_iff_ends is_space_def)
  then have "fst (resolve_permission ''p'' demo_approval (snd (register_permission_wait ''p'' no_waiters)))"
    by (simp add: resolve_permission_def pop_settle_iff register_permission_wait_def add_wait_waiting)
  then show ?thesis unfolding Let_def
    by (intro conjI ok permission_decided_once [OF ok])
qed

end
