(* ===== verification/Path_Grants.thy ===== *)
theory Path_Grants
  imports Py_Values "HOL-Library.List_Lexorder" "HOL-Library.Char_ord"
begin

text \<open>
  Path grants per user and access mode (\<open>agent_core/agent/path_grants.py\<close>, with the
  segment check of \<open>memory_paths.py\<close>): a persistent list in a JSON file per user and mode,
  and a list that lives with the process.

  The file system below the ACL directory is a dictionary from (base, frontend, user, mode) to
  what the file holds: a parsed JSON value, or \<open>None\<close> for a file that cannot be read or
  parsed. The operating system's path operations are parameters: \<open>resolve\<close> is
  \<open>str(Path(p).expanduser().resolve())\<close>, with \<open>None\<close> for an \<open>OSError\<close>, and
  \<open>normp\<close> is \<open>_normalize_prefix\<close> for a given source and user, which ends in the same
  resolution.
\<close>

datatype access_mode = Read | Write

fun mode_str :: "access_mode \<Rightarrow> str" where
  "mode_str Read = ''read''"
| "mode_str Write = ''write''"

definition normalize_mode :: "str \<Rightarrow> py_exn + access_mode" where
  "normalize_mode m =
     (let mode = lower (strip m)
      in if mode = ''read'' then Inr Read
         else if mode = ''write'' then Inr Write
         else Inl (ValueError m))"

definition grant_key :: "str \<Rightarrow> str \<Rightarrow> str \<times> str" where
  "grant_key source user_id = (str_or (strip source) ''cli'', str_or (strip user_id) ''root'')"

definition validate_segment :: "str \<Rightarrow> py_exn + str" where
  "validate_segment v =
     (let s = strip v
      in if s = [] then Inl (ValueError ''empty segment'')
         else if length s > 128 then Inl (ValueError ''segment too long'')
         else if s = ''.'' \<or> s = ''..'' \<or> list_ex (\<lambda>c. c \<in> set s) [CHR ''/'', CHR 0x5C, CHR '':'']
         then Inl (ValueError ''separator in segment'')
         else Inr s)"

type_synonym acl_key = "str \<times> str \<times> str \<times> access_mode"

definition acl_path :: "str \<Rightarrow> str \<Rightarrow> str \<Rightarrow> access_mode \<Rightarrow> py_exn + acl_key" where
  "acl_path base source user_id mode =
     (case validate_segment (str_or (strip source) ''cli'') of
        Inl e \<Rightarrow> Inl e
      | Inr fe \<Rightarrow>
          (case validate_segment (str_or (strip user_id) ''root'') of
             Inl e \<Rightarrow> Inl e
           | Inr uid \<Rightarrow> Inr (strip (str_or base ''./data/acl''), fe, uid, mode)))"

record acl_state =
  acl_files :: "(acl_key, pyval option) dict"
  acl_ephemeral :: "access_mode \<Rightarrow> (str \<times> str, str list) dict"

definition no_grants :: acl_state where
  "no_grants = \<lparr>acl_files = [], acl_ephemeral = (\<lambda>_. [])\<rparr>"

text \<open>The prefixes a parsed file grants: non-blank strings of \<open>prefixes\<close> that resolve.\<close>

fun prefix_entry :: "(str \<Rightarrow> str option) \<Rightarrow> pyval \<Rightarrow> str list" where
  "prefix_entry resolve (PyStr p) =
     (if strip p = [] then [] else (case resolve p of None \<Rightarrow> [] | Some q \<Rightarrow> [q]))"
| "prefix_entry resolve _ = []"

definition file_prefixes :: "(str \<Rightarrow> str option) \<Rightarrow> pyval \<Rightarrow> str list" where
  "file_prefixes resolve raw =
     (let prefixes = (if is_dict raw then py_get (dict_of raw) ''prefixes'' else PyNone)
      in if is_list prefixes then concat (map (prefix_entry resolve) (list_of prefixes)) else [])"

definition load_user_path_prefixes ::
  "(str \<Rightarrow> str option) \<Rightarrow> str \<Rightarrow> str \<Rightarrow> str \<Rightarrow> str \<Rightarrow> acl_state \<Rightarrow> py_exn + str list" where
  "load_user_path_prefixes resolve base source user_id access_mode st =
     (case normalize_mode access_mode of
        Inl e \<Rightarrow> Inl e
      | Inr mode \<Rightarrow>
          (case acl_path base source user_id mode of
             Inl e \<Rightarrow> Inl e
           | Inr path \<Rightarrow>
               (case map_of (acl_files st) path of
                  None \<Rightarrow> Inr []
                | Some None \<Rightarrow> Inr []
                | Some (Some raw) \<Rightarrow> Inr (file_prefixes resolve raw))))"

definition append_user_path_prefix ::
  "(str \<Rightarrow> str option) \<Rightarrow> (str \<Rightarrow> str \<Rightarrow> str \<Rightarrow> str) \<Rightarrow> str \<Rightarrow> str \<Rightarrow> str \<Rightarrow> str \<Rightarrow> str
     \<Rightarrow> acl_state \<Rightarrow> py_exn + acl_state" where
  "append_user_path_prefix resolve normp base source user_id prefix_abs access_mode st =
     (case normalize_mode access_mode of
        Inl e \<Rightarrow> Inl e
      | Inr mode \<Rightarrow>
          let p = normp source user_id prefix_abs
          in (case load_user_path_prefixes resolve base source user_id (mode_str mode) st of
                Inl e \<Rightarrow> Inl e
              | Inr existing \<Rightarrow>
                  if p \<in> set existing then Inr st
                  else (case acl_path base source user_id mode of
                          Inl e \<Rightarrow> Inl e
                        | Inr path \<Rightarrow>
                            let merged = sort (remdups (existing @ [p]))
                            in Inr (st\<lparr>acl_files :=
                                 dset path (Some (PyDict [(''prefixes'', PyList (map PyStr merged))]))
                                   (acl_files st)\<rparr>))))"

definition add_ephemeral_path_prefix ::
  "(str \<Rightarrow> str \<Rightarrow> str \<Rightarrow> str) \<Rightarrow> str \<Rightarrow> str \<Rightarrow> str \<Rightarrow> str \<Rightarrow> acl_state \<Rightarrow> py_exn + acl_state" where
  "add_ephemeral_path_prefix normp source user_id prefix_abs access_mode st =
     (case normalize_mode access_mode of
        Inl e \<Rightarrow> Inl e
      | Inr mode \<Rightarrow>
          let p = normp source user_id prefix_abs;
              k = grant_key source user_id;
              cur = (case map_of (acl_ephemeral st mode) k of None \<Rightarrow> [] | Some c \<Rightarrow> c);
              new = (if p \<in> set cur then cur else cur @ [p])
          in Inr (st\<lparr>acl_ephemeral :=
               (acl_ephemeral st)(mode := dset k new (acl_ephemeral st mode))\<rparr>))"

definition list_ephemeral_path_prefixes ::
  "str \<Rightarrow> str \<Rightarrow> str \<Rightarrow> acl_state \<Rightarrow> py_exn + str list" where
  "list_ephemeral_path_prefixes source user_id access_mode st =
     (case normalize_mode access_mode of
        Inl e \<Rightarrow> Inl e
      | Inr mode \<Rightarrow>
          Inr (case map_of (acl_ephemeral st mode) (grant_key source user_id) of
                 None \<Rightarrow> [] | Some c \<Rightarrow> c))"

section \<open>Laws\<close>

lemma normalize_mode_str [simp]: "normalize_mode (mode_str m) = Inr m"
  by (cases m) (simp_all add: normalize_mode_def lower_def lower_char_def strip_def lstrip_def
      rstrip_def is_space_def)

lemma validate_segment_safe:
  "validate_segment v = Inr s \<Longrightarrow>
     s = strip v \<and> s \<noteq> [] \<and> length s \<le> 128 \<and> s \<notin> {''.'', ''..''}
     \<and> set s \<inter> {CHR ''/'', CHR 0x5C, CHR '':''} = {}"
  by (auto simp: validate_segment_def Let_def split: if_splits)

lemma acl_path_cases:
  "acl_path base source user_id mode = Inr path \<Longrightarrow>
     \<exists>fe uid. path = (strip (str_or base ''./data/acl''), fe, uid, mode)
       \<and> validate_segment (str_or (strip source) ''cli'') = Inr fe
       \<and> validate_segment (str_or (strip user_id) ''root'') = Inr uid"
  by (auto simp: acl_path_def split: sum.splits)

text \<open>What a user may reach: the persistent prefixes and the ones of this process.\<close>

definition granted ::
  "(str \<Rightarrow> str option) \<Rightarrow> str \<Rightarrow> str \<Rightarrow> str \<Rightarrow> access_mode \<Rightarrow> acl_state \<Rightarrow> str set" where
  "granted resolve base source user_id mode st =
     (case load_user_path_prefixes resolve base source user_id (mode_str mode) st of
        Inl _ \<Rightarrow> {} | Inr ps \<Rightarrow> set ps)
     \<union> (case list_ephemeral_path_prefixes source user_id (mode_str mode) st of
        Inl _ \<Rightarrow> {} | Inr ps \<Rightarrow> set ps)"

definition same_owner :: "str \<Rightarrow> str \<Rightarrow> str \<Rightarrow> str \<Rightarrow> bool" where
  "same_owner source user_id source' user_id' \<longleftrightarrow>
     grant_key source user_id = grant_key source' user_id'"

lemma concat_prefix_entries:
  assumes "\<And>q. q \<in> set ps \<Longrightarrow> strip q \<noteq> [] \<and> resolve q = Some q"
  shows "concat (map (prefix_entry resolve) (map PyStr ps)) = ps"
  using assms by (induction ps) auto

lemma file_prefixes_written:
  assumes "\<And>q. q \<in> set ps \<Longrightarrow> strip q \<noteq> [] \<and> resolve q = Some q"
  shows "file_prefixes resolve (PyDict [(''prefixes'', PyList (map PyStr ps))]) = ps"
  using concat_prefix_entries [of ps resolve] assms by (simp add: file_prefixes_def py_get_def)

text \<open>A resolved path resolves to itself; that is what every stored prefix is.\<close>

definition resolver_ok :: "(str \<Rightarrow> str option) \<Rightarrow> bool" where
  "resolver_ok resolve \<longleftrightarrow>
     (\<forall>p q. resolve p = Some q \<longrightarrow> strip q \<noteq> [] \<and> resolve q = Some q)"

lemma file_prefixes_resolved:
  assumes "resolver_ok resolve" and "q \<in> set (file_prefixes resolve raw)"
  shows "strip q \<noteq> [] \<and> resolve q = Some q"
proof -
  obtain v where "q \<in> set (prefix_entry resolve v)"
    using assms(2) by (auto simp: file_prefixes_def Let_def split: if_splits)
  then obtain p where "resolve p = Some q"
    by (cases v) (auto split: if_splits option.splits)
  then show ?thesis using assms(1) by (auto simp: resolver_ok_def)
qed

lemma load_resolved:
  assumes "resolver_ok resolve"
    and "load_user_path_prefixes resolve base source user_id m st = Inr ps" and "q \<in> set ps"
  shows "strip q \<noteq> [] \<and> resolve q = Some q"
  using assms file_prefixes_resolved [OF assms(1)]
  by (auto simp: load_user_path_prefixes_def split: sum.splits option.splits)

text \<open>The persistent list after a successful append.\<close>

lemma load_after_append:
  assumes ok: "resolver_ok resolve"
    and p: "normp source user_id prefix_abs = p" "strip p \<noteq> []" "resolve p = Some p"
    and app: "append_user_path_prefix resolve normp base source user_id prefix_abs (mode_str m) st = Inr st'"
    and ld: "load_user_path_prefixes resolve base source user_id (mode_str m) st = Inr ps"
  shows "\<exists>qs. load_user_path_prefixes resolve base source user_id (mode_str m) st' = Inr qs
     \<and> set qs = insert p (set ps)"
proof (cases "p \<in> set ps")
  case True
  with app ld p(1) have "st' = st" by (simp add: append_user_path_prefix_def)
  with True ld show ?thesis by (auto simp: insert_absorb)
next
  case False
  let ?merged = "sort (remdups (ps @ [p]))"
  obtain path where path: "acl_path base source user_id m = Inr path"
    and st': "st' = st\<lparr>acl_files := dset path (Some (PyDict [(''prefixes'', PyList (map PyStr ?merged))])) (acl_files st)\<rparr>"
    using app ld p(1) False
    by (auto simp: append_user_path_prefix_def Let_def split: sum.splits)
  have "strip q \<noteq> [] \<and> resolve q = Some q" if "q \<in> set ?merged" for q
    using that load_resolved [OF ok ld] p(2,3) by auto
  then have "file_prefixes resolve (PyDict [(''prefixes'', PyList (map PyStr ?merged))]) = ?merged"
    by (rule file_prefixes_written)
  with path st' show ?thesis
    by (simp add: load_user_path_prefixes_def)
qed

section \<open>Who gets what\<close>

lemma strip_words [simp]: "strip ''cli'' = ''cli''" "strip ''root'' = ''root''"
  by (simp_all add: strip_id_iff_ends is_space_def)

lemma acl_path_key:
  assumes "acl_path base source user_id mode = Inr path"
  shows "path = (strip (str_or base ''./data/acl''), fst (grant_key source user_id),
     snd (grant_key source user_id), mode)"
proof -
  obtain fe uid where path: "path = (strip (str_or base ''./data/acl''), fe, uid, mode)"
    and "validate_segment (str_or (strip source) ''cli'') = Inr fe"
    and "validate_segment (str_or (strip user_id) ''root'') = Inr uid"
    using acl_path_cases [OF assms] by blast
  then have "fe = strip (str_or (strip source) ''cli'')" "uid = strip (str_or (strip user_id) ''root'')"
    by (simp_all only: validate_segment_safe)
  moreover have "strip (str_or (strip source) ''cli'') = str_or (strip source) ''cli''"
    "strip (str_or (strip user_id) ''root'') = str_or (strip user_id) ''root''"
    by (simp_all add: str_or_def)
  ultimately show ?thesis by (simp add: path grant_key_def)
qed

lemma append_cases:
  assumes "append_user_path_prefix resolve normp base source user_id prefix_abs (mode_str m) st = Inr st'"
  obtains "st' = st"
  | path v where "acl_path base source user_id m = Inr path"
      "st' = st\<lparr>acl_files := dset path v (acl_files st)\<rparr>"
proof (cases "load_user_path_prefixes resolve base source user_id (mode_str m) st")
  case (Inr ps)
  show thesis
  proof (cases "normp source user_id prefix_abs \<in> set ps")
    case True
    with Inr assms show thesis by (intro that(1)) (simp add: append_user_path_prefix_def Let_def)
  next
    case False
    with Inr assms obtain path where "acl_path base source user_id m = Inr path"
      by (cases "acl_path base source user_id m") (simp_all add: append_user_path_prefix_def Let_def)
    moreover from this Inr assms False have "st' = st\<lparr>acl_files := dset path
        (Some (PyDict [(''prefixes'', PyList (map PyStr (sort (remdups (ps @ [normp source user_id prefix_abs])))))]))
        (acl_files st)\<rparr>"
      by (simp add: append_user_path_prefix_def Let_def)
    ultimately show thesis by (rule that(2))
  qed
qed (use assms in \<open>simp add: append_user_path_prefix_def Let_def\<close>)

lemma append_changes:
  assumes "append_user_path_prefix resolve normp base source user_id prefix_abs (mode_str m) st = Inr st'"
  shows "acl_ephemeral st' = acl_ephemeral st"
    and "\<And>path. path \<noteq> (strip (str_or base ''./data/acl''), fst (grant_key source user_id),
       snd (grant_key source user_id), m) \<Longrightarrow> map_of (acl_files st') path = map_of (acl_files st) path"
  using acl_path_key [of base source user_id m] by (cases rule: append_cases [OF assms]; auto)+

lemma append_other:
  assumes "append_user_path_prefix resolve normp base source user_id prefix_abs (mode_str m) st = Inr st'"
    and "\<not> same_owner s u source user_id \<or> m' \<noteq> m"
  shows "granted resolve base' s u m' st' = granted resolve base' s u m' st"
proof -
  have "map_of (acl_files st') path = map_of (acl_files st) path"
    if "acl_path base' s u m' = Inr path" for path
    unfolding acl_path_key [OF that]
    by (rule append_changes(2) [OF assms(1)]) (use assms(2) in \<open>auto simp: same_owner_def prod_eq_iff\<close>)
  then have "load_user_path_prefixes resolve base' s u (mode_str m') st'
      = load_user_path_prefixes resolve base' s u (mode_str m') st"
    by (auto simp: load_user_path_prefixes_def split: sum.split)
  then show ?thesis
    by (simp add: granted_def list_ephemeral_path_prefixes_def append_changes(1) [OF assms(1)])
qed

lemma append_own:
  assumes "resolver_ok resolve"
    and "strip (normp source user_id prefix_abs) \<noteq> []"
    and "resolve (normp source user_id prefix_abs) = Some (normp source user_id prefix_abs)"
    and "append_user_path_prefix resolve normp base source user_id prefix_abs (mode_str m) st = Inr st'"
  shows "granted resolve base source user_id m st'
     = insert (normp source user_id prefix_abs) (granted resolve base source user_id m st)"
proof -
  obtain ps where ld: "load_user_path_prefixes resolve base source user_id (mode_str m) st = Inr ps"
    using assms(4) by (auto simp: append_user_path_prefix_def Let_def split: sum.splits)
  then obtain qs where "load_user_path_prefixes resolve base source user_id (mode_str m) st' = Inr qs"
    "set qs = insert (normp source user_id prefix_abs) (set ps)"
    using load_after_append [OF assms(1) refl assms(2-4)] by blast
  with ld show ?thesis
    by (auto simp: granted_def list_ephemeral_path_prefixes_def append_changes(1) [OF assms(4)])
qed

lemma ephemeral_changes:
  assumes "add_ephemeral_path_prefix normp source user_id prefix_abs (mode_str m) st = Inr st'"
  shows "acl_files st' = acl_files st"
    and "m' \<noteq> m \<or> k \<noteq> grant_key source user_id \<Longrightarrow>
       map_of (acl_ephemeral st' m') k = map_of (acl_ephemeral st m') k"
    and "\<exists>c. map_of (acl_ephemeral st' m) (grant_key source user_id) = Some c
       \<and> set c = insert (normp source user_id prefix_abs)
           (case map_of (acl_ephemeral st m) (grant_key source user_id) of None \<Rightarrow> {} | Some d \<Rightarrow> set d)"
  using assms by (auto simp: add_ephemeral_path_prefix_def Let_def insert_absorb split: option.splits)

lemma load_same_files:
  "acl_files st' = acl_files st \<Longrightarrow>
     load_user_path_prefixes resolve base s u m st' = load_user_path_prefixes resolve base s u m st"
  by (auto simp: load_user_path_prefixes_def split: sum.split)

lemma ephemeral_other:
  assumes "add_ephemeral_path_prefix normp source user_id prefix_abs (mode_str m) st = Inr st'"
    and "\<not> same_owner s u source user_id \<or> m' \<noteq> m"
  shows "granted resolve base' s u m' st' = granted resolve base' s u m' st"
proof -
  have "map_of (acl_ephemeral st' m') (grant_key s u) = map_of (acl_ephemeral st m') (grant_key s u)"
    using assms(2) by (intro ephemeral_changes(2) [OF assms(1)]) (auto simp: same_owner_def)
  then show ?thesis
    using load_same_files [OF ephemeral_changes(1) [OF assms(1)]]
    by (simp add: granted_def list_ephemeral_path_prefixes_def)
qed

lemma ephemeral_own:
  assumes "add_ephemeral_path_prefix normp source user_id prefix_abs (mode_str m) st = Inr st'"
  shows "granted resolve base source user_id m st'
     = insert (normp source user_id prefix_abs) (granted resolve base source user_id m st)"
proof -
  obtain c where "map_of (acl_ephemeral st' m) (grant_key source user_id) = Some c"
    "set c = insert (normp source user_id prefix_abs)
       (case map_of (acl_ephemeral st m) (grant_key source user_id) of None \<Rightarrow> {} | Some d \<Rightarrow> set d)"
    using ephemeral_changes(3) [OF assms] by blast
  then show ?thesis
    using load_same_files [OF ephemeral_changes(1) [OF assms]]
    by (auto simp: granted_def list_ephemeral_path_prefixes_def split: option.splits)
qed

lemma ephemeral_succeeds:
  "\<exists>st'. add_ephemeral_path_prefix normp source user_id prefix_abs (mode_str m) st = Inr st'"
  by (simp add: add_ephemeral_path_prefix_def Let_def)

end
