(* ===== verification/Perm_Broker.thy ===== *)
theory Perm_Broker
  imports Permissions Path_Grants
begin

text \<open>
  The permission broker (\<open>agent_core/permissions/broker.py\<close>): register a wait, announce it,
  await the human's decision, apply the path grants that were approved.

  \<open>request\<close> suspends between the announcement and the decision, so it is two
  operations here: \<open>broker_begin\<close> runs to the \<open>await\<close>, \<open>broker_finish\<close> resumes
  with what the wait produced: a decision, a timeout or a cancellation. In between, the rest of
  the program may run any operation on the shared tables. \<open>str(exc)\<close> and the other texts of
  \<open>message\<close> are kept as values of a datatype with one constructor per text. Parsing the
  \<open>details\<close> string as JSON and resolving paths are parameters.
\<close>

section \<open>Requests, results and payloads\<close>

record path_grant =
  pg_path_prefix :: str
  pg_access_mode :: access_mode
  pg_reason :: str

definition to_payload :: "path_grant \<Rightarrow> (str, pyval) dict" where
  "to_payload g =
     (let payload = [(''path_prefix'', PyStr (pg_path_prefix g)),
                     (''access_mode'', PyStr (mode_str (pg_access_mode g)))]
      in if pg_reason g \<noteq> [] then payload @ [(''reason'', PyStr (pg_reason g))] else payload)"

definition from_payload :: "pyval \<Rightarrow> path_grant option" where
  "from_payload raw =
     (if \<not> is_dict raw then None
      else
        let d = dict_of raw;
            pfx = clean_str (py_get d ''path_prefix'')
        in if pfx = [] then None
           else
             let mode = lower (strip (py_str (py_or (py_get d ''access_mode'') (PyStr ''write''))))
             in Some \<lparr>pg_path_prefix = pfx,
                      pg_access_mode = (if mode = ''read'' then Read else Write),
                      pg_reason = clean_str (py_get d ''reason'')\<rparr>)"

record perm_request =
  rq_tool_name :: str
  rq_kind :: str
  rq_summary :: str
  rq_details :: pyval
  rq_command :: "str option"
  rq_cwd :: "str option"
  rq_risk_reasons :: "str list"
  rq_path_grants :: "path_grant list"
  rq_timeout_seconds :: real
  rq_auto_execute :: bool
  rq_exec_ctx :: "(str, pyval) dict"

datatype broker_message =
    MsgNone
  | MsgBypassApproved
  | MsgBypassApplyFailed py_exn
  | MsgTimeout
  | MsgClarify str
  | MsgDenied str
  | MsgApplyFailed py_exn
  | MsgApproved

record broker_result =
  br_allowed :: bool
  br_permission_id :: str
  br_error :: "str option"
  br_message :: broker_message
  br_clarify_requested :: bool
  br_user_instruction :: str
  br_applied_grants :: "path_grant list"
  br_persist_acl :: bool
  br_note :: "str option"

definition blank_result :: "bool \<Rightarrow> str \<Rightarrow> broker_result" where
  "blank_result allowed pid =
     \<lparr>br_allowed = allowed, br_permission_id = pid, br_error = None, br_message = MsgNone,
      br_clarify_requested = False, br_user_instruction = [], br_applied_grants = [],
      br_persist_acl = False, br_note = None\<rparr>"

definition details_to_payload :: "(str \<Rightarrow> pyval option) \<Rightarrow> pyval \<Rightarrow> pyval" where
  "details_to_payload json_loads details =
     (case details of
        PyDict _ \<Rightarrow> details
      | PyList _ \<Rightarrow> details
      | PyStr t \<Rightarrow>
          let s = strip t
          in if s = [] then PyNone
             else (case json_loads s of None \<Rightarrow> details | Some v \<Rightarrow> v)
      | _ \<Rightarrow> details)"

record perm_payload =
  pp_summary :: str
  pp_kind :: str
  pp_details :: pyval
  pp_timeout_seconds :: real
  pp_memory_owner :: pyval
  pp_session_id :: pyval
  pp_source :: pyval
  pp_user_id :: pyval
  pp_tool_name :: str
  pp_auto_execute :: bool
  pp_permission_id :: str
  pp_command :: "str option"
  pp_cwd :: "str option"
  pp_risk_reasons :: "str list option"
  pp_path_grants :: "(str, pyval) dict list option"
  pp_path_prefix :: "str option"
  pp_feishu_chat_id :: "str option"

text \<open>The optional keys of the payload are set only where the source sets them.\<close>

definition some_if :: "bool \<Rightarrow> 'a \<Rightarrow> 'a option" where
  "some_if b x = (if b then Some x else None)"

definition build_payload ::
  "(str \<Rightarrow> pyval option) \<Rightarrow> str \<Rightarrow> perm_request \<Rightarrow> real \<Rightarrow> perm_payload" where
  "build_payload json_loads pid rq timeout =
     (let ctx = rq_exec_ctx rq; grants = rq_path_grants rq;
          cid = clean_str (py_get ctx ''feishu_chat_id'')
      in \<lparr>pp_summary = rq_summary rq, pp_kind = rq_kind rq,
          pp_details = details_to_payload json_loads (rq_details rq),
          pp_timeout_seconds = timeout,
          pp_memory_owner = py_get ctx ''memory_owner'',
          pp_session_id = py_get ctx ''session_id'',
          pp_source = py_get ctx ''source'', pp_user_id = py_get ctx ''user_id'',
          pp_tool_name = rq_tool_name rq, pp_auto_execute = rq_auto_execute rq,
          pp_permission_id = pid,
          pp_command = some_if (opt_str (rq_command rq) \<noteq> []) (opt_str (rq_command rq)),
          pp_cwd = some_if (opt_str (rq_cwd rq) \<noteq> []) (opt_str (rq_cwd rq)),
          pp_risk_reasons = some_if (rq_risk_reasons rq \<noteq> []) (rq_risk_reasons rq),
          pp_path_grants = some_if (grants \<noteq> []) (map to_payload grants),
          pp_path_prefix = (case grants of [] \<Rightarrow> None | g # _ \<Rightarrow> Some (pg_path_prefix g)),
          pp_feishu_chat_id = some_if (cid \<noteq> []) cid\<rparr>)"

definition path_grants_from :: "perm_decision \<Rightarrow> perm_request \<Rightarrow> path_grant list" where
  "path_grants_from d rq =
     (let parsed = (case d_path_grants d of
                      None \<Rightarrow> [] | Some raws \<Rightarrow> List.map_filter from_payload raws);
          grants = (if parsed = [] then rq_path_grants rq else parsed)
      in if grants = [] \<and> opt_str (d_path_prefix d) \<noteq> []
         then [\<lparr>pg_path_prefix = opt_str (d_path_prefix d),
                pg_access_mode = (if rq_kind rq \<in> {''file_read'', ''file_read_outside_workspace''}
                                  then Read else Write),
                pg_reason = []\<rparr>]
         else grants)"

definition source_user :: "(str, pyval) dict \<Rightarrow> str \<times> str" where
  "source_user ctx =
     (str_or (strip (py_str (py_or (py_get ctx ''source'') (PyStr ''cli'')))) ''cli'',
      str_or (strip (py_str (py_or (py_get ctx ''user_id'') (PyStr ''root'')))) ''root'')"

section \<open>Applying grants\<close>

text \<open>The host: path resolution (which may raise), the ACL directory, JSON parsing.\<close>

record host =
  h_resolve :: "str \<Rightarrow> str option"
  h_norm :: "str \<Rightarrow> str \<Rightarrow> str \<Rightarrow> str"
  h_acl_base :: str
  h_json_loads :: "str \<Rightarrow> pyval option"

definition apply_one ::
  "host \<Rightarrow> str \<times> str \<Rightarrow> bool \<Rightarrow> path_grant \<Rightarrow> acl_state \<Rightarrow> py_exn + path_grant \<times> acl_state" where
  "apply_one host owner persist g st =
     (case h_resolve host (pg_path_prefix g) of
        None \<Rightarrow> Inl (OSError (pg_path_prefix g))
      | Some pfx \<Rightarrow>
          (case (if persist
                 then append_user_path_prefix (h_resolve host) (h_norm host) (h_acl_base host)
                        (fst owner) (snd owner) pfx (mode_str (pg_access_mode g)) st
                 else add_ephemeral_path_prefix (h_norm host) (fst owner) (snd owner) pfx
                        (mode_str (pg_access_mode g)) st) of
             Inl e \<Rightarrow> Inl e
           | Inr st' \<Rightarrow> Inr (g\<lparr>pg_path_prefix := pfx\<rparr>, st')))"

text \<open>
  The loop of \<open>_apply_path_grants\<close>: an exception leaves the grants already applied in place.
\<close>

fun apply_grants ::
  "host \<Rightarrow> str \<times> str \<Rightarrow> bool \<Rightarrow> path_grant list \<Rightarrow> acl_state
     \<Rightarrow> (py_exn + path_grant list) \<times> acl_state" where
  "apply_grants host owner persist [] st = (Inr [], st)"
| "apply_grants host owner persist (g # gs) st =
     (case apply_one host owner persist g st of
        Inl e \<Rightarrow> (Inl e, st)
      | Inr (n, st') \<Rightarrow>
          (case apply_grants host owner persist gs st' of
             (Inl e, st'') \<Rightarrow> (Inl e, st'')
           | (Inr ns, st'') \<Rightarrow> (Inr (n # ns), st'')))"

definition apply_path_grants ::
  "host \<Rightarrow> path_grant list \<Rightarrow> (str, pyval) dict \<Rightarrow> bool \<Rightarrow> acl_state
     \<Rightarrow> (py_exn + path_grant list) \<times> acl_state" where
  "apply_path_grants host grants ctx persist st =
     (if grants = [] then (Inr [], st)
      else apply_grants host (source_user ctx) persist grants st)"

section \<open>The request\<close>

record 'h broker_state =
  bs_waits :: perm_waits
  bs_acl :: acl_state
  bs_env :: "'h notify_env"

definition bypass_enabled :: "(str, pyval) dict \<Rightarrow> bool" where
  "bypass_enabled ctx = truthy (py_get_or ctx ''approval_bypass_enabled'' (PyBool False))"

text \<open>The danger mode: no wait, the request's own grants are applied for this process only.\<close>

definition bypass_request ::
  "host \<Rightarrow> str \<Rightarrow> perm_request \<Rightarrow> acl_state \<Rightarrow> broker_result \<times> acl_state" where
  "bypass_request host auto_id rq acl =
     (case apply_path_grants host (rq_path_grants rq) (rq_exec_ctx rq) False acl of
        (Inl e, acl') \<Rightarrow>
          ((blank_result False auto_id)\<lparr>br_error := Some ''ACL_PERSIST_FAILED'',
             br_message := MsgBypassApplyFailed e\<rparr>, acl')
      | (Inr applied, acl') \<Rightarrow>
          ((blank_result True auto_id)\<lparr>br_message := MsgBypassApproved,
             br_applied_grants := applied, br_note := Some ''auto-approved-by-danger-mode''\<rparr>, acl'))"

definition effective_timeout :: "perm_request \<Rightarrow> real" where
  "effective_timeout rq =
     max (1 / 10) (if rq_timeout_seconds rq = 0 then 300 else rq_timeout_seconds rq)"

datatype 'h begun =
    Returned broker_result
  | Awaiting str fid real perm_payload "'h notice"

text \<open>\<open>new_id\<close> is the fresh uuid, \<open>loop\<close> whether an event loop runs.\<close>

definition broker_begin ::
  "host \<Rightarrow> bool \<Rightarrow> str \<Rightarrow> perm_request \<Rightarrow> 'h broker_state \<Rightarrow> 'h begun \<times> 'h broker_state" where
  "broker_begin host loop new_id rq s =
     (if bypass_enabled (rq_exec_ctx rq)
      then (case bypass_request host new_id rq (bs_acl s) of
              (r, acl) \<Rightarrow> (Returned r, s\<lparr>bs_acl := acl\<rparr>))
      else
        let timeout = effective_timeout rq;
            payload = build_payload (h_json_loads host) new_id rq timeout
        in (case register_permission_wait new_id (bs_waits s) of
              (fut, w) \<Rightarrow>
                (Awaiting new_id fut timeout payload
                   (notify_permission_pending loop (pp_session_id payload) (bs_env s)),
                 s\<lparr>bs_waits := w\<rparr>)))"

datatype outcome = Decided perm_decision | TimedOut | WaitCancelled str

text \<open>A cancellation is re-raised: \<open>None\<close> in place of a result.\<close>

definition broker_finish ::
  "host \<Rightarrow> str \<Rightarrow> perm_request \<Rightarrow> outcome \<Rightarrow> 'h broker_state
     \<Rightarrow> broker_result option \<times> 'h broker_state" where
  "broker_finish host pid rq out s =
     (case out of
        TimedOut \<Rightarrow>
          (Some ((blank_result False pid)\<lparr>br_error := Some ''PERMISSION_TIMEOUT'',
                   br_message := MsgTimeout\<rparr>),
           s\<lparr>bs_waits := snd (cancel_permission_wait pid ''timeout'' (bs_waits s))\<rparr>)
      | WaitCancelled reason \<Rightarrow>
          (None,
           s\<lparr>bs_waits := snd (cancel_permission_wait pid (str_or reason ''cancelled'') (bs_waits s))\<rparr>)
      | Decided d \<Rightarrow>
          if d_clarify_requested d
          then let ui = strip (opt_str (d_user_instruction d))
               in (Some ((blank_result False pid)\<lparr>br_error := Some ''PERMISSION_CLARIFY'',
                     br_message := MsgClarify ui, br_clarify_requested := True,
                     br_user_instruction := ui, br_note := d_note d\<rparr>), s)
          else if \<not> d_allowed d
          then (Some ((blank_result False pid)\<lparr>br_error := Some ''PERMISSION_DENIED'',
                  br_message := MsgDenied (opt_str (d_note d)), br_note := d_note d\<rparr>), s)
          else
            (case apply_path_grants host (path_grants_from d rq) (rq_exec_ctx rq)
                    (d_persist_acl d) (bs_acl s) of
               (Inl e, acl) \<Rightarrow>
                 (Some ((blank_result False pid)\<lparr>br_error := Some ''ACL_PERSIST_FAILED'',
                    br_message := MsgApplyFailed e, br_persist_acl := d_persist_acl d,
                    br_note := d_note d\<rparr>), s\<lparr>bs_acl := acl\<rparr>)
             | (Inr applied, acl) \<Rightarrow>
                 (Some ((blank_result True pid)\<lparr>br_message := MsgApproved,
                    br_applied_grants := applied, br_persist_acl := d_persist_acl d,
                    br_note := d_note d\<rparr>), s\<lparr>bs_acl := acl\<rparr>)))"

section \<open>Laws\<close>

text \<open>
  What the broker relies on from the operating system: a resolved path resolves to itself,
  and normalising it again for a user changes nothing.
\<close>

definition host_ok :: "host \<Rightarrow> bool" where
  "host_ok host \<longleftrightarrow> resolver_ok (h_resolve host)
     \<and> (\<forall>s u p q. h_resolve host p = Some q \<longrightarrow> h_norm host s u q = q)"

abbreviation granted_at :: "host \<Rightarrow> str \<times> str \<Rightarrow> access_mode \<Rightarrow> acl_state \<Rightarrow> str set" where
  "granted_at host owner m st \<equiv> granted (h_resolve host) (h_acl_base host) (fst owner) (snd owner) m st"

lemma apply_oneE:
  assumes "apply_one host owner persist g st = Inr (n, st')"
  obtains pfx where "h_resolve host (pg_path_prefix g) = Some pfx" "n = g\<lparr>pg_path_prefix := pfx\<rparr>"
    "persist \<Longrightarrow> append_user_path_prefix (h_resolve host) (h_norm host) (h_acl_base host)
       (fst owner) (snd owner) pfx (mode_str (pg_access_mode g)) st = Inr st'"
    "\<not> persist \<Longrightarrow> add_ephemeral_path_prefix (h_norm host) (fst owner) (snd owner) pfx
       (mode_str (pg_access_mode g)) st = Inr st'"
  using assms by (auto simp: apply_one_def split: option.splits sum.splits if_splits)

lemma apply_one_other:
  assumes "apply_one host owner persist g st = Inr (n, st')"
    and "\<not> same_owner (fst who) (snd who) (fst owner) (snd owner) \<or> m \<noteq> pg_access_mode g"
  shows "granted_at host who m st' = granted_at host who m st"
proof (rule apply_oneE [OF assms(1)])
  fix pfx
  assume "persist \<Longrightarrow> append_user_path_prefix (h_resolve host) (h_norm host) (h_acl_base host)
       (fst owner) (snd owner) pfx (mode_str (pg_access_mode g)) st = Inr st'"
    and "\<not> persist \<Longrightarrow> add_ephemeral_path_prefix (h_norm host) (fst owner) (snd owner) pfx
       (mode_str (pg_access_mode g)) st = Inr st'"
  then show ?thesis
    using append_other [OF _ assms(2)] ephemeral_other [OF _ assms(2)] by (cases persist) simp_all
qed

lemma apply_one_own:
  assumes "host_ok host" and "apply_one host owner persist g st = Inr (n, st')"
  shows "pg_access_mode n = pg_access_mode g
    \<and> h_resolve host (pg_path_prefix g) = Some (pg_path_prefix n)
    \<and> granted_at host owner (pg_access_mode g) st'
       = insert (pg_path_prefix n) (granted_at host owner (pg_access_mode g) st)"
proof (rule apply_oneE [OF assms(2)])
  fix pfx
  assume p: "h_resolve host (pg_path_prefix g) = Some pfx" "n = g\<lparr>pg_path_prefix := pfx\<rparr>"
    and "persist \<Longrightarrow> append_user_path_prefix (h_resolve host) (h_norm host) (h_acl_base host)
       (fst owner) (snd owner) pfx (mode_str (pg_access_mode g)) st = Inr st'"
    and "\<not> persist \<Longrightarrow> add_ephemeral_path_prefix (h_norm host) (fst owner) (snd owner) pfx
       (mode_str (pg_access_mode g)) st = Inr st'"
  moreover have "resolver_ok (h_resolve host)" "h_norm host (fst owner) (snd owner) pfx = pfx"
    "strip pfx \<noteq> []" "h_resolve host pfx = Some pfx"
    using assms(1) p(1) by (auto simp: host_ok_def resolver_ok_def)
  ultimately show ?thesis
    using append_own [of "h_resolve host" "h_norm host" "fst owner" "snd owner" pfx "h_acl_base host"
        "pg_access_mode g" st st'] ephemeral_own [of "h_norm host" "fst owner" "snd owner" pfx
        "pg_access_mode g" st st']
    by (cases persist) simp_all
qed

lemma apply_one_keeps:
  assumes "apply_one host owner persist g st = Inr (n, st')"
  shows "\<not> persist \<Longrightarrow> acl_files st' = acl_files st"
    and "persist \<Longrightarrow> acl_ephemeral st' = acl_ephemeral st"
  using apply_oneE [OF assms] ephemeral_changes(1) append_changes(1) by metis+

text \<open>The loop, whether it ends or stops at an exception.\<close>

lemma apply_grants_invariant:
  assumes "apply_grants host owner persist gs st = (r, st')" and "P st"
    and "\<And>g st n st'. g \<in> set gs \<Longrightarrow> apply_one host owner persist g st = Inr (n, st') \<Longrightarrow> P st \<Longrightarrow> P st'"
  shows "P st'"
  using assms
proof (induction gs arbitrary: st r)
  case (Cons g gs)
  show ?case
  proof (cases "apply_one host owner persist g st")
    case (Inr q)
    obtain n st1 where one: "apply_one host owner persist g st = Inr (n, st1)"
      using Inr by (cases q) auto
    with Cons.prems(1) obtain r1 where "apply_grants host owner persist gs st1 = (r1, st')"
      by (auto split: sum.splits prod.splits)
    moreover from one Cons.prems(2,3) have "P st1" by (meson list.set_intros(1))
    ultimately show ?thesis using Cons.IH Cons.prems(3) by (meson list.set_intros(2))
  qed (use Cons.prems in auto)
qed simp

lemma apply_grants_other:
  assumes "apply_grants host owner persist gs st = (r, st')"
    and "\<not> same_owner (fst who) (snd who) (fst owner) (snd owner)"
  shows "granted_at host who m st' = granted_at host who m st"
  using assms apply_one_other
  by (elim apply_grants_invariant [where P = "\<lambda>s. granted_at host who m s = granted_at host who m st"])
    auto

lemma apply_grants_keeps:
  assumes "apply_grants host owner persist gs st = (r, st')"
  shows "(\<not> persist \<longrightarrow> acl_files st' = acl_files st)
    \<and> (persist \<longrightarrow> acl_ephemeral st' = acl_ephemeral st)"
  using assms
  by (elim apply_grants_invariant) (auto dest: apply_one_keeps)

lemma apply_grants_own:
  assumes "host_ok host" and "apply_grants host owner persist gs st = (Inr ns, st')"
  shows "map (\<lambda>g. h_resolve host (pg_path_prefix g)) gs = map (\<lambda>n. Some (pg_path_prefix n)) ns
    \<and> map pg_access_mode ns = map pg_access_mode gs
    \<and> granted_at host owner m st' = granted_at host owner m st
        \<union> pg_path_prefix ` {n \<in> set ns. pg_access_mode n = m}"
  using assms(2)
proof (induction gs arbitrary: st ns)
  case (Cons g gs)
  then obtain n st1 ns1 where one: "apply_one host owner persist g st = Inr (n, st1)"
    and rest: "apply_grants host owner persist gs st1 = (Inr ns1, st')" and ns: "ns = n # ns1"
    by (auto split: sum.splits prod.splits)
  note own = apply_one_own [OF assms(1) one]
  have "granted_at host owner m st1 = granted_at host owner m st \<union>
      (if pg_access_mode n = m then {pg_path_prefix n} else {})"
    using own apply_one_other [OF one, of owner m] by auto
  with Cons.IH [OF rest] own show ?case by (auto simp: ns)
qed simp

lemma apply_path_grants_eq:
  "apply_path_grants host gs ctx persist st = apply_grants host (source_user ctx) persist gs st"
  by (simp add: apply_path_grants_def)

lemma mode_str_modes: "mode_str m = ''read'' \<or> mode_str m = ''write''"
  by (cases m) simp_all

lemma lower_strip_mode: "lower (strip (mode_str m)) = mode_str m"
  by (cases m) (simp_all add: lower_def lower_char_def strip_def lstrip_def rstrip_def is_space_def)

lemma mode_str_Read: "mode_str m = ''read'' \<longleftrightarrow> m = Read"
  by (cases m) simp_all

lemma to_payload_get:
  "py_get (to_payload g) ''path_prefix'' = PyStr (pg_path_prefix g)"
  "py_get (to_payload g) ''access_mode'' = PyStr (mode_str (pg_access_mode g))"
  "clean_str (py_get (to_payload g) ''reason'') = strip (pg_reason g)"
  by (simp_all add: to_payload_def py_get_def Let_def)

lemma from_to_payload:
  "from_payload (PyDict (to_payload g)) =
     (if strip (pg_path_prefix g) = [] then None
      else Some (g\<lparr>pg_path_prefix := strip (pg_path_prefix g), pg_reason := strip (pg_reason g)\<rparr>))"
proof -
  have "mode_str (pg_access_mode g) \<noteq> []" by (cases "pg_access_mode g") simp_all
  then show ?thesis
    by (cases "pg_access_mode g")
      (simp_all add: from_payload_def to_payload_get lower_strip_mode [of Read, simplified]
        lower_strip_mode [of Write, simplified])
qed

definition approved :: "outcome \<Rightarrow> bool" where
  "approved out \<longleftrightarrow>
     (case out of Decided d \<Rightarrow> d_allowed d \<and> \<not> d_clarify_requested d | _ \<Rightarrow> False)"

definition human_persists :: "outcome \<Rightarrow> bool" where
  "human_persists out \<longleftrightarrow> (case out of Decided d \<Rightarrow> d_persist_acl d | _ \<Rightarrow> False)"

lemma broker_finish_unapproved:
  "\<not> approved out \<Longrightarrow> broker_finish host pid rq out s = (res, s') \<Longrightarrow>
     bs_acl s' = bs_acl s \<and> (\<forall>r. res = Some r \<longrightarrow> \<not> br_allowed r)"
  by (auto simp: broker_finish_def approved_def blank_result_def Let_def split: outcome.splits if_splits)

lemma broker_finish_approved:
  assumes "approved out" and "broker_finish host pid rq out s = (res, s')"
  obtains r where "apply_grants host (source_user (rq_exec_ctx rq)) (human_persists out)
      (case out of Decided d \<Rightarrow> path_grants_from d rq | _ \<Rightarrow> []) (bs_acl s) = (r, bs_acl s')"
    "\<forall>b. res = Some b \<longrightarrow> (br_allowed b \<longleftrightarrow> r = Inr (br_applied_grants b))"
proof (cases out)
  case (Decided d)
  obtain r acl where ap: "apply_grants host (source_user (rq_exec_ctx rq)) (d_persist_acl d)
      (path_grants_from d rq) (bs_acl s) = (r, acl)" by fastforce
  have "bs_acl s' = acl \<and> (\<forall>b. res = Some b \<longrightarrow> (br_allowed b \<longleftrightarrow> r = Inr (br_applied_grants b)))"
    using assms ap Decided
    by (cases r) (auto simp: broker_finish_def approved_def blank_result_def apply_path_grants_eq)
  with ap Decided show thesis by (intro that [of r]) (simp_all add: human_persists_def)
qed (use assms in \<open>simp_all add: approved_def\<close>)

definition demo_host :: host where
  "demo_host = \<lparr>h_resolve = (\<lambda>p. if p = ''/data'' then Some p else None), h_norm = (\<lambda>_ _ p. p),
     h_acl_base = ''acl'', h_json_loads = (\<lambda>_. None)\<rparr>"

definition demo_perm_request :: "path_grant list \<Rightarrow> perm_request" where
  "demo_perm_request gs = \<lparr>rq_tool_name = ''bash'', rq_kind = ''file_write'', rq_summary = [],
     rq_details = PyNone, rq_command = None, rq_cwd = None, rq_risk_reasons = [],
     rq_path_grants = gs, rq_timeout_seconds = 0, rq_auto_execute = False, rq_exec_ctx = []\<rparr>"

definition demo_grant :: "str \<Rightarrow> path_grant" where
  "demo_grant p = \<lparr>pg_path_prefix = p, pg_access_mode = Write, pg_reason = []\<rparr>"

definition demo_broker :: "nat broker_state" where
  "demo_broker = \<lparr>bs_waits = no_waiters, bs_acl = no_grants,
     bs_env = \<lparr>ne_ipc_stream = None, ne_session_streams = [], ne_hook = None\<rparr>\<rparr>"

lemma demo_applied:
  "\<exists>acl. apply_one demo_host owner False (demo_grant ''/data'') st = Inr (demo_grant ''/data'', acl)"
  using ephemeral_succeeds [of "h_norm demo_host" "fst owner" "snd owner" "''/data''" Write st]
  by (auto simp: apply_one_def demo_grant_def demo_host_def)

lemma demo_host_ok: "host_ok demo_host"
proof -
  have "strip ''/data'' = ''/data''" by (simp add: strip_id_iff_ends is_space_def)
  then show ?thesis by (auto simp: host_ok_def resolver_ok_def demo_host_def)
qed

section \<open>Properties\<close>

text \<open>C1: The end of a permission request changes what a user may reach only as far as a human
  approved it. Whatever the wait produced (an answer, a timeout, a cancellation): the grants of
  every other user stay as they are; without an approval nothing is granted and the tool is never
  told that it may go on; the files on disk change only when the human chose to persist; and
  when the tool is told to go on, its user has in each access mode exactly what it had plus the
  approved prefixes, each resolved.\<close>

theorem broker_grants_only_approved:
  assumes "host_ok host" and "broker_finish host pid rq out s = (res, s')"
    and "owner = source_user (rq_exec_ctx rq)"
  shows "(\<forall>who m. \<not> same_owner (fst who) (snd who) (fst owner) (snd owner) \<longrightarrow>
            granted_at host who m (bs_acl s') = granted_at host who m (bs_acl s))
    \<and> (\<not> approved out \<longrightarrow> bs_acl s' = bs_acl s \<and> (\<forall>r. res = Some r \<longrightarrow> \<not> br_allowed r))
    \<and> (\<not> human_persists out \<longrightarrow> acl_files (bs_acl s') = acl_files (bs_acl s))
    \<and> (\<forall>r m. res = Some r \<and> br_allowed r \<longrightarrow>
          (\<exists>d. out = Decided d
             \<and> map (\<lambda>g. h_resolve host (pg_path_prefix g)) (path_grants_from d rq)
                = map (\<lambda>n. Some (pg_path_prefix n)) (br_applied_grants r))
          \<and> granted_at host owner m (bs_acl s') = granted_at host owner m (bs_acl s)
             \<union> pg_path_prefix ` {n \<in> set (br_applied_grants r). pg_access_mode n = m})"
proof (cases "approved out")
  case True
  then obtain d where d: "out = Decided d" by (cases out) (simp_all add: approved_def)
  obtain r where run: "apply_grants host owner (human_persists out) (path_grants_from d rq) (bs_acl s)
      = (r, bs_acl s')"
    and res: "\<forall>b. res = Some b \<longrightarrow> (br_allowed b \<longleftrightarrow> r = Inr (br_applied_grants b))"
    using broker_finish_approved [OF True assms(2)] d assms(3) by auto
  have "map (\<lambda>g. h_resolve host (pg_path_prefix g)) (path_grants_from d rq)
        = map (\<lambda>n. Some (pg_path_prefix n)) (br_applied_grants b)
      \<and> granted_at host owner m (bs_acl s') = granted_at host owner m (bs_acl s)
        \<union> pg_path_prefix ` {n \<in> set (br_applied_grants b). pg_access_mode n = m}"
    if "res = Some b" and "br_allowed b" for b m
    using apply_grants_own [OF assms(1), of owner "human_persists out" "path_grants_from d rq"] run res that
    by blast
  with True d apply_grants_other [OF run] apply_grants_keeps [OF run] show ?thesis by blast
next
  case False
  with broker_finish_unapproved [OF False assms(2)] show ?thesis by auto
qed

text \<open>C13: Once a request has timed out it is over: any answers that arrive later for its id are
  all refused, nothing was granted, and the requests of other callers are still waiting.\<close>

theorem timeout_voids_late_answers:
  assumes "waiters_ok (bs_waits s)" and "strip pid = pid"
    and "broker_finish host pid rq TimedOut s = (res, s')"
  shows "filter (\<lambda>((k, _), accepted). strip k = pid \<and> accepted)
           (zip answers (fst (run_ops (\<lambda>(k, d). resolve_permission k d) answers (bs_waits s')))) = []
    \<and> bs_acl s' = bs_acl s
    \<and> (\<forall>other. other \<noteq> pid \<longrightarrow> waiting (bs_waits s') other = waiting (bs_waits s) other)"
proof -
  have w: "bs_waits s' = snd (cancel_permission_wait pid ''timeout'' (bs_waits s))" "bs_acl s' = bs_acl s"
    using assms(3) by (auto simp: broker_finish_def)
  have "waiters_ok (bs_waits s')" "\<not> waiting (bs_waits s') pid"
    using cancel_laws assms(1) w(1) by simp_all
  then have "filter (\<lambda>(x, woke). strip (fst x) = pid \<and> woke)
      (zip answers (fst (run_ops (\<lambda>(k, d). resolve_permission k d) answers (bs_waits s')))) = []"
    by (rule perm.not_pending_none_woken)
  with w show ?thesis
    by (simp add: case_prod_unfold cancel_permission_wait_def pop_settle_frame [OF assms(1)])
qed

text \<open>A path grant survives the trip through the notification: reading back the payload the
  human's interface was sent gives the grant, with prefix and reason trimmed; a blank prefix is
  the only case that is dropped.\<close>

theorem grant_payload_roundtrip:
  "from_payload (PyDict (to_payload g)) =
     (if strip (pg_path_prefix g) = [] then None
      else Some (g\<lparr>pg_path_prefix := strip (pg_path_prefix g), pg_reason := strip (pg_reason g)\<rparr>))"
  by (rule from_to_payload)

text \<open>A refused result does not mean that nothing was granted: when a human approved several
  prefixes and applying a later one raises, the tool is told the request failed while the
  earlier prefixes stay in force.\<close>

theorem failed_approval_leaves_grants:
  assumes "host_ok host" and "approved (Decided d)" and "path_grants_from d rq = [g, g']"
    and "apply_one host (source_user (rq_exec_ctx rq)) (d_persist_acl d) g (bs_acl s) = Inr (n, acl)"
    and "h_resolve host (pg_path_prefix g') = None"
    and "broker_finish host pid rq (Decided d) s = (Some r, s')"
  shows "\<not> br_allowed r \<and> br_applied_grants r = []
    \<and> pg_path_prefix n \<in> granted_at host (source_user (rq_exec_ctx rq)) (pg_access_mode g) (bs_acl s')"
proof -
  have "apply_one host (source_user (rq_exec_ctx rq)) (d_persist_acl d) g' acl
      = Inl (OSError (pg_path_prefix g'))"
    using assms(5) by (simp add: apply_one_def)
  with assms(2-4,6) have "\<not> br_allowed r \<and> br_applied_grants r = [] \<and> bs_acl s' = acl"
    by (auto simp: broker_finish_def approved_def apply_path_grants_def blank_result_def)
  with apply_one_own [OF assms(1,4)] show ?thesis by simp
qed

section \<open>Witnesses\<close>

lemma broker_grants_only_approved_witness:
  "\<exists>res s'. broker_finish demo_host ''p'' (demo_perm_request [demo_grant ''/data'']) (Decided demo_approval)
       demo_broker = (Some res, s') \<and> br_allowed res
     \<and> granted_at demo_host (''cli'', ''root'') Write (bs_acl s')
        = granted_at demo_host (''cli'', ''root'') Write no_grants \<union> {''/data''}"
proof -
  let ?rq = "demo_perm_request [demo_grant ''/data'']"
  have src: "source_user (rq_exec_ctx ?rq) = (''cli'', ''root'')"
    by (simp add: source_user_def demo_perm_request_def py_get_def)
  obtain acl where acl: "apply_one demo_host (source_user (rq_exec_ctx ?rq)) False (demo_grant ''/data'')
      (bs_acl demo_broker) = Inr (demo_grant ''/data'', acl)" using demo_applied by blast
  have "path_grants_from demo_approval ?rq = [demo_grant ''/data'']"
    by (simp add: path_grants_from_def demo_approval_def demo_perm_request_def)
  with acl obtain res s' where
    run: "broker_finish demo_host ''p'' ?rq (Decided demo_approval) demo_broker = (Some res, s')"
    and r: "br_allowed res" "br_applied_grants res = [demo_grant ''/data'']"
    by (simp add: broker_finish_def demo_approval_def apply_path_grants_def blank_result_def)
  have "granted_at demo_host (''cli'', ''root'') Write (bs_acl s')
      = granted_at demo_host (''cli'', ''root'') Write (bs_acl demo_broker) \<union> {''/data''}"
    using broker_grants_only_approved [OF demo_host_ok run src [symmetric]] r
    by (auto simp: demo_grant_def)
  with run r show ?thesis by (auto simp: demo_broker_def)
qed

lemma timeout_voids_late_answers_witness:
  "let w = snd (register_permission_wait ''p'' no_waiters);
       s' = snd (broker_finish demo_host ''p'' (demo_perm_request []) TimedOut (demo_broker\<lparr>bs_waits := w\<rparr>))
   in waiting w ''p''
      \<and> filter (\<lambda>((k, _), accepted). strip k = ''p'' \<and> accepted)
          (zip [('' p'', demo_approval)]
            (fst (run_ops (\<lambda>(k, d). resolve_permission k d) [('' p'', demo_approval)] (bs_waits s')))) = []"
proof -
  let ?w = "snd (register_permission_wait ''p'' no_waiters) :: perm_waits"
  let ?s = "demo_broker\<lparr>bs_waits := ?w\<rparr>"
  have ok: "waiters_ok (bs_waits ?s)" "waiting ?w ''p''"
    by (simp_all add: register_permission_wait_def add_wait_ok add_wait_waiting)
  have "strip ''p'' = ''p''" by (simp add: strip_id_iff_ends is_space_def)
  note late = timeout_voids_late_answers [OF ok(1) this surjective_pairing,
      where answers = "[('' p'', demo_approval)]" and host = demo_host and rq = "demo_perm_request []"]
  show ?thesis unfolding Let_def using late ok(2) by blast
qed

lemma failed_approval_leaves_grants_witness:
  "\<exists>r s'. broker_finish demo_host ''p'' (demo_perm_request [demo_grant ''/data'', demo_grant ''~nobody''])
       (Decided demo_approval) demo_broker = (Some r, s') \<and> \<not> br_allowed r
     \<and> ''/data'' \<in> granted_at demo_host (''cli'', ''root'') Write (bs_acl s')"
proof -
  let ?rq = "demo_perm_request [demo_grant ''/data'', demo_grant ''~nobody'']"
  have src: "source_user (rq_exec_ctx ?rq) = (''cli'', ''root'')"
    by (simp add: source_user_def demo_perm_request_def py_get_def)
  have grants: "path_grants_from demo_approval ?rq = [demo_grant ''/data'', demo_grant ''~nobody'']"
    by (simp add: path_grants_from_def demo_approval_def demo_perm_request_def)
  have ap: "approved (Decided demo_approval)" by (simp add: approved_def demo_approval_def)
  have bad: "h_resolve demo_host (pg_path_prefix (demo_grant ''~nobody'')) = None"
    by (simp add: demo_host_def demo_grant_def)
  obtain acl where one: "apply_one demo_host (source_user (rq_exec_ctx ?rq)) (d_persist_acl demo_approval)
      (demo_grant ''/data'') (bs_acl demo_broker) = Inr (demo_grant ''/data'', acl)"
    using demo_applied [of "source_user (rq_exec_ctx ?rq)"] by (auto simp: demo_approval_def)
  obtain r s' where run: "broker_finish demo_host ''p'' ?rq (Decided demo_approval) demo_broker = (Some r, s')"
    by (force simp: broker_finish_def demo_approval_def Let_def split: prod.split sum.split)
  from failed_approval_leaves_grants [OF demo_host_ok ap grants one bad run] run src show ?thesis
    by (auto simp: demo_grant_def)
qed

end
