(* ===== verification/Work_Queue.thy ===== *)
theory Work_Queue
  imports Prelude "HOL-Library.Multiset"
begin

text \<open>
  The contract between a queue of work and the single consumer that polls it. The persistent
  task queue and the scheduler's input queue both honour it, each with its own ranking; the
  consumer's facts (nothing is lost, nothing is delivered twice, deliveries come in rank
  order) are proved here once.
\<close>

text \<open>The consumer: poll \<open>n\<close> times, stop early when the queue answers that it is empty.\<close>

fun drain :: "('s \<Rightarrow> ('x \<times> 's) option) \<Rightarrow> nat \<Rightarrow> 's \<Rightarrow> 'x list \<times> 's" where
  "drain pop 0 s = ([], s)"
| "drain pop (Suc n) s =
     (case pop s of
        None \<Rightarrow> ([], s)
      | Some (x, s') \<Rightarrow> (x # fst (drain pop n s'), snd (drain pop n s')))"

locale work_queue =
  fixes inv :: "'s \<Rightarrow> bool"
    and queued :: "'s \<Rightarrow> 'x multiset"
    and pop :: "'s \<Rightarrow> ('x \<times> 's) option"
    and rank :: "'x \<Rightarrow> 'r::linorder"
  assumes pop_None: "inv s \<Longrightarrow> pop s = None \<longleftrightarrow> queued s = {#}"
    and pop_inv: "inv s \<Longrightarrow> pop s = Some (x, s') \<Longrightarrow> inv s'"
    and pop_queued: "inv s \<Longrightarrow> pop s = Some (x, s') \<Longrightarrow> queued s = add_mset x (queued s')"
    and pop_least: "inv s \<Longrightarrow> pop s = Some (x, s') \<Longrightarrow> y \<in># queued s \<Longrightarrow> rank x \<le> rank y"
begin

lemma drain_conserves:
  "inv s \<Longrightarrow> mset (fst (drain pop n s)) + queued (snd (drain pop n s)) = queued s
     \<and> inv (snd (drain pop n s))"
proof (induction n arbitrary: s)
  case (Suc n)
  show ?case
  proof (cases "pop s")
    case (Some p)
    obtain x s' where p: "p = (x, s')" by fastforce
    with Some Suc.prems have "inv s'" and "queued s = add_mset x (queued s')"
      using pop_inv pop_queued by blast+
    with Suc.IH [of s'] Some p show ?thesis by simp
  qed (simp add: Suc.prems)
qed simp

lemma drain_all:
  "inv s \<Longrightarrow> size (queued s) \<le> n \<Longrightarrow>
     mset (fst (drain pop n s)) = queued s \<and> queued (snd (drain pop n s)) = {#}"
proof (induction n arbitrary: s)
  case (Suc n)
  show ?case
  proof (cases "pop s")
    case None
    moreover from this have "queued s = {#}" using pop_None Suc.prems(1) by blast
    ultimately show ?thesis by simp
  next
    case (Some p)
    obtain x s' where p: "p = (x, s')" by fastforce
    with Some Suc.prems(1) have "inv s'" and q: "queued s = add_mset x (queued s')"
      using pop_inv pop_queued by blast+
    with Suc.IH [of s'] Suc.prems(2) Some p show ?thesis by simp
  qed
qed simp

lemma drain_subset: "inv s \<Longrightarrow> x \<in> set (fst (drain pop n s)) \<Longrightarrow> x \<in># queued s"
  using drain_conserves [of s n] by (metis UnI1 set_mset_mset set_mset_union)

lemma drain_sorted: "inv s \<Longrightarrow> sorted (map rank (fst (drain pop n s)))"
proof (induction n arbitrary: s)
  case (Suc n)
  show ?case
  proof (cases "pop s")
    case (Some p)
    obtain x s' where p: "p = (x, s')" by fastforce
    with Some Suc.prems have inv': "inv s'" and q: "queued s = add_mset x (queued s')"
      using pop_inv pop_queued by blast+
    have "rank x \<le> rank y" if "y \<in> set (fst (drain pop n s'))" for y
      using pop_least [OF Suc.prems Some [unfolded p], of y] drain_subset [OF inv' that] q by simp
    with Suc.IH [OF inv'] Some p show ?thesis by simp
  qed simp
qed simp

end

text \<open>The queue both sources have underneath: take the first element of least rank.\<close>

fun first_min :: "('a \<Rightarrow> 'r::linorder) \<Rightarrow> 'a list \<Rightarrow> 'a option" where
  "first_min f [] = None"
| "first_min f (x # xs) =
     (case first_min f xs of None \<Rightarrow> Some x | Some y \<Rightarrow> if f x \<le> f y then Some x else Some y)"

lemma first_min_None [simp]: "first_min f xs = None \<longleftrightarrow> xs = []"
  by (cases xs) (simp_all split: option.split)

lemma first_min_Some:
  "first_min f xs = Some x \<Longrightarrow> x \<in> set xs \<and> (\<forall>y \<in> set xs. f x \<le> f y)"
proof (induction xs arbitrary: x)
  case (Cons y ys)
  then show ?case
    by (cases "first_min f ys") (fastforce split: if_splits)+
qed simp

text \<open>Among elements of equal least rank the earliest wins: a stable choice.\<close>

lemma first_min_first:
  "first_min f xs = Some x \<Longrightarrow> \<exists>as bs. xs = as @ x # bs \<and> (\<forall>a \<in> set as. f x < f a)"
proof (induction xs arbitrary: x)
  case (Cons y ys)
  show ?case
  proof (cases "first_min f ys")
    case None
    with Cons.prems show ?thesis by (intro exI [of _ "[]"] exI [of _ ys]) simp
  next
    case (Some z)
    show ?thesis
    proof (cases "f y \<le> f z")
      case True
      with Cons.prems Some show ?thesis by (intro exI [of _ "[]"] exI [of _ ys]) simp
    next
      case False
      with Cons.prems Some have "x = z" by simp
      moreover obtain as bs where "ys = as @ z # bs" "\<forall>a \<in> set as. f z < f a"
        using Cons.IH [OF Some] by blast
      ultimately show ?thesis using False by (intro exI [of _ "y # as"] exI [of _ bs]) auto
    qed
  qed
qed simp

end
