(* ===== verification/Task_Queue.thy ===== *)
theory Task_Queue
  imports Py_Values Work_Queue
begin

text \<open>
  The automation task message (\<open>system/automation/agent_task.py\<close>) and the persistent queue
  of such tasks (\<open>system/automation/task_queue.py\<close>).

  The table \<open>agent_tasks\<close> is the list of its rows in rowid order; \<open>INSERT OR REPLACE\<close>
  deletes the row with that key and appends a new one, \<open>UPDATE\<close> keeps the row's place. The
  columns \<open>task_id\<close>, \<open>status\<close> and \<open>created_at\<close> are stored beside the JSON of the
  task, so that the two copies can disagree; the row invariant says that they never do. The
  text \<open>created_at.isoformat()\<close> is kept as the instant it denotes (the ISO form of naive
  datetimes sorts like the instants), and \<open>model_dump_json\<close>/\<open>model_validate_json\<close> as
  the identity on task records.
\<close>

section \<open>Task messages\<close>

datatype context_policy = EPHEMERAL | PERSISTENT

datatype task_status = PENDING | RUNNING | SUCCESS | FAILED

record agent_task =
  t_id :: str
  t_source :: str
  t_user_id :: str
  t_session_id :: str
  t_instruction :: str
  t_metadata :: "(str, pyval) dict option"
  t_context_policy :: context_policy
  t_status :: task_status
  t_result :: "str option"
  t_error :: "str option"
  t_created_at :: real
  t_started_at :: "real option"
  t_finished_at :: "real option"

record cron_options =
  co_memory_owner :: "str option"
  co_core_mode :: "str option"
  co_tool_template :: "str option"
  co_feishu_chat_id :: "str option"
  co_remote_login :: "str option"
  co_remote_path :: "str option"
  co_remote_profile :: "str option"
  co_remote_ttl_seconds :: "int option"
  co_remote_required :: "bool option"

text \<open>\<open>if value: metadata[key] = value\<close>\<close>

definition put_if :: "str \<Rightarrow> str option \<Rightarrow> (str, pyval) dict \<Rightarrow> (str, pyval) dict" where
  "put_if k v m = (if opt_str v = [] then m else dset k (PyStr (opt_str v)) m)"

definition cron_remote_metadata :: "cron_options \<Rightarrow> (str, pyval) dict \<Rightarrow> (str, pyval) dict" where
  "cron_remote_metadata opts m =
     (if opt_str (co_remote_login opts) = [] then m
      else
        let m1 = dset ''remote_login'' (PyStr (opt_str (co_remote_login opts))) m;
            m2 = dset ''remote_path''
                   (PyStr (str_or (strip (str_or (opt_str (co_remote_path opts)) ''~'')) ''~'')) m1;
            m3 = dset ''remote_profile''
                   (PyStr (str_or (strip (str_or (opt_str (co_remote_profile opts)) ''dev'')) ''dev'')) m2;
            m4 = dset ''remote_required''
                   (PyBool (case co_remote_required opts of None \<Rightarrow> True | Some b \<Rightarrow> b)) m3
        in (case co_remote_ttl_seconds opts of
              None \<Rightarrow> m4
            | Some n \<Rightarrow> dset ''remote_ttl_seconds'' (PyInt n) m4))"

definition cron_metadata :: "cron_options \<Rightarrow> (str, pyval) dict" where
  "cron_metadata opts =
     cron_remote_metadata opts
       (put_if ''feishu_chat_id'' (co_feishu_chat_id opts)
         (put_if ''tool_template'' (co_tool_template opts)
           (put_if ''core_mode'' (co_core_mode opts)
             (put_if ''memory_owner'' (co_memory_owner opts) []))))"

text \<open>\<open>today\<close>, \<open>new_id\<close> and \<open>now\<close> are the date, the fresh task id and the clock.\<close>

definition make_cron_task ::
  "str \<Rightarrow> str \<Rightarrow> real \<Rightarrow> str \<Rightarrow> str \<Rightarrow> str \<Rightarrow> cron_options \<Rightarrow> agent_task" where
  "make_cron_task today new_id now job_name instruction user_id opts =
     (let source = ''cron:'' @ job_name
      in \<lparr>t_id = new_id, t_source = source, t_user_id = user_id,
          t_session_id = source @ '':'' @ today, t_instruction = instruction,
          t_metadata = Some (cron_metadata opts), t_context_policy = EPHEMERAL,
          t_status = PENDING, t_result = None, t_error = None,
          t_created_at = now, t_started_at = None, t_finished_at = None\<rparr>)"

definition make_user_task :: "str \<Rightarrow> real \<Rightarrow> str \<Rightarrow> str \<Rightarrow> str \<Rightarrow> agent_task" where
  "make_user_task new_id now instruction channel user_id =
     \<lparr>t_id = new_id, t_source = channel, t_user_id = user_id,
      t_session_id = channel @ '':'' @ user_id, t_instruction = instruction,
      t_metadata = None, t_context_policy = PERSISTENT,
      t_status = PENDING, t_result = None, t_error = None,
      t_created_at = now, t_started_at = None, t_finished_at = None\<rparr>"

section \<open>The queue\<close>

record task_row =
  r_id :: str
  r_status :: task_status
  r_created :: real
  r_data :: agent_task

type_synonym task_db = "task_row list"

definition push :: "agent_task \<Rightarrow> task_db \<Rightarrow> agent_task \<times> task_db" where
  "push task db =
     (let task' = task\<lparr>t_status := PENDING\<rparr>
      in (task', filter (\<lambda>r. r_id r \<noteq> t_id task') db
            @ [\<lparr>r_id = t_id task', r_status = t_status task',
                r_created = t_created_at task', r_data = task'\<rparr>]))"

text \<open>\<open>UPDATE agent_tasks SET status = ?, data = ? WHERE task_id = ?\<close>\<close>

definition update_row :: "str \<Rightarrow> task_status \<Rightarrow> agent_task \<Rightarrow> task_db \<Rightarrow> task_db" where
  "update_row i st d db =
     map (\<lambda>r. if r_id r = i then r\<lparr>r_status := st, r_data := d\<rparr> else r) db"

definition select_oldest_pending :: "task_db \<Rightarrow> task_row option" where
  "select_oldest_pending db = first_min r_created (filter (\<lambda>r. r_status r = PENDING) db)"

definition mark_running :: "real \<Rightarrow> task_row \<Rightarrow> task_db \<Rightarrow> agent_task \<times> task_db" where
  "mark_running now row db =
     (let task = (r_data row)\<lparr>t_status := RUNNING, t_started_at := Some now\<rparr>
      in (task, update_row (t_id task) RUNNING task db))"

definition pop_pending :: "real \<Rightarrow> task_db \<Rightarrow> agent_task option \<times> task_db" where
  "pop_pending now db =
     (case select_oldest_pending db of
        None \<Rightarrow> (None, db)
      | Some row \<Rightarrow> (case mark_running now row db of (task, db') \<Rightarrow> (Some task, db')))"

definition update_status ::
  "real \<Rightarrow> str \<Rightarrow> task_status \<Rightarrow> str option \<Rightarrow> str option \<Rightarrow> task_db \<Rightarrow> task_db" where
  "update_status now i st res err db =
     (case find (\<lambda>r. r_id r = i) db of
        None \<Rightarrow> db
      | Some row \<Rightarrow>
          let task = (r_data row)\<lparr>t_status := st, t_finished_at := Some now\<rparr>;
              task1 = (case res of None \<Rightarrow> task | Some x \<Rightarrow> task\<lparr>t_result := Some x\<rparr>);
              task2 = (case err of None \<Rightarrow> task1 | Some x \<Rightarrow> task1\<lparr>t_error := Some x\<rparr>)
          in update_row i st task2 db)"

definition list_recent :: "int \<Rightarrow> task_status option \<Rightarrow> task_db \<Rightarrow> agent_task list" where
  "list_recent limit st db =
     (let rows = (case st of None \<Rightarrow> db | Some s \<Rightarrow> filter (\<lambda>r. r_status r = s) db)
      in take (nat (max 1 limit)) (map r_data (sort_key (\<lambda>r. - r_created r) rows)))"

definition recover_stale_running :: "task_db \<Rightarrow> nat \<times> task_db" where
  "recover_stale_running db =
     fold (\<lambda>row (n, d).
             let task = (r_data row)\<lparr>t_status := PENDING, t_started_at := None\<rparr>
             in (Suc n, update_row (t_id task) PENDING task d))
       (filter (\<lambda>r. r_status r = RUNNING) db) (0, db)"

definition pending_count :: "task_db \<Rightarrow> nat" where
  "pending_count db = length (filter (\<lambda>r. r_status r = PENDING) db)"

definition running_count :: "task_db \<Rightarrow> nat" where
  "running_count db = length (filter (\<lambda>r. r_status r = RUNNING) db)"

section \<open>Rows stay consistent\<close>

definition row_ok :: "task_row \<Rightarrow> bool" where
  "row_ok r \<longleftrightarrow> t_id (r_data r) = r_id r \<and> t_status (r_data r) = r_status r
     \<and> t_created_at (r_data r) = r_created r"

definition db_ok :: "task_db \<Rightarrow> bool" where
  "db_ok db \<longleftrightarrow> distinct (map r_id db) \<and> list_all row_ok db"

lemma db_ok_Nil [simp]: "db_ok []"
  by (simp add: db_ok_def)

lemma db_ok_row: "db_ok db \<Longrightarrow> r \<in> set db \<Longrightarrow> row_ok r"
  by (simp add: db_ok_def list_all_iff)

lemma db_ok_unique: "db_ok db \<Longrightarrow> r \<in> set db \<Longrightarrow> q \<in> set db \<Longrightarrow> r_id r = r_id q \<Longrightarrow> r = q"
  by (auto simp: db_ok_def distinct_map inj_on_def)

lemma db_ok_split:
  "db_ok (as @ row # bs) \<Longrightarrow> r \<in> set as \<union> set bs \<Longrightarrow> r_id r \<noteq> r_id row"
  by (auto simp: db_ok_def) (metis imageI)+

lemma ids_update_row [simp]: "map r_id (update_row i st d db) = map r_id db"
  by (simp add: update_row_def)

lemma set_update_row:
  "set (update_row i st d db)
     = (\<lambda>r. if r_id r = i then r\<lparr>r_status := st, r_data := d\<rparr> else r) ` set db"
  by (simp add: update_row_def)

lemma db_ok_update_row:
  assumes "db_ok db" and "t_id d = i" and "t_status d = st"
    and "\<And>r. r \<in> set db \<Longrightarrow> r_id r = i \<Longrightarrow> r_created r = t_created_at d"
  shows "db_ok (update_row i st d db)"
  using assms by (auto simp: db_ok_def list_all_iff set_update_row row_ok_def)

lemma db_ok_push: "db_ok db \<Longrightarrow> db_ok (snd (push task db))"
  by (auto simp: db_ok_def push_def Let_def row_ok_def list_all_iff distinct_map inj_on_def)

lemma mark_running_ok:
  assumes "db_ok db" and "row \<in> set db"
  shows "db_ok (snd (mark_running now row db))"
proof -
  let ?t = "(r_data row)\<lparr>t_status := RUNNING, t_started_at := Some now\<rparr>"
  have row: "t_id (r_data row) = r_id row" "t_created_at (r_data row) = r_created row"
    using db_ok_row [OF assms] by (simp_all add: row_ok_def)
  have "db_ok (update_row (r_id row) RUNNING ?t db)"
  proof (rule db_ok_update_row [OF assms(1)])
    show "r_created r = t_created_at ?t" if "r \<in> set db" "r_id r = r_id row" for r
      using db_ok_unique [OF assms(1) that(1) assms(2) that(2)] row(2) by simp
  qed (simp_all add: row)
  then show ?thesis by (simp add: mark_running_def Let_def row)
qed

lemma select_in_db: "select_oldest_pending db = Some row \<Longrightarrow> row \<in> set db \<and> r_status row = PENDING"
  unfolding select_oldest_pending_def by (drule first_min_Some) auto

lemma db_ok_pop: "db_ok db \<Longrightarrow> db_ok (snd (pop_pending now db))"
  by (auto simp: pop_pending_def split: option.split prod.split
      dest!: select_in_db mark_running_ok [of db _ now])

lemma db_ok_update_status:
  assumes "db_ok db"
  shows "db_ok (update_status now i st res err db)"
proof (cases "find (\<lambda>r. r_id r = i) db")
  case (Some row)
  then have row: "row \<in> set db" "r_id row = i"
    by (auto dest: find_SomeD)
  then have d: "t_id (r_data row) = i" "t_created_at (r_data row) = r_created row"
    using db_ok_row [OF assms] by (auto simp: row_ok_def)
  have "r_created r = r_created row" if "r \<in> set db" "r_id r = i" for r
    using db_ok_unique [OF assms that(1) row(1)] that(2) row(2) by simp
  with Some d assms show ?thesis
    by (auto simp: update_status_def Let_def split: option.split intro!: db_ok_update_row)
qed (simp add: update_status_def assms)

section \<open>Crash recovery in closed form\<close>

definition reset_row :: "task_row \<Rightarrow> task_row" where
  "reset_row r = r\<lparr>r_status := PENDING,
     r_data := (r_data r)\<lparr>t_status := PENDING, t_started_at := None\<rparr>\<rparr>"

lemma fold_update_rows:
  "distinct (map r_id ws) \<Longrightarrow>
     fold (\<lambda>w d. update_row (r_id w) st (f w) d) ws db
     = map (\<lambda>r. case find (\<lambda>w. r_id w = r_id r) ws of None \<Rightarrow> r
                 | Some w \<Rightarrow> r\<lparr>r_status := st, r_data := f w\<rparr>) db"
proof (induction ws arbitrary: db)
  case (Cons w ws)
  then have "find (\<lambda>v. r_id v = r_id w) ws = None"
    by (auto simp: find_None_iff) (metis imageI)
  with Cons show ?case
    by (auto simp: update_row_def split: option.split)
qed simp

lemma fold_count: "fold (\<lambda>x (n, d). (Suc n, g x d)) xs (n, d) = (n + length xs, fold g xs d)"
  by (induction xs arbitrary: n d) simp_all

lemma recover_closed_form:
  assumes "db_ok db"
  shows "recover_stale_running db
     = (running_count db, map (\<lambda>r. if r_status r = RUNNING then reset_row r else r) db)"
proof -
  let ?ws = "filter (\<lambda>r. r_status r = RUNNING) db"
  let ?f = "\<lambda>r. (r_data r)\<lparr>t_status := PENDING, t_started_at := None\<rparr>"
  have d: "distinct (map r_id ?ws)"
    using assms by (simp add: db_ok_def distinct_map_filter)
  have "fold (\<lambda>w d. update_row (t_id (?f w)) PENDING (?f w) d) ?ws db
      = fold (\<lambda>w d. update_row (r_id w) PENDING (?f w) d) ?ws db"
    by (rule fold_cong) (use db_ok_row [OF assms] in \<open>auto simp: row_ok_def\<close>)
  moreover have "(case find (\<lambda>w. r_id w = r_id r) ?ws of None \<Rightarrow> r
        | Some w \<Rightarrow> r\<lparr>r_status := PENDING, r_data := ?f w\<rparr>)
      = (if r_status r = RUNNING then reset_row r else r)" if "r \<in> set db" for r
  proof (cases "find (\<lambda>w. r_id w = r_id r) ?ws")
    case None
    with that have "r_status r \<noteq> RUNNING" by (auto dest: find_NoneD)
    with None show ?thesis by simp
  next
    case (Some w)
    then have "w \<in> set db" "r_status w = RUNNING" "r_id w = r_id r"
      by (auto dest: find_SomeD)
    with db_ok_unique [OF assms that] have "w = r" by metis
    with Some \<open>r_status w = RUNNING\<close> show ?thesis by (simp add: reset_row_def)
  qed
  ultimately show ?thesis
    by (simp add: recover_stale_running_def Let_def fold_count fold_update_rows [OF d]
        running_count_def)
qed

lemma reset_row_sel [simp]:
  "r_id (reset_row r) = r_id r" "r_status (reset_row r) = PENDING"
  "r_created (reset_row r) = r_created r"
  by (simp_all add: reset_row_def)

lemma db_ok_recover:
  assumes "db_ok db"
  shows "db_ok (snd (recover_stale_running db))"
proof -
  let ?g = "\<lambda>r. if r_status r = RUNNING then reset_row r else r"
  have "map r_id (map ?g db) = map r_id db" by simp
  moreover have "row_ok (?g r)" if "r \<in> set db" for r
    using db_ok_row [OF assms that] by (simp add: row_ok_def reset_row_def)
  ultimately show ?thesis
    using assms unfolding recover_closed_form [OF assms] db_ok_def snd_conv
    by (auto simp only: list_all_iff set_map)
qed

section \<open>The queue as a work queue\<close>

definition pending_rows :: "task_db \<Rightarrow> task_row list" where
  "pending_rows db = filter (\<lambda>r. r_status r = PENDING) db"

definition ticket :: "task_row \<Rightarrow> real \<times> str" where
  "ticket r = (r_created r, r_id r)"

definition poll :: "real \<Rightarrow> task_db \<Rightarrow> ((real \<times> str) \<times> task_db) option" where
  "poll now db =
     (case pop_pending now db of
        (None, _) \<Rightarrow> None
      | (Some t, db') \<Rightarrow> Some ((t_created_at t, t_id t), db'))"

lemma pending_rows_mark:
  assumes "db_ok db" and "row \<in> set db" and "r_status row = PENDING"
  shows "mset (pending_rows db)
     = add_mset row (mset (pending_rows (snd (mark_running now row db))))"
proof -
  have id: "t_id (r_data row) = r_id row" using db_ok_row [OF assms(1,2)] by (simp add: row_ok_def)
  have keep: "filter (\<lambda>r. r_status r = PENDING \<and> r_id r \<noteq> i) db
      = filter (\<lambda>r. r_status r = PENDING) (update_row i RUNNING d db)" for i d
    by (induction db) (simp_all add: update_row_def)
  obtain as bs where db: "db = as @ row # bs"
    using assms(2) by (meson split_list)
  have ids: "r_id r \<noteq> r_id row" if "r \<in> set as \<union> set bs" for r
    using db_ok_split [OF assms(1) [unfolded db] that] .
  then have "filter (\<lambda>r. r_status r = PENDING \<and> r_id r \<noteq> r_id row) xs
      = filter (\<lambda>r. r_status r = PENDING) xs" if "set xs \<subseteq> set as \<union> set bs" for xs
    using that by (intro filter_cong) auto
  then have "filter (\<lambda>r. r_status r = PENDING \<and> r_id r \<noteq> r_id row) db
      = filter (\<lambda>r. r_status r = PENDING) as @ filter (\<lambda>r. r_status r = PENDING) bs"
    by (simp add: db)
  then show ?thesis
    unfolding pending_rows_def mark_running_def Let_def snd_conv
    using keep [of "r_id row"] assms(3) by (simp add: id db)
qed

lemma pop_pending_cases:
  assumes "db_ok db"
  obtains (empty) "pending_rows db = []" "pop_pending now db = (None, db)"
  | (taken) row where "row \<in> set db" "r_status row = PENDING"
      "first_min r_created (pending_rows db) = Some row"
      "pop_pending now db
         = (Some ((r_data row)\<lparr>t_status := RUNNING, t_started_at := Some now\<rparr>),
            snd (mark_running now row db))"
proof (cases "select_oldest_pending db")
  case None
  then show ?thesis
    by (intro empty) (simp_all add: pop_pending_def select_oldest_pending_def pending_rows_def)
next
  case (Some row)
  then show ?thesis
    using select_in_db [OF Some]
    by (intro taken [of row])
      (simp_all add: pop_pending_def select_oldest_pending_def pending_rows_def mark_running_def Let_def)
qed

interpretation task_poll: work_queue db_ok
    "\<lambda>db. image_mset ticket (mset (pending_rows db))" "poll now" fst
  for now
proof
  fix db x db' y
  assume ok: "db_ok db"
  show "poll now db = None \<longleftrightarrow> image_mset ticket (mset (pending_rows db)) = {#}"
    by (rule pop_pending_cases [OF ok, of now]) (auto simp: poll_def pending_rows_def)
  assume poll: "poll now db = Some (x, db')"
  then obtain row where row: "row \<in> set db" "r_status row = PENDING"
    and least: "first_min r_created (pending_rows db) = Some row"
    and db': "db' = snd (mark_running now row db)" and x: "x = ticket row"
    using db_ok_row [OF ok]
    by (rule_tac pop_pending_cases [OF ok, of now]) (auto simp: poll_def ticket_def row_ok_def)
  show "db_ok db'" unfolding db' by (rule mark_running_ok [OF ok row(1)])
  show "image_mset ticket (mset (pending_rows db))
      = add_mset x (image_mset ticket (mset (pending_rows db')))"
    unfolding db' x pending_rows_mark [OF ok row, of now] by simp
  show "y \<in># image_mset ticket (mset (pending_rows db)) \<Longrightarrow> fst x \<le> fst y"
    using first_min_Some [OF least] by (auto simp: x ticket_def)
qed

section \<open>Operations as one step relation\<close>

datatype queue_op =
    Push agent_task
  | Pop real
  | Update real str task_status "str option" "str option"
  | Recover

fun queue_step :: "queue_op \<Rightarrow> task_db \<Rightarrow> task_db" where
  "queue_step (Push t) db = snd (push t db)"
| "queue_step (Pop now) db = snd (pop_pending now db)"
| "queue_step (Update now i st res err) db = update_status now i st res err db"
| "queue_step Recover db = snd (recover_stale_running db)"

lemma queue_step_ok: "db_ok db \<Longrightarrow> db_ok (queue_step x db)"
  by (cases x) (simp_all add: db_ok_push db_ok_pop db_ok_update_status db_ok_recover)

lemma queue_steps_ok: "db_ok db \<Longrightarrow> db_ok (fold queue_step xs db)"
  by (induction xs arbitrary: db) (simp_all add: queue_step_ok)

text \<open>Two tasks, the older one already taken by a consumer.\<close>

definition demo_queue :: task_db where
  "demo_queue = fold queue_step
     [Push (make_user_task ''b'' 2 ''hello'' ''cli'' ''root''),
      Push (make_user_task ''a'' 1 ''hi'' ''cli'' ''root''), Pop 3] []"

lemma demo_queue_ok: "db_ok demo_queue"
  unfolding demo_queue_def by (rule queue_steps_ok) simp

lemmas queue_eval = demo_queue_def push_def pop_pending_def select_oldest_pending_def
  mark_running_def update_row_def make_user_task_def pending_rows_def pending_count_def
  running_count_def Let_def

section \<open>Properties\<close>

text \<open>However the queue's operations are sequenced, the status, id and creation columns of
  every row agree with the stored task, and no two rows share a task id.\<close>

theorem queue_rows_consistent: "db_ok (fold queue_step xs [])"
  by (rule queue_steps_ok) simp

text \<open>\<open>pop_pending\<close> on a consistent table answers the oldest pending task, among equally
  old ones the first inserted; it marks exactly that row as running, with the time, and changes
  no other row; it answers \<open>None\<close> only when nothing is pending.\<close>

theorem pop_pending_oldest:
  assumes "db_ok db"
  shows "case pop_pending now db of
      (None, db') \<Rightarrow> pending_rows db = [] \<and> db' = db
    | (Some t, db') \<Rightarrow>
        (\<exists>as row bs. db = as @ row # bs \<and> r_status row = PENDING
           \<and> t = (r_data row)\<lparr>t_status := RUNNING, t_started_at := Some now\<rparr>
           \<and> db' = as @ row\<lparr>r_status := RUNNING, r_data := t\<rparr> # bs
           \<and> (\<forall>r \<in> set (pending_rows as). r_created row < r_created r)
           \<and> (\<forall>r \<in> set (pending_rows bs). r_created row \<le> r_created r))"
proof (rule pop_pending_cases [OF assms, of now])
  fix row
  assume row: "row \<in> set db" "r_status row = PENDING"
    and least: "first_min r_created (pending_rows db) = Some row"
    and pop: "pop_pending now db
         = (Some ((r_data row)\<lparr>t_status := RUNNING, t_started_at := Some now\<rparr>),
            snd (mark_running now row db))"
  let ?t = "(r_data row)\<lparr>t_status := RUNNING, t_started_at := Some now\<rparr>"
  obtain as bs where db: "db = as @ row # bs"
    using row(1) by (meson split_list)
  have ids: "r_id r \<noteq> r_id row" if "r \<in> set as \<union> set bs" for r
    using db_ok_split [OF assms [unfolded db] that] .
  obtain as' bs' where split: "pending_rows db = as' @ row # bs'" "\<forall>a \<in> set as'. r_created row < r_created a"
    using first_min_first [OF least] by blast
  have "row \<notin> set (pending_rows as)" "row \<notin> set (pending_rows bs)"
    using ids by (auto simp: pending_rows_def)
  moreover have "pending_rows as @ row # pending_rows bs = as' @ row # bs'"
    using row(2) split(1) by (simp add: pending_rows_def db)
  ultimately have "pending_rows as = as'"
    by (simp add: append_Cons_eq_iff)
  moreover have "update_row (r_id row) RUNNING d db = as @ row\<lparr>r_status := RUNNING, r_data := d\<rparr> # bs" for d
    using ids by (auto simp: update_row_def db intro!: map_idI)
  moreover have "t_id (r_data row) = r_id row"
    using db_ok_row [OF assms row(1)] by (simp add: row_ok_def)
  moreover have "\<forall>r \<in> set (pending_rows bs). r_created row \<le> r_created r"
    using first_min_Some [OF least] by (auto simp: pending_rows_def db)
  ultimately have "pop_pending now db
      = (Some ?t, as @ row\<lparr>r_status := RUNNING, r_data := ?t\<rparr> # bs)"
    and "\<forall>r \<in> set (pending_rows as). r_created row < r_created r"
    and "\<forall>r \<in> set (pending_rows bs). r_created row \<le> r_created r"
    using split(2) pop by (simp_all add: mark_running_def Let_def)
  with row(2) db show ?thesis
    by (simp only: prod.case option.case) blast
qed simp

lemma pop_pending_oldest_witness:
  "db_ok demo_queue \<and> pending_rows demo_queue \<noteq> []
     \<and> (\<exists>t. fst (pop_pending 5 demo_queue) = Some t \<and> t_id t = ''b''
         \<and> (\<exists>row \<in> set demo_queue. r_status row = PENDING \<and> r_id row = ''b''
              \<and> t = (r_data row)\<lparr>t_status := RUNNING, t_started_at := Some 5\<rparr>))"
proof -
  have "\<exists>t db'. pop_pending 5 demo_queue = (Some t, db') \<and> t_id t = ''b''"
    by (simp add: queue_eval)
  then obtain t db' where pop: "pop_pending 5 demo_queue = (Some t, db')" and t: "t_id t = ''b''"
    by blast
  obtain as row bs where "demo_queue = as @ row # bs" and row: "r_status row = PENDING"
    "t = (r_data row)\<lparr>t_status := RUNNING, t_started_at := Some 5\<rparr>"
    using pop_pending_oldest [OF demo_queue_ok, of 5] unfolding pop by auto
  from this(1) have "row \<in> set demo_queue" unfolding in_set_conv_decomp by blast
  with row have "\<exists>row \<in> set demo_queue. r_status row = PENDING
      \<and> t = (r_data row)\<lparr>t_status := RUNNING, t_started_at := Some 5\<rparr>" by blast
  moreover have "\<forall>row \<in> set demo_queue. r_status row = PENDING \<longrightarrow> r_id row = ''b''"
    by (simp add: queue_eval)
  moreover have "pending_rows demo_queue \<noteq> []" by (simp add: queue_eval)
  ultimately show ?thesis using demo_queue_ok pop t by auto
qed

text \<open>A single consumer that polls until the queue is empty receives every pending task
  exactly once, in order of creation, and leaves nothing pending.\<close>

theorem poll_until_empty:
  assumes "db_ok db" and "pending_count db \<le> n"
  shows "mset (fst (drain (poll now) n db)) = image_mset ticket (mset (pending_rows db))
     \<and> sorted (map fst (fst (drain (poll now) n db)))
     \<and> pending_count (snd (drain (poll now) n db)) = 0"
proof -
  have n: "size (image_mset ticket (mset (pending_rows db))) \<le> n"
    using assms(2) by (simp only: size_image_mset size_mset pending_count_def pending_rows_def)
  show ?thesis
    using task_poll.drain_all [OF assms(1) n, of now] task_poll.drain_sorted [OF assms(1), of now n]
    by (simp add: pending_count_def pending_rows_def)
qed

lemma poll_until_empty_witness:
  "db_ok demo_queue \<and> pending_count demo_queue \<le> 1
     \<and> mset (fst (drain (poll 5) 1 demo_queue)) = {#(2, ''b'')#}"
proof -
  have c: "pending_count demo_queue \<le> 1" by (simp add: queue_eval)
  have "image_mset ticket (mset (pending_rows demo_queue)) = {#(2, ''b'')#}"
    by (simp add: queue_eval ticket_def)
  with poll_until_empty [OF demo_queue_ok c, of 5] demo_queue_ok c show ?thesis by simp
qed

text \<open>After a crash, recovery returns the number of running tasks, makes exactly those
  pending again with their start time cleared, and leaves finished and pending rows alone;
  nothing is running afterwards and no task is lost.\<close>

theorem recover_after_crash:
  assumes "db_ok db"
  shows "recover_stale_running db
       = (running_count db, map (\<lambda>r. if r_status r = RUNNING then reset_row r else r) db)
     \<and> running_count (snd (recover_stale_running db)) = 0
     \<and> pending_count (snd (recover_stale_running db)) = pending_count db + running_count db"
proof -
  have "length (filter (\<lambda>r. r_status r = PENDING)
          (map (\<lambda>r. if r_status r = RUNNING then reset_row r else r) xs))
      = length (filter (\<lambda>r. r_status r = PENDING) xs) + length (filter (\<lambda>r. r_status r = RUNNING) xs)"
    for xs by (induction xs) auto
  moreover have "filter (\<lambda>r. r_status r = RUNNING)
      (map (\<lambda>r. if r_status r = RUNNING then reset_row r else r) db) = []"
    by (auto simp: filter_empty_conv)
  ultimately show ?thesis
    by (simp add: recover_closed_form [OF assms] pending_count_def running_count_def)
qed

lemma recover_after_crash_witness:
  "db_ok demo_queue \<and> fst (recover_stale_running demo_queue) = 1
     \<and> pending_count (snd (recover_stale_running demo_queue)) = 2"
proof -
  have "running_count demo_queue = 1" "pending_count demo_queue = 1"
    by (simp_all add: queue_eval)
  then have "fst (recover_stale_running demo_queue) = 1"
    and "pending_count (snd (recover_stale_running demo_queue)) = 2"
    using recover_after_crash [OF demo_queue_ok] by (metis fst_conv, linarith)
  with demo_queue_ok show ?thesis by simp
qed

end
