(* ===== verification/Goals.thy ===== *)
theory Goals
  imports Py_Values "HOL-Library.List_Lexorder" "HOL-Library.Char_ord"
begin

text \<open>
  The goals of a session (\<open>agent_core/goals/types.py\<close>, \<open>agent_core/goals/store.py\<close>):
  goals with steps, their statuses, and their copy in the session's checkpoint.

  Fresh identifiers come from a supply \<open>nat \<Rightarrow> str\<close>, one per step created, and
  \<open>_utc_now_iso()\<close> is an argument. A goal is one mutable object that only the store holds,
  so updating it in place is replacing the value under its key; an operation that raises after
  it has changed the goal returns the changed store with the error.
\<close>

section \<open>Goals and steps\<close>

datatype step_status = StepPending | StepInProgress | StepBlocked | StepCompleted

datatype goal_status = GoalActive | GoalCompleted | GoalCancelled

fun step_status_str :: "step_status \<Rightarrow> str" where
  "step_status_str StepPending = ''pending''"
| "step_status_str StepInProgress = ''in_progress''"
| "step_status_str StepBlocked = ''blocked''"
| "step_status_str StepCompleted = ''completed''"

fun goal_status_str :: "goal_status \<Rightarrow> str" where
  "goal_status_str GoalActive = ''active''"
| "goal_status_str GoalCompleted = ''completed''"
| "goal_status_str GoalCancelled = ''cancelled''"

text \<open>\<open>GoalStepStatus(raw)\<close> with the fallback of \<open>from_dict\<close>.\<close>

definition step_status_of :: "str \<Rightarrow> step_status" where
  "step_status_of raw =
     (case find (\<lambda>s. step_status_str s = raw)
             [StepPending, StepInProgress, StepBlocked, StepCompleted] of
        None \<Rightarrow> StepPending | Some s \<Rightarrow> s)"

definition goal_status_of :: "str \<Rightarrow> goal_status" where
  "goal_status_of raw =
     (case find (\<lambda>s. goal_status_str s = raw) [GoalActive, GoalCompleted, GoalCancelled] of
        None \<Rightarrow> GoalActive | Some s \<Rightarrow> s)"

record goal_step =
  gs_id :: str
  gs_description :: str
  gs_status :: step_status
  gs_notes :: "str option"

record goal =
  gl_id :: str
  gl_title :: str
  gl_description :: "str option"
  gl_status :: goal_status
  gl_steps :: "goal_step list"
  gl_created_at :: str
  gl_updated_at :: str

definition opt_value :: "str option \<Rightarrow> pyval" where
  "opt_value s = (case s of None \<Rightarrow> PyNone | Some t \<Rightarrow> PyStr t)"

definition step_to_dict :: "goal_step \<Rightarrow> (str, pyval) dict" where
  "step_to_dict s =
     [(''id'', PyStr (gs_id s)), (''description'', PyStr (gs_description s)),
      (''status'', PyStr (step_status_str (gs_status s))), (''notes'', opt_value (gs_notes s))]"

definition step_from_dict :: "str \<Rightarrow> (str, pyval) dict \<Rightarrow> goal_step" where
  "step_from_dict fresh d =
     \<lparr>gs_id = py_str (py_get_or d ''id'' (PyStr fresh)),
      gs_description = strip (py_str (py_get_or d ''description'' (PyStr []))),
      gs_status = step_status_of (py_str (py_get_or d ''status'' (PyStr (step_status_str StepPending)))),
      gs_notes = (let notes = py_get d ''notes''
                  in if truthy notes then Some (strip (py_str notes)) else None)\<rparr>"

definition goal_to_dict :: "goal \<Rightarrow> (str, pyval) dict" where
  "goal_to_dict g =
     [(''id'', PyStr (gl_id g)), (''title'', PyStr (gl_title g)),
      (''description'', opt_value (gl_description g)),
      (''status'', PyStr (goal_status_str (gl_status g))),
      (''steps'', PyList (map (\<lambda>s. PyDict (step_to_dict s)) (gl_steps g))),
      (''created_at'', PyStr (gl_created_at g)), (''updated_at'', PyStr (gl_updated_at g))]"

definition goal_from_dict :: "(nat \<Rightarrow> str) \<Rightarrow> str \<Rightarrow> str \<Rightarrow> (str, pyval) dict \<Rightarrow> goal" where
  "goal_from_dict fresh_step fresh now d =
     \<lparr>gl_id = py_str (py_get_or d ''id'' (PyStr fresh)),
      gl_title = strip (py_str (py_get_or d ''title'' (PyStr []))),
      gl_description = (let descr = py_get d ''description''
                        in if truthy descr then Some (strip (py_str descr)) else None),
      gl_status = goal_status_of (py_str (py_get_or d ''status'' (PyStr (goal_status_str GoalActive)))),
      gl_steps = map (\<lambda>(i, raw). step_from_dict (fresh_step i) (dict_of raw))
                   (enumerate 0 (filter is_dict (list_of (py_or (py_get d ''steps'') (PyList []))))),
      gl_created_at = py_str (py_or (py_get d ''created_at'') (PyStr now)),
      gl_updated_at = py_str (py_or (py_get d ''updated_at'') (PyStr now))\<rparr>"

section \<open>The store\<close>

type_synonym goal_store = "(str, goal) dict"

text \<open>\<open>sorted(goals, key=updated_at, reverse=True)\<close>: stable, so ties keep their order.\<close>

definition newest_first :: "goal list \<Rightarrow> goal list" where
  "newest_first gs = rev (sort_key gl_updated_at (rev gs))"

definition list_goals :: "bool \<Rightarrow> goal_store \<Rightarrow> goal list" where
  "list_goals include_completed st =
     newest_first (if include_completed then map snd st
                   else filter (\<lambda>g. gl_status g = GoalActive) (map snd st))"

definition get_goal :: "str \<Rightarrow> goal_store \<Rightarrow> goal option" where
  "get_goal goal_id st = map_of st goal_id"

text \<open>The non-blank texts become pending steps; an identifier is drawn for each of them.\<close>

definition new_steps :: "(nat \<Rightarrow> str) \<Rightarrow> str list \<Rightarrow> goal_step list" where
  "new_steps fresh texts =
     map (\<lambda>(i, t). \<lparr>gs_id = fresh i, gs_description = t, gs_status = StepPending, gs_notes = None\<rparr>)
       (enumerate 0 (filter (\<lambda>t. t \<noteq> []) (map strip texts)))"

definition create_goal ::
  "(nat \<Rightarrow> str) \<Rightarrow> str \<Rightarrow> str \<Rightarrow> str \<Rightarrow> str option \<Rightarrow> str list \<Rightarrow> goal_store
     \<Rightarrow> (py_exn + goal) \<times> goal_store" where
  "create_goal fresh gid now title description steps st =
     (let t = strip title
      in if t = [] then (Inl (ValueError ''title''), st)
         else
           let g = \<lparr>gl_id = gid, gl_title = t, gl_description = description, gl_status = GoalActive,
                    gl_steps = new_steps fresh steps, gl_created_at = now, gl_updated_at = now\<rparr>
           in (Inr g, dset (gl_id g) g st))"

text \<open>The first step with the id, changed by \<open>f\<close>; \<open>None\<close> where the lookup raises.\<close>

fun change_step :: "str \<Rightarrow> (goal_step \<Rightarrow> goal_step) \<Rightarrow> goal_step list \<Rightarrow> goal_step list option" where
  "change_step sid f [] = None"
| "change_step sid f (s # ss) =
     (if gs_id s = sid then Some (f s # ss) else map_option ((#) s) (change_step sid f ss))"

definition strip_opt :: "str \<Rightarrow> str option" where
  "strip_opt s = (if strip s = [] then None else Some (strip s))"

definition update_goal ::
  "(nat \<Rightarrow> str) \<Rightarrow> str \<Rightarrow> str \<Rightarrow> str option \<Rightarrow> str option \<Rightarrow> str option \<Rightarrow> step_status option
     \<Rightarrow> str option \<Rightarrow> str list \<Rightarrow> goal_store \<Rightarrow> (py_exn + goal) \<times> goal_store" where
  "update_goal fresh now goal_id title description step_id status notes add_steps st =
     (case map_of st goal_id of
        None \<Rightarrow> (Inl (KeyError goal_id), st)
      | Some g0 \<Rightarrow>
          if title \<noteq> None \<and> strip (opt_str title) = [] then (Inl (ValueError ''title''), st)
          else
            let g1 = (case title of None \<Rightarrow> g0 | Some t \<Rightarrow> g0\<lparr>gl_title := strip t\<rparr>);
                g2 = (case description of None \<Rightarrow> g1 | Some d \<Rightarrow> g1\<lparr>gl_description := strip_opt d\<rparr>);
                g3 = g2\<lparr>gl_steps := gl_steps g2 @ new_steps fresh add_steps\<rparr>;
                upd = (\<lambda>s. let s1 = (case status of None \<Rightarrow> s | Some x \<Rightarrow> s\<lparr>gs_status := x\<rparr>)
                           in (case notes of None \<Rightarrow> s1 | Some n \<Rightarrow> s1\<lparr>gs_notes := strip_opt n\<rparr>));
                changed = (if opt_str step_id = [] then Some (gl_steps g3)
                           else change_step (opt_str step_id) upd (gl_steps g3))
            in (case changed of
                  None \<Rightarrow> (Inl (KeyError (opt_str step_id)), dset goal_id g3 st)
                | Some ss \<Rightarrow>
                    let g4 = g3\<lparr>gl_steps := ss, gl_updated_at := now\<rparr>
                    in (Inr g4, dset goal_id g4 st)))"

definition all_done :: "goal \<Rightarrow> bool" where
  "all_done g \<longleftrightarrow> gl_steps g \<noteq> [] \<and> list_all (\<lambda>s. gs_status s = StepCompleted) (gl_steps g)"

definition close_if_done :: "goal \<Rightarrow> goal" where
  "close_if_done g = (if all_done g then g\<lparr>gl_status := GoalCompleted\<rparr> else g)"

definition complete_goal ::
  "str \<Rightarrow> str \<Rightarrow> str option \<Rightarrow> str option \<Rightarrow> goal_store \<Rightarrow> (py_exn + goal) \<times> goal_store" where
  "complete_goal now goal_id step_id notes st =
     (case map_of st goal_id of
        None \<Rightarrow> (Inl (KeyError goal_id), st)
      | Some g0 \<Rightarrow>
          if opt_str step_id \<noteq> []
          then (case change_step (opt_str step_id)
                       (\<lambda>s. let s1 = s\<lparr>gs_status := StepCompleted\<rparr>
                            in if opt_str notes \<noteq> [] then s1\<lparr>gs_notes := Some (strip (opt_str notes))\<rparr> else s1)
                       (gl_steps g0) of
                  None \<Rightarrow> (Inl (KeyError (opt_str step_id)), st)
                | Some ss \<Rightarrow>
                    let g = close_if_done (g0\<lparr>gl_steps := ss, gl_updated_at := now\<rparr>)
                    in (Inr g, dset goal_id g st))
          else
            let g = close_if_done (g0\<lparr>gl_steps := map (\<lambda>s. s\<lparr>gs_status := StepCompleted\<rparr>) (gl_steps g0),
                       gl_status := GoalCompleted, gl_updated_at := now\<rparr>)
            in (Inr g, dset goal_id g st))"

definition cancel_goal :: "str \<Rightarrow> str \<Rightarrow> goal_store \<Rightarrow> (py_exn + goal) \<times> goal_store" where
  "cancel_goal now goal_id st =
     (case map_of st goal_id of
        None \<Rightarrow> (Inl (KeyError goal_id), st)
      | Some g0 \<Rightarrow>
          let g = g0\<lparr>gl_status := GoalCancelled, gl_updated_at := now\<rparr>
          in (Inr g, dset goal_id g st))"

definition has_active_goals :: "goal_store \<Rightarrow> bool" where
  "has_active_goals st \<longleftrightarrow> list_goals False st \<noteq> []"

definition waits_for_outside :: "goal \<Rightarrow> bool" where
  "waits_for_outside g \<longleftrightarrow>
     gl_steps g \<noteq> [] \<and> list_ex (\<lambda>s. gs_status s = StepBlocked) (gl_steps g)
     \<and> \<not> list_ex (\<lambda>s. gs_status s = StepInProgress) (gl_steps g)"

definition goals_defer_auto_continue :: "goal_store \<Rightarrow> bool" where
  "goals_defer_auto_continue st \<longleftrightarrow> list_ex waits_for_outside (list_goals False st)"

definition should_auto_continue :: "goal_store \<Rightarrow> bool" where
  "should_auto_continue st \<longleftrightarrow> has_active_goals st \<and> \<not> goals_defer_auto_continue st"

definition to_checkpoint_data :: "goal_store \<Rightarrow> (str, pyval) dict list" where
  "to_checkpoint_data st = map (\<lambda>(_, g). goal_to_dict g) st"

fun load_goals ::
  "(nat \<Rightarrow> nat \<Rightarrow> str) \<Rightarrow> (nat \<Rightarrow> str) \<Rightarrow> str \<Rightarrow> nat \<Rightarrow> pyval list \<Rightarrow> goal_store \<Rightarrow> goal_store" where
  "load_goals fresh_step fresh now i [] st = st"
| "load_goals fresh_step fresh now i (raw # raws) st =
     load_goals fresh_step fresh now (Suc i) raws
       (if is_dict raw
        then let g = goal_from_dict (fresh_step i) (fresh i) now (dict_of raw) in dset (gl_id g) g st
        else st)"

definition load_from_checkpoint ::
  "(nat \<Rightarrow> nat \<Rightarrow> str) \<Rightarrow> (nat \<Rightarrow> str) \<Rightarrow> str \<Rightarrow> pyval list \<Rightarrow> goal_store" where
  "load_from_checkpoint fresh_step fresh now data = load_goals fresh_step fresh now 0 data []"

section \<open>Laws\<close>

definition goals_ok :: "goal_store \<Rightarrow> bool" where
  "goals_ok st \<longleftrightarrow> dict_ok st \<and> (\<forall>(k, g) \<in> set st. gl_id g = k)"

text \<open>What a goal becomes when it is read back from a checkpoint.\<close>

definition step_norm :: "goal_step \<Rightarrow> goal_step" where
  "step_norm s = s\<lparr>gs_description := strip (gs_description s),
     gs_notes := (if opt_str (gs_notes s) = [] then None else Some (strip (opt_str (gs_notes s))))\<rparr>"

definition goal_norm :: "str \<Rightarrow> goal \<Rightarrow> goal" where
  "goal_norm now g = g\<lparr>gl_title := strip (gl_title g),
     gl_description := (if opt_str (gl_description g) = [] then None
                        else Some (strip (opt_str (gl_description g)))),
     gl_steps := map step_norm (gl_steps g),
     gl_created_at := str_or (gl_created_at g) now, gl_updated_at := str_or (gl_updated_at g) now\<rparr>"

lemma step_status_roundtrip [simp]: "step_status_of (step_status_str s) = s"
  by (cases s) (simp_all add: step_status_of_def)

lemma goal_status_roundtrip [simp]: "goal_status_of (goal_status_str s) = s"
  by (cases s) (simp_all add: goal_status_of_def)

lemma truthy_opt_value [simp]: "truthy (opt_value s) \<longleftrightarrow> opt_str s \<noteq> []"
  by (cases s) (simp_all add: opt_value_def)

lemma str_opt_value: "opt_str s \<noteq> [] \<Longrightarrow> py_str (opt_value s) = opt_str s"
  by (cases s) (simp_all add: opt_value_def)

lemma step_roundtrip: "step_from_dict fresh (step_to_dict s) = step_norm s"
  by (simp add: step_from_dict_def step_to_dict_def step_norm_def py_get_or_def py_get_def str_opt_value)

lemma py_str_or_now: "py_str (py_or (PyStr s) (PyStr now)) = str_or s now"
  by (cases s) (simp_all add: py_or_def)

lemma goal_roundtrip: "goal_from_dict fs fresh now (goal_to_dict g) = goal_norm now g"
proof -
  have steps: "list_of (py_or (PyList (map (\<lambda>s. PyDict (step_to_dict s)) ss)) (PyList []))
      = map (\<lambda>s. PyDict (step_to_dict s)) ss" for ss
    by (cases ss) (simp_all add: py_or_def)
  have "filter is_dict (map (\<lambda>s. PyDict (step_to_dict s)) ss) = map (\<lambda>s. PyDict (step_to_dict s)) ss" for ss
    by (induction ss) simp_all
  moreover have "map (\<lambda>(i, raw). step_from_dict (fs i) (dict_of raw))
      (enumerate n (map (\<lambda>s. PyDict (step_to_dict s)) ss)) = map step_norm ss" for ss n
    by (induction ss arbitrary: n) (simp_all add: step_roundtrip)
  ultimately show ?thesis
    by (simp add: goal_from_dict_def goal_to_dict_def goal_norm_def py_get_or_def py_get_def
        steps py_str_or_now str_opt_value)
qed

lemma load_goals_append:
  "(\<forall>g \<in> set gs. \<not> has_key (gl_id g) st) \<Longrightarrow> distinct (map gl_id gs) \<Longrightarrow>
     load_goals fs f now i (map (\<lambda>g. PyDict (goal_to_dict g)) gs) st
       = st @ map (\<lambda>g. (gl_id g, goal_norm now g)) gs"
proof (induction gs arbitrary: i st)
  case (Cons g gs)
  have "gl_id (goal_norm now g) = gl_id g" by (simp add: goal_norm_def)
  moreover have "\<forall>h \<in> set gs. \<not> has_key (gl_id h) (st @ [(gl_id g, goal_norm now g)])"
    using Cons.prems by (auto simp: has_key_def) (metis imageI)
  ultimately show ?case using Cons.IH Cons.prems by (simp add: goal_roundtrip dset_absent)
qed simp

lemma goals_ok_values: "goals_ok st \<Longrightarrow> map gl_id (map snd st) = dkeys st"
  by (induction st) (auto simp: goals_ok_def dict_ok_def)

lemma load_to_checkpoint:
  assumes "goals_ok st"
  shows "load_from_checkpoint fs f now (map PyDict (to_checkpoint_data st))
     = map (\<lambda>(k, g). (k, goal_norm now g)) st"
proof -
  have "map PyDict (to_checkpoint_data st) = map (\<lambda>g. PyDict (goal_to_dict g)) (map snd st)"
    by (simp add: to_checkpoint_data_def case_prod_unfold)
  moreover have "distinct (map gl_id (map snd st))"
    using assms unfolding goals_ok_values [OF assms] by (simp add: goals_ok_def dict_ok_def)
  moreover have "map (\<lambda>g. (gl_id g, goal_norm now g)) (map snd st) = map (\<lambda>(k, g). (k, goal_norm now g)) st"
    using assms by (induction st) (auto simp: goals_ok_def dict_ok_def)
  ultimately show ?thesis
    using load_goals_append [of "map snd st" "[]" fs f now 0] by (simp add: load_from_checkpoint_def)
qed

lemma set_newest_first [simp]: "set (newest_first gs) = set gs"
  by (simp add: newest_first_def)

lemma newest_first_Nil [simp]: "newest_first gs = [] \<longleftrightarrow> gs = []"
  by (metis set_empty set_newest_first)

lemma has_active_iff: "has_active_goals st \<longleftrightarrow> (\<exists>p \<in> set st. gl_status (snd p) = GoalActive)"
  by (auto simp: has_active_goals_def list_goals_def filter_empty_conv)

lemma defer_iff:
  "goals_defer_auto_continue st \<longleftrightarrow>
     (\<exists>p \<in> set st. gl_status (snd p) = GoalActive \<and> waits_for_outside (snd p))"
  by (auto simp: goals_defer_auto_continue_def list_goals_def list_ex_iff)

lemma norm_status [simp]: "gl_status (goal_norm now g) = gl_status g"
  by (simp add: goal_norm_def)

lemma waits_norm [simp]: "waits_for_outside (goal_norm now g) = waits_for_outside g"
  by (simp add: waits_for_outside_def goal_norm_def list_ex_iff step_norm_def)

lemma active_norm:
  "has_active_goals (map (\<lambda>(k, g). (k, goal_norm now g)) st) = has_active_goals st"
  "should_auto_continue (map (\<lambda>(k, g). (k, goal_norm now g)) st) = should_auto_continue st"
  by (simp_all add: has_active_iff defer_iff should_auto_continue_def case_prod_unfold)

lemma change_step_ids:
  "(\<And>s. gs_id (f s) = gs_id s) \<Longrightarrow> change_step sid f ss = Some ss' \<Longrightarrow>
     map gs_id ss' = map gs_id ss"
  by (induction ss arbitrary: ss') (auto split: if_splits)

lemma change_step_None: "change_step sid f ss = None \<longleftrightarrow> sid \<notin> gs_id ` set ss"
  by (induction ss) auto

lemma close_if_done_simps [simp]:
  "gl_id (close_if_done g) = gl_id g" "gl_steps (close_if_done g) = gl_steps g"
  "gl_updated_at (close_if_done g) = gl_updated_at g"
  "gl_status (close_if_done g) = (if all_done g then GoalCompleted else gl_status g)"
  by (simp_all add: close_if_done_def)

lemma all_done_close [simp]: "all_done (close_if_done g) = all_done g"
  by (simp add: all_done_def)

lemma all_done_status [simp]: "all_done (g\<lparr>gl_status := x\<rparr>) = all_done g"
  by (simp add: all_done_def)

text \<open>Every operation puts a goal back under its own id.\<close>

lemma goals_ok_dset: "goals_ok st \<Longrightarrow> gl_id g = k \<Longrightarrow> goals_ok (dset k g st)"
proof -
  assume ok: "goals_ok st" and k: "gl_id g = k"
  then have d: "dict_ok (dset k g st)" by (simp add: goals_ok_def)
  have "gl_id h = i" if "(i, h) \<in> set (dset k g st)" for i h
    using in_set_dget [OF d that] ok k by (auto simp: goals_ok_def split: if_splits dest: dget_in_set)
  with d show ?thesis by (auto simp: goals_ok_def)
qed

lemma goals_ok_id: "goals_ok st \<Longrightarrow> map_of st k = Some g \<Longrightarrow> gl_id g = k"
  by (auto simp: goals_ok_def dest: dget_in_set)

datatype goal_op =
    OpCreate "nat \<Rightarrow> str" str str str "str option" "str list"
  | OpUpdate "nat \<Rightarrow> str" str str "str option" "str option" "str option" "step_status option"
      "str option" "str list"
  | OpComplete str str "str option" "str option"
  | OpCancel str str

fun goal_step_op :: "goal_op \<Rightarrow> goal_store \<Rightarrow> (py_exn + goal) \<times> goal_store" where
  "goal_step_op (OpCreate f gid now t d ss) st = create_goal f gid now t d ss st"
| "goal_step_op (OpUpdate f now gid t d sid x n add) st = update_goal f now gid t d sid x n add st"
| "goal_step_op (OpComplete now gid sid n) st = complete_goal now gid sid n st"
| "goal_step_op (OpCancel now gid) st = cancel_goal now gid st"

lemma update_goal_ok: "goals_ok st \<Longrightarrow> goals_ok (snd (update_goal f now gid t d sid x n add st))"
  by (auto simp: update_goal_def Let_def goals_ok_id split: option.split intro!: goals_ok_dset)

lemma goal_op_ok: "goals_ok st \<Longrightarrow> goals_ok (snd (goal_step_op a st))"
  by (cases a)
    (auto simp: create_goal_def update_goal_ok complete_goal_def cancel_goal_def Let_def goals_ok_id
      split: option.split intro!: goals_ok_dset)

lemma goals_ok_run: "goals_ok st \<Longrightarrow> goals_ok (snd (run_ops goal_step_op ops st))"
  by (rule run_ops_invariant [where P = goals_ok]) (simp_all add: goal_op_ok)

lemma goals_ok_Nil [simp]: "goals_ok []"
  by (simp add: goals_ok_def)

section \<open>Properties\<close>

text \<open>C37: A restart does not lose or change the plan: whatever operations built the goal store,
  loading its checkpoint data into a fresh store gives the same goals under the same ids in the
  same order, with the same statuses, steps and step statuses (texts trimmed, as the code does),
  so the session is pinned and continued exactly as before.\<close>

theorem goals_survive_checkpoint:
  "let st = snd (run_ops goal_step_op ops []);
       st' = load_from_checkpoint fs f now (map PyDict (to_checkpoint_data st))
   in st' = map (\<lambda>(k, g). (k, goal_norm now g)) st
      \<and> has_active_goals st' = has_active_goals st
      \<and> should_auto_continue st' = should_auto_continue st"
  unfolding Let_def using load_to_checkpoint [OF goals_ok_run [OF goals_ok_Nil]] active_norm by simp

text \<open>Completing a goal or one of its steps. For a goal the store holds, and a step of it when a
  step is named: the call succeeds; the goal is completed when no step was named, when it was
  completed before, or when all its steps are completed now, and otherwise keeps its status;
  every other goal is untouched. In all other cases the store is unchanged and the error is
  a KeyError.\<close>

theorem complete_goal_effect:
  "case map_of st gid of
     None \<Rightarrow> complete_goal now gid sid notes st = (Inl (KeyError gid), st)
   | Some g0 \<Rightarrow>
       if opt_str sid \<noteq> [] \<and> opt_str sid \<notin> gs_id ` set (gl_steps g0)
       then complete_goal now gid sid notes st = (Inl (KeyError (opt_str sid)), st)
       else \<exists>g. complete_goal now gid sid notes st = (Inr g, dset gid g st)
          \<and> map gs_id (gl_steps g) = map gs_id (gl_steps g0)
          \<and> gl_status g = (if opt_str sid = [] \<or> all_done g then GoalCompleted else gl_status g0)
          \<and> (opt_str sid = [] \<longrightarrow> list_all (\<lambda>s. gs_status s = StepCompleted) (gl_steps g))
          \<and> (\<forall>k. k \<noteq> gid \<longrightarrow> map_of (snd (complete_goal now gid sid notes st)) k = map_of st k)"
proof (cases "map_of st gid")
  case (Some g0)
  let ?f = "\<lambda>s. let s1 = s\<lparr>gs_status := StepCompleted\<rparr>
     in if opt_str notes \<noteq> [] then s1\<lparr>gs_notes := Some (strip (opt_str notes))\<rparr> else s1"
  show ?thesis
  proof (cases "opt_str sid = []")
    case True
    with Some show ?thesis
      by (simp add: complete_goal_def Let_def list_all_iff)
  next
    case False
    show ?thesis
    proof (cases "change_step (opt_str sid) ?f (gl_steps g0)")
      case None
      with Some False change_step_None [of "opt_str sid" ?f "gl_steps g0"] show ?thesis
        by (simp add: complete_goal_def)
    next
      case (Some ss)
      let ?g = "close_if_done (g0\<lparr>gl_steps := ss, gl_updated_at := now\<rparr>)"
      have "map gs_id ss = map gs_id (gl_steps g0)"
        by (rule change_step_ids [OF _ Some]) (simp add: Let_def)
      moreover have "opt_str sid \<in> gs_id ` set (gl_steps g0)"
        using Some change_step_None [of "opt_str sid" ?f "gl_steps g0"] by simp
      moreover have "complete_goal now gid sid notes st
          = (Inr ?g, dset gid ?g st)"
        using Some False \<open>map_of st gid = Some g0\<close> by (simp only: complete_goal_def option.case Let_def if_True if_False simp_thms)
      ultimately show ?thesis
        using \<open>map_of st gid = Some g0\<close> False by simp
    qed
  qed
qed (simp add: complete_goal_def)

text \<open>An update that is answered with an error can still have changed the goal: with a new title
  and an unknown step id, the call raises a KeyError and the stored goal has the new title and
  the added steps.\<close>

theorem failed_update_changes_goal:
  assumes "map_of st gid = Some g0" and "strip t \<noteq> []" and "sid \<noteq> []"
    and "sid \<notin> gs_id ` set (gl_steps g0 @ new_steps f add)"
  shows "fst (update_goal f now gid (Some t) d (Some sid) x n add st) = Inl (KeyError sid)
    \<and> (\<exists>g. map_of (snd (update_goal f now gid (Some t) d (Some sid) x n add st)) gid = Some g
         \<and> gl_title g = strip t \<and> gl_steps g = gl_steps g0 @ new_steps f add
         \<and> gl_updated_at g = gl_updated_at g0)"
  using assms change_step_None [of sid _ "gl_steps g0 @ new_steps f add"]
  by (auto simp: update_goal_def Let_def split: option.split)

definition demo_goals :: goal_store where
  "demo_goals = snd (create_goal (\<lambda>_. ''step-1'') ''goal-1'' ''t0'' ''ship'' None [''build''] [])"

lemma failed_update_changes_goal_witness:
  "fst (update_goal (\<lambda>_. ''step-2'') ''t1'' ''goal-1'' (Some ''new'') None (Some ''nope'') None None [] demo_goals)
     = Inl (KeyError ''nope'')
   \<and> map_option gl_title (map_of (snd (update_goal (\<lambda>_. ''step-2'') ''t1'' ''goal-1'' (Some ''new'') None
         (Some ''nope'') None None [] demo_goals)) ''goal-1'') = Some ''new''"
proof -
  have s: "strip ''ship'' = ''ship''" "strip ''build'' = ''build''" "strip ''new'' = ''new''"
    by (simp_all add: strip_id_iff_ends is_space_def)
  obtain g0 where g0: "map_of demo_goals ''goal-1'' = Some g0"
    and ids: "gs_id ` set (gl_steps g0 @ new_steps (\<lambda>_. ''step-2'') []) = {''step-1''}"
    by (simp add: demo_goals_def create_goal_def new_steps_def s Let_def)
  note use = failed_update_changes_goal [OF g0, of "''new''" "''nope''" "\<lambda>_. ''step-2''" "[]" "''t1''" None None None]
  show ?thesis using use ids s(3) by auto
qed

lemma complete_goal_effect_witness:
  "\<exists>g. complete_goal ''t1'' ''goal-1'' None None demo_goals = (Inr g, dset ''goal-1'' g demo_goals)
     \<and> gl_status g = GoalCompleted"
proof -
  have s: "strip ''ship'' = ''ship''" by (simp add: strip_id_iff_ends is_space_def)
  then obtain g0 where "map_of demo_goals ''goal-1'' = Some g0"
    by (simp add: demo_goals_def create_goal_def Let_def)
  with complete_goal_effect [where st = demo_goals and gid = "''goal-1''" and now = "''t1''" and sid = None] show ?thesis by auto
qed

end
