(* ===== verification/Core_Profile.thy ===== *)
theory Core_Profile
  imports Py_Values
begin

text \<open>
  What a core may do: \<open>agent_core/kernel_interface/profile.py\<close> with the tool templates of
  \<open>ToolsConfig\<close> in \<open>agent_core/config.py\<close> it resolves.
\<close>

section \<open>Tool templates\<close>

datatype exposure = Pinned | Empty

record tool_template =
  tt_exposure :: exposure
  tt_extra :: "str list"

record tools_config =
  tc_core_tools :: "str list"
  tc_pinned_tools :: "str list"
  tc_templates :: "(str, tool_template) dict"

definition plain_template :: tool_template where
  "plain_template = \<lparr>tt_exposure = Pinned, tt_extra = []\<rparr>"

definition template_name :: "str \<Rightarrow> str" where
  "template_name name = str_or (strip (str_or name ''default'')) ''default''"

definition get_template :: "tools_config \<Rightarrow> str \<Rightarrow> tool_template" where
  "get_template cfg name =
     (case map_of (tc_templates cfg) (template_name name) of
        Some t \<Rightarrow> t
      | None \<Rightarrow> (case map_of (tc_templates cfg) ''default'' of Some t \<Rightarrow> t | None \<Rightarrow> plain_template))"

text \<open>The loop that keeps the first occurrence of every non-blank name.\<close>

fun dedupe :: "str list \<Rightarrow> str list \<Rightarrow> str list" where
  "dedupe acc [] = acc"
| "dedupe acc (n # ns) =
     (let norm = strip n
      in dedupe (if norm \<noteq> [] \<and> norm \<notin> set acc then acc @ [norm] else acc) ns)"

definition resolve_initial_tools :: "tools_config \<Rightarrow> str \<Rightarrow> str list" where
  "resolve_initial_tools cfg name =
     (let t = get_template cfg name;
          names = tc_core_tools cfg @ (if tt_exposure t = Pinned then tc_pinned_tools cfg else [])
                    @ tt_extra t
      in dedupe [] names)"

section \<open>Profiles\<close>

datatype core_mode = Full | Sub | Background

record core_profile =
  cp_mode :: core_mode
  cp_permission_mode :: "core_mode option"
  cp_allowed_tools :: "str list option"
  cp_deny_tools :: "str list"
  cp_allow_dangerous :: bool
  cp_approval_bypass :: bool
  cp_memory_scopes :: "str list"
  cp_memory_enabled :: bool
  cp_bash_workspace_admin :: bool
  cp_max_context_tokens :: "int option"
  cp_session_expired_seconds :: real
  cp_max_iterations_override :: "int option"
  cp_max_total_tokens :: "int option"
  cp_frontend_id :: str
  cp_dialog_window_id :: str
  cp_tool_template :: str
  cp_exposure :: exposure

definition effective_permission_mode :: "core_profile \<Rightarrow> core_mode" where
  "effective_permission_mode p =
     (case cp_permission_mode p of Some m \<Rightarrow> m | None \<Rightarrow> cp_mode p)"

definition core_tool_names :: "str list" where
  "core_tool_names = [''search_tools'', ''call_tool'', ''bash'', ''request_permission'', ''ask_user'']"

definition is_tool_allowed :: "core_profile \<Rightarrow> str \<Rightarrow> bool" where
  "is_tool_allowed p name =
     (if name \<in> set (cp_deny_tools p) then False
      else if name \<in> set core_tool_names then True
      else (case cp_allowed_tools p of None \<Rightarrow> True | Some ts \<Rightarrow> name \<in> set ts))"

definition filter_tools :: "core_profile \<Rightarrow> str list \<Rightarrow> str list" where
  "filter_tools p names = filter (is_tool_allowed p) names"

text \<open>The dataclass defaults.\<close>

definition base_profile :: core_profile where
  "base_profile =
     \<lparr>cp_mode = Full, cp_permission_mode = None, cp_allowed_tools = None, cp_deny_tools = [],
      cp_allow_dangerous = False, cp_approval_bypass = False,
      cp_memory_scopes = [''working'', ''long_term'', ''content'', ''chat''],
      cp_memory_enabled = True, cp_bash_workspace_admin = False,
      cp_max_context_tokens = Some 80000, cp_session_expired_seconds = 1800,
      cp_max_iterations_override = None, cp_max_total_tokens = None,
      cp_frontend_id = [], cp_dialog_window_id = [], cp_tool_template = ''default'',
      cp_exposure = Pinned\<rparr>"

definition default_full ::
  "tools_config \<Rightarrow> str \<Rightarrow> str \<Rightarrow> int option \<Rightarrow> real \<Rightarrow> str \<Rightarrow> core_profile" where
  "default_full cfg frontend dialog max_context expired template =
     base_profile\<lparr>cp_mode := Full, cp_allowed_tools := None, cp_allow_dangerous := False,
       cp_frontend_id := frontend, cp_dialog_window_id := dialog,
       cp_max_context_tokens := max_context, cp_session_expired_seconds := expired,
       cp_tool_template := template_name template,
       cp_exposure := tt_exposure (get_template cfg (template_name template))\<rparr>"

text \<open>\<open>full_from_config\<close>: dangerous commands follow the command tool's switches.\<close>

definition full_from_config ::
  "tools_config \<Rightarrow> bool \<Rightarrow> bool \<Rightarrow> int option \<Rightarrow> real \<Rightarrow> str \<Rightarrow> str \<Rightarrow> str \<Rightarrow> core_profile" where
  "full_from_config cfg cmd_enabled cmd_allow_run max_context expired frontend dialog template =
     (default_full cfg frontend dialog max_context expired template)
       \<lparr>cp_allow_dangerous := (cmd_enabled \<and> cmd_allow_run)\<rparr>"

definition default_sub ::
  "tools_config \<Rightarrow> str list option \<Rightarrow> str list option \<Rightarrow> str \<Rightarrow> str \<Rightarrow> int option \<Rightarrow> int option
     \<Rightarrow> int option \<Rightarrow> bool \<Rightarrow> str \<Rightarrow> core_profile" where
  "default_sub cfg allowed deny frontend dialog max_iter max_total max_context dangerous template =
     base_profile\<lparr>cp_mode := Sub, cp_allowed_tools := allowed,
       cp_deny_tools := (case deny of None \<Rightarrow> [] | Some d \<Rightarrow> d),
       cp_allow_dangerous := dangerous, cp_memory_scopes := [''working'', ''chat''],
       cp_max_context_tokens := max_context, cp_session_expired_seconds := 300,
       cp_frontend_id := frontend, cp_dialog_window_id := dialog,
       cp_max_iterations_override := max_iter, cp_max_total_tokens := max_total,
       cp_tool_template := template_name template,
       cp_exposure := tt_exposure (get_template cfg (template_name template))\<rparr>"

definition default_background ::
  "tools_config \<Rightarrow> str list option \<Rightarrow> str \<Rightarrow> str \<Rightarrow> str \<Rightarrow> core_profile" where
  "default_background cfg allowed frontend dialog template =
     (let name = str_or (strip (str_or template ''cron'')) ''cron''
      in base_profile\<lparr>cp_mode := Background, cp_allowed_tools := allowed, cp_allow_dangerous := False,
           cp_memory_scopes := [''long_term''], cp_memory_enabled := False,
           cp_max_context_tokens := Some 120000, cp_session_expired_seconds := 600,
           cp_frontend_id := frontend, cp_dialog_window_id := dialog,
           cp_tool_template := template_name name,
           cp_exposure := tt_exposure (get_template cfg (template_name name))\<rparr>)"

definition for_shuiyuan ::
  "tools_config \<Rightarrow> str \<Rightarrow> int option \<Rightarrow> real \<Rightarrow> str \<Rightarrow> core_profile" where
  "for_shuiyuan cfg dialog max_context expired template =
     (default_full cfg ''shuiyuan'' dialog max_context expired template)\<lparr>cp_allow_dangerous := True\<rparr>"

section \<open>Laws\<close>

lemma dedupe_spec:
  "distinct acc \<Longrightarrow> distinct (dedupe acc ns)
     \<and> set (dedupe acc ns) = set acc \<union> (strip ` set ns - {[]}) \<and> prefix acc (dedupe acc ns)"
proof (induction ns arbitrary: acc)
  case (Cons n ns)
  show ?case
  proof (cases "strip n \<noteq> [] \<and> strip n \<notin> set acc")
    case True
    with Cons.IH [of "acc @ [strip n]"] Cons.prems show ?thesis
      by (auto intro: append_prefixD)
  next
    case False
    with Cons.IH [of acc] Cons.prems show ?thesis by auto
  qed
qed simp

lemma filter_tools_laws:
  "filter_tools p (filter_tools p ns) = filter_tools p ns"
  "subseq (filter_tools p ns) ns"
  "set (filter_tools p ns) = {n \<in> set ns. is_tool_allowed p n}"
  by (simp_all add: filter_tools_def subseq_filter_left)

section \<open>Properties\<close>

text \<open>The order of the permission checks on a tool: a denied tool is never allowed, not even a
  core tool; a core tool that is not denied always is; any other tool is allowed exactly when
  there is no white list or it is on it. Filtering a list of tools keeps exactly the allowed
  ones, in their order, and a filtered list passes a second check unchanged.\<close>

theorem tool_permission_order:
  "(t \<in> set (cp_deny_tools p) \<longrightarrow> \<not> is_tool_allowed p t)
   \<and> (t \<in> set core_tool_names \<and> t \<notin> set (cp_deny_tools p) \<longrightarrow> is_tool_allowed p t)
   \<and> (t \<notin> set core_tool_names \<longrightarrow>
        (is_tool_allowed p t \<longleftrightarrow> t \<notin> set (cp_deny_tools p)
           \<and> (case cp_allowed_tools p of None \<Rightarrow> True | Some ts \<Rightarrow> t \<in> set ts)))
   \<and> subseq (filter_tools p ns) ns
   \<and> set (filter_tools p ns) = {n \<in> set ns. is_tool_allowed p n}
   \<and> filter_tools p (filter_tools p ns) = filter_tools p ns"
  by (intro conjI filter_tools_laws) (simp_all add: is_tool_allowed_def)

text \<open>The initial tools of a template: no name twice, every configured core tool first in order,
  and the names are exactly the non-blank core, pinned (when the template exposes them) and
  extra names, trimmed.\<close>

theorem initial_tools_of_template:
  "let t = get_template cfg name; tools = resolve_initial_tools cfg name
   in distinct tools
      \<and> set tools = strip ` (set (tc_core_tools cfg)
            \<union> (if tt_exposure t = Pinned then set (tc_pinned_tools cfg) else {}) \<union> set (tt_extra t)) - {[]}
      \<and> prefix (dedupe [] (tc_core_tools cfg)) tools"
proof -
  have split: "dedupe acc (xs @ ys) = dedupe (dedupe acc xs) ys" for acc xs ys
    by (induction xs arbitrary: acc) (simp_all add: Let_def)
  define rest where "rest = (if tt_exposure (get_template cfg name) = Pinned then tc_pinned_tools cfg else [])
     @ tt_extra (get_template cfg name)"
  have tools: "resolve_initial_tools cfg name = dedupe (dedupe [] (tc_core_tools cfg)) rest"
    by (simp only: resolve_initial_tools_def Let_def rest_def split)
  have "set rest = (if tt_exposure (get_template cfg name) = Pinned then set (tc_pinned_tools cfg) else {})
      \<union> set (tt_extra (get_template cfg name))"
    by (simp add: rest_def)
  with dedupe_spec [of "[]" "tc_core_tools cfg"] dedupe_spec [of "dedupe [] (tc_core_tools cfg)" rest]
  show ?thesis unfolding tools Let_def by (simp only:) auto
qed

lemma tool_permission_order_witness:
  "let p = base_profile\<lparr>cp_deny_tools := [''bash''], cp_allowed_tools := Some [''read_file'']\<rparr>
   in \<not> is_tool_allowed p ''bash'' \<and> is_tool_allowed p ''ask_user''
      \<and> is_tool_allowed p ''read_file'' \<and> \<not> is_tool_allowed p ''write_file''"
proof -
  let ?p = "base_profile\<lparr>cp_deny_tools := [''bash''], cp_allowed_tools := Some [''read_file'']\<rparr>"
  show ?thesis
    using tool_permission_order [of "''bash''" ?p] tool_permission_order [of "''ask_user''" ?p]
      tool_permission_order [of "''read_file''" ?p] tool_permission_order [of "''write_file''" ?p]
    by (simp add: core_tool_names_def)
qed

end
