(* ===== verification/Owners.thy ===== *)
theory Owners
  imports Py_Values
begin

text \<open>
  Whose session is it? The owner (source, user) of a session id, inferred twice in the code:
  \<open>_infer_owner_from_session_id\<close> and \<open>_resolve_core_owner\<close> in
  \<open>system/kernel/core_pool.py\<close>, and \<open>_infer_memory_owner_from_session_id\<close> in
  \<open>system/kernel/scheduler.py\<close>.
\<close>

type_synonym owner = "str \<times> str"

definition feishu_owner :: "str \<Rightarrow> owner" where
  "feishu_owner rest =
     (let safe = (''feishu'', str_or (strip (replace_char CHR '':'' CHR ''_'' rest)) ''unknown'')
      in case split_on CHR '':'' rest of
           kind # key # _ \<Rightarrow>
             if (kind = ''user'' \<or> kind = ''chat'') \<and> strip key \<noteq> []
             then (''feishu'', strip key) else safe
         | _ \<Rightarrow> safe)"

definition prefixed_owner :: "str \<Rightarrow> owner" where
  "prefixed_owner sid =
     (if CHR '':'' \<in> set sid
      then (strip (before_sep CHR '':'' sid), str_or (strip (after_sep CHR '':'' sid)) ''root'')
      else (''cli'', ''root''))"

definition infer_owner :: "str \<Rightarrow> owner" where
  "infer_owner session_id =
     (let sid = strip session_id
      in if startswith sid ''sub:'' then (''subagent'', drop 4 sid)
         else if startswith sid ''feishu:'' then feishu_owner (drop 7 sid)
         else if startswith sid ''shuiyuan:'' then (''shuiyuan'', str_or (strip (drop 9 sid)) ''unknown'')
         else if startswith sid ''cron:'' then (''cron'', str_or (strip (drop 5 sid)) ''unknown'')
         else prefixed_owner sid)"

definition infer_memory_owner :: "str \<Rightarrow> owner" where
  "infer_memory_owner session_id =
     (let sid = strip session_id
      in if startswith sid ''sub:'' then (''subagent'', drop 4 sid)
         else if startswith sid ''feishu:'' then feishu_owner (drop 7 sid)
         else prefixed_owner sid)"

definition typed_session :: "str \<Rightarrow> bool" where
  "typed_session sid \<longleftrightarrow> startswith sid ''feishu:'' \<or> startswith sid ''sub:''
     \<or> startswith sid ''cron:'' \<or> startswith sid ''shuiyuan:''"

definition resolve_core_owner :: "str \<Rightarrow> str \<Rightarrow> str \<Rightarrow> owner" where
  "resolve_core_owner session_id source user_id =
     (let sid = strip session_id;
          src = str_or (strip source) ''cli'';
          uid = str_or (strip user_id) ''root''
      in if \<not> typed_session sid then (src, uid)
         else case infer_owner sid of
                (inferred_s, inferred_u) \<Rightarrow>
                  if src = ''cli'' then (inferred_s, inferred_u)
                  else if src = inferred_s \<and> uid = ''root''
                          \<and> inferred_u \<notin> {[], ''root'', ''unknown''}
                  then (src, inferred_u)
                  else (src, uid))"

section \<open>Laws\<close>

lemma strip_prefixes [simp]: "strip ''cron'' = ''cron''" "strip ''shuiyuan'' = ''shuiyuan''"
  by (simp_all add: strip_id_iff_ends is_space_def)

lemma prefixed_owner_words:
  "prefixed_owner (''cron:'' @ r) = (''cron'', str_or (strip r) ''root'')"
  "prefixed_owner (''shuiyuan:'' @ r) = (''shuiyuan'', str_or (strip r) ''root'')"
  by (simp_all add: prefixed_owner_def before_sep_def after_sep_def)

lemma infer_owner_strip [simp]: "infer_owner (strip sid) = infer_owner sid"
  by (simp add: infer_owner_def)

lemma fst_feishu_owner [simp]: "fst (feishu_owner rest) = ''feishu''"
  by (simp add: feishu_owner_def Let_def split: list.split)

lemma strip_feishu_user [simp]: "strip (snd (feishu_owner rest)) = snd (feishu_owner rest)"
proof -
  have "strip (str_or (strip x) ''unknown'') = str_or (strip x) ''unknown''" for x
    by (simp add: str_or_def strip_id_iff_ends is_space_def)
  then show ?thesis by (simp add: feishu_owner_def Let_def split: list.split)
qed

lemma feishu_user_not_Nil [simp]: "snd (feishu_owner rest) \<noteq> []"
  by (simp add: feishu_owner_def Let_def split: list.split)

text \<open>The two inferences, by the kind of session id.\<close>

lemma owners_cron:
  assumes "strip sid = ''cron:'' @ r"
  shows "infer_owner sid = (''cron'', str_or (strip r) ''unknown'')"
    and "infer_memory_owner sid = (''cron'', str_or (strip r) ''root'')"
  using assms prefixed_owner_words(1) [of r] by (simp_all add: infer_owner_def infer_memory_owner_def)

lemma owners_shuiyuan:
  assumes "strip sid = ''shuiyuan:'' @ r"
  shows "infer_owner sid = (''shuiyuan'', str_or (strip r) ''unknown'')"
    and "infer_memory_owner sid = (''shuiyuan'', str_or (strip r) ''root'')"
  using assms prefixed_owner_words(2) [of r] by (simp_all add: infer_owner_def infer_memory_owner_def)

lemma owners_other:
  "\<not> startswith (strip sid) ''cron:'' \<Longrightarrow> \<not> startswith (strip sid) ''shuiyuan:'' \<Longrightarrow>
     infer_owner sid = infer_memory_owner sid"
  by (simp add: infer_owner_def infer_memory_owner_def Let_def)

lemma typed_owner_source:
  "typed_session (strip sid) \<Longrightarrow> fst (infer_owner sid) \<in> {''subagent'', ''feishu'', ''cron'', ''shuiyuan''}"
  by (auto simp: typed_session_def infer_owner_def Let_def)

lemma resolve_typed:
  "typed_session (strip sid) \<Longrightarrow> infer_owner sid = (s, u) \<Longrightarrow>
     resolve_core_owner sid source user_id =
       (let src = str_or (strip source) ''cli''; uid = str_or (strip user_id) ''root''
        in if src = ''cli'' then (s, u)
           else if src = s \<and> uid = ''root'' \<and> u \<notin> {[], ''root'', ''unknown''} then (src, u)
           else (src, uid))"
  by (simp add: resolve_core_owner_def Let_def)

lemma strip_defaults:
  "strip (str_or (strip x) ''cli'') = str_or (strip x) ''cli''"
  "strip (str_or (strip x) ''root'') = str_or (strip x) ''root''"
  "strip (str_or (strip x) ''unknown'') = str_or (strip x) ''unknown''"
  by (simp_all add: str_or_def strip_id_iff_ends is_space_def)

lemma resolve_twice:
  assumes "typed_session (strip sid)" and "infer_owner sid = (s, u)" and "s \<noteq> ''cli''"
    and "strip s = s" "s \<noteq> []" "strip u = u" "u \<noteq> []"
    and "resolve_core_owner sid source user_id = (a, b)"
  shows "resolve_core_owner sid a b = (a, b)"
proof -
  let ?src = "str_or (strip source) ''cli''" and ?uid = "str_or (strip user_id) ''root''"
  consider "a = s" "b = u" | "a = ?src" "?src \<noteq> ''cli''" "b = u" "u \<noteq> ''root''"
    | "a = ?src" "?src \<noteq> ''cli''" "b = ?uid" "\<not> (?src = s \<and> ?uid = ''root'' \<and> u \<notin> {[], ''root'', ''unknown''})"
    using assms(8) unfolding resolve_typed [OF assms(1,2)] Let_def by (auto split: if_splits)
  then show ?thesis
  proof cases
    case 1
    with assms(3-7) show ?thesis by (simp add: resolve_typed [OF assms(1,2)] Let_def)
  next
    case 2
    with assms(3-7) show ?thesis
      by (simp add: resolve_typed [OF assms(1,2)] Let_def strip_defaults)
  next
    case 3
    then show ?thesis
      by (auto simp: resolve_typed [OF assms(1,2)] Let_def strip_defaults)
  qed
qed

section \<open>Properties\<close>

text \<open>C40: The two owner inferences the code calls equivalent are equivalent except on two session
  ids: a bare \<open>cron:\<close> and a bare \<open>shuiyuan:\<close> belong to user unknown for the pool
  and to user root for the scheduler; on every other id they give the same owner.\<close>

theorem owner_inferences_agree:
  "infer_owner sid = infer_memory_owner sid \<longleftrightarrow> strip sid \<notin> {''cron:'', ''shuiyuan:''}"
proof (cases "startswith (strip sid) ''cron:'' \<or> startswith (strip sid) ''shuiyuan:''")
  case True
  then obtain w r where w: "w = ''cron:'' \<or> w = ''shuiyuan:''" and sid: "strip sid = w @ r"
    unfolding prefix_def by blast
  have "strip (w @ r) = w @ r" using sid strip_idem by metis
  then have blank: "strip r = [] \<longleftrightarrow> r = []" using strip_tail_Nil by auto
  from w show ?thesis
  proof
    assume "w = ''cron:''"
    with owners_cron [of sid r] sid blank show ?thesis by (auto simp: str_or_def)
  next
    assume "w = ''shuiyuan:''"
    with owners_shuiyuan [of sid r] sid blank show ?thesis by (auto simp: str_or_def)
  qed
next
  case False
  then have "strip sid \<notin> {''cron:'', ''shuiyuan:''}" by auto
  with False owners_other [of sid] show ?thesis by blast
qed

text \<open>A session that is not a CLI session never ends up under the CLI's memory: when the caller
  passes the CLI default, the owner is the one inferred from the session id; a CLI-style id keeps
  what the caller passed; and correcting an owner twice, as acquiring and loading do, is
  correcting it once, for every id but one: a subagent id whose name is blank or starts with a
  blank.\<close>

theorem resolve_core_owner_correct:
  "(typed_session (strip sid) \<and> str_or (strip source) ''cli'' = ''cli'' \<longrightarrow>
      resolve_core_owner sid source user_id = infer_owner sid
      \<and> fst (resolve_core_owner sid source user_id) \<noteq> ''cli'')
   \<and> (\<not> typed_session (strip sid) \<longrightarrow>
      resolve_core_owner sid source user_id = (str_or (strip source) ''cli'', str_or (strip user_id) ''root''))
   \<and> (startswith (strip sid) ''sub:'' \<and> (drop 4 (strip sid) = [] \<or> is_space (hd (drop 4 (strip sid))))
      \<or> resolve_core_owner sid (fst (resolve_core_owner sid source user_id))
            (snd (resolve_core_owner sid source user_id))
          = resolve_core_owner sid source user_id)"
proof -
  have words: "strip ''feishu'' = ''feishu''" "strip ''subagent'' = ''subagent''"
    by (simp_all add: strip_id_iff_ends is_space_def)
  have clean: "strip (snd (infer_owner sid)) = snd (infer_owner sid) \<and> snd (infer_owner sid) \<noteq> []
      \<and> strip (fst (infer_owner sid)) = fst (infer_owner sid) \<and> fst (infer_owner sid) \<noteq> []"
    if typed: "typed_session (strip sid)"
      and name: "\<not> (startswith (strip sid) ''sub:'' \<and> (drop 4 (strip sid) = [] \<or> is_space (hd (drop 4 (strip sid)))))"
  proof (cases "startswith (strip sid) ''sub:''")
    case True
    then obtain r where r: "strip sid = ''sub:'' @ r" by (auto simp: prefix_def)
    with name have "r \<noteq> []" "\<not> is_space (hd r)" by auto
    moreover have "\<not> is_space (last r)"
      using last_strip [of sid] r \<open>r \<noteq> []\<close> by simp
    ultimately show ?thesis using r words by (simp add: infer_owner_def strip_id_iff_ends)
  next
    case False
    with typed show ?thesis
      by (auto simp: infer_owner_def Let_def typed_session_def words strip_defaults)
  qed
  show ?thesis
  proof (cases "typed_session (strip sid)")
    case True
    obtain s u where su: "infer_owner sid = (s, u)" by fastforce
    have s: "s \<noteq> ''cli''" using typed_owner_source [OF True] su by auto
    have "resolve_core_owner sid (fst (resolve_core_owner sid source user_id))
            (snd (resolve_core_owner sid source user_id)) = resolve_core_owner sid source user_id"
      if "\<not> (startswith (strip sid) ''sub:'' \<and> (drop 4 (strip sid) = [] \<or> is_space (hd (drop 4 (strip sid)))))"
      using resolve_twice [OF True su s _ _ _ _ surjective_pairing, of source user_id]
        clean [OF True that] su by simp
    with True s su show ?thesis by (auto simp: resolve_typed [OF True su])
  next
    case False
    then show ?thesis
      by (simp add: resolve_core_owner_def Let_def strip_defaults)
  qed
qed

lemma resolve_core_owner_correct_witness:
  "typed_session (strip ''feishu:user:ou'')
   \<and> resolve_core_owner ''feishu:user:ou'' ''cli'' ''root'' = infer_owner ''feishu:user:ou''
   \<and> infer_owner ''feishu:user:ou'' = (''feishu'', ''ou'')"
proof -
  have s: "strip ''feishu:user:ou'' = ''feishu:user:ou''" "strip ''cli'' = ''cli''" "strip ''ou'' = ''ou''"
    by (simp_all add: strip_id_iff_ends is_space_def)
  have "typed_session (strip ''feishu:user:ou'')" by (simp add: typed_session_def s)
  with resolve_core_owner_correct [of "''feishu:user:ou''" "''cli''" "''root''"] s show ?thesis
    by (simp add: infer_owner_def feishu_owner_def)
qed

end
