(* ===== verification/Kernel_Requests.thy ===== *)
theory Kernel_Requests
  imports Core_Profile Owners "HOL-Library.List_Lexorder" "HOL-Library.Char_ord"
begin

text \<open>
  What is submitted to the kernel: \<open>AgentMessage\<close> and \<open>KernelRequest\<close>
  (\<open>agent_core/kernel_interface/action.py\<close>), their order in the input queue, and what the
  scheduler reads off a request (\<open>system/kernel/scheduler.py\<close>): the child a lifecycle
  notification is about, and the owner to acquire a core for.

  The message envelope in the metadata is an object, not JSON, so it is a field of its own. The
  pattern of the notification's first line is a parameter of the functions that use it.
\<close>

datatype message_type = MsgTask | MsgReply | MsgNotify | MsgQuery

record agent_message =
  am_message_id :: str
  am_sender_session :: str
  am_receiver_session :: str
  am_message_type :: message_type
  am_correlation_id :: "str option"
  am_subagent_id :: "str option"
  am_require_reply :: bool

datatype envelope = EnvMessage agent_message | EnvMapping "(str, pyval) dict"

record kernel_request =
  kr_priority :: int
  kr_enqueued_at :: real
  kr_request_id :: str
  kr_frontend_id :: str
  kr_session_id :: str
  kr_text :: str
  kr_metadata :: "(str, pyval) dict"
  kr_envelope :: "envelope option"
  kr_profile :: "core_profile option"

text \<open>\<open>@dataclass(order=True)\<close>: the compared fields, in order.\<close>

datatype request_key = RequestKey (rk_priority: int) (rk_enqueued_at: real) (rk_request_id: str)

instantiation request_key :: linorder
begin

definition less_request_key :: "request_key \<Rightarrow> request_key \<Rightarrow> bool" where
  "less_request_key a b \<longleftrightarrow>
     rk_priority a < rk_priority b
     \<or> rk_priority a = rk_priority b
        \<and> (rk_enqueued_at a < rk_enqueued_at b
           \<or> rk_enqueued_at a = rk_enqueued_at b \<and> rk_request_id a < rk_request_id b)"

definition less_eq_request_key :: "request_key \<Rightarrow> request_key \<Rightarrow> bool" where
  "less_eq_request_key a b \<longleftrightarrow> a < b \<or> a = (b :: request_key)"

instance
proof
  fix x y z :: request_key
  show "(x < y) = (x \<le> y \<and> \<not> y \<le> x)"
    by (auto simp: less_eq_request_key_def less_request_key_def)
  show "x \<le> x" by (simp add: less_eq_request_key_def)
  show "x \<le> y \<Longrightarrow> y \<le> z \<Longrightarrow> x \<le> z"
    by (auto simp: less_eq_request_key_def less_request_key_def)
  show "x \<le> y \<Longrightarrow> y \<le> x \<Longrightarrow> x = y"
    by (auto simp: less_eq_request_key_def less_request_key_def)
  show "x \<le> y \<or> y \<le> x"
    by (cases x; cases y) (auto simp: less_eq_request_key_def less_request_key_def)
qed

end

definition request_key_of :: "kernel_request \<Rightarrow> request_key" where
  "request_key_of r = RequestKey (kr_priority r) (kr_enqueued_at r) (kr_request_id r)"

text \<open>\<open>now\<close> is the clock, \<open>new_id\<close> a fresh uuid.\<close>

definition create_request ::
  "real \<Rightarrow> str \<Rightarrow> str \<Rightarrow> str \<Rightarrow> str \<Rightarrow> int \<Rightarrow> (str, pyval) dict option \<Rightarrow> envelope option
     \<Rightarrow> str option \<Rightarrow> core_profile option \<Rightarrow> kernel_request" where
  "create_request now new_id text session_id frontend_id priority metadata env request_id profile =
     \<lparr>kr_priority = priority, kr_enqueued_at = now,
      kr_request_id = str_or (opt_str request_id) new_id,
      kr_frontend_id = frontend_id, kr_session_id = session_id, kr_text = text,
      kr_metadata = (case metadata of None \<Rightarrow> [] | Some d \<Rightarrow> d), kr_envelope = env,
      kr_profile = profile\<rparr>"

section \<open>Lifecycle notifications\<close>

definition child_of_sender :: "str \<Rightarrow> str \<Rightarrow> str option" where
  "child_of_sender sender subagent_id =
     (if startswith (strip sender) ''sub:'' then Some (strip sender)
      else if strip subagent_id \<noteq> [] then Some (''sub:'' @ strip subagent_id) else None)"

definition child_sub_session :: "(str \<Rightarrow> str option) \<Rightarrow> kernel_request \<Rightarrow> str option" where
  "child_sub_session lifecycle_line r =
     (case kr_envelope r of
        Some (EnvMessage m) \<Rightarrow> child_of_sender (am_sender_session m) (opt_str (am_subagent_id m))
      | Some (EnvMapping d) \<Rightarrow>
          child_of_sender (clean_str (py_get d ''sender_session'')) (clean_str (py_get d ''subagent_id''))
      | None \<Rightarrow>
          (case lifecycle_line (strip (kr_text r)) of
             None \<Rightarrow> None | Some sub_id \<Rightarrow> Some (''sub:'' @ strip sub_id)))"

text \<open>\<open>wait_ok\<close> and \<open>reaped\<close> are the core pool's answers for a child.\<close>

definition suppress_notify ::
  "(str \<Rightarrow> str option) \<Rightarrow> (str \<Rightarrow> bool) \<Rightarrow> (str \<Rightarrow> bool) \<Rightarrow> kernel_request \<Rightarrow> bool" where
  "suppress_notify lifecycle_line wait_ok reaped r =
     (if strip (kr_frontend_id r) \<noteq> ''subagent'' then False
      else (case child_sub_session lifecycle_line r of
              None \<Rightarrow> False
            | Some child \<Rightarrow> startswith child ''sub:'' \<and> (wait_ok child \<or> reaped child)))"

section \<open>The owner of a request\<close>

definition p2p_tag :: str where
  "p2p_tag = ''agent_msg''"

definition memory_owner_for_acquire :: "kernel_request \<Rightarrow> owner" where
  "memory_owner_for_acquire r =
     (let md = kr_metadata r;
          mo = clean_str (py_get md ''memory_owner'');
          md_user = str_or (strip (py_str (py_or (py_get md ''user_id'') (PyStr ''root'')))) ''root'';
          md_source = clean_str (py_get md ''source'')
      in if mo \<noteq> [] \<and> CHR '':'' \<in> set mo
         then (strip (before_sep CHR '':'' mo), strip (after_sep CHR '':'' mo))
         else case kr_profile r of
                Some p \<Rightarrow>
                  if strip (cp_frontend_id p) \<noteq> []
                  then (strip (cp_frontend_id p), str_or (strip (cp_dialog_window_id p)) ''root'')
                  else if md_source \<noteq> [] then (md_source, md_user)
                  else if strip (kr_frontend_id r) = p2p_tag then infer_memory_owner (kr_session_id r)
                  else (str_or (strip (str_or (kr_frontend_id r) ''cli'')) ''cli'', md_user)
              | None \<Rightarrow>
                  if md_source \<noteq> [] then (md_source, md_user)
                  else if strip (kr_frontend_id r) = p2p_tag then infer_memory_owner (kr_session_id r)
                  else (str_or (strip (str_or (kr_frontend_id r) ''cli'')) ''cli'', md_user))"

text \<open>A delivery tag is never taken for a frontend.\<close>

lemma p2p_owner_from_session:
  assumes "strip (kr_frontend_id r) = p2p_tag" and "kr_profile r = None"
    and "clean_str (py_get (kr_metadata r) ''source'') = []"
    and "CHR '':'' \<notin> set (clean_str (py_get (kr_metadata r) ''memory_owner''))"
  shows "memory_owner_for_acquire r = infer_memory_owner (kr_session_id r)"
  using assms by (simp add: memory_owner_for_acquire_def Let_def)

end
