(* ===== verification/Output_Bus.thy ===== *)
theory Output_Bus
  imports Futures
begin

text \<open>
  The output bus (\<open>system/kernel/output_bus.py\<close>): one waiter per request id, any number of
  listeners per session. Publishing wakes the waiter and answers with the callbacks to call, in
  subscription order; calling them is the host's.
\<close>

record run_result =
  rr_output_text :: str
  rr_push_error :: "str option"

record 'c output_bus =
  ob_pending :: "(str, run_result) waiters"
  ob_listeners :: "(str, (str, 'c) dict) dict"

definition new_bus :: "'c output_bus" where
  "new_bus = \<lparr>ob_pending = no_waiters, ob_listeners = []\<rparr>"

definition register_waiter :: "str \<Rightarrow> 'c output_bus \<Rightarrow> 'c output_bus" where
  "register_waiter rid b = b\<lparr>ob_pending := snd (add_wait rid (ob_pending b))\<rparr>"

text \<open>The future a caller of \<open>wait_result\<close> awaits; without one the call raises.\<close>

definition wait_handle :: "str \<Rightarrow> 'c output_bus \<Rightarrow> fid option" where
  "wait_handle rid b = map_of (tbl (ob_pending b)) rid"

definition wait_timed_out :: "str \<Rightarrow> 'c output_bus \<Rightarrow> 'c output_bus" where
  "wait_timed_out rid b = b\<lparr>ob_pending := give_up rid (ob_pending b)\<rparr>"

definition listeners_of :: "str \<Rightarrow> 'c output_bus \<Rightarrow> (str, 'c) dict" where
  "listeners_of sid b = (case map_of (ob_listeners b) sid of None \<Rightarrow> [] | Some ls \<Rightarrow> ls)"

definition subscribe :: "str \<Rightarrow> str \<Rightarrow> 'c \<Rightarrow> 'c output_bus \<Rightarrow> 'c output_bus" where
  "subscribe sub_id sid cb b =
     b\<lparr>ob_listeners := dset sid (dset sub_id cb (listeners_of sid b)) (ob_listeners b)\<rparr>"

definition unsubscribe :: "str \<Rightarrow> str \<Rightarrow> 'c output_bus \<Rightarrow> 'c output_bus" where
  "unsubscribe sid sub_id b =
     (if listeners_of sid b = [] then b
      else
        let ls = dpop sub_id (listeners_of sid b)
        in b\<lparr>ob_listeners := (if ls = [] then dpop sid (ob_listeners b) else dset sid ls (ob_listeners b))\<rparr>)"

definition publish :: "str \<Rightarrow> str \<Rightarrow> run_result \<Rightarrow> 'c output_bus \<Rightarrow> 'c list \<times> 'c output_bus" where
  "publish sid rid r b =
     (map snd (listeners_of sid b), b\<lparr>ob_pending := snd (pop_settle rid (Result r) (ob_pending b))\<rparr>)"

definition publish_error :: "str \<Rightarrow> str \<Rightarrow> 'c output_bus \<Rightarrow> 'c output_bus" where
  "publish_error rid exc b = b\<lparr>ob_pending := snd (pop_settle rid (Failed exc) (ob_pending b))\<rparr>"

definition bus_cancel_all :: "'c output_bus \<Rightarrow> 'c output_bus" where
  "bus_cancel_all b = b\<lparr>ob_pending := cancel_all_waits (ob_pending b)\<rparr>"

definition has_waiter :: "str \<Rightarrow> 'c output_bus \<Rightarrow> bool" where
  "has_waiter rid b = has_key rid (tbl (ob_pending b))"

definition bus_ok :: "'c output_bus \<Rightarrow> bool" where
  "bus_ok b \<longleftrightarrow> waiters_ok (ob_pending b) \<and> dict_ok (ob_listeners b)
     \<and> (\<forall>(sid, ls) \<in> set (ob_listeners b). ls \<noteq> [] \<and> dict_ok ls)"

text \<open>\<open>open b rid\<close>: somebody awaits \<open>rid\<close> and has no answer yet.\<close>

definition awaited :: "'c output_bus \<Rightarrow> str \<Rightarrow> bool" where
  "awaited b rid = waiting (ob_pending b) rid"

lemma bus_waiters: "bus_ok b \<Longrightarrow> waiters_ok (ob_pending b)"
  by (simp add: bus_ok_def)

lemma bus_ok_new [simp]: "bus_ok new_bus"
  by (simp add: bus_ok_def new_bus_def)

lemma listeners_entry: "map_of (ob_listeners b) sid = Some ls \<Longrightarrow> (sid, ls) \<in> set (ob_listeners b)"
  by (rule dget_in_set)

lemma listeners_dict: "bus_ok b \<Longrightarrow> dict_ok (listeners_of sid b)"
  by (auto simp: bus_ok_def listeners_of_def dest: listeners_entry split: option.split)

lemma dset_not_Nil [simp]: "dset k v d \<noteq> []"
  by (cases d) auto

lemma listeners_ok_dset:
  assumes "dict_ok d" and "\<forall>(sid, ls) \<in> set d. ls \<noteq> [] \<and> dict_ok ls" and "ls' \<noteq> []" and "dict_ok ls'"
  shows "\<forall>(sid, ls) \<in> set (dset k ls' d). ls \<noteq> [] \<and> dict_ok ls"
proof clarify
  fix sid ls assume "(sid, ls) \<in> set (dset k ls' d)"
  then have "map_of (dset k ls' d) sid = Some ls" using assms(1) by (intro in_set_dget) simp_all
  with assms show "ls \<noteq> [] \<and> dict_ok ls" by (auto split: if_splits dest: dget_in_set)
qed

lemma set_dpop_subset: "set (dpop k d) \<subseteq> set d"
  by (simp add: AList.delete_eq)

lemma bus_ok_ops:
  "bus_ok b \<Longrightarrow> bus_ok (register_waiter rid b)"
  "bus_ok b \<Longrightarrow> bus_ok (wait_timed_out rid b)"
  "bus_ok b \<Longrightarrow> bus_ok (publish_error rid exc b)"
  "bus_ok b \<Longrightarrow> bus_ok (snd (publish sid rid r b))"
  "bus_ok b \<Longrightarrow> bus_ok (bus_cancel_all b)"
  by (simp_all add: bus_ok_def register_waiter_def wait_timed_out_def publish_error_def publish_def
      bus_cancel_all_def add_wait_ok give_up_laws pop_settle_ok cancel_all_waits_laws)

lemma bus_ok_subscribe: "bus_ok b \<Longrightarrow> bus_ok (subscribe sub_id sid cb b)"
  using listeners_dict [of b sid] listeners_ok_dset [of "ob_listeners b" "dset sub_id cb (listeners_of sid b)" sid]
  by (simp add: bus_ok_def subscribe_def)

lemma bus_ok_unsubscribe: "bus_ok b \<Longrightarrow> bus_ok (unsubscribe sid sub_id b)"
proof -
  assume ok: "bus_ok b"
  then have d: "dict_ok (dpop sub_id (listeners_of sid b))" by (simp add: listeners_dict)
  show ?thesis
  proof (cases "dpop sub_id (listeners_of sid b) = []")
    case True
    with ok show ?thesis
      using set_dpop_subset [of sid "ob_listeners b"]
      by (auto simp: unsubscribe_def bus_ok_def)
  next
    case False
    with ok d listeners_ok_dset [of "ob_listeners b" "dpop sub_id (listeners_of sid b)" sid] show ?thesis
      by (simp add: unsubscribe_def bus_ok_def Let_def)
  qed
qed

text \<open>The bus is a one-shot table: a request is answered at most once.\<close>

interpretation bus: one_shot bus_ok "\<lambda>rid. rid" awaited
    "\<lambda>rid r b. (awaited b rid, snd (publish sid rid r b))"
proof
  fix b :: "'c output_bus" and rid r i
  assume ok: "bus_ok b"
  note w = bus_waiters [OF ok]
  show "bus_ok (snd (awaited b rid, snd (publish sid rid r b)))" using ok by (simp add: bus_ok_ops)
  show "fst (awaited b rid, snd (publish sid rid r b)) \<Longrightarrow> awaited b rid" by simp
  show "\<not> awaited (snd (awaited b rid, snd (publish sid rid r b))) rid"
    using pop_settle_consumes [of rid "Result r" "ob_pending b"]
    by (simp add: awaited_def publish_def not_has_key_not_waiting)
  show "awaited (snd (awaited b rid, snd (publish sid rid r b))) i \<Longrightarrow> awaited b i"
    using table.settle_frame [OF w] by (simp add: awaited_def publish_def)
qed

lemma awaited_ops [simp]:
  "awaited (subscribe sub_id sid cb b) rid = awaited b rid"
  "awaited (unsubscribe sid sub_id b) rid = awaited b rid"
  by (simp_all add: awaited_def subscribe_def unsubscribe_def Let_def)

lemma awaited_settled:
  "bus_ok b \<Longrightarrow> awaited (publish_error rid e b) i = (i \<noteq> rid \<and> awaited b i)"
  "bus_ok b \<Longrightarrow> awaited (snd (publish sid rid r b)) i = (i \<noteq> rid \<and> awaited b i)"
  using pop_settle_frame [OF bus_waiters] pop_settle_consumes not_has_key_not_waiting
  by (metis (no_types, lifting) awaited_def output_bus.select_convs(1) output_bus.surjective output_bus.update_convs(1) publish_error_def)
    (metis (no_types, lifting) awaited_def output_bus.select_convs(1) output_bus.surjective output_bus.update_convs(1) publish_def snd_conv pop_settle_frame [OF bus_waiters] pop_settle_consumes not_has_key_not_waiting)

lemma awaited_register:
  "bus_ok b \<Longrightarrow> awaited (register_waiter rid b) i \<longleftrightarrow> i = rid \<or> awaited b i"
  using add_wait_waiting [of rid "ob_pending b"] waiters_ok_bound [OF bus_waiters, of b i]
  by (auto simp: awaited_def register_waiter_def waiting_def add_wait_def fut_done_def nth_append
      split: option.splits)

lemma awaited_timeout: "bus_ok b \<Longrightarrow> awaited (wait_timed_out rid b) i = (i \<noteq> rid \<and> awaited b i)"
  using give_up_laws(2) [OF bus_waiters] by (simp add: awaited_def wait_timed_out_def)

end
