(* ===== verification/Scheduler.thy ===== *)
theory Scheduler
  imports Kernel_Requests Output_Bus Work_Queue
begin

text \<open>
  The kernel scheduler (\<open>system/kernel/scheduler.py\<close>): an input queue, one task per
  dispatched request, a lock per session, a cancel mark per session, and the waiters of the tools
  that block on other agents.

  The event loop runs a coroutine from one suspension to the next without interruption. Each such
  stretch of \<open>_dispatch_loop\<close> and \<open>_run_and_route\<close> is one operation here:

  \<^item> \<open>dispatch\<close> takes the least request and refuses it or creates its task;
  \<^item> \<open>begin_task\<close> runs a new task up to the session lock (a free lock is taken at once);
  \<^item> \<open>grant_lock\<close> resumes the first task that waits for the lock;
  \<^item> \<open>finish_ok\<close>, \<open>finish_error\<close> and \<open>task_cancelled\<close> are the three ends;
  \<^item> \<open>done_callback\<close> is the callback the loop calls after the end.

  A task is an index into the list of all tasks created; its phase says where it is suspended.
  Acquiring the core and driving the agent are the host's: their outcome is the argument of the
  end that is taken. What leaves the scheduler (published results, flushes, the fate of a wake-up
  call) is a log of effects; the fixed first words of an error text are left out. \<open>asyncio.Lock\<close> is fair: the list of a session's lock holds
  the owner first and then the waiting tasks in order of arrival.
\<close>

section \<open>State\<close>

datatype phase = Created | Waiting | Running | Done

record task =
  tk_request :: kernel_request
  tk_phase :: phase
  tk_cancel :: bool

datatype 'c effect =
    Published str str run_result "'c list"
  | FlushSession str
  | WakeConfirmed str
  | WakeAborted str

record inbox_message =
  im_message_id :: str
  im_sender_session :: str
  im_message_type :: message_type
  im_content :: str
  im_require_reply :: bool

record terminal_info =
  ti_status :: "str option"
  ti_subagent_id :: str
  ti_sub_session_id :: str
  ti_result :: "str option"
  ti_error :: "str option"

record 'c sched =
  sc_queue :: "kernel_request list"
  sc_bus :: "'c output_bus"
  sc_tasks :: "task list"
  sc_inflight :: "(str, int) dict"
  sc_queued :: "(str, int) dict"
  sc_cancelled :: "str set"
  sc_locks :: "(str, nat list) dict"
  sc_p2p :: "(str, str) waiters"
  sc_terminal :: "(str, terminal_info) waiters"
  sc_inbox :: "(str, inbox_message) waiters"
  sc_effects :: "'c effect list"

definition new_sched :: "'c sched" where
  "new_sched = \<lparr>sc_queue = [], sc_bus = new_bus, sc_tasks = [], sc_inflight = [], sc_queued = [],
     sc_cancelled = {}, sc_locks = [], sc_p2p = no_waiters, sc_terminal = no_waiters,
     sc_inbox = no_waiters, sc_effects = []\<rparr>"

definition count_of :: "(str, int) dict \<Rightarrow> str \<Rightarrow> int" where
  "count_of d k = (case map_of d k of None \<Rightarrow> 0 | Some n \<Rightarrow> n)"

definition lock_queue :: "str \<Rightarrow> 'c sched \<Rightarrow> nat list" where
  "lock_queue sid s = (case map_of (sc_locks s) sid of None \<Rightarrow> [] | Some q \<Rightarrow> q)"

definition task_session :: "nat \<Rightarrow> 'c sched \<Rightarrow> str" where
  "task_session t s = kr_session_id (tk_request (sc_tasks s ! t))"

definition log :: "'c effect \<Rightarrow> 'c sched \<Rightarrow> 'c sched" where
  "log e s = s\<lparr>sc_effects := sc_effects s @ [e]\<rparr>"

definition set_phase :: "nat \<Rightarrow> phase \<Rightarrow> 'c sched \<Rightarrow> 'c sched" where
  "set_phase t p s = s\<lparr>sc_tasks := (sc_tasks s)[t := (sc_tasks s ! t)\<lparr>tk_phase := p\<rparr>]\<rparr>"

section \<open>Counters and the cancel mark\<close>

definition track_enqueue :: "str \<Rightarrow> 'c sched \<Rightarrow> 'c sched" where
  "track_enqueue session_id s =
     (let sid = strip session_id
      in if sid = [] then s else s\<lparr>sc_queued := dset sid (count_of (sc_queued s) sid + 1) (sc_queued s)\<rparr>)"

definition track_dequeue :: "str \<Rightarrow> 'c sched \<Rightarrow> 'c sched" where
  "track_dequeue session_id s =
     (let sid = strip session_id
      in if sid = [] then s
         else
           let remaining = count_of (sc_queued s) sid - 1
           in s\<lparr>sc_queued := (if remaining \<le> 0 then dpop sid (sc_queued s)
                              else dset sid remaining (sc_queued s))\<rparr>)"

definition inflight_count :: "str \<Rightarrow> 'c sched \<Rightarrow> int" where
  "inflight_count sid s = count_of (sc_inflight s) sid"

definition clear_cancelled :: "str \<Rightarrow> 'c sched \<Rightarrow> 'c sched" where
  "clear_cancelled sid s = s\<lparr>sc_cancelled := sc_cancelled s - {sid}\<rparr>"

definition maybe_clear_cancelled :: "str \<Rightarrow> 'c sched \<Rightarrow> 'c sched" where
  "maybe_clear_cancelled session_id s =
     (let sid = strip session_id
      in if sid = [] \<or> sid \<notin> sc_cancelled s then s
         else if inflight_count sid s > 0 then s
         else if count_of (sc_queued s) sid > 0 then s
         else clear_cancelled sid s)"

section \<open>Waiters of the tools\<close>

definition register_p2p_reply_waiter :: "str \<Rightarrow> 'c sched \<Rightarrow> fid \<times> 'c sched" where
  "register_p2p_reply_waiter mid s =
     (case add_wait mid (sc_p2p s) of (f, w) \<Rightarrow> (f, s\<lparr>sc_p2p := w\<rparr>))"

definition has_p2p_reply_waiter :: "str \<Rightarrow> 'c sched \<Rightarrow> bool" where
  "has_p2p_reply_waiter mid s = waiting (sc_p2p s) mid"

definition complete_p2p_reply :: "str \<Rightarrow> str \<Rightarrow> 'c sched \<Rightarrow> bool \<times> 'c sched" where
  "complete_p2p_reply mid reply s =
     (case pop_settle mid (Result reply) (sc_p2p s) of (woke, w) \<Rightarrow> (woke, s\<lparr>sc_p2p := w\<rparr>))"

definition cancel_p2p_reply_waiter :: "str \<Rightarrow> 'c sched \<Rightarrow> 'c sched" where
  "cancel_p2p_reply_waiter mid s = s\<lparr>sc_p2p := snd (pop_settle mid Cancelled (sc_p2p s))\<rparr>"

text \<open>The core pool's entry for a child: \<open>None\<close> when it knows no such child.\<close>

record sub_info =
  si_status :: "str option"
  si_result :: "str option"
  si_error :: "str option"

definition terminal_result :: "sub_info option \<Rightarrow> str \<Rightarrow> terminal_info" where
  "terminal_result entry sub_session_id =
     (let sid = (if startswith sub_session_id ''sub:'' then drop 4 sub_session_id else sub_session_id)
      in case entry of
           None \<Rightarrow> \<lparr>ti_status = Some ''unknown'', ti_subagent_id = sid,
                     ti_sub_session_id = sub_session_id, ti_result = None, ti_error = None\<rparr>
         | Some e \<Rightarrow> \<lparr>ti_status = si_status e, ti_subagent_id = sid,
                       ti_sub_session_id = sub_session_id, ti_result = si_result e, ti_error = si_error e\<rparr>)"

definition terminal_status :: "str option \<Rightarrow> bool" where
  "terminal_status st \<longleftrightarrow> st = Some ''completed'' \<or> st = Some ''failed'' \<or> st = Some ''cancelled''"

text \<open>Already terminal: a future with its result that enters no table.\<close>

datatype handle = Ready terminal_info | Await fid

definition register_terminal_waiter :: "sub_info option \<Rightarrow> str \<Rightarrow> 'c sched \<Rightarrow> handle \<times> 'c sched" where
  "register_terminal_waiter entry sub s =
     (case entry of
        Some e \<Rightarrow>
          if terminal_status (si_status e) then (Ready (terminal_result entry sub), s)
          else (case replace_wait sub (sc_terminal s) of (f, w) \<Rightarrow> (Await f, s\<lparr>sc_terminal := w\<rparr>))
      | None \<Rightarrow> (case replace_wait sub (sc_terminal s) of (f, w) \<Rightarrow> (Await f, s\<lparr>sc_terminal := w\<rparr>)))"

definition notify_terminal_waiter :: "sub_info option \<Rightarrow> str \<Rightarrow> 'c sched \<Rightarrow> bool \<times> 'c sched" where
  "notify_terminal_waiter entry sub s =
     (case pop_settle sub (Result (terminal_result entry sub)) (sc_terminal s) of
        (woke, w) \<Rightarrow> (woke, s\<lparr>sc_terminal := w\<rparr>))"

definition register_inbox_waiter :: "str \<Rightarrow> 'c sched \<Rightarrow> fid \<times> 'c sched" where
  "register_inbox_waiter sid s =
     (case replace_wait sid (sc_inbox s) of (f, w) \<Rightarrow> (f, s\<lparr>sc_inbox := w\<rparr>))"

definition maybe_wake_inbox :: "kernel_request \<Rightarrow> 'c sched \<Rightarrow> 'c sched" where
  "maybe_wake_inbox r s =
     (if strip (kr_frontend_id r) \<noteq> p2p_tag then s
      else (case kr_envelope r of
              Some (EnvMessage m) \<Rightarrow>
                let msg = \<lparr>im_message_id = am_message_id m, im_sender_session = am_sender_session m,
                           im_message_type = am_message_type m, im_content = kr_text r,
                           im_require_reply = am_require_reply m\<rparr>
                in s\<lparr>sc_inbox := snd (pop_settle (kr_session_id r) (Result msg) (sc_inbox s))\<rparr>
            | _ \<Rightarrow> s))"

definition stop_waiters :: "'c sched \<Rightarrow> 'c sched" where
  "stop_waiters s =
     s\<lparr>sc_terminal := cancel_all_waits (sc_terminal s), sc_inbox := cancel_all_waits (sc_inbox s),
       sc_p2p := cancel_all_waits (sc_p2p s), sc_bus := bus_cancel_all (sc_bus s)\<rparr>"

definition finalize_wake :: "kernel_request \<Rightarrow> bool \<Rightarrow> 'c sched \<Rightarrow> 'c sched" where
  "finalize_wake r confirmed s =
     (let wid = clean_str (py_get (kr_metadata r) ''_wake_id'')
      in if wid = [] then s else log (if confirmed then WakeConfirmed wid else WakeAborted wid) s)"

section \<open>Submitting and dispatching\<close>

definition enqueue :: "kernel_request \<Rightarrow> 'c sched \<Rightarrow> 'c sched" where
  "enqueue r s = (let s1 = track_enqueue (kr_session_id r) s in s1\<lparr>sc_queue := sc_queue s1 @ [r]\<rparr>)"

definition submit :: "kernel_request \<Rightarrow> 'c sched \<Rightarrow> 'c sched" where
  "submit r s = enqueue r (s\<lparr>sc_bus := register_waiter (kr_request_id r) (sc_bus s)\<rparr>)"

definition inject_turn :: "kernel_request \<Rightarrow> 'c sched \<Rightarrow> 'c sched" where
  "inject_turn r s = enqueue r s"

text \<open>\<open>PriorityQueue.get\<close>: the least request by \<open>request_key\<close>.\<close>

definition queue_get :: "'c sched \<Rightarrow> (kernel_request \<times> 'c sched) option" where
  "queue_get s =
     (case first_min request_key_of (sc_queue s) of
        None \<Rightarrow> None
      | Some r \<Rightarrow> Some (r, s\<lparr>sc_queue := remove1 r (sc_queue s)\<rparr>))"

definition refuse :: "kernel_request \<Rightarrow> str \<Rightarrow> 'c sched \<Rightarrow> 'c sched" where
  "refuse r why s = s\<lparr>sc_bus := publish_error (kr_request_id r) why (sc_bus s)\<rparr>"

definition dispatch :: "'c sched \<Rightarrow> (kernel_request \<times> 'c sched) option" where
  "dispatch s =
     (case queue_get s of
        None \<Rightarrow> None
      | Some (r, s0) \<Rightarrow>
          let s1 = track_dequeue (kr_session_id r) s0
          in Some (r,
               if kr_session_id r \<in> sc_cancelled s1
               then maybe_clear_cancelled (kr_session_id r)
                      (refuse r ''session cancelled while queued'' s1)
               else s1\<lparr>sc_tasks := sc_tasks s1 @ [\<lparr>tk_request = r, tk_phase = Created, tk_cancel = False\<rparr>]\<rparr>))"

section \<open>Running a request\<close>

definition join_lock :: "nat \<Rightarrow> str \<Rightarrow> 'c sched \<Rightarrow> 'c sched" where
  "join_lock t sid s = s\<lparr>sc_locks := dset sid (lock_queue sid s @ [t]) (sc_locks s)\<rparr>"

definition begin_task :: "(kernel_request \<Rightarrow> bool) \<Rightarrow> nat \<Rightarrow> 'c sched \<Rightarrow> 'c sched" where
  "begin_task suppressed t s =
     (let r = tk_request (sc_tasks s ! t); sid = kr_session_id r
      in if sid \<in> sc_cancelled s
         then set_phase t Done
                (finalize_wake r False
                  (maybe_clear_cancelled sid (refuse r ''session cancelled before dispatch'' s)))
         else if suppressed r then set_phase t Done (finalize_wake r False s)
         else
           let s1 = maybe_wake_inbox r s;
               s2 = s1\<lparr>sc_inflight := dset sid (count_of (sc_inflight s1) sid + 1) (sc_inflight s1)\<rparr>
           in set_phase t (if lock_queue sid s2 = [] then Running else Waiting) (join_lock t sid s2))"

definition grant_lock :: "nat \<Rightarrow> 'c sched \<Rightarrow> 'c sched" where
  "grant_lock t s = set_phase t Running s"

text \<open>
  Releasing the session lock and the \<open>finally\<close> block. When the last request in flight of the
  session ends, the pending notifications are flushed, which may inject requests
  (\<open>nts\<close>), and only then is the cancel mark looked at.
\<close>

definition depart :: "nat \<Rightarrow> 'c sched \<Rightarrow> 'c sched" where
  "depart t s =
     (let sid = task_session t s;
          s1 = s\<lparr>sc_locks := dset sid (remove1 t (lock_queue sid s)) (sc_locks s)\<rparr>;
          remaining = count_of (sc_inflight s1) sid - 1
      in set_phase t Done
           (s1\<lparr>sc_inflight := (if remaining > 0 then dset sid remaining (sc_inflight s1)
                               else dpop sid (sc_inflight s1))\<rparr>))"

definition leave :: "kernel_request list \<Rightarrow> nat \<Rightarrow> 'c sched \<Rightarrow> 'c sched" where
  "leave nts t s =
     (let sid = task_session t s; remaining = count_of (sc_inflight s) sid - 1; s1 = depart t s
      in if remaining = 0
         then maybe_clear_cancelled sid (fold inject_turn nts (log (FlushSession sid) s1))
         else s1)"

definition publish_result :: "kernel_request \<Rightarrow> run_result \<Rightarrow> 'c sched \<Rightarrow> 'c sched" where
  "publish_result r res s =
     (case publish (kr_session_id r) (kr_request_id r) res (sc_bus s) of
        (cbs, b) \<Rightarrow> log (Published (kr_session_id r) (kr_request_id r) res cbs) (s\<lparr>sc_bus := b\<rparr>))"

definition finish_ok :: "kernel_request list \<Rightarrow> nat \<Rightarrow> run_result \<Rightarrow> 'c sched \<Rightarrow> 'c sched" where
  "finish_ok nts t res s =
     (let r = tk_request (sc_tasks s ! t)
      in leave nts t (finalize_wake r True (publish_result r res s)))"

definition finish_error :: "kernel_request list \<Rightarrow> nat \<Rightarrow> str \<Rightarrow> 'c sched \<Rightarrow> 'c sched" where
  "finish_error nts t detail s =
     (let r = tk_request (sc_tasks s ! t)
      in leave nts t
           (if has_waiter (kr_request_id r) (sc_bus s)
            then finalize_wake r False (refuse r detail s)
            else finalize_wake r True
                   (publish_result r \<lparr>rr_output_text = detail, rr_push_error = Some detail\<rparr> s)))"

text \<open>
  \<open>CancelledError\<close> is raised where the task is suspended: before its first statement, at the
  lock, or inside the inner \<open>try\<close>.
\<close>

definition task_cancelled :: "kernel_request list \<Rightarrow> nat \<Rightarrow> 'c sched \<Rightarrow> 'c sched" where
  "task_cancelled nts t s =
     (let r = tk_request (sc_tasks s ! t)
      in case tk_phase (sc_tasks s ! t) of
           Created \<Rightarrow> set_phase t Done s
         | Waiting \<Rightarrow> leave nts t s
         | Running \<Rightarrow> leave nts t (finalize_wake r False (refuse r ''kernel task cancelled'' s))
         | Done \<Rightarrow> s)"

definition done_callback :: "nat \<Rightarrow> 'c sched \<Rightarrow> 'c sched" where
  "done_callback t s =
     (let sid = task_session t s
      in if sid \<in> sc_cancelled s then maybe_clear_cancelled sid s else s)"

definition active_tasks :: "str \<Rightarrow> 'c sched \<Rightarrow> nat list" where
  "active_tasks sid s =
     filter (\<lambda>t. task_session t s = sid \<and> tk_phase (sc_tasks s ! t) \<noteq> Done) [0..<length (sc_tasks s)]"

definition cancel_session_tasks :: "str \<Rightarrow> 'c sched \<Rightarrow> bool \<times> 'c sched" where
  "cancel_session_tasks sid s =
     (let ts = active_tasks sid s
      in (ts \<noteq> [],
          s\<lparr>sc_cancelled := insert sid (sc_cancelled s),
            sc_tasks := map (\<lambda>k. if kr_session_id (tk_request k) = sid \<and> tk_phase k \<noteq> Done
                                 then k\<lparr>tk_cancel := True\<rparr> else k) (sc_tasks s)\<rparr>))"

text \<open>The wait of \<open>cancel_session_tasks\<close> ran out with tasks still pending.\<close>

definition cancel_wait_timeout :: "str \<Rightarrow> 'c sched \<Rightarrow> 'c sched" where
  "cancel_wait_timeout sid s = maybe_clear_cancelled sid s"

text \<open>\<open>_evict_expired\<close>: the expired sessions that may be evicted now.\<close>

definition evictable :: "str list \<Rightarrow> 'c sched \<Rightarrow> str list" where
  "evictable expired s = filter (\<lambda>sid. inflight_count sid s \<le> 0) expired"

section \<open>The invariant\<close>

definition at_lock :: "'c sched \<Rightarrow> nat \<Rightarrow> bool" where
  "at_lock s t \<longleftrightarrow> t < length (sc_tasks s)
     \<and> (tk_phase (sc_tasks s ! t) = Waiting \<or> tk_phase (sc_tasks s ! t) = Running)"

definition locks_ok :: "'c sched \<Rightarrow> bool" where
  "locks_ok s \<longleftrightarrow> (\<forall>sid. distinct (lock_queue sid s)
     \<and> set (lock_queue sid s) = {t. at_lock s t \<and> task_session t s = sid}
     \<and> (\<forall>t \<in> set (lock_queue sid s). tk_phase (sc_tasks s ! t) = Running \<longrightarrow> t = hd (lock_queue sid s)))"

definition inflight_ok :: "'c sched \<Rightarrow> bool" where
  "inflight_ok s \<longleftrightarrow> (\<forall>sid. count_of (sc_inflight s) sid = int (length (lock_queue sid s)))"

definition queued_ok :: "'c sched \<Rightarrow> bool" where
  "queued_ok s \<longleftrightarrow> (\<forall>sid. sid \<noteq> [] \<longrightarrow>
     count_of (sc_queued s) sid = int (length (filter (\<lambda>r. strip (kr_session_id r) = sid) (sc_queue s))))"

text \<open>A task whose end leaves its request unanswered: cancelled, or a suppressed notification.\<close>

definition unanswered_end :: "task \<Rightarrow> bool" where
  "unanswered_end k \<longleftrightarrow> tk_cancel k \<or> strip (kr_frontend_id (tk_request k)) = ''subagent''"

definition answer_due :: "'c sched \<Rightarrow> str \<Rightarrow> bool" where
  "answer_due s rid \<longleftrightarrow>
     (\<exists>r \<in> set (sc_queue s). kr_request_id r = rid)
     \<or> (\<exists>k \<in> set (sc_tasks s). kr_request_id (tk_request k) = rid
          \<and> (tk_phase k \<noteq> Done \<or> unanswered_end k))"

definition answers_ok :: "'c sched \<Rightarrow> bool" where
  "answers_ok s \<longleftrightarrow> bus_ok (sc_bus s) \<and> (\<forall>rid. awaited (sc_bus s) rid \<longrightarrow> answer_due s rid)"

definition sched_ok :: "'c sched \<Rightarrow> bool" where
  "sched_ok s \<longleftrightarrow> locks_ok s \<and> inflight_ok s \<and> queued_ok s \<and> answers_ok s"

lemma count_of_dset [simp]: "count_of (dset k n d) k' = (if k' = k then n else count_of d k')"
  by (simp add: count_of_def)

lemma count_of_dpop [simp]: "count_of (dpop k d) k' = (if k' = k then 0 else count_of d k')"
  by (simp add: count_of_def)

text \<open>What the small operations leave alone.\<close>

lemma frame_log [simp]:
  "sc_queue (log e s) = sc_queue s" "sc_bus (log e s) = sc_bus s" "sc_tasks (log e s) = sc_tasks s"
  "sc_inflight (log e s) = sc_inflight s" "sc_queued (log e s) = sc_queued s"
  "sc_locks (log e s) = sc_locks s" "sc_cancelled (log e s) = sc_cancelled s"
  by (simp_all add: log_def)

lemma frame_finalize [simp]:
  "sc_queue (finalize_wake r c s) = sc_queue s" "sc_bus (finalize_wake r c s) = sc_bus s"
  "sc_tasks (finalize_wake r c s) = sc_tasks s" "sc_inflight (finalize_wake r c s) = sc_inflight s"
  "sc_queued (finalize_wake r c s) = sc_queued s" "sc_locks (finalize_wake r c s) = sc_locks s"
  "sc_cancelled (finalize_wake r c s) = sc_cancelled s"
  by (simp_all add: finalize_wake_def Let_def)

lemma frame_clear [simp]:
  "sc_queue (maybe_clear_cancelled sid s) = sc_queue s" "sc_bus (maybe_clear_cancelled sid s) = sc_bus s"
  "sc_tasks (maybe_clear_cancelled sid s) = sc_tasks s"
  "sc_inflight (maybe_clear_cancelled sid s) = sc_inflight s"
  "sc_queued (maybe_clear_cancelled sid s) = sc_queued s"
  "sc_locks (maybe_clear_cancelled sid s) = sc_locks s"
  by (simp_all add: maybe_clear_cancelled_def clear_cancelled_def Let_def)

lemma frame_inbox [simp]:
  "sc_queue (maybe_wake_inbox r s) = sc_queue s" "sc_bus (maybe_wake_inbox r s) = sc_bus s"
  "sc_tasks (maybe_wake_inbox r s) = sc_tasks s" "sc_inflight (maybe_wake_inbox r s) = sc_inflight s"
  "sc_queued (maybe_wake_inbox r s) = sc_queued s" "sc_locks (maybe_wake_inbox r s) = sc_locks s"
  "sc_cancelled (maybe_wake_inbox r s) = sc_cancelled s"
  by (auto simp: maybe_wake_inbox_def Let_def split: option.split envelope.split)

lemma frame_refuse [simp]:
  "sc_queue (refuse r w s) = sc_queue s" "sc_tasks (refuse r w s) = sc_tasks s"
  "sc_inflight (refuse r w s) = sc_inflight s" "sc_queued (refuse r w s) = sc_queued s"
  "sc_locks (refuse r w s) = sc_locks s" "sc_cancelled (refuse r w s) = sc_cancelled s"
  "sc_bus (refuse r w s) = publish_error (kr_request_id r) w (sc_bus s)"
  by (simp_all add: refuse_def)

lemma frame_publish [simp]:
  "sc_queue (publish_result r x s) = sc_queue s" "sc_tasks (publish_result r x s) = sc_tasks s"
  "sc_inflight (publish_result r x s) = sc_inflight s" "sc_queued (publish_result r x s) = sc_queued s"
  "sc_locks (publish_result r x s) = sc_locks s" "sc_cancelled (publish_result r x s) = sc_cancelled s"
  "sc_bus (publish_result r x s) = snd (publish (kr_session_id r) (kr_request_id r) x (sc_bus s))"
  by (simp_all add: publish_result_def split: prod.split)

lemma frame_set_phase [simp]:
  "sc_queue (set_phase t p s) = sc_queue s" "sc_bus (set_phase t p s) = sc_bus s"
  "sc_inflight (set_phase t p s) = sc_inflight s" "sc_queued (set_phase t p s) = sc_queued s"
  "sc_locks (set_phase t p s) = sc_locks s" "sc_cancelled (set_phase t p s) = sc_cancelled s"
  "length (sc_tasks (set_phase t p s)) = length (sc_tasks s)"
  by (simp_all add: set_phase_def)

lemma set_phase_nth:
  "i < length (sc_tasks s) \<Longrightarrow>
     sc_tasks (set_phase t p s) ! i = (if i = t then (sc_tasks s ! i)\<lparr>tk_phase := p\<rparr> else sc_tasks s ! i)"
  by (auto simp: set_phase_def nth_update)

lemma lock_queue_cong: "sc_locks s' = sc_locks s \<Longrightarrow> lock_queue sid s' = lock_queue sid s"
  by (simp add: lock_queue_def)

lemma lock_queue_frame [simp]:
  "lock_queue sid (set_phase t p s) = lock_queue sid s"
  "lock_queue sid (log e s) = lock_queue sid s"
  "lock_queue sid (finalize_wake r c s) = lock_queue sid s"
  "lock_queue sid (maybe_clear_cancelled x s) = lock_queue sid s"
  "lock_queue sid (maybe_wake_inbox r s) = lock_queue sid s"
  "lock_queue sid (refuse r w s) = lock_queue sid s"
  "lock_queue sid (publish_result r y s) = lock_queue sid s"
  by (simp_all add: lock_queue_def)

text \<open>Each part of the invariant looks at a few fields only.\<close>

lemma locks_ok_cong:
  "sc_tasks s' = sc_tasks s \<Longrightarrow> sc_locks s' = sc_locks s \<Longrightarrow> locks_ok s' = locks_ok s"
  by (simp add: locks_ok_def at_lock_def task_session_def lock_queue_def)

lemma inflight_ok_cong:
  "sc_inflight s' = sc_inflight s \<Longrightarrow> sc_locks s' = sc_locks s \<Longrightarrow> inflight_ok s' = inflight_ok s"
  by (simp add: inflight_ok_def lock_queue_def)

lemma queued_ok_cong:
  "sc_queued s' = sc_queued s \<Longrightarrow> sc_queue s' = sc_queue s \<Longrightarrow> queued_ok s' = queued_ok s"
  by (simp add: queued_ok_def)

lemma answer_due_cong:
  "sc_queue s' = sc_queue s \<Longrightarrow> sc_tasks s' = sc_tasks s \<Longrightarrow> answer_due s' rid = answer_due s rid"
  by (simp add: answer_due_def)

lemma sched_ok_cong:
  assumes "sc_queue s' = sc_queue s" "sc_bus s' = sc_bus s" "sc_tasks s' = sc_tasks s"
    "sc_inflight s' = sc_inflight s" "sc_queued s' = sc_queued s" "sc_locks s' = sc_locks s"
  shows "sched_ok s' = sched_ok s"
  unfolding sched_ok_def answers_ok_def assms(2)
    locks_ok_cong [OF assms(3,6)] inflight_ok_cong [OF assms(4,6)] queued_ok_cong [OF assms(5,1)]
    answer_due_cong [OF assms(1,3)] ..

lemma sched_ok_frame [simp]:
  "sched_ok (log e s) = sched_ok s"
  "sched_ok (finalize_wake r c s) = sched_ok s"
  "sched_ok (maybe_clear_cancelled sid s) = sched_ok s"
  "sched_ok (maybe_wake_inbox r s) = sched_ok s"
  by (rule sched_ok_cong; simp)+

text \<open>Answers only ever shrink the set of awaited requests.\<close>

lemma sched_ok_bus:
  assumes "sched_ok s" and "bus_ok b" and "\<And>rid. awaited b rid \<Longrightarrow> awaited (sc_bus s) rid"
  shows "sched_ok (s\<lparr>sc_bus := b\<rparr>)"
proof -
  have "locks_ok (s\<lparr>sc_bus := b\<rparr>) = locks_ok s" by (rule locks_ok_cong) simp_all
  moreover have "inflight_ok (s\<lparr>sc_bus := b\<rparr>) = inflight_ok s" by (rule inflight_ok_cong) simp_all
  moreover have "queued_ok (s\<lparr>sc_bus := b\<rparr>) = queued_ok s" by (rule queued_ok_cong) simp_all
  moreover have "answer_due (s\<lparr>sc_bus := b\<rparr>) rid = answer_due s rid" for rid
    by (rule answer_due_cong) simp_all
  ultimately  show ?thesis using assms by (simp add: sched_ok_def answers_ok_def)
qed

lemma sched_bus_ok: "sched_ok s \<Longrightarrow> bus_ok (sc_bus s)"
  by (simp add: sched_ok_def answers_ok_def)

lemma sched_ok_refuse: "sched_ok s \<Longrightarrow> sched_ok (refuse r w s)"
  unfolding refuse_def
  by (rule sched_ok_bus) (simp_all add: sched_bus_ok bus_ok_ops awaited_settled)

lemma sched_ok_publish: "sched_ok s \<Longrightarrow> sched_ok (publish_result r x s)"
proof -
  assume ok: "sched_ok s"
  let ?b = "snd (publish (kr_session_id r) (kr_request_id r) x (sc_bus s))"
  have "sched_ok (s\<lparr>sc_bus := ?b\<rparr>)"
    using ok by (intro sched_ok_bus) (simp_all add: sched_bus_ok bus_ok_ops awaited_settled)
  moreover have "sched_ok (publish_result r x s) = sched_ok (s\<lparr>sc_bus := ?b\<rparr>)"
    by (rule sched_ok_cong) simp_all
  ultimately show ?thesis by simp
qed

lemma settled_refuse: "sched_ok s \<Longrightarrow> \<not> awaited (sc_bus (refuse r w s)) (kr_request_id r)"
  by (simp add: awaited_settled sched_bus_ok)

lemma settled_publish: "sched_ok s \<Longrightarrow> \<not> awaited (sc_bus (publish_result r x s)) (kr_request_id r)"
  by (simp add: awaited_settled sched_bus_ok)

text \<open>Submitting.\<close>

lemma queued_ok_enqueue: "queued_ok s \<Longrightarrow> queued_ok (enqueue r s)"
  by (auto simp: queued_ok_def enqueue_def track_enqueue_def Let_def)

lemma enqueue_frame [simp]:
  "sc_tasks (enqueue r s) = sc_tasks s" "sc_locks (enqueue r s) = sc_locks s"
  "sc_inflight (enqueue r s) = sc_inflight s" "sc_bus (enqueue r s) = sc_bus s"
  "sc_queue (enqueue r s) = sc_queue s @ [r]" "sc_cancelled (enqueue r s) = sc_cancelled s"
  by (simp_all add: enqueue_def track_enqueue_def Let_def)

lemma sched_ok_enqueue: "sched_ok s \<Longrightarrow> sched_ok (enqueue r s)"
  using locks_ok_cong [of "enqueue r s" s] inflight_ok_cong [of "enqueue r s" s]
  by (auto simp: sched_ok_def queued_ok_enqueue answers_ok_def answer_due_def)

lemma sched_ok_submit: "sched_ok s \<Longrightarrow> sched_ok (submit r s)"
proof -
  assume ok: "sched_ok s"
  let ?s = "s\<lparr>sc_bus := register_waiter (kr_request_id r) (sc_bus s)\<rparr>"
  have parts: "locks_ok ?s" "inflight_ok ?s" "queued_ok ?s"
    using ok locks_ok_cong [of ?s s] inflight_ok_cong [of ?s s] queued_ok_cong [of ?s s]
    by (simp_all add: sched_ok_def)
  have "locks_ok (enqueue r ?s)" "inflight_ok (enqueue r ?s)" "queued_ok (enqueue r ?s)"
    using parts locks_ok_cong [of "enqueue r ?s" ?s] inflight_ok_cong [of "enqueue r ?s" ?s]
    by (simp_all add: queued_ok_enqueue)
  moreover have "answers_ok (enqueue r ?s)"
    using ok by (auto simp: sched_ok_def answers_ok_def answer_due_def bus_ok_ops awaited_register)
  ultimately show ?thesis by (simp add: submit_def sched_ok_def)
qed

text \<open>Dispatching.\<close>

lemma queue_get_Some:
  assumes "queue_get s = Some (r, s0)"
  shows "r \<in> set (sc_queue s)" "s0 = s\<lparr>sc_queue := remove1 r (sc_queue s)\<rparr>"
    "\<forall>q \<in> set (sc_queue s). request_key_of r \<le> request_key_of q"
  using assms first_min_Some [of request_key_of "sc_queue s" r]
  by (auto simp: queue_get_def split: option.splits)

lemma length_filter_remove1:
  "x \<in> set xs \<Longrightarrow> length (filter P (remove1 x xs)) = length (filter P xs) - (if P x then 1 else 0)"
  by (simp add: filter_remove1 length_remove1)

lemma queued_ok_dequeue:
  assumes "queued_ok s" and "r \<in> set (sc_queue s)"
  shows "queued_ok (track_dequeue (kr_session_id r) (s\<lparr>sc_queue := remove1 r (sc_queue s)\<rparr>))"
proof -
  have pos: "length (filter (\<lambda>q. strip (kr_session_id q) = strip (kr_session_id r)) (sc_queue s)) > 0"
    using assms(2) by (auto simp: filter_empty_conv)
  show ?thesis
    using assms pos
    by (auto simp: queued_ok_def track_dequeue_def Let_def length_filter_remove1 of_nat_diff)
qed

lemma track_dequeue_frame [simp]:
  "sc_tasks (track_dequeue x s) = sc_tasks s" "sc_locks (track_dequeue x s) = sc_locks s"
  "sc_inflight (track_dequeue x s) = sc_inflight s" "sc_bus (track_dequeue x s) = sc_bus s"
  "sc_queue (track_dequeue x s) = sc_queue s" "sc_cancelled (track_dequeue x s) = sc_cancelled s"
  by (simp_all add: track_dequeue_def Let_def)

lemma locks_ok_new_task:
  assumes "locks_ok s" and "tk_phase k = Created"
  shows "locks_ok (s\<lparr>sc_tasks := sc_tasks s @ [k]\<rparr>)"
proof -
  have "at_lock (s\<lparr>sc_tasks := sc_tasks s @ [k]\<rparr>) t = at_lock s t" for t
    using assms(2) by (auto simp: at_lock_def nth_append)
  moreover have "at_lock s t \<Longrightarrow> task_session t (s\<lparr>sc_tasks := sc_tasks s @ [k]\<rparr>) = task_session t s
      \<and> tk_phase ((sc_tasks s @ [k]) ! t) = tk_phase (sc_tasks s ! t)" for t
    by (simp add: at_lock_def task_session_def nth_append)
  moreover have "lock_queue sid (s\<lparr>sc_tasks := sc_tasks s @ [k]\<rparr>) = lock_queue sid s" for sid
    by (simp add: lock_queue_def)
  ultimately show ?thesis using assms(1) by (auto simp: locks_ok_def)
qed

lemma sched_ok_dispatch:
  assumes ok: "sched_ok s" and d: "dispatch s = Some (r, s')"
  shows "sched_ok s'"
proof -
  obtain s0 where g: "queue_get s = Some (r, s0)"
    using d by (auto simp: dispatch_def Let_def split: option.splits prod.splits)
  note r = queue_get_Some [OF g]
  let ?s1 = "track_dequeue (kr_session_id r) (s\<lparr>sc_queue := remove1 r (sc_queue s)\<rparr>)"
  have parts: "locks_ok ?s1" "inflight_ok ?s1" "queued_ok ?s1"
    using ok r(1) queued_ok_dequeue [of s r] locks_ok_cong [of ?s1 s] inflight_ok_cong [of ?s1 s]
    by (simp_all add: sched_ok_def)
  have due: "answer_due ?s1 rid \<or> rid = kr_request_id r" if "awaited (sc_bus s) rid" for rid
    using ok that in_set_remove1 [of _ r "sc_queue s"]
    unfolding sched_ok_def answers_ok_def answer_due_def by fastforce
  show ?thesis
  proof (cases "kr_session_id r \<in> sc_cancelled s")
    case True
    let ?s2 = "refuse r ''session cancelled while queued'' ?s1"
    have "locks_ok ?s2" "inflight_ok ?s2" "queued_ok ?s2"
      using parts locks_ok_cong [of ?s2 ?s1] inflight_ok_cong [of ?s2 ?s1] queued_ok_cong [of ?s2 ?s1]
      by simp_all
    moreover have "answers_ok ?s2"
      using due sched_bus_ok [OF ok] answer_due_cong [of ?s2 ?s1]
      by (auto simp: answers_ok_def bus_ok_ops awaited_settled)
    ultimately have "sched_ok ?s2" by (simp add: sched_ok_def)
    moreover have "s' = maybe_clear_cancelled (kr_session_id r) ?s2"
      using d g True r(2) by (simp add: dispatch_def Let_def)
    ultimately show ?thesis by simp
  next
    case False
    let ?k = "\<lparr>tk_request = r, tk_phase = Created, tk_cancel = False\<rparr>"
    let ?s2 = "?s1\<lparr>sc_tasks := sc_tasks ?s1 @ [?k]\<rparr>"
    have "locks_ok ?s2" using parts by (intro locks_ok_new_task) simp_all
    moreover have "inflight_ok ?s2" "queued_ok ?s2"
      using parts inflight_ok_cong [of ?s2 ?s1] queued_ok_cong [of ?s2 ?s1] by simp_all
    moreover have "answers_ok ?s2"
      using due sched_bus_ok [OF ok] by (fastforce simp: answers_ok_def answer_due_def)
    moreover have "s' = ?s2"
      using d g False r(2) by (simp add: dispatch_def Let_def)
    ultimately show ?thesis by (simp add: sched_ok_def)
  qed
qed

text \<open>Phases.\<close>

lemma at_lock_cong: "sc_tasks s' = sc_tasks s \<Longrightarrow> at_lock s' t = at_lock s t"
  by (simp add: at_lock_def)

lemma at_lock_length: "at_lock s t \<Longrightarrow> t < length (sc_tasks s)"
  by (simp add: at_lock_def)

lemma at_lock_set_phase:
  "t < length (sc_tasks s) \<Longrightarrow>
     at_lock (set_phase t p s) i = (if i = t then p = Waiting \<or> p = Running else at_lock s i)"
  by (auto simp: at_lock_def set_phase_nth)

lemma session_set_phase [simp]: "i < length (sc_tasks s) \<Longrightarrow> task_session i (set_phase t p s) = task_session i s"
  by (simp add: task_session_def set_phase_nth)

lemma in_tasks: "k \<in> set (sc_tasks s) \<longleftrightarrow> (\<exists>i < length (sc_tasks s). sc_tasks s ! i = k)"
  by (auto simp: in_set_conv_nth)

lemma answer_due_set_phase:
  assumes "t < length (sc_tasks s)" and "answer_due s rid"
    and "p \<noteq> Done \<or> rid \<noteq> kr_request_id (tk_request (sc_tasks s ! t)) \<or> unanswered_end (sc_tasks s ! t)"
  shows "answer_due (set_phase t p s) rid"
proof (cases "\<exists>r \<in> set (sc_queue s). kr_request_id r = rid")
  case False
  then obtain i where i: "i < length (sc_tasks s)" "kr_request_id (tk_request (sc_tasks s ! i)) = rid"
    "tk_phase (sc_tasks s ! i) \<noteq> Done \<or> unanswered_end (sc_tasks s ! i)"
    using assms(2) by (auto simp: answer_due_def in_tasks)
  let ?k = "sc_tasks (set_phase t p s) ! i"
  have "kr_request_id (tk_request ?k) = rid \<and> (tk_phase ?k \<noteq> Done \<or> unanswered_end ?k)"
    using i assms(3) by (auto simp: set_phase_nth unanswered_end_def)
  moreover have "?k \<in> set (sc_tasks (set_phase t p s))" using i(1) by simp
  ultimately show ?thesis by (auto simp: answer_due_def)
qed (auto simp: answer_due_def)

text \<open>A task that ends before it has taken its place at the lock.\<close>

lemma sched_ok_end_early:
  assumes ok: "sched_ok s" and t: "t < length (sc_tasks s)" "\<not> at_lock s t"
    and ans: "awaited (sc_bus s) (kr_request_id (tk_request (sc_tasks s ! t))) \<Longrightarrow>
      unanswered_end (sc_tasks s ! t)"
  shows "sched_ok (set_phase t Done s)"
proof -
  have "at_lock (set_phase t Done s) i = at_lock s i" for i
    using t by (auto simp: at_lock_set_phase)
  moreover have "at_lock s i \<Longrightarrow> task_session i (set_phase t Done s) = task_session i s
      \<and> tk_phase (sc_tasks (set_phase t Done s) ! i) = tk_phase (sc_tasks s ! i)" for i
    using t(2) by (auto simp: at_lock_def set_phase_nth)
  ultimately have "locks_ok (set_phase t Done s)"
    using ok by (auto simp: sched_ok_def locks_ok_def)
  moreover have "inflight_ok (set_phase t Done s)" "queued_ok (set_phase t Done s)"
    using ok inflight_ok_cong [of "set_phase t Done s" s] queued_ok_cong [of "set_phase t Done s" s]
    by (simp_all add: sched_ok_def)
  moreover have "answers_ok (set_phase t Done s)"
    using ok answer_due_set_phase [OF t(1), of _ Done] ans
    by (auto simp: sched_ok_def answers_ok_def)
  ultimately show ?thesis by (simp add: sched_ok_def)
qed

text \<open>A task that takes its place.\<close>

lemma sched_ok_join:
  assumes ok: "sched_ok s" and t: "t < length (sc_tasks s)" "\<not> at_lock s t"
    and sid: "sid = task_session t s"
    and s2: "s2 = s\<lparr>sc_inflight := dset sid (count_of (sc_inflight s) sid + 1) (sc_inflight s)\<rparr>"
  shows "sched_ok (set_phase t (if lock_queue sid s2 = [] then Running else Waiting) (join_lock t sid s2))"
    (is "sched_ok ?s")
proof -
  have q: "lock_queue i (join_lock t sid s2) = (if i = sid then lock_queue i s @ [t] else lock_queue i s)" for i
    by (simp add: join_lock_def lock_queue_def s2)
  have len: "length (sc_tasks (join_lock t sid s2)) = length (sc_tasks s)"
    "sc_tasks (join_lock t sid s2) = sc_tasks s" by (simp_all add: join_lock_def s2)
  have al: "at_lock ?s i = (i = t \<or> at_lock s i)" for i
  proof -
    have "at_lock (join_lock t sid s2) i = at_lock s i" using len by (simp add: at_lock_def)
    then show ?thesis using t(1) len by (simp add: at_lock_set_phase)
  qed
  have se: "task_session i ?s = task_session i s" if "i < length (sc_tasks s)" for i
    using that len by (simp add: task_session_def set_phase_nth)
  have ph: "tk_phase (sc_tasks ?s ! i) = (if i = t then (if lock_queue sid s = [] then Running else Waiting)
      else tk_phase (sc_tasks s ! i))" if "i < length (sc_tasks s)" for i
    using that len by (simp add: set_phase_nth lock_queue_def s2)
  have fresh: "t \<notin> set (lock_queue i s)" for i using ok t(2) by (simp add: sched_ok_def locks_ok_def)
  have "locks_ok ?s" unfolding locks_ok_def
  proof (intro allI conjI)
    fix i
    have old: "distinct (lock_queue i s)" "set (lock_queue i s) = {u. at_lock s u \<and> task_session u s = i}"
      "\<forall>u \<in> set (lock_queue i s). tk_phase (sc_tasks s ! u) = Running \<longrightarrow> u = hd (lock_queue i s)"
      using ok by (simp_all add: sched_ok_def locks_ok_def)
    show "distinct (lock_queue i ?s)" using old(1) fresh by (cases "i = sid") (simp_all add: q)
    show "set (lock_queue i ?s) = {u. at_lock ?s u \<and> task_session u ?s = i}"
    proof -
      have "at_lock ?s u \<and> task_session u ?s = i \<longleftrightarrow> (u = t \<and> i = sid) \<or> (at_lock s u \<and> task_session u s = i)" for u
        using al [of u] se [of u] se [OF t(1)] sid at_lock_length [of s u] by auto
      then have "{u. at_lock ?s u \<and> task_session u ?s = i} = (if i = sid then {t} else {}) \<union> set (lock_queue i s)"
        unfolding old(2) by auto
      then show ?thesis by (simp add: q)
    qed
    show "\<forall>u \<in> set (lock_queue i ?s). tk_phase (sc_tasks ?s ! u) = Running \<longrightarrow> u = hd (lock_queue i ?s)"
    proof (intro ballI impI)
      fix u assume u: "u \<in> set (lock_queue i ?s)" and run: "tk_phase (sc_tasks ?s ! u) = Running"
      have "u < length (sc_tasks s)" using u old(2) t(1) by (auto simp: q at_lock_def split: if_splits)
      with u run old(3) fresh show "u = hd (lock_queue i ?s)"
        by (auto simp: q ph hd_append split: if_splits)
    qed
  qed
  moreover have "inflight_ok ?s"
    using ok q by (auto simp: sched_ok_def inflight_ok_def join_lock_def s2)
  moreover have "queued_ok ?s"
    using ok queued_ok_cong [of ?s s] by (simp add: sched_ok_def join_lock_def s2)
  moreover have "answers_ok ?s"
  proof -
    have "answer_due (join_lock t sid s2) rid = answer_due s rid" for rid
      by (rule answer_due_cong) (simp_all add: join_lock_def s2)
    then show ?thesis
      using ok t(1) len(1) answer_due_set_phase [of t "join_lock t sid s2"]
      by (auto simp: sched_ok_def answers_ok_def join_lock_def s2)
  qed
  ultimately show ?thesis by (simp add: sched_ok_def)
qed

text \<open>A task that leaves the lock.\<close>

lemma depart_view:
  "sc_queue (depart t s) = sc_queue s" "sc_bus (depart t s) = sc_bus s" "sc_queued (depart t s) = sc_queued s"
  "sc_tasks (depart t s) = sc_tasks (set_phase t Done s)"
  "sc_locks (depart t s) = dset (task_session t s) (remove1 t (lock_queue (task_session t s) s)) (sc_locks s)"
  "count_of (sc_inflight (depart t s)) i =
     (if i = task_session t s then max 0 (count_of (sc_inflight s) i - 1) else count_of (sc_inflight s) i)"
  by (simp_all add: depart_def Let_def set_phase_def)

lemma hd_remove1: "distinct xs \<Longrightarrow> x \<in> set (remove1 t xs) \<Longrightarrow> x = hd xs \<Longrightarrow> x = hd (remove1 t xs)"
  by (cases xs) auto

lemma sched_ok_depart:
  assumes ok: "sched_ok s" and t: "at_lock s t"
    and ans: "awaited (sc_bus s) (kr_request_id (tk_request (sc_tasks s ! t))) \<Longrightarrow>
      unanswered_end (sc_tasks s ! t)"
  shows "sched_ok (depart t s)"
proof -
  let ?sid = "task_session t s"
  have len: "t < length (sc_tasks s)" using t by (simp add: at_lock_def)
  have q: "lock_queue i (depart t s) = (if i = ?sid then remove1 t (lock_queue i s) else lock_queue i s)" for i
    by (auto simp: lock_queue_def depart_view)
  have al: "at_lock (depart t s) i = (i \<noteq> t \<and> at_lock s i)" for i
    using at_lock_cong [of "depart t s" "set_phase t Done s" i] at_lock_set_phase [OF len, of Done i]
    by (auto simp: depart_view)
  have task: "i < length (sc_tasks s) \<Longrightarrow> task_session i (depart t s) = task_session i s
      \<and> (i \<noteq> t \<longrightarrow> tk_phase (sc_tasks (depart t s) ! i) = tk_phase (sc_tasks s ! i))" for i
    by (simp add: task_session_def depart_view set_phase_nth)
  have old: "distinct (lock_queue i s)" "set (lock_queue i s) = {u. at_lock s u \<and> task_session u s = i}"
    "\<forall>u \<in> set (lock_queue i s). tk_phase (sc_tasks s ! u) = Running \<longrightarrow> u = hd (lock_queue i s)" for i
    using ok by (simp_all add: sched_ok_def locks_ok_def)
  have "locks_ok (depart t s)" unfolding locks_ok_def
  proof (intro allI conjI)
    fix i
    show "distinct (lock_queue i (depart t s))" using old(1) by (simp add: q)
    show "set (lock_queue i (depart t s)) = {u. at_lock (depart t s) u \<and> task_session u (depart t s) = i}"
    proof -
      have "at_lock (depart t s) u \<and> task_session u (depart t s) = i
          \<longleftrightarrow> u \<noteq> t \<and> at_lock s u \<and> task_session u s = i" for u
        using al [of u] task [of u] at_lock_length [of s u] by auto
      then have "{u. at_lock (depart t s) u \<and> task_session u (depart t s) = i} = set (lock_queue i s) - {t}"
        unfolding old(2) by auto
      moreover have "i \<noteq> ?sid \<Longrightarrow> t \<notin> set (lock_queue i s)" using old(2) by auto
      ultimately show ?thesis using old(1) by (auto simp: q)
    qed
    show "\<forall>u \<in> set (lock_queue i (depart t s)).
        tk_phase (sc_tasks (depart t s) ! u) = Running \<longrightarrow> u = hd (lock_queue i (depart t s))"
    proof (intro ballI impI)
      fix u assume u: "u \<in> set (lock_queue i (depart t s))" and run: "tk_phase (sc_tasks (depart t s) ! u) = Running"
      have u': "u \<in> set (lock_queue i s)" "u \<noteq> t \<or> i \<noteq> ?sid"
        using u old(1) by (auto simp: q split: if_splits)
      then have "u \<noteq> t" using old(2) by auto
      with u' run old(2,3) task have "u = hd (lock_queue i s)" by (auto simp: at_lock_def)
      with u show "u = hd (lock_queue i (depart t s))"
        using hd_remove1 [OF old(1)] by (auto simp: q split: if_splits)
    qed
  qed
  moreover have "inflight_ok (depart t s)" unfolding inflight_ok_def
  proof
    fix i
    have in_q: "t \<in> set (lock_queue ?sid s)" using old(2) t by simp
    then have "int (length (lock_queue ?sid s) - Suc 0) = int (length (lock_queue ?sid s)) - 1"
      by (cases "lock_queue ?sid s") simp_all
    with ok in_q show "count_of (sc_inflight (depart t s)) i = int (length (lock_queue i (depart t s)))"
      by (auto simp: sched_ok_def inflight_ok_def depart_view q length_remove1 of_nat_diff)
  qed
  moreover have "queued_ok (depart t s)"
    using ok queued_ok_cong [of "depart t s" s] by (simp add: sched_ok_def depart_view)
  moreover have "answers_ok (depart t s)"
  proof -
    have "answer_due (depart t s) rid = answer_due (set_phase t Done s) rid" for rid
      by (rule answer_due_cong) (simp_all add: depart_view)
    then show ?thesis
      using ok answer_due_set_phase [OF len, of _ Done] ans
      by (auto simp: sched_ok_def answers_ok_def depart_view)
  qed
  ultimately show ?thesis by (simp add: sched_ok_def)
qed

lemma sched_ok_inject_all: "sched_ok s \<Longrightarrow> sched_ok (fold inject_turn rs s)"
  by (induction rs arbitrary: s) (simp_all add: inject_turn_def sched_ok_enqueue)

lemma sched_ok_leave:
  assumes "sched_ok s" and "at_lock s t"
    and "awaited (sc_bus s) (kr_request_id (tk_request (sc_tasks s ! t))) \<Longrightarrow>
      unanswered_end (sc_tasks s ! t)"
  shows "sched_ok (leave nts t s)"
  using sched_ok_depart [OF assms] by (simp add: leave_def Let_def sched_ok_inject_all)

lemma inject_all_frame [simp]:
  "sc_tasks (fold inject_turn rs s) = sc_tasks s" "sc_bus (fold inject_turn rs s) = sc_bus s"
  by (induction rs arbitrary: s) (simp_all add: inject_turn_def)

lemma inject_all_queue: "sc_queue (fold inject_turn rs s) = sc_queue s @ rs"
  by (induction rs arbitrary: s) (simp_all add: inject_turn_def)

lemma leave_view:
  "sc_tasks (leave nts t s) = sc_tasks (set_phase t Done s)" "sc_bus (leave nts t s) = sc_bus s"
  "set (sc_queue (leave nts t s)) \<subseteq> set (sc_queue s) \<union> set nts"
  by (auto simp: leave_def Let_def depart_view inject_all_queue)

text \<open>The operations on tasks.\<close>

lemma sched_ok_begin:
  assumes ok: "sched_ok s" and t: "t < length (sc_tasks s)" "tk_phase (sc_tasks s ! t) = Created"
    and sup: "\<And>r. suppressed r \<Longrightarrow> strip (kr_frontend_id r) = ''subagent''"
  shows "sched_ok (begin_task suppressed t s)"
proof -
  let ?r = "tk_request (sc_tasks s ! t)"
  let ?sid = "kr_session_id ?r"
  have nl: "\<not> at_lock s t" using t(2) by (simp add: at_lock_def)
  consider (cancelled) "?sid \<in> sc_cancelled s" | (suppressed) "?sid \<notin> sc_cancelled s" "suppressed ?r"
    | (run) "?sid \<notin> sc_cancelled s" "\<not> suppressed ?r" by blast
  then show ?thesis
  proof cases
    case cancelled
    let ?s = "finalize_wake ?r False (maybe_clear_cancelled ?sid (refuse ?r ''session cancelled before dispatch'' s))"
    have "sched_ok ?s" using ok by (simp add: sched_ok_refuse)
    moreover have "\<not> awaited (sc_bus ?s) (kr_request_id ?r)" using settled_refuse [OF ok] by simp
    ultimately have "sched_ok (set_phase t Done ?s)"
      using t(1) nl at_lock_cong [of ?s s t] by (intro sched_ok_end_early) simp_all
    with cancelled show ?thesis by (simp add: begin_task_def Let_def)
  next
    case suppressed
    have "sched_ok (set_phase t Done (finalize_wake ?r False s))"
      using ok t(1) nl sup [OF suppressed(2)] at_lock_cong [of "finalize_wake ?r False s" s t]
      by (intro sched_ok_end_early) (simp_all add: unanswered_end_def)
    with suppressed show ?thesis by (simp add: begin_task_def Let_def)
  next
    case run
    have "sched_ok (maybe_wake_inbox ?r s)" using ok by simp
    from sched_ok_join [OF this _ _ _ refl, of t ?sid] run show ?thesis
      using t(1) nl at_lock_cong [of "maybe_wake_inbox ?r s" s t]
      by (simp add: begin_task_def Let_def task_session_def)
  qed
qed

lemma sched_ok_grant:
  assumes ok: "sched_ok s" and t: "t < length (sc_tasks s)" "tk_phase (sc_tasks s ! t) = Waiting"
    and h: "hd (lock_queue (task_session t s) s) = t"
  shows "sched_ok (grant_lock t s)"
proof -
  have "at_lock (grant_lock t s) i = at_lock s i" for i
    using t by (auto simp: grant_lock_def at_lock_set_phase) (simp add: at_lock_def)
  moreover have "at_lock s i \<Longrightarrow> task_session i (grant_lock t s) = task_session i s
      \<and> tk_phase (sc_tasks (grant_lock t s) ! i) = (if i = t then Running else tk_phase (sc_tasks s ! i))" for i
    by (simp add: grant_lock_def at_lock_def set_phase_nth)
  ultimately have "locks_ok (grant_lock t s)"
    using ok h by (auto simp: sched_ok_def locks_ok_def grant_lock_def)
  moreover have "inflight_ok (grant_lock t s)" "queued_ok (grant_lock t s)"
    using ok inflight_ok_cong [of "grant_lock t s" s] queued_ok_cong [of "grant_lock t s" s]
    by (simp_all add: sched_ok_def grant_lock_def)
  moreover have "answers_ok (grant_lock t s)"
    using ok answer_due_set_phase [OF t(1), of _ Running] by (auto simp: sched_ok_def answers_ok_def grant_lock_def)
  ultimately show ?thesis by (simp add: sched_ok_def)
qed

lemma sched_ok_finish:
  assumes ok: "sched_ok s" and t: "t < length (sc_tasks s)" "tk_phase (sc_tasks s ! t) = Running"
  shows "sched_ok (finish_ok nts t res s)" and "sched_ok (finish_error nts t detail s)"
proof -
  let ?r = "tk_request (sc_tasks s ! t)"
  have al: "at_lock s t" using t by (simp add: at_lock_def)
  have pub: "sched_ok (leave nts t (finalize_wake ?r c (publish_result ?r x s)))" for c x
    using sched_ok_publish [OF ok, of ?r x] settled_publish [OF ok, of ?r x] al
      at_lock_cong [of "finalize_wake ?r c (publish_result ?r x s)" s t]
    by (intro sched_ok_leave) simp_all
  have ref: "sched_ok (leave nts t (finalize_wake ?r c (refuse ?r w s)))" for c w
    using sched_ok_refuse [OF ok, of ?r w] settled_refuse [OF ok, of ?r w] al
      at_lock_cong [of "finalize_wake ?r c (refuse ?r w s)" s t]
    by (intro sched_ok_leave) simp_all
  show "sched_ok (finish_ok nts t res s)" using pub by (simp add: finish_ok_def Let_def)
  show "sched_ok (finish_error nts t detail s)" using pub ref by (simp add: finish_error_def Let_def)
qed

lemma sched_ok_task_cancelled:
  assumes ok: "sched_ok s" and t: "t < length (sc_tasks s)" "tk_cancel (sc_tasks s ! t)"
  shows "sched_ok (task_cancelled nts t s)"
proof (cases "tk_phase (sc_tasks s ! t)")
  case Created
  with ok t have "sched_ok (set_phase t Done s)"
    by (intro sched_ok_end_early) (simp_all add: at_lock_def unanswered_end_def)
  with Created show ?thesis by (simp add: task_cancelled_def)
next
  case Waiting
  with ok t have "sched_ok (leave nts t s)"
    by (intro sched_ok_leave) (simp_all add: at_lock_def unanswered_end_def)
  with Waiting show ?thesis by (simp add: task_cancelled_def)
next
  case Running
  let ?r = "tk_request (sc_tasks s ! t)"
  let ?s = "finalize_wake ?r False (refuse ?r ''kernel task cancelled'' s)"
  have "sched_ok (leave nts t ?s)"
    using sched_ok_refuse [OF ok, of ?r] settled_refuse [OF ok, of ?r] t Running at_lock_cong [of ?s s t]
    by (intro sched_ok_leave) (simp_all add: at_lock_def)
  with Running show ?thesis by (simp add: task_cancelled_def Let_def)
qed (use ok in \<open>simp add: task_cancelled_def\<close>)

section \<open>Reachable states\<close>

text \<open>
  One step of the scheduler or of somebody that calls it. \<open>wait_ok\<close> and \<open>reaped\<close> are
  whatever the core pool answers at that moment; the results, errors and identifiers are
  arbitrary.
\<close>

inductive sched_step :: "'c sched \<Rightarrow> 'c sched \<Rightarrow> bool" where
  step_submit: "sched_step s (submit r s)"
| step_inject: "sched_step s (inject_turn r s)"
| step_dispatch: "dispatch s = Some (r, s') \<Longrightarrow> sched_step s s'"
| step_begin: "t < length (sc_tasks s) \<Longrightarrow> tk_phase (sc_tasks s ! t) = Created \<Longrightarrow>
    \<not> tk_cancel (sc_tasks s ! t) \<Longrightarrow> sched_step s (begin_task (suppress_notify line wait_ok reaped) t s)"
| step_grant: "t < length (sc_tasks s) \<Longrightarrow> tk_phase (sc_tasks s ! t) = Waiting \<Longrightarrow>
    \<not> tk_cancel (sc_tasks s ! t) \<Longrightarrow> hd (lock_queue (task_session t s) s) = t \<Longrightarrow>
    sched_step s (grant_lock t s)"
| step_finish: "t < length (sc_tasks s) \<Longrightarrow> tk_phase (sc_tasks s ! t) = Running \<Longrightarrow>
    sched_step s (finish_ok nts t res s)"
| step_error: "t < length (sc_tasks s) \<Longrightarrow> tk_phase (sc_tasks s ! t) = Running \<Longrightarrow>
    sched_step s (finish_error nts t detail s)"
| step_cancelled: "t < length (sc_tasks s) \<Longrightarrow> tk_cancel (sc_tasks s ! t) \<Longrightarrow>
    sched_step s (task_cancelled nts t s)"
| step_callback: "t < length (sc_tasks s) \<Longrightarrow> tk_phase (sc_tasks s ! t) = Done \<Longrightarrow>
    sched_step s (done_callback t s)"
| step_cancel: "sched_step s (snd (cancel_session_tasks sid s))"
| step_cancel_timeout: "sched_step s (cancel_wait_timeout sid s)"
| step_wait_timeout: "sched_step s (s\<lparr>sc_bus := wait_timed_out rid (sc_bus s)\<rparr>)"
| step_subscribe: "sched_step s (s\<lparr>sc_bus := subscribe sub sid cb (sc_bus s)\<rparr>)"
| step_unsubscribe: "sched_step s (s\<lparr>sc_bus := unsubscribe sid sub (sc_bus s)\<rparr>)"
| step_p2p: "sched_step s (s\<lparr>sc_p2p := w\<rparr>)"
| step_terminal: "sched_step s (s\<lparr>sc_terminal := w'\<rparr>)"
| step_inbox: "sched_step s (s\<lparr>sc_inbox := w''\<rparr>)"

inductive sched_reach :: "'c sched \<Rightarrow> bool" where
  reach_new: "sched_reach new_sched"
| reach_step: "sched_reach s \<Longrightarrow> sched_step s s' \<Longrightarrow> sched_reach s'"

inductive_cases sched_stepE: "sched_step s s'"

lemma sched_ok_new: "sched_ok new_sched"
  by (simp add: sched_ok_def locks_ok_def inflight_ok_def queued_ok_def answers_ok_def at_lock_def
      lock_queue_def new_sched_def count_of_def awaited_def waiting_def no_waiters_def new_bus_def bus_ok_def
      waiters_ok_def)

lemma suppress_subagent: "suppress_notify line w rp r \<Longrightarrow> strip (kr_frontend_id r) = ''subagent''"
  by (simp add: suppress_notify_def split: if_splits)

text \<open>A cancellation only raises flags.\<close>

lemma sched_ok_cancel: "sched_ok s \<Longrightarrow> sched_ok (snd (cancel_session_tasks sid s))"
proof -
  assume ok: "sched_ok s"
  let ?s = "snd (cancel_session_tasks sid s)"
  have nth: "i < length (sc_tasks s) \<Longrightarrow> tk_request (sc_tasks ?s ! i) = tk_request (sc_tasks s ! i)
      \<and> tk_phase (sc_tasks ?s ! i) = tk_phase (sc_tasks s ! i)
      \<and> (tk_cancel (sc_tasks s ! i) \<longrightarrow> tk_cancel (sc_tasks ?s ! i))" for i
    by (simp add: cancel_session_tasks_def Let_def)
  have len: "length (sc_tasks ?s) = length (sc_tasks s)" by (simp add: cancel_session_tasks_def Let_def)
  have "at_lock ?s i = at_lock s i" for i using nth [of i] len by (auto simp: at_lock_def)
  moreover have "at_lock s i \<Longrightarrow> task_session i ?s = task_session i s
      \<and> tk_phase (sc_tasks ?s ! i) = tk_phase (sc_tasks s ! i)" for i
    using nth [of i] by (simp add: at_lock_def task_session_def)
  moreover have "lock_queue i ?s = lock_queue i s" for i
    by (rule lock_queue_cong) (simp add: cancel_session_tasks_def Let_def)
  ultimately have "locks_ok ?s" using ok by (auto simp: sched_ok_def locks_ok_def)
  moreover have "inflight_ok ?s" "queued_ok ?s"
    using ok inflight_ok_cong [of ?s s] queued_ok_cong [of ?s s]
    by (simp_all add: sched_ok_def cancel_session_tasks_def Let_def)
  moreover have "answers_ok ?s"
  proof -
    have "answer_due ?s rid" if due: "answer_due s rid" for rid
    proof (cases "\<exists>r \<in> set (sc_queue s). kr_request_id r = rid")
      case True
      then show ?thesis by (simp add: answer_due_def cancel_session_tasks_def Let_def)
    next
      case False
      then obtain i where "i < length (sc_tasks s)" "kr_request_id (tk_request (sc_tasks s ! i)) = rid"
        "tk_phase (sc_tasks s ! i) \<noteq> Done \<or> unanswered_end (sc_tasks s ! i)"
        using due by (auto simp: answer_due_def in_tasks)
      with nth [of i] len show ?thesis
        unfolding answer_due_def unanswered_end_def by (metis nth_mem)
    qed
    then show ?thesis
      using ok by (simp add: sched_ok_def answers_ok_def cancel_session_tasks_def Let_def)
  qed
  ultimately show ?thesis by (simp add: sched_ok_def)
qed

lemma sched_step_ok: "sched_step s s' \<Longrightarrow> sched_ok s \<Longrightarrow> sched_ok s'"
proof (induction rule: sched_step.induct)
  case (step_begin t s line wait_ok reaped)
  then show ?case using suppress_subagent by (intro sched_ok_begin) auto
next
  case (step_callback t s)
  then show ?case by (simp add: done_callback_def Let_def)
next
  case (step_cancel_timeout s sid)
  then show ?case by (simp add: cancel_wait_timeout_def)
next
  case (step_wait_timeout s rid)
  then show ?case
    by (intro sched_ok_bus) (simp_all add: bus_ok_ops sched_bus_ok awaited_timeout)
next
  case (step_subscribe s sub sid cb)
  then show ?case by (intro sched_ok_bus) (simp_all add: bus_ok_subscribe sched_bus_ok)
next
  case (step_unsubscribe s sid sub)
  then show ?case by (intro sched_ok_bus) (simp_all add: bus_ok_unsubscribe sched_bus_ok)
next
  case (step_p2p s w)
  then show ?case using sched_ok_cong [of "s\<lparr>sc_p2p := w\<rparr>" s] by simp
next
  case (step_terminal s w)
  then show ?case using sched_ok_cong [of "s\<lparr>sc_terminal := w\<rparr>" s] by simp
next
  case (step_inbox s w)
  then show ?case using sched_ok_cong [of "s\<lparr>sc_inbox := w\<rparr>" s] by simp
qed (simp_all add: sched_ok_submit inject_turn_def sched_ok_enqueue sched_ok_dispatch sched_ok_grant
    sched_ok_finish sched_ok_task_cancelled sched_ok_cancel)

lemma sched_reach_ok: "sched_reach s \<Longrightarrow> sched_ok s"
  by (induction rule: sched_reach.induct) (simp_all add: sched_ok_new sched_step_ok)

text \<open>The input queue is a work queue ranked by \<open>request_key\<close>.\<close>

interpretation input: work_queue "\<lambda>_. True" "\<lambda>s. mset (sc_queue s)" queue_get request_key_of
proof
  fix s :: "'c sched"
  show "queue_get s = None \<longleftrightarrow> mset (sc_queue s) = {#}"
    by (auto simp: queue_get_def split: option.split)
  fix r s'
  assume g: "queue_get s = Some (r, s')"
  note q = queue_get_Some [OF g]
  show "mset (sc_queue s) = add_mset r (mset (sc_queue s'))" using q(1,2) by simp
  show "request_key_of r \<le> request_key_of y" if "y \<in># mset (sc_queue s)" for y
    using q(3) that by simp
qed simp

lemma locks_part: "sched_ok s \<Longrightarrow> set (lock_queue sid s) = {t. at_lock s t \<and> task_session t s = sid}
    \<and> distinct (lock_queue sid s)
    \<and> (\<forall>t \<in> set (lock_queue sid s). tk_phase (sc_tasks s ! t) = Running \<longrightarrow> t = hd (lock_queue sid s))"
  by (simp add: sched_ok_def locks_ok_def)

lemma inflight_card:
  assumes "sched_ok s"
  shows "inflight_count sid s = int (card {t. at_lock s t \<and> task_session t s = sid})"
  using locks_part [OF assms, of sid] assms
  by (metis distinct_card inflight_count_def inflight_ok_def sched_ok_def)

lemma queued_idle:
  "sched_ok s \<Longrightarrow> sid \<noteq> [] \<Longrightarrow> (\<forall>r \<in> set (sc_queue s). strip (kr_session_id r) \<noteq> sid) \<Longrightarrow>
     count_of (sc_queued s) sid = 0"
  by (simp add: sched_ok_def queued_ok_def filter_empty_conv)

section \<open>Properties\<close>

text \<open>C3: In every state the scheduler can reach, whatever is submitted, cancelled or fails: a session
  has at most one running request; the counter of requests in flight is exactly the number of
  its dispatched requests that run or wait for the session lock; the counter of queued requests
  is exact; and the idle scan never offers a session with such a request for eviction.\<close>

theorem session_requests_serial:
  assumes "sched_reach s"
  shows "(\<forall>t u. t < length (sc_tasks s) \<and> u < length (sc_tasks s)
        \<and> tk_phase (sc_tasks s ! t) = Running \<and> tk_phase (sc_tasks s ! u) = Running
        \<and> task_session t s = task_session u s \<longrightarrow> t = u)
    \<and> inflight_count sid s = int (card {t. at_lock s t \<and> task_session t s = sid})
    \<and> (sid \<noteq> [] \<longrightarrow> count_of (sc_queued s) sid
          = int (length (filter (\<lambda>r. strip (kr_session_id r) = sid) (sc_queue s))))
    \<and> (\<forall>t. at_lock s t \<longrightarrow> task_session t s \<notin> set (evictable expired s))"
proof -
  note ok = sched_reach_ok [OF assms]
  have run: "t = hd (lock_queue (task_session t s) s)"
    if "t < length (sc_tasks s)" "tk_phase (sc_tasks s ! t) = Running" for t
    using locks_part [OF ok, of "task_session t s"] that by (auto simp: at_lock_def)
  have "task_session t s \<notin> set (evictable expired s)" if "at_lock s t" for t
  proof -
    have "t \<in> set (lock_queue (task_session t s) s)" using locks_part [OF ok] that by simp
    then have "length (lock_queue (task_session t s) s) > 0" by auto
    with ok have "inflight_count (task_session t s) s > 0"
      by (simp add: inflight_count_def sched_ok_def inflight_ok_def)
    then show ?thesis by (simp add: evictable_def)
  qed
  moreover have "\<forall>t u. t < length (sc_tasks s) \<and> u < length (sc_tasks s)
        \<and> tk_phase (sc_tasks s ! t) = Running \<and> tk_phase (sc_tasks s ! u) = Running
        \<and> task_session t s = task_session u s \<longrightarrow> t = u"
    using run by metis
  moreover have "sid \<noteq> [] \<longrightarrow> count_of (sc_queued s) sid
      = int (length (filter (\<lambda>r. strip (kr_session_id r) = sid) (sc_queue s)))"
    using ok by (simp add: sched_ok_def queued_ok_def)
  ultimately show ?thesis using inflight_card [OF ok] by blast
qed

text \<open>C5: No answer is lost but in two ways. In every reachable state, a caller that awaits a request
  and has no answer yet awaits one that is still in the queue, or has a task that has not ended,
  or has a task that ended because it was cancelled or because it carried a subagent
  notification that was suppressed.\<close>

theorem awaited_answer_is_due:
  assumes "sched_reach s" and "awaited (sc_bus s) rid"
  shows "(\<exists>r \<in> set (sc_queue s). kr_request_id r = rid)
    \<or> (\<exists>k \<in> set (sc_tasks s). kr_request_id (tk_request k) = rid
         \<and> (tk_phase k \<noteq> Done \<or> tk_cancel k \<or> strip (kr_frontend_id (tk_request k)) = ''subagent''))"
  using sched_reach_ok [OF assms(1)] assms(2)
  by (auto simp: sched_ok_def answers_ok_def answer_due_def unanswered_end_def)

text \<open>Cancelling a session leaves the callers of its waiting requests without any answer. A
  cancelled task that still waits for the session lock (or has not started) ends without a word
  to the bus: its caller still awaits, and when no other request has its id, nothing is left in
  the scheduler that could answer.\<close>

theorem cancelled_while_waiting_unanswered:
  assumes "sched_reach s" and "t < length (sc_tasks s)"
    and "tk_phase (sc_tasks s ! t) = Waiting \<or> tk_phase (sc_tasks s ! t) = Created"
    and "rid = kr_request_id (tk_request (sc_tasks s ! t))" and "awaited (sc_bus s) rid"
    and "\<forall>r \<in> set (sc_queue s) \<union> set nts. kr_request_id r \<noteq> rid"
    and "\<forall>u < length (sc_tasks s). u \<noteq> t \<longrightarrow> kr_request_id (tk_request (sc_tasks s ! u)) \<noteq> rid"
  shows "awaited (sc_bus (task_cancelled nts t s)) rid
    \<and> (\<forall>r \<in> set (sc_queue (task_cancelled nts t s)). kr_request_id r \<noteq> rid)
    \<and> (\<forall>k \<in> set (sc_tasks (task_cancelled nts t s)). kr_request_id (tk_request k) = rid \<longrightarrow> tk_phase k = Done)"
proof -
  have view: "sc_bus (task_cancelled nts t s) = sc_bus s"
    "set (sc_queue (task_cancelled nts t s)) \<subseteq> set (sc_queue s) \<union> set nts"
    "sc_tasks (task_cancelled nts t s) = sc_tasks (set_phase t Done s)"
    using assms(3) leave_view [of nts t s] by (auto simp: task_cancelled_def Let_def)
  have "tk_phase k = Done" if k: "k \<in> set (sc_tasks (set_phase t Done s))" "kr_request_id (tk_request k) = rid" for k
  proof -
    obtain u where u: "u < length (sc_tasks s)" "sc_tasks (set_phase t Done s) ! u = k"
      using k(1) by (auto simp: in_tasks)
    with k(2) assms(4,7) have "u = t" by (auto simp: set_phase_nth split: if_splits)
    with u show ?thesis by (auto simp: set_phase_nth)
  qed
  with assms(5,6) view(2) show ?thesis by (auto simp: view(1,3))
qed

text \<open>Cancelling an idle session refuses the next request. When nothing of a session runs or is
  queued, the cancel mark stays, and the first request submitted afterwards is answered with an
  error and never gets a task.\<close>

theorem cancel_idle_refuses_next:
  assumes "sched_reach s" and "active_tasks (kr_session_id r) s = []" and "sc_queue s = []"
  shows "\<exists>s'. dispatch (submit r (snd (cancel_session_tasks (kr_session_id r) s))) = Some (r, s')
    \<and> sc_tasks s' = sc_tasks s \<and> \<not> awaited (sc_bus s') (kr_request_id r) \<and> sc_queue s' = []"
proof -
  let ?sid = "kr_session_id r"
  let ?c = "snd (cancel_session_tasks ?sid s)"
  have "k \<in> set (sc_tasks s) \<Longrightarrow> \<not> (kr_session_id (tk_request k) = ?sid \<and> tk_phase k \<noteq> Done)" for k
    using assms(2) by (auto simp: active_tasks_def filter_empty_conv task_session_def in_set_conv_nth)
  then have tasks: "sc_tasks ?c = sc_tasks s"
    by (auto simp: cancel_session_tasks_def Let_def intro!: map_idI)
  have q: "sc_queue (submit r ?c) = [r]" "sc_tasks (submit r ?c) = sc_tasks s"
    "?sid \<in> sc_cancelled (submit r ?c)"
    using assms(3) tasks by (simp_all add: submit_def) (simp_all add: cancel_session_tasks_def Let_def)
  have "bus_ok (sc_bus (submit r ?c))"
    using sched_reach_ok [OF assms(1)] by (simp add: sched_ok_submit sched_ok_cancel sched_bus_ok)
  with q show ?thesis
    by (simp add: dispatch_def queue_get_def Let_def awaited_settled)
qed


section \<open>Witnesses\<close>

definition demo_request :: "str \<Rightarrow> kernel_request" where
  "demo_request rid = create_request 0 rid ''hi'' ''cli:root'' ''cli'' 0 None None None None"

text \<open>Two requests of one session: the first runs, the second waits for the lock.\<close>

definition demo_queued :: "nat sched" where
  "demo_queued = submit (demo_request ''b'') (submit (demo_request ''a'') new_sched)"

definition demo_begin :: "nat \<Rightarrow> nat sched \<Rightarrow> nat sched" where
  "demo_begin = begin_task (suppress_notify (\<lambda>_. None) (\<lambda>_. False) (\<lambda>_. False))"

definition demo_dispatched :: "nat sched" where
  "demo_dispatched =
     (case dispatch demo_queued of
        None \<Rightarrow> demo_queued
      | Some (_, s1) \<Rightarrow> (case dispatch s1 of None \<Rightarrow> s1 | Some (_, s2) \<Rightarrow> s2))"

definition demo_contended :: "nat sched" where
  "demo_contended = demo_begin 1 (demo_begin 0 demo_dispatched)"

lemma demo_sid: "strip ''cli:root'' = ''cli:root''" "strip ''cli'' = ''cli''"
  by (simp_all add: strip_id_iff_ends is_space_def)

lemma demo_request_fields:
  "kr_session_id (demo_request i) = ''cli:root''" "kr_request_id (demo_request i) = str_or [] i"
  "kr_frontend_id (demo_request i) = ''cli''" "kr_metadata (demo_request i) = []"
  "kr_envelope (demo_request i) = None"
  "request_key_of (demo_request i) = RequestKey 0 0 i"
  by (simp_all add: demo_request_def create_request_def request_key_of_def)

lemma demo_key_le: "RequestKey 0 0 ''a'' \<le> RequestKey 0 0 ''b''" "demo_request ''a'' \<noteq> demo_request ''b''"
  by (simp_all add: less_eq_request_key_def less_request_key_def demo_request_def create_request_def)

lemma demo_dispatch:
  "\<exists>s1. dispatch demo_queued = Some (demo_request ''a'', s1)
     \<and> dispatch s1 = Some (demo_request ''b'', demo_dispatched)"
  "sc_tasks demo_dispatched =
     [\<lparr>tk_request = demo_request ''a'', tk_phase = Created, tk_cancel = False\<rparr>,
      \<lparr>tk_request = demo_request ''b'', tk_phase = Created, tk_cancel = False\<rparr>]"
  "sc_cancelled demo_dispatched = {}" "sc_locks demo_dispatched = []" "sc_queue demo_dispatched = []"
  "awaited (sc_bus demo_dispatched) ''b''"
  using demo_key_le
  by (simp_all add: demo_dispatched_def demo_queued_def dispatch_def queue_get_def submit_def enqueue_def
      track_enqueue_def track_dequeue_def new_sched_def demo_request_fields Let_def demo_sid
      awaited_def register_waiter_def add_wait_waiting new_bus_def)

lemma demo_dispatched_reach: "sched_reach demo_dispatched"
proof -
  obtain s1 where "dispatch demo_queued = Some (demo_request ''a'', s1)"
    "dispatch s1 = Some (demo_request ''b'', demo_dispatched)" using demo_dispatch(1) by blast
  moreover have "sched_reach demo_queued"
    unfolding demo_queued_def
    by (rule reach_step [OF reach_step [OF reach_new step_submit] step_submit])
  ultimately show ?thesis by (meson reach_step step_dispatch)
qed

lemma demo_begin_eq:
  assumes "t < length (sc_tasks s)" and "tk_request (sc_tasks s ! t) = demo_request i" and "sc_cancelled s = {}"
  shows "sc_tasks (demo_begin t s) = (sc_tasks s)[t := (sc_tasks s ! t)\<lparr>tk_phase :=
      (if lock_queue ''cli:root'' s = [] then Running else Waiting)\<rparr>]"
    and "lock_queue ''cli:root'' (demo_begin t s) = lock_queue ''cli:root'' s @ [t]"
    and "sc_cancelled (demo_begin t s) = {}" and "sc_queue (demo_begin t s) = sc_queue s"
    and "sc_bus (demo_begin t s) = sc_bus s"
proof -
  have sup: "suppress_notify (\<lambda>_. None) (\<lambda>_. False) (\<lambda>_. False) (demo_request i) = False"
    by (simp add: suppress_notify_def demo_request_fields demo_sid)
  have inb: "maybe_wake_inbox (demo_request i) s = s"
    by (simp add: maybe_wake_inbox_def demo_request_fields demo_sid p2p_tag_def)
  note eqs = assms sup inb demo_request_fields
  show "sc_tasks (demo_begin t s) = (sc_tasks s)[t := (sc_tasks s ! t)\<lparr>tk_phase :=
      (if lock_queue ''cli:root'' s = [] then Running else Waiting)\<rparr>]"
    by (simp add: demo_begin_def begin_task_def Let_def eqs join_lock_def set_phase_def lock_queue_def)
  show "lock_queue ''cli:root'' (demo_begin t s) = lock_queue ''cli:root'' s @ [t]"
    by (simp add: demo_begin_def begin_task_def Let_def eqs join_lock_def) (simp add: lock_queue_def)
  show "sc_cancelled (demo_begin t s) = {}" "sc_queue (demo_begin t s) = sc_queue s"
    "sc_bus (demo_begin t s) = sc_bus s"
    by (simp_all add: demo_begin_def begin_task_def Let_def eqs join_lock_def)
qed

lemma demo_contended:
  "sc_tasks demo_contended =
     [\<lparr>tk_request = demo_request ''a'', tk_phase = Running, tk_cancel = False\<rparr>,
      \<lparr>tk_request = demo_request ''b'', tk_phase = Waiting, tk_cancel = False\<rparr>]"
  "sc_queue demo_contended = []" "sc_bus demo_contended = sc_bus demo_dispatched"
proof -
  have lq: "lock_queue ''cli:root'' demo_dispatched = []" by (simp add: lock_queue_def demo_dispatch)
  note first = demo_begin_eq [of 0 demo_dispatched "''a''"]
  note second = demo_begin_eq [of 1 "demo_begin 0 demo_dispatched" "''b''"]
  show "sc_tasks demo_contended =
     [\<lparr>tk_request = demo_request ''a'', tk_phase = Running, tk_cancel = False\<rparr>,
      \<lparr>tk_request = demo_request ''b'', tk_phase = Waiting, tk_cancel = False\<rparr>]"
    "sc_queue demo_contended = []" "sc_bus demo_contended = sc_bus demo_dispatched"
    using first second by (simp_all add: demo_contended_def demo_dispatch lq)
qed

lemma demo_contended_reach: "sched_reach demo_contended"
proof -
  have "sched_reach (demo_begin 0 demo_dispatched)"
    unfolding demo_begin_def
    by (rule reach_step [OF demo_dispatched_reach], rule step_begin) (simp_all add: demo_dispatch)
  then show ?thesis
    unfolding demo_contended_def demo_begin_def
    by (rule reach_step, intro step_begin)
      (use demo_begin_eq(1) [of 0 demo_dispatched "''a''"] in
        \<open>simp_all add: demo_dispatch demo_begin_def [symmetric]\<close>)
qed

lemma session_requests_serial_witness:
  "sched_reach demo_contended
   \<and> inflight_count ''cli:root'' demo_contended
      = int (card {t. at_lock demo_contended t \<and> task_session t demo_contended = ''cli:root''})"
  using session_requests_serial [OF demo_contended_reach, of "''cli:root''"] demo_contended_reach by blast

lemma awaited_answer_is_due_witness:
  "awaited (sc_bus demo_contended) ''b''
   \<and> (\<exists>k \<in> set (sc_tasks demo_contended). kr_request_id (tk_request k) = ''b'')"
proof -
  have aw: "awaited (sc_bus demo_contended) ''b''" by (simp add: demo_contended demo_dispatch)
  with awaited_answer_is_due [OF demo_contended_reach aw] show ?thesis by (auto simp: demo_contended(2))
qed

lemma cancelled_while_waiting_unanswered_witness:
  "let s = snd (cancel_session_tasks ''cli:root'' demo_contended)
   in tk_cancel (sc_tasks s ! 1) \<and> awaited (sc_bus (task_cancelled [] 1 s)) ''b''"
proof -
  let ?s = "snd (cancel_session_tasks ''cli:root'' demo_contended)"
  have reach: "sched_reach ?s" by (rule reach_step [OF demo_contended_reach step_cancel])
  have tasks: "sc_tasks ?s =
     [\<lparr>tk_request = demo_request ''a'', tk_phase = Running, tk_cancel = True\<rparr>,
      \<lparr>tk_request = demo_request ''b'', tk_phase = Waiting, tk_cancel = True\<rparr>]"
    "sc_queue ?s = []" "awaited (sc_bus ?s) ''b''"
    by (simp_all add: cancel_session_tasks_def Let_def demo_contended demo_request_fields demo_dispatch)
  have other: "\<forall>u < length (sc_tasks ?s). u \<noteq> 1 \<longrightarrow> kr_request_id (tk_request (sc_tasks ?s ! u)) \<noteq> ''b''"
    unfolding tasks(1) by (simp add: less_Suc_eq demo_request_fields)
  have t: "1 < length (sc_tasks ?s)" "tk_phase (sc_tasks ?s ! 1) = Waiting \<or> tk_phase (sc_tasks ?s ! 1) = Created"
    "''b'' = kr_request_id (tk_request (sc_tasks ?s ! 1))" "\<forall>r \<in> set (sc_queue ?s) \<union> set []. kr_request_id r \<noteq> ''b''"
    "tk_cancel (sc_tasks ?s ! 1)"
    unfolding tasks(1,2) by (simp_all add: demo_request_fields)
  from cancelled_while_waiting_unanswered [OF reach t(1-3) tasks(3) t(4) other] t(5)
  show ?thesis unfolding Let_def by blast
qed

lemma cancel_idle_refuses_next_witness:
  "\<exists>s'. dispatch (submit (demo_request ''a'') (snd (cancel_session_tasks ''cli:root'' new_sched)))
       = Some (demo_request ''a'', s') \<and> sc_tasks s' = [] \<and> \<not> awaited (sc_bus s') ''a''"
  using cancel_idle_refuses_next [OF reach_new, of "demo_request ''a''"]
  by (auto simp: demo_request_fields active_tasks_def new_sched_def)


end
