(* ===== verification/Checkpoints.thy ===== *)
theory Checkpoints
  imports Goals Core_Profile Owners
begin

text \<open>
  Session checkpoints (\<open>agent_core/agent/checkpoint.py\<close>) and the two decisions the core
  pool takes on them (\<open>system/kernel/core_pool.py\<close>): what the kernel's start does with every
  checkpoint on disk (\<open>restore_from_checkpoints\<close>), and whether a core that is loaded resumes
  or starts cold (\<open>_load\<close>).

  A checkpoint file is missing, unreadable, or holds a checkpoint; the JSON encoding is the
  library's. The core profile inside a checkpoint is kept as a decoded profile.
\<close>

section \<open>The file\<close>

record checkpoint =
  ck_session_id :: str
  ck_owner_id :: str
  ck_source :: str
  ck_running_summary :: "str option"
  ck_recent_messages :: "pyval list"
  ck_last_active_at :: real
  ck_remaining_ttl :: real
  ck_turn_count :: int
  ck_last_history_id :: int
  ck_token_usage :: "(str, int) dict"
  ck_compression_round :: int
  ck_saved_at :: real
  ck_expired :: bool
  ck_core_profile :: "core_profile option"
  ck_active_goals :: "(str, pyval) dict list"

datatype checkpoint_file = NoFile | Unreadable | Holds checkpoint

definition ck_write :: "real \<Rightarrow> checkpoint \<Rightarrow> checkpoint_file" where
  "ck_write now c = Holds (c\<lparr>ck_saved_at := now\<rparr>)"

fun ck_read :: "checkpoint_file \<Rightarrow> checkpoint option" where
  "ck_read (Holds c) = Some c"
| "ck_read _ = None"

definition ck_mark_expired :: "real \<Rightarrow> checkpoint_file \<Rightarrow> checkpoint_file" where
  "ck_mark_expired now f =
     (case ck_read f of None \<Rightarrow> f | Some c \<Rightarrow> ck_write now (c\<lparr>ck_expired := True\<rparr>))"

definition ck_delete :: "checkpoint_file \<Rightarrow> checkpoint_file" where
  "ck_delete f = NoFile"

section \<open>Starting the kernel\<close>

text \<open>
  What is done with one checkpoint file. \<open>in_pool\<close>: the session is in the pool already;
  \<open>default_ttl\<close>: the configured session lifetime.
\<close>

datatype restore_action =
    LeaveFile
  | RemoveFile
  | MarkFile
  | AcquireSession str str str "core_profile option"

definition elapsed_since :: "real \<Rightarrow> checkpoint \<Rightarrow> real" where
  "elapsed_since shutdown_at c = max 0 (shutdown_at - ck_last_active_at c)"

definition restore_action_for :: "real \<Rightarrow> real \<Rightarrow> (str \<Rightarrow> bool) \<Rightarrow> checkpoint_file \<Rightarrow> restore_action" where
  "restore_action_for shutdown_at default_ttl in_pool f =
     (case ck_read f of
        None \<Rightarrow> LeaveFile
      | Some c \<Rightarrow>
          if ck_expired c
          then (if ck_active_goals c \<noteq> [] then LeaveFile else RemoveFile)
          else if ck_session_id c = [] \<or> startswith (ck_session_id c) ''cron:'' then LeaveFile
          else if in_pool (ck_session_id c) then LeaveFile
          else
            let ttl = (if ck_remaining_ttl c \<noteq> 0 then ck_remaining_ttl c else default_ttl)
            in if elapsed_since shutdown_at c \<ge> ttl \<and> ck_active_goals c = [] then MarkFile
               else AcquireSession (ck_session_id c) (ck_source c) (ck_owner_id c) (ck_core_profile c))"

definition apply_to_file :: "real \<Rightarrow> restore_action \<Rightarrow> checkpoint_file \<Rightarrow> checkpoint_file" where
  "apply_to_file now a f =
     (case a of RemoveFile \<Rightarrow> NoFile | MarkFile \<Rightarrow> ck_mark_expired now f | _ \<Rightarrow> f)"

section \<open>Loading a core\<close>

text \<open>How a core starts, and what becomes of the checkpoint file of its owner.\<close>

datatype core_start =
    ColdStart "(str, pyval) dict list"
  | Resume checkpoint real

definition uses_checkpoint :: "core_profile \<Rightarrow> str \<Rightarrow> bool" where
  "uses_checkpoint profile session_id \<longleftrightarrow>
     cp_memory_enabled profile \<and> cp_mode profile \<noteq> Background \<and> \<not> startswith session_id ''cron:''"

definition load_start ::
  "real \<Rightarrow> real option \<Rightarrow> core_profile \<Rightarrow> str \<Rightarrow> checkpoint_file \<Rightarrow> core_start \<times> checkpoint_file" where
  "load_start now shutdown_at profile session_id f =
     (if \<not> uses_checkpoint profile session_id then (ColdStart [], f)
      else (case ck_read f of
              None \<Rightarrow> (ColdStart [], f)
            | Some c \<Rightarrow>
                if ck_expired c then (ColdStart (ck_active_goals c), ck_delete f)
                else if ck_session_id c \<noteq> session_id then (ColdStart [], f)
                else (case shutdown_at of
                        None \<Rightarrow> (ColdStart [], f)
                      | Some sd \<Rightarrow>
                          let ttl = cp_session_expired_seconds profile;
                              elapsed = elapsed_since sd c;
                              pinned = (ck_active_goals c \<noteq> [])
                          in if elapsed \<ge> ttl \<and> \<not> pinned then (ColdStart [], ck_mark_expired now f)
                             else (Resume c (if pinned \<and> elapsed \<ge> ttl then min elapsed ttl else elapsed), f))))"

definition profile_for ::
  "tools_config \<Rightarrow> core_profile \<Rightarrow> core_profile \<Rightarrow> str \<Rightarrow> str \<Rightarrow> str \<Rightarrow> checkpoint_file
     \<Rightarrow> core_profile option \<Rightarrow> core_profile" where
  "profile_for cfg from_config plain session_id source user_id f given =
     (case given of
        Some p \<Rightarrow> p
      | None \<Rightarrow>
          let synthesized =
                (if startswith session_id ''sub:''
                 then default_sub cfg None None ''subagent'' (drop 4 session_id) None None None False ''default''
                 else if source = ''cli'' \<or> source = ''feishu''
                 then from_config\<lparr>cp_frontend_id := source, cp_dialog_window_id := user_id\<rparr>
                 else plain\<lparr>cp_frontend_id := source, cp_dialog_window_id := user_id\<rparr>)
          in if startswith session_id ''cron:'' then synthesized
             else (case ck_read f of
                     None \<Rightarrow> synthesized
                   | Some c \<Rightarrow>
                       if \<not> ck_expired c \<and> ck_session_id c = session_id
                       then (case ck_core_profile c of None \<Rightarrow> synthesized | Some p \<Rightarrow> p)
                       else synthesized))"

section \<open>Laws\<close>

lemma goals_pin_file:
  assumes "ck_read f = Some c" and "ck_active_goals c \<noteq> []"
  shows "ck_read (apply_to_file now (restore_action_for sd ttl in_pool f) f) = Some c"
  using assms by (simp add: restore_action_for_def apply_to_file_def Let_def)

lemma checkpoint_goals_nonempty: "to_checkpoint_data st \<noteq> [] \<longleftrightarrow> st \<noteq> []"
  by (simp add: to_checkpoint_data_def)

section \<open>Properties\<close>

text \<open>A kernel start never destroys a plan: a checkpoint with goals is neither removed nor marked
  expired, whatever its age; without goals, a file is removed exactly when it was marked expired
  before, and is marked exactly when its session is a restorable one that was idle at least its
  lifetime before the shutdown; every other restorable session that is not in the pool yet is
  acquired, under the owner and the profile of its checkpoint.\<close>

theorem restore_decision:
  assumes "ck_read f = Some c"
  shows "(ck_active_goals c \<noteq> [] \<longrightarrow>
        ck_read (apply_to_file now (restore_action_for sd ttl in_pool f) f) = Some c)
    \<and> (restore_action_for sd ttl in_pool f = RemoveFile \<longleftrightarrow> ck_expired c \<and> ck_active_goals c = [])
    \<and> (restore_action_for sd ttl in_pool f = MarkFile \<longleftrightarrow>
          \<not> ck_expired c \<and> ck_active_goals c = [] \<and> ck_session_id c \<noteq> []
          \<and> \<not> startswith (ck_session_id c) ''cron:'' \<and> \<not> in_pool (ck_session_id c)
          \<and> elapsed_since sd c \<ge> (if ck_remaining_ttl c \<noteq> 0 then ck_remaining_ttl c else ttl))
    \<and> (\<forall>sid src uid p. restore_action_for sd ttl in_pool f = AcquireSession sid src uid p \<longrightarrow>
          \<not> ck_expired c \<and> \<not> in_pool sid \<and> sid = ck_session_id c \<and> src = ck_source c
          \<and> uid = ck_owner_id c \<and> p = ck_core_profile c)"
  using goals_pin_file [OF assms] assms
  by (auto simp: restore_action_for_def Let_def split: if_splits)

text \<open>Resuming a core keeps its clock honest: a resumed session is not expired, matches the session
  asked for, and continues with the time that had passed when the kernel stopped, which is at
  least zero and below its lifetime, or exactly its lifetime when only its goals kept it; and no
  start of a core, cold or resumed, loses the goals of an expired checkpoint.\<close>

theorem load_start_effect:
  assumes "cp_session_expired_seconds profile > 0"
    and "load_start now shutdown_at profile sid f = (st, f')"
  shows "(\<forall>c t. st = Resume c t \<longrightarrow> ck_read f = Some c \<and> f' = f \<and> \<not> ck_expired c \<and> ck_session_id c = sid
        \<and> 0 \<le> t \<and> t \<le> cp_session_expired_seconds profile
        \<and> (ck_active_goals c = [] \<longrightarrow> t < cp_session_expired_seconds profile)
        \<and> (\<exists>sd. shutdown_at = Some sd \<and> t = min (elapsed_since sd c) (cp_session_expired_seconds profile)))
    \<and> (\<forall>c. ck_read f = Some c \<and> ck_expired c \<and> uses_checkpoint profile sid \<longrightarrow>
          st = ColdStart (ck_active_goals c) \<and> f' = NoFile)
    \<and> (\<not> uses_checkpoint profile sid \<longrightarrow> st = ColdStart [] \<and> f' = f)"
proof (cases "uses_checkpoint profile sid \<and> (\<exists>c. ck_read f = Some c)")
  case False
  with assms(2) show ?thesis by (auto simp: load_start_def split: option.splits if_splits)
next
  case True
  then obtain c where c: "ck_read f = Some c" and u: "uses_checkpoint profile sid" by blast
  consider (expired) "ck_expired c" | (other) "\<not> ck_expired c" "ck_session_id c \<noteq> sid \<or> shutdown_at = None"
    | (same) sd where "\<not> ck_expired c" "ck_session_id c = sid" "shutdown_at = Some sd" by (cases shutdown_at) auto
  then show ?thesis
  proof cases
    case expired
    with assms(2) c u show ?thesis by (auto simp: load_start_def ck_delete_def)
  next
    case other
    with assms(2) c u have "st = ColdStart [] \<and> f' = f"
      by (cases "ck_session_id c = sid") (auto simp: load_start_def)
    with other c u show ?thesis by auto
  next
    case same
    have "0 \<le> elapsed_since sd c" by (simp add: elapsed_since_def)
    moreover have "(st, f') = (if elapsed_since sd c \<ge> cp_session_expired_seconds profile \<and> ck_active_goals c = []
        then (ColdStart [], ck_mark_expired now f)
        else (Resume c (if ck_active_goals c \<noteq> [] \<and> elapsed_since sd c \<ge> cp_session_expired_seconds profile
                then min (elapsed_since sd c) (cp_session_expired_seconds profile) else elapsed_since sd c), f))"
      using same assms(2) c u by (simp add: load_start_def Let_def)
    ultimately show ?thesis
      using same c u assms(1) by (auto simp: min_def split: if_splits)
  qed
qed

text \<open>Finished goals pin a session like active ones. The checkpoint stores every goal of the
  session under the name of the active goals, so a session all of whose goals are completed or
  cancelled is restored at the next start although it had outlived its lifetime, and an
  expired checkpoint of such a session is never cleaned up.\<close>

theorem finished_goals_pin:
  assumes "st \<noteq> []" and "\<not> has_active_goals st" and "ck_active_goals c = to_checkpoint_data st"
    and "ck_session_id c \<noteq> []" and "\<not> startswith (ck_session_id c) ''cron:''"
    and "\<not> in_pool (ck_session_id c)"
  shows "restore_action_for sd ttl in_pool (Holds c)
     = (if ck_expired c then LeaveFile
        else AcquireSession (ck_session_id c) (ck_source c) (ck_owner_id c) (ck_core_profile c))"
  using assms checkpoint_goals_nonempty [of st] by (simp add: restore_action_for_def Let_def)

section \<open>Witnesses\<close>

definition demo_checkpoint :: "(str, pyval) dict list \<Rightarrow> checkpoint" where
  "demo_checkpoint goals = \<lparr>ck_session_id = ''cli:root'', ck_owner_id = ''root'', ck_source = ''cli'',
     ck_running_summary = None, ck_recent_messages = [], ck_last_active_at = 0, ck_remaining_ttl = 1800,
     ck_turn_count = 1, ck_last_history_id = 0, ck_token_usage = [], ck_compression_round = 0,
     ck_saved_at = 0, ck_expired = False, ck_core_profile = None, ck_active_goals = goals\<rparr>"

lemma restore_decision_witness:
  "restore_action_for 5000 1800 (\<lambda>_. False) (Holds (demo_checkpoint [])) = MarkFile"
  using restore_decision [of "Holds (demo_checkpoint [])" "demo_checkpoint []" 0 5000 1800 "\<lambda>_. False"]
  by (simp add: demo_checkpoint_def elapsed_since_def)

lemma load_start_effect_witness:
  "\<exists>c f'. load_start 0 (Some 100) base_profile ''cli:root'' (Holds (demo_checkpoint [])) = (Resume c 100, f')
     \<and> (100::real) < cp_session_expired_seconds base_profile"
proof -
  have "load_start 0 (Some 100) base_profile ''cli:root'' (Holds (demo_checkpoint []))
      = (Resume (demo_checkpoint []) 100, Holds (demo_checkpoint []))"
    by (simp add: load_start_def uses_checkpoint_def base_profile_def demo_checkpoint_def elapsed_since_def)
  with load_start_effect [OF _ this] show ?thesis by (simp add: base_profile_def demo_checkpoint_def)
qed

lemma finished_goals_pin_witness:
  "let st = snd (cancel_goal ''t1'' ''goal-1'' demo_goals)
   in \<not> has_active_goals st
      \<and> restore_action_for 5000 1800 (\<lambda>_. False) (Holds (demo_checkpoint (to_checkpoint_data st)))
          = AcquireSession ''cli:root'' ''cli'' ''root'' None"
proof -
  have "strip ''ship'' = ''ship''" by (simp add: strip_id_iff_ends is_space_def)
  then have st: "snd (cancel_goal ''t1'' ''goal-1'' demo_goals) \<noteq> []"
    "\<not> has_active_goals (snd (cancel_goal ''t1'' ''goal-1'' demo_goals))"
    by (simp_all add: demo_goals_def create_goal_def cancel_goal_def Let_def has_active_iff)
  then show ?thesis
    using finished_goals_pin [OF st, of "demo_checkpoint (to_checkpoint_data (snd (cancel_goal ''t1'' ''goal-1'' demo_goals)))"
        "\<lambda>_. False" 5000 1800]
    unfolding Let_def by (simp add: demo_checkpoint_def)
qed

end
