(* ===== verification/Core_Pool.thy ===== *)
theory Core_Pool
  imports Checkpoints
begin

text \<open>
  The process table (\<open>system/kernel/core_pool.py\<close>): entries of live sessions, entries of
  finished children that their parent has not reaped ("zombies"), acquiring, evicting and the
  idle scan.

  A \<open>CoreEntry\<close> is an object that several parties hold while the code is suspended, so
  entries live in a store and the tables hold their addresses. The asynchronous operations are
  cut at their suspensions: \<open>acquire\<close> into \<open>acquire_begin\<close> (up to the session's lock),
  \<open>acquire_locked\<close> (under the lock, up to loading the core) and \<open>acquire_finish\<close>;
  \<open>evict\<close> into \<open>evict_begin\<close> (up to the first suspension) and \<open>evict_end\<close>
  (after the last). In between any other operation may run. Locks are objects as well: the table
  of locks maps a session to one, and dropping a table entry does not release the lock.
\<close>

section \<open>Entries\<close>

record core_agent =
  ag_source :: str
  ag_user_id :: str
  ag_goals :: goal_store
  ag_ttl_offset :: real

datatype sub_status = SubRunning | SubCompleted | SubFailed | SubCancelled

record core_entry =
  ce_agent :: "core_agent option"
  ce_profile :: core_profile
  ce_created_at :: real
  ce_last_active :: real
  ce_session_start :: real
  ce_parent :: "str option"
  ce_task_description :: "str option"
  ce_bg_task :: "nat option"
  ce_sub_status :: "sub_status option"
  ce_sub_result :: "str option"
  ce_sub_error :: "str option"
  ce_sub_completed_at :: "real option"
  ce_feishu_chat_id :: "str option"

definition is_expired :: "real \<Rightarrow> core_entry \<Rightarrow> bool" where
  "is_expired clk e \<longleftrightarrow> clk - ce_last_active e > cp_session_expired_seconds (ce_profile e)"

definition entry_terminal :: "core_entry \<Rightarrow> bool" where
  "entry_terminal e \<longleftrightarrow> ce_sub_status e \<in> {Some SubCompleted, Some SubFailed, Some SubCancelled}"

text \<open>
  What a parent is told when a child ends: the child's id and the previews of task, result or
  error. The fixed wording around them is not kept.
\<close>

datatype lifecycle_note =
    NoteCompleted str str str bool
  | NoteFailed str str

record pool =
  pl_entries :: "core_entry list"
  pl_pool :: "(str, nat) dict"
  pl_zombies :: "(str, nat) dict"
  pl_reaped :: "(str, real) dict"
  pl_waited :: "str set"
  pl_pending :: "(str, lifecycle_note) dict"
  pl_max :: nat
  pl_locks :: "(str, nat) dict"
  pl_held :: "nat set"
  pl_next_lock :: nat

definition new_pool :: "nat \<Rightarrow> pool" where
  "new_pool max_sessions = \<lparr>pl_entries = [], pl_pool = [], pl_zombies = [], pl_reaped = [],
     pl_waited = {}, pl_pending = [], pl_max = max_sessions, pl_locks = [], pl_held = {}, pl_next_lock = 0\<rparr>"

definition entry_at :: "nat \<Rightarrow> pool \<Rightarrow> core_entry" where
  "entry_at a p = pl_entries p ! a"

definition put_entry :: "nat \<Rightarrow> core_entry \<Rightarrow> pool \<Rightarrow> pool" where
  "put_entry a e p = p\<lparr>pl_entries := (pl_entries p)[a := e]\<rparr>"

text \<open>A new object; its address.\<close>

definition alloc :: "core_entry \<Rightarrow> pool \<Rightarrow> nat \<times> pool" where
  "alloc e p = (length (pl_entries p), p\<lparr>pl_entries := pl_entries p @ [e]\<rparr>)"

section \<open>Lookups\<close>

definition get_addr :: "str \<Rightarrow> pool \<Rightarrow> nat option" where
  "get_addr sid p = (case map_of (pl_pool p) sid of Some a \<Rightarrow> Some a | None \<Rightarrow> map_of (pl_zombies p) sid)"

definition get_entry :: "str \<Rightarrow> pool \<Rightarrow> core_entry option" where
  "get_entry sid p = map_option (\<lambda>a. entry_at a p) (get_addr sid p)"

definition get_live_entry :: "str \<Rightarrow> pool \<Rightarrow> core_entry option" where
  "get_live_entry sid p = map_option (\<lambda>a. entry_at a p) (map_of (pl_pool p) sid)"

definition touch :: "real \<Rightarrow> str \<Rightarrow> pool \<Rightarrow> pool" where
  "touch clk sid p =
     (case map_of (pl_pool p) sid of
        None \<Rightarrow> p | Some a \<Rightarrow> put_entry a ((entry_at a p)\<lparr>ce_last_active := clk\<rparr>) p)"

definition list_entries :: "bool \<Rightarrow> pool \<Rightarrow> (str \<times> core_entry) list" where
  "list_entries include_zombies p =
     map (\<lambda>(sid, a). (sid, entry_at a p))
       (pl_pool p @ (if include_zombies then pl_zombies p else []))"

definition has_session :: "str \<Rightarrow> pool \<Rightarrow> bool" where
  "has_session sid p \<longleftrightarrow> has_key sid (pl_pool p) \<or> has_key sid (pl_zombies p)"

definition is_zombie :: "str \<Rightarrow> pool \<Rightarrow> bool" where
  "is_zombie sid p \<longleftrightarrow> has_key sid (pl_zombies p)"

definition list_subs_by_parent :: "str \<Rightarrow> pool \<Rightarrow> core_entry list" where
  "list_subs_by_parent parent p =
     filter (\<lambda>e. ce_parent e = Some parent) (map snd (list_entries True p))"

section \<open>Acquiring\<close>

definition get_lock :: "str \<Rightarrow> pool \<Rightarrow> nat \<times> pool" where
  "get_lock sid p =
     (case map_of (pl_locks p) sid of
        Some l \<Rightarrow> (l, p)
      | None \<Rightarrow> (pl_next_lock p, p\<lparr>pl_locks := dset sid (pl_next_lock p) (pl_locks p),
                                    pl_next_lock := Suc (pl_next_lock p)\<rparr>))"

text \<open>What a suspended \<open>acquire\<close> remembers. \<open>existing\<close> was read before the lock.\<close>

record acquiring =
  aq_session :: str
  aq_source :: str
  aq_user_id :: str
  aq_profile :: "core_profile option"
  aq_create :: bool
  aq_existing :: "nat option"
  aq_lock :: nat

definition same_agent_owner :: "core_agent \<Rightarrow> str \<Rightarrow> str \<Rightarrow> bool" where
  "same_agent_owner ag source user_id \<longleftrightarrow>
     strip (ag_source ag) = strip source \<and> strip (ag_user_id ag) = strip user_id"

datatype acquire_step = Got nat | AtLock acquiring

definition acquire_begin ::
  "str \<Rightarrow> str \<Rightarrow> str \<Rightarrow> bool \<Rightarrow> core_profile option \<Rightarrow> pool \<Rightarrow> acquire_step \<times> pool" where
  "acquire_begin sid source0 user0 create_if_missing profile p =
     (case resolve_core_owner sid source0 user0 of
        (source, user_id) \<Rightarrow>
          let existing = map_of (pl_pool p) sid;
              wait = (case get_lock sid p of
                        (l, p') \<Rightarrow> (AtLock \<lparr>aq_session = sid, aq_source = source, aq_user_id = user_id,
                           aq_profile = profile, aq_create = create_if_missing, aq_existing = existing,
                           aq_lock = l\<rparr>, p'))
          in case existing of
               None \<Rightarrow> wait
             | Some a \<Rightarrow>
                 (case ce_agent (entry_at a p) of
                    None \<Rightarrow> wait
                  | Some ag \<Rightarrow>
                      if profile = None \<and> same_agent_owner ag source user_id then (Got a, p) else wait))"

text \<open>
  The part of \<open>_hot_update_profile\<close> the table sees; rebuilding the tool registries is the
  agent's.
\<close>

definition hot_update :: "real \<Rightarrow> nat \<Rightarrow> str \<Rightarrow> str \<Rightarrow> core_profile \<Rightarrow> pool \<Rightarrow> pool" where
  "hot_update clk a source user_id profile p =
     (let e = entry_at a p
      in case ce_agent e of
           None \<Rightarrow> p
         | Some ag \<Rightarrow>
             if ce_profile e = profile \<and> same_agent_owner ag source user_id then p
             else put_entry a (e\<lparr>ce_agent := Some (ag\<lparr>ag_source := source, ag_user_id := user_id\<rparr>),
                                 ce_profile := profile, ce_last_active := clk\<rparr>) p)"

definition release_lock :: "nat \<Rightarrow> pool \<Rightarrow> pool" where
  "release_lock l p = p\<lparr>pl_held := pl_held p - {l}\<rparr>"

text \<open>Under the lock: reuse, refuse, or go and load with the given profile.\<close>

datatype locked_step = Reused nat | Refused py_exn | Loading "core_profile option"

definition acquire_locked :: "real \<Rightarrow> acquiring \<Rightarrow> pool \<Rightarrow> locked_step \<times> pool" where
  "acquire_locked clk q p0 =
     (let sid = aq_session q; p = p0\<lparr>pl_held := insert (aq_lock q) (pl_held p0)\<rparr>;
          live = (case map_of (pl_pool p) sid of
                    None \<Rightarrow> None
                  | Some a \<Rightarrow> (case ce_agent (entry_at a p) of None \<Rightarrow> None | Some ag \<Rightarrow> Some (a, ag)))
      in case live of
           Some (a, ag) \<Rightarrow>
             let p1 = (case aq_profile q of
                         Some pr \<Rightarrow> hot_update clk a (aq_source q) (aq_user_id q) pr p
                       | None \<Rightarrow>
                           if same_agent_owner ag (aq_source q) (aq_user_id q) then p
                           else hot_update clk a (aq_source q) (aq_user_id q) (ce_profile (entry_at a p)) p)
             in (Reused a, release_lock (aq_lock q) p1)
         | None \<Rightarrow>
             if \<not> aq_create q then (Refused (KeyError sid), release_lock (aq_lock q) p)
             else if length (pl_pool p) \<ge> pl_max p
             then (Refused (RuntimeError ''max_sessions reached''), release_lock (aq_lock q) p)
             else
               (Loading (case aq_profile q of
                           Some pr \<Rightarrow> Some pr
                         | None \<Rightarrow> map_option ce_profile (get_entry sid p)), p))"

definition load_failed :: "acquiring \<Rightarrow> pool \<Rightarrow> pool" where
  "load_failed q p = release_lock (aq_lock q) p"

definition fresh_entry :: "real \<Rightarrow> real \<Rightarrow> core_agent option \<Rightarrow> core_profile \<Rightarrow> core_entry" where
  "fresh_entry wall clk ag pr =
     \<lparr>ce_agent = ag, ce_profile = pr, ce_created_at = wall, ce_last_active = clk,
      ce_session_start = clk, ce_parent = None, ce_task_description = None, ce_bg_task = None,
      ce_sub_status = None, ce_sub_result = None, ce_sub_error = None, ce_sub_completed_at = None,
      ce_feishu_chat_id = None\<rparr>"

text \<open>Everything but agent, profile and logger is taken over from an earlier entry.\<close>

definition inherit :: "core_entry \<Rightarrow> core_entry \<Rightarrow> core_entry" where
  "inherit old e = old\<lparr>ce_agent := ce_agent e, ce_profile := ce_profile e\<rparr>"

definition acquire_finish ::
  "real \<Rightarrow> real \<Rightarrow> acquiring \<Rightarrow> core_agent \<Rightarrow> core_profile \<Rightarrow> pool \<Rightarrow> nat \<times> pool" where
  "acquire_finish wall clk q ag pr p =
     (let sid = aq_session q;
          e0 = fresh_entry wall clk (Some ag) pr;
          e1 = (case aq_existing q of
                  Some a \<Rightarrow> inherit (entry_at a p) e0
                | None \<Rightarrow> (case map_of (pl_zombies p) sid of
                            Some z \<Rightarrow> inherit (entry_at z p) e0 | None \<Rightarrow> e0));
          e2 = (if ag_ttl_offset ag > 0 then e1\<lparr>ce_last_active := clk - ag_ttl_offset ag\<rparr> else e1)
      in case alloc e2 (p\<lparr>pl_zombies := dpop sid (pl_zombies p)\<rparr>) of
           (a, p1) \<Rightarrow> (a, release_lock (aq_lock q) (p1\<lparr>pl_pool := dset sid a (pl_pool p1)\<rparr>)))"

section \<open>Evicting\<close>

definition strip_for_zombie :: "real \<Rightarrow> core_entry \<Rightarrow> core_entry" where
  "strip_for_zombie clk e = e\<lparr>ce_agent := None, ce_bg_task := None, ce_last_active := clk\<rparr>"

record evicting =
  ev_session :: str
  ev_entry :: nat
  ev_shutdown :: bool

definition is_subagent :: "str \<Rightarrow> core_entry \<Rightarrow> bool" where
  "is_subagent sid e \<longleftrightarrow> opt_str (ce_parent e) \<noteq> [] \<or> startswith sid ''sub:''"

definition keep_zombie :: "real \<Rightarrow> str \<Rightarrow> nat \<Rightarrow> bool \<Rightarrow> pool \<Rightarrow> pool" where
  "keep_zombie clk sid a shutdown p =
     (let e = entry_at a p
      in if \<not> shutdown \<and> is_subagent sid e \<and> entry_terminal e
         then (case alloc (strip_for_zombie clk e) p of
                 (z, p1) \<Rightarrow> p1\<lparr>pl_zombies := dset sid z (pl_zombies p1)\<rparr>)
         else p)"

definition evict_begin :: "real \<Rightarrow> str \<Rightarrow> bool \<Rightarrow> pool \<Rightarrow> evicting option \<times> pool" where
  "evict_begin clk sid shutdown p =
     (case map_of (pl_pool p) sid of
        None \<Rightarrow> (None, p)
      | Some a \<Rightarrow>
          (Some \<lparr>ev_session = sid, ev_entry = a, ev_shutdown = shutdown\<rparr>,
           keep_zombie clk sid a shutdown (p\<lparr>pl_pool := dpop sid (pl_pool p)\<rparr>)))"

definition evict_end :: "real \<Rightarrow> evicting \<Rightarrow> pool \<Rightarrow> pool" where
  "evict_end clk ev p =
     (let sid = ev_session ev;
          p1 = (if has_key sid (pl_pool p) then p else p\<lparr>pl_locks := dpop sid (pl_locks p)\<rparr>)
      in keep_zombie clk sid (ev_entry ev) (ev_shutdown ev) p1)"

text \<open>
  What an eviction does to the core in between. \<open>stats\<close>: killing the core returned its
  statistics; \<open>summarizer\<close>: one is configured; \<open>release_remote\<close>: the caller's choice.
\<close>

datatype evict_action = KillCore | FlushCheckpoint | Summarize bool | ReleaseRemote | MarkExpired | CloseCore

definition evict_actions ::
  "bool \<Rightarrow> bool option \<Rightarrow> bool \<Rightarrow> bool \<Rightarrow> core_entry \<Rightarrow> evict_action list" where
  "evict_actions shutdown release_remote stats summarizer e =
     (let live = (ce_agent e \<noteq> None)
      in (if live then [KillCore] else [])
         @ (if shutdown \<and> live then [FlushCheckpoint] else [])
         @ (if live \<and> \<not> shutdown \<and> stats \<and> summarizer \<and> cp_mode (ce_profile e) \<noteq> Sub
            then [Summarize (cp_mode (ce_profile e) \<noteq> Background)] else [])
         @ (if (case release_remote of None \<Rightarrow> shutdown | Some b \<Rightarrow> b) then [ReleaseRemote] else [])
         @ (if live \<and> \<not> shutdown then [MarkExpired] else [])
         @ (if live then [CloseCore] else []))"

section \<open>The idle scan\<close>

definition pinned :: "(str \<Rightarrow> bool) \<Rightarrow> str \<Rightarrow> core_entry \<Rightarrow> bool" where
  "pinned deferred_wake sid e \<longleftrightarrow>
     (case ce_agent e of None \<Rightarrow> False | Some ag \<Rightarrow> has_active_goals (ag_goals ag)) \<or> deferred_wake sid"

fun scan_entries :: "real \<Rightarrow> (str \<Rightarrow> bool) \<Rightarrow> (str, nat) dict \<Rightarrow> pool \<Rightarrow> str list \<times> pool" where
  "scan_entries clk deferred_wake [] p = ([], p)"
| "scan_entries clk deferred_wake ((sid, a) # rest) p =
     (let e = entry_at a p
      in if \<not> is_expired clk e then scan_entries clk deferred_wake rest p
         else if pinned deferred_wake sid e
         then scan_entries clk deferred_wake rest (put_entry a (e\<lparr>ce_last_active := clk\<rparr>) p)
         else (case scan_entries clk deferred_wake rest p of (sids, p') \<Rightarrow> (sid # sids, p')))"

definition scan_expired :: "real \<Rightarrow> (str \<Rightarrow> bool) \<Rightarrow> pool \<Rightarrow> str list \<times> pool" where
  "scan_expired clk deferred_wake p = scan_entries clk deferred_wake (pl_pool p) p"

section \<open>Finished children\<close>

definition mark_parent_got_terminal :: "str \<Rightarrow> pool \<Rightarrow> pool" where
  "mark_parent_got_terminal sub p =
     (let sid = strip sub
      in if startswith sid ''sub:'' then p\<lparr>pl_waited := insert sid (pl_waited p)\<rparr> else p)"

definition should_suppress_lifecycle :: "str \<Rightarrow> pool \<Rightarrow> bool" where
  "should_suppress_lifecycle sub p \<longleftrightarrow> strip sub \<in> pl_waited p"

definition discard_pending_lifecycle :: "str \<Rightarrow> pool \<Rightarrow> pool" where
  "discard_pending_lifecycle sub p = p\<lparr>pl_pending := dpop (strip sub) (pl_pending p)\<rparr>"

definition reap_zombie :: "real \<Rightarrow> str \<Rightarrow> pool \<Rightarrow> pool" where
  "reap_zombie wall sid p =
     (if startswith sid ''sub:''
      then (discard_pending_lifecycle sid p)
             \<lparr>pl_zombies := dpop sid (pl_zombies p), pl_reaped := dset sid wall (pl_reaped p),
              pl_waited := pl_waited p - {sid}\<rparr>
      else p\<lparr>pl_zombies := dpop sid (pl_zombies p)\<rparr>)"

definition reap_memory_seconds :: real where
  "reap_memory_seconds = 604800"

definition was_reaped :: "real \<Rightarrow> str \<Rightarrow> pool \<Rightarrow> bool \<times> pool" where
  "was_reaped wall sid p =
     (case map_of (pl_reaped p) sid of
        None \<Rightarrow> (False, p)
      | Some ts \<Rightarrow>
          if wall - ts > reap_memory_seconds then (False, p\<lparr>pl_reaped := dpop sid (pl_reaped p)\<rparr>)
          else (True, p))"

definition scan_stale_zombies :: "real \<Rightarrow> real \<Rightarrow> pool \<Rightarrow> str list" where
  "scan_stale_zombies wall ttl p =
     (if ttl \<le> 0 then []
      else map fst (filter (\<lambda>(sid, a).
             let e = entry_at a p;
                 base = (case ce_sub_completed_at e of Some t \<Rightarrow> t | None \<Rightarrow> ce_created_at e)
             in startswith sid ''sub:'' \<and> entry_terminal e \<and> wall - base > ttl) (pl_zombies p)))"

text \<open>A child's placeholder: no core yet, status running.\<close>

definition register_sub ::
  "real \<Rightarrow> real \<Rightarrow> tools_config \<Rightarrow> str \<Rightarrow> str \<Rightarrow> str \<Rightarrow> core_profile option \<Rightarrow> pool \<Rightarrow> nat \<times> pool" where
  "register_sub wall clk cfg sub parent task profile p =
     (let subagent_id = (if startswith sub ''sub:'' then drop 4 sub else sub);
          pr = (case profile of
                  Some q \<Rightarrow> q
                | None \<Rightarrow> default_sub cfg None None ''subagent'' subagent_id None None None False ''default'');
          e = (fresh_entry wall clk None pr)
                \<lparr>ce_parent := Some parent, ce_task_description := Some task,
                 ce_sub_status := Some SubRunning\<rparr>
      in case alloc e (p\<lparr>pl_zombies := dpop sub (pl_zombies p)\<rparr>) of
           (a, p1) \<Rightarrow> (a, p1\<lparr>pl_pool := dset sub a (pl_pool p1)\<rparr>))"

section \<open>The invariant\<close>

definition addrs :: "(str, nat) dict \<Rightarrow> nat set" where
  "addrs d = snd ` set d"

definition dead_entry :: "core_entry \<Rightarrow> bool" where
  "dead_entry e \<longleftrightarrow> ce_agent e = None \<and> ce_bg_task e = None \<and> entry_terminal e"

definition table_ok :: "(str, nat) dict \<Rightarrow> bool" where
  "table_ok d \<longleftrightarrow> dict_ok d \<and> distinct (map snd d)"

definition pool_ok :: "pool \<Rightarrow> bool" where
  "pool_ok p \<longleftrightarrow> table_ok (pl_pool p) \<and> table_ok (pl_zombies p)
     \<and> addrs (pl_pool p) \<inter> addrs (pl_zombies p) = {}
     \<and> (\<forall>a \<in> addrs (pl_pool p) \<union> addrs (pl_zombies p). a < length (pl_entries p))
     \<and> (\<forall>z \<in> addrs (pl_zombies p). dead_entry (entry_at z p))
     \<and> (\<forall>l \<in> addrs (pl_locks p) \<union> pl_held p. l < pl_next_lock p)"

lemma addrs_dset: "addrs (dset k v d) \<subseteq> insert v (addrs d)"
  unfolding addrs_def by (induction d) auto

lemma addrs_dpop: "addrs (dpop k d) \<subseteq> addrs d"
  unfolding addrs_def by (auto simp: AList.delete_eq)

lemma addr_in: "map_of d sid = Some a \<Longrightarrow> a \<in> addrs d"
  unfolding addrs_def by (force dest: dget_in_set)

lemma table_ok_dset: "table_ok d \<Longrightarrow> v \<notin> addrs d \<Longrightarrow> table_ok (dset k v d)"
proof -
  have "distinct (map snd d) \<Longrightarrow> v \<notin> addrs d \<Longrightarrow> distinct (map snd (dset k v d))"
  proof (induction d)
    case (Cons x d)
    then have "snd x \<notin> insert v (addrs d)" "distinct (map snd d)" "v \<notin> addrs d"
      by (auto simp: addrs_def)
    with Cons.IH have "distinct (map snd (dset k v d))" "snd x \<notin> addrs (dset k v d)"
      using addrs_dset [of k v d] by blast+
    with \<open>v \<notin> addrs d\<close> \<open>distinct (map snd d)\<close> show ?case
      by (cases x) (auto simp: addrs_def)
  qed simp
  then show "table_ok d \<Longrightarrow> v \<notin> addrs d \<Longrightarrow> table_ok (dset k v d)" by (simp add: table_ok_def)
qed

lemma table_ok_dpop: "table_ok d \<Longrightarrow> table_ok (dpop k d)"
  by (simp add: table_ok_def AList.delete_eq distinct_map_filter dict_ok_def)

lemma table_ok_inj: "table_ok d \<Longrightarrow> map_of d sid = Some a \<Longrightarrow> map_of d sid' = Some a \<Longrightarrow> sid' = sid"
  unfolding table_ok_def distinct_map inj_on_def by (metis dget_in_set fst_conv snd_conv)

lemma table_ok_entry:
  assumes "table_ok d" "map_of d sid = Some a"
  shows "(sid', a) \<in> set d \<longleftrightarrow> sid' = sid"
proof
  assume "(sid', a) \<in> set d"
  then have "map_of d sid' = Some a" using assms(1) in_set_dget unfolding table_ok_def by metis
  then show "sid' = sid" using table_ok_inj assms by blast
next
  assume "sid' = sid"
  then show "(sid', a) \<in> set d" using dget_in_set [OF assms(2)] by simp
qed

lemma pool_okD:
  assumes "pool_ok p"
  shows "table_ok (pl_pool p)" "table_ok (pl_zombies p)"
    "a \<in> addrs (pl_pool p) \<Longrightarrow> a \<notin> addrs (pl_zombies p)"
    "a \<in> addrs (pl_pool p) \<Longrightarrow> a < length (pl_entries p)"
    "a \<in> addrs (pl_zombies p) \<Longrightarrow> a < length (pl_entries p)"
    "a \<in> addrs (pl_zombies p) \<Longrightarrow> dead_entry (entry_at a p)"
    "l \<in> addrs (pl_locks p) \<Longrightarrow> l < pl_next_lock p" "l \<in> pl_held p \<Longrightarrow> l < pl_next_lock p"
  using assms unfolding pool_ok_def by blast+

lemma pool_ok_new [simp]: "pool_ok (new_pool n)"
  by (simp add: pool_ok_def new_pool_def addrs_def table_ok_def)

lemma entry_at_put:
  "b < length (pl_entries p) \<Longrightarrow> entry_at b (put_entry a e p) = (if b = a then e else entry_at b p)"
  by (auto simp: entry_at_def put_entry_def nth_update)

lemma put_entry_frame [simp]:
  "pl_pool (put_entry a e p) = pl_pool p" "pl_zombies (put_entry a e p) = pl_zombies p"
  "pl_locks (put_entry a e p) = pl_locks p" "pl_held (put_entry a e p) = pl_held p"
  "pl_next_lock (put_entry a e p) = pl_next_lock p" "pl_reaped (put_entry a e p) = pl_reaped p"
  "pl_waited (put_entry a e p) = pl_waited p"
  "length (pl_entries (put_entry a e p)) = length (pl_entries p)"
  by (simp_all add: put_entry_def)

lemma pool_ok_put:
  assumes ok: "pool_ok p" and "a \<notin> addrs (pl_zombies p) \<or> dead_entry e"
  shows "pool_ok (put_entry a e p)"
proof -
  have "dead_entry (entry_at z (put_entry a e p))" if "z \<in> addrs (pl_zombies p)" for z
    using pool_okD(5,6) [OF ok that] that assms(2) by (auto simp: entry_at_put)
  with ok show ?thesis by (simp add: pool_ok_def)
qed

lemma alloc_simps [simp]:
  "fst (alloc e p) = length (pl_entries p)" "pl_pool (snd (alloc e p)) = pl_pool p"
  "pl_zombies (snd (alloc e p)) = pl_zombies p" "pl_entries (snd (alloc e p)) = pl_entries p @ [e]"
  "pl_locks (snd (alloc e p)) = pl_locks p" "pl_held (snd (alloc e p)) = pl_held p"
  "pl_next_lock (snd (alloc e p)) = pl_next_lock p"
  by (simp_all add: alloc_def)

lemma pool_ok_drop:
  assumes ok: "pool_ok p"
  shows "pool_ok (p\<lparr>pl_pool := dpop sid (pl_pool p)\<rparr>)"
    and "pool_ok (p\<lparr>pl_zombies := dpop sid (pl_zombies p)\<rparr>)"
    and "pool_ok (p\<lparr>pl_locks := dpop sid (pl_locks p)\<rparr>)" and "pool_ok (release_lock l p)"
    and "pool_ok (p\<lparr>pl_reaped := r\<rparr>)" and "pool_ok (p\<lparr>pl_waited := w\<rparr>)"
proof -
  have e: "entry_at z (p\<lparr>pl_pool := d\<rparr>) = entry_at z p" "entry_at z (p\<lparr>pl_zombies := d\<rparr>) = entry_at z p"
    "entry_at z (p\<lparr>pl_locks := d\<rparr>) = entry_at z p" "entry_at z (p\<lparr>pl_held := h\<rparr>) = entry_at z p"
    "entry_at z (p\<lparr>pl_reaped := r\<rparr>) = entry_at z p" "entry_at z (p\<lparr>pl_waited := w\<rparr>) = entry_at z p" for z d h
    by (simp_all add: entry_at_def)
  note sub = addrs_dpop [of sid "pl_pool p"] addrs_dpop [of sid "pl_zombies p"] addrs_dpop [of sid "pl_locks p"]
  show "pool_ok (p\<lparr>pl_pool := dpop sid (pl_pool p)\<rparr>)"
    using ok sub table_ok_dpop unfolding pool_ok_def e by simp blast
  show "pool_ok (p\<lparr>pl_zombies := dpop sid (pl_zombies p)\<rparr>)"
    using ok sub table_ok_dpop unfolding pool_ok_def e by simp blast
  show "pool_ok (p\<lparr>pl_locks := dpop sid (pl_locks p)\<rparr>)"
    using ok sub unfolding pool_ok_def e by simp blast
  show "pool_ok (release_lock l p)" using ok unfolding pool_ok_def release_lock_def e by simp blast
  show "pool_ok (p\<lparr>pl_reaped := r\<rparr>)" using ok unfolding pool_ok_def e by simp
  show "pool_ok (p\<lparr>pl_waited := w\<rparr>)" using ok unfolding pool_ok_def e by simp
qed

lemma entry_at_alloc:
  "z \<le> length (pl_entries p) \<Longrightarrow> entry_at z (snd (alloc e p)\<lparr>pl_pool := d\<rparr>)
     = (if z = length (pl_entries p) then e else entry_at z p)"
  "z \<le> length (pl_entries p) \<Longrightarrow> entry_at z (snd (alloc e p)\<lparr>pl_zombies := d\<rparr>)
     = (if z = length (pl_entries p) then e else entry_at z p)"
  by (auto simp: entry_at_def nth_append)

lemma fresh_addr:
  "pool_ok p \<Longrightarrow> length (pl_entries p) \<notin> addrs (pl_pool p) \<and> length (pl_entries p) \<notin> addrs (pl_zombies p)"
  using pool_okD(4,5) by blast

text \<open>A new entry under a session, live or zombie.\<close>

lemma pool_ok_add_live:
  assumes ok: "pool_ok p"
  shows "pool_ok (snd (alloc e p)\<lparr>pl_pool := dset sid (length (pl_entries p)) (pl_pool p)\<rparr>)"
  unfolding pool_ok_def
proof (intro conjI ballI)
  let ?p = "snd (alloc e p)\<lparr>pl_pool := dset sid (length (pl_entries p)) (pl_pool p)\<rparr>"
  note fresh = fresh_addr [OF ok]
  note sub = addrs_dset [of sid "length (pl_entries p)" "pl_pool p"]
  show "table_ok (pl_pool ?p)" "table_ok (pl_zombies ?p)"
    using pool_okD(1,2) [OF ok] fresh by (simp_all add: table_ok_dset)
  show "addrs (pl_pool ?p) \<inter> addrs (pl_zombies ?p) = {}" using sub fresh pool_okD(3) [OF ok] by auto
  show "a < length (pl_entries ?p)" if "a \<in> addrs (pl_pool ?p) \<union> addrs (pl_zombies ?p)" for a
    using that sub pool_okD(4,5) [OF ok, of a] by auto
  show "dead_entry (entry_at z ?p)" if "z \<in> addrs (pl_zombies ?p)" for z
    using that pool_okD(5,6) [OF ok, of z] by (simp add: entry_at_alloc)
  show "l < pl_next_lock ?p" if "l \<in> addrs (pl_locks ?p) \<union> pl_held ?p" for l
    using that pool_okD(7,8) [OF ok, of l] by auto
qed

lemma pool_ok_add_zombie:
  assumes ok: "pool_ok p" and dead: "dead_entry e"
  shows "pool_ok (snd (alloc e p)\<lparr>pl_zombies := dset sid (length (pl_entries p)) (pl_zombies p)\<rparr>)"
  unfolding pool_ok_def
proof (intro conjI ballI)
  let ?p = "snd (alloc e p)\<lparr>pl_zombies := dset sid (length (pl_entries p)) (pl_zombies p)\<rparr>"
  note fresh = fresh_addr [OF ok]
  note sub = addrs_dset [of sid "length (pl_entries p)" "pl_zombies p"]
  show "table_ok (pl_pool ?p)" "table_ok (pl_zombies ?p)"
    using pool_okD(1,2) [OF ok] fresh by (simp_all add: table_ok_dset)
  show "addrs (pl_pool ?p) \<inter> addrs (pl_zombies ?p) = {}" using sub fresh pool_okD(3) [OF ok] by auto
  show "a < length (pl_entries ?p)" if "a \<in> addrs (pl_pool ?p) \<union> addrs (pl_zombies ?p)" for a
    using that sub pool_okD(4,5) [OF ok, of a] by auto
  show "dead_entry (entry_at z ?p)" if "z \<in> addrs (pl_zombies ?p)" for z
  proof (cases "z = length (pl_entries p)")
    case False
    with that sub have "z \<in> addrs (pl_zombies p)" by auto
    with False pool_okD(5,6) [OF ok, of z] show ?thesis by (simp add: entry_at_alloc)
  qed (simp add: entry_at_alloc dead)
  show "l < pl_next_lock ?p" if "l \<in> addrs (pl_locks ?p) \<union> pl_held ?p" for l
    using that pool_okD(7,8) [OF ok, of l] by auto
qed

lemma dead_strip: "entry_terminal e \<Longrightarrow> dead_entry (strip_for_zombie clk e)"
  by (simp add: dead_entry_def strip_for_zombie_def entry_terminal_def)

lemma keep_zombie_eq:
  "keep_zombie clk sid a sh p =
     (if \<not> sh \<and> is_subagent sid (entry_at a p) \<and> entry_terminal (entry_at a p)
      then snd (alloc (strip_for_zombie clk (entry_at a p)) p)
             \<lparr>pl_zombies := dset sid (length (pl_entries p)) (pl_zombies p)\<rparr>
      else p)"
  by (simp add: keep_zombie_def alloc_def Let_def)

lemma pool_ok_keep_zombie: "pool_ok p \<Longrightarrow> pool_ok (keep_zombie clk sid a sh p)"
  by (simp add: keep_zombie_eq pool_ok_add_zombie dead_strip)

text \<open>The operations keep the invariant.\<close>

lemma live_not_zombie: "pool_ok p \<Longrightarrow> map_of (pl_pool p) sid = Some a \<Longrightarrow> a \<notin> addrs (pl_zombies p)"
  using pool_okD(3) addr_in by blast

lemma live_bound: "pool_ok p \<Longrightarrow> map_of (pl_pool p) sid = Some a \<Longrightarrow> a < length (pl_entries p)"
  using pool_okD(4) addr_in by blast

lemma zombie_bound: "pool_ok p \<Longrightarrow> map_of (pl_zombies p) sid = Some a \<Longrightarrow> a < length (pl_entries p)"
  using pool_okD(5) addr_in by blast

lemma pool_ok_touch: "pool_ok p \<Longrightarrow> pool_ok (touch clk sid p)"
  by (simp add: touch_def pool_ok_put live_not_zombie split: option.split)

lemma pool_ok_get_lock:
  assumes ok: "pool_ok p"
  shows "pool_ok (snd (get_lock sid p)) \<and> fst (get_lock sid p) < pl_next_lock (snd (get_lock sid p))"
proof (cases "map_of (pl_locks p) sid")
  case None
  have e: "entry_at z (p\<lparr>pl_locks := d, pl_next_lock := n\<rparr>) = entry_at z p" for z d n
    by (simp add: entry_at_def)
  have "l < Suc (pl_next_lock p)" if "l \<in> addrs (dset sid (pl_next_lock p) (pl_locks p)) \<union> pl_held p" for l
    using that addrs_dset [of sid "pl_next_lock p" "pl_locks p"] pool_okD(7,8) [OF ok, of l] by auto
  with ok None show ?thesis by (simp add: get_lock_def pool_ok_def e)
next
  case (Some l)
  with ok addr_in [OF Some] show ?thesis by (simp add: get_lock_def pool_okD)
qed

lemma acquire_begin_cases:
  "(\<exists>q. acquire_begin sid s u c pr p = (AtLock q, snd (get_lock sid p)) \<and> aq_session q = sid
        \<and> aq_lock q = fst (get_lock sid p) \<and> aq_existing q = map_of (pl_pool p) sid
        \<and> aq_profile q = pr \<and> aq_create q = c
        \<and> (aq_source q, aq_user_id q) = resolve_core_owner sid s u)
   \<or> (\<exists>b. acquire_begin sid s u c pr p = (Got b, p))"
  by (auto simp: acquire_begin_def Let_def split: prod.split option.split)

lemma pool_ok_acquire_begin: "pool_ok p \<Longrightarrow> pool_ok (snd (acquire_begin sid s u c pr p))"
  using acquire_begin_cases [of sid s u c pr p] pool_ok_get_lock [of p sid] by force

lemma pool_ok_hot_update: "pool_ok p \<Longrightarrow> a \<notin> addrs (pl_zombies p) \<Longrightarrow> pool_ok (hot_update clk a s u pr p)"
  by (simp add: hot_update_def Let_def pool_ok_put split: option.split)

lemma pool_ok_hold: "pool_ok p \<Longrightarrow> l < pl_next_lock p \<Longrightarrow> pool_ok (p\<lparr>pl_held := insert l (pl_held p)\<rparr>)"
  by (simp add: pool_ok_def entry_at_def)

lemma pool_ok_acquire_locked:
  assumes ok: "pool_ok p" and l: "aq_lock q < pl_next_lock p"
  shows "pool_ok (snd (acquire_locked clk q p))"
proof -
  let ?p = "p\<lparr>pl_held := insert (aq_lock q) (pl_held p)\<rparr>"
  have okh: "pool_ok ?p" using ok l by (rule pool_ok_hold)
  have hot: "pool_ok (release_lock (aq_lock q) (hot_update clk a s u pr ?p))"
    if "map_of (pl_pool p) (aq_session q) = Some a" for a s u pr
    using that live_not_zombie [OF okh, of "aq_session q" a]
    by (intro pool_ok_drop pool_ok_hot_update okh) simp
  show ?thesis
    using okh hot pool_ok_drop(4) [OF okh]
    by (auto simp: acquire_locked_def Let_def split: option.splits)
qed

lemma pool_ok_acquire_finish: "pool_ok p \<Longrightarrow> pool_ok (snd (acquire_finish wall clk q ag pr p))"
proof -
  assume "pool_ok p"
  then have ok: "pool_ok (p\<lparr>pl_zombies := dpop (aq_session q) (pl_zombies p)\<rparr>)" by (rule pool_ok_drop)
  have "pool_ok (release_lock l (snd (alloc e (p\<lparr>pl_zombies := dpop (aq_session q) (pl_zombies p)\<rparr>))
      \<lparr>pl_pool := dset (aq_session q) (length (pl_entries p)) (pl_pool p)\<rparr>))" for e l
    using pool_ok_drop(4) [OF pool_ok_add_live [OF ok]] by simp
  then show ?thesis by (simp add: acquire_finish_def Let_def alloc_def)
qed

lemma pool_ok_evict_begin: "pool_ok p \<Longrightarrow> pool_ok (snd (evict_begin clk sid sh p))"
  by (simp add: evict_begin_def pool_ok_keep_zombie pool_ok_drop split: option.split)

lemma pool_ok_evict_end: "pool_ok p \<Longrightarrow> pool_ok (evict_end clk ev p)"
  by (simp add: evict_end_def Let_def pool_ok_keep_zombie pool_ok_drop)

text \<open>The scan, with the table it walks kept apart from the store it changes.\<close>

lemma scan_entries_spec:
  "distinct (map snd d) \<Longrightarrow> \<forall>a \<in> addrs d. a < length (pl_entries p) \<Longrightarrow>
     fst (scan_entries clk dw d p)
       = map fst (filter (\<lambda>(sid, a). is_expired clk (entry_at a p) \<and> \<not> pinned dw sid (entry_at a p)) d)
     \<and> (\<forall>b < length (pl_entries p). entry_at b (snd (scan_entries clk dw d p))
       = (if \<exists>sid. (sid, b) \<in> set d \<and> is_expired clk (entry_at b p) \<and> pinned dw sid (entry_at b p)
          then (entry_at b p)\<lparr>ce_last_active := clk\<rparr> else entry_at b p))
     \<and> pl_pool (snd (scan_entries clk dw d p)) = pl_pool p
     \<and> pl_zombies (snd (scan_entries clk dw d p)) = pl_zombies p"
proof (induction d arbitrary: p)
  case (Cons x d)
  obtain sid a where x: "x = (sid, a)" by (cases x)
  let ?e = "entry_at a p"
  have d: "distinct (map snd d)" "\<forall>b \<in> addrs d. b < length (pl_entries p)" "a \<notin> addrs d"
    "a < length (pl_entries p)"
    using Cons.prems by (auto simp: x addrs_def)
  have na: "(sid', a) \<notin> set d" for sid' using d(3) by (force simp: addrs_def)
  show ?case
  proof (cases "is_expired clk ?e \<and> pinned dw sid ?e")
    case True
    let ?p = "put_entry a (?e\<lparr>ce_last_active := clk\<rparr>) p"
    have run: "scan_entries clk dw (x # d) p = scan_entries clk dw d ?p"
      using True by (simp add: x Let_def)
    have "filter (\<lambda>(i, b). is_expired clk (entry_at b ?p) \<and> \<not> pinned dw i (entry_at b ?p)) d
        = filter (\<lambda>(i, b). is_expired clk (entry_at b p) \<and> \<not> pinned dw i (entry_at b p)) d"
    proof (rule filter_cong [OF refl])
      fix y assume "y \<in> set d"
      then have "snd y \<in> addrs d" by (simp add: addrs_def)
      with d(2,3) have "entry_at (snd y) ?p = entry_at (snd y) p" by (auto simp: entry_at_put)
      then show "(case y of (i, b) \<Rightarrow> is_expired clk (entry_at b ?p) \<and> \<not> pinned dw i (entry_at b ?p))
          = (case y of (i, b) \<Rightarrow> is_expired clk (entry_at b p) \<and> \<not> pinned dw i (entry_at b p))"
        by (simp add: case_prod_unfold)
    qed
    moreover have "filter (\<lambda>(i, b). is_expired clk (entry_at b p) \<and> \<not> pinned dw i (entry_at b p)) (x # d)
        = filter (\<lambda>(i, b). is_expired clk (entry_at b p) \<and> \<not> pinned dw i (entry_at b p)) d"
      using True by (simp add: x)
    ultimately show ?thesis
      unfolding run using Cons.IH [of ?p] d na True by (auto simp: x entry_at_put)
  next
    case False
    have "snd (scan_entries clk dw (x # d) p) = snd (scan_entries clk dw d p)"
      "fst (scan_entries clk dw (x # d) p)
        = (if is_expired clk ?e then [sid] else []) @ fst (scan_entries clk dw d p)"
      using False by (auto simp: x Let_def split: prod.split)
    with Cons.IH [of p] d False show ?thesis by (auto simp: x)
  qed
qed simp

lemma pool_ok_pending: "pool_ok (p\<lparr>pl_pending := d\<rparr>) = pool_ok p"
  by (simp add: pool_ok_def entry_at_def)

lemma pool_ok_reap: "pool_ok p \<Longrightarrow> pool_ok (reap_zombie wall sid p)"
proof -
  assume "pool_ok p"
  then have "pool_ok (p\<lparr>pl_zombies := dpop sid (pl_zombies p)\<rparr>)" by (rule pool_ok_drop)
  from pool_ok_drop(6) [OF pool_ok_drop(5) [OF this]] this show ?thesis
    by (simp add: reap_zombie_def discard_pending_lifecycle_def pool_ok_def entry_at_def)
qed

lemma pool_ok_register_sub: "pool_ok p \<Longrightarrow> pool_ok (snd (register_sub wall clk cfg sub parent task pr p))"
proof -
  assume "pool_ok p"
  then have ok: "pool_ok (p\<lparr>pl_zombies := dpop sub (pl_zombies p)\<rparr>)" by (rule pool_ok_drop)
  from pool_ok_add_live [OF this] show ?thesis by (simp add: register_sub_def Let_def alloc_def)
qed

section \<open>Properties\<close>

text \<open>The idle scan offers exactly the sessions that may go: the live sessions idle longer than their
  profile allows, in table order, except those with an active goal or a wake-up call still to
  come; these are refreshed, so that they have their whole lifetime again, and no other entry
  changes.\<close>

theorem idle_scan_exact:
  assumes "pool_ok p" and "scan_expired clk dw p = (sids, p')"
  shows "sids = map fst (filter (\<lambda>(sid, a). is_expired clk (entry_at a p) \<and> \<not> pinned dw sid (entry_at a p)) (pl_pool p))
    \<and> (\<forall>sid e. get_live_entry sid p = Some e \<longrightarrow> get_live_entry sid p' =
          Some (if is_expired clk e \<and> pinned dw sid e then e\<lparr>ce_last_active := clk\<rparr> else e))
    \<and> (\<forall>sid e. get_live_entry sid p' = Some e \<and> pinned dw sid e \<and> 0 \<le> cp_session_expired_seconds (ce_profile e)
          \<longrightarrow> \<not> is_expired clk e)"
proof -
  have pool: "distinct (map snd (pl_pool p))" "\<forall>a \<in> addrs (pl_pool p). a < length (pl_entries p)"
    using pool_okD(1,4) [OF assms(1)] by (simp_all add: table_ok_def)
  note spec = scan_entries_spec [OF pool, of clk dw]
  have run: "scan_entries clk dw (pl_pool p) p = (sids, p')" using assms(2) by (simp add: scan_expired_def)
  have live: "get_live_entry sid p' = Some (if is_expired clk (entry_at a p) \<and> pinned dw sid (entry_at a p)
      then (entry_at a p)\<lparr>ce_last_active := clk\<rparr> else entry_at a p)" if sid: "map_of (pl_pool p) sid = Some a" for sid a
  proof -
    have "(sid', a) \<in> set (pl_pool p) \<longleftrightarrow> sid' = sid" for sid'
      using table_ok_entry [OF pool_okD(1) [OF assms(1)] sid] .
    then show ?thesis
      using spec run sid live_bound [OF assms(1) sid] by (auto simp: get_live_entry_def)
  qed
  have same: "map_of (pl_pool p') sid = map_of (pl_pool p) sid" for sid using spec run by simp
  have "\<not> is_expired clk e"
    if e: "get_live_entry sid p' = Some e" "pinned dw sid e" "0 \<le> cp_session_expired_seconds (ce_profile e)" for sid e
  proof -
    obtain a where "map_of (pl_pool p) sid = Some a" using e(1) same by (auto simp: get_live_entry_def)
    from live [OF this] e show ?thesis by (auto simp: is_expired_def pinned_def split: if_splits)
  qed
  moreover have "sids = map fst (filter (\<lambda>(sid, a). is_expired clk (entry_at a p) \<and> \<not> pinned dw sid (entry_at a p)) (pl_pool p))"
    using spec run by simp
  moreover have "get_live_entry sid p' = Some (if is_expired clk e \<and> pinned dw sid e then e\<lparr>ce_last_active := clk\<rparr> else e)"
    if "get_live_entry sid p = Some e" for sid e
  proof -
    obtain b where b: "map_of (pl_pool p) sid = Some b" and e: "e = entry_at b p"
      using \<open>get_live_entry sid p = Some e\<close> by (auto simp: get_live_entry_def)
    show ?thesis using live [OF b] unfolding e .
  qed
  ultimately show ?thesis by blast
qed

text \<open>A finished child that is talked to again keeps its result. When the session of a finished,
  not yet reaped child is acquired without a profile and there is room, a core is loaded with
  the child's own profile, and afterwards the child is live, no zombie any more, with the parent,
  task, status, result and error it had.\<close>

theorem reacquired_child_keeps_result:
  assumes "pool_ok p" and "map_of (pl_pool p) sid = None" and "map_of (pl_zombies p) sid = Some z"
    and "length (pl_pool p) < pl_max p"
    and "acquire_begin sid source user_id True None p = (AtLock q, p1)"
    and "acquire_locked clk q p1 = (st, p2)"
    and "acquire_finish wall clk' q ag pr p2 = (a, p3)"
  shows "st = Loading (Some (ce_profile (entry_at z p)))
    \<and> \<not> is_zombie sid p3
    \<and> (\<exists>e. get_live_entry sid p3 = Some e \<and> get_entry sid p3 = Some e \<and> ce_agent e = Some ag
         \<and> ce_parent e = ce_parent (entry_at z p) \<and> ce_task_description e = ce_task_description (entry_at z p)
         \<and> ce_sub_status e = ce_sub_status (entry_at z p) \<and> ce_sub_result e = ce_sub_result (entry_at z p)
         \<and> ce_sub_error e = ce_sub_error (entry_at z p) \<and> ce_created_at e = ce_created_at (entry_at z p))"
proof -
  have q: "aq_session q = sid" "aq_existing q = None" "aq_profile q = None" "aq_create q"
    and p1: "p1 = snd (get_lock sid p)"
    using assms(2,5) acquire_begin_cases [of sid source user_id True None p] by auto
  have view: "pl_pool p1 = pl_pool p" "pl_zombies p1 = pl_zombies p" "pl_max p1 = pl_max p" "pl_entries p1 = pl_entries p"
    by (simp_all add: p1 get_lock_def split: option.split)
  have p2: "st = Loading (Some (ce_profile (entry_at z p)))" "pl_pool p2 = pl_pool p"
    "pl_zombies p2 = pl_zombies p" "pl_entries p2 = pl_entries p"
    using assms(2-4,6) view q by (auto simp: acquire_locked_def Let_def get_entry_def get_addr_def entry_at_def)
  have "entry_at z p2 = entry_at z p" by (simp add: entry_at_def p2)
  with assms(3,7) q p2 show ?thesis
    by (auto simp: acquire_finish_def Let_def alloc_def release_lock_def get_live_entry_def get_entry_def
        get_addr_def entry_at_def is_zombie_def inherit_def fresh_entry_def nth_append)
qed

text \<open>The eviction of a finished child against its parent's reaping. From the first moment of the
  eviction the child's final entry is found, without its core. But when the parent reaps the child
  while the eviction is still closing its core, the end of the eviction puts the zombie back: the
  child is both reaped and listed again.\<close>

theorem eviction_undoes_reap:
  assumes "pool_ok p" and "map_of (pl_pool p) sid = Some a" and "startswith sid ''sub:''"
    and "entry_terminal (entry_at a p)" and "evict_begin clk sid False p = (Some ev, p1)"
  shows "get_entry sid p1 = Some (strip_for_zombie clk (entry_at a p)) \<and> is_zombie sid p1
    \<and> \<not> is_zombie sid (reap_zombie wall sid p1)
    \<and> is_zombie sid (evict_end clk' ev (reap_zombie wall sid p1))
    \<and> fst (was_reaped wall sid (evict_end clk' ev (reap_zombie wall sid p1)))"
proof -
  let ?e = "entry_at a p" and ?z = "length (pl_entries p)"
  have sub: "is_subagent sid ?e" using assms(3) by (simp add: is_subagent_def)
  have ev: "ev = \<lparr>ev_session = sid, ev_entry = a, ev_shutdown = False\<rparr>"
    and p1: "p1 = snd (alloc (strip_for_zombie clk ?e) p)
        \<lparr>pl_pool := dpop sid (pl_pool p), pl_zombies := dset sid ?z (pl_zombies p)\<rparr>"
    using assms(2,4,5) sub by (auto simp: evict_begin_def keep_zombie_eq entry_at_def alloc_def)
  have a: "a < length (pl_entries p)" using live_bound [OF assms(1,2)] .
  let ?r = "reap_zombie wall sid p1"
  have r: "pl_pool ?r = dpop sid (pl_pool p)" "pl_zombies ?r = dpop sid (dset sid ?z (pl_zombies p))"
    "entry_at a ?r = ?e" "map_of (pl_reaped ?r) sid = Some wall"
    using assms(3) a by (simp_all add: p1 reap_zombie_def discard_pending_lifecycle_def entry_at_def nth_append)
  have fin: "is_zombie sid (evict_end clk' ev ?r)" "map_of (pl_reaped (evict_end clk' ev ?r)) sid = Some wall"
    using r sub assms(4)
    by (simp_all add: evict_end_def ev keep_zombie_eq is_zombie_def Let_def) (simp_all add: entry_at_def alloc_def)
  show ?thesis
    using fin r by (simp add: p1 get_entry_def get_addr_def is_zombie_def was_reaped_def reap_memory_seconds_def
        entry_at_def)
qed

text \<open>One core per session is not guaranteed while a session is being evicted. An acquire that loads
  a session holds the session's lock, but the end of an earlier eviction drops the lock from the
  table as long as the new core is not in it; the next acquire of the session is given another,
  free lock, and goes on to load a second core.\<close>

theorem eviction_drops_held_lock:
  assumes "pool_ok p" and "map_of (pl_locks p) sid = Some l" and "l \<in> pl_held p"
    and "map_of (pl_pool p) sid = None" and "ev_session ev = sid"
    and "acquire_begin sid source user_id True None (evict_end clk ev p) = (step, p')"
    and "length (pl_pool p) < pl_max p"
  shows "\<exists>q. step = AtLock q \<and> aq_lock q \<noteq> l \<and> aq_lock q \<notin> pl_held p'
    \<and> (\<exists>pr. fst (acquire_locked clk' q p') = Loading pr)"
proof -
  let ?e = "evict_end clk ev p"
  have view: "pl_pool ?e = pl_pool p" "map_of (pl_locks ?e) sid = None" "pl_held ?e = pl_held p"
    "pl_next_lock ?e = pl_next_lock p" "pl_max ?e = pl_max p"
    using assms(4,5) by (simp_all add: evict_end_def Let_def has_key_iff keep_zombie_eq) (simp_all add: alloc_def)
  obtain q where q: "step = AtLock q" "aq_lock q = pl_next_lock p" "aq_session q = sid" "aq_create q"
    and p': "p' = snd (get_lock sid ?e)"
    using assms(4,6) view acquire_begin_cases [of sid source user_id True None ?e]
    by (auto simp: acquire_begin_def get_lock_def Let_def split: prod.splits)
  have held: "pl_held p' = pl_held p" "pl_pool p' = pl_pool p" "pl_max p' = pl_max p"
    using view by (simp_all add: p' get_lock_def)
  have "aq_lock q \<noteq> l" "aq_lock q \<notin> pl_held p'"
    using pool_okD(7) [OF assms(1) addr_in [OF assms(2)]] pool_okD(8) [OF assms(1), of "aq_lock q"] q held by auto
  moreover have "\<exists>pr. fst (acquire_locked clk' q p') = Loading pr"
    using assms(4,7) q held by (simp add: acquire_locked_def Let_def)
  ultimately show ?thesis using q(1) by blast
qed

section \<open>Witnesses\<close>

definition demo_entry :: "goal_store \<Rightarrow> sub_status option \<Rightarrow> core_entry" where
  "demo_entry goals status = (fresh_entry 0 0
     (Some \<lparr>ag_source = ''subagent'', ag_user_id = ''a1'', ag_goals = goals, ag_ttl_offset = 0\<rparr>) base_profile)
       \<lparr>ce_sub_status := status, ce_sub_result := Some ''42''\<rparr>"

text \<open>Two idle sessions, the second with an active goal.\<close>

definition demo_idle :: pool where
  "demo_idle = (new_pool 4)\<lparr>pl_entries := [demo_entry [] None, demo_entry demo_goals None],
     pl_pool := [(''cli:a'', 0), (''cli:b'', 1)]\<rparr>"

text \<open>A finished child, live or as a zombie.\<close>

definition demo_child :: "bool \<Rightarrow> pool" where
  "demo_child zombie = (new_pool 4)\<lparr>pl_entries := [demo_entry [] (Some SubCompleted),
       strip_for_zombie 0 (demo_entry [] (Some SubCompleted))],
     pl_pool := (if zombie then [] else [(''sub:a1'', 0)]),
     pl_zombies := (if zombie then [(''sub:a1'', 1)] else []),
     pl_locks := [(''sub:a1'', 0)], pl_held := {0}, pl_next_lock := 1\<rparr>"

lemma demo_pools_ok: "pool_ok demo_idle" "pool_ok (demo_child z)"
  by (auto simp: pool_ok_def demo_idle_def demo_child_def new_pool_def table_ok_def addrs_def dict_ok_def
      entry_at_def dead_entry_def strip_for_zombie_def entry_terminal_def demo_entry_def less_Suc_eq)

lemma idle_scan_exact_witness:
  "fst (scan_expired 2000 (\<lambda>_. False) demo_idle) = [''cli:a'']"
proof -
  have "strip ''ship'' = ''ship''" by (simp add: strip_id_iff_ends is_space_def)
  then have "has_active_goals demo_goals"
    by (simp add: demo_goals_def create_goal_def has_active_iff Let_def)
  then have "filter (\<lambda>(sid, a). is_expired 2000 (entry_at a demo_idle) \<and> \<not> pinned (\<lambda>_. False) sid (entry_at a demo_idle))
      (pl_pool demo_idle) = [(''cli:a'', 0)]"
    by (simp add: demo_idle_def entry_at_def is_expired_def demo_entry_def fresh_entry_def base_profile_def
        pinned_def has_active_goals_def list_goals_def)
  moreover obtain sids p' where r: "scan_expired 2000 (\<lambda>_. False) demo_idle = (sids, p')" by (cases "scan_expired 2000 (\<lambda>_. False) demo_idle")
  ultimately show ?thesis using idle_scan_exact [OF demo_pools_ok(1) r] by simp
qed

lemma reacquired_child_keeps_result_witness:
  "\<exists>q p3. fst (acquire_begin ''sub:a1'' ''cli'' ''root'' True None (demo_child True)) = AtLock q
     \<and> acquire_locked 0 q (snd (acquire_begin ''sub:a1'' ''cli'' ''root'' True None (demo_child True)))
         = (Loading (Some base_profile), p3)
     \<and> map_option ce_sub_result (get_live_entry ''sub:a1'' (snd (acquire_finish 1 1 q
            \<lparr>ag_source = ''subagent'', ag_user_id = ''a1'', ag_goals = [], ag_ttl_offset = 0\<rparr> base_profile p3))) = Some (Some ''42'')"
proof -
  let ?p = "demo_child True"
  have live: "map_of (pl_pool ?p) ''sub:a1'' = None" "map_of (pl_zombies ?p) ''sub:a1'' = Some 1"
    "length (pl_pool ?p) < pl_max ?p" by (simp_all add: demo_child_def new_pool_def)
  obtain q p1 where b: "acquire_begin ''sub:a1'' ''cli'' ''root'' True None ?p = (AtLock q, p1)"
    using acquire_begin_cases [of "''sub:a1''" "''cli''" "''root''" True None ?p] live(1)
    by (auto simp: acquire_begin_def split: prod.splits)
  obtain st p2 where l: "acquire_locked 0 q p1 = (st, p2)" by (cases "acquire_locked 0 q p1")
  let ?ag = "\<lparr>ag_source = ''subagent'', ag_user_id = ''a1'', ag_goals = [], ag_ttl_offset = 0\<rparr>"
  obtain a p3 where f: "acquire_finish 1 1 q ?ag base_profile p2 = (a, p3)"
    by (cases "acquire_finish 1 1 q ?ag base_profile p2")
  have e: "entry_at (Suc 0) ?p = strip_for_zombie 0 (demo_entry [] (Some SubCompleted))"
    by (simp add: demo_child_def entry_at_def)
  show ?thesis
    using reacquired_child_keeps_result [OF demo_pools_ok(2) live b l f] b l f
    by (auto simp: e strip_for_zombie_def demo_entry_def fresh_entry_def)
qed

lemma eviction_undoes_reap_witness:
  "\<exists>ev p1. evict_begin 5 ''sub:a1'' False (demo_child False) = (Some ev, p1)
     \<and> is_zombie ''sub:a1'' (evict_end 9 ev (reap_zombie 7 ''sub:a1'' p1))"
proof -
  have h: "map_of (pl_pool (demo_child False)) ''sub:a1'' = Some 0" "startswith ''sub:a1'' ''sub:''"
    "entry_terminal (entry_at 0 (demo_child False))"
    by (simp_all add: demo_child_def entry_at_def entry_terminal_def demo_entry_def)
  then obtain ev p1 where b: "evict_begin 5 ''sub:a1'' False (demo_child False) = (Some ev, p1)"
    by (auto simp: evict_begin_def)
  show ?thesis using eviction_undoes_reap [OF demo_pools_ok(2) h b] b by blast
qed

lemma eviction_drops_held_lock_witness:
  "let ev = \<lparr>ev_session = ''sub:a1'', ev_entry = 0, ev_shutdown = False\<rparr>;
       step = acquire_begin ''sub:a1'' ''cli'' ''root'' True None (evict_end 5 ev (demo_child True))
   in \<exists>q. fst step = AtLock q \<and> aq_lock q \<noteq> 0"
proof -
  let ?ev = "\<lparr>ev_session = ''sub:a1'', ev_entry = 0, ev_shutdown = False\<rparr>"
  obtain st p' where b: "acquire_begin ''sub:a1'' ''cli'' ''root'' True None (evict_end 5 ?ev (demo_child True)) = (st, p')"
    by (cases "acquire_begin ''sub:a1'' ''cli'' ''root'' True None (evict_end 5 ?ev (demo_child True))")
  have "\<exists>q. st = AtLock q \<and> aq_lock q \<noteq> 0"
    using eviction_drops_held_lock [OF demo_pools_ok(2) _ _ _ _ b, of 0 0]
    by (auto simp: demo_child_def new_pool_def)
  then show ?thesis using b by (auto simp: Let_def)
qed

end
