(* ===== verification/Subagents.thy ===== *)
theory Subagents
  imports Core_Pool Scheduler
begin

text \<open>
  The end of a child (\<open>system/kernel/core_pool.py\<close> with \<open>system/kernel/scheduler.py\<close>):
  recording the outcome, waking a parent that waits in a tool, and otherwise telling the parent
  by a request, which is staged while the parent is busy.

  The process table and the scheduler call each other, so the state is the pair of them. The
  wording of a notification, the chat that a Feishu session belongs to, and the clock and fresh
  ids of an injected request are parameters.
\<close>

section \<open>State\<close>

record 'c kernel =
  kn_pool :: pool
  kn_sched :: "'c sched"

record note_env =
  ne_render :: "lifecycle_note \<Rightarrow> str"
  ne_chat :: "str \<Rightarrow> str"
  ne_message_id :: "str \<Rightarrow> str"
  ne_request_id :: "str \<Rightarrow> str"
  ne_enqueued :: "str \<Rightarrow> real"

fun status_str :: "sub_status \<Rightarrow> str" where
  "status_str SubRunning = ''running''"
| "status_str SubCompleted = ''completed''"
| "status_str SubFailed = ''failed''"
| "status_str SubCancelled = ''cancelled''"

text \<open>What the scheduler reads of a child's entry.\<close>

definition sub_info_of :: "core_entry \<Rightarrow> sub_info" where
  "sub_info_of e = \<lparr>si_status = map_option status_str (ce_sub_status e), si_result = ce_sub_result e,
     si_error = ce_sub_error e\<rparr>"

definition get_sub_info :: "str \<Rightarrow> 'c kernel \<Rightarrow> sub_info option" where
  "get_sub_info sub k = map_option sub_info_of (get_entry sub (kn_pool k))"

definition subagent_id :: "str \<Rightarrow> str" where
  "subagent_id sid = (if startswith sid ''sub:'' then drop 4 sid else sid)"

section \<open>Telling the parent\<close>

definition was_reaped_sub :: "real \<Rightarrow> str \<Rightarrow> pool \<Rightarrow> bool \<times> pool" where
  "was_reaped_sub wall sid p = (if startswith sid ''sub:'' then was_reaped wall sid p else (False, p))"

definition lifecycle_request :: "note_env \<Rightarrow> str \<Rightarrow> core_entry \<Rightarrow> str \<Rightarrow> kernel_request" where
  "lifecycle_request env sid e content =
     (let parent = strip (opt_str (ce_parent e));
          msg = \<lparr>am_message_id = ne_message_id env sid, am_sender_session = sid,
                 am_receiver_session = parent,
                 am_message_type = (if ce_sub_status e = Some SubCompleted then MsgTask else MsgNotify),
                 am_correlation_id = None, am_subagent_id = Some (subagent_id sid),
                 am_require_reply = False\<rparr>;
          chat = (if startswith parent ''feishu:'' then ne_chat env parent else [])
      in create_request (ne_enqueued env sid) (ne_request_id env sid) content parent ''subagent'' (-1)
           (Some (if chat \<noteq> [] then [(''feishu_chat_id'', PyStr chat)] else []))
           (Some (EnvMessage msg)) None None)"

definition inject_to_parent :: "note_env \<Rightarrow> real \<Rightarrow> str \<Rightarrow> core_entry \<Rightarrow> str \<Rightarrow> 'c kernel \<Rightarrow> 'c kernel" where
  "inject_to_parent env wall sid e content k =
     (if strip (opt_str (ce_parent e)) = [] then k
      else case was_reaped_sub wall sid (kn_pool k) of
             (reaped, p) \<Rightarrow>
               if reaped then k\<lparr>kn_pool := p\<rparr>
               else k\<lparr>kn_pool := p, kn_sched := inject_turn (lifecycle_request env sid e content) (kn_sched k)\<rparr>)"

definition drop_pending :: "str \<Rightarrow> 'c kernel \<Rightarrow> 'c kernel" where
  "drop_pending sub k = k\<lparr>kn_pool := (kn_pool k)\<lparr>pl_pending := dpop sub (pl_pending (kn_pool k))\<rparr>\<rparr>"

text \<open>One round of the loop in \<open>flush_pending_subagent_lifecycle_for_parent\<close>.\<close>

definition flush_child :: "note_env \<Rightarrow> real \<Rightarrow> str \<Rightarrow> str \<Rightarrow> 'c kernel \<Rightarrow> 'c kernel" where
  "flush_child env wall pid sub k =
     (case get_entry sub (kn_pool k) of
        None \<Rightarrow> drop_pending sub k
      | Some e \<Rightarrow>
          if strip (opt_str (ce_parent e)) \<noteq> pid then k
          else if should_suppress_lifecycle sub (kn_pool k) then drop_pending sub k
          else case was_reaped_sub wall sub (kn_pool k) of
                 (reaped, p) \<Rightarrow>
                   let k1 = k\<lparr>kn_pool := p\<rparr>
                   in if reaped then drop_pending sub k1
                      else case map_of (pl_pending p) sub of
                             None \<Rightarrow> k1
                           | Some note \<Rightarrow>
                               if ne_render env note = [] then drop_pending sub k1
                               else inject_to_parent env wall sub e (ne_render env note) (drop_pending sub k1))"

definition flush_pending :: "note_env \<Rightarrow> real \<Rightarrow> str \<Rightarrow> 'c kernel \<Rightarrow> 'c kernel" where
  "flush_pending env wall parent k =
     (let pid = strip parent
      in if pid = [] then k else fold (flush_child env wall pid) (dkeys (pl_pending (kn_pool k))) k)"

definition stage_notification :: "note_env \<Rightarrow> real \<Rightarrow> str \<Rightarrow> lifecycle_note \<Rightarrow> 'c kernel \<Rightarrow> 'c kernel" where
  "stage_notification env wall sub note k =
     (let sid = strip sub;
          k1 = k\<lparr>kn_pool := (kn_pool k)\<lparr>pl_pending := dset sid note (pl_pending (kn_pool k))\<rparr>\<rparr>
      in case get_entry sid (kn_pool k1) of
           None \<Rightarrow> k1
         | Some e \<Rightarrow>
             let parent = strip (opt_str (ce_parent e))
             in if parent = [] then k1
                else if inflight_count parent (kn_sched k1) > 0 then k1
                else flush_pending env wall parent k1)"

section \<open>A child ends\<close>

definition notify_or_stage :: "note_env \<Rightarrow> real \<Rightarrow> str \<Rightarrow> lifecycle_note \<Rightarrow> 'c kernel \<Rightarrow> 'c kernel" where
  "notify_or_stage env wall sub note k =
     (case notify_terminal_waiter (get_sub_info sub k) sub (kn_sched k) of
        (woke, s) \<Rightarrow>
          let k1 = k\<lparr>kn_sched := s\<rparr>
          in if woke then k1 else stage_notification env wall sub note k1)"

definition completion_note :: "str \<Rightarrow> core_entry \<Rightarrow> str \<Rightarrow> lifecycle_note" where
  "completion_note sub e result =
     NoteCompleted (subagent_id sub) (take 80 (opt_str (ce_task_description e))) (take 200 result)
       (length result > 200)"

definition on_sub_complete :: "note_env \<Rightarrow> real \<Rightarrow> str \<Rightarrow> str \<Rightarrow> 'c kernel \<Rightarrow> 'c kernel" where
  "on_sub_complete env wall sub result k =
     (case get_addr sub (kn_pool k) of
        None \<Rightarrow> k
      | Some a \<Rightarrow>
          let e = entry_at a (kn_pool k)
          in if ce_sub_status e = Some SubCancelled then k
             else
               notify_or_stage env wall sub (completion_note sub e result)
                 (k\<lparr>kn_pool := put_entry a
                      (e\<lparr>ce_sub_status := Some SubCompleted, ce_sub_result := Some result,
                         ce_sub_error := None, ce_sub_completed_at := Some wall\<rparr>) (kn_pool k)\<rparr>))"

definition on_sub_fail :: "note_env \<Rightarrow> real \<Rightarrow> str \<Rightarrow> str \<Rightarrow> 'c kernel \<Rightarrow> 'c kernel" where
  "on_sub_fail env wall sub error k =
     (case get_addr sub (kn_pool k) of
        None \<Rightarrow> k
      | Some a \<Rightarrow>
          let e = entry_at a (kn_pool k)
          in if ce_sub_status e = Some SubCancelled then k
             else
               notify_or_stage env wall sub (NoteFailed (subagent_id sub) error)
                 (k\<lparr>kn_pool := put_entry a
                      (e\<lparr>ce_sub_status := Some SubFailed, ce_sub_error := Some error,
                         ce_sub_completed_at := Some wall\<rparr>) (kn_pool k)\<rparr>))"

text \<open>
  \<open>cancel_sub\<close> is suspended while the scheduler cancels the session's tasks. It keeps the
  entry it found. The first step also names the background task that is cancelled, when
  \<open>running\<close> says that it is not done.
\<close>

datatype cancel_step = CancelUnknown | CancelNoOp | Cancelling nat "nat option"

definition cancel_sub_begin :: "(nat \<Rightarrow> bool) \<Rightarrow> str \<Rightarrow> 'c kernel \<Rightarrow> cancel_step \<times> 'c kernel" where
  "cancel_sub_begin running sub k =
     (case get_addr sub (kn_pool k) of
        None \<Rightarrow> (CancelUnknown, k)
      | Some a \<Rightarrow>
          let e = entry_at a (kn_pool k)
          in if entry_terminal e then (CancelNoOp, k)
             else (Cancelling a (case ce_bg_task e of None \<Rightarrow> None | Some b \<Rightarrow> if running b then Some b else None),
                   k\<lparr>kn_sched := snd (cancel_session_tasks sub (kn_sched k))\<rparr>))"

definition cancel_sub_end :: "real \<Rightarrow> str \<Rightarrow> nat \<Rightarrow> 'c kernel \<Rightarrow> 'c kernel" where
  "cancel_sub_end wall sub a k =
     (let k1 = k\<lparr>kn_pool := put_entry a
                   ((entry_at a (kn_pool k))\<lparr>ce_sub_status := Some SubCancelled,
                      ce_sub_completed_at := Some wall\<rparr>) (kn_pool k)\<rparr>
      in k1\<lparr>kn_sched := snd (notify_terminal_waiter (get_sub_info sub k1) sub (kn_sched k1))\<rparr>)"

section \<open>What a flush delivers\<close>

definition reaped_now :: "real \<Rightarrow> str \<Rightarrow> pool \<Rightarrow> bool" where
  "reaped_now wall sub p \<longleftrightarrow> fst (was_reaped_sub wall sub p)"

text \<open>A staged note is for another parent, or due now; otherwise it is stale.\<close>

definition note_kept :: "str \<Rightarrow> pool \<Rightarrow> str \<Rightarrow> bool" where
  "note_kept pid p sub \<longleftrightarrow>
     (case get_entry sub p of None \<Rightarrow> False | Some e \<Rightarrow> strip (opt_str (ce_parent e)) \<noteq> pid)"

definition note_due :: "real \<Rightarrow> str \<Rightarrow> pool \<Rightarrow> str \<Rightarrow> bool" where
  "note_due wall pid p sub \<longleftrightarrow>
     (case get_entry sub p of None \<Rightarrow> False | Some e \<Rightarrow> strip (opt_str (ce_parent e)) = pid)
     \<and> \<not> should_suppress_lifecycle sub p \<and> \<not> reaped_now wall sub p"

definition due_requests :: "note_env \<Rightarrow> real \<Rightarrow> str \<Rightarrow> pool \<Rightarrow> (str, lifecycle_note) dict \<Rightarrow> kernel_request list" where
  "due_requests env wall pid p notes_of =
     map (\<lambda>(sub, note). lifecycle_request env sub (the (get_entry sub p)) (ne_render env note))
       (filter (\<lambda>(sub, _). note_due wall pid p sub) notes_of)"

text \<open>What the flush reads and does not change.\<close>

definition same_view :: "real \<Rightarrow> pool \<Rightarrow> pool \<Rightarrow> bool" where
  "same_view wall p p' \<longleftrightarrow> pl_entries p' = pl_entries p \<and> pl_pool p' = pl_pool p
     \<and> pl_zombies p' = pl_zombies p \<and> pl_waited p' = pl_waited p
     \<and> (\<forall>sub. reaped_now wall sub p' = reaped_now wall sub p)"

lemma same_view_refl [simp]: "same_view wall p p"
  by (simp add: same_view_def)

lemma same_view_trans: "same_view wall p q \<Longrightarrow> same_view wall q r \<Longrightarrow> same_view wall p r"
  by (simp add: same_view_def)

lemma same_view_addr: "same_view wall p q \<Longrightarrow> get_addr sub q = get_addr sub p"
  by (simp add: same_view_def get_addr_def split: option.split)

lemma same_view_entry: "same_view wall p q \<Longrightarrow> get_entry sub q = get_entry sub p"
  by (simp add: same_view_def get_entry_def get_addr_def entry_at_def split: option.split)

lemma same_view_due: "same_view wall p q \<Longrightarrow> note_due wall pid q sub = note_due wall pid p sub"
  using same_view_entry [of wall p q sub]
  by (simp add: note_due_def same_view_def should_suppress_lifecycle_def)

lemma same_view_kept: "same_view wall p q \<Longrightarrow> note_kept pid q sub = note_kept pid p sub"
  using same_view_entry [of wall p q sub] by (simp add: note_kept_def)

lemma same_view_reaped: "same_view wall p (snd (was_reaped_sub wall sub p))"
  by (auto simp: same_view_def reaped_now_def was_reaped_sub_def was_reaped_def split: option.split)

lemma same_view_pending: "same_view wall p (p\<lparr>pl_pending := d\<rparr>)"
  by (simp add: same_view_def reaped_now_def was_reaped_sub_def was_reaped_def split: option.split)

lemma was_reaped_pending:
  "pl_pending (snd (was_reaped_sub wall sub p)) = pl_pending p"
  by (simp add: was_reaped_sub_def was_reaped_def split: option.split)

lemma inject_effect:
  assumes "strip (opt_str (ce_parent e)) \<noteq> []" and "\<not> reaped_now wall sub (kn_pool k)"
  shows "same_view wall (kn_pool k) (kn_pool (inject_to_parent env wall sub e c k))
    \<and> pl_pending (kn_pool (inject_to_parent env wall sub e c k)) = pl_pending (kn_pool k)
    \<and> kn_sched (inject_to_parent env wall sub e c k) = inject_turn (lifecycle_request env sub e c) (kn_sched k)"
  using assms same_view_reaped [of wall "kn_pool k" sub] was_reaped_pending [of wall sub "kn_pool k"]
  by (auto simp: inject_to_parent_def reaped_now_def split: prod.splits)

lemma flush_child_effect:
  assumes staged: "map_of (pl_pending (kn_pool k)) sub = Some note" and "ne_render env note \<noteq> []" and pid: "pid \<noteq> []"
  shows "same_view wall (kn_pool k) (kn_pool (flush_child env wall pid sub k))
    \<and> pl_pending (kn_pool (flush_child env wall pid sub k)) =
        (if note_kept pid (kn_pool k) sub then pl_pending (kn_pool k) else dpop sub (pl_pending (kn_pool k)))
    \<and> kn_sched (flush_child env wall pid sub k) =
        (if note_due wall pid (kn_pool k) sub
         then inject_turn (lifecycle_request env sub (the (get_entry sub (kn_pool k))) (ne_render env note)) (kn_sched k)
         else kn_sched k)"
proof (cases "get_entry sub (kn_pool k)")
  case None
  then show ?thesis by (simp add: flush_child_def drop_pending_def note_kept_def note_due_def same_view_pending)
next
  case (Some e)
  obtain b p where r: "was_reaped_sub wall sub (kn_pool k) = (b, p)" by (cases "was_reaped_sub wall sub (kn_pool k)")
  have v: "same_view wall (kn_pool k) p" "pl_pending p = pl_pending (kn_pool k)"
    using same_view_reaped [of wall "kn_pool k" sub] was_reaped_pending [of wall sub "kn_pool k"] r by simp_all
  let ?k = "drop_pending sub (k\<lparr>kn_pool := p\<rparr>)"
  have dv: "same_view wall (kn_pool k) (kn_pool ?k)"
    using same_view_trans [OF v(1) same_view_pending] by (simp add: drop_pending_def)
  consider (other) "strip (opt_str (ce_parent e)) \<noteq> pid"
    | (dropped) "strip (opt_str (ce_parent e)) = pid" "should_suppress_lifecycle sub (kn_pool k)"
    | (reaped) "strip (opt_str (ce_parent e)) = pid" "\<not> should_suppress_lifecycle sub (kn_pool k)" b
    | (due) "strip (opt_str (ce_parent e)) = pid" "\<not> should_suppress_lifecycle sub (kn_pool k)" "\<not> b" by blast
  then show ?thesis
  proof cases
    case due
    then have "\<not> reaped_now wall sub (kn_pool ?k)" using dv r by (simp add: same_view_def reaped_now_def)
    with due pid have "same_view wall (kn_pool ?k) (kn_pool (inject_to_parent env wall sub e (ne_render env note) ?k))
      \<and> pl_pending (kn_pool (inject_to_parent env wall sub e (ne_render env note) ?k)) = pl_pending (kn_pool ?k)
      \<and> kn_sched (inject_to_parent env wall sub e (ne_render env note) ?k)
          = inject_turn (lifecycle_request env sub e (ne_render env note)) (kn_sched ?k)"
      by (intro inject_effect) simp_all
    moreover have "flush_child env wall pid sub k = inject_to_parent env wall sub e (ne_render env note) ?k"
      using due Some r v(2) staged assms(2) by (simp add: flush_child_def Let_def)
    ultimately show ?thesis
      using same_view_trans [OF dv] Some due r v(2)
      by (simp add: note_kept_def note_due_def reaped_now_def drop_pending_def)
  next
    case reaped
    then show ?thesis
      using Some r v dv by (simp add: flush_child_def Let_def drop_pending_def note_kept_def note_due_def reaped_now_def)
  qed (use Some in \<open>simp_all add: flush_child_def drop_pending_def note_kept_def note_due_def same_view_pending\<close>)
qed

lemma flush_fold:
  assumes "pid \<noteq> []" and "\<forall>n. ne_render env n \<noteq> []" and "distinct xs"
    and "\<forall>x \<in> set xs. map_of (pl_pending (kn_pool k)) x = Some (nt x)"
  shows "same_view wall (kn_pool k) (kn_pool (fold (flush_child env wall pid) xs k))
    \<and> map_of (pl_pending (kn_pool (fold (flush_child env wall pid) xs k)))
        = (\<lambda>y. if y \<in> set xs \<and> \<not> note_kept pid (kn_pool k) y then None else map_of (pl_pending (kn_pool k)) y)
    \<and> pl_pending (kn_pool (fold (flush_child env wall pid) xs k))
        = filter (\<lambda>(y, _). y \<notin> set xs \<or> note_kept pid (kn_pool k) y) (pl_pending (kn_pool k))
    \<and> kn_sched (fold (flush_child env wall pid) xs k)
        = fold inject_turn (map (\<lambda>x. lifecycle_request env x (the (get_entry x (kn_pool k))) (ne_render env (nt x)))
            (filter (note_due wall pid (kn_pool k)) xs)) (kn_sched k)"
  using assms(3,4)
proof (induction xs arbitrary: k)
  case Nil
  then show ?case by simp
next
  case (Cons x xs)
  let ?k = "flush_child env wall pid x k"
  note step = flush_child_effect [OF _ _ assms(1), of k x "nt x" env wall]
  have v: "same_view wall (kn_pool k) (kn_pool ?k)"
    and pend: "pl_pending (kn_pool ?k) =
        (if note_kept pid (kn_pool k) x then pl_pending (kn_pool k) else dpop x (pl_pending (kn_pool k)))"
    and sched: "kn_sched ?k = (if note_due wall pid (kn_pool k) x
         then inject_turn (lifecycle_request env x (the (get_entry x (kn_pool k))) (ne_render env (nt x))) (kn_sched k)
         else kn_sched k)"
    using step Cons.prems(2) assms(2) by auto
  have "distinct xs" "\<forall>y \<in> set xs. map_of (pl_pending (kn_pool ?k)) y = Some (nt y)"
    using Cons.prems by (auto simp: pend)
  note ih = Cons.IH [OF this]
  have due: "note_due wall pid (kn_pool ?k) = note_due wall pid (kn_pool k)"
    and kept: "note_kept pid (kn_pool ?k) = note_kept pid (kn_pool k)"
    and entry: "\<And>y. get_entry y (kn_pool ?k) = get_entry y (kn_pool k)"
    using same_view_due [OF v] same_view_kept [OF v] same_view_entry [OF v] by blast+
  have "pl_pending (kn_pool (fold (flush_child env wall pid) xs ?k))
      = filter (\<lambda>(y, _). y \<notin> set (x # xs) \<or> note_kept pid (kn_pool k) y) (pl_pending (kn_pool k))"
  proof -
    have "filter (\<lambda>(y, _). y \<notin> set xs \<or> note_kept pid (kn_pool k) y) (dpop x (pl_pending (kn_pool k)))
        = filter (\<lambda>(y, _). y \<noteq> x \<and> (y \<notin> set xs \<or> note_kept pid (kn_pool k) y)) (pl_pending (kn_pool k))"
      by (auto simp: AList.delete_eq intro: filter_cong)
    moreover have "filter (\<lambda>(y, _). y \<notin> set xs \<or> note_kept pid (kn_pool k) y) (pl_pending (kn_pool k))
        = filter (\<lambda>(y, _). y \<notin> set (x # xs) \<or> note_kept pid (kn_pool k) y) (pl_pending (kn_pool k))"
      if "note_kept pid (kn_pool k) x" using that by (auto intro!: filter_cong)
    ultimately show ?thesis
      using ih Cons.prems(1) by (auto simp: pend kept intro!: filter_cong)
  qed
  with ih same_view_trans [OF v] show ?case
    by (auto simp: pend sched due kept entry fun_eq_iff)
qed

lemma flush_pending_effect:
  assumes "strip parent \<noteq> []" and "\<forall>n. ne_render env n \<noteq> []" and ok: "dict_ok (pl_pending (kn_pool k))"
  shows "same_view wall (kn_pool k) (kn_pool (flush_pending env wall parent k))"
    and "pl_pending (kn_pool (flush_pending env wall parent k))
        = filter (\<lambda>(y, _). note_kept (strip parent) (kn_pool k) y) (pl_pending (kn_pool k))"
    and "kn_sched (flush_pending env wall parent k)
        = fold inject_turn (due_requests env wall (strip parent) (kn_pool k) (pl_pending (kn_pool k))) (kn_sched k)"
proof -
  let ?d = "pl_pending (kn_pool k)" and ?nt = "\<lambda>x. the (map_of (pl_pending (kn_pool k)) x)"
  let ?P = "note_due wall (strip parent) (kn_pool k)"
  let ?R = "\<lambda>x n. lifecycle_request env x (the (get_entry x (kn_pool k))) (ne_render env n)"
  have look: "?nt x = n" if "(x, n) \<in> set ?d" for x n using in_set_dget [OF ok that] by simp
  have keys: "distinct (dkeys ?d)" "\<forall>x \<in> set (dkeys ?d). map_of ?d x = Some (?nt x)"
    using ok in_set_dget [OF ok] by (auto simp: dict_ok_def)
  have run: "flush_pending env wall parent k = fold (flush_child env wall (strip parent)) (dkeys ?d) k"
    using assms(1) by (simp add: flush_pending_def)
  note eff = flush_fold [OF assms(1,2) keys, of wall]
  show "same_view wall (kn_pool k) (kn_pool (flush_pending env wall parent k))" using eff by (simp only: run)
  have "filter (\<lambda>(y, _). y \<notin> set (dkeys ?d) \<or> note_kept (strip parent) (kn_pool k) y) ?d
      = filter (\<lambda>(y, _). note_kept (strip parent) (kn_pool k) y) ?d"
    by (rule filter_cong) force+
  with eff show "pl_pending (kn_pool (flush_pending env wall parent k))
      = filter (\<lambda>(y, _). note_kept (strip parent) (kn_pool k) y) ?d" by (simp only: run)
  have "map (\<lambda>x. ?R x (?nt x)) (filter ?P (dkeys d')) = map (\<lambda>(x, n). ?R x n) (filter (\<lambda>(x, _). ?P x) d')"
    if "set d' \<subseteq> set ?d" for d'
    using that by (induction d') (auto simp: look)
  from this [OF subset_refl] show "kn_sched (flush_pending env wall parent k)
      = fold inject_turn (due_requests env wall (strip parent) (kn_pool k) ?d) (kn_sched k)"
    using eff unfolding run due_requests_def by simp
qed

section \<open>The invariant\<close>

definition kernel_ok :: "'c kernel \<Rightarrow> bool" where
  "kernel_ok k \<longleftrightarrow> pool_ok (kn_pool k) \<and> dict_ok (pl_pending (kn_pool k)) \<and> sched_ok (kn_sched k)
     \<and> waiters_ok (sc_terminal (kn_sched k))"

lemma pool_ok_view:
  "same_view wall p q \<Longrightarrow> pl_locks q = pl_locks p \<Longrightarrow> pl_held q = pl_held p \<Longrightarrow> pl_next_lock q = pl_next_lock p
     \<Longrightarrow> pool_ok q = pool_ok p"
  by (simp add: same_view_def pool_ok_def entry_at_def)

lemma notify_eq:
  "notify_terminal_waiter i sub s =
     (waiting (sc_terminal s) sub,
      s\<lparr>sc_terminal := snd (pop_settle sub (Result (terminal_result i sub)) (sc_terminal s))\<rparr>)"
  using pop_settle_iff [of sub "Result (terminal_result i sub)" "sc_terminal s"]
  by (simp add: notify_terminal_waiter_def case_prod_unfold)

lemma sched_ok_notify:
  "sched_ok (snd (notify_terminal_waiter i sub s)) = sched_ok s"
  "waiters_ok (sc_terminal s) \<Longrightarrow> waiters_ok (sc_terminal (snd (notify_terminal_waiter i sub s)))"
  by (rule sched_ok_cong) (simp_all add: notify_eq pop_settle_ok)

lemma notify_view [simp]:
  "fst (notify_terminal_waiter i sub s) = waiting (sc_terminal s) sub"
  "sc_queue (snd (notify_terminal_waiter i sub s)) = sc_queue s"
  "sc_inflight (snd (notify_terminal_waiter i sub s)) = sc_inflight s"
  "sc_cancelled (snd (notify_terminal_waiter i sub s)) = sc_cancelled s"
  by (simp_all add: notify_eq)

lemma notify_answer:
  assumes "waiters_ok (sc_terminal s)" and "waiting (sc_terminal s) sub"
  shows "\<exists>f. map_of (tbl (sc_terminal s)) sub = Some f
    \<and> heap (sc_terminal (snd (notify_terminal_waiter i sub s))) ! f = Result (terminal_result i sub)"
  using pop_settle_result [OF assms, of "Result (terminal_result i sub)"] by (simp add: notify_eq)

lemma inject_all_terminal [simp]: "sc_terminal (fold inject_turn rs s) = sc_terminal s"
  by (induction rs arbitrary: s) (simp_all add: inject_turn_def enqueue_def track_enqueue_def Let_def)

text \<open>The outcome of \<open>stage_notification\<close>, for a child whose parent is known.\<close>

lemma stage_effect:
  assumes "strip sub = sub" and "get_entry sub (kn_pool k) = Some e"
    and "strip (opt_str (ce_parent e)) \<noteq> []" and "\<forall>n. ne_render env n \<noteq> []"
    and ok: "dict_ok (pl_pending (kn_pool k))"
  shows "same_view wall (kn_pool k) (kn_pool (stage_notification env wall sub nt k))
    \<and> (inflight_count (strip (opt_str (ce_parent e))) (kn_sched k) > 0 \<longrightarrow>
          pl_pending (kn_pool (stage_notification env wall sub nt k)) = dset sub nt (pl_pending (kn_pool k))
          \<and> kn_sched (stage_notification env wall sub nt k) = kn_sched k)
    \<and> (\<not> inflight_count (strip (opt_str (ce_parent e))) (kn_sched k) > 0 \<longrightarrow>
          pl_pending (kn_pool (stage_notification env wall sub nt k))
            = filter (\<lambda>(y, _). note_kept (strip (opt_str (ce_parent e))) (kn_pool k) y) (dset sub nt (pl_pending (kn_pool k)))
          \<and> kn_sched (stage_notification env wall sub nt k)
            = fold inject_turn (due_requests env wall (strip (opt_str (ce_parent e))) (kn_pool k) (dset sub nt (pl_pending (kn_pool k))))
                (kn_sched k))"
proof -
  let ?P = "strip (opt_str (ce_parent e))"
  let ?k = "k\<lparr>kn_pool := (kn_pool k)\<lparr>pl_pending := dset sub nt (pl_pending (kn_pool k))\<rparr>\<rparr>"
  have v: "same_view wall (kn_pool k) (kn_pool ?k)" using same_view_pending by simp
  have run: "stage_notification env wall sub nt k =
      (if inflight_count ?P (kn_sched k) > 0 then ?k else flush_pending env wall ?P ?k)"
    using assms(1-3) same_view_entry [OF v, of sub] by (simp add: stage_notification_def Let_def)
  have P: "strip ?P = ?P" by simp
  have "due_requests env wall ?P (kn_pool ?k) = due_requests env wall ?P (kn_pool k)"
    using same_view_due [OF v] same_view_entry [OF v] by (simp add: due_requests_def fun_eq_iff)
  with flush_pending_effect [of ?P env ?k wall] assms(3-5) same_view_kept [OF v] same_view_trans [OF v] v
  show ?thesis unfolding run P by simp
qed

lemma kernel_ok_pool:
  "kernel_ok k \<Longrightarrow> pool_ok p \<Longrightarrow> dict_ok (pl_pending p) \<Longrightarrow> kernel_ok (k\<lparr>kn_pool := p\<rparr>)"
  by (simp add: kernel_ok_def)

lemma pool_ok_was_reaped: "pool_ok p \<Longrightarrow> pool_ok (snd (was_reaped_sub wall sub p))"
  by (simp add: was_reaped_sub_def was_reaped_def pool_ok_drop(5) split: option.split)

lemma kernel_ok_drop_pending: "kernel_ok k \<Longrightarrow> kernel_ok (drop_pending sub k)"
  by (simp add: drop_pending_def kernel_ok_def pool_ok_pending)

lemma kernel_ok_was_reaped:
  "kernel_ok k \<Longrightarrow> kernel_ok (k\<lparr>kn_pool := snd (was_reaped_sub wall sub (kn_pool k))\<rparr>)"
  by (simp add: kernel_ok_def pool_ok_was_reaped was_reaped_pending)

lemma inject_turn_keeps:
  "sched_ok s \<Longrightarrow> sched_ok (inject_turn r s)" "sc_terminal (inject_turn r s) = sc_terminal s"
  using sched_ok_inject_all [of s "[r]"] inject_all_terminal [of "[r]" s] by simp_all

lemma kernel_ok_inject: "kernel_ok k \<Longrightarrow> kernel_ok (inject_to_parent env wall sub e c k)"
  using kernel_ok_was_reaped [of k wall sub]
  by (auto simp: inject_to_parent_def kernel_ok_def inject_turn_keeps split: prod.split)

lemma kernel_ok_flush_child: "kernel_ok k \<Longrightarrow> kernel_ok (flush_child env wall pid sub k)"
  using kernel_ok_was_reaped [of k wall sub]
  by (auto simp: flush_child_def Let_def kernel_ok_drop_pending kernel_ok_inject split: option.split prod.split)

lemma kernel_ok_flush: "kernel_ok k \<Longrightarrow> kernel_ok (flush_pending env wall parent k)"
proof -
  have "kernel_ok k \<Longrightarrow> kernel_ok (fold (flush_child env wall pid) xs k)" for pid xs
    by (induction xs arbitrary: k) (simp_all add: kernel_ok_flush_child)
  then show "kernel_ok k \<Longrightarrow> kernel_ok (flush_pending env wall parent k)" by (simp add: flush_pending_def Let_def)
qed

lemma kernel_ok_stage: "kernel_ok k \<Longrightarrow> kernel_ok (stage_notification env wall sub nt k)"
proof -
  assume "kernel_ok k"
  then have "kernel_ok (k\<lparr>kn_pool := (kn_pool k)\<lparr>pl_pending := dset (strip sub) nt (pl_pending (kn_pool k))\<rparr>\<rparr>)"
    by (simp add: kernel_ok_def pool_ok_pending)
  then show ?thesis by (auto simp: stage_notification_def Let_def kernel_ok_flush split: option.split)
qed

lemma kernel_ok_notify:
  "kernel_ok k \<Longrightarrow> kernel_ok (k\<lparr>kn_sched := snd (notify_terminal_waiter i sub (kn_sched k))\<rparr>)"
  by (simp add: kernel_ok_def sched_ok_notify)

lemma kernel_ok_notify_or_stage: "kernel_ok k \<Longrightarrow> kernel_ok (notify_or_stage env wall sub nt k)"
  using kernel_ok_notify [of k "get_sub_info sub k" sub]
  by (auto simp: notify_or_stage_def Let_def kernel_ok_stage split: prod.split)

text \<open>Recording an outcome keeps the tables: a zombie's entry stays without a core and terminal.\<close>

lemma kernel_ok_outcome:
  assumes ok: "kernel_ok k" and "ce_agent e' = ce_agent (entry_at a (kn_pool k))"
    and "ce_bg_task e' = ce_bg_task (entry_at a (kn_pool k))" and "entry_terminal e'"
  shows "kernel_ok (k\<lparr>kn_pool := put_entry a e' (kn_pool k)\<rparr>)"
proof -
  have p: "pool_ok (kn_pool k)" using ok by (simp add: kernel_ok_def)
  then have "a \<notin> addrs (pl_zombies (kn_pool k)) \<or> dead_entry e'"
    using pool_okD(6) [OF p, of a] assms(2-4) by (auto simp: dead_entry_def)
  with pool_ok_put [OF p] show ?thesis using ok by (simp add: kernel_ok_def put_entry_def)
qed

lemma kernel_ok_on_sub_complete: "kernel_ok k \<Longrightarrow> kernel_ok (on_sub_complete env wall sub result k)"
  by (auto simp: on_sub_complete_def Let_def entry_terminal_def split: option.split
      intro!: kernel_ok_notify_or_stage kernel_ok_outcome)

lemma kernel_ok_on_sub_fail: "kernel_ok k \<Longrightarrow> kernel_ok (on_sub_fail env wall sub error k)"
  by (auto simp: on_sub_fail_def Let_def entry_terminal_def split: option.split
      intro!: kernel_ok_notify_or_stage kernel_ok_outcome)

lemma kernel_ok_cancel_begin: "kernel_ok k \<Longrightarrow> kernel_ok (snd (cancel_sub_begin running sub k))"
  by (auto simp: cancel_sub_begin_def Let_def kernel_ok_def sched_ok_cancel cancel_session_tasks_def split: option.split)
    (use sched_ok_cancel [of "kn_sched k" sub] in \<open>simp add: cancel_session_tasks_def Let_def\<close>)

lemma kernel_ok_cancel_end: "kernel_ok k \<Longrightarrow> kernel_ok (cancel_sub_end wall sub a k)"
proof -
  let ?k = "k\<lparr>kn_pool := put_entry a ((entry_at a (kn_pool k))\<lparr>ce_sub_status := Some SubCancelled,
              ce_sub_completed_at := Some wall\<rparr>) (kn_pool k)\<rparr>"
  assume "kernel_ok k"
  then have "kernel_ok ?k" by (rule kernel_ok_outcome) (simp_all add: entry_terminal_def)
  from kernel_ok_notify [OF this, of "get_sub_info sub ?k" sub] show ?thesis
    by (simp add: cancel_sub_end_def Let_def)
qed

lemma get_addr_put [simp]: "get_addr sub (put_entry a e p) = get_addr sub p"
  by (simp add: get_addr_def split: option.split)

lemma addr_bound: "pool_ok p \<Longrightarrow> get_addr sub p = Some a \<Longrightarrow> a < length (pl_entries p)"
  using live_bound zombie_bound by (auto simp: get_addr_def split: option.splits)

lemma get_entry_put:
  "pool_ok p \<Longrightarrow> get_addr sub p = Some a \<Longrightarrow> get_entry sub (put_entry a e p) = Some e"
  by (simp add: get_entry_def entry_at_put addr_bound)

text \<open>What becomes of an outcome that is recorded at \<open>a\<close>.\<close>

lemma reporting:
  fixes wall nt
  assumes ok: "kernel_ok k" and sub: "strip sub = sub" "get_entry sub (kn_pool k) = Some e"
    and parent: "strip (opt_str (ce_parent e)) \<noteq> []" and env: "\<forall>n. ne_render env n \<noteq> []"
  defines "k' \<equiv> notify_or_stage env wall sub nt k" and "P \<equiv> strip (opt_str (ce_parent e))"
  shows "get_entry sub (kn_pool k') = Some e"
    and "waiting (sc_terminal (kn_sched k)) sub \<Longrightarrow>
      kn_pool k' = kn_pool k \<and> sc_queue (kn_sched k') = sc_queue (kn_sched k)
      \<and> (\<exists>f. map_of (tbl (sc_terminal (kn_sched k))) sub = Some f
            \<and> heap (sc_terminal (kn_sched k')) ! f = Result (terminal_result (Some (sub_info_of e)) sub))"
    and "\<not> waiting (sc_terminal (kn_sched k)) sub \<Longrightarrow> inflight_count P (kn_sched k) > 0 \<Longrightarrow>
      pl_pending (kn_pool k') = dset sub nt (pl_pending (kn_pool k)) \<and> sc_queue (kn_sched k') = sc_queue (kn_sched k)"
    and "\<not> waiting (sc_terminal (kn_sched k)) sub \<Longrightarrow> \<not> inflight_count P (kn_sched k) > 0 \<Longrightarrow>
      pl_pending (kn_pool k') = filter (\<lambda>(y, _). note_kept P (kn_pool k) y) (dset sub nt (pl_pending (kn_pool k)))
      \<and> sc_queue (kn_sched k') = sc_queue (kn_sched k)
          @ due_requests env wall P (kn_pool k) (dset sub nt (pl_pending (kn_pool k)))"
    and "same_view wall (kn_pool k) (kn_pool k')"
proof -
  let ?i = "get_sub_info sub k" and ?W = "waiting (sc_terminal (kn_sched k)) sub"
  let ?k1 = "k\<lparr>kn_sched := snd (notify_terminal_waiter ?i sub (kn_sched k))\<rparr>"
  have k': "k' = (if ?W then ?k1 else stage_notification env wall sub nt ?k1)"
    by (simp add: k'_def notify_or_stage_def notify_eq Let_def)
  have i: "?i = Some (sub_info_of e)" using sub(2) by (simp add: get_sub_info_def)
  have fl: "inflight_count P (kn_sched ?k1) = inflight_count P (kn_sched k)" by (simp add: inflight_count_def)
  note stage = stage_effect [OF sub(1) _ parent env, of ?k1 wall nt, folded P_def, unfolded fl]
  have st: "same_view wall (kn_pool k) (kn_pool (stage_notification env wall sub nt ?k1))"
    "inflight_count P (kn_sched k) > 0 \<Longrightarrow>
      pl_pending (kn_pool (stage_notification env wall sub nt ?k1)) = dset sub nt (pl_pending (kn_pool k))
      \<and> kn_sched (stage_notification env wall sub nt ?k1) = kn_sched ?k1"
    "\<not> inflight_count P (kn_sched k) > 0 \<Longrightarrow>
      pl_pending (kn_pool (stage_notification env wall sub nt ?k1))
        = filter (\<lambda>(y, _). note_kept P (kn_pool k) y) (dset sub nt (pl_pending (kn_pool k)))
      \<and> kn_sched (stage_notification env wall sub nt ?k1)
        = fold inject_turn (due_requests env wall P (kn_pool k) (dset sub nt (pl_pending (kn_pool k)))) (kn_sched ?k1)"
    using stage ok sub(2) by (auto simp: kernel_ok_def)
  show "same_view wall (kn_pool k) (kn_pool k')" using st(1) by (simp add: k')
  show "get_entry sub (kn_pool k') = Some e"
    using sub(2) same_view_entry [OF st(1), of sub] by (simp add: k')
  show "kn_pool k' = kn_pool k \<and> sc_queue (kn_sched k') = sc_queue (kn_sched k)
      \<and> (\<exists>f. map_of (tbl (sc_terminal (kn_sched k))) sub = Some f
            \<and> heap (sc_terminal (kn_sched k')) ! f = Result (terminal_result (Some (sub_info_of e)) sub))" if ?W
    using that notify_answer [of "kn_sched k" sub ?i] ok by (simp add: k' i kernel_ok_def)
  show "pl_pending (kn_pool k') = dset sub nt (pl_pending (kn_pool k)) \<and> sc_queue (kn_sched k') = sc_queue (kn_sched k)"
    if "\<not> ?W" "inflight_count P (kn_sched k) > 0"
    using that st(2) by (simp add: k')
  show "pl_pending (kn_pool k') = filter (\<lambda>(y, _). note_kept P (kn_pool k) y) (dset sub nt (pl_pending (kn_pool k)))
      \<and> sc_queue (kn_sched k') = sc_queue (kn_sched k)
          @ due_requests env wall P (kn_pool k) (dset sub nt (pl_pending (kn_pool k)))"
    if "\<not> ?W" "\<not> inflight_count P (kn_sched k) > 0"
    using that st(3) by (simp add: k' inject_all_queue)
qed

definition request_sender :: "kernel_request \<Rightarrow> str option" where
  "request_sender r = (case kr_envelope r of Some (EnvMessage m) \<Rightarrow> Some (am_sender_session m) | _ \<Rightarrow> None)"

lemma lifecycle_request_fields [simp]:
  "request_sender (lifecycle_request env sub e c) = Some sub"
  "kr_session_id (lifecycle_request env sub e c) = strip (opt_str (ce_parent e))"
  "kr_priority (lifecycle_request env sub e c) = -1" "kr_text (lifecycle_request env sub e c) = c"
  by (simp_all add: request_sender_def lifecycle_request_def Let_def create_request_def)

lemma due_about:
  assumes "dict_ok d" and "map_of d sub = Some nt"
  shows "filter (\<lambda>r. request_sender r = Some sub) (due_requests env wall pid p d)
    = (if note_due wall pid p sub then [lifecycle_request env sub (the (get_entry sub p)) (ne_render env nt)] else [])"
proof -
  have absent: "filter (\<lambda>r. request_sender r = Some sub) (due_requests env wall pid p d') = []"
    if "\<not> has_key sub d'" for d'
    using that by (induction d') (auto simp: due_requests_def has_key_def)
  show ?thesis
    using assms
  proof (induction d)
    case (Cons x d)
    have step: "due_requests env wall pid p (x # d)
        = (if note_due wall pid p (fst x)
           then [lifecycle_request env (fst x) (the (get_entry (fst x) p)) (ne_render env (snd x))] else [])
          @ due_requests env wall pid p d"
      by (auto simp: due_requests_def case_prod_unfold)
    show ?case
    proof (cases "fst x = sub")
      case True
      then have "\<not> has_key sub d" "snd x = nt"
        using Cons.prems by (auto simp: dict_ok_def has_key_def)
      with absent [of d] True show ?thesis by (simp add: step)
    next
      case False
      then have "dict_ok d" "map_of d sub = Some nt" using Cons.prems by (auto simp: dict_ok_def)
      with Cons.IH False show ?thesis by (simp add: step)
    qed
  qed simp
qed

text \<open>The three ways a parent may learn of an outcome, of which exactly one is taken.\<close>

definition reported ::
  "note_env \<Rightarrow> real \<Rightarrow> str \<Rightarrow> core_entry \<Rightarrow> lifecycle_note \<Rightarrow> 'c kernel \<Rightarrow> 'c kernel \<Rightarrow> bool" where
  "reported env wall sub e nt k k' \<longleftrightarrow>
     (let old = sc_queue (kn_sched k); new = sc_queue (kn_sched k'); pend = pl_pending (kn_pool k);
          told = (\<exists>f. map_of (tbl (sc_terminal (kn_sched k))) sub = Some f
                    \<and> heap (sc_terminal (kn_sched k')) ! f = Result (terminal_result (Some (sub_info_of e)) sub))
      in if waiting (sc_terminal (kn_sched k)) sub
         then told \<and> new = old \<and> pl_pending (kn_pool k') = pend
         else if inflight_count (strip (opt_str (ce_parent e))) (kn_sched k) > 0
         then new = old \<and> pl_pending (kn_pool k') = dset sub nt pend
         else take (length old) new = old \<and> \<not> has_key sub (pl_pending (kn_pool k'))
           \<and> filter (\<lambda>r. request_sender r = Some sub) (drop (length old) new)
             = (if should_suppress_lifecycle sub (kn_pool k) \<or> reaped_now wall sub (kn_pool k) then []
                else [lifecycle_request env sub e (ne_render env nt)]))"

lemma notify_or_stage_reported:
  assumes "kernel_ok k" and "strip sub = sub" and e: "get_entry sub (kn_pool k) = Some e"
    and "strip (opt_str (ce_parent e)) \<noteq> []" and "\<forall>n. ne_render env n \<noteq> []"
  shows "reported env wall sub e nt k (notify_or_stage env wall sub nt k)"
proof -
  let ?P = "strip (opt_str (ce_parent e))" and ?d = "dset sub nt (pl_pending (kn_pool k))"
  note rep = reporting [OF assms, of wall nt]
  have d: "dict_ok ?d" "map_of ?d sub = Some nt" using assms(1) by (simp_all add: kernel_ok_def)
  have about: "filter (\<lambda>r. request_sender r = Some sub) (due_requests env wall ?P (kn_pool k) ?d)
      = (if should_suppress_lifecycle sub (kn_pool k) \<or> reaped_now wall sub (kn_pool k) then []
         else [lifecycle_request env sub e (ne_render env nt)])"
    using due_about [OF d, of env wall ?P "kn_pool k"] e by (simp add: note_due_def)
  have gone: "\<not> has_key sub (filter (\<lambda>(y, _). note_kept ?P (kn_pool k) y) ?d)"
    using e by (auto simp: has_key_def note_kept_def)
  show ?thesis
    using rep(2-4) about gone by (simp add: reported_def Let_def)
qed

lemma reported_put:
  "reported env wall sub e nt (k\<lparr>kn_pool := put_entry a e' (kn_pool k)\<rparr>) k' = reported env wall sub e nt k k'"
proof -
  have "reaped_now wall sub (put_entry a e' (kn_pool k)) = reaped_now wall sub (kn_pool k)"
    by (simp add: reaped_now_def was_reaped_sub_def was_reaped_def split: option.split)
  moreover have "pl_pending (put_entry a e' (kn_pool k)) = pl_pending (kn_pool k)" by (simp add: put_entry_def)
  ultimately show ?thesis by (simp add: reported_def should_suppress_lifecycle_def)
qed

lemma outcome_reported:
  fixes wall nt
  assumes ok: "kernel_ok k" and sub: "strip sub = sub" and a: "get_addr sub (kn_pool k) = Some a"
    and e': "ce_agent e' = ce_agent (entry_at a (kn_pool k))" "ce_bg_task e' = ce_bg_task (entry_at a (kn_pool k))"
      "entry_terminal e'" "strip (opt_str (ce_parent e')) \<noteq> []"
    and env: "\<forall>n. ne_render env n \<noteq> []"
  defines "k' \<equiv> notify_or_stage env wall sub nt (k\<lparr>kn_pool := put_entry a e' (kn_pool k)\<rparr>)"
  shows "get_entry sub (kn_pool k') = Some e' \<and> reported env wall sub e' nt k k' \<and> kernel_ok k'
    \<and> get_addr sub (kn_pool k') = Some a"
proof -
  let ?k1 = "k\<lparr>kn_pool := put_entry a e' (kn_pool k)\<rparr>"
  have k1: "kernel_ok ?k1" by (rule kernel_ok_outcome [OF ok e'(1-3)])
  have e: "get_entry sub (kn_pool ?k1) = Some e'" using get_entry_put [OF _ a] ok by (simp add: kernel_ok_def)
  show ?thesis
    using reporting(1,5) [OF k1 sub e e'(4) env, of wall nt] a
      same_view_addr [of wall "kn_pool ?k1" "kn_pool k'" sub] notify_or_stage_reported [OF k1 sub e e'(4) env, of wall nt]
      kernel_ok_notify_or_stage [OF k1, of env wall sub nt]
    by (simp add: k'_def reported_put)
qed

lemma cancel_end_entry:
  "kernel_ok k \<Longrightarrow> get_addr sub (kn_pool k) = Some a \<Longrightarrow>
     get_entry sub (kn_pool (cancel_sub_end wall sub a k))
       = Some ((entry_at a (kn_pool k))\<lparr>ce_sub_status := Some SubCancelled, ce_sub_completed_at := Some wall\<rparr>)"
  "sc_queue (kn_sched (cancel_sub_end wall sub a k)) = sc_queue (kn_sched k)"
  by (simp_all add: cancel_sub_end_def Let_def get_entry_put kernel_ok_def)

lemma filter_head_drop: "filter P (drop n xs) = [y] \<Longrightarrow> y \<in> set xs"
  by (metis filter_eq_ConsD in_set_conv_decomp in_set_dropD)

lemma get_entry_addr: "get_entry sub p = Some e \<Longrightarrow> \<exists>a. get_addr sub p = Some a \<and> e = entry_at a p"
  by (auto simp: get_entry_def)

lemma on_sub_fail_reported:
  assumes "kernel_ok k" and "strip sub = sub" and "get_entry sub (kn_pool k) = Some e"
    and "ce_sub_status e \<noteq> Some SubCancelled" and "strip (opt_str (ce_parent e)) \<noteq> []"
    and "\<forall>n. ne_render env n \<noteq> []"
  shows "let e' = e\<lparr>ce_sub_status := Some SubFailed, ce_sub_error := Some error, ce_sub_completed_at := Some wall\<rparr>;
             k' = on_sub_fail env wall sub error k
         in get_entry sub (kn_pool k') = Some e'
            \<and> reported env wall sub e' (NoteFailed (subagent_id sub) error) k k' \<and> kernel_ok k'"
proof -
  obtain a where a: "get_addr sub (kn_pool k) = Some a" "e = entry_at a (kn_pool k)"
    using get_entry_addr [OF assms(3)] by blast
  show ?thesis
    using outcome_reported [OF assms(1,2) a(1) _ _ _ _ assms(6)] assms(4,5) a
    by (simp add: on_sub_fail_def Let_def entry_terminal_def)
qed

section \<open>Properties\<close>

text \<open>Flushing a parent's staged notifications delivers each of them once and touches nobody
  else's: the input queue grows by exactly one request per staged child of this parent that is
  still known, whose end the parent has not already seen in a tool and that it has not reaped, in
  the order of staging, addressed to the parent with the highest priority; exactly the notes of
  other parents' children stay; and a second flush delivers nothing.\<close>

theorem flush_delivers_once:
  assumes "strip parent \<noteq> []" and "\<forall>n. ne_render env n \<noteq> []" and "dict_ok (pl_pending (kn_pool k))"
  shows "let k' = flush_pending env wall parent k; pid = strip parent;
             due = due_requests env wall pid (kn_pool k) (pl_pending (kn_pool k))
         in sc_queue (kn_sched k') = sc_queue (kn_sched k) @ due
            \<and> (\<forall>r \<in> set due. kr_session_id r = pid \<and> kr_priority r = -1)
            \<and> pl_pending (kn_pool k') = filter (\<lambda>(sub, _). note_kept pid (kn_pool k) sub) (pl_pending (kn_pool k))
            \<and> (\<forall>sub. get_entry sub (kn_pool k') = get_entry sub (kn_pool k))
            \<and> sc_queue (kn_sched (flush_pending env wall' parent k')) = sc_queue (kn_sched k')"
proof -
  let ?k' = "flush_pending env wall parent k" and ?pid = "strip parent"
  let ?due = "due_requests env wall ?pid (kn_pool k) (pl_pending (kn_pool k))"
  note eff = flush_pending_effect [OF assms(1-3), of wall]
  have entry: "get_entry sub (kn_pool ?k') = get_entry sub (kn_pool k)" for sub using same_view_entry [OF eff(1)] .
  have ok': "dict_ok (pl_pending (kn_pool ?k'))" using assms(3) by (auto simp: eff(2) dict_ok_def distinct_map_filter)
  have "due_requests env wall' ?pid (kn_pool ?k') (pl_pending (kn_pool ?k')) = []"
    by (auto simp: due_requests_def eff(2) filter_empty_conv note_due_def note_kept_def entry split: option.splits)
  moreover have "kr_session_id r = ?pid \<and> kr_priority r = -1" if "r \<in> set ?due" for r
    using that by (auto simp: due_requests_def note_due_def split: option.splits)
  ultimately show ?thesis
    using eff(2,3) entry flush_pending_effect(3) [OF assms(1,2) ok', of wall']
    by (simp add: inject_all_queue Let_def)
qed

text \<open>C14: The completion of a child is recorded and reported in exactly one way: a parent that waits in a
  tool is woken with the result and gets no request; the notification of a busy parent is staged;
  an idle parent gets exactly one request about the child, or none when it has already seen the
  end or reaped the child. The invariant of the tables and the scheduler is kept.\<close>

theorem child_completion_reported:
  assumes "kernel_ok k" and "strip sub = sub" and "get_entry sub (kn_pool k) = Some e"
    and "ce_sub_status e \<noteq> Some SubCancelled" and "strip (opt_str (ce_parent e)) \<noteq> []"
    and "\<forall>n. ne_render env n \<noteq> []"
  shows "let e' = e\<lparr>ce_sub_status := Some SubCompleted, ce_sub_result := Some result, ce_sub_error := None,
                    ce_sub_completed_at := Some wall\<rparr>;
             k' = on_sub_complete env wall sub result k
         in get_entry sub (kn_pool k') = Some e'
            \<and> reported env wall sub e' (completion_note sub e result) k k' \<and> kernel_ok k'"
proof -
  obtain a where a: "get_addr sub (kn_pool k) = Some a" "e = entry_at a (kn_pool k)"
    using get_entry_addr [OF assms(3)] by blast
  show ?thesis
    using outcome_reported [OF assms(1,2) a(1) _ _ _ _ assms(6)] assms(4,5) a
    by (simp add: on_sub_complete_def Let_def entry_terminal_def)
qed

text \<open>A cancelled child stays cancelled. When the cancellation of a running child comes to its end,
  the child's session is marked, its status is cancelled, a parent that waits for it is told so,
  and no later completion or failure of the child changes anything.\<close>

theorem cancelled_child_final:
  assumes "cancel_sub_begin running sub k0 = (Cancelling a b, k1)"
    and "kernel_ok k" and "get_addr sub (kn_pool k) = Some a"
  shows "let k' = cancel_sub_end wall sub a k
    in sub \<in> sc_cancelled (kn_sched k1)
    \<and> (\<exists>e. get_entry sub (kn_pool k') = Some e \<and> ce_sub_status e = Some SubCancelled)
    \<and> (waiting (sc_terminal (kn_sched k)) sub \<longrightarrow>
          (\<exists>f i. map_of (tbl (sc_terminal (kn_sched k))) sub = Some f
             \<and> heap (sc_terminal (kn_sched k')) ! f = Result i \<and> ti_status i = Some ''cancelled''))
    \<and> (\<forall>env w r. on_sub_complete env w sub r k' = k' \<and> on_sub_fail env w sub r k' = k')"
proof -
  let ?e = "(entry_at a (kn_pool k))\<lparr>ce_sub_status := Some SubCancelled, ce_sub_completed_at := Some wall\<rparr>"
  let ?k = "k\<lparr>kn_pool := put_entry a ?e (kn_pool k)\<rparr>" and ?k' = "cancel_sub_end wall sub a k"
  have k': "?k' = ?k\<lparr>kn_sched := snd (notify_terminal_waiter (get_sub_info sub ?k) sub (kn_sched k))\<rparr>"
    by (simp add: cancel_sub_end_def Let_def)
  have e: "get_entry sub (kn_pool ?k') = Some ?e" using get_entry_put [OF _ assms(3)] assms(2) by (simp add: k' kernel_ok_def)
  have i: "get_sub_info sub ?k = Some (sub_info_of ?e)"
    using get_entry_put [OF _ assms(3)] assms(2) by (simp add: get_sub_info_def kernel_ok_def)
  have "entry_at a (kn_pool ?k') = ?e" "get_addr sub (kn_pool ?k') = Some a"
    using e assms(3) by (simp_all add: get_entry_def k')
  then have "on_sub_complete env w sub r ?k' = ?k'" "on_sub_fail env w sub r ?k' = ?k'" for env w r
    by (simp_all add: on_sub_complete_def on_sub_fail_def)
  moreover have "sub \<in> sc_cancelled (kn_sched k1)"
    using assms(1) by (auto simp: cancel_sub_begin_def cancel_session_tasks_def Let_def split: option.splits if_splits)
  moreover have "\<exists>f i. map_of (tbl (sc_terminal (kn_sched k))) sub = Some f
      \<and> heap (sc_terminal (kn_sched ?k')) ! f = Result i \<and> ti_status i = Some ''cancelled''"
    if "waiting (sc_terminal (kn_sched k)) sub"
    using notify_answer [OF _ that, of "Some (sub_info_of ?e)"] assms(2) unfolding k' i
    by (force simp: kernel_ok_def terminal_result_def sub_info_of_def)
  ultimately show ?thesis using e by (simp add: Let_def)
qed

text \<open>A completion that arrives while the child is being cancelled is announced and then taken
  back: the idle parent is sent the notification of a completed task, and after the cancellation
  has come to its end the child's status is cancelled, with the result still there.\<close>

theorem completion_during_cancel:
  assumes "kernel_ok k" and "strip sub = sub" and "get_entry sub (kn_pool k) = Some e"
    and "cancel_sub_begin running sub k = (Cancelling a b, k1)"
    and "strip (opt_str (ce_parent e)) \<noteq> []" and "\<forall>n. ne_render env n \<noteq> []"
    and "\<not> waiting (sc_terminal (kn_sched k)) sub"
    and "\<not> inflight_count (strip (opt_str (ce_parent e))) (kn_sched k) > 0"
    and "\<not> should_suppress_lifecycle sub (kn_pool k)" and "\<not> reaped_now wall sub (kn_pool k)"
  shows "let k3 = cancel_sub_end wall' sub a (on_sub_complete env wall sub result k1)
    in (\<exists>r \<in> set (sc_queue (kn_sched k3)). request_sender r = Some sub
          \<and> kr_text r = ne_render env (completion_note sub e result))
    \<and> (\<exists>e'. get_entry sub (kn_pool k3) = Some e' \<and> ce_sub_status e' = Some SubCancelled
          \<and> ce_sub_result e' = Some result)"
proof -
  have a: "get_addr sub (kn_pool k) = Some a" "e = entry_at a (kn_pool k)" "\<not> entry_terminal e"
    and k1: "kn_pool k1 = kn_pool k" "kn_sched k1 = snd (cancel_session_tasks sub (kn_sched k))"
    using assms(3,4) by (auto simp: cancel_sub_begin_def Let_def get_entry_def split: option.splits if_splits)
  let ?e = "e\<lparr>ce_sub_status := Some SubCompleted, ce_sub_result := Some result, ce_sub_error := None,
             ce_sub_completed_at := Some wall\<rparr>"
  let ?nt = "completion_note sub e result" and ?k1 = "k1\<lparr>kn_pool := put_entry a (e\<lparr>ce_sub_status := Some SubCompleted, ce_sub_result := Some result, ce_sub_error := None,
             ce_sub_completed_at := Some wall\<rparr>) (kn_pool k1)\<rparr>"
  let ?k2 = "notify_or_stage env wall sub ?nt ?k1"
  have ok1: "kernel_ok k1" using kernel_ok_cancel_begin [OF assms(1), of running sub] assms(4) by simp
  have k2: "on_sub_complete env wall sub result k1 = ?k2"
    using a by (simp add: on_sub_complete_def k1 Let_def entry_terminal_def)
  have rep: "get_entry sub (kn_pool ?k2) = Some ?e \<and> reported env wall sub ?e ?nt k1 ?k2 \<and> kernel_ok ?k2
      \<and> get_addr sub (kn_pool ?k2) = Some a"
    using a assms(5) by (intro outcome_reported [OF ok1 assms(2) _ _ _ _ _ assms(6)]) (simp_all add: k1 entry_terminal_def)
  have "\<not> waiting (sc_terminal (kn_sched k1)) sub" "\<not> inflight_count (strip (opt_str (ce_parent ?e))) (kn_sched k1) > 0"
    using assms(7,8) by (simp_all add: k1 cancel_session_tasks_def Let_def inflight_count_def)
  with rep assms(9,10) have "filter (\<lambda>r. request_sender r = Some sub)
      (drop (length (sc_queue (kn_sched k1))) (sc_queue (kn_sched ?k2)))
      = [lifecycle_request env sub ?e (ne_render env ?nt)]"
    unfolding reported_def Let_def by (simp add: k1)
  then have "lifecycle_request env sub ?e (ne_render env ?nt) \<in> set (sc_queue (kn_sched ?k2))"
    by (rule filter_head_drop)
  then have sent: "\<exists>r \<in> set (sc_queue (kn_sched ?k2)). request_sender r = Some sub \<and> kr_text r = ne_render env ?nt"
    by force
  have "entry_at a (kn_pool ?k2) = ?e" using rep by (auto simp: get_entry_def)
  with cancel_end_entry(1) [of ?k2 sub a wall'] rep
  have "\<exists>e'. get_entry sub (kn_pool (cancel_sub_end wall' sub a ?k2)) = Some e'
      \<and> ce_sub_status e' = Some SubCancelled \<and> ce_sub_result e' = Some result" by simp
  moreover have "sc_queue (kn_sched (cancel_sub_end wall' sub a ?k2)) = sc_queue (kn_sched ?k2)"
    using cancel_end_entry(2) .
  ultimately show ?thesis using sent unfolding k2 Let_def by simp
qed

section \<open>Witnesses\<close>

definition demo_env :: note_env where
  "demo_env = \<lparr>ne_render = (\<lambda>_. ''done''), ne_chat = (\<lambda>_. []), ne_message_id = (\<lambda>_. ''m1''),
     ne_request_id = (\<lambda>_. ''r1''), ne_enqueued = (\<lambda>_. 0)\<rparr>"

text \<open>A running child of an idle parent; in the second state its end is staged.\<close>

definition demo_running :: "nat kernel" where
  "demo_running =
     \<lparr>kn_pool = (new_pool 4)\<lparr>pl_entries := [(fresh_entry 0 0 None base_profile)
          \<lparr>ce_parent := Some ''cli:root'', ce_sub_status := Some SubRunning\<rparr>],
        pl_pool := [(''sub:a1'', 0)]\<rparr>,
      kn_sched = new_sched\<rparr>"

definition demo_staged :: "nat kernel" where
  "demo_staged = demo_running\<lparr>kn_pool := (kn_pool demo_running)
     \<lparr>pl_pending := [(''sub:a1'', NoteFailed ''a1'' ''boom'')]\<rparr>\<rparr>"

lemma terminal_new: "waiters_ok (sc_terminal new_sched)"
  by (simp add: new_sched_def)

lemma demo_kernel:
  "kernel_ok demo_running" "get_addr ''sub:a1'' (kn_pool demo_running) = Some 0"
  "get_entry ''sub:a1'' (kn_pool demo_running) = Some ((fresh_entry 0 0 None base_profile)
          \<lparr>ce_parent := Some ''cli:root'', ce_sub_status := Some SubRunning\<rparr>)"
  "strip ''sub:a1'' = ''sub:a1''" "strip ''cli:root'' = ''cli:root''" "\<forall>n. ne_render demo_env n \<noteq> []"
  by (simp_all add: kernel_ok_def demo_running_def pool_ok_def new_pool_def table_ok_def addrs_def sched_ok_new
      terminal_new dict_ok_def get_entry_def get_addr_def entry_at_def
      strip_id_iff_ends is_space_def demo_env_def)

lemma flush_delivers_once_witness:
  "let k' = flush_pending demo_env 0 ''cli:root'' demo_staged
   in pl_pending (kn_pool k') = [] \<and> map kr_session_id (sc_queue (kn_sched k')) = [''cli:root'']"
proof -
  have "strip ''cli:root'' \<noteq> []" "dict_ok (pl_pending (kn_pool demo_staged))"
    by (simp_all add: demo_kernel(5) demo_staged_def dict_ok_def)
  from flush_delivers_once [OF this(1) demo_kernel(6) this(2), of 0 0] show ?thesis
    by (simp add: Let_def due_requests_def note_due_def note_kept_def demo_staged_def demo_running_def
        get_entry_def get_addr_def entry_at_def demo_kernel(4,5) should_suppress_lifecycle_def new_pool_def
        reaped_now_def was_reaped_sub_def was_reaped_def new_sched_def)
qed

lemma child_completion_reported_witness:
  "map_option ce_sub_result (get_entry ''sub:a1'' (kn_pool (on_sub_complete demo_env 5 ''sub:a1'' ''42'' demo_running)))
     = Some (Some ''42'')"
  using child_completion_reported [OF demo_kernel(1,4,3) _ _ demo_kernel(6), of 5 "''42''"]
  by (simp add: Let_def demo_kernel(5))

lemma cancelled_child_final_witness:
  "\<exists>b k1. cancel_sub_begin (\<lambda>_. True) ''sub:a1'' demo_running = (Cancelling 0 b, k1)
     \<and> on_sub_complete demo_env 9 ''sub:a1'' ''42'' (cancel_sub_end 5 ''sub:a1'' 0 demo_running)
         = cancel_sub_end 5 ''sub:a1'' 0 demo_running"
proof -
  obtain b k1 where c: "cancel_sub_begin (\<lambda>_. True) ''sub:a1'' demo_running = (Cancelling 0 b, k1)"
    using demo_kernel(3) by (simp add: cancel_sub_begin_def demo_kernel(2) get_entry_def entry_terminal_def Let_def)
  show ?thesis using cancelled_child_final [OF c demo_kernel(1,2), of 5] c by (simp add: Let_def)
qed

lemma completion_during_cancel_witness:
  "\<exists>b k1 e. cancel_sub_begin (\<lambda>_. True) ''sub:a1'' demo_running = (Cancelling 0 b, k1)
     \<and> get_entry ''sub:a1'' (kn_pool (cancel_sub_end 7 ''sub:a1'' 0 (on_sub_complete demo_env 5 ''sub:a1'' ''42'' k1))) = Some e
     \<and> ce_sub_status e = Some SubCancelled \<and> ce_sub_result e = Some ''42''"
proof -
  obtain b k1 where c: "cancel_sub_begin (\<lambda>_. True) ''sub:a1'' demo_running = (Cancelling 0 b, k1)"
    using demo_kernel(3) by (simp add: cancel_sub_begin_def demo_kernel(2) get_entry_def entry_terminal_def Let_def)
  show ?thesis
    using completion_during_cancel [OF demo_kernel(1,4,3) c _ demo_kernel(6), of 5 7 "''42''"] c
    by (simp add: Let_def demo_kernel(5) demo_running_def new_sched_def no_waiters_def waiting_def inflight_count_def
        count_of_def should_suppress_lifecycle_def new_pool_def reaped_now_def was_reaped_sub_def was_reaped_def)
qed

end
