(* ===== verification/Ask_User.thy ===== *)
theory Ask_User
  imports Futures Py_Values
begin

text \<open>
  Questions to the human (\<open>agent_core/permissions/ask_user_registry.py\<close>): a batch of
  multiple-choice questions, answered at once or question by question, on which a tool call waits.

  The six module-level dictionaries are six tables of one state, keyed by batch id. The messages
  of the errors are kept as constructors. Where the card is pushed to is the notification of the
  frontend and is left out.
\<close>

section \<open>Questions\<close>

record question =
  q_id :: str
  q_prompt :: str
  q_options :: "str list"

datatype question_error =
    NotAList
  | NotAnObject nat
  | DuplicateId str
  | NoPrompt str
  | NoOptions str
  | BlankOption str nat
  | DuplicateOption str str

fun read_options :: "str \<Rightarrow> nat \<Rightarrow> str list \<Rightarrow> pyval list \<Rightarrow> question_error + str list" where
  "read_options qid j acc [] = Inr acc"
| "read_options qid j acc (v # vs) =
     (let s = strip (py_str v)
      in if s = [] then Inl (BlankOption qid j)
         else if s \<in> set acc then Inl (DuplicateOption qid s)
         else read_options qid (Suc j) (acc @ [s]) vs)"

definition read_question :: "nat \<Rightarrow> str set \<Rightarrow> pyval \<Rightarrow> question_error + question" where
  "read_question i seen item =
     (if \<not> is_dict item then Inl (NotAnObject i)
      else
        let d = dict_of item;
            qid = str_or (clean_str (py_get d ''id'')) (CHR ''q'' # int_str (int i + 1));
            prompt = clean_str (py_get d ''prompt'');
            opts = py_get d ''options''
        in if qid \<in> seen then Inl (DuplicateId qid)
           else if prompt = [] then Inl (NoPrompt qid)
           else if \<not> is_list opts \<or> list_of opts = [] then Inl (NoOptions qid)
           else (case read_options qid 0 [] (list_of opts) of
                   Inl e \<Rightarrow> Inl e
                 | Inr os \<Rightarrow> Inr \<lparr>q_id = qid, q_prompt = prompt, q_options = os\<rparr>))"

fun read_questions :: "nat \<Rightarrow> question list \<Rightarrow> pyval list \<Rightarrow> question_error + question list" where
  "read_questions i acc [] = Inr acc"
| "read_questions i acc (v # vs) =
     (case read_question i (q_id ` set acc) v of
        Inl e \<Rightarrow> Inl e
      | Inr q \<Rightarrow> read_questions (Suc i) (acc @ [q]) vs)"

definition normalize_questions :: "pyval \<Rightarrow> question_error + question list" where
  "normalize_questions raw =
     (if \<not> is_list raw \<or> list_of raw = [] then Inl NotAList else read_questions 0 [] (list_of raw))"

section \<open>Answers\<close>

record answer =
  an_question_id :: str
  an_selected :: "str option"
  an_custom :: "str option"

type_synonym decision = "answer list"

datatype answer_error =
    MissingAnswer str
  | NothingChosen str
  | BadOption str str
  | UnknownQuestion str

definition custom_of :: "answer \<Rightarrow> str" where
  "custom_of a = strip (opt_str (an_custom a))"

definition selected_of :: "answer \<Rightarrow> str" where
  "selected_of a = strip (opt_str (an_selected a))"

type_synonym option_sets = "(str, str set) dict"

definition answers_by_id :: "decision \<Rightarrow> (str, answer) dict" where
  "answers_by_id d =
     fold (\<lambda>a m. let qid = strip (an_question_id a) in if qid = [] then m else dset qid a m) d []"

definition check_answer :: "option_sets \<Rightarrow> (str, answer) dict \<Rightarrow> str \<Rightarrow> answer_error option" where
  "check_answer opts by_id qid =
     (case map_of by_id qid of
        None \<Rightarrow> Some (MissingAnswer qid)
      | Some a \<Rightarrow>
          if custom_of a \<noteq> [] then None
          else if selected_of a = [] then Some (NothingChosen qid)
          else if selected_of a \<notin> (case map_of opts qid of None \<Rightarrow> {} | Some os \<Rightarrow> os)
          then Some (BadOption qid (selected_of a)) else None)"

fun first_some :: "('a \<Rightarrow> 'b option) \<Rightarrow> 'a list \<Rightarrow> 'b option" where
  "first_some f [] = None"
| "first_some f (x # xs) = (case f x of None \<Rightarrow> first_some f xs | Some y \<Rightarrow> Some y)"

definition validate_decision :: "str list \<Rightarrow> option_sets \<Rightarrow> decision \<Rightarrow> answer_error option" where
  "validate_decision ids opts d = first_some (check_answer opts (answers_by_id d)) ids"

definition validate_single :: "str \<Rightarrow> option_sets \<Rightarrow> answer \<Rightarrow> answer_error option" where
  "validate_single qid opts a =
     (case map_of opts qid of
        None \<Rightarrow> Some (UnknownQuestion qid)
      | Some os \<Rightarrow>
          if custom_of a \<noteq> [] then None
          else if selected_of a = [] then Some (NothingChosen qid)
          else if selected_of a \<notin> os then Some (BadOption qid (selected_of a)) else None)"

section \<open>Batches\<close>

record ask_state =
  as_futures :: "(str, decision) waiters"
  as_options :: "(str, option_sets) dict"
  as_ids :: "(str, str list) dict"
  as_partial :: "(str, (str, answer) dict) dict"
  as_payload :: "(str, question list) dict"
  as_label :: "(str, str) dict"

definition no_batches :: ask_state where
  "no_batches = \<lparr>as_futures = no_waiters, as_options = [], as_ids = [], as_partial = [],
     as_payload = [], as_label = []\<rparr>"

text \<open>\<open>default_label\<close> is the fixed wording for a free answer.\<close>

definition register_ask_user_wait ::
  "str \<Rightarrow> str \<Rightarrow> pyval \<Rightarrow> str \<Rightarrow> ask_state \<Rightarrow> question_error + (fid \<times> question list \<times> ask_state)" where
  "register_ask_user_wait default_label bid raw label s =
     (case normalize_questions raw of
        Inl e \<Rightarrow> Inl e
      | Inr qs \<Rightarrow>
          (case add_wait bid (as_futures s) of
             (f, w) \<Rightarrow>
               Inr (f, qs, s\<lparr>as_futures := w,
                 as_options := dset bid (map (\<lambda>q. (q_id q, set (q_options q))) qs) (as_options s),
                 as_ids := dset bid (map q_id qs) (as_ids s),
                 as_partial := dset bid [] (as_partial s),
                 as_payload := dset bid qs (as_payload s),
                 as_label := dset bid (str_or (strip label) default_label) (as_label s)\<rparr>)))"

definition ids_of :: "str \<Rightarrow> ask_state \<Rightarrow> str list" where
  "ids_of bid s = (case map_of (as_ids s) bid of None \<Rightarrow> [] | Some xs \<Rightarrow> xs)"

definition options_of :: "str \<Rightarrow> ask_state \<Rightarrow> option_sets" where
  "options_of bid s = (case map_of (as_options s) bid of None \<Rightarrow> [] | Some m \<Rightarrow> m)"

definition partial_of :: "str \<Rightarrow> ask_state \<Rightarrow> (str, answer) dict" where
  "partial_of bid s = (case map_of (as_partial s) bid of None \<Rightarrow> [] | Some m \<Rightarrow> m)"

definition forget_batch :: "str \<Rightarrow> ask_state \<Rightarrow> ask_state" where
  "forget_batch bid s = s\<lparr>as_options := dpop bid (as_options s), as_ids := dpop bid (as_ids s),
     as_partial := dpop bid (as_partial s), as_payload := dpop bid (as_payload s),
     as_label := dpop bid (as_label s)\<rparr>"

text \<open>The pops, and \<open>fut.set_result(decision)\<close>.\<close>

definition finish_batch :: "str \<Rightarrow> decision \<Rightarrow> ask_state \<Rightarrow> ask_state" where
  "finish_batch bid d s =
     (forget_batch bid s)\<lparr>as_futures := snd (pop_settle bid (Result d) (as_futures s))\<rparr>"

definition resolve_ask_user :: "str \<Rightarrow> decision \<Rightarrow> ask_state \<Rightarrow> bool \<times> ask_state" where
  "resolve_ask_user batch_id d s =
     (let bid = strip batch_id
      in if \<not> waiting (as_futures s) bid then (False, s)
         else (case validate_decision (ids_of bid s) (options_of bid s) d of
                 Some _ \<Rightarrow> (False, s)
               | None \<Rightarrow> (True, finish_batch bid d s)))"

record snapshot =
  sn_batch_id :: str
  sn_questions :: "question list"
  sn_partial :: "(str, str option \<times> str option) dict"
  sn_label :: str
  sn_done :: bool

definition take_snapshot :: "str \<Rightarrow> str \<Rightarrow> ask_state \<Rightarrow> snapshot option" where
  "take_snapshot default_label batch_id s =
     (let bid = strip batch_id
      in case map_of (as_payload s) bid of
           None \<Rightarrow> None
         | Some qs \<Rightarrow>
             if qs = [] then None
             else Some \<lparr>sn_batch_id = bid, sn_questions = qs,
                    sn_partial = map (\<lambda>(k, a). (k, an_selected a, an_custom a)) (partial_of bid s),
                    sn_label = (case map_of (as_label s) bid of None \<Rightarrow> default_label | Some l \<Rightarrow> l),
                    sn_done = (ids_of bid s \<noteq> [] \<and> list_all (\<lambda>x. has_key x (partial_of bid s)) (ids_of bid s))\<rparr>)"

datatype fragment_detail =
    UnknownBatch
  | AlreadyResolved
  | Invalid answer_error
  | Missing "str list"
  | Completed

definition kept_answer :: "answer \<Rightarrow> answer" where
  "kept_answer a =
     (let qid = strip (an_question_id a)
      in if custom_of a \<noteq> [] then \<lparr>an_question_id = qid, an_selected = None, an_custom = Some (custom_of a)\<rparr>
         else \<lparr>an_question_id = qid, an_selected = Some (selected_of a), an_custom = None\<rparr>)"

definition submit_fragment ::
  "str \<Rightarrow> str \<Rightarrow> answer \<Rightarrow> ask_state \<Rightarrow> (bool \<times> fragment_detail \<times> snapshot option) \<times> ask_state" where
  "submit_fragment default_label batch_id a s =
     (let bid = strip batch_id; qid = strip (an_question_id a); ids = ids_of bid s; opts = options_of bid s
      in case map_of (tbl (as_futures s)) bid of
           None \<Rightarrow> ((False, UnknownBatch, None), s)
         | Some f \<Rightarrow>
             if fut_done (heap (as_futures s)) f then ((False, AlreadyResolved, None), s)
             else case validate_single qid opts a of
               Some e \<Rightarrow> ((False, Invalid e, None), s)
             | None \<Rightarrow>
                 let part = dset qid (kept_answer a) (partial_of bid s);
                     s1 = s\<lparr>as_partial := dset bid part (as_partial s)\<rparr>;
                     missing = filter (\<lambda>x. \<not> has_key x part) ids
                 in if missing \<noteq> [] then ((True, Missing missing, take_snapshot default_label bid s1), s1)
                    else
                      let d = map (\<lambda>i. the (map_of part i)) ids
                      in case validate_decision ids opts d of
                           Some e \<Rightarrow>
                             ((False, Invalid e, None),
                              s1\<lparr>as_partial := dset bid (dpop qid part) (as_partial s1)\<rparr>)
                         | None \<Rightarrow>
                             ((True, Completed, take_snapshot default_label bid s1), finish_batch bid d s1))"

definition cancel_ask_user_wait :: "str \<Rightarrow> str \<Rightarrow> ask_state \<Rightarrow> bool \<times> ask_state" where
  "cancel_ask_user_wait bid reason s =
     (case pop_settle bid (Failed reason) (as_futures s) of
        (woke, w) \<Rightarrow> (woke, (forget_batch bid s)\<lparr>as_futures := w\<rparr>))"

text \<open>\<open>parse_answers_from_ipc_params\<close>: an item without an id is skipped.\<close>

definition opt_clean :: "pyval \<Rightarrow> str option" where
  "opt_clean v = (if v = PyNone \<or> strip (py_str v) = [] then None else Some (strip (py_str v)))"

definition parse_answer :: "pyval \<Rightarrow> answer option" where
  "parse_answer item =
     (if \<not> is_dict item then None
      else
        let d = dict_of item;
            qid = strip (py_str (py_or (py_or (py_get d ''question_id'') (py_get d ''id'')) (PyStr [])))
        in if qid = [] then None
           else Some \<lparr>an_question_id = qid, an_selected = opt_clean (py_get d ''selected_option''),
                       an_custom = opt_clean (py_get d ''custom_text'')\<rparr>)"

definition parse_answers :: "(str, pyval) dict \<Rightarrow> decision" where
  "parse_answers params =
     (case py_get params ''answers'' of
        PyList xs \<Rightarrow> List.map_filter parse_answer xs
      | _ \<Rightarrow> [])"

section \<open>Laws\<close>

interpretation ask: one_shot "\<lambda>s. waiters_ok (as_futures s)" strip "\<lambda>s i. waiting (as_futures s) i" resolve_ask_user
proof
  fix s :: ask_state and k d i
  assume ok: "waiters_ok (as_futures s)"
  show "waiters_ok (as_futures (snd (resolve_ask_user k d s)))"
    using ok by (simp add: resolve_ask_user_def finish_batch_def forget_batch_def Let_def pop_settle_ok split: option.split)
  show "fst (resolve_ask_user k d s) \<Longrightarrow> waiting (as_futures s) (strip k)"
    by (auto simp: resolve_ask_user_def Let_def split: if_splits)
  show "fst (resolve_ask_user k d s) \<Longrightarrow> \<not> waiting (as_futures (snd (resolve_ask_user k d s))) (strip k)"
    by (auto simp: resolve_ask_user_def finish_batch_def Let_def not_has_key_not_waiting pop_settle_consumes
        split: if_splits option.splits)
  show "waiting (as_futures (snd (resolve_ask_user k d s))) i \<Longrightarrow> waiting (as_futures s) i"
    using table.settle_frame [OF ok]
    by (auto simp: resolve_ask_user_def finish_batch_def Let_def split: if_splits option.splits)
qed

definition frag_id :: "answer \<Rightarrow> str" where
  "frag_id a = strip (an_question_id a)"

lemma first_some_None: "first_some f xs = None \<longleftrightarrow> (\<forall>x \<in> set xs. f x = None)"
  by (induction xs) (auto split: option.split)

lemma kept_answer_simps [simp]: "an_question_id (kept_answer a) = frag_id a"
  by (simp add: kept_answer_def frag_id_def Let_def)

lemma kept_answer_reads [simp]:
  "custom_of (kept_answer a) = custom_of a"
  "custom_of a = [] \<Longrightarrow> selected_of (kept_answer a) = selected_of a"
  by (simp_all add: kept_answer_def custom_of_def selected_of_def Let_def)

lemma validate_kept:
  "validate_single qid opts (kept_answer a) = None \<longleftrightarrow> validate_single qid opts a = None"
  by (cases "custom_of a = []") (simp_all add: validate_single_def split: option.split)

text \<open>A decision assembled from kept answers, one per question, is a valid decision.\<close>

lemma answers_by_id_map:
  assumes "\<forall>i \<in> set ids. strip (an_question_id (g i)) = i \<and> i \<noteq> []"
  shows "map_of (answers_by_id (map g ids)) i = (if i \<in> set ids then Some (g i) else None)"
proof -
  let ?f = "\<lambda>a m. let qid = strip (an_question_id a) in if qid = [] then m else dset qid a m"
  have "map_of (fold ?f (map g xs) m) i = (if i \<in> set xs then Some (g i) else map_of m i)"
    if "set xs \<subseteq> set ids" for xs m
    using that assms by (induction xs arbitrary: m) (auto simp: Let_def)
  from this [OF subset_refl, of "[]"] show ?thesis unfolding answers_by_id_def by simp
qed

lemma assembled_valid:
  assumes "\<forall>i \<in> set ids. strip (an_question_id (g i)) = i \<and> i \<noteq> [] \<and> validate_single i opts (g i) = None"
  shows "validate_decision ids opts (map g ids) = None"
proof -
  have look: "map_of (answers_by_id (map g ids)) i = Some (g i)" if "i \<in> set ids" for i
    using answers_by_id_map [of ids g i] assms that by auto
  show ?thesis
    unfolding validate_decision_def first_some_None
  proof
    fix i assume i: "i \<in> set ids"
    with assms have "validate_single i opts (g i) = None" by blast
    then show "check_answer opts (answers_by_id (map g ids)) i = None"
      by (simp add: check_answer_def look [OF i] validate_single_def split: option.splits if_splits)
  qed
qed

text \<open>The invariant of an open batch.\<close>

definition partial_ok :: "option_sets \<Rightarrow> (str, answer) dict \<Rightarrow> bool" where
  "partial_ok opts part \<longleftrightarrow>
     (\<forall>i a. map_of part i = Some a \<longrightarrow> frag_id a = i \<and> validate_single i opts a = None)"

definition batch_ok :: "str \<Rightarrow> ask_state \<Rightarrow> bool" where
  "batch_ok bid s \<longleftrightarrow> ids_of bid s \<noteq> [] \<and> [] \<notin> set (ids_of bid s) \<and> distinct (ids_of bid s)
     \<and> partial_ok (options_of bid s) (partial_of bid s)"

definition ask_ok :: "ask_state \<Rightarrow> bool" where
  "ask_ok s \<longleftrightarrow> waiters_ok (as_futures s) \<and> (\<forall>bid. waiting (as_futures s) bid \<longrightarrow> batch_ok bid s)"

lemma partial_ok_add:
  "partial_ok opts part \<Longrightarrow> validate_single (frag_id a) opts a = None
     \<Longrightarrow> partial_ok opts (dset (frag_id a) (kept_answer a) part)"
  by (auto simp: partial_ok_def validate_kept) (simp_all add: frag_id_def [of "kept_answer a"] frag_id_def [of a])

lemma view_after_partial [simp]:
  "partial_of bid (s\<lparr>as_partial := dset bid part (as_partial s)\<rparr>) = part"
  "b \<noteq> bid \<Longrightarrow> partial_of b (s\<lparr>as_partial := dset bid part (as_partial s)\<rparr>) = partial_of b s"
  "ids_of b (s\<lparr>as_partial := x\<rparr>) = ids_of b s" "options_of b (s\<lparr>as_partial := x\<rparr>) = options_of b s"
  by (simp_all add: partial_of_def ids_of_def options_of_def)

lemma view_forget [simp]:
  "b \<noteq> bid \<Longrightarrow> partial_of b (forget_batch bid s) = partial_of b s"
  "b \<noteq> bid \<Longrightarrow> ids_of b (forget_batch bid s) = ids_of b s"
  "b \<noteq> bid \<Longrightarrow> options_of b (forget_batch bid s) = options_of b s"
  by (simp_all add: partial_of_def ids_of_def options_of_def forget_batch_def)

lemma view_futures [simp]:
  "partial_of b (s\<lparr>as_futures := w\<rparr>) = partial_of b s" "ids_of b (s\<lparr>as_futures := w\<rparr>) = ids_of b s"
  "options_of b (s\<lparr>as_futures := w\<rparr>) = options_of b s"
  by (simp_all add: partial_of_def ids_of_def options_of_def)

lemma ask_ok_drop:
  assumes "ask_ok s"
  shows "ask_ok ((forget_batch bid s)\<lparr>as_futures := snd (pop_settle bid r (as_futures s))\<rparr>)"
proof -
  let ?w = "snd (pop_settle bid r (as_futures s))"
  have w: "waiters_ok (as_futures s)" using assms by (simp add: ask_ok_def)
  have "waiting ?w b \<Longrightarrow> b \<noteq> bid \<and> waiting (as_futures s) b" for b
    using table.settle_frame [OF w] pop_settle_consumes not_has_key_not_waiting by metis
  then show ?thesis using assms pop_settle_ok [OF w] by (auto simp: ask_ok_def batch_ok_def)
qed

lemma ask_ok_partial:
  assumes "ask_ok s" and "partial_ok (options_of bid s) part"
  shows "ask_ok (s\<lparr>as_partial := dset bid part (as_partial s)\<rparr>)"
  unfolding ask_ok_def
proof (intro conjI allI impI)
  show "waiters_ok (as_futures (s\<lparr>as_partial := dset bid part (as_partial s)\<rparr>))"
    using assms by (simp add: ask_ok_def)
  show "batch_ok b (s\<lparr>as_partial := dset bid part (as_partial s)\<rparr>)"
    if "waiting (as_futures (s\<lparr>as_partial := dset bid part (as_partial s)\<rparr>)) b" for b
    using that assms by (cases "b = bid") (auto simp: ask_ok_def batch_ok_def)
qed

text \<open>One valid fragment of an open batch; the last branch of the source is never taken.\<close>

lemma submit_fragment_valid:
  assumes ok: "ask_ok s" and bid: "strip bid = bid" and w: "waiting (as_futures s) bid"
    and v: "validate_single (frag_id a) (options_of bid s) a = None"
  defines "part \<equiv> dset (frag_id a) (kept_answer a) (partial_of bid s)"
  defines "s1 \<equiv> s\<lparr>as_partial := dset bid part (as_partial s)\<rparr>"
  shows "submit_fragment lbl bid a s =
     (if \<not> set (ids_of bid s) \<subseteq> set (dkeys part)
      then ((True, Missing (filter (\<lambda>x. \<not> has_key x part) (ids_of bid s)), take_snapshot lbl bid s1), s1)
      else ((True, Completed, take_snapshot lbl bid s1),
            finish_batch bid (map (\<lambda>i. the (map_of part i)) (ids_of bid s)) s1))"
    and "partial_ok (options_of bid s) part" and "ask_ok s1"
    and "set (ids_of bid s) \<subseteq> set (dkeys part) \<Longrightarrow>
      validate_decision (ids_of bid s) (options_of bid s) (map (\<lambda>i. the (map_of part i)) (ids_of bid s)) = None"
proof -
  have b: "batch_ok bid s" using ok w by (simp add: ask_ok_def)
  show part: "partial_ok (options_of bid s) part"
    unfolding part_def using b v by (intro partial_ok_add) (simp_all add: batch_ok_def)
  show "ask_ok s1" unfolding s1_def by (rule ask_ok_partial [OF ok part])
  show valid: "validate_decision (ids_of bid s) (options_of bid s) (map (\<lambda>i. the (map_of part i)) (ids_of bid s)) = None"
    if "set (ids_of bid s) \<subseteq> set (dkeys part)"
  proof (rule assembled_valid, intro ballI)
    fix i assume i: "i \<in> set (ids_of bid s)"
    with that have "has_key i part" by (auto simp: has_key_def)
    then obtain x where "map_of part i = Some x" by (auto simp: has_key_iff)
    with part have "frag_id x = i" "validate_single i (options_of bid s) x = None"
      unfolding partial_ok_def by blast+
    moreover have "i \<noteq> []" using i b by (auto simp: batch_ok_def)
    ultimately show "strip (an_question_id (the (map_of part i))) = i \<and> i \<noteq> []
        \<and> validate_single i (options_of bid s) (the (map_of part i)) = None"
      by (simp add: \<open>map_of part i = Some x\<close> frag_id_def)
  qed
  obtain f where f: "map_of (tbl (as_futures s)) bid = Some f" "\<not> fut_done (heap (as_futures s)) f"
    using w by (auto simp: waiting_def split: option.splits)
  have miss: "filter (\<lambda>x. \<not> has_key x part) (ids_of bid s) = [] \<longleftrightarrow> set (ids_of bid s) \<subseteq> set (dkeys part)"
    by (auto simp: filter_empty_conv has_key_def)
  show "submit_fragment lbl bid a s =
     (if \<not> set (ids_of bid s) \<subseteq> set (dkeys part)
      then ((True, Missing (filter (\<lambda>x. \<not> has_key x part) (ids_of bid s)), take_snapshot lbl bid s1), s1)
      else ((True, Completed, take_snapshot lbl bid s1),
            finish_batch bid (map (\<lambda>i. the (map_of part i)) (ids_of bid s)) s1))"
    using f v valid
    unfolding submit_fragment_def bid Let_def frag_id_def [symmetric] part_def [symmetric] s1_def [symmetric]
    by (simp add: miss)
qed

text \<open>Registering: the ids of a batch are distinct and not blank.\<close>

lemma read_question_ok:
  "read_question i seen v = Inr q \<Longrightarrow> q_id q \<notin> seen \<and> q_id q \<noteq> [] \<and> q_prompt q \<noteq> []"
  by (auto simp: read_question_def Let_def split: if_splits sum.splits)

lemma read_questions_ok:
  "read_questions i acc vs = Inr qs \<Longrightarrow> distinct (map q_id acc) \<Longrightarrow> [] \<notin> q_id ` set acc \<Longrightarrow>
     distinct (map q_id qs) \<and> [] \<notin> q_id ` set qs \<and> length qs = length acc + length vs"
proof (induction vs arbitrary: i acc)
  case (Cons v vs)
  obtain q where q: "read_question i (q_id ` set acc) v = Inr q"
    and rest: "read_questions (Suc i) (acc @ [q]) vs = Inr qs"
    using Cons.prems(1) by (auto split: sum.splits)
  with read_question_ok [OF q] Cons.prems Cons.IH [OF rest] show ?case by auto
qed simp

lemma normalize_questions_ok:
  "normalize_questions raw = Inr qs \<Longrightarrow> distinct (map q_id qs) \<and> [] \<notin> q_id ` set qs \<and> qs \<noteq> []"
  using read_questions_ok [of 0 "[]" "list_of raw" qs]
  by (auto simp: normalize_questions_def split: if_splits)

lemma add_wait_frame: "waiters_ok w \<Longrightarrow> waiting (snd (add_wait k w)) k' \<longleftrightarrow> k' = k \<or> waiting w k'"
  using waiters_ok_bound [of w k'] by (auto simp: waiting_def add_wait_def fut_done_def nth_append split: option.splits)

lemma ask_ok_register:
  assumes ok: "ask_ok s" and r: "register_ask_user_wait dl bid raw label s = Inr (f, qs, s')"
  shows "ask_ok s' \<and> waiting (as_futures s') bid \<and> ids_of bid s' = map q_id qs \<and> partial_of bid s' = []
    \<and> options_of bid s' = map (\<lambda>q. (q_id q, set (q_options q))) qs"
proof -
  have n: "normalize_questions raw = Inr qs" and s': "as_futures s' = snd (add_wait bid (as_futures s))"
    and v: "ids_of b s' = (if b = bid then map q_id qs else ids_of b s)"
      "partial_of b s' = (if b = bid then [] else partial_of b s)"
      "options_of b s' = (if b = bid then map (\<lambda>q. (q_id q, set (q_options q))) qs else options_of b s)" for b
    using r by (auto simp: register_ask_user_wait_def ids_of_def partial_of_def options_of_def split: sum.splits prod.splits)
  have w: "waiters_ok (as_futures s)" using ok by (simp add: ask_ok_def)
  have "batch_ok b s'" if "waiting (as_futures s') b" for b
    using that ok normalize_questions_ok [OF n] add_wait_frame [OF w, of bid b]
    by (auto simp: batch_ok_def s' v ask_ok_def partial_ok_def)
  then show ?thesis using add_wait_ok [OF w] v add_wait_waiting by (simp add: ask_ok_def s')
qed

lemma ask_ok_new: "ask_ok no_batches"
  by (simp add: ask_ok_def no_batches_def not_has_key_not_waiting no_waiters_def)
    (simp add: waiters_ok_no_waiters [unfolded no_waiters_def] waiting_def)

lemma ask_ok_resolve: "ask_ok s \<Longrightarrow> ask_ok (snd (resolve_ask_user bid d s))"
  using ask_ok_drop [of s "strip bid" "Result d"]
  by (simp add: resolve_ask_user_def finish_batch_def Let_def split: option.split)

lemma ask_ok_cancel: "ask_ok s \<Longrightarrow> ask_ok (snd (cancel_ask_user_wait bid why s))"
  using ask_ok_drop [of s bid "Failed why"] by (simp add: cancel_ask_user_wait_def case_prod_unfold)

lemma ask_ok_submit: "ask_ok s \<Longrightarrow> ask_ok (snd (submit_fragment lbl bid a s))"
proof (cases "waiting (as_futures s) (strip bid) \<and> validate_single (frag_id a) (options_of (strip bid) s) a = None")
  case False
  then have "snd (submit_fragment lbl bid a s) = s"
    by (auto simp: submit_fragment_def Let_def waiting_def frag_id_def split: option.split)
  then show "ask_ok s \<Longrightarrow> ?thesis" by simp
next
  case True
  assume ok: "ask_ok s"
  have same: "submit_fragment lbl bid a s = submit_fragment lbl (strip bid) a s" by (simp add: submit_fragment_def)
  note step = submit_fragment_valid [OF ok strip_idem [of bid] conjunct1 [OF True] conjunct2 [OF True]]
  from ask_ok_drop [OF step(3)] step(1) [of lbl] step(3) show ?thesis by (simp add: same finish_batch_def)
qed

section \<open>Answering question by question\<close>

definition merge_fragments :: "answer list \<Rightarrow> (str, answer) dict \<Rightarrow> (str, answer) dict" where
  "merge_fragments frs part = fold (\<lambda>a. dset (frag_id a) (kept_answer a)) frs part"

text \<open>The answer that counts for a question is the last one given.\<close>

definition last_answer :: "answer list \<Rightarrow> str \<Rightarrow> answer" where
  "last_answer frs qid = kept_answer (last (filter (\<lambda>a. frag_id a = qid) frs))"

lemma merge_lookup:
  "map_of (merge_fragments frs part) qid =
     (if qid \<in> frag_id ` set frs then Some (last_answer frs qid) else map_of part qid)"
proof (induction frs arbitrary: part)
  case (Cons a frs)
  have "last_answer (a # frs) qid = last_answer frs qid" if "qid \<in> frag_id ` set frs"
    using that by (auto simp: last_answer_def filter_empty_conv)
  moreover have "last_answer (a # frs) qid = kept_answer a" if "frag_id a = qid" "qid \<notin> frag_id ` set frs"
    using that by (auto simp: last_answer_def filter_empty_conv image_iff)
  moreover have "merge_fragments (a # frs) part = merge_fragments frs (dset (frag_id a) (kept_answer a) part)"
    by (simp add: merge_fragments_def)
  ultimately show ?case using Cons.IH [of "dset (frag_id a) (kept_answer a) part"] by auto
qed (simp add: merge_fragments_def)

lemma merge_keys: "set (dkeys (merge_fragments frs part)) = frag_id ` set frs \<union> set (dkeys part)"
proof (rule set_eqI)
  fix x
  have "x \<in> set (dkeys d) \<longleftrightarrow> map_of d x \<noteq> None" for d :: "(str, answer) dict"
    using has_key_iff [of x d] by (simp only: has_key_def)
  then show "x \<in> set (dkeys (merge_fragments frs part)) \<longleftrightarrow> x \<in> frag_id ` set frs \<union> set (dkeys part)"
    by (simp only: Un_iff merge_lookup) simp
qed

lemma run_fragments:
  assumes "ask_ok s" and bid: "strip bid = bid" and "waiting (as_futures s) bid"
    and "\<forall>a \<in> set frs. validate_single (frag_id a) (options_of bid s) a = None"
    and "\<not> set (ids_of bid s) \<subseteq> frag_id ` set frs \<union> set (dkeys (partial_of bid s))"
  shows "ask_ok (snd (run_ops (submit_fragment lbl bid) frs s))
    \<and> as_futures (snd (run_ops (submit_fragment lbl bid) frs s)) = as_futures s
    \<and> ids_of bid (snd (run_ops (submit_fragment lbl bid) frs s)) = ids_of bid s
    \<and> options_of bid (snd (run_ops (submit_fragment lbl bid) frs s)) = options_of bid s
    \<and> partial_of bid (snd (run_ops (submit_fragment lbl bid) frs s)) = merge_fragments frs (partial_of bid s)
    \<and> (\<forall>r \<in> set (fst (run_ops (submit_fragment lbl bid) frs s)).
         fst r \<and> (\<exists>m. fst (snd r) = Missing m \<and> m \<noteq> []))"
  using assms(1,3-)
proof (induction frs arbitrary: s)
  case Nil
  then show ?case by (simp add: merge_fragments_def)
next
  case (Cons a frs)
  let ?part = "dset (frag_id a) (kept_answer a) (partial_of bid s)"
  let ?s = "s\<lparr>as_partial := dset bid ?part (as_partial s)\<rparr>"
  have v: "validate_single (frag_id a) (options_of bid s) a = None" using Cons.prems(3) by simp
  note step = submit_fragment_valid [OF Cons.prems(1) bid Cons.prems(2) v]
  have open_: "\<not> set (ids_of bid s) \<subseteq> set (dkeys ?part)"
    using Cons.prems(4) unfolding set_dkeys_dset by auto
  then have "filter (\<lambda>x. \<not> has_key x ?part) (ids_of bid s) \<noteq> []" by (auto simp: filter_empty_conv has_key_def)
  with open_ step(1) [of lbl] have sub: "snd (submit_fragment lbl bid a s) = ?s"
    "fst (fst (submit_fragment lbl bid a s)) \<and> (\<exists>m. fst (snd (fst (submit_fragment lbl bid a s))) = Missing m \<and> m \<noteq> [])"
    by simp_all
  have "\<not> set (ids_of bid ?s) \<subseteq> frag_id ` set frs \<union> set (dkeys (partial_of bid ?s))"
    using Cons.prems(4) unfolding view_after_partial set_dkeys_dset by auto
  from Cons.IH [OF step(3) _ _ this] Cons.prems(2,3) sub(2) show ?case
    by (simp add: sub(1) merge_fragments_def)
qed

section \<open>Properties\<close>

text \<open>Answering a batch question by question. While some question of an open batch has no answer yet,
  every acceptable fragment is accepted and nobody is woken; the fragment that answers the last
  open question completes the batch: the waiting tool gets, in the order of the questions, the
  last answer given to each, which is a valid decision; and the batch is closed for every later
  fragment.\<close>

theorem fragments_complete_batch:
  assumes "ask_ok s" and "strip bid = bid" and "map_of (tbl (as_futures s)) bid = Some f"
    and "\<not> fut_done (heap (as_futures s)) f" and "partial_of bid s = []"
    and "\<forall>a \<in> set (frs @ [a]). validate_single (frag_id a) (options_of bid s) a = None"
    and "\<not> set (ids_of bid s) \<subseteq> frag_id ` set frs" and "set (ids_of bid s) \<subseteq> frag_id ` set (frs @ [a])"
  shows "let (rs, s1) = run_ops (submit_fragment lbl bid) frs s;
             (r, s2) = submit_fragment lbl bid a s1;
             d = map (last_answer (frs @ [a])) (ids_of bid s)
         in (\<forall>r \<in> set rs. fst r \<and> (\<exists>m. fst (snd r) = Missing m \<and> m \<noteq> [])) \<and> as_futures s1 = as_futures s
            \<and> fst r \<and> fst (snd r) = Completed
            \<and> heap (as_futures s2) ! f = Result d
            \<and> validate_decision (ids_of bid s) (options_of bid s) d = None
            \<and> (\<forall>b. submit_fragment lbl bid b s2 = ((False, UnknownBatch, None), s2))"
proof -
  let ?s1 = "snd (run_ops (submit_fragment lbl bid) frs s)" and ?d = "map (last_answer (frs @ [a])) (ids_of bid s)"
  have w: "waiting (as_futures s) bid" using assms(3,4) by (simp add: waiting_def)
  have "\<not> set (ids_of bid s) \<subseteq> frag_id ` set frs \<union> set (dkeys (partial_of bid s))" using assms(5,7) by simp
  from run_fragments [OF assms(1,2) w _ this, of lbl] assms(6)
  have run: "ask_ok ?s1" "as_futures ?s1 = as_futures s" "ids_of bid ?s1 = ids_of bid s"
    "options_of bid ?s1 = options_of bid s" "partial_of bid ?s1 = merge_fragments frs []"
    "\<forall>r \<in> set (fst (run_ops (submit_fragment lbl bid) frs s)). fst r \<and> (\<exists>m. fst (snd r) = Missing m \<and> m \<noteq> [])"
    by (simp_all add: assms(5))
  have w1: "waiting (as_futures ?s1) bid" using w by (simp add: run)
  have v1: "validate_single (frag_id a) (options_of bid ?s1) a = None" using assms(6) by (simp add: run)
  let ?part = "merge_fragments (frs @ [a]) []"
  have part: "dset (frag_id a) (kept_answer a) (partial_of bid ?s1) = ?part" by (simp add: run merge_fragments_def)
  let ?s1' = "?s1\<lparr>as_partial := dset bid ?part (as_partial ?s1)\<rparr>"
  note step = submit_fragment_valid [OF run(1) assms(2) w1 v1, unfolded part run(3,4)]
  have full: "set (ids_of bid s) \<subseteq> set (dkeys ?part)" using assms(8) unfolding merge_keys by auto
  have d: "map (\<lambda>i. the (map_of ?part i)) (ids_of bid s) = ?d"
    using assms(8) by (auto simp: merge_lookup)
  have sub: "submit_fragment lbl bid a ?s1 = ((True, Completed, take_snapshot lbl bid ?s1'), finish_batch bid ?d ?s1')"
    using step(1) [of lbl] full unfolding d by simp
  let ?s2 = "finish_batch bid ?d ?s1'"
  have fut: "as_futures ?s2 = snd (pop_settle bid (Result ?d) (as_futures s))"
    by (simp add: finish_batch_def run)
  have "heap (as_futures ?s2) ! f = Result ?d"
    using pop_settle_result [of "as_futures s" bid "Result ?d"] w assms(1,3) by (simp add: fut ask_ok_def)
  moreover have "map_of (tbl (as_futures ?s2)) bid = None"
    using pop_settle_consumes [of bid "Result ?d" "as_futures s"] by (simp add: fut has_key_iff)
  then have "submit_fragment lbl bid b ?s2 = ((False, UnknownBatch, None), ?s2)" for b
    by (simp add: submit_fragment_def assms(2) Let_def)
  moreover have "validate_decision (ids_of bid s) (options_of bid s) ?d = None"
    using step(4) full unfolding d by simp
  ultimately show ?thesis using run(2,6) by (simp add: case_prod_unfold sub Let_def)
qed

definition demo_questions :: pyval where
  "demo_questions = PyList
     [PyDict [(''id'', PyStr ''a''), (''prompt'', PyStr ''p''), (''options'', PyList [PyStr ''x'', PyStr ''y''])],
      PyDict [(''id'', PyStr ''b''), (''prompt'', PyStr ''q''), (''options'', PyList [PyStr ''z''])]]"

definition demo_answer :: "str \<Rightarrow> str \<Rightarrow> answer" where
  "demo_answer qid opt = \<lparr>an_question_id = qid, an_selected = Some opt, an_custom = None\<rparr>"

lemma demo_strips:
  "strip ''a'' = ''a''" "strip ''b'' = ''b''" "strip ''p'' = ''p''" "strip ''q'' = ''q''"
  "strip ''x'' = ''x''" "strip ''y'' = ''y''" "strip ''z'' = ''z''"
  by (simp_all add: strip_id_iff_ends is_space_def)

lemma demo_normalized:
  "normalize_questions demo_questions =
     Inr [\<lparr>q_id = ''a'', q_prompt = ''p'', q_options = [''x'', ''y'']\<rparr>,
          \<lparr>q_id = ''b'', q_prompt = ''q'', q_options = [''z'']\<rparr>]"
  by (simp add: normalize_questions_def demo_questions_def read_question_def Let_def py_get_def demo_strips)

text \<open>The first answer to question \<open>a\<close> is corrected before \<open>b\<close> is answered.\<close>

definition demo_batch :: ask_state where
  "demo_batch = (case register_ask_user_wait ''other'' ''b1'' demo_questions [] no_batches of
     Inl _ \<Rightarrow> no_batches | Inr (_, _, s) \<Rightarrow> s)"

lemma demo_batch:
  "ask_ok demo_batch" "strip ''b1'' = ''b1''" "map_of (tbl (as_futures demo_batch)) ''b1'' = Some 0"
  "\<not> fut_done (heap (as_futures demo_batch)) 0" "partial_of ''b1'' demo_batch = []"
  "ids_of ''b1'' demo_batch = [''a'', ''b'']"
  "options_of ''b1'' demo_batch = [(''a'', {''x'', ''y''}), (''b'', {''z''})]"
proof -
  have r: "\<exists>qs. register_ask_user_wait ''other'' ''b1'' demo_questions [] no_batches = Inr (0, qs, demo_batch)"
    by (simp add: demo_batch_def register_ask_user_wait_def demo_normalized add_wait_def no_batches_def no_waiters_def)
  then show "ask_ok demo_batch" using ask_ok_register [OF ask_ok_new] by blast
  show "strip ''b1'' = ''b1''" by (simp add: strip_id_iff_ends is_space_def)
  show "map_of (tbl (as_futures demo_batch)) ''b1'' = Some 0" "\<not> fut_done (heap (as_futures demo_batch)) 0"
    "partial_of ''b1'' demo_batch = []" "ids_of ''b1'' demo_batch = [''a'', ''b'']"
    "options_of ''b1'' demo_batch = [(''a'', {''x'', ''y''}), (''b'', {''z''})]"
    by (simp_all add: demo_batch_def register_ask_user_wait_def demo_normalized add_wait_def no_batches_def
        no_waiters_def fut_done_def partial_of_def ids_of_def options_of_def)
qed

lemma fragments_complete_batch_witness:
  "let s1 = snd (run_ops (submit_fragment ''other'' ''b1'') [demo_answer ''a'' ''x'', demo_answer ''a'' ''y''] demo_batch);
       s2 = snd (submit_fragment ''other'' ''b1'' (demo_answer ''b'' ''z'') s1)
   in heap (as_futures s2) ! 0 = Result [demo_answer ''a'' ''y'', demo_answer ''b'' ''z'']"
proof -
  have "\<forall>a \<in> set ([demo_answer ''a'' ''x'', demo_answer ''a'' ''y''] @ [demo_answer ''b'' ''z'']).
      validate_single (frag_id a) (options_of ''b1'' demo_batch) a = None"
    by (simp add: demo_batch demo_answer_def validate_single_def frag_id_def demo_strips selected_of_def custom_of_def)
  from fragments_complete_batch [OF demo_batch(1-5) this, of "''other''"] show ?thesis
    by (simp add: demo_batch(6) demo_answer_def frag_id_def demo_strips case_prod_unfold Let_def last_answer_def
        kept_answer_def custom_of_def selected_of_def)
qed

end
