(* ===== verification/Conversation.thy ===== *)
theory Conversation
  imports Py_Values "HOL-Library.Sublist"
begin

text \<open>
  The message history of a conversation: the repair of tool calls that were never answered
  (\<open>agent_core/context/conversation.py\<close>), the removal of orphaned tool results before a
  request is sent (\<open>agent_core/kernel_interface/loader.py\<close>) and the folding of old turns
  into a summary (\<open>AgentKernel.compress_context\<close> in \<open>system/kernel/kernel.py\<close>).

  A message is a dictionary, as in the code. The loops over indices with insertions are
  recursions on the list. The fixed wording of an inserted result (\<open>body\<close>) and of the
  summary's heading (\<open>heading\<close>) are parameters, and so is the summary the model returned.
\<close>

section \<open>Messages\<close>

type_synonym message = "(str, pyval) dict"

definition role_is :: "str \<Rightarrow> message \<Rightarrow> bool" where
  "role_is r m \<longleftrightarrow> py_get m ''role'' = PyStr r"

definition clean_id :: "pyval \<Rightarrow> str option" where
  "clean_id v = (if v = PyNone \<or> strip (py_str v) = [] then None else Some (strip (py_str v)))"

definition call_id :: "pyval \<Rightarrow> str option" where
  "call_id tc = (if is_dict tc then clean_id (py_get (dict_of tc) ''id'') else None)"

definition tool_call_ids :: "message \<Rightarrow> str list" where
  "tool_call_ids m =
     (case py_get m ''tool_calls'' of PyList raw \<Rightarrow> List.map_filter call_id raw | _ \<Rightarrow> [])"

definition calls_tools :: "message \<Rightarrow> bool" where
  "calls_tools m \<longleftrightarrow> role_is ''assistant'' m \<and> truthy (py_get m ''tool_calls'')"

definition result_id :: "message \<Rightarrow> str option" where
  "result_id m = clean_id (py_get m ''tool_call_id'')"

definition tool_message :: "str \<Rightarrow> pyval \<Rightarrow> message" where
  "tool_message tid content =
     [(''role'', PyStr ''tool''), (''tool_call_id'', PyStr tid), (''content'', content)]"

section \<open>The context\<close>

definition add_user_message :: "str \<Rightarrow> pyval list \<Rightarrow> int option \<Rightarrow> message list \<Rightarrow> message list" where
  "add_user_message content media turn_id ms =
     (let m0 = [(''role'', PyStr ''user'')];
          m1 = (case turn_id of None \<Rightarrow> m0 | Some t \<Rightarrow> dset ''_turn_id'' (PyInt t) m0)
      in ms @ [dset ''content''
           (if media = [] then PyStr content
            else PyList (PyDict [(''type'', PyStr ''text''), (''text'', PyStr content)] # media)) m1])"

definition set_opt :: "str \<Rightarrow> pyval option \<Rightarrow> message \<Rightarrow> message" where
  "set_opt k v m = (case v of None \<Rightarrow> m | Some x \<Rightarrow> dset k x m)"

definition add_assistant_message ::
  "pyval option \<Rightarrow> pyval option \<Rightarrow> pyval option \<Rightarrow> pyval option \<Rightarrow> pyval option \<Rightarrow> message list \<Rightarrow> message list" where
  "add_assistant_message content calls reasoning anthropic responses ms =
     ms @ [set_opt ''responses_reasoning_items'' responses
            (set_opt ''anthropic_message_content'' anthropic
              (set_opt ''reasoning_content'' reasoning
                (set_opt ''tool_calls'' calls
                  (set_opt ''content'' content [(''role'', PyStr ''assistant'')]))))]"

definition add_tool_result :: "str \<Rightarrow> str \<Rightarrow> message list \<Rightarrow> message list" where
  "add_tool_result tid content ms = ms @ [tool_message tid (PyStr content)]"

section \<open>Repair\<close>

definition missing_results :: "message \<Rightarrow> message list \<Rightarrow> str list" where
  "missing_results m block = filter (\<lambda>t. Some t \<notin> result_id ` set block) (tool_call_ids m)"

text \<open>The repaired messages; the source also counts the inserted ones.\<close>

function repair :: "pyval \<Rightarrow> message list \<Rightarrow> message list" where
  "repair body [] = []"
| "repair body (m # ms) =
     (if \<not> calls_tools m \<or> tool_call_ids m = [] then m # repair body ms
      else
        let block = takeWhile (role_is ''tool'') ms
        in m # block @ map (\<lambda>t. tool_message t body) (missing_results m block)
             @ repair body (dropWhile (role_is ''tool'') ms))"
  by pat_completeness auto
termination
  by (relation "measure (\<lambda>(body, ms). length ms)") (auto simp: le_imp_less_Suc length_dropWhile_le)

declare repair.simps(2) [simp del]

fun inserted :: "message list \<Rightarrow> nat" where
  "inserted [] = 0"
| "inserted (m # ms) =
     (if calls_tools m \<and> tool_call_ids m \<noteq> []
      then length (missing_results m (takeWhile (role_is ''tool'') ms)) else 0) + inserted ms"

section \<open>Orphans\<close>

definition follows_call :: "message option \<Rightarrow> bool" where
  "follows_call prev \<longleftrightarrow> (case prev of None \<Rightarrow> False | Some p \<Rightarrow> calls_tools p \<or> role_is ''tool'' p)"

fun strip_orphans_from :: "message option \<Rightarrow> message list \<Rightarrow> message list" where
  "strip_orphans_from prev [] = []"
| "strip_orphans_from prev (m # ms) =
     (if role_is ''tool'' m \<and> \<not> follows_call prev then strip_orphans_from prev ms
      else m # strip_orphans_from (Some m) ms)"

definition strip_orphans :: "message list \<Rightarrow> message list" where
  "strip_orphans ms = strip_orphans_from None ms"

text \<open>The history part of \<open>InternalLoader.assemble\<close>: the repair is in place, the stripped copy is sent.\<close>

definition assemble_messages :: "pyval \<Rightarrow> message list \<Rightarrow> message list \<times> message list" where
  "assemble_messages body ms = (strip_orphans (repair body ms), repair body ms)"

section \<open>Folding old turns\<close>

definition user_indices :: "message list \<Rightarrow> nat list" where
  "user_indices ms = filter (\<lambda>i. role_is ''user'' (ms ! i)) [0..<length ms]"

datatype fold_plan = TooShort | Fold "message list" "message list"

text \<open>\<open>xs[-n]\<close> for a natural \<open>n\<close> within range.\<close>

definition from_end :: "'a list \<Rightarrow> nat \<Rightarrow> 'a" where
  "from_end xs n = xs ! (if n = 0 then 0 else length xs - n)"

definition plan_fold :: "nat \<Rightarrow> message list \<Rightarrow> fold_plan" where
  "plan_fold keep ms =
     (if length ms \<le> keep * 2 then TooShort
      else
        let us = user_indices ms
        in if length us \<le> keep then TooShort
           else Fold (take (from_end us keep) ms) (drop (from_end us keep) ms))"

record chat_context =
  cx_messages :: "message list"
  cx_summary :: "str option"
  cx_round :: nat

text \<open>
  After the summary call. \<open>now\<close> is the context as it is then; the source assigns the
  messages it had split off before the call.
\<close>

definition finish_fold :: "str \<Rightarrow> nat \<Rightarrow> str \<Rightarrow> message list \<Rightarrow> chat_context \<Rightarrow> chat_context" where
  "finish_fold heading round_before summary kept now =
     (if strip summary \<noteq> []
      then now\<lparr>cx_messages := [(''role'', PyStr ''user''),
                (''content'', PyStr (heading @ [CHR 0x0A] @ strip summary))] # kept,
               cx_summary := Some (strip summary), cx_round := Suc round_before\<rparr>
      else now\<lparr>cx_messages := kept\<rparr>)"

text \<open>
  \<open>_summarize_messages\<close>: \<open>llm\<close> is the summary client, absent or possibly failing; the
  request is the folded part with the closing instruction \<open>ask\<close> appended.
\<close>

definition summarize_messages ::
  "(message list \<Rightarrow> py_exn + str) option \<Rightarrow> str \<Rightarrow> message list \<Rightarrow> str" where
  "summarize_messages llm ask old =
     (case llm of None \<Rightarrow> []
      | Some chat \<Rightarrow>
          if old = [] then []
          else case chat (old @ [[(''role'', PyStr ''user''), (''content'', PyStr ask)]]) of
                 Inl _ \<Rightarrow> [] | Inr answer \<Rightarrow> strip answer)"

text \<open>
  The whole operation. \<open>late\<close> is what other tasks do to the context while the summary is
  awaited; \<open>tidy\<close> stands for the notice of a remote workspace and the shrinking of tool
  results that follow. The result is the summary and the number of messages left.
\<close>

definition compress_context ::
  "str \<Rightarrow> str \<Rightarrow> (message list \<Rightarrow> py_exn + str) option \<Rightarrow> (chat_context \<Rightarrow> chat_context) \<Rightarrow>
    (chat_context \<Rightarrow> chat_context) \<Rightarrow> nat \<Rightarrow> chat_context \<Rightarrow> (str \<times> nat) \<times> chat_context" where
  "compress_context heading ask llm late tidy keep cx =
     (case plan_fold keep (cx_messages cx) of
        TooShort \<Rightarrow> (([], length (cx_messages cx)), cx)
      | Fold old kept \<Rightarrow>
          let summary = summarize_messages llm ask old;
              cx' = tidy (finish_fold heading (cx_round cx) summary kept (late cx))
          in ((summary, length (cx_messages cx')), cx'))"

section \<open>Laws\<close>

text \<open>Every call is answered in the block of results that follows it.\<close>

fun calls_answered :: "message list \<Rightarrow> bool" where
  "calls_answered [] \<longleftrightarrow> True"
| "calls_answered (m # ms) \<longleftrightarrow>
     (calls_tools m \<longrightarrow> missing_results m (takeWhile (role_is ''tool'') ms) = []) \<and> calls_answered ms"

fun no_orphans_from :: "message option \<Rightarrow> message list \<Rightarrow> bool" where
  "no_orphans_from prev [] \<longleftrightarrow> True"
| "no_orphans_from prev (m # ms) \<longleftrightarrow>
     (role_is ''tool'' m \<longrightarrow> follows_call prev) \<and> no_orphans_from (Some m) ms"

abbreviation no_orphans :: "message list \<Rightarrow> bool" where
  "no_orphans ms \<equiv> no_orphans_from None ms"

lemma role_tool_message [simp]: "role_is ''tool'' (tool_message t c)" "\<not> calls_tools (tool_message t c)"
  by (simp_all add: role_is_def calls_tools_def tool_message_def py_get_def)

lemma role_exclusive: "role_is r m \<Longrightarrow> role_is r' m \<longleftrightarrow> r' = r"
  by (auto simp: role_is_def)

lemma call_not_tool: "calls_tools m \<Longrightarrow> \<not> role_is ''tool'' m"
  by (auto simp: calls_tools_def role_is_def)

lemma call_id_stripped: "call_id tc = Some t \<Longrightarrow> strip t = t \<and> t \<noteq> []"
  by (auto simp: call_id_def clean_id_def split: if_splits)

lemma tool_call_ids_stripped: "t \<in> set (tool_call_ids m) \<Longrightarrow> strip t = t \<and> t \<noteq> []"
  by (auto simp: tool_call_ids_def map_filter_def dest: call_id_stripped split: pyval.splits)

lemma result_id_tool_message: "strip t = t \<Longrightarrow> t \<noteq> [] \<Longrightarrow> result_id (tool_message t c) = Some t"
  by (simp add: result_id_def clean_id_def tool_message_def py_get_def)

lemma missing_filled:
  "missing_results m (block @ map (\<lambda>t. tool_message t body) (missing_results m block)) = []"
proof -
  have "Some t \<in> result_id ` set (block @ map (\<lambda>t. tool_message t body) (missing_results m block))"
    if t: "t \<in> set (tool_call_ids m)" for t
  proof (cases "Some t \<in> result_id ` set block")
    case False
    then have "t \<in> set (missing_results m block)" using t by (simp add: missing_results_def)
    moreover have "result_id (tool_message t body) = Some t"
      using tool_call_ids_stripped [OF t] by (intro result_id_tool_message) auto
    ultimately show ?thesis by (force simp: image_iff)
  qed auto
  then show ?thesis unfolding missing_results_def [of m "_ @ _"] filter_empty_conv by blast
qed

lemma calls_answered_tools: "\<forall>m \<in> set xs. role_is ''tool'' m \<Longrightarrow> calls_answered (xs @ ys) = calls_answered ys"
  by (induction xs) (auto dest: call_not_tool)

lemma takeWhile_block:
  "\<forall>m \<in> set xs. P m \<Longrightarrow> (ys = [] \<or> \<not> P (hd ys)) \<Longrightarrow> takeWhile P (xs @ ys) = xs"
  by (induction xs) (cases ys; simp)+

lemma repair_not_tool_hd: "ms = [] \<or> \<not> role_is r (hd ms) \<Longrightarrow> repair body ms = [] \<or> \<not> role_is r (hd (repair body ms))"
  by (cases ms) (auto simp: repair.simps(2) Let_def)

lemma repair_hd: "ms \<noteq> [] \<Longrightarrow> repair body ms \<noteq> [] \<and> hd (repair body ms) = hd ms"
  by (cases ms) (auto simp: repair.simps(2) Let_def)

lemma repair_tools: "\<forall>m \<in> set xs. role_is ''tool'' m \<Longrightarrow> repair body (xs @ ys) = xs @ repair body ys"
  by (induction xs) (auto simp: repair.simps(2) dest: call_not_tool)

lemma hd_dropWhile_tool: "dropWhile P ms = [] \<or> \<not> P (hd (dropWhile P ms))"
  using hd_dropWhile by blast

lemma repair_answered: "calls_answered (repair body ms)"
proof (induction body ms rule: repair.induct)
  case (2 body m ms)
  let ?block = "takeWhile (role_is ''tool'') ms" and ?rest = "dropWhile (role_is ''tool'') ms"
  let ?new = "map (\<lambda>t. tool_message t body) (missing_results m ?block)"
  show ?case
  proof (cases "\<not> calls_tools m \<or> tool_call_ids m = []")
    case True
    with 2(1) show ?thesis by (auto simp: repair.simps(2) missing_results_def)
  next
    case False
    have tools: "\<forall>x \<in> set (?block @ ?new). role_is ''tool'' x" by (auto dest: set_takeWhileD)
    have "takeWhile (role_is ''tool'') ((?block @ ?new) @ repair body ?rest) = ?block @ ?new"
      using tools repair_not_tool_hd [OF hd_dropWhile_tool] by (rule takeWhile_block)
    moreover have "calls_answered ((?block @ ?new) @ repair body ?rest)"
      unfolding calls_answered_tools [OF tools] using 2(2) False by simp
    ultimately show ?thesis
      using False missing_filled [of m ?block body] by (simp add: repair.simps(2) Let_def)
  qed
qed simp

lemma repair_complete: "calls_answered ms \<Longrightarrow> repair body ms = ms"
proof (induction body ms rule: repair.induct)
  case (2 body m ms)
  have split: "ms = takeWhile (role_is ''tool'') ms @ dropWhile (role_is ''tool'') ms" by simp
  have "calls_answered (dropWhile (role_is ''tool'') ms)"
    using 2(3) calls_answered_tools [of "takeWhile (role_is ''tool'') ms" "dropWhile (role_is ''tool'') ms"]
    by (auto dest: set_takeWhileD)
  with 2 show ?case by (auto simp: repair.simps(2))
qed simp

lemma repair_keeps: "filter (\<lambda>m. \<not> role_is ''tool'' m) (repair body ms) = filter (\<lambda>m. \<not> role_is ''tool'' m) ms"
proof (induction body ms rule: repair.induct)
  case (2 body m ms)
  have "filter (\<lambda>m. \<not> role_is ''tool'' m) (dropWhile (role_is ''tool'') ms) = filter (\<lambda>m. \<not> role_is ''tool'' m) ms" for ms
    by (induction ms) simp_all
  moreover have "filter (\<lambda>m. \<not> role_is ''tool'' m) (takeWhile (role_is ''tool'') ms) = []" for ms
    by (auto simp: filter_empty_conv dest: set_takeWhileD)
  ultimately show ?case using 2 by (auto simp: repair.simps(2) Let_def filter_empty_conv comp_def)
qed simp

lemma repair_subseq: "subseq ms (repair body ms)"
proof (induction body ms rule: repair.induct)
  case (2 body m ms)
  have "subseq ms (takeWhile (role_is ''tool'') ms @ xs @ ys)" if "subseq (dropWhile (role_is ''tool'') ms) ys" for xs ys
  proof -
    have "subseq (takeWhile (role_is ''tool'') ms @ dropWhile (role_is ''tool'') ms) (takeWhile (role_is ''tool'') ms @ xs @ ys)"
      using that by (intro list_emb_append_mono) (auto intro: list_emb_prefix)
    then show ?thesis by simp
  qed
  with 2 show ?case by (auto simp: repair.simps(2) Let_def)
qed simp

lemma repair_inserted: "length (repair body ms) = length ms + inserted ms"
proof (induction body ms rule: repair.induct)
  case (2 body m ms)
  have tools: "inserted (takeWhile (role_is ''tool'') xs @ ys) = inserted ys" for xs ys
    by (induction xs) (auto dest: call_not_tool)
  have "inserted ms = inserted (dropWhile (role_is ''tool'') ms)"
    using tools [of ms "dropWhile (role_is ''tool'') ms"] by simp
  moreover have "length ms = length (takeWhile (role_is ''tool'') ms) + length (dropWhile (role_is ''tool'') ms)"
    by (metis length_append takeWhile_dropWhile_id)
  ultimately show ?case using 2 by (auto simp: repair.simps(2) Let_def)
qed simp

section \<open>Orphans are gone\<close>

lemma strip_tools_prefix:
  "follows_call prev \<Longrightarrow>
    takeWhile (role_is ''tool'') (strip_orphans_from prev ms) = takeWhile (role_is ''tool'') ms"
  by (induction prev ms rule: strip_orphans_from.induct) (auto simp: follows_call_def)

lemma strip_answered: "calls_answered ms \<Longrightarrow> calls_answered (strip_orphans_from prev ms)"
proof (induction prev ms rule: strip_orphans_from.induct)
  case (2 prev m ms)
  then show ?case using strip_tools_prefix [of "Some m" ms] by (auto simp: follows_call_def)
qed simp

lemma strip_no_orphans: "no_orphans_from prev (strip_orphans_from prev ms)"
  by (induction prev ms rule: strip_orphans_from.induct) auto

lemma strip_keeps: "filter (\<lambda>m. \<not> role_is ''tool'' m) (strip_orphans_from prev ms) = filter (\<lambda>m. \<not> role_is ''tool'' m) ms"
  by (induction prev ms rule: strip_orphans_from.induct) auto

lemma strip_complete: "no_orphans_from prev ms \<Longrightarrow> strip_orphans_from prev ms = ms"
  by (induction prev ms rule: strip_orphans_from.induct) auto

section \<open>What a fold keeps\<close>

abbreviation user_turns :: "message list \<Rightarrow> nat" where
  "user_turns ms \<equiv> length (filter (role_is ''user'') ms)"

lemma filter_nth_snoc:
  "filter (\<lambda>i. P ((xs @ [x]) ! i)) [0..<length xs] = filter (\<lambda>i. P (xs ! i)) [0..<length xs]"
  by (rule filter_cong) (auto simp: nth_append)

lemma length_filter_nth: "length (filter (\<lambda>i. P (xs ! i)) [0..<length xs]) = length (filter P xs)"
  by (induction xs rule: rev_induct) (simp_all add: filter_nth_snoc)

lemma user_indices_count: "length (user_indices ms) = user_turns ms"
  unfolding user_indices_def by (rule length_filter_nth)

lemma user_indices_nth:
  assumes "k < length (user_indices ms)"
  shows "user_indices ms ! k < length ms" "role_is ''user'' (ms ! (user_indices ms ! k))"
  using nth_mem [OF assms] by (auto simp: user_indices_def)

lemma user_indices_snoc:
  "user_indices (ms @ [m]) = user_indices ms @ (if role_is ''user'' m then [length ms] else [])"
  by (simp add: user_indices_def filter_nth_snoc [where P = "role_is ''user''"])

lemma turns_before: "k < length (user_indices ms) \<Longrightarrow> user_turns (take (user_indices ms ! k) ms) = k"
proof (induction ms rule: rev_induct)
  case (snoc m ms)
  show ?case
  proof (cases "k < length (user_indices ms)")
    case True
    with snoc.IH user_indices_nth(1) [OF True] show ?thesis by (simp add: user_indices_snoc nth_append)
  next
    case False
    with snoc.prems have "k = length (user_indices ms)" "role_is ''user'' m"
      by (auto simp: user_indices_snoc split: if_splits)
    then show ?thesis using user_indices_count [of ms] by (simp add: user_indices_snoc nth_append)
  qed
qed (simp add: user_indices_def)

lemma plan_fold_keeps:
  assumes "plan_fold keep ms = Fold old kept" and "0 < keep"
  shows "ms = old @ kept" "user_turns kept = keep" "kept \<noteq> []" "role_is ''user'' (hd kept)" "2 * keep < length ms"
    "keep < user_turns ms"
proof -
  let ?us = "user_indices ms"
  let ?i = "?us ! (length ?us - keep)"
  have long: "2 * keep < length ms" and many: "keep < length ?us"
    and parts: "old = take ?i ms" "kept = drop ?i ms"
    using assms by (auto simp: plan_fold_def from_end_def Let_def split: if_splits)
  have k: "length ?us - keep < length ?us" using many assms(2) by simp
  show "ms = old @ kept" using parts by simp
  have "user_turns ms = user_turns old + user_turns kept" using parts by (metis append_take_drop_id filter_append length_append)
  then show "user_turns kept = keep"
    using turns_before [OF k] parts many user_indices_count [of ms] by simp
  show "kept \<noteq> []" "role_is ''user'' (hd kept)"
    using user_indices_nth [OF k] parts by (auto simp: hd_drop_conv_nth)
  show "2 * keep < length ms" "keep < user_turns ms" using long many by (simp_all add: user_indices_count)
qed

lemma calls_answered_drop: "calls_answered (xs @ ys) \<Longrightarrow> calls_answered ys"
  by (induction xs) simp_all

lemma no_orphans_drop:
  "no_orphans_from prev (xs @ ys) \<Longrightarrow> ys = [] \<or> \<not> role_is ''tool'' (hd ys) \<Longrightarrow> no_orphans_from prev' ys"
proof (induction xs arbitrary: prev)
  case Nil
  then show ?case by (cases ys) auto
qed auto

lemma summary_message_user:
  "role_is ''user'' [(''role'', PyStr ''user''), (''content'', c)]"
  "\<not> calls_tools [(''role'', PyStr ''user''), (''content'', c)]"
  by (simp_all add: role_is_def calls_tools_def py_get_def)

lemma user_not_tool: "role_is ''user'' m \<Longrightarrow> \<not> role_is ''tool'' m"
  by (auto simp: role_is_def)

section \<open>Properties\<close>

text \<open>C20: What is sent to the model is well formed whatever the history was: every tool call
  of an assistant message is answered by the results that directly follow it, and every result
  follows a call or another result. The stored history grows only by the results that were
  missing; everything but tool results is sent unchanged and in order; a history that was well
  formed is neither changed nor sent differently.\<close>

theorem sent_history_well_formed:
  "let (sent, stored) = assemble_messages body ms
   in calls_answered sent \<and> no_orphans sent \<and> calls_answered stored \<and>
      subseq ms stored \<and> length stored = length ms + inserted ms \<and>
      filter (\<lambda>m. \<not> role_is ''tool'' m) sent = filter (\<lambda>m. \<not> role_is ''tool'' m) ms \<and>
      (calls_answered ms \<and> no_orphans ms \<longrightarrow> sent = ms \<and> stored = ms)"
  unfolding assemble_messages_def strip_orphans_def Let_def prod.case
  by (simp add: repair_answered strip_answered strip_no_orphans repair_subseq repair_inserted
      strip_keeps repair_keeps repair_complete strip_complete)

text \<open>Folding keeps exactly the last turns: with \<open>keep\<close> turns to keep, the messages
  that remain are, after the summary, a suffix of the history that starts with a user message
  and has \<open>keep\<close> of them; the history does not get longer, and it stays well formed.
  The kept part is the one split off before the summary was awaited: messages another task
  appended meanwhile are not in it.\<close>

theorem fold_keeps_last_turns:
  assumes "plan_fold keep (cx_messages cx) = Fold old kept" and "0 < keep"
    and "calls_answered (cx_messages cx)" and "no_orphans (cx_messages cx)"
  shows "let cx' = snd (compress_context heading ask llm late id keep cx);
             sum = summarize_messages llm ask old
         in cx_messages cx = old @ kept \<and> role_is ''user'' (hd kept) \<and> user_turns kept = keep \<and>
            cx_messages cx' = (if strip sum = [] then kept
              else [(''role'', PyStr ''user''), (''content'', PyStr (heading @ [CHR 0x0A] @ strip sum))] # kept) \<and>
            length (cx_messages cx') \<le> length (cx_messages cx) \<and>
            calls_answered (cx_messages cx') \<and> no_orphans (cx_messages cx') \<and>
            cx_round cx' = (if strip sum = [] then cx_round (late cx) else Suc (cx_round cx))"
proof -
  note fold = plan_fold_keeps [OF assms(1,2)]
  have old: "old \<noteq> []"
    using fold(1,2,6) by auto
  have ok: "calls_answered kept" "\<And>prev. no_orphans_from prev kept"
    using assms(3,4) fold(1,4) calls_answered_drop [of old kept] no_orphans_drop [of None old kept]
      user_not_tool by auto
  have len: "length (cx_messages cx) = length old + length kept" "1 \<le> length old" "old \<noteq> []"
    using fold(1) old by (simp_all add: Suc_le_eq)
  show ?thesis
    using fold(1,2,4) ok len assms(1)
    by (simp add: compress_context_def finish_fold_def Let_def summary_message_user user_not_tool)
qed

definition said :: "str \<Rightarrow> str \<Rightarrow> message" where
  "said r c = [(''role'', PyStr r), (''content'', PyStr c)]"

theorem fold_keeps_last_turns_witness:
  "let ms = [said ''user'' ''a'', said ''assistant'' ''b'', said ''user'' ''c''];
       cx = \<lparr>cx_messages = ms, cx_summary = None, cx_round = 0\<rparr>;
       cx' = snd (compress_context ''H'' ''ask'' (Some (\<lambda>_. Inr '' sum '')) id id 1 cx)
   in plan_fold 1 ms = Fold (take 2 ms) (drop 2 ms) \<and> user_turns (drop 2 ms) = 1 \<and>
      length (cx_messages cx') \<le> 3 \<and> calls_answered (cx_messages cx')"
proof -
  let ?ms = "[said ''user'' ''a'', said ''assistant'' ''b'', said ''user'' ''c'']"
  let ?cx = "\<lparr>cx_messages = ?ms, cx_summary = None, cx_round = 0\<rparr>"
  have fold: "plan_fold 1 (cx_messages ?cx) = Fold (take 2 ?ms) (drop 2 ?ms)"
    and ok: "calls_answered (cx_messages ?cx)" "no_orphans (cx_messages ?cx)" by code_simp+
  note turns = fold_keeps_last_turns [unfolded Let_def, OF fold zero_less_one ok, of "''H''" "''ask''" "Some (\<lambda>_. Inr '' sum '')" id]
  have "user_turns (drop 2 ?ms) = 1" using turns by blast
  moreover let ?cx' = "snd (compress_context ''H'' ''ask'' (Some (\<lambda>_. Inr '' sum '')) id id 1 ?cx)"
  have "length (cx_messages ?cx') \<le> length (cx_messages ?cx)" "calls_answered (cx_messages ?cx')"
    using turns by blast+
  then have "length (cx_messages ?cx') \<le> 3" "calls_answered (cx_messages ?cx')" by simp_all
  moreover have "plan_fold 1 ?ms = Fold (take 2 ?ms) (drop 2 ?ms)" using fold by simp
  ultimately show ?thesis unfolding Let_def by blast
qed

theorem sent_history_well_formed_witness:
  "let ms = [said ''user'' ''a'', said ''assistant'' ''b'']
   in assemble_messages (PyStr ''cut'') ms = (ms, ms)"
proof -
  let ?ms = "[said ''user'' ''a'', said ''assistant'' ''b'']"
  have "calls_answered ?ms" "no_orphans ?ms" by code_simp+
  then have "fst (assemble_messages (PyStr ''cut'') ?ms) = ?ms \<and> snd (assemble_messages (PyStr ''cut'') ?ms) = ?ms"
    using sent_history_well_formed [of "PyStr ''cut''" ?ms] unfolding Let_def split_beta by blast
  then show ?thesis unfolding Let_def by (metis prod.collapse)
qed

end
