(* ===== verification/Tool_Base.thy ===== *)
theory Tool_Base
  imports Py_Values
begin

text \<open>
  Tool definitions and results (\<open>agent_core/tools/base.py\<close>) and the text they are sent as:
  \<open>json.dumps\<close> with \<open>ensure_ascii=False\<close> on dynamic values. The fixed wording of a
  description (headings and bullets) is a parameter.
\<close>

section \<open>json.dumps\<close>

definition hex2 :: "nat \<Rightarrow> str" where
  "hex2 n = [hex_digit (n div 16), hex_digit (n mod 16)]"

definition json_char :: "char \<Rightarrow> str" where
  "json_char c =
     (let n = of_char c :: nat; bs = CHR 0x5C
      in if c = CHR 0x22 \<or> c = bs then [bs, c]
         else if n = 10 then [bs, CHR ''n'']
         else if n = 13 then [bs, CHR ''r'']
         else if n = 9 then [bs, CHR ''t'']
         else if n = 8 then [bs, CHR ''b'']
         else if n = 12 then [bs, CHR ''f'']
         else if n < 32 then bs # ''u00'' @ hex2 n
         else [c])"

definition json_string :: "str \<Rightarrow> str" where
  "json_string s = [CHR 0x22] @ concat (map json_char s) @ [CHR 0x22]"

fun json_dumps :: "pyval \<Rightarrow> str" where
  "json_dumps PyNone = ''null''"
| "json_dumps (PyBool b) = (if b then ''true'' else ''false'')"
| "json_dumps (PyInt i) = int_str i"
| "json_dumps (PyStr s) = json_string s"
| "json_dumps (PyList xs) = ''['' @ join '', '' (map json_dumps xs) @ '']''"
| "json_dumps (PyDict d) =
     ''{'' @ join '', '' (map (\<lambda>(k, v). json_string k @ '': '' @ json_dumps v) d) @ ''}''"

section \<open>Definitions of tools\<close>

record tool_parameter =
  tp_name :: str
  tp_type :: str
  tp_description :: str
  tp_required :: bool
  tp_enum :: "str list option"
  tp_items :: "(str, pyval) dict option"
  tp_default :: pyval

definition to_json_schema :: "tool_parameter \<Rightarrow> pyval" where
  "to_json_schema p =
     (let s0 = [(''type'', PyStr (tp_type p)), (''description'', PyStr (tp_description p))];
          s1 = (case tp_enum p of Some (e # es) \<Rightarrow> dset ''enum'' (PyList (map PyStr (e # es))) s0 | _ \<Rightarrow> s0);
          s2 = (case tp_items p of Some (i # is) \<Rightarrow> dset ''items'' (PyDict (i # is)) s1 | _ \<Rightarrow> s1)
      in PyDict s2)"

record tool_definition =
  td_name :: str
  td_description :: str
  td_parameters :: "tool_parameter list"
  td_examples :: "(str, pyval) dict list"
  td_usage_notes :: "str list"
  td_tags :: "str list"

record wording =
  w_examples :: str
  w_example :: str
  w_params :: str
  w_notes :: str

definition example_lines :: "wording \<Rightarrow> nat \<Rightarrow> (str, pyval) dict \<Rightarrow> str list" where
  "example_lines w i ex =
     (let num = nat_digits i;
          desc = py_get_or ex ''description'' (PyStr (w_example w @ '' '' @ num));
          params = py_get_or ex ''params'' (PyDict [])
      in [[CHR 0x0A] @ num @ ''. '' @ py_str desc] @
         (if truthy params then [''   '' @ w_params w @ json_dumps params] else []))"

definition build_description :: "wording \<Rightarrow> tool_definition \<Rightarrow> str" where
  "build_description w d =
     join [CHR 0x0A]
       ([td_description d] @
        (if td_examples d = [] then []
         else ([CHR 0x0A, CHR 0x0A] @ w_examples w) #
              concat (map (\<lambda>(i, ex). example_lines w i ex) (zip [1..<Suc (length (td_examples d))] (td_examples d)))) @
        (if td_usage_notes d = [] then []
         else ([CHR 0x0A, CHR 0x0A] @ w_notes w) # map (\<lambda>n. ''- '' @ n) (td_usage_notes d)))"

definition to_openai_tool :: "wording \<Rightarrow> tool_definition \<Rightarrow> (str, pyval) dict" where
  "to_openai_tool w d =
     [(''type'', PyStr ''function''),
      (''function'', PyDict
        [(''name'', PyStr (td_name d)),
         (''description'', PyStr (build_description w d)),
         (''parameters'', PyDict
           [(''type'', PyStr ''object''),
            (''properties'', PyDict (fold (\<lambda>p ps. dset (tp_name p) (to_json_schema p) ps) (td_parameters d) [])),
            (''required'', PyList (map (\<lambda>p. PyStr (tp_name p)) (filter tp_required (td_parameters d))))])])]"

section \<open>Results\<close>

record tool_result =
  tr_success :: bool
  tr_data :: pyval
  tr_message :: str
  tr_error :: "str option"
  tr_metadata :: "(str, pyval) dict"

definition failed :: "str \<Rightarrow> str \<Rightarrow> tool_result" where
  "failed error message =
     \<lparr>tr_success = False, tr_data = PyNone, tr_message = message, tr_error = Some error, tr_metadata = []\<rparr>"

definition to_json :: "tool_result \<Rightarrow> str" where
  "to_json r = json_dumps (PyDict
     ([(''success'', PyBool (tr_success r)), (''message'', PyStr (tr_message r))] @
      (if tr_data r = PyNone then [] else [(''data'', tr_data r)]) @
      (if opt_str (tr_error r) = [] then [] else [(''error'', PyStr (opt_str (tr_error r)))]) @
      (if tr_metadata r = [] then [] else [(''metadata'', PyDict (tr_metadata r))])))"

definition shell_streams :: "(str, pyval) dict \<Rightarrow> str" where
  "shell_streams d =
     (let nl = [CHR 0x0A]; out = py_get_or d ''stdout'' (PyStr []); err = py_get_or d ''stderr'' (PyStr []);
          part = (\<lambda>title v. if v \<noteq> PyNone \<and> strip (py_str v) \<noteq> []
                            then [''--- '' @ title @ '' ---'' @ nl @ py_str v] else [])
      in strip (join (nl @ nl) (part ''stdout'' out @ part ''stderr'' err)))"

text \<open>\<open>dots\<close> is the ellipsis character.\<close>

definition cut :: "char \<Rightarrow> int \<Rightarrow> str \<Rightarrow> str" where
  "cut dots max_len s = (if 0 < max_len \<and> max_len < int (length s) then take (nat (max_len - 1)) s @ [dots] else s)"

definition data_preview_str :: "char \<Rightarrow> int \<Rightarrow> tool_result \<Rightarrow> str" where
  "data_preview_str dots max_len r =
     (case tr_data r of
        PyNone \<Rightarrow> []
      | PyDict d \<Rightarrow>
          if has_key ''stdout'' d \<or> has_key ''stderr'' d
          then let s = shell_streams d in if s = [] then [] else cut dots max_len s
          else cut dots max_len (json_dumps (tr_data r))
      | _ \<Rightarrow> cut dots max_len (json_dumps (tr_data r)))"

section \<open>Laws\<close>

lemma length_cut: "0 < max_len \<Longrightarrow> int (length (cut dots max_len s)) \<le> max_len"
  by (auto simp: cut_def)

lemma length_data_preview: "0 < max_len \<Longrightarrow> int (length (data_preview_str dots max_len r)) \<le> max_len"
  by (auto simp: data_preview_str_def Let_def length_cut split: pyval.split)

lemma required_subset_properties:
  "set (filter tp_required ps) \<subseteq> {p \<in> set ps. has_key (tp_name p) (fold (\<lambda>p d. dset (tp_name p) (to_json_schema p) d) ps [])}"
proof -
  have mono: "has_key k d \<Longrightarrow> has_key k (fold (\<lambda>p d. dset (tp_name p) (to_json_schema p) d) qs d)" for k d qs
    by (induction qs arbitrary: d) auto
  have "p \<in> set ps \<Longrightarrow> has_key (tp_name p) (fold (\<lambda>p d. dset (tp_name p) (to_json_schema p) d) ps d)" for p d
    by (induction ps arbitrary: d) (auto simp: mono)
  then show ?thesis by auto
qed

lemma length_json_string: "length s + 2 \<le> length (json_string s)"
proof -
  have one: "1 \<le> length (json_char c)" for c by (simp add: json_char_def Let_def)
  have "length s \<le> length (concat (map json_char s))"
  proof (induction s)
    case (Cons c s)
    with one [of c] show ?case by simp
  qed simp
  then show ?thesis by (simp add: json_string_def)
qed

lemma length_join: "xs = a # b # rest \<Longrightarrow> length a + length sep + length b \<le> length (join sep xs)"
  by (cases rest) auto

lemma length_to_json: "32 \<le> length (to_json r)"
proof -
  let ?a = "json_string ''success'' @ '': '' @ json_dumps (PyBool (tr_success r))"
  let ?b = "json_string ''message'' @ '': '' @ json_string (tr_message r)"
  obtain rest where "to_json r = ''{'' @ join '', '' (?a # ?b # rest) @ ''}''"
    by (simp add: to_json_def)
  moreover have "15 \<le> length ?a" "13 \<le> length ?b"
    using length_json_string [of "''success''"] length_json_string [of "''message''"]
      length_json_string [of "tr_message r"] by auto
  ultimately show ?thesis using length_join [OF refl, of ?a "'', ''" ?b rest] by simp
qed

end
