(* ===== verification/Tool_Results.thy ===== *)
theory Tool_Results
  imports Tool_Base Conversation
begin

text \<open>
  Keeping tool results small: the token estimate (\<open>agent_core/memory/working_memory.py\<close>),
  the truncation and offloading of a result before it enters the history
  (\<open>agent_core/agent/tool_result_overflow.py\<close>) and the placeholders that replace oversized
  and stale results in it (\<open>agent_core/agent/tool_result_clearing.py\<close>).

  Texts are lists of any type of character; \<open>wide\<close> tells the Chinese ones, for code points
  the range below. Division by 1.5 and 4 is done in twelfths: the two floating-point quotients
  add up to an integer only when the exact ones do.
\<close>

section \<open>Estimates\<close>

definition is_wide :: "nat \<Rightarrow> bool" where
  "is_wide c \<longleftrightarrow> 0x4E00 \<le> c \<and> c \<le> 0x9FFF"

abbreviation latin :: "char \<Rightarrow> bool" where
  "latin \<equiv> is_wide \<circ> of_char"

fun twelfths :: "('a \<Rightarrow> bool) \<Rightarrow> 'a list \<Rightarrow> nat" where
  "twelfths wide [] = 0"
| "twelfths wide (c # cs) = (if wide c then 8 else 3) + twelfths wide cs"

definition estimate_tokens :: "('a \<Rightarrow> bool) \<Rightarrow> 'a list \<Rightarrow> nat" where
  "estimate_tokens wide text = (if text = [] then 0 else twelfths wide text div 12 + 1)"

definition message_tokens :: "message \<Rightarrow> nat" where
  "message_tokens m =
     (case py_get_or m ''content'' (PyStr []) of PyStr s \<Rightarrow> estimate_tokens latin s | _ \<Rightarrow> 0) +
     (let calls = py_get_or m ''tool_calls'' (PyList [])
      in if truthy calls then estimate_tokens latin (json_dumps calls) else 0) + 4"

definition estimate_messages_tokens :: "message list \<Rightarrow> nat" where
  "estimate_messages_tokens ms = sum_list (map message_tokens ms)"

text \<open>A text of characters below 256 has no wide ones.\<close>

lemma latin_False [simp]: "\<not> is_wide (of_char c)"
proof -
  have "(of_char c :: nat) < 256" by (rule nat_of_char_less_256)
  then show ?thesis unfolding is_wide_def by linarith
qed

lemma twelfths_latin [simp]: "twelfths latin s = 3 * length s"
  by (induction s) simp_all

lemma estimate_latin: "estimate_tokens latin s = (if s = [] then 0 else length s div 4 + 1)"
proof -
  have "3 * n div 12 = n div 4" for n :: nat by presburger
  then show ?thesis by (simp add: estimate_tokens_def)
qed

section \<open>Truncation\<close>

text \<open>The binary search both truncations run: the largest length whose text passes the test.\<close>

function largest_fit :: "(nat \<Rightarrow> bool) \<Rightarrow> nat \<Rightarrow> nat \<Rightarrow> nat" where
  "largest_fit fits lo hi =
     (if lo < hi then
        let mid = (lo + hi + 1) div 2
        in if fits mid then largest_fit fits mid hi else largest_fit fits lo (mid - 1)
      else lo)"
  by pat_completeness auto
termination
  by (relation "measure (\<lambda>(fits, lo, hi). hi - lo)") auto

declare largest_fit.simps [simp del]

definition truncate_to_tokens :: "('a \<Rightarrow> bool) \<Rightarrow> 'a list \<Rightarrow> int \<Rightarrow> 'a list" where
  "truncate_to_tokens wide text target =
     (if target \<le> 0 \<or> text = [] then []
      else if int (estimate_tokens wide text) \<le> target then text
      else take (largest_fit (\<lambda>n. int (estimate_tokens wide (take n text)) \<le> target) 0 (length text)) text)"

definition last_chars :: "nat \<Rightarrow> 'a list \<Rightarrow> 'a list" where
  "last_chars n text = drop (length text - n) text"

definition truncate_to_suffix :: "('a \<Rightarrow> bool) \<Rightarrow> 'a list \<Rightarrow> int \<Rightarrow> 'a list" where
  "truncate_to_suffix wide text target =
     (if target \<le> 0 \<or> text = [] then []
      else if int (estimate_tokens wide text) \<le> target then text
      else last_chars (largest_fit (\<lambda>n. int (estimate_tokens wide (last_chars n text)) \<le> target) 0 (length text)) text)"

definition head_tail_preview :: "('a \<Rightarrow> bool) \<Rightarrow> 'a list \<Rightarrow> 'a list \<Rightarrow> int \<Rightarrow> 'a list" where
  "head_tail_preview wide sep text target =
     (if target \<le> 0 \<or> text = [] then []
      else if int (estimate_tokens wide text) \<le> target then text
      else
        let sep_tokens = int (estimate_tokens wide sep)
        in if target \<le> sep_tokens + 2 then truncate_to_tokens wide text target
           else
             let half = max ((target - sep_tokens) div 2) 1;
                 head = truncate_to_tokens wide text half;
                 tail = truncate_to_suffix wide text half
             in if tail = [] \<or> head = text \<or> tail = text then head
                else if length text \<le> length head + length tail then truncate_to_tokens wide text target
                else if int (estimate_tokens wide (head @ sep @ tail)) \<le> target then head @ sep @ tail
                else
                  let tighter = max ((target - sep_tokens) div 2 - 8) 1
                  in truncate_to_tokens wide text tighter @ sep @ truncate_to_suffix wide text tighter)"

section \<open>Laws of the truncations\<close>

lemma twelfths_append [simp]: "twelfths wide (xs @ ys) = twelfths wide xs + twelfths wide ys"
  by (induction xs) simp_all

lemma estimate_Nil [simp]: "estimate_tokens wide [] = 0"
  by (simp add: estimate_tokens_def)

lemma estimate_append_mono:
  "estimate_tokens wide xs \<le> estimate_tokens wide (xs @ ys)"
  "estimate_tokens wide ys \<le> estimate_tokens wide (xs @ ys)"
  by (auto simp: estimate_tokens_def div_le_mono)

lemma estimate_take_mono: "m \<le> n \<Longrightarrow> estimate_tokens wide (take m xs) \<le> estimate_tokens wide (take n xs)"
  using estimate_append_mono(1) [of wide "take m xs" "drop m (take n xs)"]
    append_take_drop_id [of m "take n xs"] by (simp add: min_def split: if_splits)

lemma estimate_suffix_mono: "m \<le> n \<Longrightarrow> estimate_tokens wide (last_chars m xs) \<le> estimate_tokens wide (last_chars n xs)"
proof -
  assume "m \<le> n"
  then have "length xs - m = (length xs - m - (length xs - n)) + (length xs - n)" by simp
  then obtain k where "last_chars m xs = drop k (last_chars n xs)"
    unfolding last_chars_def drop_drop by metis
  then show ?thesis
    using estimate_append_mono(2) [where xs = "take k (last_chars n xs)" and ys = "drop k (last_chars n xs)"] by simp
qed

lemma largest_fit_correct:
  assumes "fits lo" and "lo \<le> hi" and "\<And>m n. m \<le> n \<Longrightarrow> n \<le> hi \<Longrightarrow> fits n \<Longrightarrow> fits m"
  shows "fits (largest_fit fits lo hi) \<and> lo \<le> largest_fit fits lo hi \<and> largest_fit fits lo hi \<le> hi \<and>
    (\<forall>n \<le> hi. fits n \<longrightarrow> n \<le> largest_fit fits lo hi)"
  using assms
proof (induction fits lo hi rule: largest_fit.induct)
  case (1 fits lo hi)
  show ?case
  proof (cases "lo < hi")
    case False
    with 1(3,4) have "hi = lo" by simp
    with 1(3) show ?thesis by (simp add: largest_fit.simps)
  next
    case True
    define mid where "mid = (lo + hi + 1) div 2"
    have mid: "lo < mid" "mid \<le> hi" using True unfolding mid_def by presburger+
    show ?thesis
    proof (cases "fits mid")
      case True
      have "fits (largest_fit fits mid hi) \<and> mid \<le> largest_fit fits mid hi \<and> largest_fit fits mid hi \<le> hi \<and>
          (\<forall>n \<le> hi. fits n \<longrightarrow> n \<le> largest_fit fits mid hi)"
        by (rule 1(1) [OF \<open>lo < hi\<close> mid_def True True mid(2)]) (rule 1(5))
      moreover have "largest_fit fits lo hi = largest_fit fits mid hi"
        using \<open>lo < hi\<close> True by (subst largest_fit.simps) (simp add: Let_def mid_def)
      ultimately show ?thesis using mid by auto
    next
      case False
      have "fits (largest_fit fits lo (mid - 1)) \<and> lo \<le> largest_fit fits lo (mid - 1) \<and> largest_fit fits lo (mid - 1) \<le> mid - 1 \<and>
          (\<forall>n \<le> mid - 1. fits n \<longrightarrow> n \<le> largest_fit fits lo (mid - 1))"
        by (rule 1(2) [OF \<open>lo < hi\<close> mid_def False 1(3)]) (use mid in \<open>auto intro: 1(5)\<close>)
      moreover have "largest_fit fits lo hi = largest_fit fits lo (mid - 1)"
        using \<open>lo < hi\<close> False by (subst largest_fit.simps) (simp add: Let_def mid_def)
      moreover have "n \<le> mid - 1" if "n \<le> hi" "fits n" for n
        using 1(5) [of mid n] that False mid by (cases "mid \<le> n") auto
      ultimately show ?thesis using mid by auto
    qed
  qed
qed

lemma truncate_correct:
  assumes "0 < target"
  shows "int (estimate_tokens wide (truncate_to_tokens wide cs target)) \<le> target"
    and "prefix (truncate_to_tokens wide cs target) cs"
    and "prefix p cs \<Longrightarrow> int (estimate_tokens wide p) \<le> target \<Longrightarrow>
      length p \<le> length (truncate_to_tokens wide cs target)"
proof -
  let ?fits = "\<lambda>n. int (estimate_tokens wide (take n cs)) \<le> target"
  let ?n = "largest_fit ?fits 0 (length cs)"
  have s: "?fits ?n \<and> 0 \<le> ?n \<and> ?n \<le> length cs \<and> (\<forall>n \<le> length cs. ?fits n \<longrightarrow> n \<le> ?n)"
    by (rule largest_fit_correct)
      (use assms estimate_take_mono [of _ _ wide cs] in
        \<open>force intro: order_trans\<close>)+
  then show "int (estimate_tokens wide (truncate_to_tokens wide cs target)) \<le> target"
    using assms by (auto simp: truncate_to_tokens_def)
  show "prefix (truncate_to_tokens wide cs target) cs"
    by (simp add: truncate_to_tokens_def take_is_prefix)
  assume p: "prefix p cs" "int (estimate_tokens wide p) \<le> target"
  then have "p = take (length p) cs" "length p \<le> length cs"
    by (auto simp: prefix_def)
  with p s show "length p \<le> length (truncate_to_tokens wide cs target)"
    using assms by (auto simp: truncate_to_tokens_def)
qed

lemma suffix_correct:
  assumes "0 < target"
  shows "int (estimate_tokens wide (truncate_to_suffix wide cs target)) \<le> target"
    and "suffix (truncate_to_suffix wide cs target) cs"
proof -
  let ?fits = "\<lambda>n. int (estimate_tokens wide (last_chars n cs)) \<le> target"
  let ?n = "largest_fit ?fits 0 (length cs)"
  have "?fits ?n \<and> 0 \<le> ?n \<and> ?n \<le> length cs \<and> (\<forall>n \<le> length cs. ?fits n \<longrightarrow> n \<le> ?n)"
    by (rule largest_fit_correct)
      (use assms estimate_suffix_mono [of _ _ wide cs] in
        \<open>force simp: last_chars_def intro: order_trans\<close>)+
  then show "int (estimate_tokens wide (truncate_to_suffix wide cs target)) \<le> target"
    using assms by (auto simp: truncate_to_suffix_def)
  show "suffix (truncate_to_suffix wide cs target) cs"
    by (simp add: truncate_to_suffix_def last_chars_def suffix_drop)
qed

lemma estimate_le_iff: "xs \<noteq> [] \<Longrightarrow> estimate_tokens wide xs \<le> n \<longleftrightarrow> twelfths wide xs < 12 * n"
  by (auto simp: estimate_tokens_def)

text \<open>
  The two halves and the separator fit together: their twelfths add up below the target.
\<close>

lemma joined_estimate:
  assumes "estimate_tokens wide xs \<le> a" "estimate_tokens wide ys \<le> b" "estimate_tokens wide zs \<le> a"
    "2 * a + b \<le> n"
  shows "estimate_tokens wide (xs @ ys @ zs) \<le> n"
proof (cases "xs @ ys @ zs = []")
  case False
  have "twelfths wide us \<le> 12 * k" if "estimate_tokens wide us \<le> k" for us k
    using that estimate_le_iff [of us wide k] by (cases us) auto
  note le = this [OF assms(1)] this [OF assms(2)] this [OF assms(3)]
  have "twelfths wide us < 12 * k" if "us \<noteq> []" "estimate_tokens wide us \<le> k" for us k
    using that estimate_le_iff by blast
  note lt = this [of xs a] this [of ys b] this [of zs a]
  have "twelfths wide (xs @ ys @ zs) < 12 * n"
    using le lt assms False by (cases "xs = []"; cases "ys = []"; cases "zs = []") auto
  then show ?thesis using False estimate_le_iff by blast
qed simp

lemma half_budget: "s + 2 < target \<Longrightarrow> 2 * max ((target - s) div 2) 1 + s \<le> target" for s :: int
  by auto

lemma preview_fits: "0 \<le> target \<Longrightarrow> int (estimate_tokens wide (head_tail_preview wide sep cs target)) \<le> target"
proof -
  assume "0 \<le> target"
  let ?s = "int (estimate_tokens wide sep)" and ?h = "max ((target - int (estimate_tokens wide sep)) div 2) 1"
  let ?head = "truncate_to_tokens wide cs ?h" and ?tail = "truncate_to_suffix wide cs ?h"
  consider "target \<le> 0 \<or> cs = []" | "0 < target" "target \<le> ?s + 2" | "0 < target" "?s + 2 < target"
    by linarith
  then show ?thesis
  proof cases
    case 1
    then show ?thesis using \<open>0 \<le> target\<close> by (simp add: head_tail_preview_def)
  next
    case 2
    then show ?thesis using truncate_correct(1) [of target wide cs] by (simp add: head_tail_preview_def)
  next
    case 3
    have head: "int (estimate_tokens wide ?head) \<le> ?h" and tail: "int (estimate_tokens wide ?tail) \<le> ?h"
      by (rule truncate_correct(1), simp) (rule suffix_correct(1), simp)
    have "2 * ?h + ?s \<le> target" using half_budget 3(2) .
    then have "estimate_tokens wide (?head @ sep @ ?tail) \<le> nat target"
      using head tail by (intro joined_estimate [where a = "nat ?h" and b = "nat ?s"]) linarith+
    then have "int (estimate_tokens wide (?head @ sep @ ?tail)) \<le> target" using 3(1) by linarith
    moreover have "int (estimate_tokens wide ?head) \<le> target"
      using head \<open>2 * ?h + ?s \<le> target\<close> by linarith
    ultimately show ?thesis
      using 3 truncate_correct(1) [of target wide cs] by (simp add: head_tail_preview_def Let_def)
  qed
qed

section \<open>Base64 payloads\<close>

fun find_sub :: "str \<Rightarrow> str \<Rightarrow> nat option" where
  "find_sub needle [] = (if needle = [] then Some 0 else None)"
| "find_sub needle (c # cs) =
     (if prefix needle (c # cs) then Some 0 else map_option Suc (find_sub needle cs))"

definition is_base64_key :: "str \<Rightarrow> bool" where
  "is_base64_key key =
     (let k = lower (strip key)
      in k \<noteq> [] \<and> (find_sub ''base64'' k \<noteq> None \<or> k = ''file_data''))"

text \<open>The pattern \<open>^data:([^;,]+)?;base64,\<close>, letter case ignored.\<close>

definition is_data_url :: "str \<Rightarrow> bool" where
  "is_data_url value =
     (let v = lower (strip value)
      in startswith v ''data:'' \<and>
         startswith (dropWhile (\<lambda>c. c \<notin> set '';,'') (drop 5 v)) '';base64,'')"

definition base64_placeholder :: "nat \<Rightarrow> str \<Rightarrow> str" where
  "base64_placeholder chars source =
     ''[base64 omitted: '' @ nat_digits chars @ '' chars, source='' @ source @ '']''"

text \<open>The result and how many fields and characters were replaced.\<close>

type_synonym redaction = "nat \<times> nat"

definition add_stats :: "redaction \<Rightarrow> redaction \<Rightarrow> redaction" where
  "add_stats a b = (fst a + fst b, snd a + snd b)"

fun sanitize :: "str \<Rightarrow> pyval \<Rightarrow> pyval \<times> redaction" where
  "sanitize parent (PyDict d) =
     (let parts = map (\<lambda>(k, v). (k, case v of
              PyStr s \<Rightarrow> if is_base64_key k
                then (PyStr (base64_placeholder (length s) k), (1, length s))
                else sanitize k v
            | _ \<Rightarrow> sanitize k v)) d
      in (PyDict (map (\<lambda>(k, v, _). (k, v)) parts),
          foldr add_stats (map (\<lambda>(_, _, st). st) parts) (0, 0)))"
| "sanitize parent (PyList xs) =
     (let parts = map (sanitize parent) xs
      in (PyList (map fst parts), foldr add_stats (map snd parts) (0, 0)))"
| "sanitize parent (PyStr s) =
     (if is_data_url s
      then (PyStr (base64_placeholder (length s) (str_or parent ''data_url'')), (1, length s))
      else (PyStr s, (0, 0)))"
| "sanitize parent v = (v, (0, 0))"

definition sanitize_result :: "tool_result \<Rightarrow> tool_result \<times> redaction" where
  "sanitize_result r =
     (let (data, s1) = sanitize [] (tr_data r);
          (meta, s2) = sanitize [] (PyDict (tr_metadata r));
          total = add_stats s1 s2
      in if fst total = 0 then (r, total)
         else (r\<lparr>tr_data := data,
                 tr_metadata := dset ''_base64_omitted''
                   (PyDict [(''fields'', PyInt (int (fst total))), (''chars'', PyInt (int (snd total)))])
                   (dict_of meta)\<rparr>, total))"

section \<open>Offloading\<close>

definition safe_char :: "char \<Rightarrow> bool" where
  "safe_char c \<longleftrightarrow>
     (let n = of_char c :: nat
      in 65 \<le> n \<and> n \<le> 90 \<or> 97 \<le> n \<and> n \<le> 122 \<or> 48 \<le> n \<and> n \<le> 57 \<or> c \<in> set ''._-'')"

text \<open>Runs of other characters become one underscore; \<open>inside\<close> tells whether the last one did.\<close>

fun squash_unsafe :: "bool \<Rightarrow> str \<Rightarrow> str" where
  "squash_unsafe inside [] = []"
| "squash_unsafe inside (c # cs) =
     (if safe_char c then c # squash_unsafe False cs
      else if inside then squash_unsafe True cs
      else CHR ''_'' # squash_unsafe True cs)"

definition strip_chars :: "str \<Rightarrow> str \<Rightarrow> str" where
  "strip_chars cs s = rev (dropWhile (\<lambda>c. c \<in> set cs) (rev (dropWhile (\<lambda>c. c \<in> set cs) s)))"

definition sanitize_for_filename :: "str \<Rightarrow> str \<Rightarrow> str" where
  "sanitize_for_filename value fallback =
     take 80 (str_or (strip_chars ''_.'' (squash_unsafe False (strip value))) fallback)"

definition overflow_filename :: "str \<Rightarrow> str \<Rightarrow> str \<Rightarrow> str" where
  "overflow_filename ts tool_name cid =
     ts @ ''_'' @ sanitize_for_filename tool_name ''tool'' @ ''_'' @
     take 24 (sanitize_for_filename cid ''noid'') @ ''.json''"

text \<open>
  The fixed wording: the separator of a preview, the full message for a preview of so many
  tokens, the bare message and the message of the smallest shell.
\<close>

record overflow_words =
  ow_sep :: str
  ow_message :: "nat \<Rightarrow> str"
  ow_bare :: str
  ow_shell :: str

definition overflow_meta :: "nat \<Rightarrow> nat \<Rightarrow> nat \<Rightarrow> str \<Rightarrow> str option \<Rightarrow> pyval" where
  "overflow_meta original_tokens max_tokens char_size path persist_error =
     PyDict [(''triggered'', PyBool True), (''original_tokens'', PyInt (int original_tokens)),
       (''max_tokens'', PyInt (int max_tokens)), (''overflow_path'', PyStr path),
       (''persist_error'', case persist_error of None \<Rightarrow> PyNone | Some e \<Rightarrow> PyStr e),
       (''char_size'', PyInt (int char_size))]"

definition persist_field :: "str option \<Rightarrow> (str, pyval) dict" where
  "persist_field e = (if opt_str e = [] then [] else [(''persist_error'', PyStr (opt_str e))])"

definition preview_data :: "nat \<Rightarrow> nat \<Rightarrow> str \<Rightarrow> nat \<Rightarrow> str \<Rightarrow> str option \<Rightarrow> pyval" where
  "preview_data original_tokens preview_tokens path char_size preview persist_error =
     PyDict ([(''truncated'', PyBool True), (''original_tokens'', PyInt (int original_tokens)),
       (''preview_tokens'', PyInt (int preview_tokens)), (''overflow_path'', PyStr path),
       (''char_size'', PyInt (int char_size)), (''preview'', PyStr preview)] @ persist_field persist_error)"

text \<open>The next preview budget: reduced in proportion to the excess, at least by a third.\<close>

definition next_budget :: "int \<Rightarrow> nat \<Rightarrow> nat \<Rightarrow> int" where
  "next_budget budget kept max_tokens =
     max \<lfloor>of_int budget / max (of_nat kept / of_nat (max max_tokens 1)) (3 / 2) :: rat\<rfloor> 0"

definition result_tokens :: "tool_result \<Rightarrow> nat" where
  "result_tokens r = estimate_tokens latin (to_json r)"

text \<open>The rounds of the loop: the first candidate that fits, if any.\<close>

fun fit_preview :: "(int \<Rightarrow> tool_result) \<Rightarrow> nat \<Rightarrow> nat \<Rightarrow> int \<Rightarrow> tool_result option" where
  "fit_preview candidate max_tokens 0 budget = None"
| "fit_preview candidate max_tokens (Suc rounds) budget =
     (let kept = result_tokens (candidate budget)
      in if kept \<le> max_tokens then Some (candidate budget)
         else if budget \<le> 0 then None
         else fit_preview candidate max_tokens rounds (next_budget budget kept max_tokens))"

definition build_truncated ::
  "overflow_words \<Rightarrow> tool_result \<Rightarrow> str \<Rightarrow> nat \<Rightarrow> nat \<Rightarrow> str \<Rightarrow> str option \<Rightarrow> tool_result" where
  "build_truncated w r json original_tokens max_tokens path persist_error =
     (let size = length json;
          meta = overflow_meta original_tokens max_tokens size path persist_error;
          new_metadata = dset ''_overflow'' meta (tr_metadata r);
          candidate = (\<lambda>budget.
            let preview = head_tail_preview latin (ow_sep w) json budget;
                n = estimate_tokens latin preview
            in r\<lparr>tr_data := preview_data original_tokens n path size preview persist_error,
                 tr_message := ow_message w n, tr_metadata := new_metadata\<rparr>);
          bare = r\<lparr>tr_data := preview_data original_tokens 0 path size [] persist_error,
                   tr_message := truncate_to_tokens latin (ow_bare w) (max (int max_tokens div 2) 32),
                   tr_metadata := new_metadata\<rparr>;
          shell = \<lparr>tr_success = tr_success r,
                   tr_data = PyDict [(''truncated'', PyBool True),
                     (''original_tokens'', PyInt (int original_tokens)), (''overflow_path'', PyStr path),
                     (''char_size'', PyInt (int size)), (''preview'', PyStr [])],
                   tr_message = truncate_to_tokens latin (ow_shell w) (max (int max_tokens div 2) 16),
                   tr_error = None, tr_metadata = [(''_overflow'', meta)]\<rparr>
      in case fit_preview candidate max_tokens 12 (max (int max_tokens - 280) 0) of
           Some c \<Rightarrow> c
         | None \<Rightarrow> if result_tokens bare \<le> max_tokens then bare else shell)"

record overflow_outcome =
  oo_triggered :: bool
  oo_path :: "str option"
  oo_original :: nat
  oo_kept :: nat
  oo_display :: str

definition not_triggered :: "nat \<Rightarrow> overflow_outcome" where
  "not_triggered n = \<lparr>oo_triggered = False, oo_path = None, oo_original = n, oo_kept = 0, oo_display = []\<rparr>"

text \<open>
  \<open>write\<close> makes the directory and writes the file under the name given; it answers with the
  error's text, or with the absolute path and the one shown to the model. The wording depends
  on the path shown, the error and the numbers.
\<close>

definition maybe_offload ::
  "(nat \<Rightarrow> nat \<Rightarrow> str \<Rightarrow> str option \<Rightarrow> overflow_words) \<Rightarrow> (str \<Rightarrow> str \<Rightarrow> str + str \<times> str) \<Rightarrow>
    str \<Rightarrow> tool_result \<Rightarrow> str \<Rightarrow> str \<Rightarrow> int option \<Rightarrow> tool_result \<times> overflow_outcome" where
  "maybe_offload words write ts result tool_name cid max_tokens =
     (let r = fst (sanitize_result result)
      in case max_tokens of None \<Rightarrow> (r, not_triggered 0)
      | Some m \<Rightarrow>
        if m \<le> 0 then (r, not_triggered 0)
        else
          let limit = nat m; json = to_json r; original = estimate_tokens latin json
          in if original \<le> limit then (r, not_triggered original)
             else case write (overflow_filename ts tool_name cid) json of
               Inl err \<Rightarrow>
                 let t = build_truncated (words original (length json) [] (Some err)) r json original limit [] (Some err)
                 in (t, \<lparr>oo_triggered = True, oo_path = None, oo_original = original,
                         oo_kept = result_tokens t, oo_display = []\<rparr>)
             | Inr (path, display) \<Rightarrow>
                 let t = build_truncated (words original (length json) display None) r json original limit display None
                 in (t, \<lparr>oo_triggered = True, oo_path = Some path, oo_original = original,
                         oo_kept = result_tokens t, oo_display = display\<rparr>))"

section \<open>Placeholders in the history\<close>

definition content_text :: "pyval \<Rightarrow> str" where
  "content_text v = (case v of PyStr s \<Rightarrow> s | _ \<Rightarrow> json_dumps v)"

definition stripped_str :: "pyval \<Rightarrow> str option" where
  "stripped_str v = (case v of PyStr s \<Rightarrow> if strip s = [] then None else Some (strip s) | _ \<Rightarrow> None)"

definition first_found :: "'a option list \<Rightarrow> 'a option" where
  "first_found xs = (case filter (\<lambda>x. x \<noteq> None) xs of [] \<Rightarrow> None | x # _ \<Rightarrow> x)"

text \<open>\<open>loads\<close> is \<open>json.loads\<close>, \<open>None\<close> where it raises.\<close>

definition path_in_json :: "pyval option \<Rightarrow> str option" where
  "path_in_json obj =
     (case obj of
        Some (PyDict d) \<Rightarrow>
          first_found [stripped_str (py_get (dict_of (py_get d ''data'')) ''overflow_path''),
            stripped_str (py_get (dict_of (py_get (dict_of (py_get d ''metadata'')) ''_overflow'')) ''overflow_path''),
            stripped_str (py_get d ''overflow_path'')]
      | _ \<Rightarrow> None)"

definition path_in_text :: "str \<Rightarrow> str" where
  "path_in_text s =
     (case find_sub ''.tool_results/'' s of
        None \<Rightarrow> []
      | Some i \<Rightarrow>
          let stop = [CHR '' '', CHR 0x0A, CHR 0x09]
          in strip_chars ''.,;''
               (rev (takeWhile (\<lambda>c. c \<notin> set (stop @ ''('')) (rev (take i s))) @
                takeWhile (\<lambda>c. c \<notin> set (stop @ [CHR '')'', CHR 0x22, CHR 0x27])) (drop i s)))"

definition extract_overflow_path :: "(str \<Rightarrow> pyval option) \<Rightarrow> str \<Rightarrow> str" where
  "extract_overflow_path loads content =
     (let s = strip content
      in if s = [] then []
         else case path_in_json (loads s) of Some p \<Rightarrow> p | None \<Rightarrow> path_in_text s)"

abbreviation cleared_marker :: str where "cleared_marker \<equiv> ''[cleared tool_result''"

abbreviation scrubbed_marker :: str where "scrubbed_marker \<equiv> ''[scrubbed oversized tool_result''"

definition already_cleared :: "str \<Rightarrow> bool" where
  "already_cleared s \<longleftrightarrow> startswith (lstrip s) cleared_marker \<or> startswith (lstrip s) scrubbed_marker"

definition placeholder :: "str \<Rightarrow> str \<Rightarrow> nat \<Rightarrow> str \<Rightarrow> str" where
  "placeholder marker cid tokens path =
     marker @ '' id='' @ str_or cid ''unknown'' @ ''; original~'' @ nat_digits tokens @ '' tokens;'' @
     (if path = [] then '' re-call tool or read prior overflow dump if any''
      else '' re-fetch via overflow_path='' @ path) @ '']''"

definition put_placeholder :: "(str \<Rightarrow> pyval option) \<Rightarrow> str \<Rightarrow> message \<Rightarrow> message" where
  "put_placeholder loads marker m =
     (let s = content_text (py_get m ''content'')
      in dset ''content'' (PyStr (placeholder marker (py_str (py_or (py_get m ''tool_call_id'') (PyStr [])))
           (estimate_tokens latin s) (extract_overflow_path loads s))) m)"

text \<open>What happens to one message; the counters of the source are the lengths of these groups.\<close>

datatype shrink_step = Untouched | Small | Already | Replaced

definition scrub_step :: "nat \<Rightarrow> message \<Rightarrow> shrink_step" where
  "scrub_step max_tokens m =
     (let s = content_text (py_get m ''content'')
      in if \<not> role_is ''tool'' m then Untouched
         else if estimate_tokens latin s \<le> max_tokens then (if already_cleared s then Already else Small)
         else Replaced)"

definition scrub_oversized ::
  "(str \<Rightarrow> pyval option) \<Rightarrow> int \<Rightarrow> message list \<Rightarrow> message list \<times> shrink_step list" where
  "scrub_oversized loads max_tokens ms =
     (if max_tokens \<le> 0 then (ms, [])
      else (map (\<lambda>m. if scrub_step (nat max_tokens) m = Replaced then put_placeholder loads scrubbed_marker m else m) ms,
            map (scrub_step (nat max_tokens)) ms))"

text \<open>\<open>fresh\<close> tells whether the message is among the last \<open>keep_recent\<close> tool results.\<close>

definition clear_step :: "int \<Rightarrow> bool \<Rightarrow> message \<Rightarrow> shrink_step" where
  "clear_step min_tokens fresh m =
     (let s = content_text (py_get m ''content'')
      in if \<not> role_is ''tool'' m \<or> fresh then Untouched
         else if already_cleared s then Already
         else if int (estimate_tokens latin s) \<le> max min_tokens 0 then Small
         else Replaced)"

definition tool_indices :: "message list \<Rightarrow> nat list" where
  "tool_indices ms = filter (\<lambda>i. role_is ''tool'' (ms ! i)) [0..<length ms]"

definition keep_set :: "nat \<Rightarrow> message list \<Rightarrow> nat set" where
  "keep_set keep_recent ms = set (drop (length (tool_indices ms) - keep_recent) (tool_indices ms))"

definition clear_stale ::
  "(str \<Rightarrow> pyval option) \<Rightarrow> int \<Rightarrow> int \<Rightarrow> message list \<Rightarrow> message list \<times> shrink_step list" where
  "clear_stale loads keep_recent min_tokens ms =
     (if keep_recent < 0 then (ms, [])
      else
        let step = (\<lambda>i. clear_step min_tokens (i \<in> keep_set (nat keep_recent) ms) (ms ! i))
        in (map (\<lambda>i. if step i = Replaced then put_placeholder loads cleared_marker (ms ! i) else ms ! i)
              [0..<length ms], map step [0..<length ms]))"

record memory_config =
  mc_max_tool_result_tokens :: "int option"
  mc_clear_stale :: bool
  mc_keep_recent :: int
  mc_clear_min_tokens :: int

definition maybe_scrub :: "(str \<Rightarrow> pyval option) \<Rightarrow> memory_config \<Rightarrow> message list \<Rightarrow> message list" where
  "maybe_scrub loads c ms =
     (case mc_max_tool_result_tokens c of None \<Rightarrow> ms | Some m \<Rightarrow> fst (scrub_oversized loads m ms))"

definition maybe_clear ::
  "(str \<Rightarrow> pyval option) \<Rightarrow> memory_config \<Rightarrow> int option \<Rightarrow> int option \<Rightarrow> bool \<Rightarrow> message list \<Rightarrow> message list" where
  "maybe_clear loads c keep_recent min_tokens force ms =
     (if \<not> force \<and> \<not> mc_clear_stale c then ms
      else fst (clear_stale loads
             (case keep_recent of None \<Rightarrow> mc_keep_recent c | Some k \<Rightarrow> k)
             (case min_tokens of None \<Rightarrow> mc_clear_min_tokens c | Some t \<Rightarrow> t) ms))"

definition shrink_before_llm :: "(str \<Rightarrow> pyval option) \<Rightarrow> memory_config \<Rightarrow> message list \<Rightarrow> message list" where
  "shrink_before_llm loads c ms = maybe_clear loads c None None False (maybe_scrub loads c ms)"

section \<open>Laws of the history\<close>

text \<open>Shrinking changes nothing but the content of tool results.\<close>

definition same_but_content :: "message \<Rightarrow> message \<Rightarrow> bool" where
  "same_but_content m m' \<longleftrightarrow>
     (\<forall>k. k \<noteq> ''content'' \<longrightarrow> map_of m' k = map_of m k) \<and> (\<not> role_is ''tool'' m \<longrightarrow> m' = m)"

lemma same_refl [simp]: "same_but_content m m"
  by (simp add: same_but_content_def)

lemma same_trans: "same_but_content a b \<Longrightarrow> same_but_content b c \<Longrightarrow> same_but_content a c"
  by (auto simp: same_but_content_def role_is_def py_get_def)

lemma put_placeholder_same: "role_is ''tool'' m \<Longrightarrow> same_but_content m (put_placeholder loads marker m)"
  by (simp add: same_but_content_def put_placeholder_def Let_def)

lemma scrub_step_tool: "scrub_step n m = Replaced \<Longrightarrow> role_is ''tool'' m"
  by (simp add: scrub_step_def Let_def split: if_splits)

lemma clear_step_tool: "clear_step n fresh m = Replaced \<Longrightarrow> role_is ''tool'' m \<and> \<not> fresh"
  by (simp add: clear_step_def Let_def split: if_splits)

lemma list_all2_map_self: "(\<And>x. x \<in> set xs \<Longrightarrow> P x (f x)) \<Longrightarrow> list_all2 P xs (map f xs)"
  by (induction xs) simp_all

lemma scrub_same: "list_all2 same_but_content ms (fst (scrub_oversized loads n ms))"
  by (auto simp: scrub_oversized_def list.rel_refl put_placeholder_same scrub_step_tool intro: list_all2_map_self)

lemma clear_same: "list_all2 same_but_content ms (fst (clear_stale loads k n ms))"
  by (auto simp: clear_stale_def Let_def list.rel_refl put_placeholder_same clear_step_tool list_all2_conv_all_nth)

lemma same_compose: "list_all2 same_but_content a b \<Longrightarrow> list_all2 same_but_content b c \<Longrightarrow> list_all2 same_but_content a c"
  by (rule list_all2_trans [OF same_trans])

lemma maybe_scrub_same: "list_all2 same_but_content ms (maybe_scrub loads c ms)"
  by (simp add: maybe_scrub_def list.rel_refl scrub_same split: option.split)

lemma maybe_clear_same: "list_all2 same_but_content ms (maybe_clear loads c k n force ms)"
  by (simp add: maybe_clear_def list.rel_refl clear_same)

lemma shrink_same: "list_all2 same_but_content ms (shrink_before_llm loads c ms)"
  unfolding shrink_before_llm_def by (rule same_compose [OF maybe_scrub_same maybe_clear_same])

lemma same_reads:
  assumes "same_but_content m m'"
  shows "role_is r m' = role_is r m" "calls_tools m' = calls_tools m" "result_id m' = result_id m"
    "tool_call_ids m' = tool_call_ids m"
  using assms by (auto simp: same_but_content_def role_is_def calls_tools_def result_id_def tool_call_ids_def py_get_def)

lemma same_block:
  "list_all2 same_but_content ms ms' \<Longrightarrow>
    list_all2 same_but_content (takeWhile (role_is ''tool'') ms) (takeWhile (role_is ''tool'') ms')"
  by (induction ms ms' rule: list_all2_induct) (auto simp: same_reads)

lemma same_results: "list_all2 same_but_content ms ms' \<Longrightarrow> result_id ` set ms' = result_id ` set ms"
  by (induction ms ms' rule: list_all2_induct) (auto simp: same_reads)

lemma same_answered: "list_all2 same_but_content ms ms' \<Longrightarrow> calls_answered ms' = calls_answered ms"
proof (induction ms ms' rule: list_all2_induct)
  case (Cons m ms m' ms')
  then show ?case
    using same_results [OF same_block [OF Cons(2)]] by (simp add: missing_results_def same_reads)
qed simp

lemma same_orphans:
  "list_all2 same_but_content ms ms' \<Longrightarrow> rel_option same_but_content p p' \<Longrightarrow>
    no_orphans_from p' ms' = no_orphans_from p ms"
proof (induction ms ms' arbitrary: p p' rule: list_all2_induct)
  case (Cons m ms m' ms')
  have "follows_call p' = follows_call p"
    using Cons(4) by (cases p; cases p') (simp_all add: follows_call_def same_reads)
  with Cons(1) Cons(3) [of "Some m" "Some m'"] show ?case by (simp add: same_reads)
qed simp

section \<open>What offloading guarantees\<close>

lemma fit_preview_fits: "fit_preview candidate n rounds budget = Some r \<Longrightarrow> result_tokens r \<le> n"
  by (induction candidate n rounds budget rule: fit_preview.induct) (auto simp: Let_def split: if_splits)

lemma fit_preview_candidate:
  "fit_preview candidate n rounds budget = Some r \<Longrightarrow> 0 \<le> budget \<Longrightarrow> \<exists>b. 0 \<le> b \<and> r = candidate b"
  by (induction candidate n rounds budget rule: fit_preview.induct)
    (auto simp: Let_def next_budget_def split: if_splits)

text \<open>A result that has been cut: it keeps its verdict and carries no text beyond the preview.\<close>

definition smallest_shell :: "tool_result \<Rightarrow> bool" where
  "smallest_shell r \<longleftrightarrow> tr_error r = None \<and> py_get (dict_of (tr_data r)) ''preview'' = PyStr [] \<and>
     dkeys (tr_metadata r) = [''_overflow'']"

lemma build_truncated_bounded:
  "result_tokens (build_truncated w r json n m path e) \<le> m \<or> smallest_shell (build_truncated w r json n m path e)"
  using fit_preview_fits [where n = m and rounds = 12]
  by (auto simp: build_truncated_def Let_def smallest_shell_def py_get_def split: option.split)

lemma build_truncated_success [simp]: "tr_success (build_truncated w r json n m path e) = tr_success r"
proof -
  have "tr_success c = tr_success r"
    if "fit_preview f m 12 b = Some c" "\<And>b. tr_success (f b) = tr_success r" "0 \<le> b" for f b c
    using fit_preview_candidate [OF that(1,3)] that(2) by auto
  then show ?thesis by (auto simp: build_truncated_def Let_def split: option.split)
qed

lemma sanitize_result_success [simp]: "tr_success (fst (sanitize_result r)) = tr_success r"
  by (simp add: sanitize_result_def Let_def split: prod.split)

text \<open>No data URL survives the redaction.\<close>

fun has_data_url :: "pyval \<Rightarrow> bool" where
  "has_data_url (PyStr s) = is_data_url s"
| "has_data_url (PyList xs) = list_ex has_data_url xs"
| "has_data_url (PyDict d) = list_ex (\<lambda>(k, v). has_data_url v) d"
| "has_data_url _ = False"

lemma strip_bracket: "lower (strip (CHR ''['' # s @ '']'')) = CHR ''['' # lower (s @ '']'')"
proof -
  have "strip (CHR ''['' # s @ '']'') = CHR ''['' # s @ '']''"
    by (rule strip_id_iff_ends) (simp_all add: is_space_def)
  then show ?thesis by (simp add: lower_def lower_char_def Let_def)
qed

lemma placeholder_no_url: "\<not> is_data_url (base64_placeholder n source)"
  using strip_bracket [of "''base64 omitted: '' @ nat_digits n @ '' chars, source='' @ source"]
  by (simp add: base64_placeholder_def is_data_url_def)

lemma sanitize_no_url: "\<not> has_data_url (fst (sanitize parent v))"
proof (induction parent v rule: sanitize.induct)
  case (1 parent d)
  have "\<not> has_data_url (fst (case v of
      PyStr s \<Rightarrow> if is_base64_key k then (PyStr (base64_placeholder (length s) k), (1, length s)) else sanitize k v
    | _ \<Rightarrow> sanitize k v))" if "(k, v) \<in> set d" for k v
    using 1 [OF that refl] by (cases v) (simp_all add: placeholder_no_url)
  then show ?case by (fastforce simp: Let_def list_ex_iff split_beta)
next
  case (2 parent xs)
  then show ?case by (auto simp: Let_def list_ex_iff)
qed (simp_all add: placeholder_no_url)

section \<open>Properties\<close>

text \<open>A result that is offloaded enters the history within the limit on its tokens, unless
  even the smallest shell without preview and error text is above it; it is cut exactly when
  its text is above the limit, it keeps its verdict, the preview in it never exceeds the budget
  it was made for, and the file's name stays a plain name.\<close>

theorem offloaded_result_bounded:
  assumes "0 < m"
  shows "let (r', out) = maybe_offload words write ts r tool cid (Some m);
             json = to_json (fst (sanitize_result r))
         in (int (result_tokens r') \<le> m \<or> oo_triggered out \<and> smallest_shell r') \<and>
            tr_success r' = tr_success r \<and>
            (oo_triggered out \<longleftrightarrow> m < int (estimate_tokens latin json)) \<and>
            (\<not> oo_triggered out \<longrightarrow> r' = fst (sanitize_result r)) \<and>
            (\<forall>budget sep. 0 \<le> budget \<longrightarrow>
               int (estimate_tokens latin (head_tail_preview latin sep json budget)) \<le> budget)"
proof -
  have bounded: "int (result_tokens (build_truncated w x j k (nat m) p e)) \<le> m \<or>
      smallest_shell (build_truncated w x j k (nat m) p e)" for w x j k p e
    using build_truncated_bounded [of w x j k "nat m" p e] assms by linarith
  show ?thesis
    using assms bounded
    by (auto simp: maybe_offload_def not_triggered_def Let_def preview_fits result_tokens_def
        split: sum.split prod.split)
qed

text \<open>Shrinking the tool results before a request keeps the history valid: only the
  contents of tool results change, so every call stays answered and no result becomes an
  orphan; after the first pass every result is within the limit or a placeholder, and the
  second pass leaves the newest ones alone.\<close>

theorem shrinking_keeps_history:
  "let ms' = shrink_before_llm loads c ms
   in list_all2 same_but_content ms ms' \<and> (calls_answered ms' \<longleftrightarrow> calls_answered ms) \<and>
      (no_orphans ms' \<longleftrightarrow> no_orphans ms) \<and>
      (\<forall>n m'. 0 < n \<and> m' \<in> set (fst (scrub_oversized loads n ms)) \<and> role_is ''tool'' m' \<longrightarrow>
         int (estimate_tokens latin (content_text (py_get m' ''content''))) \<le> n \<or>
         startswith (content_text (py_get m' ''content'')) scrubbed_marker) \<and>
      (\<forall>k n i. 0 \<le> k \<and> i \<in> keep_set (nat k) ms \<longrightarrow> fst (clear_stale loads k n ms) ! i = ms ! i)"
proof -
  have scrubbed: "int (estimate_tokens latin (content_text (py_get m' ''content''))) \<le> n \<or>
      startswith (content_text (py_get m' ''content'')) scrubbed_marker"
    if "0 < n" "m' \<in> set (fst (scrub_oversized loads n ms))" "role_is ''tool'' m'" for n m'
  proof -
    note prems = that
    have "m' \<in> (\<lambda>m. if scrub_step (nat n) m = Replaced then put_placeholder loads scrubbed_marker m else m) ` set ms"
      using prems(1,2) by (simp add: scrub_oversized_def)
    then obtain m where m: "m' = (if scrub_step (nat n) m = Replaced then put_placeholder loads scrubbed_marker m else m)"
      by (rule imageE)
    show ?thesis
    proof (cases "scrub_step (nat n) m = Replaced")
      case True
      with m show ?thesis by (simp add: put_placeholder_def content_text_def placeholder_def Let_def)
    next
      case False
      with m prems(1,3) show ?thesis by (auto simp: scrub_step_def Let_def split: if_splits)
    qed
  qed
  have fresh: "fst (clear_stale loads k n ms) ! i = ms ! i" if "0 \<le> k" "i \<in> keep_set (nat k) ms" for k n i
  proof -
    have "i < length ms" using that(2) by (auto simp: keep_set_def tool_indices_def dest!: in_set_dropD)
    with that show ?thesis by (auto simp: clear_stale_def Let_def clear_step_def)
  qed
  show ?thesis
    unfolding Let_def
    using scrubbed fresh shrink_same same_answered [OF shrink_same] same_orphans [OF shrink_same, of None None]
    by (intro conjI) simp_all
qed

section \<open>Instances\<close>

definition ten_words :: overflow_words where
  "ten_words = \<lparr>ow_sep = ''...'', ow_message = (\<lambda>n. ''cut''), ow_bare = ''cut'', ow_shell = ''cut''\<rparr>"

definition long_result :: tool_result where
  "long_result = \<lparr>tr_success = True, tr_data = PyStr (replicate 60 (CHR ''x'')), tr_message = ''m'',
     tr_error = None, tr_metadata = []\<rparr>"

definition offload_long :: "int \<Rightarrow> tool_result \<times> overflow_outcome" where
  "offload_long m = maybe_offload (\<lambda>_ _ _ _. ten_words) (\<lambda>f _. Inr (''/w/'' @ f, f)) ''t'' long_result ''web'' ''c1'' (Some m)"

text \<open>The text of a result is never shorter than its fixed keys: a limit below nine tokens
  cannot be met, so the limit is not a hard one.\<close>

lemma any_result_takes_nine: "9 \<le> result_tokens r"
  using length_to_json [of r] div_le_mono [of 32 "length (to_json r)" 4]
  by (auto simp: result_tokens_def estimate_latin)

theorem offloaded_result_bounded_witness:
  "let r = fst (offload_long 5)
   in oo_triggered (snd (offload_long 5)) \<and> 5 < result_tokens r \<and> smallest_shell r \<and> tr_success r"
proof -
  have pos: "(0::int) < 5" by simp
  have bound: "(int (result_tokens (fst (offload_long 5))) \<le> 5 \<or>
      oo_triggered (snd (offload_long 5)) \<and> smallest_shell (fst (offload_long 5))) \<and>
      tr_success (fst (offload_long 5)) = tr_success long_result"
    using offloaded_result_bounded [OF pos, of "\<lambda>_ _ _ _. ten_words" "\<lambda>f _. Inr (''/w/'' @ f, f)" "''t''" long_result "''web''" "''c1''"]
    unfolding offload_long_def [symmetric] Let_def split_beta by blast
  moreover have "\<not> int (result_tokens (fst (offload_long 5))) \<le> 5"
    using any_result_takes_nine [of "fst (offload_long 5)"] by linarith
  ultimately show ?thesis by (simp add: Let_def long_result_def)
qed

theorem shrinking_keeps_history_witness:
  "let ms = [said ''user'' ''a'', said ''tool'' ''b''];
       c = \<lparr>mc_max_tool_result_tokens = Some 5, mc_clear_stale = True, mc_keep_recent = 1, mc_clear_min_tokens = 3\<rparr>
   in list_all2 same_but_content ms (shrink_before_llm (\<lambda>_. None) c ms) \<and>
      (\<forall>m' \<in> set (fst (scrub_oversized (\<lambda>_. None) 5 ms)). role_is ''tool'' m' \<longrightarrow>
        int (estimate_tokens latin (content_text (py_get m' ''content''))) \<le> 5 \<or>
        startswith (content_text (py_get m' ''content'')) scrubbed_marker) \<and>
      fst (clear_stale (\<lambda>_. None) 1 3 ms) ! 1 = ms ! 1"
proof -
  let ?ms = "[said ''user'' ''a'', said ''tool'' ''b'']"
  note keeps = shrinking_keeps_history [of "\<lambda>_. None" _ ?ms, unfolded Let_def]
  have "1 \<in> keep_set (nat 1) ?ms"
    by (simp add: keep_set_def tool_indices_def said_def role_is_def py_get_def upt_rec)
  then have "fst (clear_stale (\<lambda>_. None) 1 3 ?ms) ! 1 = ?ms ! 1"
    using keeps zero_le_one by blast
  moreover have "(0::int) < 5" by simp
  ultimately show ?thesis using keeps unfolding Let_def by blast
qed

end
