(* ===== verification/Model_Replies.thy ===== *)
theory Model_Replies
  imports Tool_Results Core_Profile
begin

text \<open>
  What the agent makes of a model's answer before it acts on it (\<open>agent_core/agent/agent.py\<close>
  with the data classes of \<open>agent_core/llm/response.py\<close>): the tests for answers that miss
  their reasoning, the token accounts, the budgets and thresholds, and the recognition of
  requests that were too long.

  Ratios are rationals; \<open>int(cw * float(ratio))\<close> is the floor of the exact product.
\<close>

section \<open>Answers\<close>

record tool_call =
  tcl_id :: str
  tcl_name :: str
  tcl_args :: pyval
  tcl_extra :: pyval

record token_usage =
  tu_prompt :: nat
  tu_completion :: nat
  tu_hit :: nat
  tu_miss :: nat

record reply =
  rp_content :: "str option"
  rp_calls :: "tool_call list"
  rp_reasoning :: "str option"
  rp_usage :: "token_usage option"
  rp_anthropic :: "pyval option"
  rp_items :: "pyval option"

text \<open>The accounts of a session: sums over all calls, and the last prompt.\<close>

record accounts =
  ac_prompt :: nat
  ac_completion :: nat
  ac_total :: nat
  ac_calls :: nat
  ac_hit :: nat
  ac_miss :: nat

definition no_accounts :: accounts where
  "no_accounts = \<lparr>ac_prompt = 0, ac_completion = 0, ac_total = 0, ac_calls = 0, ac_hit = 0, ac_miss = 0\<rparr>"

definition record_usage :: "token_usage option \<Rightarrow> accounts \<Rightarrow> accounts" where
  "record_usage u a =
     (case u of None \<Rightarrow> a
      | Some u \<Rightarrow> \<lparr>ac_prompt = ac_prompt a + tu_prompt u, ac_completion = ac_completion a + tu_completion u,
          ac_total = ac_total a + (tu_prompt u + tu_completion u), ac_calls = ac_calls a + 1,
          ac_hit = ac_hit a + tu_hit u, ac_miss = ac_miss a + tu_miss u\<rparr>)"

section \<open>Providers\<close>

record provider =
  pv_class :: str
  pv_name :: str
  pv_model :: str
  pv_base_url :: str
  pv_vendor :: pyval

definition says_enabled :: "pyval \<Rightarrow> bool" where
  "says_enabled th \<longleftrightarrow>
     is_dict th \<and> lower (strip (py_str (py_get_or (dict_of th) ''type'' (PyStr [])))) = ''enabled''"

definition vendor_thinking :: "provider \<Rightarrow> bool" where
  "vendor_thinking p \<longleftrightarrow> is_dict (pv_vendor p) \<and> says_enabled (py_get (dict_of (pv_vendor p)) ''thinking'')"

definition thinking_enabled :: "provider \<Rightarrow> bool" where
  "thinking_enabled p \<longleftrightarrow> vendor_thinking p \<or>
     is_dict (pv_vendor p) \<and>
       (let out = py_get (dict_of (pv_vendor p)) ''output_config''
        in is_dict out \<and> strip (py_str (py_get_or (dict_of out) ''effort'' (PyStr []))) \<noteq> [])"

definition has_sub :: "str \<Rightarrow> str \<Rightarrow> bool" where
  "has_sub needle s \<longleftrightarrow> find_sub needle s \<noteq> None"

definition reasoner_model :: "provider option \<Rightarrow> bool" where
  "reasoner_model p =
     (case p of None \<Rightarrow> False | Some p \<Rightarrow> has_sub ''reasoner'' (lower (strip (pv_model p))))"

definition blank_reasoning :: "str option \<Rightarrow> bool" where
  "blank_reasoning r = (case r of None \<Rightarrow> True | Some s \<Rightarrow> strip s = [])"

definition reasoning_expected :: "bool \<Rightarrow> provider option \<Rightarrow> bool" where
  "reasoning_expected cap p \<longleftrightarrow> cap \<and>
     ((case p of None \<Rightarrow> False | Some p \<Rightarrow> thinking_enabled p) \<or> reasoner_model p)"

definition should_retry_missing :: "bool \<Rightarrow> provider option \<Rightarrow> reply \<Rightarrow> bool" where
  "should_retry_missing cap p r \<longleftrightarrow>
     rp_calls r \<noteq> [] \<and> reasoning_expected cap p \<and> blank_reasoning (rp_reasoning r)"

definition looks_like_deepseek :: "provider \<Rightarrow> bool" where
  "looks_like_deepseek p \<longleftrightarrow>
     list_ex (\<lambda>s. has_sub ''deepseek'' (lower s)) [pv_name p, pv_model p, pv_base_url p]"

definition anthropic_thinking :: "provider \<Rightarrow> bool" where
  "anthropic_thinking p \<longleftrightarrow> pv_class p = ''AnthropicCompatProvider'' \<and> vendor_thinking p"

definition kimi_coding_thinking :: "provider \<Rightarrow> bool" where
  "kimi_coding_thinking p \<longleftrightarrow> pv_class p = ''OpenAICompatProvider'' \<and>
     has_sub ''api.kimi.com'' (lower (pv_base_url p)) \<and> vendor_thinking p"

definition excluded_vendor :: "provider \<Rightarrow> bool" where
  "excluded_vendor p \<longleftrightarrow>
     (let hay = lower (pv_model p) @ '' '' @ lower (pv_base_url p) @ '' '' @ lower (pv_name p)
      in list_ex (\<lambda>tok. has_sub tok hay)
           [''kimi'', ''moonshot'', ''openai.com'', ''api.openai'', ''gpt-4'', ''gpt-5'', ''glm'', ''dashscope''])"

definition cache_split :: "reply \<Rightarrow> bool" where
  "cache_split r = (case rp_usage r of None \<Rightarrow> False | Some u \<Rightarrow> 0 < tu_hit u + tu_miss u)"

definition eligible_for_synthesis :: "provider option \<Rightarrow> reply \<Rightarrow> bool" where
  "eligible_for_synthesis p r =
     (case p of None \<Rightarrow> False
      | Some p \<Rightarrow>
          if looks_like_deepseek p then True
          else if anthropic_thinking p then True
          else if kimi_coding_thinking p then True
          else if excluded_vendor p then False
          else if pv_class p \<noteq> ''OpenAICompatProvider'' then False
          else cache_split r)"

definition final_misses_reasoning :: "bool \<Rightarrow> provider option \<Rightarrow> reply \<Rightarrow> bool" where
  "final_misses_reasoning cap p r \<longleftrightarrow>
     rp_calls r = [] \<and> cap \<and> strip (opt_str (rp_content r)) \<noteq> [] \<and>
     reasoning_expected cap p \<and> blank_reasoning (rp_reasoning r)"

definition synthesize_final :: "bool \<Rightarrow> provider option \<Rightarrow> reply \<Rightarrow> bool" where
  "synthesize_final cap p r \<longleftrightarrow> final_misses_reasoning cap p r \<and> eligible_for_synthesis p r"

definition synthesize_tool :: "bool \<Rightarrow> provider option \<Rightarrow> reply \<Rightarrow> bool" where
  "synthesize_tool cap p r \<longleftrightarrow> should_retry_missing cap p r \<and> eligible_for_synthesis p r"

section \<open>Budgets\<close>

record budget_config =
  bc_max_working :: int
  bc_ratio :: "rat option"
  bc_context_window :: int
  bc_max_tokens :: int
  bc_profile_max :: "int option"

definition compress_threshold :: "budget_config \<Rightarrow> int" where
  "compress_threshold c =
     (let t0 = bc_max_working c;
          t1 = (case bc_profile_max c of Some m \<Rightarrow> if 0 < m then min t0 m else t0 | None \<Rightarrow> t0);
          t2 = (case bc_ratio c of
                  Some q \<Rightarrow> if q \<noteq> 0 \<and> 0 < bc_context_window c
                            then min t1 (max \<lfloor>of_int (bc_context_window c) * q\<rfloor> 1) else t1
                | None \<Rightarrow> t1)
      in max t2 1)"

definition prompt_estimate :: "str \<Rightarrow> message list \<Rightarrow> pyval list \<Rightarrow> nat" where
  "prompt_estimate system ms tools =
     estimate_tokens latin system + estimate_messages_tokens ms +
     (if tools = [] then 0 else estimate_tokens latin (json_dumps (PyList tools)))"

text \<open>The current context, as the next request would send it: orphans stripped, tools permitted.\<close>

definition tool_entry_name :: "pyval \<Rightarrow> str" where
  "tool_entry_name t = py_str (py_get_or (dict_of (py_get (dict_of t) ''function'')) ''name'' (PyStr []))"

definition current_context_tokens :: "str \<Rightarrow> message list \<Rightarrow> core_profile option \<Rightarrow> pyval list \<Rightarrow> nat" where
  "current_context_tokens system ms profile tools =
     prompt_estimate system (strip_orphans ms)
       (filter (\<lambda>t. case profile of None \<Rightarrow> True | Some p \<Rightarrow> is_tool_allowed p (tool_entry_name t)) tools)"

definition effective_max_tokens :: "budget_config \<Rightarrow> nat \<Rightarrow> int option" where
  "effective_max_tokens c estimate =
     (if bc_context_window c \<le> 0 then None
      else
        let b = bc_context_window c - int estimate - 1024;
            budget = (if b < 256 then 256 else b)
        in Some (if 0 < bc_max_tokens c then min (bc_max_tokens c) budget else budget))"

section \<open>Requests that were too long\<close>

text \<open>An error of the model call: an HTTP status with its body and message, any other error's text, or a cancellation.\<close>

datatype model_error = Http int str str | Other str | Cancelled

definition overflow_words_list :: "str list" where
  "overflow_words_list = [''context'', ''too long'', ''too_long'', ''token'', ''maximum context'', ''prompt is too long'',
     ''prompt_too_long'', ''exceed'', ''overflow'', ''context_length'', ''context window'', ''input length'']"

definition error_status :: "model_error \<Rightarrow> int option \<times> str \<times> str" where
  "error_status e =
     (case e of
        Http status body msg \<Rightarrow> (Some status, take 4000 body, msg)
      | Other s \<Rightarrow>
          if has_sub ''400'' s \<or> has_sub ''413'' s \<or> has_sub ''Bad Request'' s
          then (if has_sub ''413'' s then Some 413 else Some 400, s, s)
          else (None, [], s)
      | Cancelled \<Rightarrow> (None, [], []))"

definition is_context_overflow :: "int \<Rightarrow> int \<Rightarrow> model_error \<Rightarrow> bool" where
  "is_context_overflow estimate threshold e =
     (case error_status e of (status, body, msg) \<Rightarrow>
        if status \<noteq> Some 400 \<and> status \<noteq> Some 413 then False
        else
          let lowered = lower (str_or body msg)
          in if list_ex (\<lambda>k. has_sub k lowered) overflow_words_list then True
             else if status = Some 413 then True
             else 0 < threshold \<and> threshold div 2 \<le> estimate)"

section \<open>Laws\<close>

lemma compress_threshold_pos: "1 \<le> compress_threshold c"
  by (simp add: compress_threshold_def Let_def)

lemma compress_threshold_le:
  "1 \<le> bc_max_working c \<Longrightarrow> compress_threshold c \<le> bc_max_working c"
  "bc_profile_max c = Some m \<Longrightarrow> 0 < m \<Longrightarrow> compress_threshold c \<le> m"
  by (auto simp: compress_threshold_def Let_def split: option.split)

lemma effective_max_tokens_bounds:
  assumes "effective_max_tokens c n = Some b"
  shows "0 < bc_max_tokens c \<Longrightarrow> b \<le> bc_max_tokens c"
    and "int n + 1280 \<le> bc_context_window c \<Longrightarrow> int n + b + 1024 \<le> bc_context_window c"
    and "bc_max_tokens c \<le> 0 \<or> 256 \<le> bc_max_tokens c \<Longrightarrow> 256 \<le> b"
  using assms by (auto simp: effective_max_tokens_def Let_def split: if_splits)

lemma record_usage_total:
  "ac_total a = ac_prompt a + ac_completion a \<Longrightarrow>
    ac_total (record_usage u a) = ac_prompt (record_usage u a) + ac_completion (record_usage u a)"
  by (simp add: record_usage_def split: option.split)

lemma record_usage_mono: "ac_total a \<le> ac_total (record_usage u a)"
  by (simp add: record_usage_def split: option.split)

lemma synthesis_implies_retry: "synthesize_tool cap p r \<Longrightarrow> should_retry_missing cap p r"
  by (simp add: synthesize_tool_def)

lemma cancelled_not_overflow [simp]: "\<not> is_context_overflow n t Cancelled"
  by (simp add: is_context_overflow_def error_status_def)

end
