(* ===== verification/Tool_Registry.thy ===== *)
theory Tool_Registry
  imports Tool_Base Core_Profile
begin

text \<open>
  The tools of a core: the versioned registry (\<open>agent_core/tools/versioned_registry.py\<close>)
  and the plain one (\<open>agent_core/tools/registry.py\<close>), the working set that decides which
  tools a request shows (\<open>agent_core/orchestrator/working_set.py\<close>,
  \<open>agent_core/agent/working_set_pins.py\<close>), and the two tools that work on them,
  \<open>search_tools\<close> and \<open>call_tool\<close>.

  A tool is its definition and its \<open>execute\<close>, a function of the arguments and the rest of
  the world. The logarithm and \<open>difflib\<close> ratio of the search, the alias and stop-word tables
  and the resolution of paths in arguments are parameters. Names are kept in dictionaries; the
  pinned set is a list without repetitions, in the order a set would be iterated.
\<close>

section \<open>Tools\<close>

datatype origin = Native | Mcp str | Remote_Mcp str

type_synonym args = "(str, pyval) dict"

record 'w tool =
  tl_def :: tool_definition
  tl_origin :: origin
  tl_execute :: "args \<Rightarrow> 'w \<Rightarrow> (py_exn + tool_result) \<times> 'w"

abbreviation tl_name :: "('w, 'z) tool_scheme \<Rightarrow> str" where
  "tl_name t \<equiv> td_name (tl_def t)"

section \<open>The versioned registry\<close>

record 'w registry =
  rg_version :: nat
  rg_tools :: "(str, 'w tool) dict"

definition new_registry :: "'w registry" where
  "new_registry = \<lparr>rg_version = 0, rg_tools = []\<rparr>"

definition list_tools :: "'w registry \<Rightarrow> nat \<times> (str, 'w tool) dict" where
  "list_tools r = (rg_version r, rg_tools r)"

definition has_tool :: "'w registry \<Rightarrow> str \<Rightarrow> bool" where
  "has_tool r name \<longleftrightarrow> has_key name (rg_tools r)"

definition get_tool :: "'w registry \<Rightarrow> str \<Rightarrow> 'w tool option" where
  "get_tool r name = map_of (rg_tools r) name"

definition list_names :: "'w registry \<Rightarrow> str list" where
  "list_names r = dkeys (rg_tools r)"

definition register :: "'w tool \<Rightarrow> 'w registry \<Rightarrow> (py_exn + unit) \<times> 'w registry" where
  "register t r =
     (if has_tool r (tl_name t) then (Inl (ValueError (tl_name t)), r)
      else (Inr (), r\<lparr>rg_tools := dset (tl_name t) t (rg_tools r), rg_version := Suc (rg_version r)\<rparr>))"

definition update_tools :: "'w tool list \<Rightarrow> 'w registry \<Rightarrow> 'w registry" where
  "update_tools ts r =
     r\<lparr>rg_tools := fold (\<lambda>t d. dset (tl_name t) t d) ts (rg_tools r), rg_version := Suc (rg_version r)\<rparr>"

definition unregister :: "str \<Rightarrow> 'w registry \<Rightarrow> bool \<times> 'w registry" where
  "unregister name r =
     (if \<not> has_tool r name then (False, r)
      else (True, r\<lparr>rg_tools := dpop name (rg_tools r), rg_version := Suc (rg_version r)\<rparr>))"

definition get_openai_tools :: "wording \<Rightarrow> 'w registry \<Rightarrow> str list option \<Rightarrow> (str, pyval) dict list" where
  "get_openai_tools wd r names =
     map (\<lambda>t. to_openai_tool wd (tl_def t))
       (case names of None \<Rightarrow> map snd (rg_tools r) | Some ns \<Rightarrow> List.map_filter (get_tool r) ns)"

text \<open>The text of an exception, as the message of a failed result shows it.\<close>

fun exn_text :: "py_exn \<Rightarrow> str" where
  "exn_text (ValueError s) = s" | "exn_text (KeyError s) = s" | "exn_text (RuntimeError s) = s"
| "exn_text (TypeError s) = s" | "exn_text (OSError s) = s" | "exn_text (TimeoutError s) = s"

definition execute :: "'w registry \<Rightarrow> str \<Rightarrow> args \<Rightarrow> 'w \<Rightarrow> tool_result \<times> 'w" where
  "execute r name args w =
     (case get_tool r name of
        None \<Rightarrow> (failed ''TOOL_NOT_FOUND'' name, w)
      | Some t \<Rightarrow>
          (case tl_execute t args w of
             (Inl e, w') \<Rightarrow> (failed ''TOOL_EXCEPTION'' (exn_text e), w')
           | (Inr res, w') \<Rightarrow> (res, w')))"

section \<open>The plain registry\<close>

type_synonym 'w plain_registry = "(str, 'w tool) dict"

definition plain_register :: "'w tool \<Rightarrow> 'w plain_registry \<Rightarrow> (py_exn + unit) \<times> 'w plain_registry" where
  "plain_register t d =
     (if has_key (tl_name t) d then (Inl (ValueError (tl_name t)), d) else (Inr (), dset (tl_name t) t d))"

definition plain_unregister :: "str \<Rightarrow> 'w plain_registry \<Rightarrow> bool \<times> 'w plain_registry" where
  "plain_unregister name d = (if has_key name d then (True, dpop name d) else (False, d))"

definition plain_execute :: "'w plain_registry \<Rightarrow> str \<Rightarrow> args \<Rightarrow> 'w \<Rightarrow> (py_exn + tool_result) \<times> 'w" where
  "plain_execute d name args w =
     (case map_of d name of
        None \<Rightarrow> (Inr (failed ''TOOL_NOT_FOUND'' name), w)
      | Some t \<Rightarrow> tl_execute t args w)"

section \<open>The working set\<close>

record working_set =
  ws_pinned :: "str list"
  ws_size :: nat
  ws_active :: "str list"
  ws_version :: int

definition new_working_set :: "str list \<Rightarrow> int \<Rightarrow> working_set" where
  "new_working_set pinned cap =
     \<lparr>ws_pinned = remdups pinned, ws_size = nat (max 0 cap), ws_active = [], ws_version = -1\<rparr>"

definition pin :: "str \<Rightarrow> working_set \<Rightarrow> working_set" where
  "pin raw ws =
     (let name = strip raw
      in if name = [] \<or> name \<in> set (ws_pinned ws) then ws
         else ws\<lparr>ws_pinned := ws_pinned ws @ [name], ws_active := removeAll name (ws_active ws)\<rparr>)"

definition unpin :: "str \<Rightarrow> working_set \<Rightarrow> working_set" where
  "unpin raw ws =
     (let name = strip raw
      in if name = [] then ws else ws\<lparr>ws_pinned := removeAll name (ws_pinned ws)\<rparr>)"

text \<open>The newest name goes to the end; \<open>last_of n\<close> keeps the \<open>n\<close> newest.\<close>

definition touch_tool :: "str list \<Rightarrow> str \<Rightarrow> str list \<Rightarrow> str list" where
  "touch_tool pinned name active =
     (if name = [] \<or> name \<in> set pinned then active else removeAll name active @ [name])"

definition last_of :: "nat \<Rightarrow> 'a list \<Rightarrow> 'a list" where
  "last_of n xs = drop (length xs - n) xs"

definition add_to_working_set :: "str list \<Rightarrow> working_set \<Rightarrow> working_set" where
  "add_to_working_set names ws =
     (if names = [] then ws
      else ws\<lparr>ws_active := last_of (ws_size ws) (fold (touch_tool (ws_pinned ws)) names (ws_active ws))\<rparr>)"

text \<open>\<open>list(keys)[-size:]\<close>: for size 0 the slice is the whole list.\<close>

definition py_last :: "nat \<Rightarrow> 'a list \<Rightarrow> 'a list" where
  "py_last n xs = (if n = 0 then xs else last_of n xs)"

record tool_snapshot =
  sn_version :: nat
  sn_names :: "str list"
  sn_tools :: "(str, pyval) dict list"

definition sync_active :: "'w registry \<Rightarrow> working_set \<Rightarrow> working_set" where
  "sync_active r ws =
     (if int (rg_version r) = ws_version ws then ws
      else ws\<lparr>ws_active := filter (has_tool r) (ws_active ws), ws_version := int (rg_version r)\<rparr>)"

definition visible_names :: "'w registry \<Rightarrow> working_set \<Rightarrow> str list" where
  "visible_names r ws =
     filter (has_tool r) (ws_pinned ws) @
     filter (\<lambda>n. n \<notin> set (ws_pinned ws)) (py_last (ws_size ws) (ws_active ws))"

definition build_snapshot :: "wording \<Rightarrow> 'w registry \<Rightarrow> working_set \<Rightarrow> tool_snapshot \<times> working_set" where
  "build_snapshot wd r ws0 =
     (let ws = sync_active r ws0; names = visible_names r ws
      in (\<lparr>sn_version = rg_version r, sn_names = names, sn_tools = get_openai_tools wd r (Some names)\<rparr>, ws))"

definition get_visible_tool_names :: "working_set \<Rightarrow> str list" where
  "get_visible_tool_names ws = ws_pinned ws @ py_last (ws_size ws) (ws_active ws)"

text \<open>The names pinned at start: those of the template, then the required ones.\<close>

definition add_missing :: "str list \<Rightarrow> str list \<Rightarrow> str list" where
  "add_missing required names = fold (\<lambda>n ns. if n \<in> set ns then ns else ns @ [n]) required names"

definition compute_pinned :: "tools_config \<Rightarrow> core_profile option \<Rightarrow> str \<Rightarrow> str list" where
  "compute_pinned cfg profile source =
     (let default_name = (if strip source = ''shuiyuan'' then ''shuiyuan'' else ''default'');
          name = (case profile of None \<Rightarrow> default_name | Some p \<Rightarrow> str_or (cp_tool_template p) default_name);
          t = get_template cfg name;
          ex = (case profile of None \<Rightarrow> tt_exposure t | Some p \<Rightarrow> cp_exposure p);
          names = dedupe [] (tc_core_tools cfg @ (if ex = Pinned then tc_pinned_tools cfg else []) @ tt_extra t);
          background = (case profile of None \<Rightarrow> False | Some p \<Rightarrow> cp_mode p = Background)
      in add_missing ([''search_tools'', ''call_tool'', ''bash''] @
            (if background then [] else [''request_permission'', ''ask_user''])) names)"

section \<open>The search\<close>

text \<open>
  \<open>st_aliases\<close> is the alias group of a tag, sort_names; \<open>st_idf\<close> the weight of a term found in
  so many of so many tools; \<open>st_ratio\<close> the similarity \<open>difflib\<close> gives.
\<close>

record search_tables =
  st_stopwords :: "str list"
  st_aliases :: "str \<Rightarrow> str list"
  st_idf :: "nat \<Rightarrow> nat \<Rightarrow> rat"
  st_ratio :: "str \<Rightarrow> str \<Rightarrow> rat"

definition is_separator :: "char \<Rightarrow> bool" where
  "is_separator c \<longleftrightarrow> is_space c \<or> c \<in> set '',:;/|'' \<or> c = CHR 0x5C"

fun split_where :: "(char \<Rightarrow> bool) \<Rightarrow> str \<Rightarrow> str \<Rightarrow> str list" where
  "split_where P cur [] = [rev cur]"
| "split_where P cur (c # cs) =
     (if P c then rev cur # split_where P [] cs else split_where P (c # cur) cs)"

definition tokenize_query :: "str \<Rightarrow> str list" where
  "tokenize_query q = filter (\<lambda>t. t \<noteq> []) (split_where is_separator [] (lower (strip q)))"

definition weighted_terms :: "search_tables \<Rightarrow> str list \<Rightarrow> str list" where
  "weighted_terms st tokens = filter (\<lambda>t. 2 \<le> length t \<and> t \<notin> set (st_stopwords st)) tokens"

definition expand_terms :: "search_tables \<Rightarrow> str list \<Rightarrow> str list" where
  "expand_terms st tokens =
     fold (\<lambda>v acc. if length v < 2 \<or> v \<in> set (st_stopwords st) \<or> v \<in> set acc then acc else acc @ [v])
       (concat (map (\<lambda>t. if st_aliases st t = [] then [t] else st_aliases st t) (weighted_terms st tokens))) []"

definition expand_tag_filter :: "search_tables \<Rightarrow> str list \<Rightarrow> str list" where
  "expand_tag_filter st tags =
     remdups (concat (map (\<lambda>raw. let t = lower (strip raw) in if t = [] then [] else t # st_aliases st t) tags))"

definition def_tags :: "tool_definition \<Rightarrow> str list" where
  "def_tags d = remdups (filter (\<lambda>t. t \<noteq> []) (map (\<lambda>t. lower (strip t)) (td_tags d)))"

definition contains :: "str \<Rightarrow> str \<Rightarrow> bool" where
  "contains needle s \<longleftrightarrow> sublist needle s"

definition candidates ::
  "search_tables \<Rightarrow> str list \<Rightarrow> str list \<Rightarrow> str \<Rightarrow> 'w registry \<Rightarrow> (str \<times> 'w tool) list" where
  "candidates st exclude tags prefix_raw r =
     (let want = expand_tag_filter st tags; pref = strip prefix_raw
      in filter (\<lambda>(name, t). name \<notin> set exclude \<and> (pref = [] \<or> startswith name pref) \<and>
           (want = [] \<or> set want \<inter> set (def_tags (tl_def t)) \<noteq> {})) (rg_tools r))"

definition tool_corpus :: "(str list \<Rightarrow> str list) \<Rightarrow> str \<Rightarrow> tool_definition \<Rightarrow> str" where
  "tool_corpus sort_names name d =
     lower (join '' '' ([name, td_description d] @ td_usage_notes d @
       map (\<lambda>e. json_dumps (PyDict e)) (td_examples d) @
       concat (map (\<lambda>p. [tp_name p, tp_description p]) (td_parameters d)) @
       (if def_tags d = [] then [] else [join '' '' (sort_names (def_tags d))])))"

definition score_tool ::
  "search_tables \<Rightarrow> str \<Rightarrow> str list \<Rightarrow> str list \<Rightarrow> (str \<Rightarrow> nat) \<Rightarrow> nat \<Rightarrow> str list \<Rightarrow> str \<Rightarrow> str \<Rightarrow> str list \<Rightarrow> rat" where
  "score_tool st q tokens terms df n want name corpus tags =
     (let nm = lower name; long = filter (\<lambda>t. 2 \<le> length t) tokens
      in (if q = [] then 1
          else (if contains q corpus then 2 else 0) +
               (if terms \<noteq> [] then sum_list (map (\<lambda>t. st_idf st (df t) n * (108 / 100)) (filter (\<lambda>t. contains t corpus) terms))
                else of_nat (length (filter (\<lambda>t. contains t corpus) long))) +
               (if contains q nm then 165 / 100 else 0) +
               (if terms \<noteq> [] then sum_list (map (\<lambda>t. (88 / 100) * st_idf st (df t) n) (filter (\<lambda>t. contains t nm) terms))
                else (9 / 10) * of_nat (length (filter (\<lambda>t. contains t nm) long)))) +
         (55 / 100) * of_nat (length (filter (\<lambda>t. t \<in> set tags) want)))"

record search_item =
  si_name :: str
  si_description :: str
  si_parameters :: "tool_parameter list"
  si_tags :: "str list"
  si_score :: rat
  si_weak :: bool

definition make_item :: "rat \<Rightarrow> bool \<Rightarrow> str \<times> 'w tool \<Rightarrow> search_item" where
  "make_item score weak nt =
     \<lparr>si_name = fst nt, si_description = td_description (tl_def (snd nt)),
      si_parameters = td_parameters (tl_def (snd nt)), si_tags = td_tags (tl_def (snd nt)),
      si_score = score, si_weak = weak\<rparr>"

text \<open>Names are compared character by character; \<open>sort\<close> by key is stable.\<close>

definition name_key :: "str \<Rightarrow> nat list" where
  "name_key s = map of_char s"

fun lex_le :: "nat list \<Rightarrow> nat list \<Rightarrow> bool" where
  "lex_le [] ys = True"
| "lex_le (x # xs) [] = False"
| "lex_le (x # xs) (y # ys) = (x < y \<or> x = y \<and> lex_le xs ys)"

fun insert_by :: "('a \<Rightarrow> 'a \<Rightarrow> bool) \<Rightarrow> 'a \<Rightarrow> 'a list \<Rightarrow> 'a list" where
  "insert_by le x [] = [x]"
| "insert_by le x (y # ys) = (if le x y then x # y # ys else y # insert_by le x ys)"

definition sort_by :: "('a \<Rightarrow> 'a \<Rightarrow> bool) \<Rightarrow> 'a list \<Rightarrow> 'a list" where
  "sort_by le xs = foldr (insert_by le) xs []"

definition item_le :: "search_item \<Rightarrow> search_item \<Rightarrow> bool" where
  "item_le a b \<longleftrightarrow> si_score b < si_score a \<or>
     si_score a = si_score b \<and> lex_le (name_key (si_name a)) (name_key (si_name b))"

definition take_limit :: "int \<Rightarrow> 'a list \<Rightarrow> 'a list" where
  "take_limit limit xs = (if 0 < limit then take (nat limit) xs else xs)"

text \<open>
  From scores to results: the tools with a positive score, best first; when a query has none,
  those similar enough; when nothing is left, the first candidates by name.
\<close>

definition rank_tools ::
  "(str \<times> 'w tool \<Rightarrow> rat) \<Rightarrow> (str \<times> 'w tool \<Rightarrow> rat) \<Rightarrow> bool \<Rightarrow> int \<Rightarrow> (str \<times> 'w tool) list \<Rightarrow> search_item list" where
  "rank_tools score likeness asked limit cands =
     (let strong = sort_by item_le (map (\<lambda>c. make_item (score c) False c) (filter (\<lambda>c. 0 < score c) cands));
          weak = sort_by item_le (map (\<lambda>c. make_item (max (1 / 4) (likeness c * (22 / 10))) True c)
            (filter (\<lambda>c. 24 / 100 \<le> likeness c) cands));
          found = (if strong = [] \<and> asked then take_limit limit weak else strong);
          pool = map (make_item (2 / 100) True)
            (take (nat limit) (sort_by (\<lambda>a b. lex_le (name_key (fst a)) (name_key (fst b))) cands))
      in take_limit limit (if found = [] \<and> 0 < limit then pool else found))"

definition search_registry ::
  "search_tables \<Rightarrow> (str list \<Rightarrow> str list) \<Rightarrow> str \<Rightarrow> int \<Rightarrow> str list \<Rightarrow> str list \<Rightarrow> str \<Rightarrow> 'w registry \<Rightarrow> search_item list" where
  "search_registry st sort_names query limit exclude tags name_prefix r =
     (let q = lower (strip query);
          tokens = tokenize_query q;
          want = expand_tag_filter st tags;
          cands = candidates st exclude tags name_prefix r;
          corpus = (\<lambda>(name, t). tool_corpus sort_names name (tl_def t));
          terms = expand_terms st tokens;
          df = (\<lambda>term. length (filter (\<lambda>c. contains term (corpus c)) cands));
          score = (\<lambda>c. score_tool st q tokens terms df (max 1 (length cands)) want (fst c) (corpus c) (def_tags (tl_def (snd c))));
          likeness = (\<lambda>c. max (st_ratio st q (lower (fst c)))
            (st_ratio st q (lower (take 400 (td_description (tl_def (snd c))))) * (92 / 100)))
      in rank_tools score likeness (q \<noteq> []) limit cands)"

section \<open>search_tools\<close>

definition clamp_limit :: "pyval option \<Rightarrow> int" where
  "clamp_limit raw =
     (case py_int (case raw of None \<Rightarrow> PyInt 8 | Some v \<Rightarrow> v) of
        Inl _ \<Rightarrow> 8 | Inr i \<Rightarrow> max 1 (min i 20))"

definition read_tags :: "pyval \<Rightarrow> str list" where
  "read_tags v =
     (case v of
        PyList xs \<Rightarrow> map (\<lambda>t. strip (py_str t)) (filter truthy xs)
      | PyStr s \<Rightarrow> filter (\<lambda>t. t \<noteq> []) (map strip (split_on (CHR '','') s))
      | _ \<Rightarrow> [])"

definition callable :: "core_profile option \<Rightarrow> str \<Rightarrow> bool" where
  "callable profile name = (case profile of None \<Rightarrow> True | Some p \<Rightarrow> is_tool_allowed p name)"

text \<open>The found items with whether this core may call them, and the new working set.\<close>

definition search_tools ::
  "search_tables \<Rightarrow> (str list \<Rightarrow> str list) \<Rightarrow> 'w registry \<Rightarrow> core_profile option \<Rightarrow> args \<Rightarrow> working_set \<Rightarrow>
    (str + (search_item \<times> origin \<times> bool) list) \<times> working_set" where
  "search_tools st sort_names catalog profile args ws =
     (let query = clean_str (py_get args ''query'');
          name_prefix = clean_str (py_get args ''name_prefix'');
          tags = read_tags (py_get args ''tags'')
      in if query = [] \<and> tags = [] \<and> name_prefix = [] then (Inl ''INVALID_ARGUMENTS'', ws)
         else
           let items = search_registry st sort_names query (clamp_limit (map_of args ''limit'')) [''search_tools''] tags name_prefix catalog;
               names = filter (\<lambda>n. callable profile n \<and> n \<noteq> []) (map (\<lambda>i. strip (si_name i)) items)
           in (Inr (map (\<lambda>i. (i, case get_tool catalog (strip (si_name i)) of None \<Rightarrow> Native | Some t \<Rightarrow> tl_origin t,
                    callable profile (strip (si_name i)))) items),
               add_to_working_set names ws))"

section \<open>call_tool\<close>

abbreviation ctx_key :: str where "ctx_key \<equiv> ''__execution_context__''"

definition call_tool ::
  "'w registry \<Rightarrow> core_profile option \<Rightarrow> (str \<Rightarrow> args \<Rightarrow> args) \<Rightarrow> args \<Rightarrow> 'w \<Rightarrow> tool_result \<times> 'w" where
  "call_tool catalog profile resolve args w =
     (let name = strip (py_str (py_get_or args ''name'' (PyStr [])))
      in if name = [] then (failed ''INVALID_ARGUMENTS'' [], w)
         else
           case (case py_get_or args ''arguments'' (PyDict []) of PyNone \<Rightarrow> PyDict [] | v \<Rightarrow> v) of
             PyDict inner \<Rightarrow>
               if \<not> has_tool catalog name then (failed ''TOOL_NOT_FOUND'' name, w)
               else if \<not> callable profile name then (failed ''PERMISSION_DENIED'' name, w)
               else
                 let ctx = py_get args ctx_key;
                     inner' = (if ctx \<noteq> PyNone \<and> \<not> has_key ctx_key inner then dset ctx_key ctx inner else inner);
                     (res, w') = execute catalog name (resolve name inner') w
                 in (res\<lparr>tr_metadata := dset ''_delegated_tool_name'' (PyStr name) (tr_metadata res)\<rparr>, w')
           | _ \<Rightarrow> (failed ''INVALID_ARGUMENTS'' [], w))"

section \<open>Stores of named things\<close>

text \<open>
  What the registries promise their clients: a map from names that a thing can be added to
  under a new name and removed from.
\<close>

locale name_store =
  fixes look :: "'s \<Rightarrow> str \<Rightarrow> 'v option"
    and add :: "'v \<Rightarrow> 's \<Rightarrow> (py_exn + unit) \<times> 's"
    and remove :: "str \<Rightarrow> 's \<Rightarrow> bool \<times> 's"
    and name_of :: "'v \<Rightarrow> str"
  assumes add_new: "look s (name_of v) = None \<Longrightarrow>
      fst (add v s) = Inr () \<and> look (snd (add v s)) = (look s)(name_of v \<mapsto> v)"
    and add_known: "look s (name_of v) \<noteq> None \<Longrightarrow> (\<exists>e. fst (add v s) = Inl e) \<and> snd (add v s) = s"
    and remove_result: "fst (remove n s) = (look s n \<noteq> None)"
    and look_remove: "look (snd (remove n s)) = (look s)(n := None)"
begin

lemma add_succeeds_iff: "(\<exists>u. fst (add v s) = Inr u) \<longleftrightarrow> look s (name_of v) = None"
  using add_new [of s v] add_known [of s v] by (cases "look s (name_of v)") auto

lemma look_add: "look (snd (add v s)) = (if look s (name_of v) = None then (look s)(name_of v \<mapsto> v) else look s)"
  using add_new [of s v] add_known [of s v] by auto

lemma remove_after_add: "look s (name_of v) = None \<Longrightarrow> look (snd (remove (name_of v) (snd (add v s)))) = look s"
  by (simp add: look_remove look_add fun_upd_idem)

lemma add_after_remove:
  "look (snd (add v (snd (remove (name_of v) s)))) = (look s)(name_of v \<mapsto> v)"
  by (simp add: look_remove look_add)

end

lemma registry_map: "get_tool r = map_of (rg_tools r)"
  by (rule ext) (simp add: get_tool_def)

lemma dget_fun: "map_of (dset k v d) = (map_of d)(k \<mapsto> v)" "map_of (dpop k d) = (map_of d)(k := None)"
  by (rule ext, simp)+

interpretation versioned: name_store get_tool register unregister tl_name
  by unfold_locales
    (auto simp: register_def unregister_def has_tool_def has_key_iff registry_map dget_fun fun_upd_idem)

interpretation plain: name_store "map_of :: ('w plain_registry \<Rightarrow> _)" plain_register plain_unregister tl_name
  by unfold_locales (auto simp: plain_register_def plain_unregister_def has_key_iff dget_fun fun_upd_idem)

section \<open>The registry implements a map with a version\<close>

datatype 'w reg_op = Register "'w tool" | Unregister str | Update "'w tool list"

fun reg_step :: "'w reg_op \<Rightarrow> 'w registry \<Rightarrow> bool \<times> 'w registry" where
  "reg_step (Register t) r = (case register t r of (Inl _, r') \<Rightarrow> (False, r') | (Inr _, r') \<Rightarrow> (True, r'))"
| "reg_step (Unregister n) r = unregister n r"
| "reg_step (Update ts) r = (True, update_tools ts r)"

fun map_step :: "'w reg_op \<Rightarrow> (str \<Rightarrow> 'w tool option) \<Rightarrow> bool \<times> (str \<Rightarrow> 'w tool option)" where
  "map_step (Register t) m = (if m (tl_name t) = None then (True, m(tl_name t \<mapsto> t)) else (False, m))"
| "map_step (Unregister n) m = (m n \<noteq> None, m(n := None))"
| "map_step (Update ts) m = (True, foldl (\<lambda>m t. m(tl_name t \<mapsto> t)) m ts)"

lemma map_of_update_tools:
  "map_of (fold (\<lambda>t d. dset (tl_name t) t d) ts d) = foldl (\<lambda>m t. m(tl_name t \<mapsto> t)) (map_of d) ts"
  by (induction ts arbitrary: d) (simp_all add: dget_fun)

lemma reg_step_register:
  "reg_step (Register t) r = (\<exists>u. fst (register t r) = Inr u, snd (register t r))"
  by (cases "register t r"; cases "fst (register t r)") auto

lemma reg_step_both:
  "fst (reg_step p r) = fst (map_step p (get_tool r)) \<and>
   get_tool (snd (reg_step p r)) = snd (map_step p (get_tool r))"
proof (cases p)
  case (Register t)
  show ?thesis
    unfolding Register reg_step_register fst_conv snd_conv versioned.add_succeeds_iff versioned.look_add
    by simp
next
  case (Unregister n)
  then show ?thesis
    using versioned.remove_result [of n r] versioned.look_remove [of n r] by simp
next
  case (Update ts)
  then show ?thesis by (simp add: update_tools_def registry_map map_of_update_tools)
qed

lemmas reg_step_simulates = reg_step_both [THEN conjunct1] reg_step_both [THEN conjunct2]

lemma reg_step_version:
  "rg_version (snd (reg_step p r)) = (if fst (reg_step p r) then Suc (rg_version r) else rg_version r)"
proof (cases p)
  case (Register t)
  then show ?thesis by (simp add: register_def)
next
  case (Unregister n)
  then show ?thesis by (simp add: unregister_def)
next
  case (Update ts)
  then show ?thesis by (simp add: update_tools_def)
qed

lemma reg_step_failed: "\<not> fst (reg_step p r) \<Longrightarrow> snd (reg_step p r) = r"
proof (cases p)
  case (Register t)
  then show "\<not> fst (reg_step p r) \<Longrightarrow> snd (reg_step p r) = r" by (simp add: register_def split: if_splits)
next
  case (Unregister n)
  then show "\<not> fst (reg_step p r) \<Longrightarrow> snd (reg_step p r) = r" by (simp add: unregister_def split: if_splits)
qed simp

lemma run_simulates:
  "fst (run_ops reg_step ps r) = fst (run_ops map_step ps (get_tool r)) \<and>
   get_tool (snd (run_ops reg_step ps r)) = snd (run_ops map_step ps (get_tool r))"
  by (induction ps arbitrary: r) (simp_all add: reg_step_simulates)

lemma run_version:
  "rg_version (snd (run_ops reg_step ps r)) =
     rg_version r + length (filter id (fst (run_ops reg_step ps r)))"
  by (induction ps arbitrary: r) (simp_all add: reg_step_version)

lemma run_unchanged: "rg_version (snd (run_ops reg_step ps r)) = rg_version r \<Longrightarrow> snd (run_ops reg_step ps r) = r"
proof (induction ps arbitrary: r)
  case (Cons p ps)
  have "\<not> fst (reg_step p r)"
    using Cons.prems run_version [of ps "snd (reg_step p r)"] by (auto simp: reg_step_version split: if_splits)
  then have "snd (reg_step p r) = r" by (rule reg_step_failed)
  with Cons show ?case by simp
qed simp

section \<open>The order of search results\<close>

lemma set_insert_by [simp]: "set (insert_by le x xs) = insert x (set xs)"
  by (induction xs) auto

lemma set_sort_by [simp]: "set (sort_by le xs) = set xs"
  by (induction xs) (simp_all add: sort_by_def)

lemma length_sort_by [simp]: "length (sort_by le xs) = length xs"
proof -
  have "length (insert_by le x xs) = Suc (length xs)" for x xs by (induction xs) auto
  then show ?thesis by (induction xs) (simp_all add: sort_by_def)
qed

lemma sort_by_Nil_iff [simp]: "sort_by le xs = [] \<longleftrightarrow> xs = []"
  by (metis length_0_conv length_sort_by)

lemma lex_le_total: "lex_le xs ys \<or> lex_le ys xs"
  by (induction xs ys rule: lex_le.induct) auto

lemma lex_le_trans: "lex_le xs ys \<Longrightarrow> lex_le ys zs \<Longrightarrow> lex_le xs zs"
proof (induction xs ys arbitrary: zs rule: lex_le.induct)
  case (3 x xs y ys)
  then show ?case by (cases zs) auto
qed auto

lemma item_le_total: "item_le a b \<or> item_le b a"
  using lex_le_total by (auto simp: item_le_def)

lemma item_le_trans: "item_le a b \<Longrightarrow> item_le b c \<Longrightarrow> item_le a c"
  using lex_le_trans by (auto simp: item_le_def)

lemma sorted_sort_by:
  assumes total: "\<And>a b. le a b \<or> le b a" and trans: "\<And>a b c. le a b \<Longrightarrow> le b c \<Longrightarrow> le a c"
  shows "sorted_wrt le (sort_by le xs)"
proof -
  have "sorted_wrt le ys \<Longrightarrow> sorted_wrt le (insert_by le x ys)" for x ys
  proof (induction ys)
    case (Cons y ys)
    then show ?case using total trans by auto (metis+)?
  qed simp
  then show ?thesis by (induction xs) (simp_all add: sort_by_def)
qed

lemma take_limit_props:
  "set (take_limit n xs) \<subseteq> set xs" "sorted_wrt le xs \<Longrightarrow> sorted_wrt le (take_limit n xs)"
  "0 < n \<Longrightarrow> int (length (take_limit n xs)) \<le> n" "0 < n \<Longrightarrow> take_limit n xs = [] \<longleftrightarrow> xs = []"
  by (auto simp: take_limit_def sorted_wrt_take dest: in_set_takeD)

lemma candidate_known: "c \<in> set (candidates st exclude tags pre r) \<Longrightarrow>
    c \<in> set (rg_tools r) \<and> fst c \<notin> set exclude \<and> (strip pre = [] \<or> startswith (fst c) (strip pre))"
  by (auto simp: candidates_def Let_def)

text \<open>Every way the results arise: ranked items, or all with the same lowest score in name order.\<close>

lemma rank_tools_props:
  assumes "0 < limit"
  shows "sorted_wrt item_le (rank_tools score likeness asked limit cands)"
    and "int (length (rank_tools score likeness asked limit cands)) \<le> limit"
    and "i \<in> set (rank_tools score likeness asked limit cands) \<Longrightarrow>
      \<exists>c \<in> set cands. si_name i = fst c \<and> si_description i = td_description (tl_def (snd c)) \<and> 0 < si_score i"
    and "rank_tools score likeness asked limit cands = [] \<longleftrightarrow> cands = []"
proof -
  let ?le = "\<lambda>a b. lex_le (name_key (fst a)) (name_key (fst b))"
  define strong where "strong = sort_by item_le (map (\<lambda>c. make_item (score c) False c) (filter (\<lambda>c. 0 < score c) cands))"
  define weak where "weak = sort_by item_le (map (\<lambda>c. make_item (max (1 / 4) (likeness c * (22 / 10))) True c)
    (filter (\<lambda>c. 24 / 100 \<le> likeness c) cands))"
  define pool where "pool = map (make_item (2 / 100) True) (take (nat limit) (sort_by ?le cands))"
  define found where "found = (if strong = [] \<and> asked then take_limit limit weak else strong)"
  have eq: "rank_tools score likeness asked limit cands = take_limit limit (if found = [] then pool else found)"
    using assms unfolding rank_tools_def Let_def strong_def weak_def pool_def found_def by simp
  have "sorted_wrt item_le (sort_by item_le xs)" for xs
    by (rule sorted_sort_by [of item_le, OF item_le_total item_le_trans])
  then have ranked: "sorted_wrt item_le strong" "sorted_wrt item_le weak"
    unfolding strong_def weak_def by blast+
  have "sorted_wrt ?le (sort_by ?le cands)"
    by (rule sorted_sort_by [of ?le, OF lex_le_total lex_le_trans])
  then have "sorted_wrt item_le pool"
    unfolding pool_def by (simp add: sorted_wrt_map make_item_def item_le_def sorted_wrt_take)
  then show "sorted_wrt item_le (rank_tools score likeness asked limit cands)"
    unfolding eq found_def using ranked take_limit_props(2) by auto
  show "int (length (rank_tools score likeness asked limit cands)) \<le> limit"
    unfolding eq using assms by (rule take_limit_props(3))
  show "\<exists>c \<in> set cands. si_name i = fst c \<and> si_description i = td_description (tl_def (snd c)) \<and> 0 < si_score i"
    if "i \<in> set (rank_tools score likeness asked limit cands)"
  proof -
    have "i \<in> set strong \<or> i \<in> set weak \<or> i \<in> set pool"
      using that take_limit_props(1) unfolding eq found_def by (auto split: if_splits dest: subsetD [OF take_limit_props(1)])
    then have "\<exists>c \<in> set cands. \<exists>x w. 0 < x \<and> i = make_item x w c"
    proof (elim disjE)
      assume "i \<in> set strong"
      then show ?thesis unfolding strong_def set_sort_by set_map set_filter by blast
    next
      assume "i \<in> set weak"
      moreover have "0 < max (1 / 4) (likeness c * (22 / 10))" for c by (simp add: less_max_iff_disj)
      ultimately show ?thesis unfolding weak_def set_sort_by set_map set_filter by blast
    next
      assume "i \<in> set pool"
      then obtain c where "c \<in> set cands" "i = make_item (2 / 100) True c"
        unfolding pool_def by (auto dest: in_set_takeD)
      moreover have "(0::rat) < 2 / 100" by simp
      ultimately show ?thesis by blast
    qed
    then show ?thesis by (metis make_item_def search_item.select_convs(1,2,5))
  qed
  show "rank_tools score likeness asked limit cands = [] \<longleftrightarrow> cands = []"
    unfolding eq take_limit_props(4) [OF assms] using assms
    by (auto simp: found_def strong_def weak_def pool_def take_limit_def)
qed

section \<open>What a request can show\<close>

text \<open>The invariant of the working set: no name twice, none pinned as well, at most the size.\<close>

definition ws_ok :: "working_set \<Rightarrow> bool" where
  "ws_ok ws \<longleftrightarrow> distinct (ws_pinned ws) \<and> distinct (ws_active ws) \<and>
     set (ws_pinned ws) \<inter> set (ws_active ws) = {} \<and> length (ws_active ws) \<le> ws_size ws"

lemma set_last_of: "set (last_of n xs) \<subseteq> set xs"
  by (auto simp: last_of_def dest: in_set_dropD)

lemma touch_tool_props:
  "distinct active \<Longrightarrow> distinct (touch_tool pinned n active)"
  "set pinned \<inter> set active = {} \<Longrightarrow> set pinned \<inter> set (touch_tool pinned n active) = {}"
  "set (touch_tool pinned n active) \<subseteq> insert n (set active)"
  by (auto simp: touch_tool_def distinct_removeAll)

lemma fold_touch_tool_props:
  "distinct active \<Longrightarrow> distinct (fold (touch_tool pinned) names active)"
  "set pinned \<inter> set active = {} \<Longrightarrow> set pinned \<inter> set (fold (touch_tool pinned) names active) = {}"
  "set (fold (touch_tool pinned) names active) \<subseteq> set names \<union> set active"
proof -
  show "distinct active \<Longrightarrow> distinct (fold (touch_tool pinned) names active)"
    by (induction names arbitrary: active) (simp_all add: touch_tool_props(1))
  show "set pinned \<inter> set active = {} \<Longrightarrow> set pinned \<inter> set (fold (touch_tool pinned) names active) = {}"
    by (induction names arbitrary: active) (simp_all add: touch_tool_props(2))
  show "set (fold (touch_tool pinned) names active) \<subseteq> set names \<union> set active"
  proof (induction names arbitrary: active)
    case (Cons n names)
    have "set (fold (touch_tool pinned) names (touch_tool pinned n active)) \<subseteq> set names \<union> insert n (set active)"
      using Cons.IH [of "touch_tool pinned n active"] touch_tool_props(3) [of pinned n active] by blast
    then show ?case by simp
  qed simp
qed

lemma ws_ok_new [simp]: "ws_ok (new_working_set pinned n)"
  by (simp add: ws_ok_def new_working_set_def)

lemma ws_ok_pin: "ws_ok ws \<Longrightarrow> ws_ok (pin n ws)"
  by (auto simp: ws_ok_def pin_def Let_def distinct_removeAll intro: le_trans [OF length_removeAll_less_eq])

lemma ws_ok_unpin: "ws_ok ws \<Longrightarrow> ws_ok (unpin n ws)"
  by (auto simp: ws_ok_def unpin_def Let_def distinct_removeAll)

lemma ws_ok_add: "ws_ok ws \<Longrightarrow> ws_ok (add_to_working_set names ws)"
proof (cases "names = []")
  case False
  assume ok: "ws_ok ws"
  let ?f = "fold (touch_tool (ws_pinned ws)) names (ws_active ws)"
  have "distinct ?f" "set (ws_pinned ws) \<inter> set ?f = {}"
    using ok fold_touch_tool_props(1,2) by (auto simp: ws_ok_def)
  moreover have "length (last_of (ws_size ws) ?f) \<le> ws_size ws" "distinct (last_of (ws_size ws) ?f) = True"
    using \<open>distinct ?f\<close> by (simp_all add: last_of_def distinct_drop)
  ultimately show ?thesis
    using ok set_last_of [of "ws_size ws" ?f] False by (simp add: ws_ok_def add_to_working_set_def) blast
qed (simp add: add_to_working_set_def)

lemma ws_ok_sync: "ws_ok ws \<Longrightarrow> ws_ok (sync_active r ws)"
  by (auto simp: ws_ok_def sync_active_def intro: le_trans [OF length_filter_le])

lemma py_last_all: "length xs \<le> n \<Longrightarrow> py_last n xs = xs"
  by (simp add: py_last_def last_of_def)

lemma visible_names_ok:
  assumes "ws_ok ws"
  shows "distinct (visible_names r ws)" "length (visible_names r ws) \<le> length (ws_pinned ws) + ws_size ws"
proof -
  have all: "py_last (ws_size ws) (ws_active ws) = ws_active ws"
    using assms by (auto simp: ws_ok_def intro: py_last_all)
  show "distinct (visible_names r ws)"
    using assms by (auto simp: visible_names_def all ws_ok_def)
  show "length (visible_names r ws) \<le> length (ws_pinned ws) + ws_size ws"
    using assms length_filter_le [of "has_tool r" "ws_pinned ws"] length_filter_le [of "\<lambda>n. n \<notin> set (ws_pinned ws)" "ws_active ws"]
    unfolding visible_names_def all length_append ws_ok_def by linarith
qed

lemma search_tools_ws:
  "ws_ok ws \<Longrightarrow> ws_ok (snd (search_tools st srt catalog profile args ws))"
  by (simp add: search_tools_def Let_def ws_ok_add)

lemma added_names:
  assumes "ws_ok ws" and "n \<in> set (ws_active (add_to_working_set names ws))" "n \<notin> set (ws_active ws)"
  shows "n \<in> set names"
proof (cases "names = []")
  case False
  then have "ws_active (add_to_working_set names ws) = last_of (ws_size ws) (fold (touch_tool (ws_pinned ws)) names (ws_active ws))"
    by (simp add: add_to_working_set_def)
  then have "n \<in> set (fold (touch_tool (ws_pinned ws)) names (ws_active ws))" using assms(2) set_last_of by fastforce
  then show ?thesis using fold_touch_tool_props(3) assms(3) by fastforce
qed (use assms in \<open>simp add: add_to_working_set_def\<close>)

section \<open>Properties\<close>

text \<open>C22: The versioned registry implements a map from names to tools: every sequence of
  registrations, removals and updates is answered as on the map and leaves the tools the map
  has. Its version counts the operations that took effect, so a reader that sees the version
  it remembers may rely on the registry being unchanged.\<close>

theorem registry_refines_map:
  "fst (run_ops reg_step ps r) = fst (run_ops map_step ps (get_tool r)) \<and>
   get_tool (snd (run_ops reg_step ps r)) = snd (run_ops map_step ps (get_tool r)) \<and>
   rg_version (snd (run_ops reg_step ps r)) =
     rg_version r + length (filter id (fst (run_ops reg_step ps r))) \<and>
   (rg_version (snd (run_ops reg_step ps r)) = rg_version r \<longrightarrow> snd (run_ops reg_step ps r) = r)"
  using run_simulates run_version run_unchanged by blast

text \<open>A search for tools answers with at most the limit, and never more than twenty; best
  score first and names in order among equals; only tools of the catalog under the prefix and
  never itself; something is found whenever a tool qualifies. Only tools the profile permits
  enter the working set, which keeps its size.\<close>

theorem tool_search_ranked:
  assumes "search_tools st srt catalog profile args ws = (Inr found, ws')" and "ws_ok ws"
  shows "let items = map fst found; pre = clean_str (py_get args ''name_prefix'') in
     sorted_wrt item_le items \<and> length items \<le> 20 \<and>
     (\<forall>i \<in> set items. has_tool catalog (si_name i) \<and> si_name i \<noteq> ''search_tools'' \<and>
        (pre = [] \<or> startswith (si_name i) pre) \<and> 0 < si_score i) \<and>
     (items = [] \<longleftrightarrow> candidates st [''search_tools''] (read_tags (py_get args ''tags'')) pre catalog = []) \<and>
     ws_ok ws' \<and> ws_size ws' = ws_size ws \<and>
     (\<forall>n \<in> set (ws_active ws'). n \<in> set (ws_active ws) \<or> callable profile n)"
proof -
  let ?pre = "clean_str (py_get args ''name_prefix'')" and ?tags = "read_tags (py_get args ''tags'')"
  let ?limit = "clamp_limit (map_of args ''limit'')"
  let ?cs = "candidates st [''search_tools''] ?tags ?pre catalog"
  let ?items = "search_registry st srt (clean_str (py_get args ''query'')) ?limit [''search_tools''] ?tags ?pre catalog"
  let ?names = "filter (\<lambda>n. callable profile n \<and> n \<noteq> []) (map (\<lambda>i. strip (si_name i)) ?items)"
  have limit: "0 < ?limit" "?limit \<le> 20" by (auto simp: clamp_limit_def split: sum.split)
  have items: "map fst found = ?items" and ws': "ws' = add_to_working_set ?names ws"
    using assms(1) by (auto simp: search_tools_def Let_def comp_def split: if_splits)
  have props: "sorted_wrt item_le ?items" "int (length ?items) \<le> ?limit"
    "\<And>i. i \<in> set ?items \<Longrightarrow> \<exists>c \<in> set ?cs. si_name i = fst c \<and> 0 < si_score i"
    "?items = [] \<longleftrightarrow> ?cs = []"
    using rank_tools_props [OF limit(1)] unfolding search_registry_def Let_def by blast+
  have known: "has_tool catalog (si_name i) \<and> si_name i \<noteq> ''search_tools'' \<and>
      (?pre = [] \<or> startswith (si_name i) ?pre) \<and> 0 < si_score i" if "i \<in> set ?items" for i
    using props(3) [OF that] candidate_known [of _ st "[''search_tools'']" ?tags ?pre catalog]
    by (force simp: has_tool_def has_key_def)
  have "n \<in> set (ws_active ws) \<or> callable profile n" if "n \<in> set (ws_active ws')" for n
    using added_names [OF assms(2) that [unfolded ws']] by auto
  moreover have "ws_ok ws'" "ws_size ws' = ws_size ws"
    unfolding ws' using ws_ok_add [OF assms(2)] by (simp_all add: add_to_working_set_def)
  ultimately show ?thesis
    unfolding Let_def items using props limit(2) known by (auto intro: order_trans)
qed

section \<open>Instances\<close>

definition demo_tool :: "str \<Rightarrow> nat tool" where
  "demo_tool name =
     \<lparr>tl_def = \<lparr>td_name = name, td_description = ''d'', td_parameters = [], td_examples = [],
        td_usage_notes = [], td_tags = []\<rparr>, tl_origin = Native,
      tl_execute = (\<lambda>args n. (Inr \<lparr>tr_success = True, tr_data = PyNone, tr_message = name,
        tr_error = None, tr_metadata = []\<rparr>, Suc n))\<rparr>"

definition demo_tables :: search_tables where
  "demo_tables = \<lparr>st_stopwords = [], st_aliases = (\<lambda>_. []), st_idf = (\<lambda>_ _. 1), st_ratio = (\<lambda>_ _. 0)\<rparr>"

theorem registry_refines_map_witness:
  "snd (run_ops reg_step [Unregister ''a''] new_registry) = (new_registry :: nat registry) \<and>
   rg_version (snd (run_ops reg_step [Register (demo_tool ''a''), Unregister ''a''] new_registry)) = 2"
proof -
  let ?r = "new_registry :: nat registry"
  have "rg_version (snd (run_ops reg_step [Unregister ''a''] ?r)) = rg_version ?r"
    by (simp add: unregister_def has_tool_def new_registry_def)
  then have "snd (run_ops reg_step [Unregister ''a''] ?r) = ?r"
    using registry_refines_map [of "[Unregister ''a'']" ?r] by blast
  moreover have "fst (run_ops reg_step [Register (demo_tool ''a''), Unregister ''a''] ?r) = [True, True]"
    by (simp add: register_def unregister_def has_tool_def new_registry_def demo_tool_def has_key_iff)
  then have "rg_version (snd (run_ops reg_step [Register (demo_tool ''a''), Unregister ''a''] ?r)) = 2"
    using registry_refines_map [of "[Register (demo_tool ''a''), Unregister ''a'']" ?r]
    by (simp add: new_registry_def)
  ultimately show ?thesis by blast
qed

theorem tool_search_ranked_witness:
  "\<exists>found ws'. search_tools demo_tables id (snd (register (demo_tool ''web_search'') new_registry)) None
       [(''name_prefix'', PyStr ''web'')] (new_working_set [] 6) = (Inr found, ws') \<and>
     found \<noteq> [] \<and> length found \<le> 20 \<and> ws_ok ws'"
proof -
  let ?cat = "snd (register (demo_tool ''web_search'') new_registry)"
  let ?args = "[(''name_prefix'', PyStr ''web'')]"
  have pre: "clean_str (py_get ?args ''name_prefix'') = ''web''" "read_tags (py_get ?args ''tags'') = []"
    by (simp_all add: py_get_def read_tags_def strip_def lstrip_def rstrip_def is_space_def)
  obtain found ws' where eq: "search_tools demo_tables id ?cat None ?args (new_working_set [] 6) = (Inr found, ws')"
    using pre by (simp add: search_tools_def Let_def)
  have "candidates demo_tables [''search_tools''] [] ''web'' ?cat \<noteq> []"
    by (simp add: candidates_def register_def has_tool_def new_registry_def demo_tool_def expand_tag_filter_def
        strip_def lstrip_def rstrip_def is_space_def)
  then show ?thesis
    using tool_search_ranked [OF eq ws_ok_new] eq unfolding Let_def pre
    by (metis length_map list.map_disc_iff)
qed

text \<open>
  The arguments of \<open>call_tool\<close> come from the model. A context they carry themselves is passed
  on in place of the caller's.
\<close>

lemma forged_context_passed:
  assumes "py_get args ''arguments'' = PyDict inner" "has_key ctx_key inner"
    "strip (py_str (py_get_or args ''name'' (PyStr []))) = name" "name \<noteq> []"
    "has_tool catalog name" "callable profile name"
  shows "snd (call_tool catalog profile (\<lambda>n a. a) args w) = snd (execute catalog name inner w)"
proof -
  have "py_get_or args ''arguments'' (PyDict []) = PyDict inner"
    using assms(1) by (auto simp: py_get_def py_get_or_def split: option.splits)
  with assms show ?thesis by (simp add: call_tool_def Let_def split: prod.split)
qed

lemma call_tool_denied:
  "\<not> callable profile (strip (py_str (py_get_or args ''name'' (PyStr [])))) \<Longrightarrow>
    snd (call_tool catalog profile resolve args w) = w \<and> \<not> tr_success (fst (call_tool catalog profile resolve args w))"
  by (auto simp: call_tool_def Let_def failed_def split: pyval.split)

end
