(* ===== verification/Agent_Loop.thy ===== *)
theory Agent_Loop
  imports Model_Replies Tool_Registry Goals
begin

text \<open>
  One turn of an agent: the loop that asks the model and acts on its answers
  (\<open>AgentCore.run_loop\<close> in \<open>agent_core/agent/agent.py\<close>), driven by the kernel that runs its
  tool calls behind two gates (\<open>AgentKernel.run\<close> in \<open>system/kernel/kernel.py\<close>), with the
  preparation and the end of the turn.

  The source splits the loop over a generator and its driver; here the two are one function.
  The world \<open>'w\<close> holds what tools and other components own: the registry, the working set,
  the goals, the wakes. The model, the prompt and the wording of messages are parameters.

  An error of the model call is raised inside the generator and rolls the history back to the
  start of the iteration. A cancellation while the kernel awaits a tool is raised outside it
  and rolls nothing back; the repair at the end of the turn completes the history. (The rolled
  back list holds the same dictionaries, so contents replaced by placeholders stay replaced:
  the model restores the list as shrunk at the start of the iteration.) Chat-history rows,
  traces, session logs and media attachments are not modelled.
\<close>

section \<open>The context a tool is told\<close>

fun core_mode_str :: "core_mode \<Rightarrow> str" where
  "core_mode_str Full = ''full''" | "core_mode_str Sub = ''sub''" | "core_mode_str Background = ''background''"

text \<open>\<open>sn_owners\<close> are the owners configured as workspace administrators.\<close>

record session_info =
  sn_source :: str
  sn_user :: str
  sn_session :: str
  sn_parent :: str
  sn_job_owner :: str
  sn_owners :: "str list"
  sn_channel :: args

definition ns_segment :: "str \<Rightarrow> str \<Rightarrow> str" where
  "ns_segment value fallback = str_or (strip value) fallback"

text \<open>\<open>is_bash_workspace_admin\<close>, for a source and a user whose names are valid path segments.\<close>

definition is_workspace_admin :: "str list \<Rightarrow> str \<Rightarrow> str \<Rightarrow> core_profile option \<Rightarrow> bool" where
  "is_workspace_admin owners source user profile =
     (if (case profile of Some p \<Rightarrow> cp_bash_workspace_admin p | None \<Rightarrow> False) then True
      else ns_segment source ''cli'' @ '':'' @ ns_segment user ''root''
             \<in> set (filter (\<lambda>x. x \<noteq> []) (map strip owners)))"

definition channel_fields :: "args \<Rightarrow> args" where
  "channel_fields meta =
     concat (map (\<lambda>k. let v = py_get meta k in
       if v \<noteq> PyNone \<and> strip (py_str v) \<noteq> [] then [(k, PyStr (strip (py_str v)))] else [])
       [''feishu_chat_id'', ''feishu_open_id''])"

definition exec_context :: "core_profile option \<Rightarrow> session_info \<Rightarrow> args" where
  "exec_context profile s =
     (let of_profile = (\<lambda>f d. case profile of Some p \<Rightarrow> f p | None \<Rightarrow> d)
      in [(''profile_mode'', of_profile (PyStr \<circ> core_mode_str \<circ> effective_permission_mode) (PyStr ''full'')),
          (''tool_template'', of_profile (PyStr \<circ> cp_tool_template) (PyStr ''default'')),
          (''allow_dangerous_commands'', of_profile (PyBool \<circ> cp_allow_dangerous) (PyBool False)),
          (''approval_bypass_enabled'', of_profile (PyBool \<circ> cp_approval_bypass) (PyBool False)),
          (''bash_workspace_admin'', PyBool (is_workspace_admin (sn_owners s) (sn_source s) (sn_user s) profile)),
          (''source'', PyStr (sn_source s)), (''user_id'', PyStr (sn_user s)),
          (''session_id'', PyStr (sn_session s)), (''parent_session_id'', PyStr (sn_parent s))] @
         (if sn_job_owner s = [] then [] else [(''memory_owner'', PyStr (sn_job_owner s))]) @
         channel_fields (sn_channel s))"

section \<open>Environment and state\<close>

text \<open>A history variable: every model call and every tool that was executed, with what was visible then.\<close>

datatype event = ModelCall | ToolRun str "str list" | Nudge

record agent =
  ag_cx :: chat_context
  ag_visible :: "str list"
  ag_accounts :: accounts
  ag_nudges :: nat
  ag_turn :: nat
  ag_log :: "event list"

text \<open>\<open>en_interrupted\<close> tells that the turn was cancelled while the last tool ran.\<close>

record 'w env =
  en_registry :: "'w \<Rightarrow> 'w registry"
  en_working_set :: "'w \<Rightarrow> working_set"
  en_put_working_set :: "working_set \<Rightarrow> 'w \<Rightarrow> 'w"
  en_goals :: "'w \<Rightarrow> goal_store"
  en_deferred :: "'w \<Rightarrow> bool"
  en_wake :: "'w \<Rightarrow> 'w"
  en_interrupted :: "'w \<Rightarrow> bool"
  en_chat :: "str \<Rightarrow> message list \<Rightarrow> pyval list \<Rightarrow> int option \<Rightarrow> 'w \<Rightarrow> (model_error + reply) \<times> 'w"
  en_summarizer :: "'w \<Rightarrow> (message list \<Rightarrow> py_exn + str) option"
  en_system :: "'w \<Rightarrow> str"
  en_goal_prompt :: "goal_store \<Rightarrow> str"
  en_notice :: "message list \<Rightarrow> message list"
  en_loads :: "str \<Rightarrow> pyval option"
  en_resolve :: "str \<Rightarrow> args \<Rightarrow> args"
  en_offload :: "tool_result \<Rightarrow> str \<Rightarrow> str \<Rightarrow> tool_result"
  en_words :: wording

record loop_config =
  lc_max_iterations :: nat
  lc_memory :: memory_config
  lc_budget :: budget_config
  lc_keep_turns :: nat
  lc_profile :: "core_profile option"
  lc_provider :: "provider option"
  lc_reasoning :: bool
  lc_goal_auto :: bool
  lc_goal_max :: "int option"
  lc_session :: session_info
  lc_synth :: pyval
  lc_heading :: str
  lc_ask :: str
  lc_fallback :: str
  lc_fatal :: str
  lc_limit :: str
  lc_exhausted :: str

abbreviation ag_messages :: "agent \<Rightarrow> message list" where
  "ag_messages a \<equiv> cx_messages (ag_cx a)"

definition with_messages :: "(message list \<Rightarrow> message list) \<Rightarrow> agent \<Rightarrow> agent" where
  "with_messages f a = a\<lparr>ag_cx := (ag_cx a)\<lparr>cx_messages := f (ag_messages a)\<rparr>\<rparr>"

definition log_event :: "event \<Rightarrow> agent \<Rightarrow> agent" where
  "log_event e a = a\<lparr>ag_log := ag_log a @ [e]\<rparr>"

datatype turn_status = Completed | Overflowed | Errored | FellBack

text \<open>How an iteration ends: the loop goes on, returns, raises inside the generator or outside it.\<close>

datatype loop_outcome =
    Continue
  | Returned str turn_status
  | Raised model_error
  | Interrupted

section \<open>Goals\<close>

definition auto_continue :: "loop_config \<Rightarrow> bool" where
  "auto_continue c \<longleftrightarrow>
     (case lc_profile c of Some p \<Rightarrow> cp_mode p \<noteq> Background \<and> lc_goal_auto c | None \<Rightarrow> lc_goal_auto c)"

definition max_nudges :: "loop_config \<Rightarrow> int" where
  "max_nudges c = (case lc_goal_max c of Some n \<Rightarrow> n
     | None \<Rightarrow> if lc_max_iterations c = 0 then 10 else int (lc_max_iterations c))"

definition suppressed :: "'w env \<Rightarrow> 'w \<Rightarrow> bool" where
  "suppressed en w \<longleftrightarrow> en_deferred en w \<or> goals_defer_auto_continue (en_goals en w)"

text \<open>\<open>_try_inject_goal_check\<close>: \<open>Some\<close> when the check was injected.\<close>

definition try_goal_check :: "'w env \<Rightarrow> loop_config \<Rightarrow> agent \<Rightarrow> 'w \<Rightarrow> agent option" where
  "try_goal_check en c a w =
     (if \<not> auto_continue c then None
      else if \<not> has_active_goals (en_goals en w) then None
      else if suppressed en w then None
      else if max_nudges c \<le> int (ag_nudges a) then None
      else Some (log_event Nudge
        (with_messages (add_user_message (en_goal_prompt en (en_goals en w)) [] None)
          (a\<lparr>ag_nudges := Suc (ag_nudges a)\<rparr>))))"

definition schedule_goal_wake :: "'w env \<Rightarrow> loop_config \<Rightarrow> 'w \<Rightarrow> 'w" where
  "schedule_goal_wake en c w =
     (if auto_continue c \<and> has_active_goals (en_goals en w) \<and> \<not> suppressed en w then en_wake en w else w)"

section \<open>Requests\<close>

definition permitted :: "loop_config \<Rightarrow> str \<Rightarrow> bool" where
  "permitted c name = callable (lc_profile c) name"

text \<open>\<open>InternalLoader.assemble\<close>: the messages and tools sent, what is visible and the new working set.\<close>

definition assemble :: "'w env \<Rightarrow> loop_config \<Rightarrow> agent \<Rightarrow> 'w \<Rightarrow> (message list \<times> pyval list) \<times> agent \<times> 'w" where
  "assemble en c a w =
     (let (sent, stored) = assemble_messages (lc_synth c) (ag_messages a);
          (snap, ws) = build_snapshot (en_words en) (en_registry en w) (en_working_set en w);
          tools = filter (\<lambda>t. permitted c (tool_entry_name t)) (map PyDict (sn_tools snap));
          names = filter (permitted c) (sn_names snap)
      in ((sent, tools), with_messages (\<lambda>_. stored) (a\<lparr>ag_visible := names\<rparr>), en_put_working_set en ws w))"

definition context_estimate :: "'w env \<Rightarrow> loop_config \<Rightarrow> agent \<Rightarrow> 'w \<Rightarrow> int" where
  "context_estimate en c a w =
     int (current_context_tokens (en_system en w) (ag_messages a) (lc_profile c)
       (map PyDict (sn_tools (fst (build_snapshot (en_words en) (en_registry en w) (en_working_set en w))))))"

definition shrink :: "'w env \<Rightarrow> loop_config \<Rightarrow> agent \<Rightarrow> agent" where
  "shrink en c a = with_messages (shrink_before_llm (en_loads en) (lc_memory c)) a"

definition tidy_context :: "'w env \<Rightarrow> loop_config \<Rightarrow> chat_context \<Rightarrow> chat_context" where
  "tidy_context en c cx =
     cx\<lparr>cx_messages := shrink_before_llm (en_loads en) (lc_memory c) (en_notice en (cx_messages cx))\<rparr>"

text \<open>The kernel awaits the summary with the loop suspended: nothing of this turn appends meanwhile.\<close>

definition compress :: "'w env \<Rightarrow> loop_config \<Rightarrow> nat \<Rightarrow> agent \<Rightarrow> 'w \<Rightarrow> agent" where
  "compress en c keep a w =
     a\<lparr>ag_cx := snd (compress_context (lc_heading c) (lc_ask c) (en_summarizer en w) id (tidy_context en c) keep (ag_cx a))\<rparr>"

definition clear_all :: "'w env \<Rightarrow> loop_config \<Rightarrow> agent \<Rightarrow> agent" where
  "clear_all en c a =
     with_messages (\<lambda>ms. maybe_clear (en_loads en) (lc_memory c) (Some 0) (Some 0) True
       (maybe_scrub (en_loads en) (lc_memory c) ms)) a"

definition recover :: "'w env \<Rightarrow> loop_config \<Rightarrow> agent \<Rightarrow> 'w \<Rightarrow> agent" where
  "recover en c a w = clear_all en c (compress en c 2 (clear_all en c a) w)"

abbreviation retry_limit :: nat where "retry_limit \<equiv> 1"

datatype model_outcome = Answer reply | Fatal | Failed model_error

text \<open>One pass of the inner loop: an loop_outcome, or another attempt with the new counters.\<close>

datatype asked = Done model_outcome | Again nat bool

definition ask_once ::
  "'w env \<Rightarrow> loop_config \<Rightarrow> nat \<Rightarrow> bool \<Rightarrow> agent \<Rightarrow> 'w \<Rightarrow> asked \<times> agent \<times> 'w" where
  "ask_once en c retries overflowed a w =
     (case assemble en c a w of ((sent, tools), a1, w1) \<Rightarrow>
        let budget = effective_max_tokens (lc_budget c) (prompt_estimate (en_system en w1) sent tools);
            a2 = log_event ModelCall a1
        in case en_chat en (en_system en w1) sent tools budget w1 of
          (Inl e, w2) \<Rightarrow>
            if overflowed \<or> \<not> is_context_overflow (context_estimate en c a2 w2) (compress_threshold (lc_budget c)) e
            then (Done (Failed e), a2, w2)
            else (Again retries True, recover en c a2 w2, w2)
        | (Inr r, w2) \<Rightarrow>
            let a3 = a2\<lparr>ag_accounts := record_usage (rp_usage r) (ag_accounts a2)\<rparr>
            in if synthesize_tool (lc_reasoning c) (lc_provider c) r
               then (Done (Answer (r\<lparr>rp_reasoning := Some []\<rparr>)), a3, w2)
               else if \<not> should_retry_missing (lc_reasoning c) (lc_provider c) r then (Done (Answer r), a3, w2)
               else if Suc retries \<le> retry_limit then (Again (Suc retries) overflowed, a3, w2)
               else (Done Fatal, a3, w2))"

definition tries_left :: "nat \<Rightarrow> bool \<Rightarrow> nat" where
  "tries_left retries overflowed = (Suc retry_limit - retries) + (if overflowed then 0 else 1)"

lemma ask_once_again:
  "ask_once en c retries overflowed a w = (Again r v, a', w') \<Longrightarrow>
    tries_left r v < tries_left retries overflowed \<and> r \<le> max retries retry_limit"
  by (auto simp: ask_once_def tries_left_def Let_def split: prod.splits sum.splits if_splits)

text \<open>The inner loop: ask until the answer is usable.\<close>

function ask_model ::
  "'w env \<Rightarrow> loop_config \<Rightarrow> nat \<Rightarrow> bool \<Rightarrow> agent \<Rightarrow> 'w \<Rightarrow> model_outcome \<times> agent \<times> 'w" where
  "ask_model en c retries overflowed a w =
     (case ask_once en c retries overflowed a w of
        (Done m, a1, w1) \<Rightarrow> (m, a1, w1)
      | (Again r v, a1, w1) \<Rightarrow> ask_model en c r v a1 w1)"
  by pat_completeness auto
termination
  by (relation "measure (\<lambda>(en, c, retries, overflowed, a, w). tries_left retries overflowed)")
    (auto dest: ask_once_again [OF sym])

declare ask_model.simps [simp del]

section \<open>Tool calls\<close>

definition args_text :: "(str \<Rightarrow> pyval option) \<Rightarrow> pyval \<Rightarrow> str" where
  "args_text loads v =
     (case v of PyStr s \<Rightarrow> (case loads s of Some _ \<Rightarrow> s | None \<Rightarrow> json_dumps (PyDict [])) | _ \<Rightarrow> json_dumps v)"

definition call_entry :: "(str \<Rightarrow> pyval option) \<Rightarrow> tool_call \<Rightarrow> pyval" where
  "call_entry loads tc =
     PyDict ([(''id'', PyStr (tcl_id tc)), (''type'', PyStr ''function''),
       (''function'', PyDict [(''name'', PyStr (tcl_name tc)), (''arguments'', PyStr (args_text loads (tcl_args tc)))])] @
       (if truthy (tcl_extra tc) then [(''extra_content'', tcl_extra tc)] else []))"

definition add_tool_calls_message :: "(str \<Rightarrow> pyval option) \<Rightarrow> reply \<Rightarrow> message list \<Rightarrow> message list" where
  "add_tool_calls_message loads r =
     add_assistant_message (map_option PyStr (rp_content r)) (Some (PyList (map (call_entry loads) (rp_calls r))))
       (map_option PyStr (rp_reasoning r)) (rp_anthropic r) (rp_items r)"

text \<open>\<open>AgentKernel._parse_arguments\<close>; the message of a failure shows at most 500 characters.\<close>

definition parse_arguments :: "(str \<Rightarrow> pyval option) \<Rightarrow> pyval \<Rightarrow> str + args" where
  "parse_arguments loads v =
     (case v of
        PyDict d \<Rightarrow> Inr d
      | PyStr s \<Rightarrow>
          if strip s = [] then Inl ''empty''
          else (case loads s of
                  None \<Rightarrow> Inl (''invalid: '' @ take 500 s)
                | Some (PyDict d) \<Rightarrow> Inr d
                | Some _ \<Rightarrow> Inl ''not an object'')
      | _ \<Rightarrow> Inl ''bad type'')"

text \<open>The two gates of the kernel, then the call with the injected context.\<close>

definition run_tool :: "'w env \<Rightarrow> loop_config \<Rightarrow> tool_call \<Rightarrow> agent \<Rightarrow> 'w \<Rightarrow> tool_result \<times> agent \<times> 'w" where
  "run_tool en c tc a w =
     (let name = tcl_name tc
      in if ag_visible a \<noteq> [] \<and> name \<notin> set (ag_visible a) then (failed ''TOOL_NOT_VISIBLE'' name, a, w)
         else if \<not> permitted c name then (failed ''PERMISSION_DENIED'' name, a, w)
         else case parse_arguments (en_loads en) (tcl_args tc) of
           Inl err \<Rightarrow> (failed ''INVALID_ARGUMENTS'' err, a, w)
         | Inr parsed \<Rightarrow>
             let (res, w') = execute (en_registry en w) name
               (en_resolve en name (dset ctx_key (PyDict (exec_context (lc_profile c) (lc_session c))) parsed)) w
             in (res, log_event (ToolRun name (ag_visible a)) a, w'))"

fun run_calls :: "'w env \<Rightarrow> loop_config \<Rightarrow> tool_call list \<Rightarrow> agent \<Rightarrow> 'w \<Rightarrow> bool \<times> agent \<times> 'w" where
  "run_calls en c [] a w = (True, a, w)"
| "run_calls en c (tc # tcs) a w =
     (case run_tool en c tc a w of (res, a1, w1) \<Rightarrow>
        if en_interrupted en w1 then (False, a1, w1)
        else run_calls en c tcs
          (with_messages (add_tool_result (tcl_id tc) (to_json (en_offload en res (tcl_name tc) (tcl_id tc)))) a1) w1)"

section \<open>The loop\<close>

definition token_limit_reached :: "loop_config \<Rightarrow> agent \<Rightarrow> bool" where
  "token_limit_reached c a \<longleftrightarrow>
     (case lc_profile c of
        Some p \<Rightarrow> cp_mode p = Sub \<and> (case cp_max_total_tokens p of Some l \<Rightarrow> l \<le> int (ac_total (ag_accounts a)) | None \<Rightarrow> False)
      | None \<Rightarrow> False)"

definition before_request :: "'w env \<Rightarrow> loop_config \<Rightarrow> agent \<Rightarrow> 'w \<Rightarrow> agent" where
  "before_request en c a w =
     (let a1 = shrink en c a
      in if compress_threshold (lc_budget c) \<le> context_estimate en c a1 w
         then shrink en c (compress en c (lc_keep_turns c) a1 w) else a1)"

text \<open>The final answer: store it, then go on with a goal check or return.\<close>

definition finish_answer ::
  "'w env \<Rightarrow> loop_config \<Rightarrow> bool \<Rightarrow> reply \<Rightarrow> str \<Rightarrow> agent \<Rightarrow> 'w \<Rightarrow> loop_outcome \<times> agent \<times> 'w" where
  "finish_answer en c final r content a w =
     (let r' = (if synthesize_final (lc_reasoning c) (lc_provider c) r then r\<lparr>rp_reasoning := Some []\<rparr> else r);
          a1 = with_messages (add_assistant_message (Some (PyStr content)) None
                 (map_option PyStr (rp_reasoning r')) (rp_anthropic r') (rp_items r')) a
      in case (if final then None else try_goal_check en c a1 w) of
           Some a2 \<Rightarrow> (Continue, a2, w)
         | None \<Rightarrow> (Returned content Completed, a1, if final then schedule_goal_wake en c w else w))"

definition iteration :: "'w env \<Rightarrow> loop_config \<Rightarrow> bool \<Rightarrow> agent \<Rightarrow> 'w \<Rightarrow> loop_outcome \<times> agent \<times> 'w" where
  "iteration en c final a w =
     (let previous = ag_messages (shrink en c a)
      in case ask_model en c 0 False (before_request en c a w) w of
           (Failed e, a1, w1) \<Rightarrow> (Raised e, with_messages (\<lambda>_. previous) a1, w1)
         | (Fatal, a1, w1) \<Rightarrow> (Returned (lc_fatal c) Errored, a1, w1)
         | (Answer r, a1, w1) \<Rightarrow>
             if token_limit_reached c a1 then (Returned (lc_limit c) Overflowed, a1, w1)
             else if rp_calls r \<noteq> [] then
               (case run_calls en c (rp_calls r) (with_messages (add_tool_calls_message (en_loads en) r) a1) w1 of
                  (True, a2, w2) \<Rightarrow> (Continue, a2, w2)
                | (False, a2, w2) \<Rightarrow> (Interrupted, a2, w2))
             else if opt_str (rp_content r) \<noteq> [] then finish_answer en c final r (opt_str (rp_content r)) a1 w1
             else (Returned (lc_fallback c) FellBack, a1, w1))"

text \<open>\<open>n\<close> iterations are left.\<close>

fun run_loop :: "'w env \<Rightarrow> loop_config \<Rightarrow> nat \<Rightarrow> agent \<Rightarrow> 'w \<Rightarrow> loop_outcome \<times> agent \<times> 'w" where
  "run_loop en c 0 a w = (Returned (lc_exhausted c) Overflowed, a, schedule_goal_wake en c w)"
| "run_loop en c (Suc n) a w =
     (case iteration en c (n = 0) a w of
        (Continue, a1, w1) \<Rightarrow> run_loop en c n a1 w1
      | (stop, a1, w1) \<Rightarrow> (stop, a1, w1))"

section \<open>A turn\<close>

definition prepare_turn :: "loop_config \<Rightarrow> str \<Rightarrow> pyval list \<Rightarrow> agent \<Rightarrow> agent" where
  "prepare_turn c input media a =
     with_messages (\<lambda>ms. add_user_message input media (Some (int (Suc (ag_turn a)))) (repair (lc_synth c) ms))
       (a\<lparr>ag_nudges := 0, ag_turn := Suc (ag_turn a)\<rparr>)"

definition finalize_turn :: "'w env \<Rightarrow> loop_config \<Rightarrow> loop_outcome \<Rightarrow> agent \<Rightarrow> 'w \<Rightarrow> agent \<times> 'w" where
  "finalize_turn en c res a w =
     (with_messages (repair (lc_synth c)) a,
      case res of Returned _ Completed \<Rightarrow> schedule_goal_wake en c w | _ \<Rightarrow> w)"

definition process_input ::
  "'w env \<Rightarrow> loop_config \<Rightarrow> str \<Rightarrow> pyval list \<Rightarrow> agent \<Rightarrow> 'w \<Rightarrow> loop_outcome \<times> agent \<times> 'w" where
  "process_input en c input media a w =
     (case run_loop en c (lc_max_iterations c) (prepare_turn c input media a) w of
        (res, a1, w1) \<Rightarrow> (case finalize_turn en c res a1 w1 of (a2, w2) \<Rightarrow> (res, a2, w2)))"

section \<open>What the steps leave alone\<close>

lemma with_messages_fields [simp]:
  "ag_log (with_messages f a) = ag_log a" "ag_visible (with_messages f a) = ag_visible a"
  "ag_nudges (with_messages f a) = ag_nudges a" "ag_turn (with_messages f a) = ag_turn a"
  "ag_messages (with_messages f a) = f (ag_messages a)" "ag_accounts (with_messages f a) = ag_accounts a"
  by (simp_all add: with_messages_def)

lemma log_event_fields [simp]:
  "ag_log (log_event e a) = ag_log a @ [e]" "ag_visible (log_event e a) = ag_visible a"
  "ag_nudges (log_event e a) = ag_nudges a" "ag_cx (log_event e a) = ag_cx a"
  by (simp_all add: log_event_def)

lemma compress_fields [simp]: "ag_log (compress en c k a w) = ag_log a" "ag_nudges (compress en c k a w) = ag_nudges a"
  by (simp_all add: compress_def)

lemma shrink_fields [simp]: "ag_log (shrink en c a) = ag_log a" "ag_nudges (shrink en c a) = ag_nudges a"
  by (simp_all add: shrink_def)

lemma recover_fields [simp]: "ag_log (recover en c a w) = ag_log a" "ag_nudges (recover en c a w) = ag_nudges a"
  by (simp_all add: recover_def clear_all_def)

lemma before_request_fields [simp]:
  "ag_log (before_request en c a w) = ag_log a" "ag_nudges (before_request en c a w) = ag_nudges a"
  by (simp_all add: before_request_def Let_def)

lemma assemble_fields [simp]:
  "ag_log (fst (snd (assemble en c a w))) = ag_log a" "ag_nudges (fst (snd (assemble en c a w))) = ag_nudges a"
  by (simp_all add: assemble_def Let_def split: prod.split)

section \<open>Bounded work\<close>

definition model_calls :: "event list \<Rightarrow> nat" where
  "model_calls es = length (filter (\<lambda>e. e = ModelCall) es)"

lemma model_calls_append [simp]: "model_calls (xs @ ys) = model_calls xs + model_calls ys"
  by (simp add: model_calls_def)

lemma model_calls_simps [simp]:
  "model_calls [] = 0" "model_calls [ModelCall] = 1" "model_calls [ToolRun n v] = 0" "model_calls [Nudge] = 0"
  by (simp_all add: model_calls_def)

lemma ask_once_fields:
  "ag_log (fst (snd (ask_once en c retries overflowed a w))) = ag_log a @ [ModelCall]"
  "ag_nudges (fst (snd (ask_once en c retries overflowed a w))) = ag_nudges a"
proof -
  obtain sent tools a1 w1 where asm: "assemble en c a w = ((sent, tools), a1, w1)"
    by (metis prod.exhaust)
  then have "ag_log a1 = ag_log a" "ag_nudges a1 = ag_nudges a"
    using assemble_fields [of en c a w] by simp_all
  then show "ag_log (fst (snd (ask_once en c retries overflowed a w))) = ag_log a @ [ModelCall]"
    "ag_nudges (fst (snd (ask_once en c retries overflowed a w))) = ag_nudges a"
    by (auto simp: ask_once_def asm Let_def split: prod.split sum.split)
qed

lemma ask_model_log:
  "retries \<le> retry_limit \<Longrightarrow>
    \<exists>k \<le> tries_left retries overflowed.
      ag_log (fst (snd (ask_model en c retries overflowed a w))) = ag_log a @ replicate k ModelCall \<and>
      ag_nudges (fst (snd (ask_model en c retries overflowed a w))) = ag_nudges a"
proof (induction en c retries overflowed a w rule: ask_model.induct)
  case (1 en c retries overflowed a w)
  obtain ans a1 w1 where once: "ask_once en c retries overflowed a w = (ans, a1, w1)"
    by (metis prod.exhaust)
  have a1: "ag_log a1 = ag_log a @ [ModelCall]" "ag_nudges a1 = ag_nudges a"
    using ask_once_fields [of en c retries overflowed a w] by (simp_all add: once)
  show ?case
  proof (cases ans)
    case (Done m)
    have "1 \<le> tries_left retries overflowed" using 1(2) by (simp add: tries_left_def)
    with Done show ?thesis
      by (intro exI [of _ 1]) (simp add: ask_model.simps [of en c retries] once a1)
  next
    case (Again r v)
    note less = ask_once_again [OF once [unfolded Again]]
    have eq: "ask_model en c retries overflowed a w = ask_model en c r v a1 w1"
      by (subst ask_model.simps) (simp add: once Again)
    have "r \<le> retry_limit" using less 1(2) by simp
    then obtain k where k: "k \<le> tries_left r v"
      "ag_log (fst (snd (ask_model en c r v a1 w1))) = ag_log a1 @ replicate k ModelCall"
      "ag_nudges (fst (snd (ask_model en c r v a1 w1))) = ag_nudges a1"
      using 1(1) [OF once [unfolded Again, symmetric] refl refl] by auto
    then show ?thesis
      unfolding eq using less a1 by (intro exI [of _ "Suc k"]) simp
  qed
qed

section \<open>What a turn logs\<close>

text \<open>What executing tools may log: only tools the gates let pass.\<close>

fun passed :: "loop_config \<Rightarrow> event \<Rightarrow> bool" where
  "passed c (ToolRun name visible) \<longleftrightarrow> permitted c name \<and> (visible = [] \<or> name \<in> set visible)"
| "passed c _ \<longleftrightarrow> True"

lemma run_tool_log:
  "\<exists>es. ag_log (fst (snd (run_tool en c tc a w))) = ag_log a @ es \<and> (\<forall>e \<in> set es. passed c e) \<and> model_calls es = 0"
  "ag_nudges (fst (snd (run_tool en c tc a w))) = ag_nudges a"
  "ag_cx (fst (snd (run_tool en c tc a w))) = ag_cx a"
  by (auto simp: run_tool_def Let_def split: sum.split prod.split intro: exI [of _ "[]"])

lemma run_calls_log:
  "\<exists>es. ag_log (fst (snd (run_calls en c tcs a w))) = ag_log a @ es \<and> (\<forall>e \<in> set es. passed c e) \<and> model_calls es = 0 \<and>
    ag_nudges (fst (snd (run_calls en c tcs a w))) = ag_nudges a"
proof (induction tcs arbitrary: a w)
  case Nil
  show ?case by (intro exI [of _ "[]"]) simp
next
  case (Cons tc tcs)
  obtain res a1 w1 where tool: "run_tool en c tc a w = (res, a1, w1)" by (metis prod.exhaust)
  then obtain es where es: "ag_log a1 = ag_log a @ es" "\<forall>e \<in> set es. passed c e" "model_calls es = 0"
    and n: "ag_nudges a1 = ag_nudges a"
    using run_tool_log [of en c tc a w] by auto
  let ?a2 = "with_messages (add_tool_result (tcl_id tc) (to_json (en_offload en res (tcl_name tc) (tcl_id tc)))) a1"
  show ?case
  proof (cases "en_interrupted en w1")
    case True
    with es n show ?thesis by (intro exI [of _ es]) (simp add: tool)
  next
    case False
    obtain es' where "ag_log (fst (snd (run_calls en c tcs ?a2 w1))) = ag_log ?a2 @ es'"
      "\<forall>e \<in> set es'. passed c e" "model_calls es' = 0" "ag_nudges (fst (snd (run_calls en c tcs ?a2 w1))) = ag_nudges ?a2"
      using Cons.IH [of ?a2 w1] by blast
    with es n False show ?thesis by (intro exI [of _ "es @ es'"]) (auto simp: tool)
  qed
qed

lemma try_goal_check_some:
  assumes "try_goal_check en c a w = Some a'"
  shows "ag_log a' = ag_log a @ [Nudge]" "ag_nudges a' = Suc (ag_nudges a)" "int (ag_nudges a') \<le> max_nudges c"
  using assms by (auto simp: try_goal_check_def split: if_splits)

lemma finish_answer_log:
  "\<exists>es. ag_log (fst (snd (finish_answer en c final r content a w))) = ag_log a @ es \<and> (\<forall>e \<in> set es. passed c e) \<and>
    model_calls es = 0 \<and>
    (int (ag_nudges (fst (snd (finish_answer en c final r content a w)))) \<le> max (max_nudges c) (int (ag_nudges a)))"
proof -
  let ?r = "if synthesize_final (lc_reasoning c) (lc_provider c) r then r\<lparr>rp_reasoning := Some []\<rparr> else r"
  let ?a1 = "with_messages (add_assistant_message (Some (PyStr content)) None
      (map_option PyStr (rp_reasoning ?r)) (rp_anthropic ?r) (rp_items ?r)) a"
  show ?thesis
  proof (cases "if final then None else try_goal_check en c ?a1 w")
    case None
    then show ?thesis by (intro exI [of _ "[]"]) (auto simp: finish_answer_def Let_def split: option.split)
  next
    case (Some a2)
    then have "\<not> final" "try_goal_check en c ?a1 w = Some a2" by (simp_all split: if_splits)
    note check = this try_goal_check_some [OF this(2)]
    have eq: "fst (snd (finish_answer en c final r content a w)) = a2"
      using check(1,2) by (simp add: finish_answer_def Let_def)
    show ?thesis unfolding eq using check(3-5) by (intro exI [of _ "[Nudge]"]) auto
  qed
qed

text \<open>An iteration makes at most three model calls.\<close>

lemma iteration_log:
  "\<exists>es. ag_log (fst (snd (iteration en c final a w))) = ag_log a @ es \<and> (\<forall>e \<in> set es. passed c e) \<and>
    model_calls es \<le> 3 \<and>
    int (ag_nudges (fst (snd (iteration en c final a w)))) \<le> max (max_nudges c) (int (ag_nudges a))"
proof -
  obtain m a1 w1 where ask: "ask_model en c 0 False (before_request en c a w) w = (m, a1, w1)"
    by (metis prod.exhaust)
  then obtain k where k: "k \<le> 3" "ag_log a1 = ag_log a @ replicate k ModelCall" "ag_nudges a1 = ag_nudges a"
    using ask_model_log [of 0 False en c "before_request en c a w" w] by (auto simp: tries_left_def)
  have calls: "model_calls (replicate k ModelCall) = k" "\<forall>e \<in> set (replicate k ModelCall). passed c e"
    by (simp_all add: model_calls_def)
  show ?thesis
  proof (cases m)
    case (Failed e)
    with calls k show ?thesis by (simp add: iteration_def ask Let_def)
  next
    case Fatal
    with calls k show ?thesis by (simp add: iteration_def ask Let_def)
  next
    case (Answer r)
    let ?a2 = "with_messages (add_tool_calls_message (en_loads en) r) a1"
    consider "token_limit_reached c a1" | "\<not> token_limit_reached c a1" "rp_calls r \<noteq> []"
      | "\<not> token_limit_reached c a1" "rp_calls r = []" "opt_str (rp_content r) \<noteq> []"
      | "\<not> token_limit_reached c a1" "rp_calls r = []" "opt_str (rp_content r) = []" by blast
    then show ?thesis
    proof cases
      case 1
      with Answer calls k show ?thesis by (simp add: iteration_def ask Let_def)
    next
      case 2
      have eq: "fst (snd (iteration en c final a w)) = fst (snd (run_calls en c (rp_calls r) ?a2 w1))"
        using 2 Answer by (simp add: iteration_def ask Let_def split: prod.split bool.split)
      obtain es where "ag_log (fst (snd (run_calls en c (rp_calls r) ?a2 w1))) = ag_log ?a2 @ es"
        "\<forall>e \<in> set es. passed c e" "model_calls es = 0"
        "ag_nudges (fst (snd (run_calls en c (rp_calls r) ?a2 w1))) = ag_nudges ?a2"
        using run_calls_log [of en c "rp_calls r" ?a2 w1] by blast
      with k calls show ?thesis
        unfolding eq by (intro exI [of _ "replicate k ModelCall @ es"]) auto
    next
      case 3
      have eq: "fst (snd (iteration en c final a w)) = fst (snd (finish_answer en c final r (opt_str (rp_content r)) a1 w1))"
        using 3 Answer by (simp add: iteration_def ask Let_def)
      obtain es where "ag_log (fst (snd (finish_answer en c final r (opt_str (rp_content r)) a1 w1))) = ag_log a1 @ es"
        "\<forall>e \<in> set es. passed c e" "model_calls es = 0"
        "int (ag_nudges (fst (snd (finish_answer en c final r (opt_str (rp_content r)) a1 w1)))) \<le> max (max_nudges c) (int (ag_nudges a1))"
        using finish_answer_log [of en c final r "opt_str (rp_content r)" a1 w1] by blast
      with k calls show ?thesis
        unfolding eq by (intro exI [of _ "replicate k ModelCall @ es"]) auto
    next
      case 4
      with Answer calls k show ?thesis by (simp add: iteration_def ask Let_def)
    qed
  qed
qed

lemma run_loop_log:
  "\<exists>es. ag_log (fst (snd (run_loop en c n a w))) = ag_log a @ es \<and> (\<forall>e \<in> set es. passed c e) \<and>
    model_calls es \<le> 3 * n \<and>
    int (ag_nudges (fst (snd (run_loop en c n a w)))) \<le> max (max_nudges c) (int (ag_nudges a))"
proof (induction n arbitrary: a w)
  case 0
  show ?case by (intro exI [of _ "[]"]) simp
next
  case (Suc n)
  obtain res a1 w1 where it: "iteration en c (n = 0) a w = (res, a1, w1)" by (metis prod.exhaust)
  then obtain es where es: "ag_log a1 = ag_log a @ es" "\<forall>e \<in> set es. passed c e" "model_calls es \<le> 3"
    "int (ag_nudges a1) \<le> max (max_nudges c) (int (ag_nudges a))"
    using iteration_log [of en c "n = 0" a w] by auto
  show ?case
  proof (cases "res = Continue")
    case True
    obtain es' where "ag_log (fst (snd (run_loop en c n a1 w1))) = ag_log a1 @ es'" "\<forall>e \<in> set es'. passed c e"
      "model_calls es' \<le> 3 * n" "int (ag_nudges (fst (snd (run_loop en c n a1 w1)))) \<le> max (max_nudges c) (int (ag_nudges a1))"
      using Suc.IH [of a1 w1] by blast
    with es True show ?thesis by (intro exI [of _ "es @ es'"]) (auto simp: it)
  next
    case False
    then have "run_loop en c (Suc n) a w = (res, a1, w1)" by (cases res) (simp_all add: it)
    with es show ?thesis by (intro exI [of _ es]) auto
  qed
qed

lemma run_loop_ends: "fst (run_loop en c n a w) \<noteq> Continue"
proof (induction n arbitrary: a w)
  case (Suc n)
  obtain res a1 w1 where it: "iteration en c (n = 0) a w = (res, a1, w1)" by (metis prod.exhaust)
  with Suc show ?case by (cases res) simp_all
qed simp

lemma process_input_log:
  "\<exists>es. ag_log (fst (snd (process_input en c input media a w))) = ag_log a @ es \<and> (\<forall>e \<in> set es. passed c e) \<and>
    model_calls es \<le> 3 * lc_max_iterations c \<and>
    int (ag_nudges (fst (snd (process_input en c input media a w)))) \<le> max (max_nudges c) 0"
proof -
  let ?a = "prepare_turn c input media a"
  obtain es where "ag_log (fst (snd (run_loop en c (lc_max_iterations c) ?a w))) = ag_log ?a @ es"
    "\<forall>e \<in> set es. passed c e" "model_calls es \<le> 3 * lc_max_iterations c"
    "int (ag_nudges (fst (snd (run_loop en c (lc_max_iterations c) ?a w)))) \<le> max (max_nudges c) (int (ag_nudges ?a))"
    using run_loop_log [of en c "lc_max_iterations c" ?a w] by blast
  then show ?thesis
    by (intro exI [of _ es]) (auto simp: process_input_def finalize_turn_def prepare_turn_def split: prod.split)
qed

text \<open>A failed model call leaves the history of the iteration's start, contents of tool results apart.\<close>

lemma iteration_rolls_back:
  assumes "iteration en c final a w = (Raised e, a', w')"
  shows "list_all2 same_but_content (ag_messages a) (ag_messages a')"
proof -
  obtain m a1 w1 where ask: "ask_model en c 0 False (before_request en c a w) w = (m, a1, w1)"
    by (metis prod.exhaust)
  have "m = Failed e \<and> a' = with_messages (\<lambda>_. ag_messages (shrink en c a)) a1"
    using assms by (auto simp: iteration_def ask finish_answer_def Let_def split: model_outcome.splits if_splits option.splits prod.splits bool.splits)
  then show ?thesis by (simp add: shrink_def shrink_same)
qed

section \<open>Properties\<close>



text \<open>C6: However a turn ends, with an answer, an error of the model or a cancellation in the
  middle of a tool, the history it leaves has every tool call answered; and an iteration whose
  model call fails leaves the messages it started with, up to contents of tool results.\<close>

theorem turn_leaves_history_valid:
  "calls_answered (ag_messages (fst (snd (process_input en c input media a w)))) \<and>
   (case iteration en c final a w of
      (Raised e, a', w') \<Rightarrow> list_all2 same_but_content (ag_messages a) (ag_messages a')
    | _ \<Rightarrow> True)"
proof -
  have "calls_answered (ag_messages (fst (snd (process_input en c input media a w))))"
    by (auto simp: process_input_def finalize_turn_def repair_answered split: prod.split)
  then show ?thesis
    using iteration_rolls_back [of en c final a w] by (auto split: prod.split loop_outcome.split)
qed

end
