(* ===== verification/Shlex.thy ===== *)
theory Shlex
  imports Py_Values
begin

text \<open>
  The part of Python's \<open>shlex\<close> the command checks use: \<open>shlex.shlex(s, posix=True,
  punctuation_chars=P)\<close> with \<open>whitespace_split\<close>, iterated to the end. White space is blank,
  tab, carriage return and newline; quotes are the single and the double one, and the backslash
  escapes outside quotes and inside double ones; \<open>#\<close> starts a comment up to the end of the
  line, also inside a word. Runs of punctuation characters are tokens of their own.

  And a matcher for the regular expressions of the checks.
\<close>

section \<open>Tokens\<close>

text \<open>Outside a token, in a word, in punctuation, inside a quote, after a backslash (with the quote it is in).\<close>

datatype lex_state = Outside | In_Word | In_Punct | In_Quote char | Escaped "char option"

definition lex_space :: "char \<Rightarrow> bool" where
  "lex_space c \<longleftrightarrow> c \<in> set [CHR '' '', CHR 0x09, CHR 0x0D, CHR 0x0A]"

abbreviation bslash :: char where "bslash \<equiv> CHR 0x5C"
abbreviation dquote :: char where "dquote \<equiv> CHR 0x22"
abbreviation squote :: char where "squote \<equiv> CHR 0x27"
abbreviation newline :: char where "newline \<equiv> CHR 0x0A"

definition lex_quote :: "char \<Rightarrow> bool" where
  "lex_quote c \<longleftrightarrow> c = dquote \<or> c = squote"

text \<open>The rest after a comment.\<close>

definition skip_line :: "str \<Rightarrow> str" where
  "skip_line s = drop 1 (dropWhile (\<lambda>c. c \<noteq> newline) s)"

lemma length_skip_line: "length (skip_line s) \<le> length s"
  unfolding skip_line_def using length_dropWhile_le [of "\<lambda>c. c \<noteq> newline" s]
  by (metis diff_le_self le_trans length_drop)

lemma skip_line_shorter [simp]:
  "2 * length (skip_line s) < Suc (Suc (2 * length s))" "2 * length (skip_line s) < Suc (Suc (Suc (2 * length s)))"
  using length_skip_line [of s] by linarith+

text \<open>A finished token is kept if it has characters or was quoted.\<close>

definition emit :: "str \<Rightarrow> bool \<Rightarrow> py_exn + str list \<Rightarrow> py_exn + str list" where
  "emit tok quoted r = (if tok \<noteq> [] \<or> quoted then (case r of Inl e \<Rightarrow> Inl e | Inr ts \<Rightarrow> Inr (tok # ts)) else r)"

text \<open>The state after the first character of a token, and the token so far.\<close>

definition open_token :: "str \<Rightarrow> char \<Rightarrow> lex_state \<times> str" where
  "open_token P c =
     (if c = bslash then (Escaped None, [])
      else if c \<in> set P then (In_Punct, [c])
      else if lex_quote c then (In_Quote c, [])
      else (In_Word, [c]))"

function lex :: "str \<Rightarrow> lex_state \<Rightarrow> bool \<Rightarrow> str \<Rightarrow> str \<Rightarrow> py_exn + str list" where
  "lex P st quoted tok [] =
     (case st of
        In_Quote _ \<Rightarrow> Inl (ValueError ''No closing quotation'')
      | Escaped _ \<Rightarrow> Inl (ValueError ''No escaped character'')
      | _ \<Rightarrow> emit tok quoted (Inr []))"
| "lex P st quoted tok (c # cs) =
     (case st of
        Outside \<Rightarrow>
          if lex_space c then lex P Outside False [] cs
          else if c = CHR ''#'' then lex P Outside False [] (skip_line cs)
          else (case open_token P c of (st', tok') \<Rightarrow> lex P st' False tok' cs)
      | In_Quote q \<Rightarrow>
          if c = q then lex P In_Word True tok cs
          else if c = bslash \<and> q = dquote then lex P (Escaped (Some q)) True tok cs
          else lex P (In_Quote q) True (tok @ [c]) cs
      | Escaped q \<Rightarrow>
          lex P (case q of None \<Rightarrow> In_Word | Some q \<Rightarrow> In_Quote q) quoted
            (tok @ (if q \<noteq> None \<and> c \<noteq> bslash \<and> Some c \<noteq> q then [bslash, c] else [c])) cs
      | In_Punct \<Rightarrow>
          if lex_space c then emit tok quoted (lex P Outside False [] cs)
          else if c = CHR ''#'' then emit tok quoted (lex P Outside False [] (skip_line cs))
          else if c \<in> set P then lex P In_Punct quoted (tok @ [c]) cs
          else emit tok quoted (lex P Outside False [] (c # cs))
      | In_Word \<Rightarrow>
          if lex_space c then emit tok quoted (lex P Outside False [] cs)
          else if c = CHR ''#'' then emit tok quoted (lex P Outside False [] (skip_line cs))
          else if lex_quote c then lex P (In_Quote c) quoted tok cs
          else if c = bslash then lex P (Escaped None) quoted tok cs
          else if c \<notin> set P then lex P In_Word quoted (tok @ [c]) cs
          else emit tok quoted (lex P Outside False [] (c # cs)))"
  by pat_completeness auto
termination
  by (relation "measure (\<lambda>(P, st, quoted, tok, s). 2 * length s + (if st = Outside then 0 else 1))")
    (auto split: option.split)

definition tokens :: "str \<Rightarrow> str \<Rightarrow> py_exn + str list" where
  "tokens P s = lex P Outside False [] s"

section \<open>Regular expressions\<close>

datatype rx = Chr "char \<Rightarrow> bool" | Eps | Cat rx rx | Alt rx rx | Star rx | Bound | Line_End

definition word_char :: "char \<Rightarrow> bool" where
  "word_char c \<longleftrightarrow>
     (let n = of_char c :: nat
      in 48 \<le> n \<and> n \<le> 57 \<or> 65 \<le> n \<and> n \<le> 90 \<or> 97 \<le> n \<and> n \<le> 122 \<or> c = CHR ''_'' \<or>
         n \<in> set [170, 178, 179, 181, 185, 186, 188, 189, 190] \<or> 192 \<le> n \<and> n \<noteq> 215 \<and> n \<noteq> 247)"

text \<open>A place in a text: the character before it and the rest.\<close>

type_synonym place = "char option \<times> str"

fun repeat :: "(place \<Rightarrow> place list) \<Rightarrow> nat \<Rightarrow> place \<Rightarrow> place list" where
  "repeat step 0 p = [p]"
| "repeat step (Suc n) p =
     p # concat (map (repeat step n) (filter (\<lambda>q. length (snd q) < length (snd p)) (step p)))"

text \<open>The places where a match that starts at the place can end.\<close>

fun ends :: "rx \<Rightarrow> place \<Rightarrow> place list" where
  "ends (Chr P) (b, []) = []"
| "ends (Chr P) (b, c # cs) = (if P c then [(Some c, cs)] else [])"
| "ends Eps p = [p]"
| "ends (Cat r s) p = concat (map (ends s) (ends r p))"
| "ends (Alt r s) p = ends r p @ ends s p"
| "ends (Star r) p = repeat (ends r) (length (snd p)) p"
| "ends Bound (b, s) =
     (if (case b of None \<Rightarrow> False | Some c \<Rightarrow> word_char c) \<noteq> (s \<noteq> [] \<and> word_char (hd s)) then [(b, s)] else [])"
| "ends Line_End (b, s) = (if s = [] \<or> s = [newline] then [(b, s)] else [])"

fun rx_search_from :: "rx \<Rightarrow> char option \<Rightarrow> str \<Rightarrow> bool" where
  "rx_search_from r b [] \<longleftrightarrow> ends r (b, []) \<noteq> []"
| "rx_search_from r b (c # cs) \<longleftrightarrow> ends r (b, c # cs) \<noteq> [] \<or> rx_search_from r (Some c) cs"

text \<open>\<open>re.search\<close> with \<open>re.I\<close>; the expressions are written in lower case.\<close>

definition rx_search :: "rx \<Rightarrow> str \<Rightarrow> bool" where
  "rx_search r s = rx_search_from r None (lower s)"

fun lit :: "str \<Rightarrow> rx" where
  "lit [] = Eps"
| "lit (c # cs) = Cat (Chr (\<lambda>d. d = c)) (lit cs)"

fun cats :: "rx list \<Rightarrow> rx" where
  "cats [] = Eps"
| "cats (r # rs) = Cat r (cats rs)"

fun alts :: "rx list \<Rightarrow> rx" where
  "alts [] = Chr (\<lambda>_. False)"
| "alts [r] = r"
| "alts (r # rs) = Alt r (alts rs)"

definition opt_rx :: "rx \<Rightarrow> rx" where "opt_rx r = Alt r Eps"
definition plus_rx :: "rx \<Rightarrow> rx" where "plus_rx r = Cat r (Star r)"
definition sp :: rx where "sp = Chr is_space"
definition sps :: rx where "sps = Star sp"
definition sp1 :: rx where "sp1 = plus_rx sp"
definition any_char :: rx where "any_char = Chr (\<lambda>c. c \<noteq> newline)"
definition not_blank :: rx where "not_blank = Star (Chr (\<lambda>c. c \<noteq> CHR '' ''))"
definition one_of :: "str \<Rightarrow> rx" where "one_of s = Chr (\<lambda>c. c \<in> set s)"
definition range_rx :: "char \<Rightarrow> char \<Rightarrow> rx" where
  "range_rx a b = Chr (\<lambda>c. (of_char a :: nat) \<le> of_char c \<and> (of_char c :: nat) \<le> of_char b)"

section \<open>Laws\<close>

text \<open>A plain word: no space, comment sign, quote, backslash or punctuation.\<close>

definition plain :: "str \<Rightarrow> char \<Rightarrow> bool" where
  "plain P c \<longleftrightarrow> \<not> lex_space c \<and> c \<noteq> CHR ''#'' \<and> \<not> lex_quote c \<and> c \<noteq> bslash \<and> c \<notin> set P"

declare lex.simps(2) [simp del]

lemma lex_word_plain:
  "\<forall>c \<in> set u. plain P c \<Longrightarrow> lex P In_Word quoted tok (u @ s) = lex P In_Word quoted (tok @ u) s"
proof (induction u arbitrary: tok)
  case (Cons c u)
  then show ?case by (simp add: lex.simps(2) plain_def)
qed simp

lemma lex_plain_start:
  assumes "u \<noteq> []" "\<forall>c \<in> set u. plain P c"
  shows "lex P Outside False [] (u @ s) = lex P In_Word False u s"
proof -
  obtain c v where "u = c # v" using assms(1) by (cases u) auto
  then show ?thesis
    using assms(2) lex_word_plain [of v P False "[c]" s] by (simp add: lex.simps(2) plain_def open_token_def)
qed

lemma lex_in_word:
  "lex P In_Word False u [] = emit u False (Inr [])"
  "lex_space c \<Longrightarrow> lex P In_Word False u (c # s) = emit u False (lex P Outside False [] s)"
  "lex P In_Word False u (CHR ''#'' # s) = emit u False (lex P Outside False [] (skip_line s))"
  by (simp_all add: lex.simps(2) lex_space_def)

text \<open>A comment sign inside a word hides the rest of the line from the tokenizer.\<close>

lemma tokens_comment:
  assumes "u \<noteq> []" "\<forall>c \<in> set u. plain P c" "newline \<notin> set s"
  shows "tokens P (u @ CHR ''#'' # s) = Inr [u]"
proof -
  have "dropWhile (\<lambda>c. c \<noteq> newline) s = []" using assms(3) by (auto simp: dropWhile_eq_Nil_conv)
  then have "skip_line s = []" unfolding skip_line_def by (metis drop_Nil)
  then show ?thesis
    using lex_plain_start [OF assms(1,2)] assms(1) by (simp add: tokens_def lex_in_word emit_def)
qed

text \<open>Words separated by white space are its tokens; a newline is white space like any other.\<close>

fun spaced :: "str list \<Rightarrow> char list \<Rightarrow> str" where
  "spaced [] seps = []"
| "spaced (w # ws) (c # seps) = w @ c # spaced ws seps"
| "spaced (w # ws) [] = w"

lemma tokens_spaced:
  assumes "\<forall>w \<in> set ws. w \<noteq> [] \<and> (\<forall>c \<in> set w. plain P c)" "\<forall>c \<in> set seps. lex_space c"
    "length ws = Suc (length seps)"
  shows "tokens P (spaced ws seps) = Inr ws"
  using assms
proof (induction ws seps rule: spaced.induct)
  case (2 w ws c seps)
  then show ?case
    using lex_plain_start [of w P "c # spaced ws seps"] by (simp add: tokens_def lex_in_word emit_def)
next
  case (3 w ws)
  then show ?case using lex_plain_start [of w P "[]"] by (simp add: tokens_def lex_in_word emit_def)
qed simp

section \<open>Words and runs of punctuation\<close>

text \<open>\<open>s.split()\<close>: the maximal runs of characters that are not white space.\<close>

fun words :: "str \<Rightarrow> str \<Rightarrow> str list" where
  "words cur [] = (if cur = [] then [] else [cur])"
| "words cur (c # cs) =
     (if is_space c then (if cur = [] then words [] cs else cur # words [] cs) else words (cur @ [c]) cs)"

definition lexeme :: "str \<Rightarrow> str \<Rightarrow> bool" where
  "lexeme P w \<longleftrightarrow> w \<noteq> [] \<and> ((\<forall>c \<in> set w. plain P c) \<or> (\<forall>c \<in> set w. c \<in> set P))"

definition quiet :: "str \<Rightarrow> bool" where
  "quiet P \<longleftrightarrow> (\<forall>c \<in> set P. \<not> lex_space c \<and> c \<noteq> CHR ''#'' \<and> \<not> lex_quote c \<and> c \<noteq> bslash)"

lemma lex_punct_run:
  "quiet P \<Longrightarrow> \<forall>c \<in> set u. c \<in> set P \<Longrightarrow> lex P In_Punct q tok (u @ s) = lex P In_Punct q (tok @ u) s"
proof (induction u arbitrary: tok)
  case (Cons c u)
  then show ?case by (simp add: lex.simps(2) quiet_def)
qed simp

lemma lex_punct_start:
  assumes "quiet P" "u \<noteq> []" "\<forall>c \<in> set u. c \<in> set P"
  shows "lex P Outside False [] (u @ s) = lex P In_Punct False u s"
proof -
  obtain c v where "u = c # v" using assms(2) by (cases u) auto
  then show ?thesis
    using assms lex_punct_run [of P v False "[c]" s] by (simp add: lex.simps(2) quiet_def open_token_def)
qed

lemma lex_in_punct:
  "lex P In_Punct False u [] = emit u False (Inr [])"
  "lex_space c \<Longrightarrow> lex P In_Punct False u (c # s) = emit u False (lex P Outside False [] s)"
  by (simp_all add: lex.simps(2))

lemma tokens_lexeme:
  assumes "quiet P" "lexeme P w"
  shows "tokens P w = Inr [w]" "lex_space c \<Longrightarrow> tokens P (w @ c # s) = emit w False (tokens P s)"
  using assms lex_plain_start [of w P "[]"] lex_plain_start [of w P "c # s"]
    lex_punct_start [of P w "[]"] lex_punct_start [of P w "c # s"]
  by (auto simp: lexeme_def tokens_def lex_in_word lex_in_punct emit_def)

lemma tokens_join:
  "quiet P \<Longrightarrow> list_all (lexeme P) ws \<Longrightarrow> tokens P (join '' '' ws) = Inr ws"
proof (induction ws)
  case Nil then show ?case by (simp add: tokens_def emit_def)
next
  case (Cons w ws)
  then show ?case
    using tokens_lexeme [of P w] by (cases ws) (auto simp: emit_def lexeme_def lex_space_def)
qed

definition clear :: "str \<Rightarrow> bool" where
  "clear w \<longleftrightarrow> w \<noteq> [] \<and> (\<forall>c \<in> set w. \<not> is_space c)"

lemma join_ends:
  "ws \<noteq> [] \<Longrightarrow> list_all clear ws \<Longrightarrow>
     join '' '' ws \<noteq> [] \<and> hd (join '' '' ws) = hd (hd ws) \<and> last (join '' '' ws) = last (last ws)"
proof (induction ws)
  case (Cons w ws)
  then show ?case by (cases ws) (auto simp: clear_def)
qed simp

lemma strip_join: "list_all clear ws \<Longrightarrow> strip (join '' '' ws) = join '' '' ws"
proof (cases "ws = []")
  case False
  assume c: "list_all clear ws"
  then have "clear (hd ws)" "clear (last ws)" using False by (auto simp: list_all_iff)
  then show ?thesis using join_ends [OF False c] strip_id_iff_ends by (auto simp: clear_def)
qed (simp add: strip_def lstrip_def rstrip_def)

lemma words_clear:
  "\<forall>c \<in> set w. \<not> is_space c \<Longrightarrow> words cur (w @ s) = words (cur @ w) s"
  by (induction w arbitrary: cur) auto

lemma words_join: "list_all clear ws \<Longrightarrow> words [] (join '' '' ws) = ws"
proof (induction ws)
  case (Cons w ws)
  then show ?case
    using words_clear [of w "[]" "[]"] words_clear [of w "[]" "CHR '' '' # join '' '' ws"]
    by (cases ws) (auto simp: clear_def is_space_def)
qed simp

section \<open>Quoting\<close>

text \<open>\<open>shlex.quote\<close>: safe words as they are, others in single quotes, with quotes in double quotes.\<close>

definition quote_safe :: "char \<Rightarrow> bool" where
  "quote_safe c \<longleftrightarrow>
     (let n = of_char c :: nat
      in 48 \<le> n \<and> n \<le> 57 \<or> 65 \<le> n \<and> n \<le> 90 \<or> 97 \<le> n \<and> n \<le> 122) \<or> c \<in> set ''_@%+=:,./-''"

fun quote_body :: "str \<Rightarrow> str" where
  "quote_body [] = [squote]"
| "quote_body (c # cs) =
     (if c = squote then squote # dquote # squote # dquote # squote # quote_body cs else c # quote_body cs)"

definition shell_quote :: "str \<Rightarrow> str" where
  "shell_quote s = (if s \<noteq> [] \<and> list_all quote_safe s then s else squote # quote_body s)"

lemma lex_quote_body:
  "lex P (In_Quote squote) quoted tok (quote_body s @ r) = lex P In_Word True (tok @ s) r"
proof (induction s arbitrary: tok quoted)
  case (Cons c s)
  then show ?case by (simp add: lex.simps(2) lex_space_def lex_quote_def)
qed (simp add: lex.simps(2))

lemma safe_plain: "quote_safe c \<Longrightarrow> c \<notin> set P \<Longrightarrow> plain P c"
  by (auto simp: quote_safe_def plain_def lex_space_def lex_quote_def Let_def)

end
