(* ===== verification/Bash_Args.thy ===== *)
theory Bash_Args
  imports Shlex Tool_Base 
begin

text \<open>
  The arguments of the command tool (\<open>BashTool\<close> in \<open>agent_core/tools/bash_tool.py\<close>): which
  combinations are refused, how long a call waits in the foreground, and the time limit that is
  read off the \<open>sleep\<close> commands of a command line.

  Floating-point numbers are reals; the words \<open>inf\<close> and \<open>nan\<close>, which \<open>float\<close> accepts, have
  no value here.
\<close>

section \<open>Numbers\<close>

fun dec_val :: "real \<Rightarrow> str \<Rightarrow> real option" where
  "dec_val acc [] = Some acc"
| "dec_val acc (c # cs) =
     (if is_digit c then dec_val (10 * acc + real (digit_val c)) cs
      else if c = CHR ''_'' \<and> cs \<noteq> [] \<and> is_digit (hd cs) then dec_val acc cs
      else None)"

definition digits_part :: "str \<Rightarrow> real option" where
  "digits_part s = (case s of [] \<Rightarrow> None | c # cs \<Rightarrow> if is_digit c then dec_val 0 s else None)"

definition frac_part :: "str \<Rightarrow> real option" where
  "frac_part s =
     (if s = [] then Some 0
      else map_option (\<lambda>v. v / 10 ^ length (filter is_digit s)) (digits_part s))"

definition scaled :: "real \<Rightarrow> int \<Rightarrow> real" where
  "scaled m e = (if e < 0 then m / 10 ^ nat (- e) else m * 10 ^ nat e)"

text \<open>A numeral without sign: digits, a point and digits, either part possibly missing.\<close>

definition mantissa :: "str \<Rightarrow> real option" where
  "mantissa s =
     (let w = takeWhile (\<lambda>c. c \<noteq> CHR ''.'') s; f = dropWhile (\<lambda>c. c \<noteq> CHR ''.'') s
      in if f = [] then digits_part w
         else if w = [] then (if tl f = [] then None else frac_part (tl f))
         else (case (digits_part w, frac_part (tl f)) of (Some a, Some b) \<Rightarrow> Some (a + b) | _ \<Rightarrow> None))"

definition unsigned_float :: "str \<Rightarrow> real option" where
  "unsigned_float s =
     (let m = takeWhile (\<lambda>c. c \<notin> set ''eE'') s; e = dropWhile (\<lambda>c. c \<notin> set ''eE'') s
      in if e = [] then mantissa m
         else (case (mantissa m,
             case tl e of [] \<Rightarrow> None
             | c # cs \<Rightarrow> if c = CHR ''-'' then map_option (\<lambda>n. - int n) (nat_of_str cs)
                 else if c = CHR ''+'' then map_option int (nat_of_str cs) else map_option int (nat_of_str (c # cs))) of
           (Some v, Some x) \<Rightarrow> Some (scaled v x) | _ \<Rightarrow> None))"

definition float_of_str :: "str \<Rightarrow> real option" where
  "float_of_str raw =
     (case strip raw of
        [] \<Rightarrow> None
      | c # cs \<Rightarrow>
          if c = CHR ''-'' then map_option uminus (unsigned_float cs)
          else if c = CHR ''+'' then unsigned_float cs
          else unsigned_float (c # cs))"

text \<open>\<open>float(x)\<close>; \<open>None\<close> for its \<open>TypeError\<close> and \<open>ValueError\<close>, which are caught alike.\<close>

fun py_float :: "pyval \<Rightarrow> real option" where
  "py_float (PyInt i) = Some (of_int i)"
| "py_float (PyBool b) = Some (if b then 1 else 0)"
| "py_float (PyStr s) = float_of_str s"
| "py_float _ = None"

section \<open>Sleeping commands\<close>

text \<open>The ways a greedy repetition of characters can end, the longest first.\<close>

definition greedy :: "(char \<Rightarrow> bool) \<Rightarrow> str \<Rightarrow> (str \<times> str) list" where
  "greedy P s = map (\<lambda>n. (take n s, drop n s)) (rev [0..<Suc (length (takeWhile P s))])"

definition greedy1 :: "(char \<Rightarrow> bool) \<Rightarrow> str \<Rightarrow> (str \<times> str) list" where
  "greedy1 P s = filter (\<lambda>(a, r). a \<noteq> []) (greedy P s)"

text \<open>\<open>[0-9]*\.?[0-9]+\<close>: the numeral and what follows it, in the order they are tried.\<close>

definition numerals :: "str \<Rightarrow> (str \<times> str) list" where
  "numerals s = concat (map (\<lambda>(a, r).
     (if r \<noteq> [] \<and> hd r = CHR ''.'' then map (\<lambda>(f, q). (a @ CHR ''.'' # f, q)) (greedy1 is_digit (tl r)) else []) @
     map (\<lambda>(f, q). (a @ f, q)) (greedy1 is_digit r)) (greedy is_digit s))"

definition boundary_after :: "char \<Rightarrow> str \<Rightarrow> bool" where
  "boundary_after b s \<longleftrightarrow> word_char b \<noteq> (s \<noteq> [] \<and> word_char (hd s))"

text \<open>\<open>\s*([smhd]?)\b\<close> after a numeral: the unit and the rest.\<close>

definition unit_ends :: "char \<Rightarrow> str \<Rightarrow> (str \<times> str) list" where
  "unit_ends b s = concat (map (\<lambda>(w, r).
     (if r \<noteq> [] \<and> hd (lower [hd r]) \<in> set ''smhd'' \<and> boundary_after (hd r) (tl r) then [([hd r], tl r)] else []) @
     (if boundary_after (last (b # w)) r then [([], r)] else [])) (greedy is_space s))"

text \<open>A match at a place: the numeral, the unit and the rest.\<close>

definition sleep_at :: "char option \<Rightarrow> str \<Rightarrow> (str \<times> str \<times> str) option" where
  "sleep_at b s =
     (if (case b of None \<Rightarrow> False | Some c \<Rightarrow> word_char c \<or> c \<in> set ''./-'') \<or> lower (take 5 s) \<noteq> ''sleep'' then None
      else case concat (map (\<lambda>(w, r). concat (map (\<lambda>(n, q). map (\<lambda>(u, t). (n, u, t)) (unit_ends (last n) q)) (numerals r)))
          (greedy1 is_space (drop 5 s))) of
        [] \<Rightarrow> None | m # _ \<Rightarrow> Some m)"

text \<open>\<open>finditer\<close>: matches do not overlap.\<close>

fun sleeps :: "char option \<Rightarrow> str \<Rightarrow> (str \<times> str) list" where
  "sleeps b [] = []"
| "sleeps b (c # cs) =
     (case sleep_at b (c # cs) of
        None \<Rightarrow> sleeps (Some c) cs
      | Some (n, u, t) \<Rightarrow>
          (let k = length cs - length t
           in (n, u) # sleeps (Some (last (take (Suc k) (c # cs)))) (drop k cs)))"

definition unit_scale :: "str \<Rightarrow> real" where
  "unit_scale u =
     (let u = lower u in if u = ''m'' then 60 else if u = ''h'' then 3600 else if u = ''d'' then 86400 else 1)"

definition sleep_seconds :: "str \<times> str \<Rightarrow> real" where
  "sleep_seconds m = (case float_of_str (fst m) of None \<Rightarrow> 0 | Some v \<Rightarrow> if v \<le> 0 then 0 else v * unit_scale (snd m))"

definition infer_sleep_seconds :: "str \<Rightarrow> real" where
  "infer_sleep_seconds command = sum_list (map sleep_seconds (sleeps None command))"

definition infer_timeout :: "str \<Rightarrow> real option" where
  "infer_timeout command =
     (let total = infer_sleep_seconds command in if total \<le> 0 then None else Some (max 3 (total + 5)))"

section \<open>Windows and limits\<close>

record bash_limits =
  bl_window_ms :: real
  bl_max_wait :: real

definition default_limits :: bash_limits where
  "default_limits = \<lparr>bl_window_ms = 30000, bl_max_wait = 600\<rparr>"

record controls =
  ct_hard :: "real option"
  ct_window :: real
  ct_completion :: bool

definition parse_timeout :: "pyval \<Rightarrow> str + real option" where
  "parse_timeout raw =
     (if raw = PyNone then Inr None else case py_float raw of None \<Rightarrow> Inl ''INVALID_TIMEOUT'' | Some v \<Rightarrow> Inr (Some v))"

definition parse_controls :: "bash_limits \<Rightarrow> (str, pyval) dict \<Rightarrow> str \<Rightarrow> str + controls" where
  "parse_controls L kwargs command =
     (let window_ms = py_get kwargs ''wait_window_ms''; completion = py_get kwargs ''wait_for_completion'';
          slept = infer_sleep_seconds command;
          inferred = slept > 0 \<and> window_ms = PyNone;
          default = bl_window_ms L / 1000
      in case parse_timeout (py_get kwargs ''timeout'') of
        Inl e \<Rightarrow> Inl e
      | Inr legacy \<Rightarrow>
          (case parse_timeout (py_get kwargs ''hard_timeout_seconds'') of
             Inl _ \<Rightarrow> Inl ''INVALID_HARD_TIMEOUT''
           | Inr hard \<Rightarrow>
               if window_ms \<noteq> PyNone \<and> py_float window_ms = None then Inl ''INVALID_WAIT_WINDOW''
               else Inr \<lparr>
                 ct_hard = (case hard of Some v \<Rightarrow> Some v | None \<Rightarrow>
                   (case legacy of Some v \<Rightarrow> Some v | None \<Rightarrow> infer_timeout command)),
                 ct_window = (if window_ms \<noteq> PyNone then max 0 (the (py_float window_ms) / 1000)
                   else if inferred then min (max default (max 3 (slept + 5))) (bl_max_wait L) else default),
                 ct_completion = truthy completion \<or>
                   (inferred \<and> completion = PyNone \<and> slept \<le> bl_max_wait L)\<rparr>))"

text \<open>\<open>controls["wait_window_seconds"] or default\<close>: a window of nothing is the default one.\<close>

definition foreground_window :: "bash_limits \<Rightarrow> controls \<Rightarrow> real" where
  "foreground_window L c = (if ct_window c = 0 then bl_window_ms L / 1000 else ct_window c)"

section \<open>Combinations\<close>

definition job_keys :: "str list" where "job_keys = [''job_status'', ''job_tail'', ''job_stop'']"

definition has_command :: "(str, pyval) dict \<Rightarrow> bool" where
  "has_command kwargs \<longleftrightarrow> clean_str (py_get kwargs ''command'') \<noteq> []"

definition has_job :: "(str, pyval) dict \<Rightarrow> bool" where
  "has_job kwargs \<longleftrightarrow> list_ex (\<lambda>k. clean_str (py_get kwargs k) \<noteq> []) job_keys"

definition validate_params :: "(str, pyval) dict \<Rightarrow> str option" where
  "validate_params kwargs =
     (let restart = truthy (py_get kwargs ''restart''); command = has_command kwargs;
          background = truthy (py_get kwargs ''background''); job = has_job kwargs;
          await = py_get kwargs ''await_seconds'' \<noteq> PyNone
      in if restart \<and> (command \<or> background \<or> job \<or> await) then Some ''CONFLICTING_PARAMS''
         else if job \<and> (command \<or> background \<or> await) then Some ''CONFLICTING_PARAMS''
         else if await \<and> (command \<or> background) then Some ''CONFLICTING_PARAMS''
         else if background \<and> \<not> command then Some ''MISSING_COMMAND''
         else None)"

text \<open>\<open>_execute_await_seconds\<close>: an error, or how long to wait.\<close>

definition await_seconds :: "bash_limits \<Rightarrow> (str, pyval) dict \<Rightarrow> str + real" where
  "await_seconds L kwargs =
     (if has_command kwargs \<or> truthy (py_get kwargs ''background'') \<or> has_job kwargs \<or> truthy (py_get kwargs ''restart'')
      then Inl ''CONFLICTING_PARAMS''
      else case py_float (py_get kwargs ''await_seconds'') of
        None \<Rightarrow> Inl ''INVALID_AWAIT_SECONDS''
      | Some t \<Rightarrow> if t < 0 then Inl ''INVALID_AWAIT_SECONDS''
          else if t > bl_max_wait L then Inl ''AWAIT_SECONDS_TOO_LONG'' else Inr t)"

definition is_stateful_shell_command :: "str \<Rightarrow> bool" where
  "is_stateful_shell_command command \<longleftrightarrow>
     (let raw = strip command; lowered = lower raw
      in raw \<noteq> [] \<and>
         (list_ex (\<lambda>p. prefix p lowered)
            [''cd '', ''export '', ''unset '', ''alias '', ''unalias '', ''source '', ''. ''] \<or>
          sublist ''() {'' raw))"

section \<open>What a call asks for\<close>

datatype bash_call =
    Refused str
  | Sleep_For real
  | Restart
  | Job_Status str
  | Job_Tail str pyval pyval
  | Job_Stop str pyval
  | Run_Background str controls
  | Run_Foreground str controls

definition classify_call :: "bash_limits \<Rightarrow> (str, pyval) dict \<Rightarrow> bash_call" where
  "classify_call L kwargs =
     (case validate_params kwargs of Some e \<Rightarrow> Refused e
      | None \<Rightarrow>
          if py_get kwargs ''await_seconds'' \<noteq> PyNone
          then (case await_seconds L kwargs of Inl e \<Rightarrow> Refused e | Inr t \<Rightarrow> Sleep_For t)
          else if truthy (py_get_or kwargs ''restart'' (PyBool False)) then Restart
          else if clean_str (py_get kwargs ''job_status'') \<noteq> [] then Job_Status (clean_str (py_get kwargs ''job_status''))
          else if clean_str (py_get kwargs ''job_tail'') \<noteq> []
          then Job_Tail (clean_str (py_get kwargs ''job_tail''))
            (py_get_or kwargs ''lines'' (PyInt 200)) (py_get_or kwargs ''offset'' (PyInt 0))
          else if clean_str (py_get kwargs ''job_stop'') \<noteq> []
          then Job_Stop (clean_str (py_get kwargs ''job_stop'')) (py_get_or kwargs ''signal'' (PyStr ''SIGTERM''))
          else (let command = strip (py_str (py_get_or kwargs ''command'' (PyStr [])))
                in if command = [] then Refused ''MISSING_COMMAND''
                   else case parse_controls L kwargs command of
                     Inl e \<Rightarrow> Refused e
                   | Inr c \<Rightarrow> if truthy (py_get kwargs ''background'') then Run_Background command c else Run_Foreground command c))"

section \<open>Laws\<close>

lemma greedy_all:
  "list_all P t \<Longrightarrow> r = [] \<or> \<not> P (hd r) \<Longrightarrow>
     \<exists>rest. greedy P (t @ r) = (t, r) # rest"
proof -
  assume "list_all P t" "r = [] \<or> \<not> P (hd r)"
  then have "takeWhile P (t @ r) = t" by (cases r) (auto simp: list_all_iff takeWhile_eq_all_conv)
  then show ?thesis by (simp add: greedy_def)
qed

lemma dec_val_digits:
  "list_all is_digit t \<Longrightarrow> dec_val (real a) t = Some (real (foldl (\<lambda>a c. 10 * a + digit_val c) a t))"
proof (induction t arbitrary: a)
  case (Cons c t)
  then show ?case using Cons.IH [of "10 * a + digit_val c"] by simp
qed simp

lemma digit_no_point: "is_digit c \<Longrightarrow> c \<noteq> CHR ''.'' \<and> c \<notin> set ''eE'' \<and> c \<noteq> CHR ''-'' \<and> c \<noteq> CHR ''+''"
  by (auto simp: is_digit_def)

lemma float_of_digits: "float_of_str (nat_digits n) = Some (real n)"
proof -
  note d = nat_digits_props [of n]
  then have w: "takeWhile (\<lambda>c. c \<noteq> CHR ''.'') (nat_digits n) = nat_digits n" "dropWhile (\<lambda>c. c \<noteq> CHR ''.'') (nat_digits n) = []"
    "takeWhile (\<lambda>c. c \<notin> set ''eE'') (nat_digits n) = nat_digits n" "dropWhile (\<lambda>c. c \<notin> set ''eE'') (nat_digits n) = []"
    using digit_no_point by (auto simp: takeWhile_eq_all_conv dropWhile_eq_Nil_conv list_all_iff)
  have "dec_val 0 (nat_digits n) = Some (real n)" using dec_val_digits [of "nat_digits n" 0] d by simp
  then have "digits_part (nat_digits n) = Some (real n)" using d by (cases "nat_digits n") (auto simp: digits_part_def)
  then have u: "unsigned_float (nat_digits n) = Some (real n)" unfolding unsigned_float_def mantissa_def Let_def w by simp
  obtain c cs where c: "nat_digits n = c # cs" "is_digit c" using d by (cases "nat_digits n") auto
  then have "c \<noteq> CHR ''-'' \<and> c \<noteq> CHR ''+''" using digit_no_point by blast
  then show ?thesis
    using u strip_digits [of "nat_digits n"] d c(1) by (simp add: float_of_str_def)
qed

lemma hd_concat_map: "xs = x # rest \<Longrightarrow> f x = y # ys \<Longrightarrow> \<exists>zs. concat (map f xs) = y # zs"
  by simp

lemma digit_word: "is_digit c \<Longrightarrow> word_char c"
  by (auto simp: is_digit_def word_char_def Let_def)

lemma sleep_at_plain: "sleep_at None (''sleep '' @ nat_digits n) = Some (nat_digits n, [], [])"
proof -
  let ?d = "nat_digits n"
  note d = nat_digits_props [of n]
  obtain c cs where c: "?d = c # cs" "is_digit c" using d by (cases ?d) auto
  have "\<exists>rest. greedy is_space ('' '' @ ?d) = ('' '', ?d) # rest"
    using greedy_all [of is_space "'' ''" ?d] c is_digit_not_space [of c] by (auto simp: is_space_def)
  then obtain sp where sp: "greedy1 is_space ('' '' @ ?d) = ('' '', ?d) # sp" by (auto simp: greedy1_def)
  have dd: "\<exists>rest. greedy is_digit ?d = (?d, []) # rest" using greedy_all [of is_digit ?d "[]"] d by simp
  have "takeWhile is_digit ?d = ?d" using d by (simp add: list_all_iff takeWhile_eq_all_conv)
  then have len: "length (takeWhile is_digit ?d) = length ?d" by (rule arg_cong)
  have "\<exists>rest. numerals ?d = (?d, []) # rest"
  proof -
    obtain ys y where y: "?d = ys @ [y]" using d by (cases ?d rule: rev_cases) auto
    have dy: "list_all is_digit ys" "is_digit y" using d y by (auto simp: list_all_iff)
    have two: "greedy is_digit ?d = (?d, []) # (ys, [y]) # map (\<lambda>n. (take n ?d, drop n ?d)) (rev [0..<length ys])"
      using len by (simp add: greedy_def y)
    have none: "greedy1 is_digit [] = []" by (simp add: greedy1_def greedy_def)
    have one: "greedy1 is_digit [y] = [([y], [])]" using dy by (simp add: greedy1_def greedy_def)
    have ndot: "y \<noteq> CHR ''.''" using digit_no_point dy(2) by blast
    show ?thesis unfolding numerals_def two by (simp add: none one ndot) (simp add: y)
  qed
  then obtain ns where ns: "numerals ?d = (?d, []) # ns" by blast
  have "word_char (last ?d)" using d digit_word last_in_set [of ?d] by (auto simp: list_all_iff)
  then have u: "unit_ends (last ?d) [] = [([], [])]" by (simp add: unit_ends_def greedy_def boundary_after_def)
  have "concat (map (\<lambda>(w, r). concat (map (\<lambda>(n, q). map (\<lambda>(u, t). (n, u, t)) (unit_ends (last n) q)) (numerals r)))
          (greedy1 is_space (drop 5 (''sleep '' @ ?d)))) = (?d, [], []) # concat (map (\<lambda>(n, q). map (\<lambda>(u, t). (n, u, t)) (unit_ends (last n) q)) ns) @
          concat (map (\<lambda>(w, r). concat (map (\<lambda>(n, q). map (\<lambda>(u, t). (n, u, t)) (unit_ends (last n) q)) (numerals r))) sp)"
    using sp by (simp add: ns u)
  then show ?thesis by (simp add: sleep_at_def lower_def lower_char_def)
qed

lemma infer_plain: "infer_sleep_seconds (''sleep '' @ nat_digits n) = real n"
proof -
  have "sleeps None (''sleep '' @ nat_digits n) = [(nat_digits n, [])]"
    using sleep_at_plain [of n] by (simp add: Let_def)
  then show ?thesis by (simp add: infer_sleep_seconds_def sleep_seconds_def float_of_digits unit_scale_def lower_def)
qed

section \<open>Properties\<close>

text \<open>A plain sleep of up to ten minutes is waited for to its end: the call does not leave it in the background, and its time limit is five seconds longer than it sleeps.\<close>

theorem plain_sleep_is_waited_for:
  assumes "0 < n" "n \<le> 600"
  shows "parse_controls default_limits [] (''sleep '' @ nat_digits n) =
    Inr \<lparr>ct_hard = Some (real n + 5), ct_window = min (max 30 (real n + 5)) 600, ct_completion = True\<rparr>"
  using assms by (simp add: parse_controls_def py_get_def parse_timeout_def infer_plain [simplified] infer_timeout_def default_limits_def Let_def)

text \<open>A call always waits for some time in the foreground, and without a window of its own between thirty seconds and ten minutes, whatever sleeps its command contains.\<close>

theorem foreground_window_bounds:
  assumes "parse_controls default_limits kwargs command = Inr c"
  shows "0 < foreground_window default_limits c \<and>
    (py_get kwargs ''wait_window_ms'' = PyNone \<longrightarrow> 30 \<le> foreground_window default_limits c \<and> foreground_window default_limits c \<le> 600)"
  using assms by (auto simp: parse_controls_def default_limits_def foreground_window_def Let_def split: sum.splits if_splits)

section \<open>Witnesses\<close>

theorem plain_sleep_is_waited_for_witness:
  "parse_controls default_limits [] (''sleep '' @ nat_digits 90) =
    Inr \<lparr>ct_hard = Some 95, ct_window = 95, ct_completion = True\<rparr>"
  using plain_sleep_is_waited_for [of 90] by simp

theorem foreground_window_bounds_witness:
  "30 \<le> foreground_window default_limits \<lparr>ct_hard = Some 95, ct_window = 95, ct_completion = True\<rparr>"
proof -
  have "parse_controls default_limits [] (''sleep '' @ nat_digits 90) = Inr \<lparr>ct_hard = Some 95, ct_window = 95, ct_completion = True\<rparr>"
    by (simp add: parse_controls_def py_get_def parse_timeout_def infer_plain [simplified] infer_timeout_def default_limits_def Let_def)
  from foreground_window_bounds [OF this] show ?thesis by (simp add: py_get_def)
qed

end
