(* ===== verification/Bash_Security.thy ===== *)
theory Bash_Security
  imports Shlex Core_Profile
begin

text \<open>
  The checks a shell command passes before it runs (\<open>agent_core/bash_security.py\<close>): the
  white list of restricted cores, the patterns of dangerous commands, the guard of the
  workspace jail and the search for write targets outside the workspace.

  Resolved paths are lists of components; \<open>resolve\<close> is \<open>Path(s).resolve()\<close>, which reads
  the file system and is a parameter. The wording of the
  reasons is left out, the names of the patterns are kept. \<open>Inl\<close> is the \<open>ValueError\<close> that
  \<open>shlex\<close> raises on a command with an open quotation.
\<close>

section \<open>Verdicts\<close>

datatype action = Allow | Deny | Ask

type_synonym path = "str list"

record verdict =
  vd_action :: action
  vd_code :: str
  vd_risks :: "str list"
  vd_grants :: "path list"

definition allow :: verdict where
  "allow = \<lparr>vd_action = Allow, vd_code = [], vd_risks = [], vd_grants = []\<rparr>"

definition deny :: "str \<Rightarrow> verdict" where
  "deny code = \<lparr>vd_action = Deny, vd_code = code, vd_risks = [], vd_grants = []\<rparr>"

record security =
  bs_whitelist :: "str list"
  bs_allow_restricted :: bool
  bs_jail :: "str option"
  bs_tmp :: "str option"
  bs_extra :: "path list"

definition default_whitelist :: "str list" where
  "default_whitelist = [''ls'', ''pwd'', ''cat'', ''head'', ''tail'', ''grep'', ''find'', ''echo'', ''which'',
     ''file'', ''stat'', ''wc'', ''date'', ''whoami'', ''id'', ''env'', ''printenv'']"

section \<open>Dangerous patterns\<close>

definition word_rx :: "str \<Rightarrow> rx" where
  "word_rx s = cats [Bound, lit s, Bound]"

definition to_shell :: rx where
  "to_shell = cats [lit ''|'', sps, opt_rx (lit ''ba''), lit ''sh'', Bound]"

definition dangerous_patterns :: "(rx \<times> str) list" where
  "dangerous_patterns =
     [(cats [Bound, lit ''rm'', sp1, alts [cats [lit ''-'', not_blank, lit ''r'', not_blank], lit ''-rf'', lit ''-fr'',
         cats [lit ''-r'', sp1, lit ''-f'']], Bound], ''rm -rf''),
      (cats [Bound, lit ''rm'', sp1, lit ''-'', not_blank, lit ''f'', not_blank, sp1, lit ''-r'', Bound], ''rm -fr''),
      (cats [Bound, lit ''chmod'', sp1, alts [lit ''-r'', lit ''--recursive''], Bound], ''chmod -R''),
      (cats [Bound, lit ''chown'', sp1, alts [lit ''-r'', lit ''--recursive''], Bound], ''chown -R''),
      (cats [Bound, lit ''dd'', sp1], ''dd''),
      (word_rx ''sudo'', ''sudo''),
      (cats [Bound, lit ''mkfs.''], ''mkfs''),
      (cats [lit ''>'', sps, lit ''/dev/'', alts [lit ''sd'', lit ''hd'', lit ''nvme'', lit ''vd''],
         range_rx (CHR ''a'') (CHR ''z'')], ''block device''),
      (cats [Bound, lit ''format'', sp1], ''format''),
      (cats [Bound, lit ''curl'', Bound, Star any_char, to_shell], ''curl pipe to shell''),
      (cats [Bound, lit ''wget'', Bound, Star any_char, to_shell], ''wget pipe to shell''),
      (cats [lit ''|'', sps, opt_rx (cats [lit ''env'', sp1]),
         opt_rx (alts [lit ''ba'', lit ''da'', lit ''k'', lit ''z'']), lit ''sh'', alts [sp, Line_End]], ''pipe script to shell''),
      (cats [lit ''>'', sps, lit ''/etc/''], ''/etc/''),
      (cats [Bound, lit ''kill'', sp1, lit ''-9'', sp], ''kill -9''),
      (word_rx ''shutdown'', ''shutdown''),
      (word_rx ''reboot'', ''reboot''),
      (cats [Bound, lit ''init'', sp1, range_rx (CHR ''0'') (CHR ''6''), Bound], ''init'')]"

definition jail_bypass :: "str \<Rightarrow> bool" where
  "jail_bypass command \<longleftrightarrow>
     rx_search (cats [Bound, lit ''builtin'', sp1, lit ''cd'', Bound]) command \<or>
     rx_search (cats [Bound, lit ''command'', sp1, lit ''cd'', Bound]) command"

section \<open>Segments\<close>

definition segment_operators :: "str list" where
  "segment_operators = [''&&'', ''||'', '';'', ''|'']"

text \<open>The tokens between operators; an operator closes a segment that has tokens.\<close>

fun group_segments :: "str list \<Rightarrow> str list \<Rightarrow> str list list" where
  "group_segments cur [] = (if cur = [] then [] else [cur])"
| "group_segments cur (t # ts) =
     (if t \<in> set segment_operators
      then (if cur = [] then group_segments [] ts else cur # group_segments [] ts)
      else group_segments (cur @ [t]) ts)"

abbreviation operator_chars :: str where "operator_chars \<equiv> '';&|<>''"

definition split_command_segments :: "str \<Rightarrow> py_exn + str list" where
  "split_command_segments command =
     (case tokens operator_chars command of
        Inl e \<Rightarrow> Inl e
      | Inr ts \<Rightarrow> Inr (map (\<lambda>seg. strip (join '' '' seg)) (group_segments [] ts)))"

definition tokenize_segment :: "str \<Rightarrow> py_exn + str list" where
  "tokenize_segment segment = tokens ''<>'' segment"

fun map_ok :: "('a \<Rightarrow> py_exn + 'b) \<Rightarrow> 'a list \<Rightarrow> py_exn + 'b list" where
  "map_ok f [] = Inr []"
| "map_ok f (x # xs) =
     (case f x of Inl e \<Rightarrow> Inl e
      | Inr y \<Rightarrow> (case map_ok f xs of Inl e \<Rightarrow> Inl e | Inr ys \<Rightarrow> Inr (y # ys)))"

text \<open>\<open>Path(s).name.lower()\<close>: the last component that is not a single dot.\<close>

definition base_name :: "str \<Rightarrow> str" where
  "base_name s =
     lower (case filter (\<lambda>c. c \<noteq> [] \<and> c \<noteq> ''.'') (split_on (CHR ''/'') s) of [] \<Rightarrow> [] | cs \<Rightarrow> last cs)"

section \<open>Danger\<close>

fun hex_val :: "char \<Rightarrow> nat option" where
  "hex_val c =
     (let n = of_char c :: nat
      in if 48 \<le> n \<and> n \<le> 57 then Some (n - 48)
         else if 65 \<le> n \<and> n \<le> 70 then Some (n - 55)
         else if 97 \<le> n \<and> n \<le> 102 then Some (n - 87) else None)"

definition number :: "nat \<Rightarrow> str \<Rightarrow> nat" where
  "number base s = foldl (\<lambda>a c. base * a + (case hex_val c of Some v \<Rightarrow> v | None \<Rightarrow> 0)) 0 s"

definition octal :: "char \<Rightarrow> bool" where
  "octal c \<longleftrightarrow> (case hex_val c of Some v \<Rightarrow> v < 8 | None \<Rightarrow> False) "

text \<open>The escape after a backslash: how many characters it takes and the code point it stands for.\<close>

definition escape_at :: "str \<Rightarrow> (nat \<times> nat) option" where
  "escape_at s =
     (let oct = takeWhile octal (take 3 s);
          hex = (\<lambda>k. if k < length s \<and> list_all (\<lambda>c. hex_val c \<noteq> None) (take k (tl s))
                     then Some (Suc k, number 16 (take k (tl s))) else None)
      in if oct \<noteq> [] then Some (length oct, number 8 oct)
         else case s of
           [] \<Rightarrow> None
         | c # _ \<Rightarrow>
             if c = CHR ''x'' then hex 2
             else if c = CHR ''u'' then hex 4
             else if c = CHR ''U'' then hex 8
             else map_option (\<lambda>n. (1, n)) (map_of
               [(CHR ''a'', 7), (CHR ''b'', 8), (CHR ''f'', 12), (CHR ''n'', 10), (CHR ''r'', 13), (CHR ''t'', 9),
                (CHR ''v'', 11), (squote, 39), (dquote, 34), (bslash, 92)] c))"

text \<open>A code point above 255 leaves the escape as it is (texts here have none).\<close>

function decode_escapes :: "str \<Rightarrow> str" where
  "decode_escapes [] = []"
| "decode_escapes (c # cs) =
     (if c \<noteq> bslash then c # decode_escapes cs
      else case escape_at cs of
        None \<Rightarrow> c # decode_escapes cs
      | Some (k, n) \<Rightarrow> (if n < 256 then [char_of n] else c # take k cs) @ decode_escapes (drop k cs))"
  by pat_completeness auto
termination by (relation "measure length") (auto simp: le_imp_less_Suc)

definition scan_variants :: "str \<Rightarrow> str list" where
  "scan_variants command =
     (let raw = (if command = [] then [] else [command]); decoded = decode_escapes command
      in if decoded \<noteq> [] \<and> decoded \<notin> set raw then raw @ [decoded] else raw)"

definition eval_in_substitution :: rx where
  "eval_in_substitution = cats [lit ''$('', sps, lit ''eval'', Bound]"

definition invokes_eval :: "str \<Rightarrow> py_exn + bool" where
  "invokes_eval command =
     (case split_command_segments command of
        Inl e \<Rightarrow> Inl e
      | Inr segs \<Rightarrow>
          (case map_ok tokenize_segment segs of
             Inl e \<Rightarrow> Inl e
           | Inr tss \<Rightarrow> Inr (list_ex (\<lambda>ts. ts \<noteq> [] \<and> base_name (hd ts) = ''eval'') tss \<or>
                rx_search eval_in_substitution command)))"

definition pattern_hit :: "str \<Rightarrow> str option" where
  "pattern_hit command = map_option snd (find (\<lambda>(r, name). rx_search r command) dangerous_patterns)"

fun first_danger :: "str list \<Rightarrow> py_exn + str option" where
  "first_danger [] = Inr None"
| "first_danger (c # cs) =
     (case invokes_eval c of
        Inl e \<Rightarrow> Inl e
      | Inr True \<Rightarrow> Inr (Some ''eval'')
      | Inr False \<Rightarrow> (case pattern_hit c of Some d \<Rightarrow> Inr (Some d) | None \<Rightarrow> first_danger cs))"

definition check_dangerous :: "str \<Rightarrow> py_exn + str option" where
  "check_dangerous command = first_danger (scan_variants command)"

section \<open>Restricted cores\<close>

definition restricted_denied_operators :: "str list" where
  "restricted_denied_operators = [''`'', ''$('', ''>'', ''>>'', ''<'']"

text \<open>The expression \<open>(?<![&|])&(?!&)\<close>: a single \<open>&\<close> after neither \<open>&\<close> nor a bar.\<close>

fun lone_ampersand :: "char option \<Rightarrow> str \<Rightarrow> bool" where
  "lone_ampersand b [] \<longleftrightarrow> False"
| "lone_ampersand b (c # cs) \<longleftrightarrow>
     c = CHR ''&'' \<and> b \<noteq> Some (CHR ''&'') \<and> b \<noteq> Some (CHR ''|'') \<and> (cs = [] \<or> hd cs \<noteq> CHR ''&'') \<or>
     lone_ampersand (Some c) cs"

definition command_of_segment :: "str \<Rightarrow> str option" where
  "command_of_segment segment = (case words [] segment of [] \<Rightarrow> None | w # _ \<Rightarrow> Some (base_name w))"

definition ask_unlisted :: verdict where
  "ask_unlisted = \<lparr>vd_action = Ask, vd_code = ''CONFIRMATION_REQUIRED'',
     vd_risks = [''not on the white list''], vd_grants = []\<rparr>"

definition unlisted :: "security \<Rightarrow> str \<Rightarrow> bool" where
  "unlisted S segment =
     (case command_of_segment segment of None \<Rightarrow> False | Some b \<Rightarrow> b \<notin> set (bs_whitelist S))"

definition check_restricted :: "security \<Rightarrow> str \<Rightarrow> bool \<Rightarrow> py_exn + verdict" where
  "check_restricted S command confirmed =
     (if \<exists>operator \<in> set restricted_denied_operators. sublist operator command
      then Inr (deny ''SHELL_OPERATOR_DENIED'')
      else if lone_ampersand None command then Inr (deny ''SHELL_OPERATOR_DENIED'')
      else case split_command_segments command of
        Inl e \<Rightarrow> Inl e
      | Inr segments \<Rightarrow>
          if segments = [] then Inr (deny ''EMPTY_COMMAND'')
          else if \<not> confirmed \<and> list_ex (unlisted S) segments then Inr ask_unlisted
          else (case check_dangerous command of
              Inl e \<Rightarrow> Inl e
            | Inr (Some danger) \<Rightarrow> Inr (deny ''COMMAND_DENIED'')
            | Inr None \<Rightarrow> Inr allow))"

section \<open>Write targets\<close>

definition exempt_devices :: "str list" where
  "exempt_devices = [''/dev/null'', ''/dev/stdout'', ''/dev/stderr'']"

definition path_text :: "path \<Rightarrow> str" where
  "path_text p = CHR ''/'' # join ''/'' p"

definition is_exempt_target :: "(str \<Rightarrow> path) \<Rightarrow> str \<Rightarrow> bool" where
  "is_exempt_target resolve path_str =
     (let s = strip path_str
      in prefix ''/'' s \<and> (path_text (resolve s) \<in> set exempt_devices \<or>
           list_ex (\<lambda>dev. resolve s = resolve dev) exempt_devices))"

definition is_option :: "str \<Rightarrow> bool" where
  "is_option token \<longleftrightarrow> prefix ''-'' token \<and> token \<noteq> ''-''"

text \<open>The operands: neither options nor the double dash.\<close>

definition operands :: "str list \<Rightarrow> str list" where
  "operands args = filter (\<lambda>t. \<not> is_option t \<and> t \<noteq> ''--'') args"

text \<open>\<open>base / s\<close>: an absolute \<open>s\<close> replaces the base.\<close>

definition under_root :: "path \<Rightarrow> str \<Rightarrow> str" where
  "under_root base s =
     (if prefix ''/'' s then s else if base = [] then CHR ''/'' # s else path_text base @ CHR ''/'' # s)"

definition resolve_candidate_path :: "(str \<Rightarrow> path) \<Rightarrow> str \<Rightarrow> path \<Rightarrow> path option" where
  "resolve_candidate_path resolve path_str base =
     (let s = strip path_str
      in if prefix ''~/'' s then Some (resolve (under_root base (drop 2 s)))
         else if prefix ''/'' s then Some (resolve s)
         else None)"

definition path_within_root :: "(str \<Rightarrow> path) \<Rightarrow> path \<Rightarrow> path \<Rightarrow> bool" where
  "path_within_root resolve candidate base \<longleftrightarrow>
     prefix (resolve (path_text base)) (resolve (path_text candidate))"

text \<open>The parent of a resolved path; its text is never empty or a dot.\<close>

definition path_grant_prefix :: "path \<Rightarrow> path" where
  "path_grant_prefix candidate = butlast candidate"

text \<open>
  The expression \<open>^(?:\d+)?(>>?)(.+)$\<close>: after the digits one or two \<open>>\<close>, then at least one
  character, none a newline but for one at the end, which is left out.
\<close>

definition dots :: "str \<Rightarrow> str option" where
  "dots s =
     (let u = takeWhile (\<lambda>c. c \<noteq> newline) s; rest = drop (length u) s
      in if u \<noteq> [] \<and> (rest = [] \<or> rest = [newline]) then Some u else None)"

definition redirect_match :: "str \<Rightarrow> str option" where
  "redirect_match token =
     (case dropWhile (\<lambda>c. c \<in> set ''0123456789'') token of
        [] \<Rightarrow> None
      | c # cs \<Rightarrow>
          if c \<noteq> CHR ''>'' then None
          else if prefix ''>'' cs \<and> dots (tl cs) \<noteq> None then dots (tl cs)
          else dots cs)"

definition redirect_operators :: "str list" where
  "redirect_operators = [''>'', ''>>'', ''1>'', ''1>>'', ''2>'', ''2>>'']"

fun extract_redirect_targets :: "str list \<Rightarrow> str list" where
  "extract_redirect_targets [] = []"
| "extract_redirect_targets [t] = (case redirect_match t of None \<Rightarrow> [] | Some u \<Rightarrow> [u])"
| "extract_redirect_targets (t # u # ts) =
     (if t \<in> set redirect_operators then u # extract_redirect_targets ts
      else (case redirect_match t of None \<Rightarrow> [] | Some v \<Rightarrow> [v]) @ extract_redirect_targets (u # ts))"

definition mutates_all_paths :: "str list" where
  "mutates_all_paths = [''touch'', ''mkdir'', ''rmdir'', ''truncate'', ''rm'', ''unlink'']"

definition mutates_last_path :: "str list" where
  "mutates_last_path = [''mv'', ''cp'', ''install'', ''ln'', ''rsync'']"

definition command_targets :: "str \<Rightarrow> str list \<Rightarrow> str list" where
  "command_targets base args =
     (if base \<in> set mutates_all_paths then operands args
      else if base \<in> set mutates_last_path then (case operands args of [] \<Rightarrow> [] | xs \<Rightarrow> [last xs])
      else if base = ''tee'' then filter (\<lambda>t. \<not> is_option t \<and> t \<notin> {''-'', ''/dev/stdout''}) args
      else if base \<in> {''chmod'', ''chown'', ''chgrp''} then drop 1 (operands args)
      else if base = ''sed'' \<and> list_ex (prefix ''-i'') args then drop 1 (operands args)
      else if base = ''dd'' then map (drop 3) (filter (prefix ''of='') args)
      else [])"

definition extract_write_targets :: "str list \<Rightarrow> str list" where
  "extract_write_targets ts =
     extract_redirect_targets ts @ (case ts of [] \<Rightarrow> [] | t # args \<Rightarrow> command_targets (base_name t) args)"

definition set_text :: "str option \<Rightarrow> str option" where
  "set_text x = (case x of None \<Rightarrow> None | Some s \<Rightarrow> if s = [] then None else Some s)"

definition write_roots :: "(str \<Rightarrow> path) \<Rightarrow> security \<Rightarrow> path list" where
  "write_roots resolve S =
     resolve (case bs_jail S of None \<Rightarrow> [] | Some s \<Rightarrow> s) #
     (case set_text (bs_tmp S) of None \<Rightarrow> [] | Some s \<Rightarrow> [resolve s]) @ bs_extra S"

text \<open>The place a target asks for, if it is outside every root and no harmless device.\<close>

definition grant_for :: "(str \<Rightarrow> path) \<Rightarrow> path list \<Rightarrow> str \<Rightarrow> path option" where
  "grant_for resolve roots path_str =
     (if is_exempt_target resolve path_str then None
      else case resolve_candidate_path resolve path_str (hd roots) of
        None \<Rightarrow> None
      | Some candidate \<Rightarrow>
          if is_exempt_target resolve (path_text candidate) then None
          else if list_ex (path_within_root resolve candidate) roots then None
          else Some (path_grant_prefix candidate))"

definition collect_write_grants :: "(str \<Rightarrow> path) \<Rightarrow> security \<Rightarrow> str \<Rightarrow> py_exn + path list" where
  "collect_write_grants resolve S command =
     (case split_command_segments command of
        Inl e \<Rightarrow> Inl e
      | Inr segments \<Rightarrow>
          (case map_ok tokenize_segment segments of
             Inl e \<Rightarrow> Inl e
           | Inr tss \<Rightarrow>
               Inr (fold (\<lambda>g gs. if g \<in> set gs then gs else gs @ [g])
                 (List.map_filter (grant_for resolve (write_roots resolve S))
                   (concat (map extract_write_targets tss))) [])))"

definition check_workspace_write_scope :: "(str \<Rightarrow> path) \<Rightarrow> security \<Rightarrow> str \<Rightarrow> py_exn + verdict option" where
  "check_workspace_write_scope resolve S command =
     (case collect_write_grants resolve S command of
        Inl e \<Rightarrow> Inl e
      | Inr [] \<Rightarrow> Inr None
      | Inr gs \<Rightarrow> Inr (Some ((deny ''WORKSPACE_WRITE_DENIED'')\<lparr>vd_grants := gs\<rparr>)))"

text \<open>\<open>refresh_write_roots_from_config\<close>: \<open>merged\<close> are the roots the configuration and the ACL file give now.\<close>

definition refresh_write_roots :: "(str \<Rightarrow> path) \<Rightarrow> path list \<Rightarrow> security \<Rightarrow> security" where
  "refresh_write_roots resolve merged S =
     (case set_text (bs_jail S) of
        None \<Rightarrow> S
      | Some jail \<Rightarrow>
          S\<lparr>bs_extra := filter (\<lambda>p. p \<noteq> resolve jail \<and> map_option resolve (set_text (bs_tmp S)) \<noteq> Some p)
              (map (\<lambda>p. resolve (path_text p)) merged)\<rparr>)"

section \<open>The check\<close>

definition ask_approval :: "str option \<Rightarrow> path list \<Rightarrow> verdict" where
  "ask_approval danger grants =
     \<lparr>vd_action = Ask,
      vd_code = (if danger \<noteq> None then ''CONFIRMATION_REQUIRED'' else ''WORKSPACE_WRITE_DENIED''),
      vd_risks = (case danger of None \<Rightarrow> [] | Some d \<Rightarrow> [d]), vd_grants = grants\<rparr>"

definition check_full :: "(str \<Rightarrow> path) \<Rightarrow> security \<Rightarrow> str \<Rightarrow> bool \<Rightarrow> py_exn + verdict" where
  "check_full resolve S command confirmed =
     (case (if set_text (bs_jail S) \<noteq> None then collect_write_grants resolve S command else Inr []) of
        Inl e \<Rightarrow> Inl e
      | Inr grants \<Rightarrow>
          (case check_dangerous command of
             Inl e \<Rightarrow> Inl e
           | Inr danger \<Rightarrow>
               Inr (if danger = None \<and> grants = [] then allow
                    else if confirmed \<and> grants = [] then allow
                    else ask_approval danger grants)))"

definition check :: "(str \<Rightarrow> path) \<Rightarrow> security \<Rightarrow> str \<Rightarrow> core_profile option \<Rightarrow> bool \<Rightarrow> py_exn + verdict" where
  "check resolve S command profile confirmed =
     (let command = strip command
      in if command = [] then Inr (deny ''EMPTY_COMMAND'')
         else if set_text (bs_jail S) \<noteq> None \<and> jail_bypass command then Inr (deny ''WORKSPACE_JAIL_DENIED'')
         else if (case profile of None \<Rightarrow> Full | Some p \<Rightarrow> cp_mode p) = Sub
         then if \<not> bs_allow_restricted S then Inr (deny ''PERMISSION_DENIED'')
              else check_restricted S command confirmed
         else check_full resolve S command confirmed)"

section \<open>Chains of simple commands\<close>

text \<open>A word with no character the shell or the tokenizer treats specially here.\<close>

definition simple_word :: "str \<Rightarrow> bool" where
  "simple_word w \<longleftrightarrow> clear w \<and> (\<forall>c \<in> set w. plain operator_chars c \<and> c \<notin> set ''`$'')"

fun chain_items :: "str list list \<Rightarrow> str list \<Rightarrow> str list" where
  "chain_items (seg # segs) (operator # ops) = seg @ operator # chain_items segs ops"
| "chain_items segs [] = concat segs"
| "chain_items [] ops = []"

definition chain_text :: "str list list \<Rightarrow> str list \<Rightarrow> str" where
  "chain_text segs ops = join '' '' (chain_items segs ops)"

definition simple_chain :: "str list list \<Rightarrow> str list \<Rightarrow> bool" where
  "simple_chain segs ops \<longleftrightarrow> length segs = Suc (length ops) \<and>
     list_all (\<lambda>seg. seg \<noteq> [] \<and> list_all simple_word seg) segs \<and> set ops \<subseteq> set segment_operators"

lemma operator_lexeme:
  "operator \<in> set segment_operators \<Longrightarrow> lexeme operator_chars operator \<and> clear operator"
  by (auto simp: segment_operators_def lexeme_def clear_def is_space_def)

lemma operator_not_plain: "operator \<in> set segment_operators \<Longrightarrow> \<not> plain operator_chars (hd operator)"
  by (auto simp: segment_operators_def plain_def)

lemma simple_wordD:
  assumes "simple_word w"
  shows "clear w" "lexeme operator_chars w" "lexeme ''<>'' w" "w \<notin> set segment_operators"
proof -
  show c: "clear w" using assms by (simp add: simple_word_def)
  show "lexeme operator_chars w" using assms by (simp add: simple_word_def lexeme_def clear_def)
  show "lexeme ''<>'' w" using assms by (simp add: simple_word_def lexeme_def clear_def plain_def)
  have "plain operator_chars (hd w)" using assms c by (simp add: simple_word_def clear_def)
  then show "w \<notin> set segment_operators" using operator_not_plain by blast
qed

lemma quiet_operators: "quiet operator_chars" "quiet ''<>''"
  by (auto simp: quiet_def lex_space_def lex_quote_def)

lemma chain_items_all:
  "simple_chain segs ops \<Longrightarrow> list_all (\<lambda>w. lexeme operator_chars w \<and> clear w) (chain_items segs ops)"
proof (induction segs ops rule: chain_items.induct)
  case (1 seg segs operator ops)
  then show ?case using simple_wordD operator_lexeme by (auto simp: simple_chain_def list_all_iff)
next
  case (2 segs)
  then show ?case using simple_wordD by (auto simp: simple_chain_def list_all_iff)
qed simp

lemma group_words:
  "list_all simple_word seg \<Longrightarrow> group_segments cur (seg @ ts) = group_segments (cur @ seg) ts"
proof (induction seg arbitrary: cur)
  case (Cons w seg)
  then show ?case using simple_wordD(4) [of w] by simp
qed simp

lemma group_chain: "simple_chain segs ops \<Longrightarrow> group_segments [] (chain_items segs ops) = segs"
proof (induction segs ops rule: chain_items.induct)
  case (1 seg segs operator ops)
  then show ?case by (auto simp: simple_chain_def group_words)
next
  case (2 segs)
  then obtain seg where "segs = [seg]" by (auto simp: simple_chain_def length_Suc_conv)
  then show ?case using 2 group_words [of seg "[]" "[]"] by (auto simp: simple_chain_def)
qed (simp add: simple_chain_def)

lemma split_chain:
  assumes "simple_chain segs ops"
  shows "split_command_segments (chain_text segs ops) = Inr (map (join '' '') segs)"
proof -
  have "tokens operator_chars (chain_text segs ops) = Inr (chain_items segs ops)"
    using chain_items_all [OF assms] quiet_operators(1) tokens_join [of operator_chars]
    by (simp add: chain_text_def list_all_iff)
  moreover have "strip (join '' '' seg) = join '' '' seg" if "seg \<in> set segs" for seg
    using that assms simple_wordD(1) strip_join [of seg] by (auto simp: simple_chain_def list_all_iff)
  ultimately show ?thesis
    using group_chain [OF assms] by (simp add: split_command_segments_def)
qed

lemma tokenize_simple: "list_all simple_word seg \<Longrightarrow> tokenize_segment (join '' '' seg) = Inr seg"
  using tokens_join [OF quiet_operators(2), of seg] simple_wordD(3) by (auto simp: tokenize_segment_def list_all_iff)

lemma map_ok_tokenize:
  "list_all (list_all simple_word) segs \<Longrightarrow> map_ok tokenize_segment (map (join '' '') segs) = Inr segs"
  by (induction segs) (simp_all add: tokenize_simple)
lemma chain_items_kinds:
  "simple_chain segs ops \<Longrightarrow> list_all (\<lambda>w. simple_word w \<or> w \<in> set segment_operators) (chain_items segs ops)"
  by (induction segs ops rule: chain_items.induct) (auto simp: simple_chain_def list_all_iff)

lemma operator_set: "operator \<in> set segment_operators \<Longrightarrow> set operator \<subseteq> set ''&|;''"
  by (auto simp: segment_operators_def)

lemma chain_chars:
  assumes "simple_chain segs ops" "c \<in> set (chain_text segs ops)"
  shows "c = CHR '' '' \<or> plain operator_chars c \<and> c \<notin> set ''`$'' \<or> c \<in> set ''&|;''"
proof -
  have join: "set (join '' '' ws) \<subseteq> insert (CHR '' '') (\<Union> (set ` set ws))" for ws
    by (induction "'' ''" ws rule: join.induct) auto
  show ?thesis
  proof (cases "c = CHR '' ''")
    case False
    then obtain w where w: "w \<in> set (chain_items segs ops)" "c \<in> set w"
      using join [of "chain_items segs ops"] assms(2) unfolding chain_text_def by blast
    then have "simple_word w \<or> w \<in> set segment_operators"
      using chain_items_kinds [OF assms(1)] by (simp add: list_all_iff)
    then show ?thesis using w(2) operator_set [of w] by (auto simp only: simple_word_def)
  qed simp
qed

lemma lone_plain:
  "\<forall>c \<in> set w. c \<noteq> CHR ''&'' \<Longrightarrow> lone_ampersand b (w @ s) = lone_ampersand (if w = [] then b else Some (last w)) s"
  by (induction w arbitrary: b) auto

lemma lone_item:
  assumes "simple_word w \<or> w \<in> set segment_operators" "b \<noteq> Some (CHR ''&'')" "s = [] \<or> hd s \<noteq> CHR ''&''"
  shows "lone_ampersand b (w @ s) = lone_ampersand (Some (last w)) s"
  using assms(1)
proof
  assume "simple_word w"
  then show ?thesis using lone_plain [of w b s] by (auto simp: simple_word_def clear_def plain_def)
qed (use assms in \<open>auto simp: segment_operators_def\<close>)

lemma lone_items:
  "list_all (\<lambda>w. simple_word w \<or> w \<in> set segment_operators) ws \<Longrightarrow> b \<noteq> Some (CHR ''&'') \<Longrightarrow>
     \<not> lone_ampersand b (join '' '' ws)"
proof (induction ws arbitrary: b)
  case (Cons w ws)
  show ?case
  proof (cases ws)
    case Nil
    then show ?thesis using Cons.prems lone_item [of w b "[]"] by simp
  next
    case (Cons v vs)
    then show ?thesis
      using Cons.prems Cons.IH [of "Some (CHR '' '')"] lone_item [of w b "CHR '' '' # join '' '' ws"] by simp
  qed
qed simp

lemma chain_no_operator:
  assumes "simple_chain segs ops" "operator \<in> set restricted_denied_operators"
  shows "\<not> sublist operator (chain_text segs ops)"
proof -
  have "hd operator \<in> set ''`$><''" "operator \<noteq> []" using assms(2) by (auto simp: restricted_denied_operators_def)
  moreover have "set ''`$><'' \<inter> set (chain_text segs ops) = {}"
    using chain_chars [OF assms(1)] by (auto simp: plain_def)
  moreover have "hd operator \<in> set (chain_text segs ops)" if "sublist operator (chain_text segs ops)" "operator \<noteq> []"
    using set_mono_sublist [OF that(1)] hd_in_set [OF that(2)] by (rule subsetD)
  ultimately show ?thesis by blast
qed

lemma chain_strip:
  assumes "simple_chain segs ops"
  shows "strip (chain_text segs ops) = chain_text segs ops" "chain_text segs ops \<noteq> []"
proof -
  have c: "list_all clear (chain_items segs ops)" using chain_items_all [OF assms] by (simp add: list_all_iff)
  have n: "chain_items segs ops \<noteq> []"
    using assms by (cases segs; cases ops) (auto simp: simple_chain_def)
  show "strip (chain_text segs ops) = chain_text segs ops" using strip_join [OF c] by (simp add: chain_text_def)
  show "chain_text segs ops \<noteq> []" using join_ends [OF n c] by (simp add: chain_text_def)
qed

lemma chain_unlisted:
  assumes "simple_chain segs ops"
  shows "list_ex (unlisted S) (map (join '' '') segs) \<longleftrightarrow>
    list_ex (\<lambda>seg. base_name (hd seg) \<notin> set (bs_whitelist S)) segs"
proof -
  have "words [] (join '' '' seg) = seg \<and> seg \<noteq> []" if "seg \<in> set segs" for seg
    using that assms simple_wordD(1) words_join [of seg] by (auto simp: simple_chain_def list_all_iff)
  then have "unlisted S (join '' '' seg) \<longleftrightarrow> base_name (hd seg) \<notin> set (bs_whitelist S)" if "seg \<in> set segs" for seg
    using that by (auto simp: unlisted_def command_of_segment_def split: list.split)
  then show ?thesis by (auto simp: list_ex_iff)
qed

lemma decode_plain: "bslash \<notin> set s \<Longrightarrow> decode_escapes s = s"
  by (induction s) auto

lemma chain_danger:
  assumes "simple_chain segs ops"
  shows "\<exists>danger. check_dangerous (chain_text segs ops) = Inr danger"
proof -
  have "bslash \<notin> set (chain_text segs ops)" using chain_chars [OF assms] by (auto simp: plain_def)
  then have "scan_variants (chain_text segs ops) = [chain_text segs ops]"
    using chain_strip(2) [OF assms] by (simp add: scan_variants_def decode_plain)
  moreover have "list_all (list_all simple_word) segs" using assms by (auto simp: simple_chain_def list_all_iff)
  ultimately show ?thesis
    using split_chain [OF assms] map_ok_tokenize [of segs]
    by (auto simp: check_dangerous_def invokes_eval_def split: option.split bool.split)
qed

lemma in_fold_dedupe:
  "x \<in> set (fold (\<lambda>g gs. if g \<in> set gs then gs else gs @ [g]) xs acc) \<longleftrightarrow> x \<in> set acc \<or> x \<in> set xs"
  by (induction xs arbitrary: acc) auto

lemma chain_grants:
  assumes "simple_chain segs ops" "seg \<in> set segs" "t \<in> set (extract_write_targets seg)"
    "grant_for resolve (write_roots resolve S) t = Some g"
  shows "\<exists>gs. collect_write_grants resolve S (chain_text segs ops) = Inr gs \<and> g \<in> set gs"
proof -
  have "list_all (list_all simple_word) segs" using assms(1) by (auto simp: simple_chain_def list_all_iff)
  then have tokens: "map_ok tokenize_segment (map (join '' '') segs) = Inr segs" by (rule map_ok_tokenize)
  have "g \<in> set (List.map_filter (grant_for resolve (write_roots resolve S)) (concat (map extract_write_targets segs)))"
    using assms(2-4) by (force simp: List.map_filter_def)
  then show ?thesis
    using split_chain [OF assms(1)] tokens by (simp add: collect_write_grants_def in_fold_dedupe)
qed

lemma operand_target:
  assumes "base_name (hd seg) \<in> set mutates_all_paths" "t \<in> set (tl seg)" "prefix ''/'' t"
  shows "t \<in> set (extract_write_targets seg)"
proof -
  obtain u args where "seg = u # args" using assms(2) by (cases seg) auto
  moreover have "\<not> is_option t \<and> t \<noteq> ''--''" using assms(3) by (cases t) (auto simp: is_option_def)
  ultimately show ?thesis using assms by (simp add: extract_write_targets_def command_targets_def operands_def)
qed

lemma grant_for_outside:
  assumes "clear t" "prefix ''/'' t" "\<not> is_exempt_target resolve t" "\<not> is_exempt_target resolve (path_text (resolve t))"
    "\<not> list_ex (path_within_root resolve (resolve t)) roots"
  shows "grant_for resolve roots t = Some (butlast (resolve t))"
proof -
  have "strip t = t" using strip_join [of "[t]"] assms(1) by simp
  moreover have "\<not> prefix ''~/'' t" using assms(2) by (auto simp: prefix_def)
  ultimately show ?thesis
    using assms by (simp add: grant_for_def resolve_candidate_path_def path_grant_prefix_def)
qed

section \<open>Properties\<close>

text \<open>Evaluation of the matcher, of the tokenizer and of the check on given commands.\<close>

lemmas rx_eval = pattern_hit_def dangerous_patterns_def rx_search_def word_rx_def to_shell_def opt_rx_def plus_rx_def
  sp_def sps_def sp1_def any_char_def not_blank_def range_rx_def word_char_def lower_def lower_char_def is_space_def jail_bypass_def
  eval_in_substitution_def
lemmas lex_eval = tokens_def lex.simps lex_space_def open_token_def emit_def lex_quote_def skip_line_def
  strip_def lstrip_def rstrip_def split_command_segments_def tokenize_segment_def segment_operators_def
lemmas check_eval = Let_def sublist_Cons_right check_def set_text_def check_restricted_def restricted_denied_operators_def unlisted_def
  command_of_segment_def base_name_def default_whitelist_def check_dangerous_def scan_variants_def invokes_eval_def
  check_full_def collect_write_grants_def extract_write_targets_def command_targets_def mutates_all_paths_def
  mutates_last_path_def redirect_operators_def redirect_match_def dots_def operands_def is_option_def
  map_filter_simps grant_for_def is_exempt_target_def resolve_candidate_path_def write_roots_def

text \<open>The default restricted settings, and those of a jailed workspace \<open>/w\<close> on a plain file system.\<close>

definition demo_security :: security where
  "demo_security = \<lparr>bs_whitelist = default_whitelist, bs_allow_restricted = True, bs_jail = Some ''/w'',
     bs_tmp = None, bs_extra = []\<rparr>"

definition plain_resolve :: "str \<Rightarrow> path" where
  "plain_resolve s = filter (\<lambda>c. c \<noteq> []) (split_on (CHR ''/'') s)"

definition sub_core :: "core_profile option" where
  "sub_core = Some (base_profile\<lparr>cp_mode := Sub\<rparr>)"

lemma unchecked_comment: "check resolve demo_security ''ls a#b; rm foo'' sub_core False = Inr allow"
  by (simp add: demo_security_def sub_core_def rx_eval lex_eval check_eval)

lemma unchecked_pipe: "check resolve demo_security ''ls |& rm foo'' sub_core False = Inr allow"
  by (simp add: demo_security_def sub_core_def rx_eval lex_eval check_eval)

lemma unchecked_line: "check resolve demo_security (''ls'' @ newline # ''rm x'') sub_core False = Inr allow"
  by (simp add: demo_security_def sub_core_def rx_eval lex_eval check_eval)

lemma unchecked_clobber: "check resolve demo_security ''ls >| /o'' None False = Inr allow"
  by (simp add: demo_security_def rx_eval lex_eval check_eval)

lemma unchecked_duplicate: "check resolve demo_security ''ls >& /o'' None False = Inr allow"
  by (simp add: demo_security_def rx_eval lex_eval check_eval)

lemma unchecked_runner: "check resolve demo_security ''env rm x'' sub_core False = Inr allow"
  by (simp add: demo_security_def sub_core_def rx_eval lex_eval check_eval)

lemma quote_in_quotes:
  "check resolve demo_security (dquote # ''x'' @ squote # ''x'' @ [dquote]) None confirmed =
     Inl (ValueError ''No closing quotation'')"
  by (simp add: demo_security_def rx_eval lex_eval check_eval)

text \<open>C15: In a restricted core the check judges a chain of simple commands by the first word of each of them: an unlisted command raises a question, a dangerous chain is refused, any other chain runs.\<close>

theorem restricted_chain_by_words:
  assumes "simple_chain segs ops" "cp_mode p = Sub" "bs_allow_restricted S"
    "set_text (bs_jail S) = None \<or> \<not> jail_bypass (chain_text segs ops)"
  shows "check resolve S (chain_text segs ops) (Some p) False =
    (if list_ex (\<lambda>seg. base_name (hd seg) \<notin> set (bs_whitelist S)) segs then Inr ask_unlisted
     else if check_dangerous (chain_text segs ops) = Inr None then Inr allow
     else Inr (deny ''COMMAND_DENIED''))"
proof -
  have "\<not> lone_ampersand None (chain_text segs ops)"
    using lone_items [OF chain_items_kinds [OF assms(1)]] by (simp add: chain_text_def)
  moreover have "\<not> (\<exists>operator \<in> set restricted_denied_operators. sublist operator (chain_text segs ops))"
    using chain_no_operator [OF assms(1)] by blast
  moreover have "segs \<noteq> []" using assms(1) by (auto simp: simple_chain_def)
  moreover obtain danger where "check_dangerous (chain_text segs ops) = Inr danger"
    using chain_danger [OF assms(1)] by blast
  ultimately show ?thesis
    using assms chain_strip [OF assms(1)] split_chain [OF assms(1)] chain_unlisted [OF assms(1)]
    by (auto simp: check_def Let_def check_restricted_def split: option.split)
qed

theorem restricted_chain_by_words_witness:
  "check plain_resolve demo_security ''ls | curl x'' sub_core False = Inr ask_unlisted"
  using restricted_chain_by_words [of "[[''ls''], [''curl'', ''x'']]" "[''|'']" "base_profile\<lparr>cp_mode := Sub\<rparr>" demo_security plain_resolve]
  by (simp add: simple_chain_def simple_word_def clear_def plain_def lex_eval rx_eval chain_text_def demo_security_def
    base_name_def default_whitelist_def sub_core_def set_text_def)


lemma demo_touch:
  "simple_chain [[''touch'', ''/o/f'']] []" "chain_text [[''touch'', ''/o/f'']] [] = ''touch /o/f''"
  "\<not> jail_bypass ''touch /o/f''" "base_name ''touch'' \<in> set mutates_all_paths"
  by (simp add: simple_chain_def simple_word_def clear_def plain_def is_space_def lex_space_def lex_quote_def,
      simp add: chain_text_def, simp add: rx_eval, simp add: base_name_def lower_def lower_char_def mutates_all_paths_def)

lemma demo_outside:
  "plain_resolve ''/o/f'' = [''o'', ''f'']" "\<not> is_exempt_target plain_resolve ''/o/f''"
  "path_text [''o'', ''f''] = ''/o/f''" "write_roots plain_resolve demo_security = [[''w'']]"
  "\<not> path_within_root plain_resolve [''o'', ''f''] [''w'']" "set_text (bs_jail demo_security) \<noteq> None"
  by (simp_all add: plain_resolve_def is_exempt_target_def strip_def lstrip_def rstrip_def is_space_def
      exempt_devices_def path_text_def write_roots_def set_text_def demo_security_def path_within_root_def)


text \<open>A one-off approval lifts questions only: where the check does not ask, the approval changes nothing, neither a refusal nor an error; and with the approval only a write outside the roots is still asked for.\<close>

theorem approval_lifts_only_questions:
  "(check resolve S command p True = check resolve S command p False \<or>
     (\<exists>v. check resolve S command p False = Inr v \<and> vd_action v = Ask)) \<and>
   \<not> (\<exists>v. check resolve S command p True = Inr v \<and> vd_action v = Ask \<and> vd_grants v = [])"
  by (auto simp: check_def Let_def check_restricted_def check_full_def ask_unlisted_def ask_approval_def allow_def deny_def
      split: sum.splits option.splits if_splits)
text \<open>What the tokenizer does not see is not checked: the rest of a line after a comment sign inside a word, the command after a newline, the one after the pipe |& and the one env runs are allowed in a restricted core, and the redirections >| and >& are no writes for the check.\<close>

theorem unseen_commands_allowed:
  "check resolve demo_security ''ls a#b; rm foo'' sub_core False = Inr allow \<and>
   check resolve demo_security ''ls |& rm foo'' sub_core False = Inr allow \<and>
   check resolve demo_security (''ls'' @ newline # ''rm x'') sub_core False = Inr allow \<and>
   check resolve demo_security ''env rm x'' sub_core False = Inr allow \<and>
   check resolve demo_security ''ls >| /o'' None False = Inr allow \<and>
   check resolve demo_security ''ls >& /o'' None False = Inr allow"
  by (simp only: unchecked_comment unchecked_pipe unchecked_line unchecked_runner unchecked_clobber unchecked_duplicate)

end
