(* ===== verification/Bash_Gate.thy ===== *)
theory Bash_Gate
  imports Bash_Security Perm_Broker Tool_Base
begin

text \<open>
  The gate in front of every shell command (\<open>BashTool._ensure_command_allowed\<close> in
  \<open>agent_core/tools/bash_tool.py\<close>) and the write roots it works with
  (\<open>merged_bash_write_root_paths\<close> in \<open>agent_core/agent/workspace_paths.py\<close>). It joins the
  check of the command, the licences for dangerous commands, the permission broker and the
  path grants a human gives.

  The host resolves paths; \<open>ge_memory_root\<close> is the memory directory of the owner, when
  there is one. What other sessions do while a request waits is left out.
\<close>

section \<open>Write roots\<close>

record gate_env =
  ge_resolve :: "str \<Rightarrow> path"
  ge_expanduser :: "str \<Rightarrow> str option"
  ge_host :: host
  ge_project :: path
  ge_extra_write_roots :: "str list"
  ge_memory_root :: "path option"
  ge_whitelist :: "str list"
  ge_allow_run :: bool
  ge_mount :: str
  ge_cwd :: "str option"
  ge_reason :: "path \<Rightarrow> str"

text \<open>\<open>Path(s).expanduser()\<close> fails without a home; the failure is not caught here.\<close>

fun configured_write_roots :: "gate_env \<Rightarrow> str list \<Rightarrow> py_exn + path list" where
  "configured_write_roots E [] = Inr []"
| "configured_write_roots E (e # es) =
     (let s = strip e
      in if s = [] then configured_write_roots E es
         else case ge_expanduser E s of
           None \<Rightarrow> Inl (RuntimeError ''Could not determine home directory.'')
         | Some p \<Rightarrow>
             (case configured_write_roots E es of
                Inl x \<Rightarrow> Inl x
              | Inr ps \<Rightarrow> Inr (ge_resolve E (if prefix ''/'' p then p else under_root (ge_project E) p) # ps)))"

definition add_new :: "'a \<Rightarrow> 'a list \<Rightarrow> 'a list" where
  "add_new x xs = (if x \<in> set xs then xs else xs @ [x])"

definition merged_write_roots :: "gate_env \<Rightarrow> str \<Rightarrow> str \<Rightarrow> acl_state \<Rightarrow> py_exn + path list" where
  "merged_write_roots E source user acl =
     (case configured_write_roots E (ge_extra_write_roots E) of
        Inl x \<Rightarrow> Inl x
      | Inr from_cfg \<Rightarrow>
          (case load_user_path_prefixes (h_resolve (ge_host E)) (h_acl_base (ge_host E)) source user ''write'' acl of
             Inl x \<Rightarrow> Inl x
           | Inr stored \<Rightarrow>
               (case list_ephemeral_path_prefixes source user ''write'' acl of
                  Inl x \<Rightarrow> Inl x
                | Inr ephemeral \<Rightarrow>
                    Inr (fold add_new (from_cfg @ map (ge_resolve E) stored @ map (ge_resolve E) ephemeral @
                      (case ge_memory_root E of None \<Rightarrow> [] | Some p \<Rightarrow> [p])) []))))"

section \<open>Sessions\<close>

record remote_state =
  rm_login :: str
  rm_resolved :: str
  rm_requested :: str
  rm_mount :: str

definition remote_jail_root :: "gate_env \<Rightarrow> remote_state \<Rightarrow> str option" where
  "remote_jail_root E r =
     (let raw = str_or (rm_resolved r) (rm_requested r)
      in if raw = [] then None
         else map_option (\<lambda>p. path_text (ge_resolve E p)) (ge_expanduser E raw))"

text \<open>\<open>s.replace(old, new)\<close> for a non-empty \<open>old\<close>.\<close>

function replace_all :: "str \<Rightarrow> str \<Rightarrow> str \<Rightarrow> str" where
  "replace_all old new [] = []"
| "replace_all old new (c # cs) =
     (if old \<noteq> [] \<and> prefix old (c # cs) then new @ replace_all old new (drop (length old) (c # cs))
      else c # replace_all old new cs)"
  by pat_completeness auto
termination
proof (relation "measure (\<lambda>(old, new, s). length s)")
  fix old new :: str and c cs
  assume "old \<noteq> [] \<and> prefix old (c # cs)"
  then have "0 < length old" by simp
  then show "((old, new, drop (length old) (c # cs)), (old, new, c # cs)) \<in> measure (\<lambda>(old, new, s). length s)" by simp
qed auto

definition normalize_command :: "gate_env \<Rightarrow> remote_state option \<Rightarrow> str \<Rightarrow> str" where
  "normalize_command E remote command =
     (case remote of None \<Rightarrow> command
      | Some r \<Rightarrow>
          (case remote_jail_root E r of
             None \<Rightarrow> command
           | Some jail \<Rightarrow> if jail \<noteq> [] \<and> sublist (ge_mount E) command then replace_all (ge_mount E) jail command else command))"

definition ctx_source :: "(str, pyval) dict \<Rightarrow> str" where
  "ctx_source ctx = py_str (py_or (py_get ctx ''source'') (PyStr ''cli''))"

definition ctx_user :: "(str, pyval) dict \<Rightarrow> str" where
  "ctx_user ctx = py_str (py_or (py_get ctx ''user_id'') (PyStr ''root''))"

text \<open>\<open>refresh_write_roots_from_config\<close> with the roots the configuration and the ACL give.\<close>

definition refresh_roots :: "gate_env \<Rightarrow> (str, pyval) dict \<Rightarrow> acl_state \<Rightarrow> security \<Rightarrow> py_exn + security" where
  "refresh_roots E ctx acl S =
     (if set_text (bs_jail S) = None then Inr S
      else case merged_write_roots E (ctx_source ctx) (ctx_user ctx) acl of
        Inl x \<Rightarrow> Inl x
      | Inr merged \<Rightarrow> Inr (refresh_write_roots (ge_resolve E) merged S))"

definition security_for :: "gate_env \<Rightarrow> (str, pyval) dict \<Rightarrow> remote_state option \<Rightarrow> acl_state \<Rightarrow> security \<Rightarrow> py_exn + security" where
  "security_for E ctx remote acl S =
     (case remote of
        Some r \<Rightarrow>
          Inr \<lparr>bs_whitelist = ge_whitelist E, bs_allow_restricted = ge_allow_run E,
               bs_jail = set_text (remote_jail_root E r), bs_tmp = None, bs_extra = []\<rparr>
      | None \<Rightarrow> refresh_roots E ctx acl S)"

definition resolve_profile :: "(str, pyval) dict \<Rightarrow> core_profile" where
  "resolve_profile ctx =
     (let mode = lower (py_str (py_or (py_get ctx ''profile_mode'') (PyStr ''full'')))
      in base_profile\<lparr>cp_mode := (if mode = ''sub'' then Sub else if mode = ''background'' then Background else Full),
           cp_allow_dangerous := truthy (py_get_or ctx ''allow_dangerous_commands'' (PyBool False))\<rparr>)"

section \<open>The request for permission\<close>

definition grant_request :: "gate_env \<Rightarrow> path \<Rightarrow> path_grant option" where
  "grant_request E p =
     from_payload (PyDict (to_payload \<lparr>pg_path_prefix = path_text p, pg_access_mode = Write, pg_reason = ge_reason E p\<rparr>))"

definition bash_permission_request :: "gate_env \<Rightarrow> (str, pyval) dict \<Rightarrow> str \<Rightarrow> verdict \<Rightarrow> bool \<Rightarrow> perm_request" where
  "bash_permission_request E ctx command v remote =
     \<lparr>rq_tool_name = ''bash'',
      rq_kind = (if vd_risks v \<noteq> [] then ''bash_dangerous_command'' else ''bash_write_outside_workspace''),
      rq_summary = [],
      rq_details = PyDict [(''command'', PyStr command), (''remote'', PyBool remote)],
      rq_command = Some command, rq_cwd = ge_cwd E,
      rq_risk_reasons = (if vd_risks v = [] \<and> vd_code v = ''WORKSPACE_WRITE_DENIED'' then [''write outside the workspace''] else vd_risks v),
      rq_path_grants = List.map_filter (grant_request E) (vd_grants v),
      rq_timeout_seconds = 300, rq_auto_execute = True, rq_exec_ctx = ctx\<rparr>"

text \<open>The broker's answer, from the outcome of the wait when there is one.\<close>

definition ask_broker :: "gate_env \<Rightarrow> bool \<Rightarrow> str \<Rightarrow> perm_request \<Rightarrow> outcome \<Rightarrow> 'h broker_state \<Rightarrow> broker_result option \<times> 'h broker_state" where
  "ask_broker E loop new_id rq out s =
     (case broker_begin (ge_host E) loop new_id rq s of
        (Returned r, s') \<Rightarrow> (Some r, s')
      | (Awaiting pid _ _ _ _, s') \<Rightarrow> broker_finish (ge_host E) pid rq out s')"

definition path_parts :: "str \<Rightarrow> path" where
  "path_parts s = filter (\<lambda>c. c \<noteq> [] \<and> c \<noteq> ''.'') (split_on (CHR ''/'') s)"

definition add_applied :: "path_grant list \<Rightarrow> security \<Rightarrow> security" where
  "add_applied gs S =
     S\<lparr>bs_extra := bs_extra S @ map (path_parts \<circ> pg_path_prefix) (filter (\<lambda>g. pg_access_mode g = Write) gs)\<rparr>"

section \<open>The gate\<close>

record 'h gate_state =
  gt_security :: security
  gt_licences :: danger_grants
  gt_broker :: "'h broker_state"

datatype gate_answer = Raised py_exn | Wait_Cancelled | Stopped tool_result | Go

definition refusal :: "str \<Rightarrow> verdict \<Rightarrow> tool_result" where
  "refusal command v =
     (failed (str_or (vd_code v) ''PERMISSION_DENIED'') [])
       \<lparr>tr_data := PyDict [(''denied_command'', PyStr command), (''risk_reasons'', PyList (map PyStr (vd_risks v))),
          (''path_grants'', PyList (map (\<lambda>p. PyStr (path_text p)) (vd_grants v)))]\<rparr>"

definition permission_failure :: "str \<Rightarrow> broker_result \<Rightarrow> tool_result" where
  "permission_failure command r =
     (failed (str_or (opt_str (br_error r)) ''PERMISSION_DENIED'') [])
       \<lparr>tr_data := PyDict [(''command'', PyStr command), (''permission_id'', PyStr (br_permission_id r)),
          (''user_instruction'', PyStr (br_user_instruction r))]\<rparr>"

definition final_answer :: "str \<Rightarrow> verdict \<Rightarrow> gate_answer" where
  "final_answer command v = (if vd_action v = Allow then Go else Stopped (refusal command v))"

text \<open>After an approval: the new write roots and the second check.\<close>

definition recheck :: "gate_env \<Rightarrow> (str, pyval) dict \<Rightarrow> str \<Rightarrow> str \<Rightarrow> acl_state \<Rightarrow> path_grant list \<Rightarrow> security \<Rightarrow> gate_answer \<times> security" where
  "recheck E ctx command checked acl applied S =
     (case refresh_roots E ctx acl (add_applied applied S) of
        Inl x \<Rightarrow> (Raised x, add_applied applied S)
      | Inr S' \<Rightarrow>
          (case check (ge_resolve E) S' checked (Some (resolve_profile ctx)) True of
             Inl x \<Rightarrow> (Raised x, S')
           | Inr v \<Rightarrow> (final_answer command v, S')))"

definition held_licence :: "(str, pyval) dict \<Rightarrow> str \<Rightarrow> danger_grants \<Rightarrow> bool \<times> danger_grants" where
  "held_licence kwargs checked g =
     (let pid = (if py_get kwargs ''permission_id'' = PyNone then [] else strip (py_str (py_get kwargs ''permission_id'')))
      in if pid = [] then (False, g) else consume_bash_danger_grant (Some pid) checked g)"

text \<open>For a remote session the security object is made for the call and dropped afterwards.\<close>

definition ensure_command_allowed ::
  "gate_env \<Rightarrow> bool \<Rightarrow> str \<Rightarrow> (str, pyval) dict \<Rightarrow> (str, pyval) dict \<Rightarrow> remote_state option \<Rightarrow> outcome \<Rightarrow> str \<Rightarrow>
     'h gate_state \<Rightarrow> gate_answer \<times> 'h gate_state" where
  "ensure_command_allowed E loop new_id ctx kwargs remote out command s =
     (let checked = normalize_command E remote command;
          (confirmed, licences) = held_licence kwargs checked (gt_licences s);
          s1 = s\<lparr>gt_licences := licences\<rparr>;
          keep = (\<lambda>S t. if remote = None then t\<lparr>gt_security := S\<rparr> else t)
      in case security_for E ctx remote (bs_acl (gt_broker s)) (gt_security s) of
        Inl x \<Rightarrow> (Raised x, s1)
      | Inr S \<Rightarrow>
          (case check (ge_resolve E) S checked (Some (resolve_profile ctx)) confirmed of
             Inl x \<Rightarrow> (Raised x, keep S s1)
           | Inr v \<Rightarrow>
               if vd_action v \<noteq> Ask then (final_answer command v, keep S s1)
               else case ask_broker E loop new_id (bash_permission_request E ctx checked v (remote \<noteq> None)) out (gt_broker s) of
                 (None, b) \<Rightarrow> (Wait_Cancelled, keep S (s1\<lparr>gt_broker := b\<rparr>))
               | (Some r, b) \<Rightarrow>
                   if \<not> br_allowed r then (Stopped (permission_failure command r), keep S (s1\<lparr>gt_broker := b\<rparr>))
                   else (case recheck E ctx command checked (bs_acl b) (br_applied_grants r) S of
                     (a, S') \<Rightarrow> (a, keep S' (s1\<lparr>gt_broker := b\<rparr>)))))"

section \<open>Laws\<close>

lemma owner_same:
  "load_user_path_prefixes r base (ctx_source ctx) (ctx_user ctx) m st =
     load_user_path_prefixes r base (fst (source_user ctx)) (snd (source_user ctx)) m st"
  "list_ephemeral_path_prefixes (ctx_source ctx) (ctx_user ctx) m st =
     list_ephemeral_path_prefixes (fst (source_user ctx)) (snd (source_user ctx)) m st"
proof -
  have idem: "str_or (strip (str_or (strip x) ''cli'')) ''cli'' = str_or (strip x) ''cli''"
    "str_or (strip (str_or (strip x) ''root'')) ''root'' = str_or (strip x) ''root''" for x :: str
    by (simp_all add: str_or_def)
  have "acl_path base (ctx_source ctx) (ctx_user ctx) k = acl_path base (fst (source_user ctx)) (snd (source_user ctx)) k"
    "grant_key (ctx_source ctx) (ctx_user ctx) = grant_key (fst (source_user ctx)) (snd (source_user ctx))" for k
    unfolding acl_path_def grant_key_def source_user_def ctx_source_def ctx_user_def fst_conv snd_conv idem by simp_all
  then show
    "load_user_path_prefixes r base (ctx_source ctx) (ctx_user ctx) m st =
       load_user_path_prefixes r base (fst (source_user ctx)) (snd (source_user ctx)) m st"
    "list_ephemeral_path_prefixes (ctx_source ctx) (ctx_user ctx) m st =
       list_ephemeral_path_prefixes (fst (source_user ctx)) (snd (source_user ctx)) m st"
    by (simp_all add: load_user_path_prefixes_def list_ephemeral_path_prefixes_def split: sum.split)
qed

lemma set_add_new: "set (add_new x xs) = insert x (set xs)"
  by (auto simp: add_new_def)

lemma set_fold_add_new: "set (fold add_new xs acc) = set acc \<union> set xs"
  by (induction xs arbitrary: acc) (auto simp: set_add_new)

text \<open>The roots of a user are those of the configuration and what was granted.\<close>

lemma merged_roots_granted:
  assumes "merged_write_roots E (ctx_source ctx) (ctx_user ctx) acl = Inr ps"
  shows "\<exists>from_cfg. configured_write_roots E (ge_extra_write_roots E) = Inr from_cfg \<and>
    set ps = set from_cfg \<union> ge_resolve E ` granted_at (ge_host E) (source_user ctx) Write acl \<union> set_option (ge_memory_root E)"
  using assms unfolding merged_write_roots_def owner_same granted_def
  by (auto simp: set_fold_add_new set_add_new split: sum.splits option.splits)

lemma merged_roots_total:
  assumes "merged_write_roots E (ctx_source ctx) (ctx_user ctx) acl = Inr ps"
  shows "\<exists>qs. merged_write_roots E (ctx_source ctx) (ctx_user ctx) acl' = Inr qs"
proof -
  obtain m where "normalize_mode ''write'' = Inr m" "configured_write_roots E (ge_extra_write_roots E) \<noteq> Inl e" for e
    using assms normalize_mode_str [of Write] by (auto simp: merged_write_roots_def split: sum.splits)
  then show ?thesis using assms
    by (auto simp: merged_write_roots_def load_user_path_prefixes_def list_ephemeral_path_prefixes_def split: sum.splits option.splits)
qed

lemma broker_allows:
  assumes "ask_broker E loop nid rq out s = (Some r, s')" "br_allowed r"
  shows "bypass_enabled (rq_exec_ctx rq) \<or> approved out"
proof (rule ccontr)
  assume n: "\<not> ?thesis"
  obtain fut w where "register_permission_wait nid (bs_waits s) = (fut, w)" by fastforce
  with n obtain pid f t p nt s1 where "broker_begin (ge_host E) loop nid rq s = (Awaiting pid f t p nt, s1)"
    by (auto simp: broker_begin_def Let_def)
  then have "broker_finish (ge_host E) pid rq out s1 = (Some r, s')" using assms(1) by (simp add: ask_broker_def)
  then show False using broker_finish_unapproved n assms(2) by blast
qed

section \<open>What an approval changes\<close>

text \<open>
  What the host's resolution does: the ancestors of a resolved path are resolved, and the
  resolution the broker stores is the one of the tool.
\<close>

definition disk_ok :: "gate_env \<Rightarrow> bool" where
  "disk_ok E \<longleftrightarrow> host_ok (ge_host E) \<and>
     (\<forall>t q. h_resolve (ge_host E) t = Some q \<longrightarrow> ge_resolve E q = ge_resolve E t) \<and>
     (\<forall>t n. ge_resolve E (path_text (take n (ge_resolve E t))) = take n (ge_resolve E t))"

lemma disk_okD:
  assumes "disk_ok E"
  shows "h_resolve (ge_host E) t = Some q \<Longrightarrow> ge_resolve E q = ge_resolve E t"
    "ge_resolve E (path_text (take n (ge_resolve E t))) = take n (ge_resolve E t)"
    "ge_resolve E (path_text (ge_resolve E t)) = ge_resolve E t"
    "ge_resolve E (path_text (butlast (ge_resolve E t))) = butlast (ge_resolve E t)"
proof -
  show a: "ge_resolve E (path_text (take n (ge_resolve E t))) = take n (ge_resolve E t)" for n
    using assms by (simp add: disk_ok_def)
  show "ge_resolve E (path_text (ge_resolve E t)) = ge_resolve E t"
    using a [of "length (ge_resolve E t)"] by simp
  show "ge_resolve E (path_text (butlast (ge_resolve E t))) = butlast (ge_resolve E t)"
    using a [of "length (ge_resolve E t) - 1"] by (simp add: butlast_conv_take)
qed (use assms in \<open>simp add: disk_ok_def\<close>)

lemma grant_for_roots:
  assumes "disk_ok E" "hd roots' = hd roots"
    "\<And>p. p \<in> set roots \<Longrightarrow> \<exists>p' \<in> set roots'. ge_resolve E (path_text p') = ge_resolve E (path_text p)"
    "\<And>g. grant_for (ge_resolve E) roots t = Some g \<Longrightarrow> \<exists>p' \<in> set roots'. ge_resolve E (path_text p') = g"
  shows "grant_for (ge_resolve E) roots' t = None"
proof (cases "is_exempt_target (ge_resolve E) t \<or> resolve_candidate_path (ge_resolve E) t (hd roots) = None")
  case True
  then show ?thesis using assms(2) by (auto simp: grant_for_def)
next
  case False
  then obtain c where c: "resolve_candidate_path (ge_resolve E) t (hd roots) = Some c" by auto
  then obtain x where x: "c = ge_resolve E x"
    by (auto simp: resolve_candidate_path_def Let_def split: if_splits)
  have "list_ex (path_within_root (ge_resolve E) c) roots'" if "\<not> is_exempt_target (ge_resolve E) (path_text c)"
  proof (cases "list_ex (path_within_root (ge_resolve E) c) roots")
    case True
    then obtain p where p: "p \<in> set roots" "path_within_root (ge_resolve E) c p" by (auto simp: list_ex_iff)
    then obtain p' where "p' \<in> set roots'" "ge_resolve E (path_text p') = ge_resolve E (path_text p)" using assms(3) by blast
    then show ?thesis using p(2) unfolding list_ex_iff path_within_root_def by (intro bexI [of _ p']) simp_all
  next
    case False
    then have "grant_for (ge_resolve E) roots t = Some (butlast c)"
      using that c \<open>\<not> (is_exempt_target (ge_resolve E) t \<or> _)\<close> by (simp add: grant_for_def path_grant_prefix_def)
    then obtain p' where "p' \<in> set roots'" "ge_resolve E (path_text p') = butlast c" using assms(4) by blast
    then show ?thesis
      using disk_okD(3) [OF assms(1), of x] unfolding list_ex_iff path_within_root_def x
      by (intro bexI [of _ p']) (simp_all add: prefixeq_butlast)
  qed
  then show ?thesis using assms(2) c by (auto simp: grant_for_def)
qed

lemma collect_nothing:
  assumes "collect_write_grants resolve S command = Inr gs"
    "\<And>t. (\<And>g. grant_for resolve (write_roots resolve S) t = Some g \<Longrightarrow> g \<in> set gs) \<Longrightarrow> grant_for resolve (write_roots resolve S') t = None"
  shows "collect_write_grants resolve S' command = Inr []"
proof -
  obtain segments tss where s: "split_command_segments command = Inr segments" "map_ok tokenize_segment segments = Inr tss"
    using assms(1) by (auto simp: collect_write_grants_def split: sum.splits)
  let ?ts = "concat (map extract_write_targets tss)"
  have gs: "set gs = set (List.map_filter (grant_for resolve (write_roots resolve S)) ?ts)"
    using assms(1) s by (auto simp: collect_write_grants_def in_fold_dedupe)
  have "grant_for resolve (write_roots resolve S') t = None" if "t \<in> set ?ts" for t
    using that by (intro assms(2)) (force simp: gs List.map_filter_def)
  then have "List.map_filter (grant_for resolve (write_roots resolve S')) ?ts = []"
    by (auto simp: List.map_filter_def filter_empty_conv)
  then show ?thesis by (simp add: collect_write_grants_def s)
qed

lemma refreshed_roots:
  assumes "refresh_roots E ctx acl S = Inr S'" "set_text (bs_jail S) \<noteq> None"
  shows "bs_jail S' = bs_jail S" "bs_tmp S' = bs_tmp S"
    "hd (write_roots (ge_resolve E) S') = hd (write_roots (ge_resolve E) S)"
    "\<exists>ps. merged_write_roots E (ctx_source ctx) (ctx_user ctx) acl = Inr ps \<and>
      set (write_roots (ge_resolve E) S') =
        set (write_roots (ge_resolve E) (S\<lparr>bs_extra := []\<rparr>)) \<union> (\<lambda>p. ge_resolve E (path_text p)) ` set ps"
proof -
  obtain jail where j: "bs_jail S = Some jail" "set_text (Some jail) = Some jail"
    using assms(2) by (auto simp: set_text_def split: option.splits if_splits)
  obtain ps where ps: "merged_write_roots E (ctx_source ctx) (ctx_user ctx) acl = Inr ps"
    "S' = refresh_write_roots (ge_resolve E) ps S"
    using assms by (auto simp: refresh_roots_def j split: sum.splits)
  then show "bs_jail S' = bs_jail S" "bs_tmp S' = bs_tmp S"
    "hd (write_roots (ge_resolve E) S') = hd (write_roots (ge_resolve E) S)"
    by (simp_all add: refresh_write_roots_def j write_roots_def)
  have "set (write_roots (ge_resolve E) S') =
      set (write_roots (ge_resolve E) (S\<lparr>bs_extra := []\<rparr>)) \<union> (\<lambda>p. ge_resolve E (path_text p)) ` set ps"
    by (auto simp: ps(2) refresh_write_roots_def j write_roots_def split: option.split)
  then show "\<exists>ps. merged_write_roots E (ctx_source ctx) (ctx_user ctx) acl = Inr ps \<and>
      set (write_roots (ge_resolve E) S') =
        set (write_roots (ge_resolve E) (S\<lparr>bs_extra := []\<rparr>)) \<union> (\<lambda>p. ge_resolve E (path_text p)) ` set ps"
    using ps(1) by blast
qed

text \<open>What a request that was allowed with its own grants leaves behind.\<close>

lemma own_grants_applied:
  assumes "ask_broker E loop nid rq out s = (Some r, s')" "br_allowed r"
    "bypass_enabled (rq_exec_ctx rq) \<or> (\<forall>d. out = Decided d \<longrightarrow> d_path_grants d = None)"
  shows "\<exists>persist gs ns. apply_grants (ge_host E) (source_user (rq_exec_ctx rq)) persist gs (bs_acl s) = (Inr ns, bs_acl s') \<and>
    set (rq_path_grants rq) \<subseteq> set gs"
proof (cases "bypass_enabled (rq_exec_ctx rq)")
  case True
  then have "broker_begin (ge_host E) loop nid rq s =
      (case bypass_request (ge_host E) nid rq (bs_acl s) of (r, acl) \<Rightarrow> (Returned r, s\<lparr>bs_acl := acl\<rparr>))"
    by (simp add: broker_begin_def)
  then show ?thesis
    using assms(1,2) by (fastforce simp: ask_broker_def bypass_request_def blank_result_def apply_path_grants_eq
        split: prod.splits sum.splits)
next
  case False
  obtain fut w where w: "register_permission_wait nid (bs_waits s) = (fut, w)" by fastforce
  then have fin: "broker_finish (ge_host E) nid rq out (s\<lparr>bs_waits := w\<rparr>) = (Some r, s')"
    using False assms(1) by (simp add: ask_broker_def broker_begin_def Let_def)
  have ap: "approved out" using broker_allows [OF assms(1,2)] False by blast
  then obtain d where d: "out = Decided d" "d_path_grants d = None"
    using False assms(3) by (cases out) (auto simp: approved_def)
  have "set (rq_path_grants rq) \<subseteq> set (path_grants_from d rq)" by (simp add: path_grants_from_def d(2) Let_def)
  moreover obtain q where "apply_grants (ge_host E) (source_user (rq_exec_ctx rq)) (human_persists out) (path_grants_from d rq) (bs_acl s) = (q, bs_acl s')"
    "q = Inr (br_applied_grants r)"
    using broker_finish_approved [OF ap fin] assms(2) d(1) by auto
  ultimately show ?thesis by blast
qed

lemma asked_grants:
  assumes "\<forall>g \<in> set (vd_grants v). strip (path_text g) = path_text g"
  shows "map (\<lambda>g. (pg_path_prefix g, pg_access_mode g)) (rq_path_grants (bash_permission_request E ctx command v remote)) =
    map (\<lambda>g. (path_text g, Write)) (vd_grants v)"
proof -
  have "grant_request E g = Some \<lparr>pg_path_prefix = path_text g, pg_access_mode = Write, pg_reason = strip (ge_reason E g)\<rparr>"
    if "g \<in> set (vd_grants v)" for g
    using assms that by (simp add: grant_request_def from_to_payload) (simp add: path_text_def)
  then have "List.map_filter (grant_request E) (vd_grants v) =
      map (\<lambda>g. \<lparr>pg_path_prefix = path_text g, pg_access_mode = Write, pg_reason = strip (ge_reason E g)\<rparr>) (vd_grants v)"
    by (simp add: List.map_filter_def filter_id_conv)
  then show ?thesis by (simp add: bash_permission_request_def comp_def)
qed

lemma check_asks:
  assumes "check resolve S command p c = Inr v" "vd_action v = Ask" "(case p of None \<Rightarrow> Full | Some p \<Rightarrow> cp_mode p) \<noteq> Sub"
    "set_text (bs_jail S) \<noteq> None"
  shows "collect_write_grants resolve S (strip command) = Inr (vd_grants v)"
    "collect_write_grants resolve S' (strip command) = Inr [] \<Longrightarrow> bs_jail S' = bs_jail S \<Longrightarrow>
      check resolve S' command p True = Inr allow"
  using assms by (auto simp: check_def Let_def check_full_def ask_approval_def deny_def allow_def split: if_splits sum.splits)

lemma resolved_grants:
  assumes "disk_ok E" "collect_write_grants (ge_resolve E) S command = Inr gs" "g \<in> set gs"
  shows "ge_resolve E (path_text g) = g"
proof -
  obtain t where "grant_for (ge_resolve E) (write_roots (ge_resolve E) S) t = Some g"
    using assms(2,3) by (auto simp: collect_write_grants_def in_fold_dedupe List.map_filter_def split: sum.splits)
  then obtain x where "g = butlast (ge_resolve E x)"
    by (auto simp: grant_for_def path_grant_prefix_def resolve_candidate_path_def Let_def split: if_splits option.splits)
  then show ?thesis using disk_okD(4) [OF assms(1)] by simp
qed

text \<open>The roots after the grants \<open>gs\<close> were applied to the user's list.\<close>

lemma granted_roots:
  assumes ok: "disk_ok E" and jail: "set_text (bs_jail S0) \<noteq> None"
    and before: "refresh_roots E ctx acl S0 = Inr S" and after: "refresh_roots E ctx acl' S1 = Inr S'"
    and S1: "bs_jail S1 = bs_jail S0" "bs_tmp S1 = bs_tmp S0"
    and grants: "apply_grants (ge_host E) (source_user ctx) persist rs acl = (Inr ns, acl')"
    and g: "\<forall>g \<in> set gs. ge_resolve E (path_text g) = g \<and> (path_text g, Write) \<in> (\<lambda>g. (pg_path_prefix g, pg_access_mode g)) ` set rs"
  shows "hd (write_roots (ge_resolve E) S') = hd (write_roots (ge_resolve E) S)"
    "set (write_roots (ge_resolve E) S) \<subseteq> set (write_roots (ge_resolve E) S')"
    "set gs \<subseteq> set (write_roots (ge_resolve E) S')"
proof -
  let ?R = "ge_resolve E"
  obtain ps where ps: "merged_write_roots E (ctx_source ctx) (ctx_user ctx) acl = Inr ps"
    "set (write_roots ?R S) = set (write_roots ?R (S0\<lparr>bs_extra := []\<rparr>)) \<union> (\<lambda>p. ?R (path_text p)) ` set ps"
    using refreshed_roots(4) [OF before jail] by blast
  have jail1: "set_text (bs_jail S1) \<noteq> None" using jail S1 by simp
  obtain qs where qs: "merged_write_roots E (ctx_source ctx) (ctx_user ctx) acl' = Inr qs"
    "set (write_roots ?R S') = set (write_roots ?R (S1\<lparr>bs_extra := []\<rparr>)) \<union> (\<lambda>p. ?R (path_text p)) ` set qs"
    using refreshed_roots(4) [OF after jail1] by blast
  have base: "write_roots ?R (S1\<lparr>bs_extra := []\<rparr>) = write_roots ?R (S0\<lparr>bs_extra := []\<rparr>)"
    by (simp add: write_roots_def S1)
  have host: "host_ok (ge_host E)" using ok by (simp add: disk_ok_def)
  have own: "map (\<lambda>g. h_resolve (ge_host E) (pg_path_prefix g)) rs = map (\<lambda>n. Some (pg_path_prefix n)) ns"
    "map pg_access_mode ns = map pg_access_mode rs"
    "granted_at (ge_host E) (source_user ctx) Write acl' =
       granted_at (ge_host E) (source_user ctx) Write acl \<union> pg_path_prefix ` {n \<in> set ns. pg_access_mode n = Write}"
    using apply_grants_own [OF host grants, where m = Write] by blast+
  obtain c where c: "configured_write_roots E (ge_extra_write_roots E) = Inr c"
    "set ps = set c \<union> ?R ` granted_at (ge_host E) (source_user ctx) Write acl \<union> set_option (ge_memory_root E)"
    using merged_roots_granted [OF ps(1)] by blast
  obtain c2 where c2: "configured_write_roots E (ge_extra_write_roots E) = Inr c2"
    "set qs = set c2 \<union> ?R ` granted_at (ge_host E) (source_user ctx) Write acl' \<union> set_option (ge_memory_root E)"
    using merged_roots_granted [OF qs(1)] by blast
  have "c2 = c" using c(1) c2(1) by simp
  note c' = c2(2) [unfolded this]
  have "set ps \<subseteq> set qs" unfolding c(2) c' own(3) by blast
  then show "set (write_roots ?R S) \<subseteq> set (write_roots ?R S')"
    unfolding ps(2) qs(2) base by (intro Un_mono image_mono) simp_all
  have "g \<in> (\<lambda>p. ?R (path_text p)) ` set qs" if "g \<in> set gs" for g
  proof -
    have "(path_text g, Write) \<in> (\<lambda>g. (pg_path_prefix g, pg_access_mode g)) ` set rs" using g that by blast
    then obtain q where q: "q \<in> set rs" "pg_path_prefix q = path_text g" "pg_access_mode q = Write" by auto
    then obtain i where i: "i < length rs" "rs ! i = q" by (auto simp only: in_set_conv_nth)
    have len: "length ns = length rs" using arg_cong [OF own(2), of length] by simp
    have n: "h_resolve (ge_host E) (path_text g) = Some (pg_path_prefix (ns ! i))" "pg_access_mode (ns ! i) = Write"
      using arg_cong [OF own(1), of "\<lambda>l. l ! i"] arg_cong [OF own(2), of "\<lambda>l. l ! i"] len i q(2,3) by simp_all
    then have "pg_path_prefix (ns ! i) \<in> granted_at (ge_host E) (source_user ctx) Write acl'"
      unfolding own(3) using i(1) len nth_mem [of i ns] by simp
    moreover have "?R (pg_path_prefix (ns ! i)) = g" using disk_okD(1) [OF ok n(1)] g that by simp
    ultimately have "g \<in> set qs" unfolding c' by blast
    then show ?thesis using g that by (intro image_eqI [of _ _ g]) simp_all
  qed
  then show "set gs \<subseteq> set (write_roots ?R S')" unfolding qs(2) by blast
  show "hd (write_roots ?R S') = hd (write_roots ?R S)"
    using refreshed_roots(1,3) [OF before jail] refreshed_roots(1,3) [OF after jail1] S1 by (simp add: write_roots_def)
qed

section \<open>Properties\<close>


text \<open>C11: A command that was asked about because it writes outside the roots runs once its request is allowed with the grants it asked for: the second check finds every target below a granted directory, and asks nothing more.\<close>

theorem approved_write_passes:
  assumes ok: "disk_ok E" and jail: "set_text (bs_jail (gt_security s)) \<noteq> None"
    and mode: "cp_mode (resolve_profile ctx) \<noteq> Sub"
    and asks: "refresh_roots E ctx (bs_acl (gt_broker s)) (gt_security s) = Inr S"
      "check (ge_resolve E) S command (Some (resolve_profile ctx)) (fst (held_licence kwargs command (gt_licences s))) = Inr v"
      "vd_action v = Ask" "\<forall>g \<in> set (vd_grants v). strip (path_text g) = path_text g"
    and allowed: "ask_broker E loop nid (bash_permission_request E ctx command v False) out (gt_broker s) = (Some r, b)" "br_allowed r"
    and own: "bypass_enabled ctx \<or> (\<forall>d. out = Decided d \<longrightarrow> d_path_grants d = None)"
  shows "fst (ensure_command_allowed E loop nid ctx kwargs None out command s) = Go"
proof -
  let ?R = "ge_resolve E" and ?rq = "bash_permission_request E ctx command v False" and ?acl = "bs_acl (gt_broker s)"
  let ?S1 = "add_applied (br_applied_grants r) S"
  obtain jl where j: "bs_jail (gt_security s) = Some jl" "set_text (Some jl) = Some jl"
    using jail by (auto simp: set_text_def split: option.splits if_splits)
  note same = refreshed_roots(1,2) [OF asks(1) jail]
  have jS: "set_text (bs_jail S) \<noteq> None" using jail same by simp
  note gs = check_asks [OF asks(2,3) _ jS, simplified, OF mode]
  obtain persist rs ns where grants: "apply_grants (ge_host E) (source_user ctx) persist rs ?acl = (Inr ns, bs_acl b)"
    "set (rq_path_grants ?rq) \<subseteq> set rs"
    using own_grants_applied [OF allowed] own by (auto simp: bash_permission_request_def)
  have g: "\<forall>g \<in> set (vd_grants v). ?R (path_text g) = g \<and>
      (path_text g, Write) \<in> (\<lambda>g. (pg_path_prefix g, pg_access_mode g)) ` set rs"
  proof
    fix g assume "g \<in> set (vd_grants v)"
    moreover from this have "(path_text g, Write) \<in> (\<lambda>g. (pg_path_prefix g, pg_access_mode g)) ` set (rq_path_grants ?rq)"
      using arg_cong [OF asked_grants [OF asks(4), of E ctx command False], of set] by (simp add: image_iff) metis
    ultimately show "?R (path_text g) = g \<and> (path_text g, Write) \<in> (\<lambda>g. (pg_path_prefix g, pg_access_mode g)) ` set rs"
      using resolved_grants [OF ok gs(1)] grants(2) by blast
  qed
  obtain ps where "merged_write_roots E (ctx_source ctx) (ctx_user ctx) ?acl = Inr ps"
    using refreshed_roots(4) [OF asks(1) jail] by blast
  then obtain qs where qs: "merged_write_roots E (ctx_source ctx) (ctx_user ctx) (bs_acl b) = Inr qs"
    using merged_roots_total by blast
  have S1: "bs_jail ?S1 = bs_jail (gt_security s)" "bs_tmp ?S1 = bs_tmp (gt_security s)"
    using same by (simp_all add: add_applied_def)
  obtain S' where S': "refresh_roots E ctx (bs_acl b) ?S1 = Inr S'"
    using qs by (cases "set_text (bs_jail ?S1) = None") (auto simp: refresh_roots_def)
  note roots = granted_roots [OF ok jail asks(1) S' S1 grants(1) g]
  have "collect_write_grants ?R S' (strip command) = Inr []"
  proof (rule collect_nothing [OF gs(1)])
    fix t assume t: "\<And>g. grant_for ?R (write_roots ?R S) t = Some g \<Longrightarrow> g \<in> set (vd_grants v)"
    show "grant_for ?R (write_roots ?R S') t = None"
    proof (rule grant_for_roots [OF ok roots(1)])
      show "\<exists>p' \<in> set (write_roots ?R S'). ?R (path_text p') = ?R (path_text p)" if "p \<in> set (write_roots ?R S)" for p
        using that roots(2) by blast
      show "\<exists>p' \<in> set (write_roots ?R S'). ?R (path_text p') = g" if "grant_for ?R (write_roots ?R S) t = Some g" for g
        using t [OF that] roots(3) g by blast
    qed
  qed
  moreover have "bs_jail S' = bs_jail S" using refreshed_roots(1) [OF S'] S1 jail same by simp
  ultimately have "check ?R S' command (Some (resolve_profile ctx)) True = Inr allow" by (rule gs(2))
  then have "fst (recheck E ctx command command (bs_acl b) (br_applied_grants r) S) = Go"
    by (simp add: recheck_def S' final_answer_def allow_def)
  moreover have "security_for E ctx None ?acl (gt_security s) = Inr S" using asks(1) by (simp add: security_for_def)
  moreover obtain c lic where "held_licence kwargs command (gt_licences s) = (c, lic)" by fastforce
  ultimately show ?thesis
    using asks(2,3) allowed
    by (cases "recheck E ctx command command (bs_acl b) (br_applied_grants r) S")
      (simp add: ensure_command_allowed_def normalize_command_def Let_def)
qed

section \<open>Witnesses\<close>

definition demo_gate_env :: gate_env where
  "demo_gate_env = \<lparr>ge_resolve = plain_resolve, ge_expanduser = Some, ge_host = demo_host, ge_project = [''p''],
     ge_extra_write_roots = [], ge_memory_root = None, ge_whitelist = default_whitelist, ge_allow_run = True,
     ge_mount = ''/workspace'', ge_cwd = None, ge_reason = (\<lambda>_. [])\<rparr>"

definition demo_gate :: "nat gate_state" where
  "demo_gate = \<lparr>gt_security = demo_security\<lparr>bs_jail := None\<rparr>, gt_licences = [], gt_broker = demo_broker\<rparr>"

lemma demo_gate_passes:
  "ensure_command_allowed demo_gate_env True ''p'' [] [] None TimedOut ''ls'' demo_gate = (Go, demo_gate)"
  by (simp add: ensure_command_allowed_def held_licence_def py_get_def Let_def normalize_command_def security_for_def
      refresh_roots_def set_text_def demo_gate_env_def demo_gate_def demo_security_def resolve_profile_def final_answer_def
      allow_def py_get_or_def py_or_def lower_def lower_char_def rx_eval lex_eval check_eval)


text \<open>Paths without links: what resolves to what is the text itself.\<close>

lemma split_join:
  "\<forall>q \<in> set p. c \<notin> set q \<Longrightarrow> p \<noteq> [] \<Longrightarrow> split_on c (join [c] p) = p"
proof (induction "[c]" p rule: join.induct)
  case (3 x y ys)
  have app: "c \<notin> set x \<Longrightarrow> split_on c (x @ c # s) = x # split_on c s" for x s
    by (induction x) auto
  show ?case using 3 app [of x "join [c] (y # ys)"] by simp
qed (auto simp: split_on_no_sep)

definition plain_path :: "path \<Rightarrow> bool" where
  "plain_path p \<longleftrightarrow> (\<forall>q \<in> set p. q \<noteq> [] \<and> CHR ''/'' \<notin> set q)"

lemma plain_resolve_text: "plain_path p \<Longrightarrow> plain_resolve (path_text p) = p"
  using split_join [of p "CHR ''/''"]
  by (cases "p = []") (auto simp: plain_resolve_def path_text_def plain_path_def filter_id_conv)

lemma plain_resolve_plain: "plain_path (plain_resolve s)"
  using split_on_parts_no_sep by (auto simp: plain_resolve_def plain_path_def)

definition open_host :: host where
  "open_host = demo_host\<lparr>h_resolve := \<lambda>p. Some (path_text (plain_resolve p))\<rparr>"

lemma demo_disk_ok: "disk_ok (demo_gate_env\<lparr>ge_host := open_host\<rparr>)"
proof -
  have "host_ok open_host"
    by (auto simp: host_ok_def resolver_ok_def open_host_def demo_host_def plain_resolve_text plain_resolve_plain)
      (simp add: path_text_def strip_def lstrip_def rstrip_def is_space_def)
  moreover have "plain_path (take n (plain_resolve t))" for n t
    using plain_resolve_plain by (auto simp: plain_path_def dest: in_set_takeD)
  ultimately show ?thesis
    by (auto simp: disk_ok_def demo_gate_env_def open_host_def plain_resolve_text plain_resolve_plain)
qed

definition demo_gate_host :: gate_env where
  "demo_gate_host = demo_gate_env\<lparr>ge_host := open_host\<rparr>"

definition demo_ctx :: "(str, pyval) dict" where
  "demo_ctx = [(''approval_bypass_enabled'', PyBool True)]"

lemma demo_merged: "merged_write_roots demo_gate_host (ctx_source demo_ctx) (ctx_user demo_ctx) no_grants = Inr []"
proof -
  have m: "normalize_mode ''write'' = Inr Write" using normalize_mode_str [of Write] by simp
  have o: "ctx_source demo_ctx = ''cli''" "ctx_user demo_ctx = ''root''"
    by (simp_all add: ctx_source_def ctx_user_def demo_ctx_def py_get_def py_or_def)
  have "validate_segment ''cli'' = Inr ''cli''" "validate_segment ''root'' = Inr ''root''"
    by (simp_all add: validate_segment_def)
  then have "\<exists>k. acl_path base ''cli'' ''root'' Write = Inr k" for base by (simp add: acl_path_def str_or_def)
  then obtain k where "acl_path (h_acl_base (ge_host demo_gate_host)) ''cli'' ''root'' Write = Inr k" by blast
  then have "load_user_path_prefixes (h_resolve (ge_host demo_gate_host)) (h_acl_base (ge_host demo_gate_host)) ''cli'' ''root'' ''write'' no_grants = Inr []"
    by (simp add: load_user_path_prefixes_def m no_grants_def)
  moreover have "list_ephemeral_path_prefixes ''cli'' ''root'' ''write'' no_grants = Inr []"
    by (simp add: list_ephemeral_path_prefixes_def m no_grants_def)
  moreover have "configured_write_roots demo_gate_host (ge_extra_write_roots demo_gate_host) = Inr []" "ge_memory_root demo_gate_host = None"
    by (simp_all add: demo_gate_host_def demo_gate_env_def)
  ultimately show ?thesis by (simp add: merged_write_roots_def o)
qed

lemma demo_refreshed: "refresh_roots demo_gate_host demo_ctx no_grants demo_security = Inr demo_security"
  by (simp add: refresh_roots_def demo_merged) (simp add: refresh_write_roots_def demo_security_def set_text_def)

lemma demo_no_licence: "held_licence [] command g = (False, g)"
  by (simp add: held_licence_def py_get_def)

lemma demo_mode: "cp_mode (resolve_profile demo_ctx) = Full"
  by (simp add: resolve_profile_def demo_ctx_def py_get_def py_or_def lower_def lower_char_def Let_def)

lemma demo_asks:
  "check plain_resolve demo_security ''touch /o/f'' (Some (resolve_profile demo_ctx)) False =
     Inr (ask_approval None [[''o'']])"
proof -
  have "check_full plain_resolve demo_security ''touch /o/f'' False = Inr (ask_approval None [[''o'']])"
    using demo_outside by (simp add: lex_eval rx_eval check_eval path_grant_prefix_def)
  moreover have "strip ''touch /o/f'' = ''touch /o/f''" by (simp add: strip_def lstrip_def rstrip_def is_space_def)
  ultimately show ?thesis using demo_touch(3) by (simp add: check_def Let_def demo_mode)
qed

definition demo_jailed_gate :: "nat gate_state" where
  "demo_jailed_gate = \<lparr>gt_security = demo_security, gt_licences = [], gt_broker = demo_broker\<rparr>"

lemma demo_allowed:
  "\<exists>r b. ask_broker demo_gate_host True ''p'' (bash_permission_request demo_gate_host demo_ctx ''touch /o/f'' (ask_approval None [[''o'']]) False)
     TimedOut demo_broker = (Some r, b) \<and> br_allowed r"
proof -
  let ?rq = "bash_permission_request demo_gate_host demo_ctx ''touch /o/f'' (ask_approval None [[''o'']]) False"
  have "bypass_enabled (rq_exec_ctx ?rq)"
    by (simp add: bash_permission_request_def demo_ctx_def bypass_enabled_def py_get_or_def)
  moreover obtain g where g: "rq_path_grants ?rq = [g]"
    using asked_grants [of "ask_approval None [[''o'']]" demo_gate_host demo_ctx "''touch /o/f''" False]
    by (simp add: ask_approval_def path_text_def strip_def lstrip_def rstrip_def is_space_def map_eq_Cons_conv) blast
  moreover obtain n acl where "apply_one (ge_host demo_gate_host) (source_user (rq_exec_ctx ?rq)) False g no_grants = Inr (n, acl)"
    using ephemeral_succeeds [of "h_norm open_host" "fst (source_user (rq_exec_ctx ?rq))" "snd (source_user (rq_exec_ctx ?rq))"
        "path_text (plain_resolve (pg_path_prefix g))" "pg_access_mode g" no_grants]
    by (auto simp: apply_one_def demo_gate_host_def open_host_def)
  ultimately show ?thesis
    by (simp add: ask_broker_def broker_begin_def bypass_request_def apply_path_grants_eq blank_result_def demo_broker_def)
qed

theorem approved_write_passes_witness:
  "fst (ensure_command_allowed demo_gate_host True ''p'' demo_ctx [] None TimedOut ''touch /o/f'' demo_jailed_gate) = Go"
proof -
  obtain r b where r: "ask_broker demo_gate_host True ''p'' (bash_permission_request demo_gate_host demo_ctx ''touch /o/f'' (ask_approval None [[''o'']]) False)
     TimedOut demo_broker = (Some r, b)" "br_allowed r" using demo_allowed by blast
  have ok: "disk_ok demo_gate_host" using demo_disk_ok by (simp add: demo_gate_host_def)
  have "bypass_enabled demo_ctx" by (simp add: demo_ctx_def bypass_enabled_def py_get_or_def)
  then show ?thesis
    using approved_write_passes [OF ok, of demo_jailed_gate demo_ctx demo_security "''touch /o/f''" "[]" "ask_approval None [[''o'']]" True "''p''" TimedOut r b]
      r demo_asks demo_refreshed demo_mode demo_no_licence demo_outside(6)
    by (simp add: demo_jailed_gate_def demo_broker_def demo_gate_host_def demo_gate_env_def ask_approval_def path_text_def
      strip_def lstrip_def rstrip_def is_space_def)
qed

end
