(* ===== verification/Jobs.thy ===== *)
theory Jobs
  imports Shlex
begin

text \<open>
  Background processes (\<open>agent_core/job_manager.py\<close>). A \<open>job\<close> is a \<open>JobHandle\<close> together with
  what its coroutines wait for: the watcher that waits for the process or the timeout, and the
  calls of \<open>stop_job\<close> that have sent their signal and wait for the process to go. One step
  of \<open>job_step\<close> is the code between two waits of one of them, or the end of the process.

  The system supplies the process (its end and code), the clock (\<open>now\<close>), whether a process
  group was gone when a signal was sent, the file system and the fresh part of a job id.
\<close>

section \<open>Jobs and their coroutines\<close>

datatype job_status = Running | Finished | Failed | Timed_Out | Cancelled

text \<open>Where \<open>_terminate_process_tree\<close> waits: after the signal, or after SIGKILL.\<close>

datatype term_wait = After_Signal | After_Kill

datatype watcher = Waiting | Ending term_wait | Watched

record job =
  jb_command :: str
  jb_cwd :: str
  jb_env :: "(str \<times> str) list"
  jb_log :: str
  jb_timeout :: "real option"
  jb_start :: real
  jb_returncode :: "int option"
  jb_status :: job_status
  jb_exit :: "int option"
  jb_end :: "real option"
  jb_timed_out :: bool
  jb_watcher :: watcher
  jb_stops :: "term_wait list"

definition is_alive :: "job \<Rightarrow> bool" where
  "is_alive j \<longleftrightarrow> jb_returncode j = None"

definition duration_seconds :: "real \<Rightarrow> job \<Rightarrow> real" where
  "duration_seconds now j = (case jb_end j of Some t \<Rightarrow> t | None \<Rightarrow> now) - jb_start j"

text \<open>Sending the signal: \<open>None\<close> when the termination returns at once.\<close>

definition terminate_begins :: "bool \<Rightarrow> job \<Rightarrow> term_wait option" where
  "terminate_begins gone j = (if \<not> is_alive j \<or> gone then None else Some After_Signal)"

text \<open>A wait of the termination ends: the process has gone, or the grace period is over.\<close>

datatype wake = Exited | Grace bool

fun terminate_wakes :: "term_wait \<Rightarrow> wake \<Rightarrow> term_wait option" where
  "terminate_wakes After_Signal Exited = None"
| "terminate_wakes After_Signal (Grace gone) = (if gone then None else Some After_Kill)"
| "terminate_wakes After_Kill _ = None"

text \<open>The watcher after \<open>proc.wait()\<close>.\<close>

definition watch_ends :: "real \<Rightarrow> job \<Rightarrow> job" where
  "watch_ends now j =
     (if jb_status j = Cancelled then j
      else j\<lparr>jb_exit := jb_returncode j, jb_end := Some now,
             jb_status := if jb_returncode j = Some 0 then Finished else Failed\<rparr>)\<lparr>jb_watcher := Watched\<rparr>"

text \<open>The watcher after the termination that follows a timeout.\<close>

definition watch_killed :: "real \<Rightarrow> job \<Rightarrow> job" where
  "watch_killed now j =
     (if jb_status j = Cancelled then j
      else j\<lparr>jb_exit := Some (case jb_returncode j of Some c \<Rightarrow> c | None \<Rightarrow> - 1),
             jb_status := Timed_Out, jb_end := Some now\<rparr>)\<lparr>jb_watcher := Watched\<rparr>"

definition watch_goes_on :: "real \<Rightarrow> term_wait option \<Rightarrow> job \<Rightarrow> job" where
  "watch_goes_on now w j = (case w of None \<Rightarrow> watch_killed now j | Some ph \<Rightarrow> j\<lparr>jb_watcher := Ending ph\<rparr>)"

definition watch_times_out :: "bool \<Rightarrow> real \<Rightarrow> job \<Rightarrow> job" where
  "watch_times_out gone now j =
     (let j = j\<lparr>jb_timed_out := True\<rparr> in watch_goes_on now (terminate_begins gone j) j)"

definition has_timeout :: "job \<Rightarrow> bool" where
  "has_timeout j = (case jb_timeout j of Some t \<Rightarrow> t > 0 | None \<Rightarrow> False)"

definition stop_ends :: "real \<Rightarrow> job \<Rightarrow> job" where
  "stop_ends now j = j\<lparr>jb_status := Cancelled, jb_end := Some now\<rparr>"

text \<open>\<open>stop_job\<close> on a live job, up to its first wait, and its later wake-ups.\<close>

definition stop_begins :: "bool \<Rightarrow> real \<Rightarrow> job \<Rightarrow> job" where
  "stop_begins gone now j =
     (case terminate_begins gone j of
        None \<Rightarrow> stop_ends now j
      | Some ph \<Rightarrow> j\<lparr>jb_stops := jb_stops j @ [ph]\<rparr>)"

definition stop_goes_on :: "nat \<Rightarrow> wake \<Rightarrow> real \<Rightarrow> job \<Rightarrow> job" where
  "stop_goes_on i w now j =
     (case terminate_wakes (jb_stops j ! i) w of
        None \<Rightarrow> stop_ends now (j\<lparr>jb_stops := take i (jb_stops j) @ drop (Suc i) (jb_stops j)\<rparr>)
      | Some ph \<Rightarrow> j\<lparr>jb_stops := (jb_stops j)[i := ph]\<rparr>)"

definition can_wake :: "wake \<Rightarrow> job \<Rightarrow> bool" where
  "can_wake w j \<longleftrightarrow> w = Exited \<longrightarrow> \<not> is_alive j"

inductive job_step :: "job \<Rightarrow> job \<Rightarrow> bool" where
  exits: "is_alive j \<Longrightarrow> job_step j (j\<lparr>jb_returncode := Some c\<rparr>)"
| watch_ends: "jb_watcher j = Waiting \<Longrightarrow> \<not> is_alive j \<Longrightarrow> job_step j (watch_ends now j)"
| watch_times_out: "jb_watcher j = Waiting \<Longrightarrow> has_timeout j \<Longrightarrow> job_step j (watch_times_out gone now j)"
| watch_wakes: "jb_watcher j = Ending ph \<Longrightarrow> can_wake w j \<Longrightarrow> job_step j (watch_goes_on now (terminate_wakes ph w) j)"
| stop_begins: "is_alive j \<Longrightarrow> job_step j (stop_begins gone now j)"
| stop_wakes: "i < length (jb_stops j) \<Longrightarrow> can_wake w j \<Longrightarrow> job_step j (stop_goes_on i w now j)"

inductive job_steps :: "job \<Rightarrow> job \<Rightarrow> bool" where
  none: "job_steps j j"
| more: "job_steps i j \<Longrightarrow> job_step j k \<Longrightarrow> job_steps i k"

section \<open>The manager\<close>

record manager =
  mg_root :: str
  mg_jobs :: "(str \<times> job) list"

text \<open>\<open>{**os.environ, **env}\<close>.\<close>

definition merge_env :: "(str \<times> str) list \<Rightarrow> (str \<times> str) list \<Rightarrow> (str \<times> str) list" where
  "merge_env environ env = fold (\<lambda>(k, v) d. AList.update k v d) env environ"

definition job_log_dir :: str where "job_log_dir = ''.macchiato/jobs''"

definition new_job :: "str \<Rightarrow> str \<Rightarrow> (str \<times> str) list \<Rightarrow> str \<Rightarrow> real option \<Rightarrow> real \<Rightarrow> job" where
  "new_job command cwd env log_path timeout now =
     \<lparr>jb_command = command, jb_cwd = cwd, jb_env = env, jb_log = log_path, jb_timeout = timeout, jb_start = now,
      jb_returncode = None, jb_status = Running, jb_exit = None, jb_end = None, jb_timed_out = False,
      jb_watcher = Waiting, jb_stops = []\<rparr>"

text \<open>The command line given to the shell; \<open>resolved\<close> is the directory asked for, resolved.\<close>

definition redirected_command :: "str \<Rightarrow> str \<Rightarrow> str" where
  "redirected_command command log_path = ''('' @ command @ '') > '' @ shell_quote log_path @ '' 2>&1''"

definition start_job :: "(str \<Rightarrow> str) \<Rightarrow> (str \<Rightarrow> bool) \<Rightarrow> (str \<times> str) list \<Rightarrow> real \<Rightarrow> str \<Rightarrow> manager \<Rightarrow> str \<Rightarrow>
    str option \<Rightarrow> (str \<times> str) list option \<Rightarrow> real option \<Rightarrow> str \<times> job \<times> str \<times> manager" where
  "start_job resolve is_dir environ now hex m command cwd env timeout =
     (let job_id = ''job_'' @ take 12 hex;
          asked = resolve (str_or (opt_str cwd) (mg_root m));
          job_cwd = (if is_dir asked then asked else mg_root m);
          log_path = mg_root m @ ''/'' @ job_log_dir @ ''/'' @ job_id @ ''.log'';
          j = new_job command job_cwd (merge_env environ (case env of None \<Rightarrow> [] | Some e \<Rightarrow> e)) log_path timeout now
      in (job_id, j, redirected_command command log_path, m\<lparr>mg_jobs := AList.update job_id j (mg_jobs m)\<rparr>))"

definition job_of :: "manager \<Rightarrow> str \<Rightarrow> job option" where
  "job_of m job_id = map_of (mg_jobs m) job_id"

definition list_jobs :: "manager \<Rightarrow> job list" where
  "list_jobs m = map snd (mg_jobs m)"

text \<open>\<open>stop_job\<close>: its answer if it answers at once, and the jobs after its first step.\<close>

definition stop_job :: "bool \<Rightarrow> real \<Rightarrow> manager \<Rightarrow> str \<Rightarrow> bool option \<times> manager" where
  "stop_job gone now m job_id =
     (case job_of m job_id of
        None \<Rightarrow> (Some False, m)
      | Some j \<Rightarrow>
          if \<not> is_alive j then (Some True, m)
          else (if terminate_begins gone j = None then Some True else None,
                m\<lparr>mg_jobs := AList.update job_id (stop_begins gone now j) (mg_jobs m)\<rparr>))"

definition cleanable :: "real \<Rightarrow> real \<Rightarrow> job \<Rightarrow> bool" where
  "cleanable max_age now j \<longleftrightarrow>
     jb_status j \<noteq> Running \<and> (case jb_end j of None \<Rightarrow> False | Some t \<Rightarrow> now - t > max_age)"

definition cleanup_finished :: "real \<Rightarrow> real \<Rightarrow> manager \<Rightarrow> nat \<times> manager" where
  "cleanup_finished max_age now m =
     (length (filter (cleanable max_age now \<circ> snd) (mg_jobs m)),
      m\<lparr>mg_jobs := filter (\<lambda>e. \<not> cleanable max_age now (snd e)) (mg_jobs m)\<rparr>)"

text \<open>One manager for each resolved workspace.\<close>

definition get_job_manager :: "(str \<Rightarrow> str) \<Rightarrow> str option \<Rightarrow> (str \<times> manager) list \<Rightarrow> manager \<times> (str \<times> manager) list" where
  "get_job_manager resolve workspace_root ms =
     (let key = resolve (str_or (opt_str workspace_root) ''.'')
      in case map_of ms key of
        Some m \<Rightarrow> (m, ms)
      | None \<Rightarrow> (let m = \<lparr>mg_root = key, mg_jobs = []\<rparr> in (m, ms @ [(key, m)])))"

section \<open>Reading logs\<close>

datatype log_file = Absent | Unreadable | Content str

record job_page =
  jp_status :: job_status
  jp_head :: "str list"
  jp_tail :: "str list"
  jp_total :: nat
  jp_offset :: int

definition line_end :: "char \<Rightarrow> bool" where
  "line_end c \<longleftrightarrow> c \<in> set [CHR 0x0A, CHR 0x0B, CHR 0x0C, CHR 0x0D, CHR 0x1C, CHR 0x1D, CHR 0x1E, CHR 0x85]"

text \<open>\<open>s.splitlines()\<close>; \<open>\r\n\<close> is one end of line.\<close>

fun splitlines_from :: "str \<Rightarrow> str \<Rightarrow> str list" where
  "splitlines_from cur [] = (if cur = [] then [] else [cur])"
| "splitlines_from cur (c # cs) =
     (if c = CHR 0x0D \<and> cs \<noteq> [] \<and> hd cs = CHR 0x0A then splitlines_from cur cs
      else if line_end c then cur # splitlines_from [] cs
      else splitlines_from (cur @ [c]) cs)"

definition splitlines :: "str \<Rightarrow> str list" where
  "splitlines s = splitlines_from [] s"

text \<open>\<open>xs[a:b]\<close> for \<open>0 \<le> a\<close>.\<close>

definition slice_to :: "'a list \<Rightarrow> nat \<Rightarrow> int \<Rightarrow> 'a list" where
  "slice_to xs a b =
     drop a (take (nat (if b < 0 then max 0 (int (length xs) + b) else b)) xs)"

definition page_of :: "job_status \<Rightarrow> str list \<Rightarrow> int \<Rightarrow> int \<Rightarrow> job_page" where
  "page_of status all_lines line_count offset =
     (let total = length all_lines; start = nat (max 0 offset);
          head = (if start = 0 then take 50 all_lines else [])
      in if start \<ge> total
         then \<lparr>jp_status = status, jp_head = head, jp_tail = [], jp_total = total, jp_offset = int total\<rparr>
         else (let tail = slice_to all_lines start (min (int start + line_count) (int total))
               in \<lparr>jp_status = status, jp_head = head, jp_tail = tail, jp_total = total,
                   jp_offset = int (start + length tail)\<rparr>))"

definition job_tail :: "(str \<Rightarrow> log_file) \<Rightarrow> manager \<Rightarrow> str \<Rightarrow> int \<Rightarrow> int \<Rightarrow> job_page option" where
  "job_tail files m job_id line_count offset =
     (case job_of m job_id of
        None \<Rightarrow> None
      | Some j \<Rightarrow>
          (case files (jb_log j) of
             Absent \<Rightarrow> Some \<lparr>jp_status = jb_status j, jp_head = [], jp_tail = [], jp_total = 0, jp_offset = 0\<rparr>
           | Unreadable \<Rightarrow> None
           | Content raw \<Rightarrow> Some (page_of (jb_status j) (splitlines raw) line_count offset)))"

section \<open>Quoting of the log path\<close>

lemma tokens_quoted:
  assumes "\<forall>c \<in> set P. \<not> quote_safe c \<and> c \<noteq> squote \<and> \<not> lex_space c" "c = CHR '' ''"
  shows "tokens P (shell_quote s @ c # r) = (case tokens P r of Inl e \<Rightarrow> Inl e | Inr ts \<Rightarrow> Inr (s # ts))"
proof (cases "s \<noteq> [] \<and> list_all quote_safe s")
  case True
  then have "\<forall>c \<in> set s. plain P c" using assms(1) safe_plain by (meson list_all_iff)
  then have "tokens P (s @ c # r) = emit s False (tokens P r)"
    using lex_plain_start [of s P "c # r"] True assms(2) by (simp add: tokens_def lex_in_word lex_space_def)
  then show ?thesis using True by (simp add: shell_quote_def emit_def)
next
  case False
  have "squote \<notin> set P" using assms(1) by blast
  then have "tokens P (squote # quote_body s @ c # r) = lex P (In_Quote squote) False [] (quote_body s @ c # r)"
    by (simp add: tokens_def lex.simps(2) open_token_def lex_space_def lex_quote_def)
  also have "\<dots> = lex P In_Word True s (c # r)"
    using lex_quote_body [of P False "[]" s "c # r"] by simp
  also have "\<dots> = (case tokens P r of Inl e \<Rightarrow> Inl e | Inr ts \<Rightarrow> Inr (s # ts))"
    using assms(2) by (simp add: lex.simps(2) lex_space_def emit_def tokens_def)
  finally show ?thesis using False by (simp only: shell_quote_def if_False append_Cons)
qed

text \<open>Whatever characters the path of a job's log has, the shell that starts the job reads it as one word, the target of the redirection.\<close>

theorem log_path_is_one_word:
  "tokens '';&|<>'' (drop (length command + 2) (redirected_command command log_path)) =
     Inr [''>'', log_path, ''2'', ''>&'', ''1'']"
proof -
  have "\<forall>c \<in> set '';&|<>''. \<not> quote_safe c \<and> c \<noteq> squote \<and> \<not> lex_space c"
    by (simp add: quote_safe_def lex_space_def)
  from tokens_quoted [OF this refl, of log_path "''2>&1''"]
  have "tokens '';&|<>'' (shell_quote log_path @ '' 2>&1'') = Inr [log_path, ''2'', ''>&'', ''1'']"
    by (simp add: tokens_def lex.simps lex_space_def lex_quote_def open_token_def emit_def)
  then show ?thesis
    by (simp add: redirected_command_def tokens_def lex.simps(2) lex_space_def open_token_def emit_def)
qed

section \<open>The life of a job\<close>

definition job_ok :: "job \<Rightarrow> bool" where
  "job_ok j \<longleftrightarrow>
     (jb_status j = Running \<longleftrightarrow> jb_end j = None) \<and>
     (jb_watcher j = Watched \<longrightarrow> jb_status j \<noteq> Running) \<and>
     (jb_status j = Running \<longrightarrow> jb_exit j = None) \<and>
     (jb_status j = Finished \<longrightarrow> jb_returncode j = Some 0 \<and> jb_exit j = Some 0) \<and>
     (jb_status j = Failed \<longrightarrow> jb_returncode j \<noteq> None \<and> jb_exit j = jb_returncode j \<and> jb_exit j \<noteq> Some 0) \<and>
     (jb_status j = Timed_Out \<longrightarrow> jb_timed_out j \<and> jb_exit j \<noteq> None) \<and>
     (jb_timed_out j \<longrightarrow> has_timeout j \<and> jb_watcher j \<noteq> Waiting) \<and>
     (\<forall>ph. jb_watcher j = Ending ph \<longrightarrow> jb_timed_out j) \<and>
     (jb_status j \<in> {Finished, Failed, Timed_Out} \<longrightarrow> jb_watcher j = Watched)"

inductive_cases job_stepE: "job_step i j"

lemmas coroutine_defs = watch_ends_def watch_goes_on_def watch_killed_def watch_times_out_def terminate_begins_def
  stop_begins_def stop_goes_on_def stop_ends_def is_alive_def has_timeout_def Let_def

lemma job_ok_new: "job_ok (new_job command cwd env log_path timeout now)"
  by (simp add: job_ok_def new_job_def)

lemma job_ok_step: "job_step i j \<Longrightarrow> job_ok i \<Longrightarrow> job_ok j"
proof (induction rule: job_step.induct)
  case (exits j c)
  then show ?case by (auto simp: job_ok_def coroutine_defs)
next
  case (watch_ends j now)
  then show ?case by (auto simp: job_ok_def coroutine_defs)
next
  case (watch_times_out j gone now)
  then show ?case by (auto simp: job_ok_def coroutine_defs split: option.split)
next
  case (watch_wakes j ph w now)
  then show ?case by (auto simp: job_ok_def coroutine_defs split: option.split)
next
  case (stop_begins j gone now)
  then show ?case by (auto simp: job_ok_def coroutine_defs split: option.split)
next
  case (stop_wakes n j w now)
  then show ?case by (auto simp: job_ok_def coroutine_defs split: option.split)
qed

lemma job_ok_steps: "job_steps i j \<Longrightarrow> job_ok i \<Longrightarrow> job_ok j"
  by (induction rule: job_steps.induct) (auto intro: job_ok_step)

lemma cancelled_step: "job_step i j \<Longrightarrow> jb_status i = Cancelled \<Longrightarrow> jb_status j = Cancelled"
  by (induction rule: job_step.induct) (auto simp: coroutine_defs split: option.split)

lemma stopping_step:
  "job_step i j \<Longrightarrow> jb_stops i \<noteq> [] \<or> jb_status i = Cancelled \<Longrightarrow> jb_stops j \<noteq> [] \<or> jb_status j = Cancelled"
  by (induction rule: job_step.induct) (auto simp: coroutine_defs split: option.split)

definition wait_work :: "term_wait \<Rightarrow> nat" where
  "wait_work ph = (case ph of After_Signal \<Rightarrow> 2 | After_Kill \<Rightarrow> 1)"

definition work_left :: "job \<Rightarrow> nat" where
  "work_left j =
     (case jb_watcher j of Waiting \<Rightarrow> 3 | Ending ph \<Rightarrow> wait_work ph | Watched \<Rightarrow> 0) +
     sum_list (map wait_work (jb_stops j))"

lemma wait_work_less:
  "terminate_wakes ph w = Some ph' \<Longrightarrow> wait_work ph' < wait_work ph" "0 < wait_work ph" "wait_work ph < 3"
  by (cases "(ph, w)" rule: terminate_wakes.cases; auto simp: wait_work_def split: if_splits)
    (simp_all add: wait_work_def split: term_wait.split)

lemma sum_without:
  fixes xs :: "term_wait list"
  assumes "i < length xs"
  shows "sum_list (map wait_work xs) =
    wait_work (xs ! i) + sum_list (map wait_work (take i xs @ drop (Suc i) xs))"
    "sum_list (map wait_work (xs[i := ph])) + wait_work (xs ! i) = sum_list (map wait_work xs) + wait_work ph"
proof -
  show 1: "sum_list (map wait_work xs) =
    wait_work (xs ! i) + sum_list (map wait_work (take i xs @ drop (Suc i) xs))"
    by (subst id_take_nth_drop [OF assms]) simp
  show "sum_list (map wait_work (xs[i := ph])) + wait_work (xs ! i) = sum_list (map wait_work xs) + wait_work ph"
    by (subst 1) (simp add: upd_conv_take_nth_drop [OF assms])
qed

lemma gone_step:
  assumes "job_step i j" "\<not> is_alive i"
  shows "\<not> is_alive j \<and> work_left j < work_left i"
  using assms
proof (induction rule: job_step.induct)
  case (watch_wakes j ph w now)
  then show ?case
    using wait_work_less by (auto simp: work_left_def coroutine_defs split: option.split)
next
  case (stop_wakes n j w now)
  then show ?case
    using wait_work_less(1) [of "jb_stops j ! n" w] wait_work_less(2) [of "jb_stops j ! n"] sum_without [of n "jb_stops j"]
    by (auto simp: work_left_def coroutine_defs split: option.split)
qed (auto simp: work_left_def coroutine_defs)

definition settled :: "job \<Rightarrow> bool" where
  "settled j \<longleftrightarrow> jb_watcher j = Watched \<and> jb_stops j = [] \<and> jb_status j \<noteq> Running \<and> jb_end j \<noteq> None"

lemma gone_progress:
  assumes "\<not> is_alive j" "\<not> (\<exists>k. job_step j k)"
  shows "jb_watcher j = Watched \<and> jb_stops j = []"
proof -
  have "can_wake Exited j" using assms(1) by (simp add: can_wake_def)
  then show ?thesis
    using assms job_step.watch_ends [of j] job_step.watch_wakes [of j _ Exited]
      job_step.stop_wakes [of 0 j Exited]
    by (cases "jb_watcher j") auto
qed

text \<open>A run that goes on while it can.\<close>

definition job_run :: "(nat \<Rightarrow> job) \<Rightarrow> bool" where
  "job_run r \<longleftrightarrow> (\<forall>n. job_step (r n) (r (Suc n)) \<or> (\<not> (\<exists>k. job_step (r n) k) \<and> r (Suc n) = r n))"

lemma job_run_bound:
  assumes "job_run r" "\<not> is_alive (r 0)"
  shows "\<not> is_alive (r n) \<and> (work_left (r n) + n \<le> work_left (r 0) \<or> \<not> (\<exists>k. job_step (r n) k))"
proof (induction n)
  case (Suc n)
  then show ?case using assms(1) gone_step [of "r n" "r (Suc n)"] unfolding job_run_def
    by (metis Suc_leI add_Suc_right add_less_cancel_right le_trans add_Suc)
qed (use assms in simp)

text \<open>C16: Once the process of a job has ended, every way its watcher and the pending calls of stop_job go on comes to rest, within a number of steps known in advance; at rest the watcher is done, every call has returned, the job has an end time and is no longer running.\<close>

theorem job_settles:
  assumes "job_run r" "job_steps (new_job command cwd env log_path timeout now) (r 0)" "\<not> is_alive (r 0)"
    "work_left (r 0) < n"
  shows "settled (r n)"
proof -
  have ok: "job_ok (r n)"
  proof (induction n)
    case (Suc n)
    then show ?case using assms(1) job_ok_step unfolding job_run_def by metis
  qed (rule job_ok_steps [OF assms(2) job_ok_new])
  have "\<not> is_alive (r n)" "\<not> (\<exists>k. job_step (r n) k)" using job_run_bound [OF assms(1,3), of n] assms(4) by auto
  then show ?thesis using gone_progress ok by (auto simp: settled_def job_ok_def)
qed

definition demo_job :: job where
  "demo_job = new_job ''sleep 1'' ''/w'' [] ''/w/log'' None 0"

fun demo_job_run :: "nat \<Rightarrow> job" where
  "demo_job_run 0 = demo_job\<lparr>jb_returncode := Some 0\<rparr>"
| "demo_job_run (Suc n) = watch_ends 5 (demo_job\<lparr>jb_returncode := Some 0\<rparr>)"

lemma demo_job_run_is_run: "job_run demo_job_run"
proof -
  have "\<not> job_step (demo_job_run (Suc n)) k" for n k
    by (auto simp: demo_job_def new_job_def coroutine_defs elim!: job_step.cases)
  moreover have "job_step (demo_job_run 0) (demo_job_run (Suc 0))"
    using job_step.watch_ends [of "demo_job_run 0" 5] by (simp add: demo_job_def new_job_def is_alive_def)
  ultimately show ?thesis unfolding job_run_def by (metis demo_job_run.simps(2) not0_implies_Suc)
qed

theorem job_settles_witness: "settled (demo_job_run 4)"
proof (rule job_settles [OF demo_job_run_is_run, of "''sleep 1''" "''/w''" "[]" "''/w/log''" None 0])
  show "job_steps (new_job ''sleep 1'' ''/w'' [] ''/w/log'' None 0) (demo_job_run 0)"
    using job_steps.more [OF job_steps.none job_step.exits [of demo_job 0]] by (simp add: demo_job_def new_job_def is_alive_def)
qed (simp_all add: demo_job_def new_job_def is_alive_def work_left_def)

text \<open>However the calls of stop_job interleave with the end of the process, the watcher, its timeout and each other: once the pending ones have returned the job is cancelled, and it stays so.\<close>

theorem stopped_job_is_cancelled:
  assumes "job_steps i j" "jb_stops i \<noteq> []" "jb_stops j = []" "job_steps j k"
  shows "jb_status k = Cancelled"
proof -
  have "jb_stops j \<noteq> [] \<or> jb_status j = Cancelled"
    using assms(1,2) by (induction rule: job_steps.induct) (auto dest: stopping_step)
  then have "jb_status j = Cancelled" using assms(3) by simp
  with assms(4) show ?thesis by (induction rule: job_steps.induct) (auto dest: cancelled_step)
qed


theorem stopped_job_is_cancelled_witness:
  "jb_status (stop_ends 5 demo_job) = Cancelled"
proof (rule stopped_job_is_cancelled)
  show "job_steps (demo_job\<lparr>jb_stops := [After_Kill]\<rparr>) (stop_ends 5 demo_job)"
    using job_steps.more [OF job_steps.none job_step.stop_wakes [of 0 "demo_job\<lparr>jb_stops := [After_Kill]\<rparr>" "Grace True" 5]]
    by (simp add: stop_goes_on_def stop_ends_def can_wake_def demo_job_def new_job_def)
qed (simp_all add: stop_ends_def demo_job_def new_job_def job_steps.none)

section \<open>Following a log\<close>

text \<open>Successive reads of a log that is written to in between, each from the offset of the last.\<close>

fun follow_log :: "manager \<Rightarrow> str \<Rightarrow> int \<Rightarrow> int \<Rightarrow> str list \<Rightarrow> str list \<times> int" where
  "follow_log m job_id n offset [] = ([], offset)"
| "follow_log m job_id n offset (raw # raws) =
     (case job_tail (\<lambda>_. Content raw) m job_id n offset of
        None \<Rightarrow> ([], offset)
      | Some p \<Rightarrow> (case follow_log m job_id n (jp_offset p) raws of (ls, end_offset) \<Rightarrow> (jp_tail p @ ls, end_offset)))"

text \<open>Each reading extends the one before, which ended with a newline.\<close>

fun grows_by_lines :: "str list \<Rightarrow> bool" where
  "grows_by_lines (raw # next_raw # raws) \<longleftrightarrow>
     prefix raw next_raw \<and> (raw = [] \<or> last raw = newline) \<and> grows_by_lines (next_raw # raws)"
| "grows_by_lines raws \<longleftrightarrow> True"

lemma splitlines_from_append:
  "s \<noteq> [] \<Longrightarrow> last s = newline \<Longrightarrow> splitlines_from cur (s @ t) = splitlines_from cur s @ splitlines t"
proof (induction cur s rule: splitlines_from.induct)
  case (2 cur c cs)
  then show ?case by (cases cs) (auto simp: splitlines_def line_end_def)
qed simp

lemma splitlines_prefix:
  "prefix s t \<Longrightarrow> s = [] \<or> last s = newline \<Longrightarrow> prefix (splitlines s) (splitlines t)"
  by (cases "s = []") (auto simp: prefix_def splitlines_from_append splitlines_def)

lemma page_lines:
  assumes "1 \<le> n" "0 \<le> offset" "nat offset \<le> length ls"
  shows "jp_tail (page_of st ls n offset) = drop (nat offset) (take (nat (jp_offset (page_of st ls n offset))) ls)"
    "offset \<le> jp_offset (page_of st ls n offset)" "nat (jp_offset (page_of st ls n offset)) \<le> length ls"
proof -
  define k where "k = nat offset"
  have k: "offset = int k" "k \<le> length ls" using assms by (auto simp: k_def)
  define p where "p = page_of st ls n offset"
  have "jp_tail p = drop k (take (nat (jp_offset p)) ls) \<and> offset \<le> jp_offset p \<and> nat (jp_offset p) \<le> length ls"
  proof (cases "k = length ls")
    case True
    then show ?thesis using k by (simp add: p_def page_of_def Let_def)
  next
    case False
    define e where "e = min (k + nat n) (length ls)"
    have "min (int k + n) (int (length ls)) = int e" using assms(1) by (auto simp: e_def min_def)
    then have "page_of st ls n offset =
        \<lparr>jp_status = st, jp_head = (if k = 0 then take 50 ls else []), jp_tail = drop k (take e ls),
         jp_total = length ls, jp_offset = int (k + length (drop k (take e ls)))\<rparr>"
      using False k by (simp add: page_of_def slice_to_def Let_def)
    moreover have "k + length (drop k (take e ls)) = e" using k False by (simp add: e_def min_def)
    ultimately show ?thesis using k by (simp add: p_def e_def)
  qed
  then show "jp_tail (page_of st ls n offset) = drop (nat offset) (take (nat (jp_offset (page_of st ls n offset))) ls)"
    "offset \<le> jp_offset (page_of st ls n offset)" "nat (jp_offset (page_of st ls n offset)) \<le> length ls"
    by (simp_all add: p_def k_def)
qed

lemma drop_take_split:
  assumes "a \<le> b" "b \<le> c"
  shows "drop a (take c xs) = drop a (take b xs) @ drop b (take c xs)"
proof -
  have "take (c - a) (drop a xs) = take ((b - a) + (c - b)) (drop a xs)" using assms by simp
  also have "\<dots> = take (b - a) (drop a xs) @ take (c - b) (drop b xs)" using assms
    by (simp only: take_add drop_drop le_add_diff_inverse2)
  finally show ?thesis by (simp add: drop_take)
qed

lemma follow_log_aux:
  assumes "job_of m job_id = Some j" "1 \<le> n"
  shows "\<lbrakk>0 \<le> offset; nat offset \<le> length (splitlines (hd raws)); raws \<noteq> []; grows_by_lines raws\<rbrakk> \<Longrightarrow>
     offset \<le> snd (follow_log m job_id n offset raws) \<and>
     nat (snd (follow_log m job_id n offset raws)) \<le> length (splitlines (last raws)) \<and>
     prefix (splitlines (hd raws)) (splitlines (last raws)) \<and>
     fst (follow_log m job_id n offset raws) =
       drop (nat offset) (take (nat (snd (follow_log m job_id n offset raws))) (splitlines (last raws)))"
proof (induction raws arbitrary: offset)
  case (Cons raw raws)
  let ?p = "page_of (jb_status j) (splitlines raw) n offset"
  have p: "job_tail (\<lambda>_. Content raw) m job_id n offset = Some ?p" using assms(1) by (simp add: job_tail_def)
  have "nat offset \<le> length (splitlines raw)" using Cons.prems(2) by simp
  note page = page_lines [OF assms(2) Cons.prems(1) this, of "jb_status j"]
  show ?case
  proof (cases raws)
    case Nil
    then show ?thesis using Cons.prems page p
      by simp
  next
    case (Cons next_raw rest)
    have g: "prefix (splitlines raw) (splitlines next_raw)" "grows_by_lines raws"
      using Cons.prems(4) Cons splitlines_prefix by auto
    let ?f = "follow_log m job_id n (jp_offset ?p) raws"
    have "0 \<le> jp_offset ?p" "nat (jp_offset ?p) \<le> length (splitlines next_raw)"
      using page Cons.prems g(1) prefix_length_le by fastforce+
    then have IH: "jp_offset ?p \<le> snd ?f" "nat (snd ?f) \<le> length (splitlines (last raws))"
        "prefix (splitlines next_raw) (splitlines (last raws))"
        "fst ?f = drop (nat (jp_offset ?p)) (take (nat (snd ?f)) (splitlines (last raws)))"
      using Cons.IH [of "jp_offset ?p"] g(2) Cons by simp_all
    obtain more where more: "splitlines (last raws) = splitlines raw @ more"
      using prefix_order.trans [OF g(1) IH(3)] by (auto simp: prefix_def)
    have "jp_tail ?p = drop (nat offset) (take (nat (jp_offset ?p)) (splitlines (last raws)))"
      using page(1,3) Cons.prems more by simp
    then have "jp_tail ?p @ fst ?f = drop (nat offset) (take (nat (snd ?f)) (splitlines (last raws)))"
      using drop_take_split [OF nat_mono nat_mono, OF page(2) IH(1)] IH(4) by metis
    moreover have "follow_log m job_id n offset (raw # raws) = (jp_tail ?p @ fst ?f, snd ?f)"
      using p by (simp split: prod.split)
    moreover have "last (raw # raws) = last raws" using Cons by simp
    moreover have "prefix (splitlines raw) (splitlines (last raws))" using more by simp
    ultimately show ?thesis using IH(1,2) page(2) by simp
  qed
qed simp

text \<open>Reading a log that grows by whole lines in pages, each from the offset of the page before, delivers every line once and in order up to the offset reached.\<close>

theorem following_a_log_loses_nothing:
  assumes "job_of m job_id = Some j" "1 \<le> n" "raws \<noteq> []" "grows_by_lines raws"
  shows "let (ls, end_offset) = follow_log m job_id n 0 raws
    in ls = take (nat end_offset) (splitlines (last raws)) \<and> nat end_offset \<le> length (splitlines (last raws))"
  using follow_log_aux [OF assms(1,2), of 0 raws] assms(3,4) by (auto simp: split: prod.split)

theorem following_a_log_loses_nothing_witness:
  "fst (follow_log \<lparr>mg_root = ''/w'', mg_jobs = [(''j'', demo_job)]\<rparr> ''j'' 1 0 [''a'' @ [newline], ''a'' @ newline # ''b'' @ [newline]]) =
     [''a'', ''b'']"
  using following_a_log_loses_nothing [of "\<lparr>mg_root = ''/w'', mg_jobs = [(''j'', demo_job)]\<rparr>" "''j''" demo_job 1
      "[''a'' @ [newline], ''a'' @ newline # ''b'' @ [newline]]"]
  by (simp add: job_of_def job_tail_def page_of_def splitlines_def line_end_def slice_to_def Let_def)

lemma partial_line_lost:
  assumes "job_of m job_id = Some j"
  shows "follow_log m job_id 200 0 [''ab'', ''abc'' @ newline # ''d'' @ [newline]] = ([''ab'', ''d''], 2)"
  using assms by (simp add: job_tail_def page_of_def splitlines_def line_end_def slice_to_def Let_def)

end
