(* ===== verification/Job_Notify.thy ===== *)
theory Job_Notify
  imports Py_Values
begin

text \<open>
  The registry that tells a session when one of its background jobs has ended
  (\<open>agent_core/tools/bash_job_notify.py\<close>) and the loop of the daemon that polls it. A job is
  known by its session, whether it is remote, and its id. \<open>jn_recs\<close> holds every record ever
  made, since a poll keeps records that have left the table meanwhile; \<open>jn_table\<close> is the table,
  \<open>jn_pending\<close> the announcements kept for busy sessions and \<open>jn_delivered\<close> the requests
  injected so far. The wording of an announcement and the metadata of the chat front end are
  parameters or left out.
\<close>

section \<open>Records\<close>

datatype jkey = JKey (jk_session: str) (jk_remote: bool) (jk_job: str)

record tracked =
  tk_session :: str
  tk_job :: str
  tk_remote :: bool
  tk_command :: str
  tk_cwd :: str
  tk_log :: str
  tk_workspace :: "str option"
  tk_login :: "str option"
  tk_frontend :: str
  tk_source :: str
  tk_user :: str
  tk_metadata :: "(str, pyval) dict"
  tk_notified :: bool
  tk_staged :: bool

text \<open>What a poll reports of a job, with the fields copied from its record.\<close>

record job_note =
  jt_rec :: tracked
  jt_status :: str
  jt_exit :: "int option"
  jt_timed_out :: bool

definition note_key :: "job_note \<Rightarrow> jkey" where
  "note_key n = JKey (tk_session (jt_rec n)) (tk_remote (jt_rec n)) (tk_job (jt_rec n))"

definition rec_key :: "tracked \<Rightarrow> jkey" where
  "rec_key r = JKey (tk_session r) (tk_remote r) (tk_job r)"

record job_board =
  jn_recs :: "(jkey, tracked) dict"
  jn_table :: "(str, jkey list) dict"
  jn_pending :: "(str, (str \<times> job_note) list) dict"
  jn_delivered :: "(str \<times> str \<times> job_note) list"

definition no_notes :: job_board where
  "no_notes = \<lparr>jn_recs = [], jn_table = [], jn_pending = [], jn_delivered = []\<rparr>"

definition keys_of :: "str \<Rightarrow> job_board \<Rightarrow> jkey list" where
  "keys_of sid s = (case map_of (jn_table s) sid of None \<Rightarrow> [] | Some ks \<Rightarrow> ks)"

definition pending_of :: "str \<Rightarrow> job_board \<Rightarrow> (str \<times> job_note) list" where
  "pending_of sid s = (case map_of (jn_pending s) sid of None \<Rightarrow> [] | Some xs \<Rightarrow> xs)"

definition put_list :: "str \<Rightarrow> 'a list \<Rightarrow> (str, 'a list) dict \<Rightarrow> (str, 'a list) dict" where
  "put_list sid xs d = (if xs = [] then dpop sid d else dset sid xs d)"

definition tracks :: "jkey \<Rightarrow> job_board \<Rightarrow> bool" where
  "tracks k s \<longleftrightarrow> k \<in> set (keys_of (jk_session k) s)"

definition rec_of :: "jkey \<Rightarrow> job_board \<Rightarrow> tracked option" where
  "rec_of k s = (if tracks k s then map_of (jn_recs s) k else None)"

definition update_rec :: "jkey \<Rightarrow> (tracked \<Rightarrow> tracked) \<Rightarrow> job_board \<Rightarrow> job_board" where
  "update_rec k f s =
     (case rec_of k s of None \<Rightarrow> s | Some r \<Rightarrow> s\<lparr>jn_recs := dset k (f r) (jn_recs s)\<rparr>)"

definition untrack :: "jkey \<Rightarrow> job_board \<Rightarrow> job_board" where
  "untrack k s = s\<lparr>jn_table := put_list (jk_session k) (removeAll k (keys_of (jk_session k) s)) (jn_table s)\<rparr>"

section \<open>Operations\<close>

text \<open>\<open>register_local_job\<close> and \<open>register_remote_job\<close>; the fields of \<open>r\<close> are those passed.\<close>

definition clean_tracked :: "tracked \<Rightarrow> tracked" where
  "clean_tracked r = r\<lparr>tk_session := strip (tk_session r), tk_job := strip (tk_job r),
     tk_login := map_option strip (tk_login r),
     tk_frontend := str_or (strip (str_or (tk_frontend r) ''cli'')) ''cli'',
     tk_source := str_or (strip (str_or (tk_source r) ''cli'')) ''cli'',
     tk_user := str_or (strip (str_or (tk_user r) ''root'')) ''root'',
     tk_notified := False, tk_staged := False\<rparr>"

definition register_job :: "tracked \<Rightarrow> job_board \<Rightarrow> job_board" where
  "register_job r s =
     (let r = clean_tracked r; k = rec_key r; ks = keys_of (jk_session k) s
      in if tk_session r = [] \<or> tk_job r = [] \<or> tk_remote r \<and> opt_str (tk_login r) = [] then s
         else s\<lparr>jn_recs := dset k r (jn_recs s),
                jn_table := dset (jk_session k) (if k \<in> set ks then ks else ks @ [k]) (jn_table s)\<rparr>)"

definition stage_note :: "str \<Rightarrow> str \<Rightarrow> job_note \<Rightarrow> job_board \<Rightarrow> job_board" where
  "stage_note sid body n s =
     (let sid = strip sid
      in if sid = [] \<or> body = [] then s
         else let s1 = (if strip (tk_job (jt_rec n)) = [] then s
                        else update_rec (JKey sid (tk_remote (jt_rec n)) (strip (tk_job (jt_rec n)))) (tk_staged_update (\<lambda>_. True)) s)
              in s1\<lparr>jn_pending := dset sid (pending_of sid s1 @ [(body, n)]) (jn_pending s1)\<rparr>)"

definition mark_notified :: "jkey \<Rightarrow> job_board \<Rightarrow> job_board" where
  "mark_notified k s =
     (if rec_of k s = None then s else untrack k (update_rec k (tk_notified_update (\<lambda>_. True)) s))"

definition reset_staged :: "jkey \<Rightarrow> job_board \<Rightarrow> job_board" where
  "reset_staged k s = update_rec k (tk_staged_update (\<lambda>_. False)) s"

definition is_staged :: "jkey \<Rightarrow> job_board \<Rightarrow> bool" where
  "is_staged k s = (case rec_of k s of None \<Rightarrow> False | Some r \<Rightarrow> tk_staged r)"

text \<open>What the scheduler answers: whether there is one, its open requests, whether it takes a request.\<close>

record sched_view =
  sv_present :: bool
  sv_inflight :: "str \<Rightarrow> int"
  sv_accepts :: bool

definition key_at :: "str \<Rightarrow> job_note \<Rightarrow> jkey" where
  "key_at sid n = JKey sid (tk_remote (jt_rec n)) (tk_job (jt_rec n))"

definition deliver_via_inject :: "sched_view \<Rightarrow> str \<Rightarrow> str \<Rightarrow> job_note \<Rightarrow> job_board \<Rightarrow> bool \<times> job_board" where
  "deliver_via_inject v sid body n s =
     (let sid = strip sid; jid = strip (tk_job (jt_rec n))
      in if sid = [] \<or> body = [] then (False, s)
         else if \<not> sv_present v then (False, s)
         else if sv_inflight v sid > 0
         then (if jid \<noteq> [] \<and> is_staged (JKey sid (tk_remote (jt_rec n)) jid) s then (True, s)
               else (True, stage_note sid body n s))
         else if \<not> sv_accepts v then (False, s)
         else (True, mark_notified (key_at sid n) (s\<lparr>jn_delivered := jn_delivered s @ [(sid, body, n)]\<rparr>)))"

text \<open>\<open>flush_pending_for_session\<close>.\<close>

definition flush_one :: "sched_view \<Rightarrow> str \<Rightarrow> str \<times> job_note \<Rightarrow> job_board \<Rightarrow> job_board" where
  "flush_one v sid item s =
     (case deliver_via_inject v sid (fst item) (snd item) s of
        (True, s') \<Rightarrow> s' | (False, s') \<Rightarrow> reset_staged (key_at sid (snd item)) s')"

definition flush_notes :: "sched_view \<Rightarrow> str \<Rightarrow> job_board \<Rightarrow> job_board" where
  "flush_notes v sid s =
     (let sid = strip sid
      in if sid = [] then s
         else fold (flush_one v sid) (pending_of sid s) (s\<lparr>jn_pending := dpop sid (jn_pending s)\<rparr>))"

definition suppress_notification :: "str \<Rightarrow> str \<Rightarrow> bool \<Rightarrow> job_board \<Rightarrow> bool \<times> job_board" where
  "suppress_notification sid jid remote s =
     (let sid = strip sid; jid = strip jid; k = JKey sid remote jid;
          ours = (\<lambda>(body, n). strip (tk_job (jt_rec n)) = jid \<and> tk_remote (jt_rec n) = remote);
          s1 = untrack k s;
          kept = filter (\<lambda>i. \<not> ours i) (pending_of sid s)
      in if sid = [] \<or> jid = [] then (False, s)
         else (tracks k s \<or> list_ex ours (pending_of sid s),
               if pending_of sid s = [] then s1 else s1\<lparr>jn_pending := put_list sid kept (jn_pending s1)\<rparr>))"

definition terminal_statuses :: "str list" where
  "terminal_statuses = [''finished'', ''failed'', ''timed_out'', ''cancelled'']"

text \<open>
  The answer to the query of a job: nothing after an exception; an unknown job has failed.
\<close>

datatype job_answer = Query_Failed | Unknown_Job | Status str "int option" bool

definition note_of :: "tracked \<Rightarrow> job_answer \<Rightarrow> job_note option" where
  "note_of r a =
     (let (status, exit_code, late) =
        (case a of Query_Failed \<Rightarrow> ([], None, False) | Unknown_Job \<Rightarrow> (''failed'', None, False) | Status t c l \<Rightarrow> (t, c, l))
      in if a = Query_Failed \<or> lower (strip status) \<notin> set terminal_statuses then None
         else Some \<lparr>jt_rec = r, jt_status = lower (strip status), jt_exit = exit_code, jt_timed_out = late\<rparr>)"

section \<open>The daemon's loop\<close>

text \<open>
  Where the poll is: between rounds, at a session, at a job of a session, waiting for the answer
  about a job. \<open>same\<close> tells whether the table of the session is the one the poll started with;
  a session whose table was emptied and made anew in between is skipped.
\<close>

datatype poll_state =
    Idle
  | At_Session "str list" "job_note list"
  | At_Job jkey "jkey list" "str list" "job_note list"
  | Asked jkey "jkey list" "str list" "job_note list"
  | Polled "job_note list"

definition next_job :: "jkey list \<Rightarrow> str list \<Rightarrow> job_note list \<Rightarrow> poll_state" where
  "next_job ks sids found = (case ks of [] \<Rightarrow> At_Session sids found | k # ks \<Rightarrow> At_Job k ks sids found)"

definition poll_start :: "nat \<Rightarrow> job_board \<Rightarrow> poll_state" where
  "poll_start max_items s = (if max_items = 0 then Polled [] else At_Session (map fst (jn_table s)) [])"

definition poll_session :: "bool \<Rightarrow> str list \<Rightarrow> job_note list \<Rightarrow> job_board \<Rightarrow> poll_state" where
  "poll_session same sids found s =
     (case sids of [] \<Rightarrow> Polled found
      | sid # sids \<Rightarrow> next_job (if same then keys_of sid s else []) sids found)"

definition poll_job :: "nat \<Rightarrow> jkey \<Rightarrow> jkey list \<Rightarrow> str list \<Rightarrow> job_note list \<Rightarrow> job_board \<Rightarrow> poll_state" where
  "poll_job max_items k ks sids found s =
     (if length found \<ge> max_items then At_Session sids found
      else case map_of (jn_recs s) k of
        None \<Rightarrow> next_job ks sids found
      | Some r \<Rightarrow> if tk_notified r \<or> tk_staged r then next_job ks sids found else Asked k ks sids found)"

definition poll_answer :: "jkey \<Rightarrow> jkey list \<Rightarrow> str list \<Rightarrow> job_note list \<Rightarrow> job_answer \<Rightarrow> job_board \<Rightarrow> poll_state" where
  "poll_answer k ks sids found a s =
     next_job ks sids (found @ (case map_of (jn_recs s) k of None \<Rightarrow> []
       | Some r \<Rightarrow> (case note_of r a of None \<Rightarrow> [] | Some n \<Rightarrow> [n])))"

definition deliver_all :: "(job_note \<Rightarrow> str) \<Rightarrow> sched_view \<Rightarrow> job_note list \<Rightarrow> job_board \<Rightarrow> job_board" where
  "deliver_all wording v found s =
     fold (\<lambda>n s. snd (deliver_via_inject v (tk_session (jt_rec n)) (wording n) n s)) found s"

inductive notify_step :: "(job_note \<Rightarrow> str) \<Rightarrow> nat \<Rightarrow> poll_state \<times> job_board \<Rightarrow> poll_state \<times> job_board \<Rightarrow> bool"
  for wording and max_items where
  register: "rec_key (clean_tracked r) \<notin> fst ` set (jn_recs s) \<Longrightarrow> notify_step wording max_items (p, s) (p, register_job r s)"
| start: "notify_step wording max_items (Idle, s) (poll_start max_items s, s)"
| session: "notify_step wording max_items (At_Session sids found, s) (poll_session same sids found s, s)"
| job: "notify_step wording max_items (At_Job k ks sids found, s) (poll_job max_items k ks sids found s, s)"
| answer: "notify_step wording max_items (Asked k ks sids found, s) (poll_answer k ks sids found a s, s)"
| deliver: "notify_step wording max_items (Polled found, s) (Idle, deliver_all wording v found s)"
| flush: "sv_inflight v (strip sid) \<le> 0 \<Longrightarrow> notify_step wording max_items (p, s) (p, flush_notes v sid s)"
| suppress: "notify_step wording max_items (p, s) (p, snd (suppress_notification sid jid remote s))"

inductive notify_reachable :: "(job_note \<Rightarrow> str) \<Rightarrow> nat \<Rightarrow> poll_state \<times> job_board \<Rightarrow> bool" for wording and max_items where
  initial: "notify_reachable wording max_items (Idle, no_notes)"
| further: "notify_reachable wording max_items x \<Longrightarrow> notify_step wording max_items x y \<Longrightarrow> notify_reachable wording max_items y"

section \<open>Views\<close>

definition pends :: "jkey \<Rightarrow> job_board \<Rightarrow> bool" where
  "pends k s \<longleftrightarrow> k \<in> set (map (note_key \<circ> snd) (pending_of (jk_session k) s))"

definition announced :: "job_board \<Rightarrow> jkey list" where
  "announced s = map (\<lambda>(sid, body, n). note_key n) (jn_delivered s)"

definition flagged :: "jkey \<Rightarrow> job_board \<Rightarrow> bool" where
  "flagged k s = (case map_of (jn_recs s) k of None \<Rightarrow> False | Some r \<Rightarrow> tk_staged r \<or> tk_notified r)"

definition staged_rec :: "jkey \<Rightarrow> job_board \<Rightarrow> bool" where
  "staged_rec k s = (case map_of (jn_recs s) k of None \<Rightarrow> False | Some r \<Rightarrow> tk_staged r)"

definition clean_rec :: "tracked \<Rightarrow> bool" where
  "clean_rec r \<longleftrightarrow> strip (tk_session r) = tk_session r \<and> tk_session r \<noteq> [] \<and> strip (tk_job r) = tk_job r \<and> tk_job r \<noteq> []"

lemma keys_of_simps [simp]:
  "keys_of sid (jn_recs_update f s) = keys_of sid s" "keys_of sid (jn_pending_update g s) = keys_of sid s"
  "keys_of sid (jn_delivered_update h s) = keys_of sid s"
  by (simp_all add: keys_of_def)

lemma pending_of_simps [simp]:
  "pending_of sid (jn_recs_update f s) = pending_of sid s" "pending_of sid (jn_table_update g s) = pending_of sid s"
  "pending_of sid (jn_delivered_update h s) = pending_of sid s"
  by (simp_all add: pending_of_def)

lemma put_list_get: "map_of (put_list sid xs d) sid' = (if sid' = sid then (if xs = [] then None else Some xs) else map_of d sid')"
  by (simp add: put_list_def)

lemma keys_of_untrack: "keys_of sid (untrack k s) = (if sid = jk_session k then removeAll k (keys_of sid s) else keys_of sid s)"
  by (simp add: untrack_def keys_of_def put_list_get split: option.split)

lemma update_rec_views [simp]:
  "keys_of sid (update_rec k f s) = keys_of sid s" "pending_of sid (update_rec k f s) = pending_of sid s"
  "jn_delivered (update_rec k f s) = jn_delivered s" "jn_table (update_rec k f s) = jn_table s"
  "jn_pending (update_rec k f s) = jn_pending s" "tracks k' (update_rec k f s) = tracks k' s"
  by (simp_all add: update_rec_def tracks_def split: option.split)

lemma untrack_views [simp]:
  "jn_recs (untrack k s) = jn_recs s" "jn_delivered (untrack k s) = jn_delivered s" "jn_pending (untrack k s) = jn_pending s"
  "pending_of sid (untrack k s) = pending_of sid s" "tracks k' (untrack k s) \<longleftrightarrow> tracks k' s \<and> k' \<noteq> k"
  by (simp_all add: untrack_def keys_of_untrack [unfolded untrack_def] tracks_def) (auto simp: pending_of_def keys_of_def put_list_get split: option.splits)

lemma update_rec_recs:
  "map_of (jn_recs (update_rec k f s)) k' =
     (if k' = k \<and> tracks k s then map_option f (map_of (jn_recs s) k) else map_of (jn_recs s) k')"
  by (auto simp: update_rec_def rec_of_def split: option.split)

section \<open>Invariant\<close>

text \<open>The announcements found so far and the job asked about; the jobs and sessions still ahead.\<close>

fun found_by :: "poll_state \<Rightarrow> job_note list" where
  "found_by Idle = []"
| "found_by (At_Session sids found) = found"
| "found_by (At_Job k ks sids found) = found"
| "found_by (Asked k ks sids found) = found"
| "found_by (Polled found) = found"

fun hot :: "poll_state \<Rightarrow> jkey list" where
  "hot (Asked k ks sids found) = k # map note_key found"
| "hot p = map note_key (found_by p)"

fun ahead :: "poll_state \<Rightarrow> jkey list" where
  "ahead (At_Job k ks sids found) = k # ks"
| "ahead (Asked k ks sids found) = ks"
| "ahead p = []"

fun sessions_ahead :: "poll_state \<Rightarrow> str list" where
  "sessions_ahead (At_Session sids found) = sids"
| "sessions_ahead (At_Job k ks sids found) = sids"
| "sessions_ahead (Asked k ks sids found) = sids"
| "sessions_ahead p = []"

definition records_ok :: "job_board \<Rightarrow> bool" where
  "records_ok s \<longleftrightarrow> dict_ok (jn_table s) \<and>
     (\<forall>k r. map_of (jn_recs s) k = Some r \<longrightarrow> rec_key r = k \<and> clean_rec r) \<and>
     (\<forall>sid k. k \<in> set (keys_of sid s) \<longrightarrow> jk_session k = sid \<and> map_of (jn_recs s) k \<noteq> None) \<and>
     (\<forall>sid. distinct (keys_of sid s)) \<and>
     (\<forall>k \<in> set (announced s). map_of (jn_recs s) k \<noteq> None)"

definition notes_ok :: "job_note list \<Rightarrow> job_board \<Rightarrow> bool" where
  "notes_ok ns s \<longleftrightarrow> (\<forall>n \<in> set ns. clean_rec (jt_rec n) \<and> map_of (jn_recs s) (note_key n) \<noteq> None)"

text \<open>\<open>xs\<close> are announcements a flush has taken out and not yet dealt with.\<close>

definition pending_ok :: "jkey list \<Rightarrow> job_board \<Rightarrow> bool" where
  "pending_ok xs s \<longleftrightarrow>
     (\<forall>sid. notes_ok (map snd (pending_of sid s)) s \<and> distinct (map (note_key \<circ> snd) (pending_of sid s)) \<and>
        (\<forall>i \<in> set (pending_of sid s). jk_session (note_key (snd i)) = sid \<and> fst i \<noteq> [])) \<and>
     distinct xs \<and> distinct (announced s) \<and>
     (\<forall>k. pends k s \<longrightarrow> k \<notin> set xs \<and> k \<notin> set (announced s)) \<and> set xs \<inter> set (announced s) = {} \<and>
     (\<forall>k. tracks k s \<longrightarrow> k \<notin> set (announced s) \<and> (staged_rec k s \<longleftrightarrow> pends k s \<or> k \<in> set xs))"

definition poll_ok :: "jkey list \<Rightarrow> poll_state \<Rightarrow> job_board \<Rightarrow> bool" where
  "poll_ok xs p s \<longleftrightarrow>
     notes_ok (found_by p) s \<and> distinct (hot p @ ahead p) \<and> distinct (sessions_ahead p) \<and>
     (\<forall>k \<in> set (hot p). \<not> pends k s \<and> k \<notin> set xs \<and> k \<notin> set (announced s)) \<and>
     (\<forall>k \<in> set (hot p @ ahead p). map_of (jn_recs s) k \<noteq> None \<and> jk_session k \<notin> set (sessions_ahead p)) \<and>
     (\<forall>k \<in> set (ahead p). pends k s \<or> k \<in> set xs \<or> k \<in> set (announced s) \<longrightarrow> flagged k s)"

definition board_ok :: "jkey list \<Rightarrow> poll_state \<Rightarrow> job_board \<Rightarrow> bool" where
  "board_ok xs p s \<longleftrightarrow> records_ok s \<and> pending_ok xs s \<and> poll_ok xs p s"

section \<open>Preservation\<close>

lemma board_ok_new: "board_ok [] Idle no_notes"
  by (simp add: board_ok_def records_ok_def pending_ok_def poll_ok_def notes_ok_def no_notes_def keys_of_def
      pending_of_def announced_def pends_def tracks_def dict_ok_def)

lemma tracked_facts:
  assumes "records_ok s" "tracks k s"
  obtains r where "map_of (jn_recs s) k = Some r" "rec_of k s = Some r" "rec_key r = k" "clean_rec r"
  using assms unfolding records_ok_def tracks_def rec_of_def by (metis option.exhaust)

lemma dict_ok_put_list: "dict_ok d \<Longrightarrow> dict_ok (put_list sid xs d)"
  by (simp add: put_list_def)

lemma mark_notified_views:
  assumes "records_ok s"
  shows "keys_of sid (mark_notified k s) = (if sid = jk_session k then removeAll k (keys_of sid s) else keys_of sid s)"
    "pending_of sid (mark_notified k s) = pending_of sid s" "jn_delivered (mark_notified k s) = jn_delivered s"
    "dict_ok (jn_table (mark_notified k s))"
    "map_of (jn_recs (mark_notified k s)) k' =
       (if k' = k \<and> tracks k s then map_option (tk_notified_update (\<lambda>_. True)) (map_of (jn_recs s) k) else map_of (jn_recs s) k')"
proof -
  have t: "tracks k s \<longleftrightarrow> rec_of k s \<noteq> None" using tracked_facts [OF assms] by (metis rec_of_def option.distinct(1))
  have "k \<notin> set (keys_of (jk_session k) s)" if "\<not> tracks k s" using that by (simp add: tracks_def)
  then show "keys_of sid (mark_notified k s) = (if sid = jk_session k then removeAll k (keys_of sid s) else keys_of sid s)"
    using t by (simp add: mark_notified_def keys_of_untrack)
  show "pending_of sid (mark_notified k s) = pending_of sid s" "jn_delivered (mark_notified k s) = jn_delivered s"
    by (simp_all add: mark_notified_def)
  have "dict_ok (jn_table s)" using assms by (simp add: records_ok_def)
  then show "dict_ok (jn_table (mark_notified k s))"
    by (simp add: mark_notified_def untrack_def dict_ok_put_list)
  show "map_of (jn_recs (mark_notified k s)) k' =
       (if k' = k \<and> tracks k s then map_option (tk_notified_update (\<lambda>_. True)) (map_of (jn_recs s) k) else map_of (jn_recs s) k')"
    using t by (auto simp: mark_notified_def update_rec_recs)
qed

definition announce :: "str \<Rightarrow> str \<Rightarrow> job_note \<Rightarrow> job_board \<Rightarrow> job_board" where
  "announce sid body n s = mark_notified (key_at sid n) (s\<lparr>jn_delivered := jn_delivered s @ [(sid, body, n)]\<rparr>)"

lemma key_at_note: "sid = tk_session (jt_rec n) \<Longrightarrow> key_at sid n = note_key n"
  by (simp add: key_at_def note_key_def)

lemma announce_views:
  assumes "records_ok s" "sid = tk_session (jt_rec n)" "map_of (jn_recs s) (note_key n) \<noteq> None"
  shows "records_ok (announce sid body n s)"
    "announced (announce sid body n s) = announced s @ [note_key n]"
    "pending_of sid' (announce sid body n s) = pending_of sid' s"
    "tracks k (announce sid body n s) \<longleftrightarrow> tracks k s \<and> k \<noteq> note_key n"
    "staged_rec k (announce sid body n s) = staged_rec k s"
    "flagged k s \<Longrightarrow> flagged k (announce sid body n s)"
    "map_of (jn_recs (announce sid body n s)) k = None \<longleftrightarrow> map_of (jn_recs s) k = None"
proof -
  let ?t = "s\<lparr>jn_delivered := jn_delivered s @ [(sid, body, n)]\<rparr>"
  have ok: "records_ok ?t" using assms(1,3) by (auto simp: records_ok_def announced_def)
  note v = mark_notified_views [OF ok]
  have tr: "tracks k ?t = tracks k s" for k by (simp add: tracks_def)
  have key: "key_at sid n = note_key n" using assms(2) by (rule key_at_note)
  show recs: "map_of (jn_recs (announce sid body n s)) k = None \<longleftrightarrow> map_of (jn_recs s) k = None" for k
    using key by (auto simp: announce_def v)
  show ann: "announced (announce sid body n s) = announced s @ [note_key n]"
    by (simp add: announce_def announced_def v)
  show "pending_of sid' (announce sid body n s) = pending_of sid' s" by (simp add: announce_def v)
  show "tracks k (announce sid body n s) \<longleftrightarrow> tracks k s \<and> k \<noteq> note_key n"
    using key by (auto simp: announce_def tracks_def v)
  show "staged_rec k (announce sid body n s) = staged_rec k s"
    using key by (auto simp: announce_def staged_rec_def v split: option.split)
  show "flagged k s \<Longrightarrow> flagged k (announce sid body n s)"
    using key by (auto simp: announce_def flagged_def v split: option.splits)
  have "rec_key r = k \<and> clean_rec r" if "map_of (jn_recs (announce sid body n s)) k = Some r" for k r
  proof -
    have "\<exists>r'. map_of (jn_recs s) k = Some r' \<and> (r = r' \<or> r = r'\<lparr>tk_notified := True\<rparr>)"
      using that unfolding announce_def v(5) tr by (auto split: if_splits)
    then obtain r' where "map_of (jn_recs s) k = Some r'" "r = r' \<or> r = r'\<lparr>tk_notified := True\<rparr>" by blast
    then show ?thesis using assms(1) by (auto simp: records_ok_def rec_key_def clean_rec_def)
  qed
  then show "records_ok (announce sid body n s)"
    using assms(1,3) ann recs v(1,4) key
    by (auto simp: records_ok_def announce_def distinct_removeAll)
qed

lemma pends_announce:
  assumes "records_ok s" "sid = tk_session (jt_rec n)" "map_of (jn_recs s) (note_key n) \<noteq> None"
  shows "pends k (announce sid body n s) = pends k s"
  by (simp add: pends_def announce_views(3) [OF assms])

lemma notes_ok_Nil [simp]: "notes_ok [] s"
  by (simp add: notes_ok_def)

lemma notes_ok_announce:
  assumes "records_ok s" "sid = tk_session (jt_rec n)" "map_of (jn_recs s) (note_key n) \<noteq> None"
  shows "notes_ok ns (announce sid body n s) = notes_ok ns s"
  unfolding notes_ok_def by (simp only: announce_views(7) [OF assms])

lemma pending_ok_announce:
  assumes "records_ok s" "sid = tk_session (jt_rec n)" "map_of (jn_recs s) (note_key n) \<noteq> None"
    "pending_ok ys s" "\<not> pends (note_key n) s" "note_key n \<notin> set (announced s)" "note_key n \<notin> set xs"
    "set ys - {note_key n} = set xs" "distinct xs"
  shows "pending_ok xs (announce sid body n s)"
proof -
  note v = announce_views [OF assms(1-3)] pends_announce [OF assms(1-3)] notes_ok_announce [OF assms(1-3)]
  note p = assms(4) [unfolded pending_ok_def]
  have a: "\<forall>k. pends k s \<longrightarrow> k \<notin> set xs \<and> k \<notin> set (announced s @ [note_key n])" using p assms(5,8) by auto
  have b: "set xs \<inter> set (announced s @ [note_key n]) = {}" using p assms(7,8) by auto
  have c: "\<forall>k. tracks k s \<and> k \<noteq> note_key n \<longrightarrow>
      k \<notin> set (announced s @ [note_key n]) \<and> (staged_rec k s \<longleftrightarrow> pends k s \<or> k \<in> set xs)"
    using p assms(8) by auto
  have d: "distinct (announced s @ [note_key n])" using p assms(6) by simp
  show ?thesis unfolding pending_ok_def v using p a b c d assms(9) by blast
qed

lemma poll_ok_announce:
  assumes "records_ok s" "sid = tk_session (jt_rec n)" "map_of (jn_recs s) (note_key n) \<noteq> None"
    "poll_ok (note_key n # xs) p s"
  shows "poll_ok xs p (announce sid body n s)"
proof -
  note v = announce_views [OF assms(1-3)] pends_announce [OF assms(1-3)] notes_ok_announce [OF assms(1-3)]
  show ?thesis
    using assms(4) v(6) unfolding poll_ok_def v(2) v(7-9) by auto
qed

lemma board_ok_drop: "board_ok xs (Polled (n # ns)) s \<Longrightarrow> board_ok xs (Polled ns) s"
  by (simp add: board_ok_def poll_ok_def notes_ok_def)

lemma clean_key:
  assumes "clean_rec (jt_rec n)"
  shows "strip (tk_session (jt_rec n)) = tk_session (jt_rec n)" "strip (tk_job (jt_rec n)) = tk_job (jt_rec n)"
    "key_at (tk_session (jt_rec n)) n = note_key n" "tk_session (jt_rec n) \<noteq> []" "tk_job (jt_rec n) \<noteq> []"
    "jk_session (note_key n) = tk_session (jt_rec n)"
  using assms by (simp_all add: clean_rec_def key_at_def note_key_def)

lemma staging:
  assumes "clean_rec (jt_rec n)" "body \<noteq> []"
  shows "stage_note (tk_session (jt_rec n)) body n s =
    (update_rec (note_key n) (tk_staged_update (\<lambda>_. True)) s)
      \<lparr>jn_pending := dset (tk_session (jt_rec n)) (pending_of (tk_session (jt_rec n)) s @ [(body, n)]) (jn_pending s)\<rparr>"
  using assms by (simp add: stage_note_def clean_rec_def note_key_def Let_def)

lemma staging_views:
  fixes s :: job_board
  assumes "clean_rec (jt_rec n)" "body \<noteq> []"
  defines "t \<equiv> stage_note (tk_session (jt_rec n)) body n s"
  shows "keys_of sid t = keys_of sid s" "jn_table t = jn_table s" "tracks k t = tracks k s" "announced t = announced s"
    "pending_of sid t = (if sid = tk_session (jt_rec n) then pending_of sid s @ [(body, n)] else pending_of sid s)"
    "pends k t \<longleftrightarrow> pends k s \<or> k = note_key n"
    "map_of (jn_recs t) k = (if k = note_key n \<and> tracks k s then map_option (tk_staged_update (\<lambda>_. True)) (map_of (jn_recs s) k)
       else map_of (jn_recs s) k)"
proof -
  note st = staging [OF assms(1,2), of s, folded t_def]
  show "keys_of sid t = keys_of sid s" "jn_table t = jn_table s" "tracks k t = tracks k s" "announced t = announced s"
    by (simp_all add: st tracks_def announced_def)
  show p: "pending_of sid t = (if sid = tk_session (jt_rec n) then pending_of sid s @ [(body, n)] else pending_of sid s)" for sid
    by (simp add: st pending_of_def)
  show "pends k t \<longleftrightarrow> pends k s \<or> k = note_key n"
    using clean_key(6) [OF assms(1)] by (auto simp: pends_def p)
  show "map_of (jn_recs t) k = (if k = note_key n \<and> tracks k s then map_option (tk_staged_update (\<lambda>_. True)) (map_of (jn_recs s) k)
       else map_of (jn_recs s) k)"
    by (auto simp: st update_rec_recs)
qed

lemma records_ok_recs:
  assumes "records_ok s" "dict_ok (jn_table t)" "\<And>sid. keys_of sid t = keys_of sid s" "announced t = announced s"
    "\<And>k. map_of (jn_recs t) k = (if c k then map_option f (map_of (jn_recs s) k) else map_of (jn_recs s) k)"
    "\<And>r. rec_key (f r) = rec_key r" "\<And>r. clean_rec (f r) = clean_rec r"
  shows "records_ok t"
proof -
  have "rec_key r = k \<and> clean_rec r" if "map_of (jn_recs t) k = Some r" for k r
    using that assms(1,6,7) unfolding assms(5) records_ok_def by (auto split: if_splits)
  moreover have "map_of (jn_recs t) k = None \<longleftrightarrow> map_of (jn_recs s) k = None" for k by (simp add: assms(5))
  ultimately show ?thesis using assms(1-4) unfolding records_ok_def by metis
qed

lemma flag_kept:
  "rec_key (r\<lparr>tk_staged := b\<rparr>) = rec_key r" "clean_rec (r\<lparr>tk_staged := b\<rparr>) = clean_rec r"
  by (simp_all add: rec_key_def clean_rec_def)

lemma board_ok_stage:
  assumes "board_ok [] (Polled (n # ns)) s" "body \<noteq> []"
  shows "board_ok [] (Polled ns) (stage_note (tk_session (jt_rec n)) body n s)"
proof -
  note b = assms(1) [unfolded board_ok_def]
  have n: "clean_rec (jt_rec n)" "map_of (jn_recs s) (note_key n) \<noteq> None" "\<not> pends (note_key n) s"
      "note_key n \<notin> set (announced s)" "note_key n \<notin> set (map note_key ns)"
    using b by (auto simp: poll_ok_def notes_ok_def)
  note v = staging_views [OF n(1) assms(2)]
  let ?t = "stage_note (tk_session (jt_rec n)) body n s"
  have dom: "map_of (jn_recs ?t) k = None \<longleftrightarrow> map_of (jn_recs s) k = None" for k by (simp add: v)
  have nk: "notes_ok xs ?t = notes_ok xs s" for xs by (simp only: notes_ok_def dom)
  have "records_ok ?t"
    by (rule records_ok_recs [of s _ "\<lambda>k. k = note_key n \<and> tracks k s" "tk_staged_update (\<lambda>_. True)"])
      (use b v in \<open>auto simp: records_ok_def flag_kept\<close>)
  moreover have "staged_rec k ?t \<longleftrightarrow> staged_rec k s \<or> k = note_key n" if "tracks k s" for k
    using that n(2) by (auto simp: staged_rec_def v split: option.split)
  then have "pending_ok [] ?t"
    using b n clean_key(6) [OF n(1)] assms(2)
    by (auto simp: pending_ok_def v nk notes_ok_def pends_def)
  moreover have "poll_ok [] (Polled ns) ?t"
    using b n by (auto simp: poll_ok_def nk dom v notes_ok_def intro: rev_image_eqI)
  ultimately show ?thesis by (simp add: board_ok_def)
qed

lemma board_ok_announce_found:
  assumes "board_ok [] (Polled (n # ns)) s"
  shows "board_ok [] (Polled ns) (announce (tk_session (jt_rec n)) body n s)"
proof -
  note b = assms [unfolded board_ok_def]
  have n: "map_of (jn_recs s) (note_key n) \<noteq> None" "\<not> pends (note_key n) s" "note_key n \<notin> set (announced s)"
    using b by (auto simp: poll_ok_def)
  note a = refl [of "tk_session (jt_rec n)"] n(1)
  have "poll_ok [note_key n] (Polled ns) s"
    using b by (auto simp: poll_ok_def notes_ok_def intro: rev_image_eqI)
  then show ?thesis
    using b announce_views(1) [OF _ a] pending_ok_announce [OF _ a, of "[]" "[]"] n poll_ok_announce [OF _ a]
    by (auto simp: board_ok_def)
qed

lemma board_ok_deliver:
  assumes "board_ok [] (Polled (n # ns)) s"
  shows "board_ok [] (Polled ns) (snd (deliver_via_inject v (tk_session (jt_rec n)) body n s))"
proof -
  have "clean_rec (jt_rec n)" using assms by (simp add: board_ok_def poll_ok_def notes_ok_def)
  note k = clean_key [OF this]
  show ?thesis
    using board_ok_drop [OF assms] board_ok_stage [OF assms] board_ok_announce_found [OF assms] k
    by (auto simp: deliver_via_inject_def Let_def announce_def)
qed

lemma board_ok_deliver_all:
  "board_ok [] (Polled found) s \<Longrightarrow> board_ok [] Idle (deliver_all wording v found s)"
proof (induction found arbitrary: s)
  case Nil
  then show ?case by (simp add: deliver_all_def board_ok_def poll_ok_def)
next
  case (Cons n ns)
  then show ?case using board_ok_deliver [OF Cons.prems] by (simp add: deliver_all_def)
qed

lemma flush_start:
  assumes "board_ok [] p s"
  shows "board_ok (map (note_key \<circ> snd) (pending_of sid s)) p (s\<lparr>jn_pending := dpop sid (jn_pending s)\<rparr>)"
proof -
  let ?t = "s\<lparr>jn_pending := dpop sid (jn_pending s)\<rparr>"
  let ?xs = "map (note_key \<circ> snd) (pending_of sid s)"
  note b = assms [unfolded board_ok_def]
  have v: "pending_of sid' ?t = (if sid' = sid then [] else pending_of sid' s)" for sid'
    by (simp add: pending_of_def)
  have tr: "tracks k ?t = tracks k s" "announced ?t = announced s" "staged_rec k ?t = staged_rec k s"
      "flagged k ?t = flagged k s" "notes_ok ns ?t = notes_ok ns s" for k ns
    by (simp_all add: tracks_def keys_of_def announced_def staged_rec_def flagged_def notes_ok_def)
  have keys: "jk_session k = sid" if "k \<in> set ?xs" for k
    using b that by (auto simp: pending_ok_def)
  have split: "pends k s \<longleftrightarrow> pends k ?t \<or> k \<in> set ?xs" for k
    using keys [of k] by (auto simp: pends_def v)
  have out: "k \<notin> set ?xs" if "pends k ?t" for k
    using keys [of k] that by (auto simp: pends_def v split: if_splits)
  have "records_ok ?t" using b by (simp add: records_ok_def keys_of_def announced_def)
  moreover have "pending_ok ?xs ?t"
    unfolding pending_ok_def v tr using b split out by (auto simp: pending_ok_def)
  moreover have "poll_ok ?xs p ?t"
    unfolding poll_ok_def tr using b split by (auto simp: poll_ok_def)
  ultimately show ?thesis by (simp add: board_ok_def)
qed

lemma board_ok_reset:
  assumes "board_ok (k # xs) p s"
  shows "board_ok xs p (reset_staged k s)"
proof -
  note b = assms [unfolded board_ok_def]
  let ?t = "reset_staged k s"
  have v: "keys_of sid ?t = keys_of sid s" "pending_of sid ?t = pending_of sid s" "jn_table ?t = jn_table s"
      "announced ?t = announced s" "tracks j ?t = tracks j s" "pends j ?t = pends j s" for sid j
    by (simp_all add: reset_staged_def announced_def pends_def)
  have recs: "map_of (jn_recs ?t) j = (if j = k \<and> tracks k s then map_option (tk_staged_update (\<lambda>_. False)) (map_of (jn_recs s) j)
       else map_of (jn_recs s) j)" for j
    by (auto simp: reset_staged_def update_rec_recs)
  have dom: "map_of (jn_recs ?t) j = None \<longleftrightarrow> map_of (jn_recs s) j = None" for j by (simp add: recs)
  have nk: "notes_ok ns ?t = notes_ok ns s" for ns by (simp only: notes_ok_def dom)
  have st: "staged_rec j ?t \<longleftrightarrow> staged_rec j s \<and> j \<noteq> k" if "tracks j s" for j
    using that by (auto simp: staged_rec_def recs split: option.split)
  have fl: "flagged j ?t = flagged j s" if "j \<noteq> k" for j using that by (simp add: flagged_def recs)
  have k: "\<not> pends k s" "k \<notin> set xs" "k \<notin> set (announced s)" using b by (auto simp: pending_ok_def)
  have "records_ok ?t"
    by (rule records_ok_recs [of s _ "\<lambda>j. j = k \<and> tracks k s" "tk_staged_update (\<lambda>_. False)"])
      (use b v recs in \<open>auto simp: records_ok_def flag_kept\<close>)
  moreover have "pending_ok xs ?t"
    unfolding pending_ok_def v nk using b k st by (auto simp: pending_ok_def)
  moreover have "flagged j ?t" if "j \<in> set (ahead p)" "pends j s \<or> j \<in> set xs \<or> j \<in> set (announced s)" for j
  proof -
    have "j \<noteq> k" using that(2) k by auto
    then show ?thesis using that b fl by (auto simp: poll_ok_def)
  qed
  then have "poll_ok xs p ?t"
    unfolding poll_ok_def v nk dom using b by (auto simp: poll_ok_def)
  ultimately show ?thesis by (simp add: board_ok_def)
qed

lemma flush_one_cases:
  assumes "clean_rec (jt_rec (snd i))" "sv_inflight v (tk_session (jt_rec (snd i))) \<le> 0"
  shows "flush_one v (tk_session (jt_rec (snd i))) i s =
    (if fst i \<noteq> [] \<and> sv_present v \<and> sv_accepts v then announce (tk_session (jt_rec (snd i))) (fst i) (snd i) s
     else reset_staged (note_key (snd i)) s)"
  using assms(2) clean_key [OF assms(1)]
  by (auto simp: flush_one_def deliver_via_inject_def Let_def announce_def)

lemma board_ok_flush_one:
  assumes "board_ok (note_key (snd i) # xs) p s" "clean_rec (jt_rec (snd i))"
    "map_of (jn_recs s) (note_key (snd i)) \<noteq> None" "sv_inflight v (tk_session (jt_rec (snd i))) \<le> 0"
  shows "board_ok xs p (flush_one v (tk_session (jt_rec (snd i))) i s)"
proof -
  note b = assms(1) [unfolded board_ok_def]
  have n: "\<not> pends (note_key (snd i)) s" "note_key (snd i) \<notin> set (announced s)" "note_key (snd i) \<notin> set xs" "distinct xs"
    using b by (auto simp: pending_ok_def)
  note a = refl [of "tk_session (jt_rec (snd i))"] assms(3)
  have "set (note_key (snd i) # xs) - {note_key (snd i)} = set xs" using n(3) by auto
  then have "board_ok xs p (announce (tk_session (jt_rec (snd i))) (fst i) (snd i) s)"
    using b announce_views(1) [OF _ a] pending_ok_announce [OF _ a _ n(1,2,3) _ n(4)] poll_ok_announce [OF _ a]
    unfolding board_ok_def by blast
  then show ?thesis using board_ok_reset [OF assms(1)] by (simp add: flush_one_cases [OF assms(2,4)])
qed

lemma recs_flush_one:
  assumes "records_ok s" "clean_rec (jt_rec (snd i))" "map_of (jn_recs s) (note_key (snd i)) \<noteq> None"
    "sv_inflight v (tk_session (jt_rec (snd i))) \<le> 0"
  shows "map_of (jn_recs (flush_one v (tk_session (jt_rec (snd i))) i s)) k = None \<longleftrightarrow> map_of (jn_recs s) k = None"
  using announce_views(7) [OF assms(1) refl assms(3), of "fst i" k] update_rec_recs [of "note_key (snd i)" _ s k]
  by (auto simp: flush_one_cases [OF assms(2,4)] reset_staged_def)

lemma board_ok_flush_fold:
  "board_ok (map (note_key \<circ> snd) items) p s \<Longrightarrow> notes_ok (map snd items) s \<Longrightarrow>
   \<forall>i \<in> set items. tk_session (jt_rec (snd i)) = sid \<Longrightarrow> sv_inflight v sid \<le> 0 \<Longrightarrow>
   board_ok [] p (fold (flush_one v sid) items s)"
proof (induction items arbitrary: s)
  case (Cons i items)
  have c: "clean_rec (jt_rec (snd i))" "map_of (jn_recs s) (note_key (snd i)) \<noteq> None" "tk_session (jt_rec (snd i)) = sid"
    using Cons.prems by (auto simp: notes_ok_def)
  have first: "board_ok (note_key (snd i) # map (note_key \<circ> snd) items) p s"
    using Cons.prems(1) by (simp add: comp_def)
  have "sv_inflight v (tk_session (jt_rec (snd i))) \<le> 0" using Cons.prems(4) c(3) by simp
  from board_ok_flush_one [OF first c(1,2) this]
  have ok: "board_ok (map (note_key \<circ> snd) items) p (flush_one v sid i s)" unfolding c(3) .
  moreover have "notes_ok (map snd items) (flush_one v sid i s)"
    using recs_flush_one [of s i v] Cons.prems c by (simp add: notes_ok_def board_ok_def)
  ultimately show ?case using Cons.IH Cons.prems by (simp add: comp_def)
qed simp

lemma board_ok_flush:
  assumes "board_ok [] p s" "sv_inflight v (strip sid) \<le> 0"
  shows "board_ok [] p (flush_notes v sid s)"
proof -
  let ?items = "pending_of (strip sid) s"
  have n: "notes_ok (map snd ?items) s" "\<forall>i \<in> set ?items. jk_session (note_key (snd i)) = strip sid"
    using assms(1) by (auto simp: board_ok_def pending_ok_def)
  have "\<forall>i \<in> set ?items. tk_session (jt_rec (snd i)) = strip sid" using n(2) by (simp add: note_key_def)
  moreover have "notes_ok (map snd ?items) (s\<lparr>jn_pending := dpop (strip sid) (jn_pending s)\<rparr>)"
    using n(1) by (simp add: notes_ok_def)
  ultimately show ?thesis
    using board_ok_flush_fold [OF flush_start [OF assms(1)] _ _ assms(2)] assms(1) by (simp add: flush_notes_def Let_def)
qed

lemma suppress_views:
  fixes s :: job_board and remote :: bool
  assumes "board_ok [] p s" "strip sid \<noteq> []" "strip jid \<noteq> []"
  defines "k \<equiv> JKey (strip sid) remote (strip jid)" and "t \<equiv> snd (suppress_notification sid jid remote s)"
  shows "keys_of sid' t = (if sid' = jk_session k then removeAll k (keys_of sid' s) else keys_of sid' s)"
    "pending_of sid' t = (if sid' = jk_session k then filter (\<lambda>i. note_key (snd i) \<noteq> k) (pending_of sid' s) else pending_of sid' s)"
    "jn_recs t = jn_recs s" "jn_delivered t = jn_delivered s" "dict_ok (jn_table t)"
proof -
  let ?ours = "\<lambda>(body, n). strip (tk_job (jt_rec n)) = strip jid \<and> tk_remote (jt_rec n) = remote"
  have "(case i of (body, n) \<Rightarrow> ?ours (body, n)) \<longleftrightarrow> note_key (snd i) = k" if "i \<in> set (pending_of (strip sid) s)" for i
  proof -
    have "clean_rec (jt_rec (snd i))" "jk_session (note_key (snd i)) = strip sid"
      using assms(1) that by (auto simp: board_ok_def pending_ok_def notes_ok_def)
    then show ?thesis using clean_key(2) [of "snd i"] by (cases i) (auto simp: note_key_def k_def)
  qed
  then have "filter (\<lambda>i. \<not> ?ours i) (pending_of (strip sid) s) = filter (\<lambda>i. note_key (snd i) \<noteq> k) (pending_of (strip sid) s)"
    by (intro filter_cong) auto
  then have t: "t = (if pending_of (strip sid) s = [] then untrack k s
     else (untrack k s)\<lparr>jn_pending := put_list (strip sid) (filter (\<lambda>i. note_key (snd i) \<noteq> k) (pending_of (strip sid) s)) (jn_pending s)\<rparr>)"
    using assms(2,3) by (simp add: t_def suppress_notification_def k_def Let_def)
  have "jk_session k = strip sid" by (simp add: k_def)
  then show "keys_of sid' t = (if sid' = jk_session k then removeAll k (keys_of sid' s) else keys_of sid' s)"
    "pending_of sid' t = (if sid' = jk_session k then filter (\<lambda>i. note_key (snd i) \<noteq> k) (pending_of sid' s) else pending_of sid' s)"
    "jn_recs t = jn_recs s" "jn_delivered t = jn_delivered s"
    by (auto simp: t keys_of_untrack pending_of_def put_list_get split: option.split)
  show "dict_ok (jn_table t)"
    using assms(1) by (simp add: t untrack_def dict_ok_put_list board_ok_def records_ok_def)
qed

lemma board_ok_suppress:
  assumes "board_ok [] p s"
  shows "board_ok [] p (snd (suppress_notification sid jid remote s))"
proof (cases "strip sid = [] \<or> strip jid = []")
  case True
  then show ?thesis using assms by (simp add: suppress_notification_def Let_def)
next
  case False
  let ?t = "snd (suppress_notification sid jid remote s)"
  define k where "k = JKey (strip sid) remote (strip jid)"
  note v = suppress_views [OF assms, where sid = sid and jid = jid and remote = remote, folded k_def]
  note b = assms [unfolded board_ok_def]
  have tr: "tracks j ?t \<longleftrightarrow> tracks j s \<and> j \<noteq> k" "pends j ?t \<longleftrightarrow> pends j s \<and> j \<noteq> k" "announced ?t = announced s"
      "staged_rec j ?t = staged_rec j s" "flagged j ?t = flagged j s" "notes_ok ns ?t = notes_ok ns s" for j ns
    using False by (auto simp: tracks_def pends_def announced_def staged_rec_def flagged_def notes_ok_def v)
  have "records_ok ?t" using b False by (auto simp: records_ok_def v tr distinct_removeAll)
  moreover have "distinct (map (note_key \<circ> snd) (pending_of sid' ?t))" for sid'
    using b False by (auto simp: pending_ok_def v intro: distinct_map_filter)
  moreover have "set (pending_of sid' ?t) \<subseteq> set (pending_of sid' s)" for sid' using False by (auto simp: v)
  then have "notes_ok (map snd (pending_of sid' ?t)) s \<and>
      (\<forall>i \<in> set (pending_of sid' ?t). jk_session (note_key (snd i)) = sid' \<and> fst i \<noteq> [])" for sid'
    using b unfolding pending_ok_def notes_ok_def set_map by (meson image_mono subsetD)
  ultimately have "records_ok ?t" "pending_ok [] ?t"
    using b by (auto simp: pending_ok_def tr)
  moreover have "poll_ok [] p ?t"
    using b False by (auto simp: poll_ok_def tr v)
  ultimately show ?thesis by (simp add: board_ok_def)
qed

lemma board_ok_register:
  assumes "board_ok [] p s" "rec_key (clean_tracked r) \<notin> fst ` set (jn_recs s)"
  shows "board_ok [] p (register_job r s)"
proof (cases "tk_session (clean_tracked r) = [] \<or> tk_job (clean_tracked r) = [] \<or>
    tk_remote (clean_tracked r) \<and> opt_str (tk_login (clean_tracked r)) = []")
  case True
  then show ?thesis using assms(1) unfolding register_job_def Let_def by (simp only: if_True)
next
  case False
  let ?r = "clean_tracked r" and ?t = "register_job r s"
  define k where "k = rec_key ?r"
  note b = assms(1) [unfolded board_ok_def]
  have new: "map_of (jn_recs s) k = None" using assms(2) by (simp add: k_def map_of_eq_None_iff)
  have clean: "clean_rec ?r" using False by (simp add: clean_rec_def clean_tracked_def)
  have "map_of (jn_recs s) k \<noteq> None" if "k \<in> set (keys_of sid s) \<or> k \<in> set (announced s)" for sid
    using b that unfolding records_ok_def by blast
  then have unknown: "k \<notin> set (keys_of sid s)" "k \<notin> set (announced s)" for sid using new by blast+
  have "map_of (jn_recs s) k \<noteq> None" if "pends k s"
    using b that unfolding pending_ok_def notes_ok_def pends_def by fastforce
  then have quiet: "\<not> pends k s" using new by blast
  have "\<not> tracks k s" using unknown(1) by (simp add: tracks_def)
  note unknown = unknown this quiet
  have t: "?t = s\<lparr>jn_recs := dset k ?r (jn_recs s), jn_table := dset (jk_session k) (keys_of (jk_session k) s @ [k]) (jn_table s)\<rparr>"
    using False unknown(1) unfolding register_job_def Let_def k_def by (simp only: if_False)
  have v: "keys_of sid ?t = (if sid = jk_session k then keys_of sid s @ [k] else keys_of sid s)"
      "pending_of sid ?t = pending_of sid s" "announced ?t = announced s" "pends j ?t = pends j s"
      "tracks j ?t \<longleftrightarrow> tracks j s \<or> j = k" "map_of (jn_recs ?t) j = (if j = k then Some ?r else map_of (jn_recs s) j)" for sid j
    by (auto simp: t keys_of_def pending_of_def announced_def pends_def tracks_def)
  have same: "staged_rec j ?t = staged_rec j s" "flagged j ?t = flagged j s" if "j \<noteq> k" for j
    using that by (simp_all add: staged_rec_def flagged_def v)
  have nk: "notes_ok ns s \<Longrightarrow> notes_ok ns ?t" for ns by (auto simp: notes_ok_def v)
  have "dict_ok (jn_table ?t)" using b by (simp add: t records_ok_def)
  then have "records_ok ?t"
    using b clean unknown(1) by (auto simp: records_ok_def v k_def)
  moreover have "\<not> staged_rec k ?t" by (simp add: staged_rec_def v clean_tracked_def)
  moreover have "staged_rec j ?t = staged_rec j s" if "tracks j s" for j using that unknown(3) same(1) by metis
  ultimately have "records_ok ?t" "pending_ok [] ?t"
    using b unknown nk by (auto simp: pending_ok_def v)
  moreover have "flagged j ?t = flagged j s" if "j \<in> set (ahead p)" for j
  proof -
    have "map_of (jn_recs s) j \<noteq> None" using b that unfolding poll_ok_def by simp
    then have "j \<noteq> k" using new by blast
    then show ?thesis by (rule same(2))
  qed
  then have "poll_ok [] p ?t"
    using b new nk unfolding poll_ok_def v by auto
  ultimately show ?thesis by (simp add: board_ok_def)
qed

lemma next_job_simps [simp]:
  "found_by (next_job ks sids found) = found" "hot (next_job ks sids found) = map note_key found"
  "ahead (next_job ks sids found) = ks" "sessions_ahead (next_job ks sids found) = sids"
  by (simp_all add: next_job_def split: list.split)

lemma board_ok_start: "board_ok [] Idle s \<Longrightarrow> board_ok [] (poll_start max_items s) s"
  by (auto simp: board_ok_def poll_ok_def poll_start_def notes_ok_def records_ok_def dict_ok_def)

lemma board_ok_session:
  assumes "board_ok [] (At_Session sids found) s"
  shows "board_ok [] (poll_session same sids found s) s"
proof (cases sids)
  case Nil
  then show ?thesis using assms by (simp add: board_ok_def poll_ok_def poll_session_def)
next
  case (Cons sid rest)
  note b = assms [unfolded board_ok_def]
  have "k \<in> set (keys_of sid s) \<Longrightarrow> jk_session k = sid \<and> map_of (jn_recs s) k \<noteq> None \<and> tracks k s" for k
    using b by (auto simp: records_ok_def tracks_def)
  moreover have "flagged k s" if "tracks k s" "pends k s \<or> k \<in> set (announced s)" for k
    using b that by (auto simp: pending_ok_def flagged_def staged_rec_def split: option.splits)
  moreover have "distinct (keys_of sid s)" using b by (simp add: records_ok_def)
  ultimately show ?thesis
    using b Cons by (auto simp: board_ok_def poll_ok_def poll_session_def)
qed

lemma board_ok_job:
  assumes "board_ok [] (At_Job k ks sids found) s"
  shows "board_ok [] (poll_job max_items k ks sids found s) s"
  using assms by (auto simp: board_ok_def poll_ok_def poll_job_def flagged_def split: option.splits)

lemma board_ok_answer:
  assumes "board_ok [] (Asked k ks sids found) s"
  shows "board_ok [] (poll_answer k ks sids found a s) s"
proof -
  note b = assms [unfolded board_ok_def]
  obtain r where r: "map_of (jn_recs s) k = Some r" "rec_key r = k" "clean_rec r"
    using b by (auto simp: poll_ok_def records_ok_def)
  have n: "note_key n = k \<and> jt_rec n = r" if "note_of r a = Some n" for n
    using that r(2) by (auto simp: note_of_def note_key_def rec_key_def split: job_answer.splits if_splits prod.splits)
  show ?thesis
  proof (cases "note_of r a")
    case None
    then show ?thesis using b r(1) by (simp add: board_ok_def poll_ok_def poll_answer_def)
  next
    case (Some m)
    then have "poll_answer k ks sids found a s = next_job ks sids (found @ [m])" using r(1) by (simp add: poll_answer_def)
    moreover have "notes_ok (found @ [m]) s" using b r n [OF Some] by (simp add: poll_ok_def notes_ok_def)
    ultimately show ?thesis using b n [OF Some] by (auto simp: board_ok_def poll_ok_def)
  qed
qed

lemma board_ok_step:
  assumes "notify_step wording max_items x y" "board_ok [] (fst x) (snd x)"
  shows "board_ok [] (fst y) (snd y)"
  using assms
  by (induction rule: notify_step.induct)
    (simp_all add: board_ok_register board_ok_start board_ok_session board_ok_job board_ok_answer board_ok_deliver_all
      board_ok_flush board_ok_suppress)

lemma board_ok_reachable: "notify_reachable wording max_items x \<Longrightarrow> board_ok [] (fst x) (snd x)"
  by (induction rule: notify_reachable.induct) (auto simp: board_ok_new dest: board_ok_step)

text \<open>C10: However the poll of the daemon, the flushes of sessions that come to rest, registrations and suppressions interleave, the end of a job is announced to its session at most once.\<close>

theorem job_announced_once:
  assumes "notify_reachable wording max_items (p, s)"
  shows "distinct (announced s)"
  using board_ok_reachable [OF assms] by (simp add: board_ok_def pending_ok_def)

lemma flush_announces:
  assumes "sv_present v" "sv_accepts v" "sv_inflight v sid \<le> 0"
  shows "\<lbrakk>board_ok (map (note_key \<circ> snd) items) p s; notes_ok (map snd items) s;
      \<forall>i \<in> set items. tk_session (jt_rec (snd i)) = sid \<and> fst i \<noteq> []\<rbrakk> \<Longrightarrow>
    announced (fold (flush_one v sid) items s) = announced s @ map (note_key \<circ> snd) items"
proof (induction items arbitrary: s)
  case (Cons i items)
  have c: "clean_rec (jt_rec (snd i))" "map_of (jn_recs s) (note_key (snd i)) \<noteq> None" "tk_session (jt_rec (snd i)) = sid" "fst i \<noteq> []"
    using Cons.prems by (auto simp: notes_ok_def)
  have ok: "records_ok s" using Cons.prems(1) by (simp add: board_ok_def)
  have one: "flush_one v sid i s = announce sid (fst i) (snd i) s"
    using flush_one_cases [OF c(1), of v s] assms c(3,4) by simp
  note v = announce_views [OF ok c(3) [symmetric] c(2)]
  have first: "board_ok (note_key (snd i) # map (note_key \<circ> snd) items) p s"
    using Cons.prems(1) by (simp add: comp_def)
  have "sv_inflight v (tk_session (jt_rec (snd i))) \<le> 0" using assms(3) c(3) by simp
  from board_ok_flush_one [OF first c(1,2) this]
  have "board_ok (map (note_key \<circ> snd) items) p (announce sid (fst i) (snd i) s)" unfolding c(3) one .
  moreover have "notes_ok (map snd items) (announce sid (fst i) (snd i) s)"
    using Cons.prems(2) v(7) by (simp add: notes_ok_def)
  ultimately show ?case using Cons.IH Cons.prems(3) v(2) by (simp add: one comp_def)
qed simp

text \<open>An announcement kept for a busy session is not lost: in every reachable state, a job marked as staged is announced by the next flush of its session, once the scheduler takes requests.\<close>

theorem staged_job_is_announced:
  assumes "notify_reachable wording max_items (p, s)" "is_staged k s"
    "sv_present v" "sv_accepts v" "sv_inflight v (jk_session k) \<le> 0"
  shows "k \<in> set (announced (flush_notes v (jk_session k) s))"
proof -
  have b: "board_ok [] p s" using board_ok_reachable [OF assms(1)] by simp
  have k: "tracks k s" "staged_rec k s"
    using assms(2) by (auto simp: is_staged_def rec_of_def staged_rec_def split: if_splits option.splits)
  let ?sid = "jk_session k" and ?items = "pending_of (jk_session k) s"
  have "pends k s" using b k by (auto simp: board_ok_def pending_ok_def)
  then have mem: "k \<in> set (map (note_key \<circ> snd) ?items)" by (simp add: pends_def)
  have items: "notes_ok (map snd ?items) s" "\<forall>i \<in> set ?items. jk_session (note_key (snd i)) = ?sid \<and> fst i \<noteq> []"
    using b by (auto simp: board_ok_def pending_ok_def)
  obtain r where "map_of (jn_recs s) k = Some r" "rec_key r = k" "clean_rec r"
    using tracked_facts [OF _ k(1)] b by (auto simp: board_ok_def)
  then have sid: "strip ?sid = ?sid" "?sid \<noteq> []" by (auto simp: clean_rec_def rec_key_def)
  have "announced (flush_notes v ?sid s) = announced (s\<lparr>jn_pending := dpop ?sid (jn_pending s)\<rparr>) @ map (note_key \<circ> snd) ?items"
    unfolding flush_notes_def Let_def sid(1) using sid(2) items
    by (subst if_not_P, simp, intro flush_announces [OF assms(3-5) flush_start [OF b]])
      (auto simp: notes_ok_def note_key_def)
  then show ?thesis using mem by simp
qed

section \<open>A job from its registration to its announcement\<close>

definition demo_tracked :: tracked where
  "demo_tracked = \<lparr>tk_session = ''s'', tk_job = ''j'', tk_remote = False, tk_command = ''make'', tk_cwd = ''/w'',
     tk_log = ''/w/l'', tk_workspace = Some ''/w'', tk_login = None, tk_frontend = ''cli'', tk_source = ''cli'',
     tk_user = ''root'', tk_metadata = [], tk_notified = False, tk_staged = False\<rparr>"

definition demo_key :: jkey where "demo_key = JKey ''s'' False ''j''"

definition demo_board :: job_board where
  "demo_board = \<lparr>jn_recs = [(demo_key, demo_tracked)], jn_table = [(''s'', [demo_key])], jn_pending = [], jn_delivered = []\<rparr>"

definition demo_note :: job_note where
  "demo_note = \<lparr>jt_rec = demo_tracked, jt_status = ''finished'', jt_exit = Some 0, jt_timed_out = False\<rparr>"

definition view_with :: "int \<Rightarrow> sched_view" where
  "view_with n = \<lparr>sv_present = True, sv_inflight = (\<lambda>_. n), sv_accepts = True\<rparr>"

lemma demo_note_strips: "strip ''s'' = ''s''" "strip ''j'' = ''j''" "strip ''cli'' = ''cli''" "strip ''root'' = ''root''"
    "lower (strip ''finished'') = ''finished''"
  by (simp_all add: strip_def lstrip_def rstrip_def is_space_def lower_def lower_char_def)

lemma demo_register: "register_job demo_tracked no_notes = demo_board" "clean_tracked demo_tracked = demo_tracked"
    "rec_key demo_tracked = demo_key"
  by (simp_all add: register_job_def clean_tracked_def rec_key_def keys_of_def no_notes_def demo_tracked_def demo_key_def
      demo_board_def demo_note_strips Let_def)

lemma demo_asked: "notify_reachable wording 20 (Asked demo_key [] [] [], demo_board)"
proof -
  have "notify_reachable wording 20 (Idle, demo_board)"
    using notify_reachable.further [OF notify_reachable.initial notify_step.register [of demo_tracked no_notes]]
    by (simp add: demo_register) (simp add: no_notes_def)
  from notify_reachable.further [OF this notify_step.start]
  have "notify_reachable wording 20 (At_Session [''s''] [], demo_board)" by (simp add: poll_start_def demo_board_def)
  from notify_reachable.further [OF this notify_step.session [of _ _ _ _ _ True]]
  have "notify_reachable wording 20 (At_Job demo_key [] [] [], demo_board)"
    by (simp add: poll_session_def next_job_def keys_of_def demo_board_def)
  from notify_reachable.further [OF this notify_step.job]
  show ?thesis by (simp add: poll_job_def demo_board_def demo_tracked_def)
qed

lemma demo_polled: "notify_reachable wording 20 (Polled [demo_note], demo_board)"
proof -
  have "poll_answer demo_key [] [] [] (Status ''finished'' (Some 0) False) demo_board = At_Session [] [demo_note]"
    by (simp add: poll_answer_def next_job_def demo_board_def note_of_def demo_note_strips terminal_statuses_def demo_note_def)
  with notify_reachable.further [OF demo_asked notify_step.answer [of _ _ _ _ _ _ _ "Status ''finished'' (Some 0) False"]]
  have "notify_reachable wording 20 (At_Session [] [demo_note], demo_board)" by simp
  from notify_reachable.further [OF this notify_step.session]
  show ?thesis by (simp add: poll_session_def)
qed

lemma demo_held:
  "notify_reachable (\<lambda>_. ''done'') 20 (Idle, deliver_all (\<lambda>_. ''done'') (view_with 1) [demo_note] demo_board)"
  "is_staged demo_key (deliver_all (\<lambda>_. ''done'') (view_with 1) [demo_note] demo_board)"
  by (rule notify_reachable.further [OF demo_polled notify_step.deliver])
    (simp add: deliver_all_def deliver_via_inject_def stage_note_def demo_note_def demo_tracked_def demo_note_strips
      view_with_def is_staged_def rec_of_def tracks_def keys_of_def demo_board_def demo_key_def update_rec_def Let_def)

theorem staged_job_is_announced_witness:
  "demo_key \<in> set (announced (flush_notes (view_with 0) ''s''
     (deliver_all (\<lambda>_. ''done'') (view_with 1) [demo_note] demo_board)))"
  using staged_job_is_announced [OF demo_held, of "view_with 0"] by (simp add: view_with_def demo_key_def)

theorem job_announced_once_witness:
  "distinct (announced (deliver_all (\<lambda>_. ''done'') (view_with 1) [demo_note] demo_board))"
  using job_announced_once [OF demo_held(1)] .

text \<open>
  A job stopped by the agent between the question about it and the answer is announced all the
  same, although the stop suppresses the announcement.
\<close>

lemma suppression_too_late:
  "poll_answer demo_key [] [] [] (Status ''finished'' (Some 0) False) (snd (suppress_notification ''s'' ''j'' False demo_board)) =
     At_Session [] [demo_note]"
  "announced (deliver_all (\<lambda>_. ''done'') (view_with 0) [demo_note] (snd (suppress_notification ''s'' ''j'' False demo_board))) =
     [demo_key]"
  by (simp_all add: poll_answer_def next_job_def demo_board_def note_of_def demo_note_strips terminal_statuses_def demo_note_def
      suppress_notification_def Let_def pending_of_def untrack_def deliver_all_def deliver_via_inject_def view_with_def
      mark_notified_def rec_of_def tracks_def keys_of_def put_list_def announced_def demo_tracked_def note_key_def demo_key_def
      key_at_def)

end
