(* ===== verification/Bash_Tool.thy ===== *)
theory Bash_Tool
  imports Bash_Args Bash_Gate Jobs Job_Notify
begin

text \<open>
  The command tool (\<open>BashTool.execute\<close> and what it calls in \<open>agent_core/tools/bash_tool.py\<close>),
  over the gate, the job manager and the registry of announcements. A call is cut where it
  waits for something outside: \<open>bash_execute\<close> goes up to the first such wait (a human's answer is an
  argument of the gate), the functions after it say how the call goes on with what came back.

  The shell, the remote worker's answers, the clock and the file system are arguments. Process
  ids, run times and the wording of messages are left out of the results.
\<close>

section \<open>State\<close>

type_synonym data = "(str, pyval) dict"

record 'h bash_state =
  bt_gate :: "'h gate_state"
  bt_jobs :: manager
  bt_board :: job_board
  bt_cache :: "(str \<times> str, real \<times> data) dict"

definition session_of :: "data \<Rightarrow> str" where
  "session_of ctx = clean_str (py_get ctx ''session_id'')"

definition replied :: "bool \<Rightarrow> str option \<Rightarrow> data \<Rightarrow> data \<Rightarrow> tool_result" where
  "replied ok err d md = \<lparr>tr_success = ok, tr_data = PyDict d, tr_message = [], tr_error = err, tr_metadata = md\<rparr>"

definition done_reply :: tool_result where
  "done_reply = \<lparr>tr_success = True, tr_data = PyNone, tr_message = [], tr_error = None, tr_metadata = []\<rparr>"

section \<open>The state of a job\<close>

fun job_status_str :: "job_status \<Rightarrow> str" where
  "job_status_str Running = ''running''"
| "job_status_str Finished = ''finished''"
| "job_status_str Failed = ''failed''"
| "job_status_str Timed_Out = ''timed_out''"
| "job_status_str Cancelled = ''cancelled''"

definition opt_int :: "int option \<Rightarrow> pyval" where
  "opt_int x = (case x of None \<Rightarrow> PyNone | Some i \<Rightarrow> PyInt i)"

definition job_data :: "str \<Rightarrow> job \<Rightarrow> data" where
  "job_data job_id j =
     [(''job_id'', PyStr job_id), (''status'', PyStr (job_status_str (jb_status j))), (''command'', PyStr (jb_command j)),
      (''exit_code'', opt_int (jb_exit j)), (''timed_out'', PyBool (jb_timed_out j)), (''log_path'', PyStr (jb_log j))]"

text \<open>\<open>_check_job_status_throttle\<close>: what is repeated instead of asking again.\<close>

definition throttled :: "real \<Rightarrow> real \<Rightarrow> data \<Rightarrow> str \<Rightarrow> 'h bash_state \<Rightarrow> data option" where
  "throttled interval now ctx job_id s =
     (if job_id = [] \<or> session_of ctx = [] then None
      else case map_of (bt_cache s) (session_of ctx, job_id) of
        None \<Rightarrow> None
      | Some (t, d) \<Rightarrow>
          if now - t \<ge> interval then None
          else if lower (py_str (py_or (py_get d ''status'') (PyStr []))) \<noteq> ''running'' then None
          else Some d)"

definition cache_job_status :: "real \<Rightarrow> data \<Rightarrow> str \<Rightarrow> data \<Rightarrow> 'h bash_state \<Rightarrow> 'h bash_state" where
  "cache_job_status now ctx job_id d s =
     (if job_id = [] \<or> session_of ctx = [] then s
      else s\<lparr>bt_cache := dset (session_of ctx, job_id) (now, d) (bt_cache s)\<rparr>)"

definition status_reply :: "str \<Rightarrow> data \<Rightarrow> tool_result" where
  "status_reply status d =
     (if status = ''running'' \<or> status = ''finished'' then replied True None d []
      else if status = ''timed_out'' then replied False (Some ''JOB_TIMED_OUT'') d []
      else if status = ''cancelled'' then replied False (Some ''JOB_CANCELLED'') d []
      else replied False (Some ''JOB_FAILED'') d [])"

definition local_job_status :: "real \<Rightarrow> real \<Rightarrow> data \<Rightarrow> str \<Rightarrow> 'h bash_state \<Rightarrow> tool_result \<times> 'h bash_state" where
  "local_job_status interval now ctx job_id s =
     (case throttled interval now ctx job_id s of
        Some d \<Rightarrow> (replied True None d [(''throttled'', PyBool True)], s)
      | None \<Rightarrow>
          (case job_of (bt_jobs s) job_id of
             None \<Rightarrow> (failed ''JOB_NOT_FOUND'' [], s)
           | Some j \<Rightarrow>
               (status_reply (job_status_str (jb_status j)) (job_data job_id j),
                cache_job_status now ctx job_id (job_data job_id j) s)))"

text \<open>What a remote worker answers about a job.\<close>

record remote_job =
  rj_id :: str
  rj_status :: str
  rj_command :: str
  rj_exit :: "int option"
  rj_timed_out :: bool
  rj_log :: str
  rj_error :: "str option"

definition remote_job_data :: "remote_job \<Rightarrow> data" where
  "remote_job_data r =
     [(''job_id'', PyStr (rj_id r)), (''status'', PyStr (rj_status r)), (''command'', PyStr (rj_command r)),
      (''exit_code'', opt_int (rj_exit r)), (''timed_out'', PyBool (rj_timed_out r)), (''log_path'', PyStr (rj_log r)),
      (''remote'', PyBool True)]"

definition remote_job_status :: "real \<Rightarrow> real \<Rightarrow> data \<Rightarrow> str \<Rightarrow> remote_job \<Rightarrow> 'h bash_state \<Rightarrow> tool_result \<times> 'h bash_state" where
  "remote_job_status interval now ctx job_id r s =
     (case throttled interval now ctx job_id s of
        Some d \<Rightarrow> (replied True None d [(''throttled'', PyBool True)], s)
      | None \<Rightarrow>
          if rj_error r = Some ''JOB_NOT_FOUND'' then (failed ''JOB_NOT_FOUND'' [], s)
          else (status_reply (rj_status r) (remote_job_data r), cache_job_status now ctx job_id (remote_job_data r) s))"

section \<open>Logs and stopping\<close>

definition page_data :: "str \<Rightarrow> str \<Rightarrow> job_page \<Rightarrow> data" where
  "page_data job_id log_path p =
     [(''job_id'', PyStr job_id), (''status'', PyStr (job_status_str (jp_status p))), (''total_lines'', PyInt (int (jp_total p))),
      (''read_lines'', PyInt (int (length (jp_head p) + length (jp_tail p)))), (''offset'', PyInt (jp_offset p)),
      (''log_path'', PyStr log_path), (''head_lines'', PyList (map PyStr (jp_head p))), (''tail_lines'', PyList (map PyStr (jp_tail p)))]"

definition local_job_tail :: "(str \<Rightarrow> log_file) \<Rightarrow> str \<Rightarrow> pyval \<Rightarrow> pyval \<Rightarrow> 'h bash_state \<Rightarrow> py_exn + tool_result" where
  "local_job_tail files job_id count offset s =
     (case py_int count of Inl e \<Rightarrow> Inl e
      | Inr n \<Rightarrow>
          (case py_int offset of Inl e \<Rightarrow> Inl e
           | Inr k \<Rightarrow>
               (case (job_of (bt_jobs s) job_id, job_tail files (bt_jobs s) job_id (max 1 n) (max 0 k)) of
                  (Some j, Some p) \<Rightarrow> Inr (replied True None (page_data job_id (jb_log j) p) [])
                | _ \<Rightarrow> Inr (failed ''JOB_NOT_FOUND'' []))))"

text \<open>\<open>job_stop\<close> when the manager has answered: the end is known, so it is not announced.\<close>

definition job_stopped :: "data \<Rightarrow> str \<Rightarrow> bool \<Rightarrow> bool \<Rightarrow> 'h bash_state \<Rightarrow> tool_result \<times> 'h bash_state" where
  "job_stopped ctx job_id remote ok s =
     (if \<not> ok then (failed ''STOP_FAILED'' [], s)
      else (done_reply, s\<lparr>bt_board := snd (suppress_notification (session_of ctx) job_id remote (bt_board s))\<rparr>))"

section \<open>Local commands\<close>

record bash_host =
  bh_resolve :: "str \<Rightarrow> str"
  bh_is_dir :: "str \<Rightarrow> bool"
  bh_environ :: "(str \<times> str) list"
  bh_base_env :: "(str \<times> str) list"
  bh_workspace :: str
  bh_files :: "str \<Rightarrow> log_file"

text \<open>Directory and variables of a job: those of the shell when it could be asked.\<close>

definition job_place :: "bash_host \<Rightarrow> (str \<times> (str \<times> str) list) option \<Rightarrow> str option \<Rightarrow> str \<times> (str \<times> str) list" where
  "job_place H session cwd =
     (case session of
        Some (d, env) \<Rightarrow> (d, merge_env (bh_base_env H) env)
      | None \<Rightarrow> (str_or (opt_str cwd) (bh_workspace H), bh_base_env H))"

definition launch :: "bash_host \<Rightarrow> real \<Rightarrow> str \<Rightarrow> (str \<times> (str \<times> str) list) option \<Rightarrow> str option \<Rightarrow> str \<Rightarrow> real option \<Rightarrow>
    'h bash_state \<Rightarrow> str \<times> job \<times> 'h bash_state" where
  "launch H now hex session cwd command timeout s =
     (case job_place H session cwd of (d, env) \<Rightarrow>
        (case start_job (bh_resolve H) (bh_is_dir H) (bh_environ H) now hex (bt_jobs s) command (Some d) (Some env) timeout of
           (job_id, j, line, m) \<Rightarrow> (job_id, j, s\<lparr>bt_jobs := m\<rparr>)))"

definition ctx_text :: "data \<Rightarrow> str \<Rightarrow> str \<Rightarrow> str" where
  "ctx_text ctx k d = str_or (strip (py_str (py_or (py_get ctx k) (PyStr d)))) d"

definition notify_metadata :: "data \<Rightarrow> data" where
  "notify_metadata ctx =
     (let v = py_get ctx ''feishu_chat_id'' in if truthy v then [(''feishu_chat_id'', PyStr (strip (py_str v)))] else [])"

definition track_job :: "data \<Rightarrow> str option \<Rightarrow> str option \<Rightarrow> str \<Rightarrow> str \<Rightarrow> str \<Rightarrow> str \<Rightarrow> 'h bash_state \<Rightarrow> 'h bash_state" where
  "track_job ctx workspace login job_id command cwd log_path s =
     (if session_of ctx = [] then s
      else s\<lparr>bt_board := register_job
        \<lparr>tk_session = session_of ctx, tk_job = job_id, tk_remote = (login \<noteq> None), tk_command = command, tk_cwd = cwd,
         tk_log = log_path, tk_workspace = workspace, tk_login = login, tk_frontend = ctx_text ctx ''frontend_id'' ''cli'',
         tk_source = ctx_text ctx ''source'' ''cli'', tk_user = ctx_text ctx ''user_id'' ''root'',
         tk_metadata = notify_metadata ctx, tk_notified = False, tk_staged = False\<rparr> (bt_board s)\<rparr>)"

definition started_data :: "str \<Rightarrow> job \<Rightarrow> data" where
  "started_data job_id j =
     [(''job_id'', PyStr job_id), (''log_path'', PyStr (jb_log j)), (''status'', PyStr (job_status_str (jb_status j))),
      (''command'', PyStr (jb_command j)), (''cwd'', PyStr (jb_cwd j))]"

text \<open>\<open>background=true\<close>.\<close>

definition run_background :: "bash_host \<Rightarrow> real \<Rightarrow> str \<Rightarrow> (str \<times> (str \<times> str) list) option \<Rightarrow> str option \<Rightarrow> data \<Rightarrow> str \<Rightarrow>
    real option \<Rightarrow> 'h bash_state \<Rightarrow> tool_result \<times> 'h bash_state" where
  "run_background H now hex session cwd ctx command timeout s =
     (case launch H now hex session cwd command timeout s of (job_id, j, s1) \<Rightarrow>
        (replied True None (started_data job_id j) [],
         track_job ctx (Some (bh_workspace H)) None job_id (jb_command j) (jb_cwd j) (jb_log j) s1))"

text \<open>The foreground wait, one element per check: the time and the job as it is then.\<close>

fun wait_loop :: "bool \<Rightarrow> real \<Rightarrow> (real \<times> job) list \<Rightarrow> job option" where
  "wait_loop completion end_at [] = None"
| "wait_loop completion end_at ((t, j) # checks) =
     (if jb_status j = Running \<and> (completion \<or> t < end_at) then wait_loop completion end_at checks else Some j)"

definition completion_reply :: "data \<Rightarrow> int option \<Rightarrow> bool \<Rightarrow> data \<Rightarrow> tool_result" where
  "completion_reply texts exit_code timed_out md =
     (let rc = (case exit_code of None \<Rightarrow> - 1 | Some c \<Rightarrow> c);
          d = texts @ [(''return_code'', PyInt rc), (''timed_out'', PyBool timed_out)]
      in if timed_out then replied False (Some ''COMMAND_TIMEOUT'') d md
         else if rc = 0 then replied True None d md
         else replied False (Some ''NON_ZERO_EXIT'') d md)"

definition foreground_reply :: "bash_host \<Rightarrow> data \<Rightarrow> str \<Rightarrow> job \<Rightarrow> 'h bash_state \<Rightarrow> tool_result \<times> 'h bash_state" where
  "foreground_reply H ctx job_id j s =
     (if jb_status j = Running
      then (replied True None (started_data job_id j @ [(''auto_backgrounded'', PyBool True), (''remote'', PyBool False)]) [],
            track_job ctx (Some (bh_workspace H)) None job_id (jb_command j) (jb_cwd j) (jb_log j) s)
      else (completion_reply
              [(''command'', PyStr (jb_command j)),
               (''stdout'', PyStr (case bh_files H (jb_log j) of Content t \<Rightarrow> t | _ \<Rightarrow> [])), (''stderr'', PyStr []),
               (''truncated'', PyBool False), (''remote'', PyBool False)]
              (jb_exit j) (jb_timed_out j \<or> jb_status j = Timed_Out) [], s))"

text \<open>A command that changes the shell itself runs in the shell.\<close>

record shell_result =
  sh_command :: str
  sh_stdout :: str
  sh_stderr :: str
  sh_exit :: int
  sh_timed_out :: bool
  sh_truncated :: bool

definition stateful_reply :: "shell_result \<Rightarrow> tool_result" where
  "stateful_reply r =
     completion_reply [(''command'', PyStr (sh_command r)), (''stdout'', PyStr (sh_stdout r)), (''stderr'', PyStr (sh_stderr r)),
       (''truncated'', PyBool (sh_truncated r))] (Some (sh_exit r)) (sh_timed_out r) []"

section \<open>Remote commands\<close>

record remote_result =
  rr_command :: str
  rr_stdout :: str
  rr_stderr :: str
  rr_exit :: int
  rr_timed_out :: bool
  rr_truncated :: bool
  rr_cwd :: str
  rr_error :: "str option"
  rr_backgrounded :: bool
  rr_job_id :: "str option"
  rr_job_status :: "str option"
  rr_job_log :: "str option"

definition not_open :: "remote_result \<Rightarrow> bool" where
  "not_open r \<longleftrightarrow> opt_str (rr_error r) = ''SESSION_NOT_OPEN'' \<or> sublist ''remote session is not open'' (lower (rr_stderr r))"

text \<open>
  \<open>_remote_exec_with_reopen\<close>: the worker's answers to the command, to opening the workspace
  (\<open>None\<close>: it raised) and to the command again.
\<close>

definition exec_with_reopen :: "remote_state \<Rightarrow> py_exn + remote_result \<Rightarrow> bool option \<Rightarrow> py_exn + remote_result \<Rightarrow>
    py_exn + remote_result \<times> data" where
  "exec_with_reopen rs first opened again =
     (let md = [(''workspace_backend'', PyStr ''remote''), (''remote_login'', PyStr (rm_login rs))]
      in case first of
        Inl e \<Rightarrow> Inl (RuntimeError [])
      | Inr r \<Rightarrow>
          if \<not> not_open r then Inr (r, md)
          else if opened = Some True
          then (case again of Inl e \<Rightarrow> Inl e
                | Inr r' \<Rightarrow> Inr (r', md @ [(''remote_reopen_attempted'', PyBool True), (''remote_reopen_succeeded'', PyBool True)]))
          else Inr (r, md @ [(''remote_reopen_attempted'', PyBool True), (''remote_reopen_succeeded'', PyBool False)]))"

definition opt_text :: "str option \<Rightarrow> pyval" where
  "opt_text x = (case x of None \<Rightarrow> PyNone | Some s \<Rightarrow> PyStr s)"

definition remote_reply :: "remote_state \<Rightarrow> remote_result \<Rightarrow> data \<Rightarrow> tool_result" where
  "remote_reply rs r md =
     (if rr_backgrounded r
      then replied True None
        [(''job_id'', opt_text (rr_job_id r)), (''log_path'', opt_text (rr_job_log r)), (''status'', opt_text (rr_job_status r)),
         (''command'', PyStr (rr_command r)), (''cwd'', PyStr (rr_cwd r)), (''auto_backgrounded'', PyBool True),
         (''remote'', PyBool True), (''remote_login'', PyStr (rm_login rs))] md
      else completion_reply
        [(''command'', PyStr (rr_command r)), (''stdout'', PyStr (rr_stdout r)), (''stderr'', PyStr (rr_stderr r)),
         (''truncated'', PyBool (rr_truncated r)), (''remote'', PyBool True), (''remote_login'', PyStr (rm_login rs)),
         (''remote_cwd'', PyStr (rr_cwd r))] (Some (rr_exit r)) (rr_timed_out r) md)"

definition remote_sync_reply :: "data \<Rightarrow> remote_state \<Rightarrow> str \<Rightarrow> remote_result \<times> data \<Rightarrow> 'h bash_state \<Rightarrow> tool_result \<times> 'h bash_state" where
  "remote_sync_reply ctx rs command answer s =
     (let t = remote_reply rs (fst answer) (snd answer); d = dict_of (tr_data t)
      in (t, if truthy (py_get d ''auto_backgrounded'') \<and> clean_str (py_get d ''job_id'') \<noteq> []
             then track_job ctx None (Some (rm_login rs)) (py_str (py_or (py_get d ''job_id'') (PyStr [])))
               (py_str (py_or (py_get d ''command'') (PyStr command))) (py_str (py_or (py_get d ''cwd'') (PyStr [])))
               (py_str (py_or (py_get d ''log_path'') (PyStr []))) s
             else s))"

record remote_capture =
  rc_error :: "str option"
  rc_cwd :: str
  rc_env :: "(str \<times> str) list"

text \<open>Where a remote job starts: the captured shell's place, or the root of the workspace.\<close>

definition remote_job_place :: "gate_env \<Rightarrow> remote_state \<Rightarrow> remote_capture \<Rightarrow> str \<times> (str \<times> str) list" where
  "remote_job_place E rs c =
     (if rc_error c = None \<and> rc_cwd c \<noteq> [] then (rc_cwd c, rc_env c)
      else (str_or (opt_str (remote_jail_root E rs)) (ge_mount E), []))"

definition remote_background_reply :: "data \<Rightarrow> remote_state \<Rightarrow> str \<Rightarrow> str \<Rightarrow> remote_job \<Rightarrow> 'h bash_state \<Rightarrow> tool_result \<times> 'h bash_state" where
  "remote_background_reply ctx rs command job_cwd r s =
     (if opt_str (rj_error r) \<noteq> [] then (failed (opt_str (rj_error r)) [], s)
      else (replied True None
              [(''job_id'', PyStr (rj_id r)), (''log_path'', PyStr (rj_log r)), (''status'', PyStr (rj_status r)),
               (''command'', PyStr command), (''cwd'', PyStr job_cwd), (''remote'', PyBool True)]
              [(''workspace_backend'', PyStr ''remote''), (''remote_login'', PyStr (rm_login rs))],
            track_job ctx None (Some (rm_login rs)) (rj_id r) command job_cwd (rj_log r) s))"

text \<open>The read roots a remote shell may enter: what was granted for reading, then for writing.\<close>

definition granted_list :: "gate_env \<Rightarrow> data \<Rightarrow> access_mode \<Rightarrow> acl_state \<Rightarrow> py_exn + str list" where
  "granted_list E ctx m acl =
     (case load_user_path_prefixes (h_resolve (ge_host E)) (h_acl_base (ge_host E)) (ctx_source ctx) (ctx_user ctx) (mode_str m) acl of
        Inl x \<Rightarrow> Inl x
      | Inr stored \<Rightarrow>
          (case list_ephemeral_path_prefixes (ctx_source ctx) (ctx_user ctx) (mode_str m) acl of
             Inl x \<Rightarrow> Inl x
           | Inr live \<Rightarrow> Inr (stored @ live)))"

definition remote_read_roots :: "gate_env \<Rightarrow> data \<Rightarrow> acl_state \<Rightarrow> py_exn + str list" where
  "remote_read_roots E ctx acl =
     (case granted_list E ctx Read acl of
        Inl x \<Rightarrow> Inl x
      | Inr rs \<Rightarrow>
          (case granted_list E ctx Write acl of
             Inl x \<Rightarrow> Inl x
           | Inr ws \<Rightarrow> Inr (fold add_new (List.map_filter (h_resolve (ge_host E)) (rs @ ws)) [])))"

text \<open>A worker's answer to a page of a log and to stopping a job.\<close>

record remote_page =
  rp_status :: str
  rp_head :: "str list"
  rp_tail :: "str list"
  rp_total :: int
  rp_read :: int
  rp_offset :: int
  rp_log :: str
  rp_error :: "str option"

definition remote_job_tail :: "str \<Rightarrow> remote_page \<Rightarrow> tool_result" where
  "remote_job_tail job_id p =
     (if rp_error p = Some ''JOB_NOT_FOUND'' then failed ''JOB_NOT_FOUND'' []
      else replied True None
        [(''job_id'', PyStr job_id), (''status'', PyStr (rp_status p)), (''total_lines'', PyInt (rp_total p)),
         (''read_lines'', PyInt (rp_read p)), (''offset'', PyInt (rp_offset p)), (''log_path'', PyStr (rp_log p)),
         (''head_lines'', PyList (map PyStr (rp_head p))), (''tail_lines'', PyList (map PyStr (rp_tail p))),
         (''remote'', PyBool True)] [])"

definition remote_reset_reply :: "py_exn + bool \<Rightarrow> tool_result" where
  "remote_reset_reply answer = (if answer = Inr True then done_reply else failed ''REMOTE_SHELL_RESET_FAILED'' [])"

section \<open>A call\<close>

record bash_world =
  bw_host :: bash_host
  bw_env :: gate_env
  bw_limits :: bash_limits
  bw_interval :: real
  bw_now :: real
  bw_hex :: str
  bw_session :: "(str \<times> (str \<times> str) list) option"
  bw_cwd :: "str option"
  bw_loop :: bool
  bw_new_id :: str
  bw_outcome :: outcome
  bw_gone :: bool
  bw_remote :: "str \<Rightarrow> remote_state option"

text \<open>What a call does next: it is over, or it waits for something outside.\<close>

datatype bash_wait =
    Done tool_result
  | Raises py_exn
  | Abandoned
  | Sleeping real
  | Restarting "remote_state option"
  | Remote_Status str
  | Remote_Tail str int int
  | Remote_Stop str pyval
  | Stopping str
  | In_Shell str "real option"
  | In_Foreground str real bool
  | Remote_Run remote_state str "real option" real bool
  | Remote_Launch remote_state str "real option"

definition remote_of :: "bash_world \<Rightarrow> data \<Rightarrow> remote_state option" where
  "remote_of W ctx = (if session_of ctx = [] then None else bw_remote W (session_of ctx))"

definition gate_command :: "bash_world \<Rightarrow> data \<Rightarrow> data \<Rightarrow> str \<Rightarrow> 'h bash_state \<Rightarrow> gate_answer \<times> 'h bash_state" where
  "gate_command W ctx kwargs command s =
     (case ensure_command_allowed (bw_env W) (bw_loop W) (bw_new_id W) ctx kwargs (remote_of W ctx) (bw_outcome W) command (bt_gate s) of
        (a, g) \<Rightarrow> (a, s\<lparr>bt_gate := g\<rparr>))"

fun gate_stops :: "gate_answer \<Rightarrow> bash_wait" where
  "gate_stops (Raised e) = Raises e"
| "gate_stops Wait_Cancelled = Abandoned"
| "gate_stops (Stopped r) = Done r"
| "gate_stops Go = Abandoned"

definition begin_background :: "bash_world \<Rightarrow> data \<Rightarrow> str \<Rightarrow> real option \<Rightarrow> 'h bash_state \<Rightarrow> bash_wait \<times> 'h bash_state" where
  "begin_background W ctx command hard s =
     (case remote_of W ctx of
        Some rs \<Rightarrow> (Remote_Launch rs command hard, s)
      | None \<Rightarrow>
          (case run_background (bw_host W) (bw_now W) (bw_hex W) (bw_session W) (bw_cwd W) ctx command hard s of
             (r, s') \<Rightarrow> (Done r, s')))"

definition begin_foreground :: "bash_world \<Rightarrow> data \<Rightarrow> str \<Rightarrow> controls \<Rightarrow> 'h bash_state \<Rightarrow> bash_wait \<times> 'h bash_state" where
  "begin_foreground W ctx command c s =
     (let window = foreground_window (bw_limits W) c
      in case remote_of W ctx of
        Some rs \<Rightarrow> (Remote_Run rs command (ct_hard c) window (ct_completion c), s)
      | None \<Rightarrow>
          if is_stateful_shell_command command then (In_Shell command (ct_hard c), s)
          else (case launch (bw_host W) (bw_now W) (bw_hex W) (bw_session W) (bw_cwd W) command (ct_hard c) s of
             (job_id, j, s') \<Rightarrow> (In_Foreground job_id (bw_now W + max 0 window) (ct_completion c), s')))"

definition job_action :: "bash_world \<Rightarrow> data \<Rightarrow> bash_call \<Rightarrow> 'h bash_state \<Rightarrow> bash_wait \<times> 'h bash_state" where
  "job_action W ctx call s =
     (case call of
        Job_Status job_id \<Rightarrow>
          if remote_of W ctx \<noteq> None
          then (case throttled (bw_interval W) (bw_now W) ctx job_id s of
                  Some d \<Rightarrow> (Done (replied True None d [(''throttled'', PyBool True)]), s)
                | None \<Rightarrow> (Remote_Status job_id, s))
          else (case local_job_status (bw_interval W) (bw_now W) ctx job_id s of (r, s') \<Rightarrow> (Done r, s'))
      | Job_Tail job_id n k \<Rightarrow>
          if remote_of W ctx \<noteq> None
          then (case (py_int n, py_int k) of
                  (Inl e, _) \<Rightarrow> (Raises e, s)
                | (_, Inl e) \<Rightarrow> (Raises e, s)
                | (Inr n, Inr k) \<Rightarrow> (Remote_Tail job_id (max 1 n) (max 0 k), s))
          else (case local_job_tail (bh_files (bw_host W)) job_id n k s of
                  Inl e \<Rightarrow> (Raises e, s) | Inr r \<Rightarrow> (Done r, s))
      | Job_Stop job_id signal \<Rightarrow>
          if remote_of W ctx \<noteq> None then (Remote_Stop job_id signal, s)
          else (case stop_job (bw_gone W) (bw_now W) (bt_jobs s) job_id of
                  (None, m) \<Rightarrow> (Stopping job_id, s\<lparr>bt_jobs := m\<rparr>)
                | (Some ok, m) \<Rightarrow>
                    (case job_stopped ctx job_id False ok (s\<lparr>bt_jobs := m\<rparr>) of (r, s') \<Rightarrow> (Done r, s')))
      | _ \<Rightarrow> (Done (failed ''NO_ACTION'' []), s))"

definition bash_execute :: "bash_world \<Rightarrow> data \<Rightarrow> data \<Rightarrow> 'h bash_state \<Rightarrow> bash_wait \<times> 'h bash_state" where
  "bash_execute W ctx kwargs s =
     (case classify_call (bw_limits W) kwargs of
        Refused e \<Rightarrow> (Done (failed e []), s)
      | Sleep_For t \<Rightarrow> (if t > 0 then Sleeping t else Done (replied True None [(''waited'', PyBool True)] []), s)
      | Restart \<Rightarrow> (Restarting (remote_of W ctx), s)
      | Run_Background command c \<Rightarrow>
          (case gate_command W ctx kwargs command s of
             (Go, s1) \<Rightarrow> begin_background W ctx command (ct_hard c) s1
           | (a, s1) \<Rightarrow> (gate_stops a, s1))
      | Run_Foreground command c \<Rightarrow>
          (case gate_command W ctx kwargs command s of
             (Go, s1) \<Rightarrow> begin_foreground W ctx command c s1
           | (a, s1) \<Rightarrow> (gate_stops a, s1))
      | call \<Rightarrow> job_action W ctx call s)"

section \<open>Laws\<close>

text \<open>The command a call has handed to a shell, a job or a worker.\<close>

fun handed_out :: "bash_wait \<Rightarrow> str option" where
  "handed_out (In_Shell command _) = Some command"
| "handed_out (Remote_Run _ command _ _ _) = Some command"
| "handed_out (Remote_Launch _ command _) = Some command"
| "handed_out _ = None"

definition started_jobs :: "'h bash_state \<Rightarrow> 'h bash_state \<Rightarrow> str set" where
  "started_jobs s s' = {jb_command j | j job_id. job_of (bt_jobs s') job_id = Some j \<and> job_of (bt_jobs s) job_id = None}"

lemma started_none: "bt_jobs s' = bt_jobs s \<Longrightarrow> started_jobs s s' = {}"
  by (auto simp: started_jobs_def)

lemma launch_jobs:
  assumes "launch H now hex session cwd command timeout s = (job_id, j, s')"
  shows "job_of (bt_jobs s') k = (if k = job_id then Some j else job_of (bt_jobs s) k)" "jb_command j = command"
    "jb_status j = Running" "bt_board s' = bt_board s" "bt_gate s' = bt_gate s" "bt_cache s' = bt_cache s"
  using assms by (auto simp: launch_def start_job_def new_job_def job_of_def Let_def update_conv' split: prod.splits)

lemma started_launch:
  assumes "launch H now hex session cwd command timeout s = (job_id, j, s')"
  shows "started_jobs s s' \<subseteq> {command}"
  using launch_jobs(1,2) [OF assms] by (auto simp: started_jobs_def split: if_splits)

lemma track_job_jobs [simp]: "bt_jobs (track_job ctx ws login job_id command cwd log_path s) = bt_jobs s"
  by (simp add: track_job_def)

lemma stop_job_started:
  assumes "stop_job gone now m job_id = (r, m')" "job_of m' k = Some j" "job_of m k = None"
  shows False
  using assms by (auto simp: stop_job_def job_of_def update_conv' split: option.splits if_splits)

lemma job_action_jobs:
  "job_action W ctx call s = (w, s') \<Longrightarrow> started_jobs s s' = {} \<and> handed_out w = None"
  by (auto simp: job_action_def started_jobs_def local_job_status_def local_job_tail_def cache_job_status_def job_stopped_def
      split: bash_call.splits option.splits prod.splits sum.splits if_splits dest: stop_job_started)

lemma gate_command_jobs: "gate_command W ctx kwargs command s = (a, s') \<Longrightarrow> bt_jobs s' = bt_jobs s"
  by (auto simp: gate_command_def split: prod.splits)

lemma gate_stops_hands_nothing: "handed_out (gate_stops a) = None"
  by (cases a) simp_all

lemma begin_background_jobs:
  "begin_background W ctx command hard s = (w, s') \<Longrightarrow>
     started_jobs s s' \<subseteq> {command} \<and> (handed_out w = None \<or> handed_out w = Some command)"
  by (auto simp: begin_background_def run_background_def started_none split: option.splits prod.splits
      dest!: started_launch) (auto simp: started_jobs_def)

lemma begin_foreground_jobs:
  "begin_foreground W ctx command c s = (w, s') \<Longrightarrow>
     started_jobs s s' \<subseteq> {command} \<and> (handed_out w = None \<or> handed_out w = Some command)"
  by (auto simp: begin_foreground_def started_none Let_def split: option.splits prod.splits if_splits dest!: started_launch)

text \<open>The times of successive checks: each comes at least the pause after the one before.\<close>

fun paced :: "real \<Rightarrow> (real \<times> job) list \<Rightarrow> bool" where
  "paced t [] \<longleftrightarrow> True"
| "paced t ((u, j) # checks) \<longleftrightarrow> t \<le> u \<and> paced (u + 1 / 20) checks"

lemma wait_loop_ends:
  "paced t checks \<Longrightarrow> (end_at - t) * 20 + 1 \<le> real (length checks) \<Longrightarrow> 0 < length checks \<Longrightarrow>
     \<exists>j. wait_loop False end_at checks = Some j"
proof (induction t checks rule: paced.induct)
  case (2 t u j checks)
  show ?case
  proof (cases "jb_status j = Running \<and> u < end_at")
    case True
    then have "(end_at - (u + 1 / 20)) * 20 + 1 \<le> real (length checks)" using "2.prems"(1,2) by simp
    moreover have "0 < length checks" using True "2.prems"(1,2) by (cases checks) auto
    ultimately show ?thesis using 2 True by simp
  qed auto
qed simp

lemma wait_loop_result:
  "wait_loop completion end_at checks = Some j \<Longrightarrow>
     \<exists>t. (t, j) \<in> set checks \<and> (jb_status j = Running \<longrightarrow> \<not> completion \<and> end_at \<le> t)"
  by (induction completion end_at checks rule: wait_loop.induct) (auto split: if_splits)

text \<open>The answer to a question about a job is its present state, unless the same session was told less than the interval ago that it was running; a finished state is never repeated from memory.\<close>

lemma status_answer_is_fresh:
  assumes "job_of (bt_jobs s) job_id = Some j" "local_job_status interval now ctx job_id s = (r, s')"
  shows "tr_data r = PyDict (job_data job_id j) \<or>
    (\<exists>t d. map_of (bt_cache s) (session_of ctx, job_id) = Some (t, d) \<and> tr_data r = PyDict d \<and> now - t < interval \<and>
       lower (py_str (py_or (py_get d ''status'') (PyStr []))) = ''running'')"
  using assms by (auto simp: local_job_status_def throttled_def status_reply_def replied_def split: option.splits prod.splits if_splits)

section \<open>Properties\<close>

text \<open>C8: Whatever a call of the tool asks for, a command it hands to the shell, to a new job or to a remote worker has passed the gate in that call.\<close>

theorem commands_run_through_the_gate:
  assumes "bash_execute W ctx kwargs s = (w, s')" "handed_out w = Some command \<or> command \<in> started_jobs s s'"
  shows "\<exists>s1. gate_command W ctx kwargs command s = (Go, s1)"
proof (cases "classify_call (bw_limits W) kwargs")
  case (Run_Background cmd c)
  obtain a s1 where g: "gate_command W ctx kwargs cmd s = (a, s1)" by fastforce
  show ?thesis
  proof (cases a)
    case Go
    then have "begin_background W ctx cmd (ct_hard c) s1 = (w, s')" using assms(1) Run_Background g by (simp add: bash_execute_def)
    from begin_background_jobs [OF this] have "command = cmd"
      using assms(2) gate_command_jobs [OF g] by (auto simp: started_jobs_def)
    then show ?thesis using g Go by blast
  qed (use assms Run_Background g gate_command_jobs [OF g] in \<open>auto simp: bash_execute_def started_none gate_stops_hands_nothing\<close>)
next
  case (Run_Foreground cmd c)
  obtain a s1 where g: "gate_command W ctx kwargs cmd s = (a, s1)" by fastforce
  show ?thesis
  proof (cases a)
    case Go
    then have "begin_foreground W ctx cmd c s1 = (w, s')" using assms(1) Run_Foreground g by (simp add: bash_execute_def)
    from begin_foreground_jobs [OF this] have "command = cmd"
      using assms(2) gate_command_jobs [OF g] by (auto simp: started_jobs_def)
    then show ?thesis using g Go by blast
  qed (use assms Run_Foreground g gate_command_jobs [OF g] in \<open>auto simp: bash_execute_def started_none gate_stops_hands_nothing\<close>)
qed (use assms job_action_jobs in \<open>fastforce simp: bash_execute_def started_none split: if_splits\<close>)+


text \<open>C25: A foreground call that returns while its job runs has registered the job, so that its end is announced to the session; one that returns a result leaves the registry alone, and its success means that the command ended with code 0 in time.\<close>

theorem foreground_job_is_not_lost:
  assumes "foreground_reply H ctx job_id j s = (r, s')" "session_of ctx \<noteq> []" "strip job_id = job_id" "job_id \<noteq> []"
  shows "(jb_status j = Running \<longrightarrow>
      (\<exists>rec. rec_of (JKey (session_of ctx) False job_id) (bt_board s') = Some rec \<and> \<not> tk_notified rec \<and> \<not> tk_staged rec)) \<and>
    (jb_status j \<noteq> Running \<longrightarrow> bt_board s' = bt_board s \<and>
      (tr_success r \<longrightarrow> jb_exit j = Some 0 \<and> \<not> jb_timed_out j))"
proof (cases "jb_status j = Running")
  case True
  have "strip (session_of ctx) = session_of ctx" by (simp add: session_of_def)
  then show ?thesis
    using True assms by (auto simp: foreground_reply_def track_job_def register_job_def clean_tracked_def rec_key_def
        rec_of_def tracks_def keys_of_def Let_def)
next
  case False
  then show ?thesis
    using assms(1) by (auto simp: foreground_reply_def completion_reply_def replied_def Let_def split: option.splits if_splits)
qed

section \<open>Witnesses\<close>

definition demo_bash_host :: bash_host where
  "demo_bash_host = \<lparr>bh_resolve = (\<lambda>p. p), bh_is_dir = (\<lambda>_. True), bh_environ = [], bh_base_env = [], bh_workspace = ''/w'',
     bh_files = (\<lambda>_. Absent)\<rparr>"

definition demo_world :: bash_world where
  "demo_world = \<lparr>bw_host = demo_bash_host, bw_env = demo_gate_env, bw_limits = default_limits, bw_interval = 5, bw_now = 0,
     bw_hex = ''0'', bw_session = None, bw_cwd = None, bw_loop = True, bw_new_id = ''p'', bw_outcome = TimedOut,
     bw_gone = False, bw_remote = (\<lambda>_. None)\<rparr>"

definition demo_bash :: "nat bash_state" where
  "demo_bash = \<lparr>bt_gate = demo_gate, bt_jobs = \<lparr>mg_root = ''/w'', mg_jobs = []\<rparr>, bt_board = no_notes, bt_cache = []\<rparr>"

lemma demo_cd_gate: "gate_command demo_world [] [(''command'', PyStr ''cd x'')] ''cd x'' demo_bash = (Go, demo_bash)"
  by (simp add: gate_command_def demo_world_def demo_bash_def remote_of_def session_of_def py_get_def
      ensure_command_allowed_def held_licence_def Let_def normalize_command_def security_for_def
      refresh_roots_def set_text_def demo_gate_env_def demo_gate_def demo_security_def resolve_profile_def final_answer_def
      allow_def py_get_or_def py_or_def lower_def lower_char_def rx_eval lex_eval check_eval)

lemma demo_cd_call:
  "\<exists>c. classify_call default_limits [(''command'', PyStr ''cd x'')] = Run_Foreground ''cd x'' c"
proof -
  have "strip ''cd x'' = ''cd x''" by (simp add: strip_def lstrip_def rstrip_def is_space_def)
  moreover have "\<exists>c. parse_controls default_limits [(''command'', PyStr ''cd x'')] ''cd x'' = Inr c"
    by (simp add: parse_controls_def py_get_def parse_timeout_def Let_def)
  ultimately show ?thesis
    by (auto simp: classify_call_def validate_params_def has_command_def has_job_def job_keys_def py_get_def py_get_or_def Let_def)
qed

lemma demo_cd_runs: "\<exists>t. bash_execute demo_world [] [(''command'', PyStr ''cd x'')] demo_bash = (In_Shell ''cd x'' t, demo_bash)"
proof -
  obtain c where "classify_call (bw_limits demo_world) [(''command'', PyStr ''cd x'')] = Run_Foreground ''cd x'' c"
    using demo_cd_call by (auto simp: demo_world_def)
  moreover have "is_stateful_shell_command ''cd x''"
    by (simp add: is_stateful_shell_command_def strip_def lstrip_def rstrip_def is_space_def lower_def lower_char_def Let_def)
  moreover have "remote_of demo_world [] = None" by (simp add: remote_of_def demo_world_def)
  ultimately show ?thesis by (simp add: bash_execute_def demo_cd_gate begin_foreground_def Let_def)
qed

theorem commands_run_through_the_gate_witness:
  "\<exists>s1. gate_command demo_world [] [(''command'', PyStr ''cd x'')] ''cd x'' demo_bash = (Go, s1)"
proof -
  obtain t where "bash_execute demo_world [] [(''command'', PyStr ''cd x'')] demo_bash = (In_Shell ''cd x'' t, demo_bash)"
    using demo_cd_runs by blast
  from commands_run_through_the_gate [OF this, of "''cd x''"] show ?thesis by simp
qed


theorem foreground_job_is_not_lost_witness:
  "\<exists>rec. rec_of (JKey ''s'' False ''j'') (bt_board (snd (foreground_reply demo_bash_host [(''session_id'', PyStr ''s'')] ''j'' demo_job demo_bash))) = Some rec
     \<and> \<not> tk_notified rec \<and> \<not> tk_staged rec"
proof -
  let ?ctx = "[(''session_id'', PyStr ''s'')]"
  have s: "session_of ?ctx = ''s''" "strip ''j'' = ''j''"
    by (simp_all add: session_of_def py_get_def strip_def lstrip_def rstrip_def is_space_def)
  have "jb_status demo_job = Running" by (simp add: demo_job_def new_job_def)
  with foreground_job_is_not_lost [OF surjective_pairing, where H = demo_bash_host and ctx = ?ctx and job_id = "''j''" and j = demo_job and s = demo_bash] s
  show ?thesis by simp
qed

end
