(* ===== verification/Workspaces.thy ===== *)
theory Workspaces
  imports Bash_Gate
begin

text \<open>
  Where a user's files are (\<open>agent_core/agent/workspace_paths.py\<close>, \<open>memory_paths.py\<close>,
  \<open>session_capabilities.py\<close>, \<open>session_paths.py\<close>, \<open>agent_core/bash_os_user.py\<close>): names of
  logical users and of the Linux users that stand for them, the directories and roots of a
  session, the meaning of \<open>~\<close>, and what is removed when a subagent is reaped.

  The host resolves a path given as text; \<open>sub_path\<close> is \<open>Path(base) / a / b\<close>. The digest of a
  name, the password file and the home of the process are parameters.
\<close>

section \<open>Names\<close>

definition path_segment :: "str \<Rightarrow> str \<Rightarrow> str" where
  "path_segment v d = str_or (strip v) d"

definition both_segments :: "str \<Rightarrow> str \<Rightarrow> py_exn + str \<times> str" where
  "both_segments source user_id =
     (case validate_segment (path_segment source ''cli'') of Inl e \<Rightarrow> Inl e
      | Inr fe \<Rightarrow> (case validate_segment (path_segment user_id ''root'') of Inl e \<Rightarrow> Inl e | Inr uid \<Rightarrow> Inr (fe, uid)))"

definition memory_owner_key :: "str \<Rightarrow> str \<Rightarrow> py_exn + str" where
  "memory_owner_key source user_id =
     (case both_segments source user_id of Inl e \<Rightarrow> Inl e | Inr (fe, uid) \<Rightarrow> Inr (fe @ '':'' @ uid))"

definition name_char :: "char \<Rightarrow> bool" where
  "name_char c \<longleftrightarrow>
     (let n = of_char c :: nat in 97 \<le> n \<and> n \<le> 122 \<or> 48 \<le> n \<and> n \<le> 57 \<or> n = 95 \<or> n = 45)"

definition is_letter :: "char \<Rightarrow> bool" where
  "is_letter c \<longleftrightarrow> 97 \<le> (of_char c :: nat) \<and> (of_char c :: nat) \<le> 122"

text \<open>Runs of \<open>_\<close> become one; a run of other characters becomes \<open>_\<close> first.\<close>

fun squeeze :: "str \<Rightarrow> str" where
  "squeeze [] = []"
| "squeeze (c # cs) =
     (if c = CHR ''_'' \<and> cs \<noteq> [] \<and> hd cs = CHR ''_'' then squeeze cs else c # squeeze cs)"

definition strip_underscores :: "str \<Rightarrow> str" where
  "strip_underscores s = rev (dropWhile (\<lambda>c. c = CHR ''_'') (rev (dropWhile (\<lambda>c. c = CHR ''_'') s)))"

definition rstrip_underscores :: "str \<Rightarrow> str" where
  "rstrip_underscores s = rev (dropWhile (\<lambda>c. c = CHR ''_'') (rev s))"

definition sanitize_segment :: "nat \<Rightarrow> str \<Rightarrow> str" where
  "sanitize_segment max_len s =
     (let t = strip_underscores (squeeze (map (\<lambda>c. if name_char c then c else CHR ''_'') (lower (strip s))));
          t = (if t = [] then ''u'' else t);
          t = (if \<not> is_letter (hd t) \<and> hd t \<noteq> CHR ''_'' then CHR ''u'' # t else t)
      in if length t > max_len then str_or (rstrip_underscores (take max_len t)) ''u'' else t)"

definition is_alnum :: "char \<Rightarrow> bool" where
  "is_alnum c \<longleftrightarrow> word_char c \<and> c \<noteq> CHR ''_''"

definition user_prefix :: "str \<Rightarrow> str" where
  "user_prefix pfx =
     (let p = str_or (strip (str_or pfx ''m_'')) ''m_''
      in if last p \<noteq> CHR ''_'' \<and> \<not> is_alnum (last p) then p @ ''_'' else p)"

text \<open>\<open>_SAFE_POSIX_BODY.match\<close>; its \<open>$\<close> also accepts a final newline.\<close>

definition safe_body :: "str \<Rightarrow> bool" where
  "safe_body s \<longleftrightarrow>
     (let t = (if s \<noteq> [] \<and> last s = newline then butlast s else s)
      in t \<noteq> [] \<and> list_all name_char t \<and> hd t \<noteq> CHR ''_'' \<and> hd t \<noteq> CHR ''-'')"

definition posix_name_max :: nat where "posix_name_max = 31"

text \<open>\<open>digest8\<close> is the start of the digest of the two segments.\<close>

definition logic_os_user_name :: "(str \<Rightarrow> str \<Rightarrow> str) \<Rightarrow> str \<Rightarrow> str \<Rightarrow> str \<Rightarrow> py_exn + str" where
  "logic_os_user_name digest8 pfx source user_id =
     (case both_segments source user_id of Inl e \<Rightarrow> Inl e
      | Inr (fe, uid) \<Rightarrow>
          (let p = user_prefix pfx; d = digest8 fe uid;
               fe_s = sanitize_segment 16 fe; uid_s = sanitize_segment posix_name_max uid;
               candidate = p @ fe_s @ ''_'' @ uid_s; short = p @ fe_s @ ''_'' @ d
           in Inr (if posix_name_max < length p + 6 then take posix_name_max (p @ d)
                   else if length candidate \<le> posix_name_max \<and> safe_body (drop (length p) candidate) then candidate
                   else if length short \<le> posix_name_max then short
                   else take posix_name_max (p @ d))))"

section \<open>Directories\<close>

record ws_cfg =
  wc_isolated :: bool
  wc_os_users :: bool
  wc_prefix :: str
  wc_home_base :: str
  wc_workspaces :: str
  wc_base_dir :: str
  wc_admin_owners :: "str list"
  wc_admin_users :: "(str, str) dict"
  wc_memory_base :: "str option"

record ws_host =
  wh_resolve :: "str \<Rightarrow> path"
  wh_passwd :: "str \<Rightarrow> path option"
  wh_digest :: "str \<Rightarrow> str \<Rightarrow> str"
  wh_home :: path
  wh_project :: path
  wh_tmp_base :: str

definition sub_path :: "str \<Rightarrow> str list \<Rightarrow> str" where
  "sub_path base parts =
     (if base = [] then join ''/'' parts
      else if last base = CHR ''/'' then base @ join ''/'' parts
      else join ''/'' (base # parts))"

definition resolve_admin_system_user :: "ws_cfg \<Rightarrow> str \<Rightarrow> str \<Rightarrow> py_exn + str option" where
  "resolve_admin_system_user C source user_id =
     (case memory_owner_key source user_id of Inl e \<Rightarrow> Inl e
      | Inr k \<Rightarrow> Inr (set_text (Some (strip (opt_str (map_of (wc_admin_users C) k))))))"

definition resolve_os_user_home :: "ws_host \<Rightarrow> ws_cfg \<Rightarrow> str \<Rightarrow> path" where
  "resolve_os_user_home H C posix_name =
     (let home_base = wh_resolve H (strip (str_or (wc_home_base C) ''/home''));
          candidate = wh_resolve H (sub_path (path_text home_base) [posix_name])
      in case wh_passwd H posix_name of None \<Rightarrow> candidate
         | Some d \<Rightarrow> if d = candidate \<or> prefix home_base d then d else candidate)"

definition resolve_workspace_owner_dir :: "ws_host \<Rightarrow> ws_cfg \<Rightarrow> str \<Rightarrow> str \<Rightarrow> py_exn + path" where
  "resolve_workspace_owner_dir H C source user_id =
     (case both_segments source user_id of Inl e \<Rightarrow> Inl e
      | Inr (fe, uid) \<Rightarrow>
          if wc_os_users C
          then (case resolve_admin_system_user C fe uid of Inl e \<Rightarrow> Inl e
                | Inr (Some admin) \<Rightarrow> Inr (resolve_os_user_home H C admin)
                | Inr None \<Rightarrow>
                    (case logic_os_user_name (wh_digest H) (wc_prefix C) fe uid of Inl e \<Rightarrow> Inl e
                     | Inr n \<Rightarrow> Inr (resolve_os_user_home H C n)))
          else Inr (wh_resolve H (sub_path (strip (str_or (wc_workspaces C) ''./data/workspace'')) [fe, uid])))"

definition resolve_workspace_tmp_dir :: "ws_host \<Rightarrow> str \<Rightarrow> str \<Rightarrow> py_exn + path" where
  "resolve_workspace_tmp_dir H source user_id =
     (case both_segments source user_id of Inl e \<Rightarrow> Inl e
      | Inr (fe, uid) \<Rightarrow> Inr (wh_resolve H (sub_path (wh_tmp_base H) [fe, uid])))"

text \<open>The directory of a user's memory; here the segments are not checked.\<close>

definition memory_owner_dir :: "ws_host \<Rightarrow> ws_cfg \<Rightarrow> str \<Rightarrow> str \<Rightarrow> str \<Rightarrow> py_exn + path" where
  "memory_owner_dir H C base source user_id =
     (let fe = path_segment source ''cli''; uid = path_segment user_id ''root''
      in if wc_os_users C
         then (case resolve_admin_system_user C fe uid of Inl e \<Rightarrow> Inl e
               | Inr (Some admin) \<Rightarrow> Inr (wh_resolve H (sub_path (path_text (resolve_os_user_home H C admin)) [''data'', ''memory'']))
               | Inr None \<Rightarrow>
                   (case logic_os_user_name (wh_digest H) (wc_prefix C) fe uid of Inl e \<Rightarrow> Inl e
                    | Inr n \<Rightarrow> Inr (wh_resolve H (sub_path (path_text (resolve_os_user_home H C n)) [''data'', ''memory'']))))
         else Inr (wh_resolve H (sub_path (strip (str_or base ''./data/memory'')) [fe, uid])))"

definition is_bash_workspace_admin :: "ws_cfg \<Rightarrow> str \<Rightarrow> str \<Rightarrow> bool \<Rightarrow> py_exn + bool" where
  "is_bash_workspace_admin C source user_id profile_admin =
     (if profile_admin then Inr True
      else case memory_owner_key source user_id of Inl e \<Rightarrow> Inl e
        | Inr k \<Rightarrow> Inr (k \<in> set (filter (\<lambda>x. x \<noteq> []) (map strip (wc_admin_owners C)))))"

definition list_user_ids :: "(str \<times> bool) list \<Rightarrow> str list" where
  "list_user_ids entries = map fst (filter (\<lambda>(n, is_dir). is_dir \<and> \<not> prefix ''.'' n) entries)"

text \<open>\<open>effective_memory_namespace_from_execution_context\<close>; values are read as text.\<close>

definition effective_namespace :: "(str, pyval) dict \<Rightarrow> str \<times> str" where
  "effective_namespace ctx =
     (let mo = strip (py_str (py_or (py_get ctx ''memory_owner'') (PyStr [])));
          left = strip (takeWhile (\<lambda>c. c \<noteq> CHR '':'') mo);
          right = strip (drop 1 (dropWhile (\<lambda>c. c \<noteq> CHR '':'') mo))
      in if CHR '':'' \<in> set mo \<and> left \<noteq> [] \<and> right \<noteq> [] then (left, right)
         else (str_or (strip (py_str (py_or (py_get ctx ''source'') (PyStr [])))) ''cli'',
               str_or (strip (py_str (py_or (py_get ctx ''user_id'') (PyStr [])))) ''root''))"

section \<open>Capabilities of a session\<close>

record capabilities =
  sc_owner_root :: path
  sc_tmp_root :: path
  sc_initial_cwd :: path
  sc_readable :: "path list"
  sc_writable :: "path list"
  sc_run_as :: "str option"
  sc_admin :: bool
  sc_isolated :: bool
  sc_os_home :: bool
  sc_project :: bool

definition dedupe_paths :: "ws_host \<Rightarrow> path list \<Rightarrow> path list" where
  "dedupe_paths H ps = fold add_new (map (\<lambda>p. wh_resolve H (path_text p)) ps) []"

definition owner_root_of :: "ws_host \<Rightarrow> ws_cfg \<Rightarrow> str \<Rightarrow> str \<Rightarrow> py_exn + path \<times> str option" where
  "owner_root_of H C source user_id =
     (if wc_os_users C \<and> wc_isolated C
      then (case logic_os_user_name (wh_digest H) (wc_prefix C) source user_id of Inl e \<Rightarrow> Inl e
            | Inr n \<Rightarrow> Inr (resolve_os_user_home H C n, Some n))
      else if wc_isolated C
      then (case resolve_workspace_owner_dir H C source user_id of Inl e \<Rightarrow> Inl e | Inr p \<Rightarrow> Inr (p, None))
      else Inr (wh_home H, None))"

text \<open>
  \<open>extra\<close> are the merged write roots, \<open>reads\<close> what was granted for reading; a failure in the
  memory directory is swallowed.
\<close>

definition session_capabilities :: "ws_host \<Rightarrow> ws_cfg \<Rightarrow> str \<Rightarrow> str \<Rightarrow> bool \<Rightarrow> bool option \<Rightarrow>
    py_exn + path list \<Rightarrow> py_exn + path list \<Rightarrow> py_exn + capabilities" where
  "session_capabilities H C source user_id profile_admin asked_admin extra reads =
     (case (case asked_admin of Some b \<Rightarrow> Inr b | None \<Rightarrow> is_bash_workspace_admin C source user_id profile_admin) of
        Inl e \<Rightarrow> Inl e
      | Inr admin \<Rightarrow>
          (case resolve_workspace_tmp_dir H source user_id of Inl e \<Rightarrow> Inl e
           | Inr tmp \<Rightarrow>
               (case owner_root_of H C source user_id of Inl e \<Rightarrow> Inl e
                | Inr (owner, run_as) \<Rightarrow>
                    (case extra of Inl e \<Rightarrow> Inl e
                     | Inr ws \<Rightarrow>
                         (case reads of Inl e \<Rightarrow> Inl e
                          | Inr rs \<Rightarrow>
                              (let memory = (case wc_memory_base C of None \<Rightarrow> []
                                     | Some b \<Rightarrow> (case memory_owner_dir H C b source user_id of Inl _ \<Rightarrow> [] | Inr p \<Rightarrow> [p]));
                                   project = (if admin \<and> wc_isolated C then [wh_project H] else [])
                               in Inr \<lparr>sc_owner_root = owner, sc_tmp_root = tmp,
                                  sc_initial_cwd = (if wc_isolated C then owner
                                    else wh_resolve H (str_or (strip (str_or (wc_base_dir C) ''.'')) ''.'')),
                                  sc_readable = dedupe_paths H ([owner, tmp] @ memory @ ws @ rs @ project),
                                  sc_writable = dedupe_paths H ([owner, tmp] @ memory @ ws @ project),
                                  sc_run_as = run_as, sc_admin = admin, sc_isolated = wc_isolated C,
                                  sc_os_home = (wc_isolated C \<and> wc_os_users C),
                                  sc_project = (admin \<and> wc_isolated C)\<rparr>))))))"

section \<open>Paths in tool arguments\<close>

text \<open>\<open>expanduser\<close> is the host's; it fails when a user is unknown.\<close>

definition remap_tilde :: "ws_host \<Rightarrow> (str \<Rightarrow> str option) \<Rightarrow> path \<Rightarrow> bool \<Rightarrow> str \<Rightarrow> str option" where
  "remap_tilde H expanduser home isolated path_str =
     (let s = strip path_str
      in if \<not> isolated then expanduser s
         else if s = ''~'' then Some (path_text (wh_resolve H (path_text home)))
         else if prefix ''~/'' s
         then (let rest = dropWhile (\<lambda>c. c = CHR ''/'') (drop 2 s)
               in Some (path_text (wh_resolve H (if rest = [] then path_text home else sub_path (path_text home) [rest]))))
         else expanduser s)"

definition resolve_tool_path :: "ws_host \<Rightarrow> (str \<Rightarrow> str option) \<Rightarrow> str \<Rightarrow> capabilities \<Rightarrow> str \<Rightarrow> py_exn + path" where
  "resolve_tool_path H expanduser base_dir cap path_str =
     (case remap_tilde H expanduser (sc_owner_root cap) (sc_isolated cap) path_str of
        None \<Rightarrow> Inl (RuntimeError ''Could not determine home directory.'')
      | Some s \<Rightarrow>
          Inr (wh_resolve H
            (if prefix ''/'' s then s
             else sub_path (path_text (if sc_isolated cap then sc_owner_root cap else wh_resolve H base_dir)) [s])))"

definition should_skip :: "str \<Rightarrow> bool" where
  "should_skip s \<longleftrightarrow> (let t = strip s in t = [] \<or> list_ex (\<lambda>p. prefix p t) [''http://'', ''https://'', ''data:''])"

definition resolve_value :: "(str \<Rightarrow> py_exn + path) \<Rightarrow> bool \<Rightarrow> pyval \<Rightarrow> py_exn + pyval" where
  "resolve_value resolve remote v =
     (case v of
        PyStr s \<Rightarrow> if should_skip s \<or> remote then Inr v
          else (case resolve (strip s) of Inl e \<Rightarrow> Inl e | Inr p \<Rightarrow> Inr (PyStr (path_text p)))
      | _ \<Rightarrow> Inr v)"

definition set_key :: "str \<Rightarrow> (pyval \<Rightarrow> py_exn + pyval) \<Rightarrow> (str, pyval) dict \<Rightarrow> py_exn + (str, pyval) dict" where
  "set_key k f d =
     (case map_of d k of None \<Rightarrow> Inr d
      | Some v \<Rightarrow> (case f v of Inl e \<Rightarrow> Inl e | Inr w \<Rightarrow> Inr (dset k w d)))"

fun resolve_each :: "(pyval \<Rightarrow> py_exn + pyval) \<Rightarrow> pyval list \<Rightarrow> py_exn + pyval list" where
  "resolve_each f [] = Inr []"
| "resolve_each f (v # vs) =
     (case f v of Inl e \<Rightarrow> Inl e | Inr w \<Rightarrow> (case resolve_each f vs of Inl e \<Rightarrow> Inl e | Inr ws \<Rightarrow> Inr (w # ws)))"

definition list_values :: "(pyval \<Rightarrow> py_exn + pyval) \<Rightarrow> pyval \<Rightarrow> py_exn + pyval" where
  "list_values f v = (case v of PyList xs \<Rightarrow> map_sum id PyList (resolve_each f xs) | _ \<Rightarrow> Inr v)"

definition resolve_plain_args :: "(str \<Rightarrow> py_exn + path) \<Rightarrow> bool \<Rightarrow> str \<Rightarrow> (str, pyval) dict \<Rightarrow> py_exn + (str, pyval) dict" where
  "resolve_plain_args resolve remote tool args =
     (let f = resolve_value resolve remote
      in if tool = ''attach_media''
         then (case set_key ''path'' f args of Inl e \<Rightarrow> Inl e | Inr d \<Rightarrow> set_key ''paths'' (list_values f) d)
         else if tool = ''attach_image_to_reply'' \<and> truthy (py_get args ''image_path'') then set_key ''image_path'' f args
         else if tool \<in> {''read_file'', ''write_file'', ''modify_file''} then set_key ''path'' f args
         else if tool \<in> {''memory_store'', ''memory_ingest''} \<and> truthy (py_get args ''file_path'') then set_key ''file_path'' f args
         else Inr args)"

text \<open>
  \<open>call_tool\<close> carries another call in its arguments; \<open>resolver\<close> gives the resolution and
  whether a remote workspace is active for the execution context of a call. Only the depth of
  the nesting is bounded here.
\<close>

definition exec_ctx_of :: "(str, pyval) dict \<Rightarrow> (str, pyval) dict" where
  "exec_ctx_of args = dict_of (py_get args ''__execution_context__'')"

fun resolve_tool_args :: "nat \<Rightarrow> ((str, pyval) dict \<Rightarrow> (str \<Rightarrow> py_exn + path) \<times> bool) \<Rightarrow> str \<Rightarrow> (str, pyval) dict \<Rightarrow> (py_exn + (str, pyval) dict) option" where
  "resolve_tool_args n resolver tool args =
     (if tool \<noteq> ''call_tool'' then Some (case resolver (exec_ctx_of args) of (r, remote) \<Rightarrow> resolve_plain_args r remote tool args)
      else case (py_get args ''name'', py_get args ''arguments'') of
        (PyStr inner, PyDict d) \<Rightarrow>
          if strip inner = [] then Some (Inr args)
          else (case n of 0 \<Rightarrow> None
            | Suc n \<Rightarrow>
                map_option (map_sum id (\<lambda>d'. dset ''arguments'' (PyDict d') args))
                  (resolve_tool_args n resolver (strip inner)
                    (if has_key ''__execution_context__'' d then d
                     else dset ''__execution_context__'' (PyDict (exec_ctx_of args)) d)))
      | _ \<Rightarrow> Some (Inr args))"

section \<open>Reaping a subagent\<close>

text \<open>The directories that are removed; \<open>is_dir\<close> tells which exist.\<close>

definition subagent_trees :: "ws_host \<Rightarrow> ws_cfg \<Rightarrow> (path \<Rightarrow> bool) \<Rightarrow> str \<Rightarrow> path list" where
  "subagent_trees H C is_dir sub_session_id =
     (let sid = strip sub_session_id; raw = strip (drop 4 sid)
      in if \<not> prefix ''sub:'' sid \<or> raw = [] then []
         else case validate_segment (path_segment raw []) of Inl _ \<Rightarrow> []
         | Inr uid \<Rightarrow>
             (let base = wh_resolve H (strip (str_or (wc_workspaces C) ''./data/workspace'')) @ [''subagent''];
                  tmp_base = wh_resolve H (wh_tmp_base H) @ [''subagent'']
              in (case resolve_workspace_owner_dir H C ''subagent'' uid of Inl _ \<Rightarrow> []
                  | Inr owner \<Rightarrow>
                      if (prefix base owner \<or> wc_os_users C \<and>
                          (case logic_os_user_name (wh_digest H) (wc_prefix C) ''subagent'' uid of Inl _ \<Rightarrow> False
                           | Inr n \<Rightarrow> owner = resolve_os_user_home H C n)) \<and> is_dir owner
                      then [owner] else []) @
                 (case resolve_workspace_tmp_dir H ''subagent'' uid of Inl _ \<Rightarrow> []
                  | Inr tmp \<Rightarrow> if prefix tmp_base tmp \<and> is_dir tmp then [tmp] else [])))"

section \<open>Names of Linux users\<close>

lemma lower_name_char: "list_all name_char (map (\<lambda>c. if name_char c then c else CHR ''_'') s)"
  by (induction s) (simp_all add: name_char_def)

lemma list_all_squeeze: "list_all P s \<Longrightarrow> list_all P (squeeze s)"
  by (induction s rule: squeeze.induct) auto

lemma list_all_dropWhile: "list_all P s \<Longrightarrow> list_all P (dropWhile Q s)"
  by (induction s) auto

lemma list_all_strip_underscores: "list_all P s \<Longrightarrow> list_all P (strip_underscores s)"
  by (simp add: strip_underscores_def list_all_dropWhile)

lemma list_all_rstrip_underscores: "list_all P s \<Longrightarrow> list_all P (rstrip_underscores s)"
  by (simp add: rstrip_underscores_def list_all_dropWhile)

lemma list_all_take: "list_all P s \<Longrightarrow> list_all P (take n s)"
  by (auto simp: list_all_iff dest: in_set_takeD)

lemma sanitize_name: "list_all name_char (sanitize_segment n s)"
proof -
  have u: "name_char (CHR ''u'')" "name_char (CHR ''_'')" by (simp_all add: name_char_def)
  have "list_all name_char (strip_underscores (squeeze (map (\<lambda>c. if name_char c then c else CHR ''_'') (lower (strip s)))))"
    by (intro list_all_strip_underscores list_all_squeeze lower_name_char)
  then show ?thesis
    using u by (auto simp: sanitize_segment_def Let_def str_or_def list_all_rstrip_underscores list_all_take)
qed

lemma user_prefix_name: "user_prefix ''m_'' = ''m_''"
  by (simp add: user_prefix_def strip_def lstrip_def rstrip_def is_space_def Let_def)

definition digest_ok :: "(str \<Rightarrow> str \<Rightarrow> str) \<Rightarrow> bool" where
  "digest_ok d \<longleftrightarrow> (\<forall>a b. length (d a b) = 8 \<and> list_all name_char (d a b))"

section \<open>Directories of different users\<close>

text \<open>No links below the directories named in the configuration.\<close>

definition no_links :: "ws_host \<Rightarrow> bool" where
  "no_links H \<longleftrightarrow>
     (\<forall>base a b. (\<exists>v. validate_segment v = Inr a) \<and> (\<exists>v. validate_segment v = Inr b) \<longrightarrow>
        wh_resolve H (sub_path base [a, b]) = wh_resolve H base @ [a, b]) \<and>
     (\<forall>s. wh_resolve H (path_text (wh_resolve H s)) = wh_resolve H s)"

definition apart :: "path \<Rightarrow> path \<Rightarrow> bool" where
  "apart p q \<longleftrightarrow> \<not> prefix p q \<and> \<not> prefix q p"

lemma apart_append: "apart p q \<Longrightarrow> apart (p @ a) (q @ b)"
proof -
  assume a: "apart p q"
  have "prefix x y \<or> prefix y x" if "prefix (x @ u) (y @ v)" for x y u v :: path
    using that prefix_same_cases [of x "y @ v" y] by (meson append_prefixD prefixI)
  then show ?thesis using a unfolding apart_def by blast
qed

lemma apart_names: "(a, b) \<noteq> (c, d) \<Longrightarrow> apart (p @ [a, b]) (p @ [c, d])"
  by (auto simp: apart_def)

lemma both_segments_valid:
  "both_segments source user_id = Inr (fe, uid) \<Longrightarrow> (\<exists>v. validate_segment v = Inr fe) \<and> (\<exists>v. validate_segment v = Inr uid)"
  by (auto simp: both_segments_def split: sum.splits)

lemma both_segments_again:
  assumes "both_segments source user_id = Inr (fe, uid)"
  shows "both_segments fe uid = Inr (fe, uid)" "path_segment fe ''cli'' = fe" "path_segment uid ''root'' = uid"
    "path_segment source ''cli'' = fe" "path_segment user_id ''root'' = uid"
proof -
  obtain v w where v: "validate_segment v = Inr fe" "validate_segment w = Inr uid" "v = path_segment source ''cli''" "w = path_segment user_id ''root''"
    using assms by (auto simp: both_segments_def split: sum.splits)
  note f = validate_segment_safe [OF v(1)] and u = validate_segment_safe [OF v(2)]
  have s: "strip fe = fe" "strip uid = uid" "fe \<noteq> []" "uid \<noteq> []" using f u by auto
  then show n: "path_segment fe ''cli'' = fe" "path_segment uid ''root'' = uid" by (simp_all add: path_segment_def str_or_def)
  have "validate_segment fe = Inr fe" "validate_segment uid = Inr uid"
    using v(1,2) f u s unfolding validate_segment_def by (simp_all add: Let_def split: if_splits)
  then show "both_segments fe uid = Inr (fe, uid)" by (simp add: both_segments_def n)
  have "strip (path_segment x y) = path_segment x y" if "strip y = y" for x y
    using that by (simp add: path_segment_def str_or_def)
  then show "path_segment source ''cli'' = fe" "path_segment user_id ''root'' = uid" using f u v(3,4) by simp_all
qed

definition own_bases :: "ws_host \<Rightarrow> ws_cfg \<Rightarrow> path list" where
  "own_bases H C =
     [wh_resolve H (strip (str_or (wc_workspaces C) ''./data/workspace'')), wh_resolve H (wh_tmp_base H)] @
     (case wc_memory_base C of None \<Rightarrow> [] | Some b \<Rightarrow> [wh_resolve H (strip (str_or b ''./data/memory''))])"

lemma in_dedupe: "p \<in> set (dedupe_paths H ps) \<longleftrightarrow> p \<in> (\<lambda>p. wh_resolve H (path_text p)) ` set ps"
  by (simp add: dedupe_paths_def set_fold_add_new)

lemma own_roots:
  assumes "no_links H" "both_segments source user_id = Inr (fe, uid)" "wc_isolated C" "\<not> wc_os_users C"
    "session_capabilities H C source user_id profile_admin (Some False) (Inr []) (Inr []) = Inr cap" "p \<in> set (sc_readable cap)"
  shows "\<exists>base \<in> set (own_bases H C). p = base @ [fe, uid]"
proof -
  have v: "(\<exists>v. validate_segment v = Inr fe) \<and> (\<exists>v. validate_segment v = Inr uid)" using both_segments_valid [OF assms(2)] .
  have sub: "wh_resolve H (sub_path base [fe, uid]) = wh_resolve H base @ [fe, uid]" for base
    using assms(1) v by (auto simp: no_links_def)
  have idem: "wh_resolve H (path_text (wh_resolve H base @ [fe, uid])) = wh_resolve H base @ [fe, uid]" for base
    using assms(1) sub [of base] unfolding no_links_def by metis
  note again = both_segments_again [OF assms(2)]
  have tmp: "resolve_workspace_tmp_dir H source user_id = Inr (wh_resolve H (wh_tmp_base H) @ [fe, uid])"
    by (simp add: resolve_workspace_tmp_dir_def assms(2) sub)
  have own: "owner_root_of H C source user_id =
      Inr (wh_resolve H (strip (str_or (wc_workspaces C) ''./data/workspace'')) @ [fe, uid], None)"
    by (simp add: owner_root_of_def resolve_workspace_owner_dir_def assms(2-4) sub)
  have mem: "memory_owner_dir H C b source user_id = Inr (wh_resolve H (strip (str_or b ''./data/memory'')) @ [fe, uid])" for b
    by (simp add: memory_owner_dir_def again assms(4) sub Let_def)
  have "sc_readable cap = dedupe_paths H
      ([wh_resolve H (strip (str_or (wc_workspaces C) ''./data/workspace'')) @ [fe, uid], wh_resolve H (wh_tmp_base H) @ [fe, uid]] @
       (case wc_memory_base C of None \<Rightarrow> [] | Some b \<Rightarrow> [wh_resolve H (strip (str_or b ''./data/memory'')) @ [fe, uid]]))"
    using assms(5) by (auto simp: session_capabilities_def tmp own mem Let_def split: option.splits)
  then show ?thesis
    using assms(6) by (auto simp: in_dedupe idem own_bases_def split: option.splits)
qed

lemma dedupe_mono: "set ps \<subseteq> set qs \<Longrightarrow> set (dedupe_paths H ps) \<subseteq> set (dedupe_paths H qs)"
  unfolding subset_iff in_dedupe by blast

lemma writable_readable:
  assumes "session_capabilities H C source user_id profile_admin asked (Inr ws) (Inr rs) = Inr cap"
  shows "set (sc_writable cap) \<subseteq> set (sc_readable cap)"
proof -
  let ?M = "case wc_memory_base C of None \<Rightarrow> [] | Some b \<Rightarrow> (case memory_owner_dir H C b source user_id of Inl _ \<Rightarrow> [] | Inr p \<Rightarrow> [p])"
  let ?P = "if sc_project cap then [wh_project H] else []"
  have "sc_writable cap = dedupe_paths H ([sc_owner_root cap, sc_tmp_root cap] @ ?M @ ws @ ?P)"
    "sc_readable cap = dedupe_paths H ([sc_owner_root cap, sc_tmp_root cap] @ ?M @ ws @ rs @ ?P)"
    using assms by (simp_all add: session_capabilities_def Let_def split: sum.splits prod.splits) (clarsimp, clarsimp)
  then show ?thesis by (simp only:) (rule dedupe_mono, auto)
qed

text \<open>Names computed on given segments.\<close>

lemma strip_names [simp]:
  "strip ''Root'' = ''Root''" "strip ''a'' = ''a''" "strip ''b_c'' = ''b_c''" "strip ''a_b'' = ''a_b''" "strip ''c'' = ''c''"
  by (simp_all add: strip_id_iff_ends is_space_def)

lemma named_segments:
  "both_segments ''cli'' ''Root'' = Inr (''cli'', ''Root'')" "both_segments ''cli'' ''root'' = Inr (''cli'', ''root'')"
  "both_segments ''a'' ''b_c'' = Inr (''a'', ''b_c'')" "both_segments ''a_b'' ''c'' = Inr (''a_b'', ''c'')"
  by (simp_all add: both_segments_def path_segment_def validate_segment_def)

definition underscored :: "str \<Rightarrow> str" where
  "underscored s = strip_underscores (squeeze (map (\<lambda>c. if name_char c then c else CHR ''_'') (lower (strip s))))"

lemma sanitize_eq:
  assumes "underscored s = t" "t \<noteq> []" "is_letter (hd t)" "length t \<le> n"
  shows "sanitize_segment n s = t"
  using assms unfolding underscored_def by (simp add: sanitize_segment_def Let_def)

lemma lower_Root: "lower ''Root'' = ''root''"
  by code_simp

lemma underscored_names:
  "underscored ''cli'' = ''cli''" "underscored ''Root'' = ''root''" "underscored ''root'' = ''root''"
  "underscored ''a'' = ''a''" "underscored ''b_c'' = ''b_c''" "underscored ''a_b'' = ''a_b''" "underscored ''c'' = ''c''"
  by (simp_all add: underscored_def lower_Root) (simp_all add: lower_def lower_char_def name_char_def strip_underscores_def)

lemma sanitized:
  assumes "16 \<le> n"
  shows "sanitize_segment n ''cli'' = ''cli''" "sanitize_segment n ''Root'' = ''root''" "sanitize_segment n ''root'' = ''root''"
    "sanitize_segment n ''a'' = ''a''" "sanitize_segment n ''b_c'' = ''b_c''" "sanitize_segment n ''a_b'' = ''a_b''" "sanitize_segment n ''c'' = ''c''"
  using assms by (simp_all add: sanitize_eq [OF underscored_names(1)] sanitize_eq [OF underscored_names(2)] sanitize_eq [OF underscored_names(3)]
      sanitize_eq [OF underscored_names(4)] sanitize_eq [OF underscored_names(5)] sanitize_eq [OF underscored_names(6)]
      sanitize_eq [OF underscored_names(7)] is_letter_def)

lemma account_names:
  "logic_os_user_name d ''m_'' ''cli'' ''Root'' = Inr ''m_cli_root''" "logic_os_user_name d ''m_'' ''cli'' ''root'' = Inr ''m_cli_root''"
  "logic_os_user_name d ''m_'' ''a'' ''b_c'' = Inr ''m_a_b_c''" "logic_os_user_name d ''m_'' ''a_b'' ''c'' = Inr ''m_a_b_c''"
  by (simp_all add: logic_os_user_name_def named_segments user_prefix_name sanitized posix_name_max_def safe_body_def name_char_def Let_def)

section \<open>Properties\<close>


text \<open>With Linux users the separation is only as good as the names: users whose names differ in case alone, or in where the underscore falls, get the same account and so the same home.\<close>

theorem users_share_an_account:
  "owner_root_of H (C\<lparr>wc_isolated := True, wc_os_users := True, wc_prefix := ''m_''\<rparr>) ''cli'' ''Root'' =
     owner_root_of H (C\<lparr>wc_isolated := True, wc_os_users := True, wc_prefix := ''m_''\<rparr>) ''cli'' ''root'' \<and>
   owner_root_of H (C\<lparr>wc_isolated := True, wc_os_users := True, wc_prefix := ''m_''\<rparr>) ''a'' ''b_c'' =
     owner_root_of H (C\<lparr>wc_isolated := True, wc_os_users := True, wc_prefix := ''m_''\<rparr>) ''a_b'' ''c''"
  by (simp add: owner_root_of_def account_names)

text \<open>The name of a Linux user has at most 31 characters, all of them lower-case letters, digits, underscores and dashes.\<close>

theorem os_user_names_safe:
  assumes "digest_ok d" "logic_os_user_name d ''m_'' source user_id = Inr n"
  shows "length n \<le> 31 \<and> list_all name_char n"
proof -
  obtain fe uid where k: "both_segments source user_id = Inr (fe, uid)"
    using assms(2) by (auto simp: logic_os_user_name_def split: sum.splits)
  have "list_all name_char (d fe uid)" using assms(1) by (simp add: digest_ok_def)
  moreover have "name_char (CHR ''m'')" "name_char (CHR ''_'')" by (simp_all add: name_char_def)
  ultimately show ?thesis
    using assms(2) by (auto simp: logic_os_user_name_def k user_prefix_name sanitize_name list_all_take Let_def posix_name_max_def
        split: if_splits)
qed

text \<open>Reaping a subagent removes nothing outside the subagents' part of the workspaces and of the temporary files, but for the home of the subagent's own Linux user.\<close>

theorem reaping_stays_inside:
  assumes "p \<in> set (subagent_trees H C is_dir sub_session_id)"
  shows "prefix (wh_resolve H (strip (str_or (wc_workspaces C) ''./data/workspace'')) @ [''subagent'']) p \<or>
    prefix (wh_resolve H (wh_tmp_base H) @ [''subagent'']) p \<or>
    wc_os_users C \<and> (\<exists>uid n. logic_os_user_name (wh_digest H) (wc_prefix C) ''subagent'' uid = Inr n \<and> p = resolve_os_user_home H C n)"
  using assms by (auto simp: subagent_trees_def Let_def split: sum.splits if_splits)

section \<open>Witnesses\<close>

lemma split_on_append: "split_on c (s @ c # t) = split_on c s @ split_on c t"
  by (induction s) (auto split: list.split)

lemma plain_resolve_slash: "plain_resolve (s @ CHR ''/'' # t) = plain_resolve s @ plain_resolve t"
  by (simp add: plain_resolve_def split_on_append)

lemma plain_resolve_one: "CHR ''/'' \<notin> set a \<Longrightarrow> a \<noteq> [] \<Longrightarrow> plain_resolve a = [a]"
  by (simp add: plain_resolve_def split_on_no_sep)

lemma plain_resolve_sub:
  assumes "CHR ''/'' \<notin> set a" "a \<noteq> []" "CHR ''/'' \<notin> set b" "b \<noteq> []"
  shows "plain_resolve (sub_path base [a, b]) = plain_resolve base @ [a, b]"
proof -
  note one = plain_resolve_one [OF assms(1,2)] plain_resolve_one [OF assms(3,4)]
  have ab: "plain_resolve (a @ CHR ''/'' # b) = [a, b]" by (simp add: plain_resolve_slash one)
  show ?thesis
  proof (cases base rule: rev_cases)
    case Nil
    then show ?thesis using ab by (simp add: sub_path_def plain_resolve_def)
  next
    case (snoc xs x)
    have "plain_resolve (xs @ CHR ''/'' # a @ CHR ''/'' # b) = plain_resolve xs @ [a, b]"
      using plain_resolve_slash [of xs "a @ CHR ''/'' # b"] ab by simp
    moreover have "plain_resolve (xs @ [CHR ''/'']) = plain_resolve xs"
      using plain_resolve_slash [of xs "[]"] by (simp add: plain_resolve_def)
    moreover have "plain_resolve (base @ CHR ''/'' # a @ CHR ''/'' # b) = plain_resolve base @ [a, b]"
      using plain_resolve_slash [of base "a @ CHR ''/'' # b"] ab by simp
    ultimately show ?thesis using snoc by (simp add: sub_path_def)
  qed
qed

definition plain_host :: ws_host where
  "plain_host = \<lparr>wh_resolve = plain_resolve, wh_passwd = (\<lambda>_. None), wh_digest = (\<lambda>_ _. ''01234567''), wh_home = [''home''],
     wh_project = [''p''], wh_tmp_base = ''/tmp''\<rparr>"

definition plain_cfg :: ws_cfg where
  "plain_cfg = \<lparr>wc_isolated = True, wc_os_users = False, wc_prefix = ''m_'', wc_home_base = ''/home'', wc_workspaces = ''/ws'',
     wc_base_dir = ''.'', wc_admin_owners = [], wc_admin_users = [], wc_memory_base = None\<rparr>"

lemma plain_host_links: "no_links plain_host"
  using plain_resolve_sub validate_segment_safe
  by (auto simp: no_links_def plain_host_def plain_resolve_text plain_resolve_plain)

lemma plain_bases: "own_bases plain_host plain_cfg = [[''ws''], [''tmp'']]"
  by (simp add: own_bases_def plain_host_def plain_cfg_def plain_resolve_def str_or_def strip_id_iff_ends is_space_def)

lemma plain_capabilities:
  assumes "both_segments source user_id = Inr (fe, uid)"
  shows "\<exists>cap. session_capabilities plain_host plain_cfg source user_id False (Some False) (Inr []) (Inr []) = Inr cap \<and>
    wh_resolve plain_host (path_text (sc_owner_root cap)) \<in> set (sc_writable cap)"
  using assms by (simp add: session_capabilities_def resolve_workspace_tmp_dir_def owner_root_of_def resolve_workspace_owner_dir_def
      plain_cfg_def Let_def in_dedupe)


theorem os_user_names_safe_witness: "length ''m_cli_root'' \<le> 31 \<and> list_all name_char ''m_cli_root''"
proof -
  have "digest_ok (\<lambda>_ _. ''01234567'')" by (simp add: digest_ok_def name_char_def)
  from os_user_names_safe [OF this account_names(2)] show ?thesis .
qed

theorem reaping_stays_inside_witness:
  "prefix [''ws'', ''subagent''] [''ws'', ''subagent'', ''c''] \<or> prefix [''tmp'', ''subagent''] [''ws'', ''subagent'', ''c'']"
proof -
  have seg: "both_segments ''subagent'' ''c'' = Inr (''subagent'', ''c'')" "strip ''sub:c'' = ''sub:c''"
    by (simp_all add: both_segments_def path_segment_def validate_segment_def strip_id_iff_ends is_space_def)
  have v: "validate_segment (path_segment ''c'' []) = Inr ''c''" by (simp add: path_segment_def validate_segment_def)
  have base: "plain_resolve (strip (str_or (wc_workspaces plain_cfg) ''./data/workspace'')) = [''ws'']"
    "plain_resolve ''/ws'' = [''ws'']" "plain_resolve ''/tmp'' = [''tmp'']"
    by (simp_all add: plain_cfg_def plain_resolve_def str_or_def strip_id_iff_ends is_space_def)
  have dir: "resolve_workspace_owner_dir plain_host plain_cfg ''subagent'' ''c'' = Inr [''ws'', ''subagent'', ''c'']"
    using plain_resolve_sub [of "''subagent''" "''c''" "''/ws''"] base seg
    by (simp add: resolve_workspace_owner_dir_def plain_host_def plain_cfg_def str_or_def strip_id_iff_ends is_space_def)
  have "[''ws'', ''subagent'', ''c''] \<in> set (subagent_trees plain_host plain_cfg (\<lambda>_. True) ''sub:c'')"
    using seg v dir base by (simp add: subagent_trees_def plain_host_def Let_def)
  from reaping_stays_inside [OF this] base show ?thesis by (simp add: plain_host_def plain_cfg_def)
qed

end
