(* ===== verification/File_Trees.thy ===== *)
theory File_Trees
  imports Workspaces
begin

text \<open>
  Moving a user's old directories into a Linux home
  (\<open>migrate_legacy_workspace_and_memory_to_home\<close> and \<open>_merge_move_tree\<close> in
  \<open>agent_core/agent/workspace_paths.py\<close>). A directory is a list of named entries in the order
  the system lists them; symbolic links and failing system calls are left out.
\<close>

datatype node = File str | Dir "(str \<times> node) list"

type_synonym entries = "(str \<times> node) list"

text \<open>Replacing an entry in place.\<close>

definition put_node :: "str \<Rightarrow> node \<Rightarrow> entries \<Rightarrow> entries" where
  "put_node n v es = map (\<lambda>(m, w). if m = n then (m, v) else (m, w)) es"

text \<open>
  \<open>_merge_move_tree\<close>: what stays in the source, the destination after it, and the paths moved
  and skipped, relative to the source. A directory left empty is removed.
\<close>

function merge_move :: "str list \<Rightarrow> entries \<Rightarrow> entries \<Rightarrow> entries \<times> entries \<times> path list \<times> path list" where
  "merge_move skip [] dst = ([], dst, [], [])"
| "merge_move skip ((n, c) # es) dst =
     (if n \<in> set skip
      then (case merge_move skip es dst of (left, d, mv, sk) \<Rightarrow> ((n, c) # left, d, mv, [n] # sk))
      else case map_of dst n of
        None \<Rightarrow> (case merge_move skip es (dst @ [(n, c)]) of (left, d, mv, sk) \<Rightarrow> (left, d, [n] # mv, sk))
      | Some t \<Rightarrow>
          (case (c, t) of
             (Dir cs, Dir ts) \<Rightarrow>
               (case merge_move [] cs ts of (left1, d1, mv1, sk1) \<Rightarrow>
                 (case merge_move skip es (put_node n (Dir d1) dst) of (left, d, mv, sk) \<Rightarrow>
                   ((if left1 = [] then left else (n, Dir left1) # left), d,
                    map ((#) n) mv1 @ mv, map ((#) n) sk1 @ sk)))
           | _ \<Rightarrow> (case merge_move skip es dst of (left, d, mv, sk) \<Rightarrow> ((n, c) # left, d, mv, [n] # sk))))"
  by pat_completeness auto
termination by (relation "measure (\<lambda>(skip, es, dst). size_list (size_prod (\<lambda>_. 0) size) es)") auto

text \<open>The names a set of relative paths excludes, \<open>{s.strip("/").strip() \<dots>}\<close>.\<close>

definition strip_slashes :: "str \<Rightarrow> str" where
  "strip_slashes s = rev (dropWhile (\<lambda>c. c = CHR ''/'') (rev (dropWhile (\<lambda>c. c = CHR ''/'') s)))"

definition skip_names :: "str list \<Rightarrow> str list" where
  "skip_names rels = map (\<lambda>s. strip (strip_slashes s)) (filter (\<lambda>s. strip s \<noteq> []) rels)"

text \<open>The two legacy trees (\<open>None\<close>: absent, or the home itself) merged into the home.\<close>

definition ensure_dir :: "str \<Rightarrow> entries \<Rightarrow> entries option" where
  "ensure_dir n es = (case map_of es n of None \<Rightarrow> Some (es @ [(n, Dir [])]) | Some (Dir _) \<Rightarrow> Some es | Some (File _) \<Rightarrow> None)"

definition dir_at :: "str \<Rightarrow> entries \<Rightarrow> entries" where
  "dir_at n es = (case map_of es n of Some (Dir d) \<Rightarrow> d | _ \<Rightarrow> [])"

definition merge_into :: "str list \<Rightarrow> entries option \<Rightarrow> entries \<Rightarrow> entries option \<times> entries \<times> path list \<times> path list" where
  "merge_into skip src dst =
     (case src of None \<Rightarrow> (None, dst, [], [])
      | Some es \<Rightarrow> (case merge_move skip es dst of (left, d, mv, sk) \<Rightarrow> ((if left = [] then None else Some left), d, mv, sk)))"

text \<open>An error is a file where \<open>data\<close> or \<open>data/memory\<close> has to be.\<close>

definition migrate_legacy :: "entries option \<Rightarrow> entries option option \<Rightarrow> entries \<Rightarrow>
    (entries option \<times> entries option \<times> entries \<times> bool) option" where
  "migrate_legacy workspace memory home =
     (case merge_into (skip_names [''data/memory'']) workspace home of (w, home1, mv, _) \<Rightarrow>
        (case memory of None \<Rightarrow> Some (w, None, home1, mv \<noteq> [])
         | Some legacy \<Rightarrow>
             (case ensure_dir ''data'' home1 of None \<Rightarrow> None
              | Some home2 \<Rightarrow>
                  (case ensure_dir ''memory'' (dir_at ''data'' home2) of None \<Rightarrow> None
                   | Some data \<Rightarrow>
                       (case merge_into [] legacy (dir_at ''memory'' data) of (m, mem, mv', _) \<Rightarrow>
                          Some (w, m, put_node ''data'' (Dir (put_node ''memory'' (Dir mem) data)) home2, mv @ mv' \<noteq> []))))))"

section \<open>Laws\<close>

text \<open>The file a path names.\<close>

fun file_at :: "entries \<Rightarrow> path \<Rightarrow> str option" where
  "file_at es [] = None"
| "file_at es (n # p) =
     (case map_of es n of None \<Rightarrow> None
      | Some (File s) \<Rightarrow> (if p = [] then Some s else None)
      | Some (Dir ds) \<Rightarrow> file_at ds p)"

text \<open>No two entries of a directory have the same name.\<close>

fun tidy_node :: "node \<Rightarrow> bool" where
  "tidy_node (File _) \<longleftrightarrow> True"
| "tidy_node (Dir es) \<longleftrightarrow> distinct (map fst es) \<and> (\<forall>c \<in> snd ` set es. tidy_node c)"

abbreviation tidy :: "entries \<Rightarrow> bool" where
  "tidy es \<equiv> tidy_node (Dir es)"

lemma tidy_lookup: "tidy es \<Longrightarrow> map_of es n = Some v \<Longrightarrow> tidy_node v"
  by (force dest: map_of_SomeD)

lemma map_of_put_node [simp]:
  "map_of (put_node n v es) m = (if m = n then map_option (\<lambda>_. v) (map_of es n) else map_of es m)"
  by (induction es) (auto simp: put_node_def)

lemma merge_names:
  "merge_move skip es dst = (left, d, mv, sk) \<Longrightarrow> distinct (map fst es) \<Longrightarrow>
     map_of d m = (case map_of es m of None \<Rightarrow> map_of dst m
       | Some c \<Rightarrow> if m \<in> set skip then map_of dst m
           else (case map_of dst m of None \<Rightarrow> Some c
             | Some t \<Rightarrow> (case (c, t) of (Dir cs, Dir ts) \<Rightarrow> Some (Dir (fst (snd (merge_move [] cs ts)))) | _ \<Rightarrow> Some t))) \<and>
     map_of left m = (case map_of es m of None \<Rightarrow> None
       | Some c \<Rightarrow> if m \<in> set skip then Some c
           else (case map_of dst m of None \<Rightarrow> None
             | Some t \<Rightarrow> (case (c, t) of
                 (Dir cs, Dir ts) \<Rightarrow> if fst (merge_move [] cs ts) = [] then None else Some (Dir (fst (merge_move [] cs ts)))
               | _ \<Rightarrow> Some c)))"
proof (induction es arbitrary: dst left d mv sk)
  case (Cons e es)
  obtain n c where e: "e = (n, c)" by (cases e)
  have n: "map_of es n = None" and es: "distinct (map fst es)" using Cons.prems(2) e by (auto simp: map_of_eq_None_iff)
  note IH = Cons.IH [OF _ es]
  show ?case
  proof (cases "n \<in> set skip")
    case True
    obtain l1 d1 m1 s1 where r: "merge_move skip es dst = (l1, d1, m1, s1)" by (metis prod_cases4)
    then have "left = (n, c) # l1" "d = d1" using True Cons.prems(1) e by auto
    then show ?thesis using IH [OF r] True n e by auto
  next
    case False
    note notin = False
    show ?thesis
    proof (cases "map_of dst n")
      case None
      obtain l1 d1 m1 s1 where r: "merge_move skip es (dst @ [(n, c)]) = (l1, d1, m1, s1)" by (metis prod_cases4)
      then have "left = l1" "d = d1" using notin None Cons.prems(1) e by auto
      then show ?thesis using IH [OF r] notin None n e by (auto simp: map_add_def split: option.split)
    next
      case (Some t)
      note t = Some
      show ?thesis
      proof (cases "\<exists>cs ts. c = Dir cs \<and> t = Dir ts")
        case True
        then obtain cs ts where ct: "c = Dir cs" "t = Dir ts" by blast
        obtain l0 d0 m0 s0 where r0: "merge_move [] cs ts = (l0, d0, m0, s0)" by (metis prod_cases4)
        obtain l1 d1 m1 s1 where r: "merge_move skip es (put_node n (Dir d0) dst) = (l1, d1, m1, s1)" by (metis prod_cases4)
        have "left = (if l0 = [] then l1 else (n, Dir l0) # l1)" "d = d1"
          using notin t ct r0 r Cons.prems(1) e by (auto split: if_splits)
        then show ?thesis using IH [OF r] notin t ct r0 n e by (auto split: option.split)
      next
        case False
        obtain l1 d1 m1 s1 where r: "merge_move skip es dst = (l1, d1, m1, s1)" by (metis prod_cases4)
        have "left = (n, c) # l1" "d = d1"
          using notin t False r Cons.prems(1) e by (auto split: node.splits)
        then show ?thesis using IH [OF r] notin t False n e by (auto split: node.split)
      qed
    qed
  qed
qed simp

section \<open>Properties\<close>

lemma file_at_same: "map_of es n = map_of ds n \<Longrightarrow> file_at es (n # p) = file_at ds (n # p)"
  by simp

text \<open>Moving a directory into another loses and overwrites nothing: a file of the destination stays as it is, a file of the source is afterwards in the destination or still in the source, and no other file appears.\<close>

theorem merge_keeps_every_file:
  assumes "tidy es" "tidy dst" "merge_move skip es dst = (left, d, mv, sk)"
  shows "(\<forall>v. file_at dst p = Some v \<longrightarrow> file_at d p = Some v) \<and>
    (\<forall>v. file_at es p = Some v \<longrightarrow> file_at d p = Some v \<and> file_at left p = None \<or> file_at left p = Some v) \<and>
    (\<forall>v. file_at d p = Some v \<longrightarrow> file_at dst p = Some v \<or> file_at es p = Some v)"
  using assms
proof (induction p arbitrary: es dst skip left d mv sk)
  case (Cons n p)
  have "distinct (map fst es)" using Cons.prems(1) by simp
  note names = merge_names [OF Cons.prems(3) this, of n]
  show ?case
  proof (cases "map_of es n = None \<or> n \<in> set skip \<or> map_of dst n = None")
    case True
    then show ?thesis using names by (auto split: option.splits)
  next
    case False
    then obtain c t where ct: "map_of es n = Some c" "map_of dst n = Some t" "n \<notin> set skip" by auto
    show ?thesis
    proof (cases "\<exists>cs ts. c = Dir cs \<and> t = Dir ts")
      case True
      then obtain cs ts where dirs: "c = Dir cs" "t = Dir ts" by blast
      obtain l0 d0 m0 s0 where r0: "merge_move [] cs ts = (l0, d0, m0, s0)" by (metis prod_cases4)
      have "tidy cs" "tidy ts" using tidy_lookup ct Cons.prems(1,2) dirs by blast+
      note IH = Cons.IH [OF this r0]
      have "file_at l0 p = None" if "l0 = []" using that by (cases p) auto
      then show ?thesis using IH names ct dirs r0 by (auto split: if_splits)
    next
      case False
      then show ?thesis using names ct by (auto split: node.splits if_splits)
    qed
  qed
qed simp
text \<open>
  The exclusion of \<open>data/memory\<close> has no effect: names are compared with it, and a name has no
  slash.
\<close>

lemma skip_names_eval: "skip_names [''data/memory''] = [''data/memory'']"
  by (simp add: skip_names_def strip_slashes_def strip_id_iff_ends is_space_def)

lemma exclusion_has_no_effect:
  "\<forall>n \<in> fst ` set es. CHR ''/'' \<notin> set n \<Longrightarrow> merge_move (skip_names [''data/memory'']) es dst = merge_move [] es dst"
proof (induction es arbitrary: dst)
  case (Cons e es)
  obtain n c where e: "e = (n, c)" by (cases e)
  then have "n \<notin> set (skip_names [''data/memory''])" using Cons.prems by (auto simp: skip_names_eval)
  moreover have "merge_move (skip_names [''data/memory'']) es d = merge_move [] es d" for d
    using Cons by simp
  ultimately show ?case by (simp add: e split: option.split node.split)
qed simp

section \<open>Witness\<close>

theorem merge_keeps_every_file_witness:
  "\<exists>left d mv sk. merge_move [] [(''a'', File ''1''), (''d'', Dir [(''x'', File ''2'')])] [(''a'', File ''0''), (''d'', Dir [])] = (left, d, mv, sk) \<and>
     file_at d [''a''] = Some ''0'' \<and> (file_at d [''d'', ''x''] = Some ''2'' \<or> file_at left [''d'', ''x''] = Some ''2'')"
proof -
  let ?es = "[(''a'', File ''1''), (''d'', Dir [(''x'', File ''2'')])]" and ?dst = "[(''a'', File ''0''), (''d'', Dir [])]"
  obtain left d mv sk where r: "merge_move [] ?es ?dst = (left, d, mv, sk)" by (metis prod_cases4)
  have t: "tidy ?es" "tidy ?dst" by simp_all
  have f: "file_at ?dst [''a''] = Some ''0''" "file_at ?es [''d'', ''x''] = Some ''2''" by simp_all
  have "file_at d [''a''] = Some ''0''" using merge_keeps_every_file [OF t r, of "[''a'']"] f(1) by blast
  moreover have "file_at d [''d'', ''x''] = Some ''2'' \<or> file_at left [''d'', ''x''] = Some ''2''"
    using merge_keeps_every_file [OF t r, of "[''d'', ''x'']"] f(2) by blast
  ultimately show ?thesis using r by blast
qed

end
