(* ===== verification/Text_Edit.thy ===== *)
theory Text_Edit
  imports Bash_Gate Tool_Registry Jobs
begin

text \<open>
  The text edits of the file tools (\<open>_search_replace_with_fallbacks\<close> in
  \<open>system/tools/file_tools.py\<close>): an exact search, then a search by lines up to trailing
  blanks, then one by the first and the last line of a block.

  The second search repeats itself when every occurrence is to be replaced, with nothing that
  bounds the repetition; \<open>None\<close> stands for a call that does not return.
\<close>

section \<open>Reading text\<close>

text \<open>\<open>Path.read_text\<close> gives every end of line as a newline.\<close>

fun universal_newlines :: "str \<Rightarrow> str" where
  "universal_newlines [] = []"
| "universal_newlines (c # cs) =
     (if c = CHR 0x0D
      then newline # universal_newlines (if cs \<noteq> [] \<and> hd cs = newline then tl cs else cs)
      else c # universal_newlines cs)"

text \<open>\<open>s.splitlines(keepends=True)\<close>\<close>

fun splitlines_keep_from :: "str \<Rightarrow> str \<Rightarrow> str list" where
  "splitlines_keep_from cur [] = (if cur = [] then [] else [cur])"
| "splitlines_keep_from cur (c # cs) =
     (if c = CHR 0x0D \<and> cs \<noteq> [] \<and> hd cs = newline then (cur @ [c, newline]) # splitlines_keep_from [] (tl cs)
      else if line_end c then (cur @ [c]) # splitlines_keep_from [] cs
      else splitlines_keep_from (cur @ [c]) cs)"

definition splitlines_keep :: "str \<Rightarrow> str list" where
  "splitlines_keep s = splitlines_keep_from [] s"

section \<open>Searching and replacing\<close>

text \<open>\<open>content.replace(old, new, 1)\<close>\<close>

fun replace_first :: "str \<Rightarrow> str \<Rightarrow> str \<Rightarrow> str" where
  "replace_first old new [] = (if old = [] then new else [])"
| "replace_first old new (c # cs) =
     (if prefix old (c # cs) then new @ drop (length old) (c # cs) else c # replace_first old new cs)"

text \<open>Whether the block of stripped lines stands at line \<open>i\<close>, and the first such line.\<close>

definition block_at :: "nat \<Rightarrow> nat \<Rightarrow> str list \<Rightarrow> str list" where
  "block_at i n ls = take n (drop i ls)"

definition first_match :: "str list \<Rightarrow> str list \<Rightarrow> nat option" where
  "first_match old_lines ls =
     (if old_lines = [] \<or> length ls < length old_lines then None
      else find (\<lambda>i. map rstrip (block_at i (length old_lines) ls) = map rstrip old_lines)
             [0..<Suc (length ls - length old_lines)])"

definition replace_block :: "str list \<Rightarrow> str \<Rightarrow> str \<Rightarrow> nat \<Rightarrow> str" where
  "replace_block old_lines new content i =
     replace_first (join [newline] (block_at i (length old_lines) (splitlines content))) new content"

text \<open>The loop that replaces every match: \<open>i = 0\<close> again after each replacement.\<close>

partial_function (option) replace_blocks :: "str list \<Rightarrow> str \<Rightarrow> str \<Rightarrow> str option" where
  "replace_blocks old_lines new content =
     (case first_match old_lines (splitlines content) of None \<Rightarrow> Some content
      | Some i \<Rightarrow> replace_blocks old_lines new (replace_block old_lines new content i))"

text \<open>The lines that have text, without the blanks around it.\<close>

definition anchor_lines :: "str \<Rightarrow> str list" where
  "anchor_lines old = filter (\<lambda>l. l \<noteq> []) (map strip (splitlines (strip old)))"

definition anchored_block :: "str list \<Rightarrow> str list \<Rightarrow> str option" where
  "anchored_block anchors ls =
     (if length anchors < 2 then None
      else case find (\<lambda>i. strip (ls ! i) = hd anchors) [0..<length ls] of None \<Rightarrow> None
        | Some a \<Rightarrow>
            (case find (\<lambda>i. strip (ls ! i) = last anchors) (rev [Suc a..<length ls]) of None \<Rightarrow> None
             | Some b \<Rightarrow> Some (join [newline] (take (Suc b - a) (drop a ls)))))"

datatype edit_error = Empty_Old_Text | Not_Found

definition by_anchors :: "str \<Rightarrow> str \<Rightarrow> str \<Rightarrow> bool \<Rightarrow> edit_error + str" where
  "by_anchors content old new all =
     (case anchored_block (anchor_lines old) (splitlines content) of None \<Rightarrow> Inl Not_Found
      | Some block \<Rightarrow>
          (let c = (if all then replace_all block new content else replace_first block new content)
           in if c = content then Inl Not_Found else Inr c))"

definition search_replace :: "str \<Rightarrow> str \<Rightarrow> str \<Rightarrow> bool \<Rightarrow> (edit_error + str) option" where
  "search_replace content old new all =
     (if old = [] then Some (Inl Empty_Old_Text)
      else if contains old content
      then Some (Inr (if all then replace_all old new content else replace_first old new content))
      else case first_match (splitlines old) (splitlines content) of
        None \<Rightarrow> Some (by_anchors content old new all)
      | Some i \<Rightarrow>
          if all then map_option Inr (replace_blocks (splitlines old) new content)
          else Some (Inr (replace_block (splitlines old) new content i)))"

section \<open>Laws\<close>

lemma replace_first_absent: "\<not> sublist old s \<Longrightarrow> replace_first old new s = s"
proof (induction s)
  case (Cons c cs)
  then have "\<not> prefix old (c # cs)" "\<not> sublist old cs"
    by (simp_all add: sublist_Cons_right)
  with Cons.IH show ?case by simp
qed (simp add: sublist_Nil_right split: if_splits)

lemma replace_first_present:
  assumes "sublist old s"
  shows "\<exists>u v. s = u @ old @ v \<and> replace_first old new s = u @ new @ v \<and>
    (\<forall>u' v'. s = u' @ old @ v' \<longrightarrow> length u \<le> length u')"
  using assms
proof (induction s)
  case (Cons c cs)
  show ?case
  proof (cases "prefix old (c # cs)")
    case True
    then obtain v where v: "c # cs = old @ v" by (auto simp: prefix_def)
    then have "replace_first old new (c # cs) = new @ v" using True by (metis append_eq_conv_conj replace_first.simps(2))
    then show ?thesis using v by (intro exI [of _ "[]"] exI [of _ v]) auto
  next
    case False
    then have "sublist old cs" using Cons.prems by (simp add: sublist_Cons_right)
    with Cons.IH obtain u v where uv: "cs = u @ old @ v" "replace_first old new cs = u @ new @ v"
      "\<forall>u' v'. cs = u' @ old @ v' \<longrightarrow> length u \<le> length u'" by blast
    have "length (c # u) \<le> length u'" if "c # cs = u' @ old @ v'" for u' v'
      using that False uv(3) by (cases u') (auto simp: prefix_def)
    then show ?thesis using uv(1,2) False by (intro exI [of _ "c # u"] exI [of _ v]) auto
  qed
qed (simp add: sublist_Nil_right)

lemma replace_first_split:
  "replace_first old new s = s \<or> (\<exists>u v. s = u @ old @ v \<and> replace_first old new s = u @ new @ v)"
  using replace_first_absent replace_first_present by metis

lemma first_matchD:
  assumes "first_match old_lines ls = Some i"
  shows "old_lines \<noteq> []" "i + length old_lines \<le> length ls"
    "map rstrip (block_at i (length old_lines) ls) = map rstrip old_lines"
proof -
  let ?P = "\<lambda>i. map rstrip (block_at i (length old_lines) ls) = map rstrip old_lines"
  show ne: "old_lines \<noteq> []" using assms by (auto simp: first_match_def)
  have len: "length old_lines \<le> length ls" using assms by (auto simp: first_match_def split: if_splits)
  have "find ?P [0..<Suc (length ls - length old_lines)] = Some i"
    using assms len ne by (simp add: first_match_def del: upt_Suc)
  from find_SomeD [OF this] show "?P i" "i + length old_lines \<le> length ls" using len by auto
qed

lemma sublist_slice: "sublist (take n (drop a xs)) xs"
proof -
  have "xs = take a xs @ take n (drop a xs) @ drop n (drop a xs)" by (simp only: append_take_drop_id)
  then show ?thesis unfolding sublist_def by blast
qed

lemma anchored_blockD:
  assumes "anchored_block anchors ls = Some block"
  shows "\<exists>bs. block = join [newline] bs \<and> sublist bs ls \<and> bs \<noteq> [] \<and> strip (hd bs) = hd anchors \<and> strip (last bs) = last anchors"
proof -
  obtain a b where a: "find (\<lambda>i. strip (ls ! i) = hd anchors) [0..<length ls] = Some a"
    and b: "find (\<lambda>i. strip (ls ! i) = last anchors) (rev [Suc a..<length ls]) = Some b"
    and block: "block = join [newline] (take (Suc b - a) (drop a ls))"
    using assms by (auto simp: anchored_block_def split: if_splits option.splits)
  have ab: "a < b" "b < length ls" "strip (ls ! a) = hd anchors" "strip (ls ! b) = last anchors"
    using find_SomeD [OF a] find_SomeD [OF b] by simp_all
  let ?bs = "take (Suc b - a) (drop a ls)"
  have ne: "?bs \<noteq> []" using ab by simp
  have h: "hd ?bs = ls ! a" using ab by (simp add: hd_drop_conv_nth)
  have "last ?bs = ?bs ! (b - a)" using ab by (simp add: last_conv_nth)
  then have l: "last ?bs = ls ! b" using ab by simp
  show ?thesis
  proof (intro exI conjI)
    show "block = join [newline] ?bs" by (rule block)
  qed (use ab ne h l in \<open>simp_all add: sublist_slice\<close>)
qed

text \<open>A replacement that changes nothing is repeated for ever.\<close>

lemma replace_blocks_stuck:
  assumes "first_match old_lines (splitlines content) = Some i" "replace_block old_lines new content i = content"
  shows "replace_blocks old_lines new content = None"
proof (rule ccontr)
  assume "replace_blocks old_lines new content \<noteq> None"
  then obtain r where r: "replace_blocks old_lines new content = Some r" by blast
  have "(old_lines, new, content) \<noteq> (old_lines, new, content)"
  proof (rule replace_blocks.raw_induct [where P = "\<lambda>x n c r. (x, n, c) \<noteq> (old_lines, new, content)", OF _ r])
    fix f x' n' c' r'
    assume IH: "\<And>x n c r. f x n c = Some r \<Longrightarrow> (x, n, c) \<noteq> (old_lines, new, content)"
      and s: "(case first_match x' (splitlines c') of None \<Rightarrow> Some c' | Some i \<Rightarrow> f x' n' (replace_block x' n' c' i)) = Some r'"
    show "(x', n', c') \<noteq> (old_lines, new, content)"
    proof
      assume "(x', n', c') = (old_lines, new, content)"
      then have "f old_lines new content = Some r'" using s assms by simp
      then show False using IH by blast
    qed
  qed
  then show False by simp
qed

section \<open>Properties\<close>


text \<open>C33: Replacing every occurrence does not return when the text does not occur as given but some lines agree with it up to trailing blanks, and putting the new text in their place changes nothing: the new text is those lines, or the lines are not separated by newlines.\<close>

theorem replacing_all_can_hang:
  assumes "old \<noteq> []" "\<not> contains old content" "first_match (splitlines old) (splitlines content) = Some i"
    and "b = join [newline] (block_at i (length (splitlines old)) (splitlines content))"
    and "\<not> contains b content \<or> new = b"
  shows "search_replace content old new True = None"
proof -
  have "replace_first b b content = content" using replace_first_split [of b b content] by auto
  then have "replace_block (splitlines old) new content i = content"
    using assms(4,5) replace_first_absent by (auto simp: replace_block_def contains_def)
  then show ?thesis
    using replace_blocks_stuck [OF assms(3)] assms(1-3) by (simp add: search_replace_def)
qed

text \<open>
  A single replacement whose lines are not in the text as joined is reported as done, and one
  whose lines occur earlier inside another line changes that line instead.
\<close>

lemma unchanged_is_success:
  "search_replace [CHR ''a'', CHR 0x0C, CHR ''b''] [CHR ''a'', newline, CHR ''b''] ''c'' False =
     Some (Inr [CHR ''a'', CHR 0x0C, CHR ''b''])"
  by code_simp

lemma wrong_line_changed:
  "search_replace (''xy'' @ [newline] @ ''y'') ''y '' ''z'' False = Some (Inr (''xz'' @ [newline] @ ''y''))"
  by code_simp

section \<open>Witnesses\<close>


theorem replacing_all_can_hang_witness:
  "search_replace [CHR ''a'', CHR 0x0C, CHR ''b''] [CHR ''a'', newline, CHR ''b''] ''c'' True = None \<and>
   search_replace ''a'' ''a '' ''a'' True = None"
proof -
  let ?s = "[CHR ''a'', CHR 0x0C, CHR ''b'']" and ?t = "[CHR ''a'', newline, CHR ''b'']"
  have "?t \<noteq> []" by simp
  moreover have "\<not> contains ?t ?s" by code_simp
  moreover have "first_match (splitlines ?t) (splitlines ?s) = Some 0" by code_simp
  moreover have "?t = join [newline] (block_at 0 (length (splitlines ?t)) (splitlines ?s))" by code_simp
  ultimately have "search_replace ?s ?t ''c'' True = None" by (intro replacing_all_can_hang) auto
  moreover have "search_replace ''a'' ''a '' ''a'' True = None"
    by (rule replacing_all_can_hang [where i = 0 and b = "''a''"]) code_simp+
  ultimately show ?thesis by blast
qed

end
