(* ===== verification/Remote_Files.thy ===== *)
theory Remote_Files
  imports Text_Edit Workspaces
begin

text \<open>
  Files of a remote workspace: the paths the daemon accepts
  (\<open>agent_core/remote/pathmap.py\<close>) and the worker's side
  (\<open>macchiato_remote/runtime/files.py\<close>, the file handlers of \<open>macchiato_remote/client.py\<close>).

  A file is raw text, or bytes that are no text in the encoding, or a file that cannot be read;
  the worker's system resolves paths and says whether writing fails.
\<close>

section \<open>Paths of the daemon\<close>

definition workspace_mount :: str where "workspace_mount = ''/workspace''"

text \<open>\<open>str(PurePosixPath(s))\<close>\<close>

definition pure_posix :: "str \<Rightarrow> str" where
  "pure_posix s =
     (let lead = (if prefix ''//'' s \<and> \<not> prefix ''///'' s then ''//'' else if prefix ''/'' s then ''/'' else [])
      in str_or (lead @ join ''/'' (path_parts s)) ''.'')"

definition normalize_remote_path :: "str \<Rightarrow> str option" where
  "normalize_remote_path path_str =
     (let raw = strip path_str
      in if raw = [] then None
         else
           let rel = (if prefix (workspace_mount @ ''/'') raw then drop (Suc (length workspace_mount)) raw
                      else if raw = workspace_mount then ''.''
                      else if prefix ''~/'' raw then dropWhile (\<lambda>c. c = CHR ''/'') (drop 2 raw)
                      else raw);
               rel = str_or rel ''.''
           in if ''..'' \<in> set (path_parts rel) then None else Some (pure_posix rel))"

definition is_explicit_absolute_or_home :: "str \<Rightarrow> bool" where
  "is_explicit_absolute_or_home s \<longleftrightarrow> prefix ''/'' (strip s) \<or> prefix ''~'' (strip s)"

definition apply_remote_working_directory :: "str \<Rightarrow> pyval \<Rightarrow> str" where
  "apply_remote_working_directory path_str working_directory =
     (let p = strip path_str; wd = clean_str working_directory
      in if p = [] \<or> wd = [] \<or> is_explicit_absolute_or_home p then path_str
         else if wd = ''~'' then ''~/'' @ dropWhile (\<lambda>c. c = CHR ''/'') p
         else pure_posix (sub_path wd [p]))"

section \<open>Files of the worker\<close>

datatype file_state = No_File | Not_Text | Unreadable str | Text_File str

record worker_disk =
  wd_resolve :: "str \<Rightarrow> path"
  wd_write_error :: "path \<Rightarrow> str option"
  wd_bytes :: "str \<Rightarrow> str \<Rightarrow> nat"

definition resolve_under_workspace :: "worker_disk \<Rightarrow> path \<Rightarrow> str \<Rightarrow> py_exn + path" where
  "resolve_under_workspace D base relative =
     (let raw = replace_char (CHR 0x5C) (CHR ''/'') (strip relative); root_r = wd_resolve D (path_text base)
      in if raw = [] \<or> raw = ''.'' then Inr root_r
         else if ''..'' \<in> set (path_parts raw) then Inl (ValueError ''dotdot'')
         else if prefix ''/'' raw then Inr (wd_resolve D raw)
         else let candidate = wd_resolve D (sub_path (path_text base) [raw])
              in if prefix root_r candidate then Inr candidate else Inl (ValueError ''outside''))"

definition max_chars :: nat where "max_chars = 2000000"

text \<open>The text, whether it was cut, and the error.\<close>

definition read_workspace_text :: "worker_disk \<Rightarrow> (path \<Rightarrow> file_state) \<Rightarrow> path \<Rightarrow> str \<Rightarrow> int option \<Rightarrow> int option \<Rightarrow> str \<times> bool \<times> str option" where
  "read_workspace_text D files base relative start_line end_line =
     (case resolve_under_workspace D base relative of
        Inl (ValueError e) \<Rightarrow> ([], False, Some e)
      | Inl _ \<Rightarrow> ([], False, Some [])
      | Inr p \<Rightarrow>
          (case files p of
             No_File \<Rightarrow> ([], False, Some ''FILE_NOT_FOUND'')
           | Not_Text \<Rightarrow> ([], False, Some ''ENCODING_ERROR'')
           | Unreadable e \<Rightarrow> ([], False, Some e)
           | Text_File t \<Rightarrow>
               (let full = universal_newlines t; truncated = length full > max_chars; raw = take max_chars full
                in if start_line = None \<and> end_line = None then (raw, truncated, None)
                   else
                     let ls = splitlines_keep raw;
                         a = (case start_line of None \<Rightarrow> 1 | Some i \<Rightarrow> max 1 i);
                         b = (case end_line of None \<Rightarrow> int (length ls) | Some i \<Rightarrow> i)
                     in if b < a then ([], truncated, Some ''INVALID_LINE_RANGE'')
                        else (concat (drop (nat (a - 1)) (take (nat b) ls)), truncated, None))))"

definition write_workspace_text :: "worker_disk \<Rightarrow> str \<Rightarrow> path \<Rightarrow> str \<Rightarrow> str \<Rightarrow> bool \<Rightarrow> (path \<Rightarrow> file_state) \<Rightarrow> (nat \<times> str option) \<times> (path \<Rightarrow> file_state)" where
  "write_workspace_text D encoding base relative content appending files =
     (case resolve_under_workspace D base relative of
        Inl (ValueError e) \<Rightarrow> ((0, Some e), files)
      | Inl _ \<Rightarrow> ((0, Some []), files)
      | Inr p \<Rightarrow>
          (case wd_write_error D p of
             Some e \<Rightarrow> ((0, Some e), files)
           | None \<Rightarrow>
               ((wd_bytes D encoding content, None),
                files(p := (if appending
                  then (case files p of No_File \<Rightarrow> Text_File content | Text_File t \<Rightarrow> Text_File (t @ content) | f \<Rightarrow> f)
                  else Text_File content)))))"

text \<open>The handlers: a session that is not open answers with an error.\<close>

record file_reply =
  fr_content :: str
  fr_truncated :: bool
  fr_error :: "str option"

definition not_open_error :: str where "not_open_error = ''remote session is not open''"

record worker =
  wk_roots :: "(str, path) dict"
  wk_files :: "path \<Rightarrow> file_state"

definition worker_file_read :: "worker_disk \<Rightarrow> str \<Rightarrow> str \<Rightarrow> int option \<Rightarrow> int option \<Rightarrow> worker \<Rightarrow> file_reply" where
  "worker_file_read D session_id path start_line end_line w =
     (case map_of (wk_roots w) session_id of
        None \<Rightarrow> \<lparr>fr_content = [], fr_truncated = False, fr_error = Some not_open_error\<rparr>
      | Some base \<Rightarrow>
          (case read_workspace_text D (wk_files w) base path start_line end_line of (text, truncated, err) \<Rightarrow>
             if opt_str err \<noteq> [] then \<lparr>fr_content = [], fr_truncated = False, fr_error = err\<rparr>
             else \<lparr>fr_content = text, fr_truncated = truncated, fr_error = None\<rparr>))"

definition worker_file_write :: "worker_disk \<Rightarrow> str \<Rightarrow> str \<Rightarrow> str \<Rightarrow> str \<Rightarrow> bool \<Rightarrow> worker \<Rightarrow> str option \<times> worker" where
  "worker_file_write D encoding session_id path content appending w =
     (case map_of (wk_roots w) session_id of
        None \<Rightarrow> (Some not_open_error, w)
      | Some base \<Rightarrow>
          (case write_workspace_text D encoding base path content appending (wk_files w) of ((_, err), files) \<Rightarrow>
             (if opt_str err \<noteq> [] then err else None, w\<lparr>wk_files := files\<rparr>)))"

section \<open>Laws\<close>

lemma universal_newlines_id: "CHR 0x0D \<notin> set s \<Longrightarrow> universal_newlines s = s"
  by (induction s rule: universal_newlines.induct) auto

lemma path_parts_good: "p \<in> set (path_parts s) \<Longrightarrow> p \<noteq> [] \<and> CHR ''/'' \<notin> set p"
  using split_on_parts_no_sep by (auto simp: path_parts_def)

lemma set_parts: "p \<in> set (split_on c s) \<Longrightarrow> set p \<subseteq> set s"
proof (induction s arbitrary: p)
  case (Cons x xs)
  obtain y ys where y: "split_on c xs = y # ys" using split_on_not_Nil by (metis neq_Nil_conv)
  then have "set y \<subseteq> set xs" "\<And>q. q \<in> set ys \<Longrightarrow> set q \<subseteq> set xs" using Cons.IH by auto
  then show ?case using Cons.prems y by (auto split: if_splits)
qed simp

lemma set_join: "set (join sep ps) \<subseteq> set sep \<union> (\<Union>p \<in> set ps. set p)"
  by (induction sep ps rule: join.induct) auto

text \<open>A path that does not start with a slash stays one when it is normalised.\<close>

lemma pure_posix_relative:
  assumes "\<not> prefix ''/'' s"
  shows "\<not> prefix ''/'' (pure_posix s)"
proof (cases "path_parts s")
  case Nil
  have "\<not> prefix ''//'' s" using assms by (auto simp: prefix_def)
  then show ?thesis using assms Nil by (simp add: pure_posix_def Let_def)
next
  case (Cons p ps)
  then have p: "p \<noteq> []" "CHR ''/'' \<notin> set p" using path_parts_good [of p s] by auto
  then obtain c t where c: "p = c # t" "c \<noteq> CHR ''/''" by (cases p) auto
  have "\<not> prefix ''//'' s" using assms by (auto simp: prefix_def)
  moreover have "join ''/'' (p # ps) = c # t @ (if ps = [] then [] else ''/'' @ join ''/'' ps)"
    by (cases ps) (simp_all add: c)
  ultimately show ?thesis using assms Cons c by (simp add: pure_posix_def Let_def)
qed

lemma set_pure_posix:
  assumes "c \<in> set (pure_posix s)"
  shows "c \<in> set s \<or> c = CHR ''/'' \<or> c = CHR ''.''"
proof -
  have "set (join ''/'' (path_parts s)) \<subseteq> {CHR ''/''} \<union> set s"
    using set_join [of "''/''" "path_parts s"] set_parts [of _ "CHR ''/''" s] by (fastforce simp: path_parts_def)
  then show ?thesis using assms by (auto simp: pure_posix_def Let_def str_or_def split: if_splits)
qed

lemma strip_prefix_slash: "prefix ''/'' (strip s) \<Longrightarrow> prefix ''/'' (lstrip s)"
proof -
  assume "prefix ''/'' (strip s)"
  moreover have "prefix (rstrip t) t" for t :: str
    unfolding rstrip_def by (metis rev_rev_ident suffix_dropWhile suffix_to_prefix)
  ultimately show ?thesis unfolding strip_def by (meson prefix_order.trans)
qed

lemma strip_not_absolute:
  assumes "strip (before_sep (CHR ''/'') s) \<noteq> []"
  shows "\<not> prefix ''/'' (strip s)"
proof -
  let ?b = "before_sep (CHR ''/'') s"
  have "\<exists>c \<in> set ?b. \<not> is_space c" using assms by (simp add: strip_eq_Nil)
  then have l: "lstrip ?b \<noteq> []" by (simp add: lstrip_eq_Nil)
  moreover have "s = ?b @ dropWhile (\<lambda>x. x \<noteq> CHR ''/'') s" by (simp add: before_sep_def)
  moreover have "lstrip (u @ v) = lstrip u @ v" if "lstrip u \<noteq> []" for u v :: str
    using that by (induction u) (auto simp: lstrip_Cons)
  ultimately have "lstrip s = lstrip ?b @ dropWhile (\<lambda>x. x \<noteq> CHR ''/'') s" by metis
  moreover have "CHR ''/'' \<notin> set (lstrip ?b)" using set_lstrip [of ?b] by (auto simp: before_sep_def dest: set_takeWhileD)
  ultimately have "\<not> prefix ''/'' (lstrip s)" using l by (cases "lstrip ?b") auto
  then show ?thesis using strip_prefix_slash by blast
qed

section \<open>Properties\<close>

text \<open>A path that is given without a leading slash or backslashes, and whose first component is not blank, names a file inside the directory of the remote workspace, whatever else it contains.\<close>

theorem relative_remote_path_stays_inside:
  assumes "normalize_remote_path s = Some rel" "\<not> prefix ''/'' (strip s)" "CHR 0x5C \<notin> set s"
    and "strip (before_sep (CHR ''/'') rel) \<noteq> []"
    and "resolve_under_workspace D base rel = Inr p"
  shows "prefix (wd_resolve D (path_text base)) p"
proof -
  have b: "CHR 0x5C \<notin> set (strip s)" using assms(3) set_strip by auto
  have m: "\<not> prefix (workspace_mount @ ''/'') (strip s)" "strip s \<noteq> workspace_mount"
    using assms(2) by (auto simp: workspace_mount_def prefix_def)
  define t where "t = str_or (if prefix ''~/'' (strip s) then dropWhile (\<lambda>c. c = CHR ''/'') (drop 2 (strip s)) else strip s) ''.''"
  have rel: "rel = pure_posix t"
    using assms(1) m by (auto simp: normalize_remote_path_def Let_def t_def split: if_splits)
  have nt: "\<not> prefix ''/'' t"
  proof -
    have "\<not> prefix ''/'' (dropWhile (\<lambda>c. c = CHR ''/'') u)" for u :: str by (induction u) auto
    then show ?thesis using assms(2) by (auto simp: t_def str_or_def)
  qed
  have bt: "CHR 0x5C \<notin> set t"
    using b by (auto simp: t_def str_or_def dest!: set_dropWhileD in_set_dropD)
  have br: "CHR 0x5C \<notin> set (strip rel)" using set_pure_posix [of "CHR 0x5C" t] bt set_strip rel by auto
  have "\<not> prefix ''/'' (strip rel)" by (rule strip_not_absolute [OF assms(4)])
  then show ?thesis
    using assms(5) br by (auto simp: resolve_under_workspace_def Let_def replace_char_absent split: if_splits)
qed

text \<open>The path the worker uses for one the daemon is given.\<close>

definition remote_target :: "worker_disk \<Rightarrow> path \<Rightarrow> str \<Rightarrow> py_exn + path" where
  "remote_target D base s =
     (case normalize_remote_path s of None \<Rightarrow> Inl (ValueError ''dotdot'') | Some rel \<Rightarrow> resolve_under_workspace D base rel)"

text \<open>The worker confines relative paths only. An absolute path goes where it says, and so do paths that look like paths of the workspace: one with two slashes after the mount, and one with a backslash or a blank after a dot.\<close>

theorem remote_paths_can_escape:
  "remote_target D base ''/etc/passwd'' = Inr (wd_resolve D ''/etc/passwd'') \<and>
   remote_target D base ''/workspace//etc/passwd'' = Inr (wd_resolve D ''/etc/passwd'') \<and>
   remote_target D base (''./'' @ CHR 0x5C # ''etc/passwd'') = Inr (wd_resolve D ''/etc/passwd'') \<and>
   remote_target D base ''./ /etc/passwd'' = Inr (wd_resolve D ''/etc/passwd'')"
proof -
  have n: "normalize_remote_path ''/etc/passwd'' = Some ''/etc/passwd''"
    "normalize_remote_path ''/workspace//etc/passwd'' = Some ''/etc/passwd''"
    "normalize_remote_path (''./'' @ CHR 0x5C # ''etc/passwd'') = Some (CHR 0x5C # ''etc/passwd'')"
    "normalize_remote_path ''./ /etc/passwd'' = Some '' /etc/passwd''" by code_simp+
  have r: "resolve_under_workspace D base t = Inr (wd_resolve D ''/etc/passwd'')"
    if "replace_char (CHR 0x5C) (CHR ''/'') (strip t) = ''/etc/passwd''" for t
    using that by (simp add: resolve_under_workspace_def path_parts_def)
  have "replace_char (CHR 0x5C) (CHR ''/'') (strip ''/etc/passwd'') = ''/etc/passwd''"
    "replace_char (CHR 0x5C) (CHR ''/'') (strip (CHR 0x5C # ''etc/passwd'')) = ''/etc/passwd''"
    "replace_char (CHR 0x5C) (CHR ''/'') (strip '' /etc/passwd'') = ''/etc/passwd''" by code_simp+
  from this [THEN r] show ?thesis by (simp add: remote_target_def n [simplified])
qed

text \<open>What is written to a remote file is what is read from it, up to line ends, and up to two million characters; a longer text is cut and marked.\<close>

theorem remote_write_then_read:
  assumes "worker_file_write D encoding session_id path content False w = (None, w')" "\<forall>p. wd_write_error D p \<noteq> Some []"
  shows "worker_file_read D session_id path None None w' =
    \<lparr>fr_content = take 2000000 (universal_newlines content),
     fr_truncated = (2000000 < length (universal_newlines content)), fr_error = None\<rparr>"
proof -
  obtain base where b: "map_of (wk_roots w) session_id = Some base"
    using assms(1) by (auto simp: worker_file_write_def not_open_error_def split: option.splits)
  have n: "e \<noteq> [] " if "resolve_under_workspace D base path = Inl (ValueError e)" for e
    using that by (auto simp: resolve_under_workspace_def Let_def split: if_splits)
  have v: "\<exists>e. x = ValueError e" if "resolve_under_workspace D base path = Inl x" for x
    using that by (auto simp: resolve_under_workspace_def Let_def split: if_splits)
  obtain p where p: "resolve_under_workspace D base path = Inr p" "wd_write_error D p = None"
    "w' = w\<lparr>wk_files := (wk_files w)(p := Text_File content)\<rparr>"
  proof (cases "resolve_under_workspace D base path")
    case (Inl x)
    with v n obtain e where "x = ValueError e" "e \<noteq> []" by blast
    then show ?thesis using assms(1) b Inl by (simp add: worker_file_write_def write_workspace_text_def)
  next
    case (Inr p)
    show ?thesis
    proof (cases "wd_write_error D p")
      case None
      show ?thesis by (rule that [OF Inr None]) (use assms(1) b Inr None in \<open>simp add: worker_file_write_def write_workspace_text_def\<close>)
    next
      case (Some e)
      then have "e \<noteq> []" using assms(2) by auto
      then show ?thesis using assms(1) b Inr Some by (simp add: worker_file_write_def write_workspace_text_def)
    qed
  qed
  show ?thesis by (simp add: worker_file_read_def read_workspace_text_def p b max_chars_def Let_def)
qed

section \<open>Witnesses\<close>

definition plain_disk :: worker_disk where
  "plain_disk = \<lparr>wd_resolve = plain_resolve, wd_write_error = (\<lambda>_. None), wd_bytes = (\<lambda>_ s. length s)\<rparr>"

theorem relative_remote_path_stays_inside_witness: "prefix [''w''] [''w'', ''a'', ''b'']"
proof -
  have n: "normalize_remote_path ''a//b'' = Some ''a/b''" by code_simp
  have m: "\<not> prefix ''/'' (strip ''a//b'')" "CHR 0x5C \<notin> set ''a//b''" "strip (before_sep (CHR ''/'') ''a/b'') \<noteq> []" by code_simp+
  have "resolve_under_workspace plain_disk [''w''] ''a/b'' = Inr [''w'', ''a'', ''b'']" by code_simp
  moreover have "wd_resolve plain_disk (path_text [''w'']) = [''w'']" by code_simp
  ultimately show ?thesis using relative_remote_path_stays_inside [OF n m, of plain_disk "[''w'']"] by simp
qed

theorem remote_write_then_read_witness:
  "\<exists>w. worker_file_read plain_disk ''s'' ''a'' None None w = \<lparr>fr_content = ''hi'', fr_truncated = False, fr_error = None\<rparr>"
proof -
  let ?w = "\<lparr>wk_roots = [(''s'', [''w''])], wk_files = (\<lambda>_. No_File)\<rparr>"
  have r: "resolve_under_workspace plain_disk [''w''] ''a'' = Inr [''w'', ''a'']" by code_simp
  have "\<exists>w'. worker_file_write plain_disk ''utf-8'' ''s'' ''a'' ''hi'' False ?w = (None, w')"
    by (simp add: worker_file_write_def write_workspace_text_def r) (simp add: plain_disk_def)
  then obtain w' where "worker_file_write plain_disk ''utf-8'' ''s'' ''a'' ''hi'' False ?w = (None, w')" by blast
  from remote_write_then_read [OF this] show ?thesis by (simp add: plain_disk_def) blast
qed

end
