(* ===== verification/File_Tools.thy ===== *)
theory File_Tools
  imports Remote_Files
begin

text \<open>
  The tools that read, write and modify files (\<open>system/tools/file_tools.py\<close>) and the path a
  request for permission names (\<open>agent_core/tools/permission_path_infer.py\<close>).

  A local file is looked up in the files of the host, a remote one is read and written by the
  worker. The files, the permission broker and the worker are the state; whether a message to
  the worker gets through, the human's decision and the answer of the confirmation callback are
  given. Texts of messages are left out.
\<close>

section \<open>Paths\<close>

record file_env =
  fe_gate :: gate_env
  fe_host :: ws_host
  fe_cfg :: ws_cfg
  fe_memory_dir :: str
  fe_base_dir :: str
  fe_allow_read :: bool
  fe_allow_write :: bool
  fe_allow_modify :: bool
  fe_write_error :: "path \<Rightarrow> str option"

definition memory_md_path :: "file_env \<Rightarrow> str \<Rightarrow> str \<Rightarrow> py_exn + str" where
  "memory_md_path F source user_id =
     (if wc_os_users (fe_cfg F)
      then map_sum id (\<lambda>d. sub_path (path_text d) [''long_term'', ''MEMORY.md''])
             (memory_owner_dir (fe_host F) (fe_cfg F) (fe_memory_dir F) source user_id)
      else Inr (pure_posix (sub_path (strip (str_or (fe_memory_dir F) ''./data/memory''))
             [path_segment source ''cli'', path_segment user_id ''root'', ''long_term'', ''MEMORY.md''])))"

definition redirect_memory_md :: "file_env \<Rightarrow> (str, pyval) dict \<Rightarrow> str \<Rightarrow> str" where
  "redirect_memory_md F ctx path_str =
     (if path_parts path_str = [] \<or> last (path_parts path_str) \<noteq> ''MEMORY.md'' then path_str
      else if wc_isolated (fe_cfg F) then ''data/memory/long_term/MEMORY.md''
      else case effective_namespace ctx of (src, uid) \<Rightarrow>
        (case memory_md_path F src uid of Inl _ \<Rightarrow> path_str | Inr s \<Rightarrow> s))"

definition sub_forbids_mutation :: "(str, pyval) dict \<Rightarrow> bool" where
  "sub_forbids_mutation ctx \<longleftrightarrow> lower (py_str (py_or (py_get ctx ''profile_mode'') (PyStr ''full''))) = ''sub''"

definition apply_local_working_directory :: "str \<Rightarrow> pyval \<Rightarrow> str" where
  "apply_local_working_directory path_str working_directory =
     (let p = strip path_str; wd = clean_str working_directory
      in if p = [] \<or> wd = [] \<or> is_explicit_absolute_or_home p then path_str else pure_posix (sub_path wd [p]))"

text \<open>The capabilities of the session a call belongs to; the grants come from the ACL.\<close>

definition session_gate :: "file_env \<Rightarrow> str \<Rightarrow> str \<Rightarrow> gate_env" where
  "session_gate F src uid =
     (fe_gate F)\<lparr>ge_memory_root := (case wc_memory_base (fe_cfg F) of None \<Rightarrow> None
        | Some b \<Rightarrow> (case memory_owner_dir (fe_host F) (fe_cfg F) b src uid of Inl _ \<Rightarrow> None | Inr p \<Rightarrow> Some p))\<rparr>"

definition read_grants :: "file_env \<Rightarrow> str \<Rightarrow> str \<Rightarrow> acl_state \<Rightarrow> py_exn + path list" where
  "read_grants F src uid acl =
     (case load_user_path_prefixes (h_resolve (ge_host (fe_gate F))) (h_acl_base (ge_host (fe_gate F))) src uid ''read'' acl of
        Inl e \<Rightarrow> Inl e
      | Inr stored \<Rightarrow>
          (case list_ephemeral_path_prefixes src uid ''read'' acl of Inl e \<Rightarrow> Inl e
           | Inr ephemeral \<Rightarrow> Inr (map (wh_resolve (fe_host F)) (stored @ ephemeral))))"

definition caps_for :: "file_env \<Rightarrow> (str, pyval) dict \<Rightarrow> acl_state \<Rightarrow> py_exn + capabilities" where
  "caps_for F ctx acl =
     (case effective_namespace ctx of (src, uid) \<Rightarrow>
        session_capabilities (fe_host F) (fe_cfg F) src uid False
          (if py_get ctx ''bash_workspace_admin'' = PyNone then None else Some (truthy (py_get ctx ''bash_workspace_admin'')))
          (merged_write_roots (session_gate F src uid) src uid acl) (read_grants F src uid acl))"

definition roots_for :: "access_mode \<Rightarrow> capabilities \<Rightarrow> path list" where
  "roots_for acc cap = (case acc of Read \<Rightarrow> sc_readable cap | Write \<Rightarrow> sc_writable cap)"

definition within_root :: "ws_host \<Rightarrow> path \<Rightarrow> path \<Rightarrow> bool" where
  "within_root H p r \<longleftrightarrow> prefix (wh_resolve H (path_text r)) (wh_resolve H (path_text p))"

text \<open>\<open>None\<close>: outside the roots, which a human may still allow.\<close>

definition check_path :: "file_env \<Rightarrow> access_mode \<Rightarrow> (str, pyval) dict \<Rightarrow> acl_state \<Rightarrow> str \<Rightarrow> py_exn + path option" where
  "check_path F acc ctx acl path_str =
     (case caps_for F ctx acl of Inl e \<Rightarrow> Inl e
      | Inr cap \<Rightarrow>
          (case resolve_tool_path (fe_host F) (ge_expanduser (fe_gate F)) (fe_base_dir F) cap path_str of
             Inl e \<Rightarrow> Inl e
           | Inr p \<Rightarrow>
               Inr (if wc_isolated (fe_cfg F) \<and> \<not> list_ex (within_root (fe_host F) p) (roots_for acc cap)
                    then None else Some p)))"

section \<open>The request for permission\<close>

text \<open>\<open>Path(s).suffix\<close> and \<open>Path(s).parent\<close>\<close>

definition has_suffix :: "str \<Rightarrow> bool" where
  "has_suffix s \<longleftrightarrow>
     (path_parts s \<noteq> [] \<and>
      (let r = rev (last (path_parts s)); ext = takeWhile (\<lambda>c. c \<noteq> CHR ''.'') r; stem = drop (Suc (length ext)) r
       in ext \<noteq> [] \<and> CHR ''.'' \<in> set r \<and> stem \<noteq> []))"

definition parent_text :: "str \<Rightarrow> str" where
  "parent_text s =
     (let ps = butlast (path_parts s) in if prefix ''/'' s then CHR ''/'' # join ''/'' ps else str_or (join ''/'' ps) ''.'')"

definition infer_prefix :: "file_env \<Rightarrow> (str, pyval) dict \<Rightarrow> acl_state \<Rightarrow> str \<Rightarrow> py_exn + str option" where
  "infer_prefix F ctx acl path_str =
     (let s = strip path_str
      in if s = [] then Inr None
         else case caps_for F ctx acl of Inl e \<Rightarrow> Inl e
         | Inr cap \<Rightarrow>
             (case remap_tilde (fe_host F) (ge_expanduser (fe_gate F)) (sc_owner_root cap) (sc_isolated cap) s of
                None \<Rightarrow> Inl (RuntimeError ''Could not determine home directory.'')
              | Some t \<Rightarrow>
                  Inr (Some (path_text (wh_resolve (fe_host F)
                    (if last s \<in> {CHR ''/'', CHR 0x5C} then t else if has_suffix t then parent_text t else t))))))"

definition file_request :: "str \<Rightarrow> access_mode \<Rightarrow> str \<Rightarrow> str \<Rightarrow> (str, pyval) dict \<Rightarrow> perm_request" where
  "file_request tool acc path_str pfx ctx =
     \<lparr>rq_tool_name = tool, rq_kind = (case acc of Read \<Rightarrow> ''file_read'' | Write \<Rightarrow> ''file_write''), rq_summary = [],
      rq_details = PyDict [(''path'', PyStr path_str)], rq_command = None, rq_cwd = None, rq_risk_reasons = [],
      rq_path_grants = [\<lparr>pg_path_prefix = pfx, pg_access_mode = acc, pg_reason = mode_str acc @ '' outside allowed roots''\<rparr>],
      rq_timeout_seconds = 300, rq_auto_execute = True, rq_exec_ctx = ctx\<rparr>"

definition file_permission_failure :: "str \<Rightarrow> broker_result \<Rightarrow> tool_result" where
  "file_permission_failure path_str r =
     (failed (str_or (opt_str (br_error r)) ''PERMISSION_DENIED'') [])
       \<lparr>tr_data := PyDict [(''path'', PyStr path_str), (''permission_id'', PyStr (br_permission_id r)),
          (''user_instruction'', PyStr (br_user_instruction r))]\<rparr>"

datatype path_answer = Path_Raised py_exn | Path_Cancelled | Path_Stop tool_result | Path_Ok path

definition rechecked :: "py_exn + path option \<Rightarrow> path_answer" where
  "rechecked c = (case c of Inl e \<Rightarrow> Path_Raised e | Inr None \<Rightarrow> Path_Stop (failed ''FORBIDDEN_PATH'' []) | Inr (Some p) \<Rightarrow> Path_Ok p)"

text \<open>One call: what the environment answers while it runs.\<close>

record call_env =
  ce_loop :: bool
  ce_new_id :: str
  ce_outcome :: outcome
  ce_confirm :: "bool option"
  ce_remote :: "remote_state option"
  ce_read_link :: bool
  ce_write_link :: bool
  ce_disk :: worker_disk

definition allow_path :: "file_env \<Rightarrow> call_env \<Rightarrow> str \<Rightarrow> access_mode \<Rightarrow> (str, pyval) dict \<Rightarrow> str \<Rightarrow> 'h broker_state \<Rightarrow> path_answer \<times> 'h broker_state" where
  "allow_path F C tool acc ctx path_str b =
     (case check_path F acc ctx (bs_acl b) path_str of
        Inl e \<Rightarrow> (Path_Raised e, b)
      | Inr (Some p) \<Rightarrow> (Path_Ok p, b)
      | Inr None \<Rightarrow>
          (case infer_prefix F ctx (bs_acl b) path_str of
             Inl e \<Rightarrow> (Path_Raised e, b)
           | Inr None \<Rightarrow> (Path_Stop (failed ''FORBIDDEN_PATH'' []), b)
           | Inr (Some pfx) \<Rightarrow>
               (case ask_broker (fe_gate F) (ce_loop C) (ce_new_id C) (file_request tool acc path_str pfx ctx) (ce_outcome C) b of
                  (None, b') \<Rightarrow> (Path_Cancelled, b')
                | (Some r, b') \<Rightarrow>
                    if \<not> br_allowed r then (Path_Stop (file_permission_failure path_str r), b')
                    else (rechecked (check_path F acc ctx (bs_acl b') path_str), b'))))"

section \<open>The tools\<close>

record 'h file_world =
  fw_files :: "path \<Rightarrow> file_state"
  fw_broker :: "'h broker_state"
  fw_worker :: worker

datatype tool_answer = Tool_Raised py_exn | Tool_Cancelled | Never_Returns | Done tool_result

definition fail_with :: "str \<Rightarrow> 'h file_world \<Rightarrow> tool_answer \<times> 'h file_world" where
  "fail_with code w = (Done (failed code []), w)"

definition succeeded :: "(str, pyval) dict \<Rightarrow> tool_result" where
  "succeeded d = (failed [] [])\<lparr>tr_success := True, tr_error := None, tr_data := PyDict d\<rparr>"

text \<open>A path that is not there is empty here; other values are read as text.\<close>

definition path_arg :: "(str, pyval) dict \<Rightarrow> str" where
  "path_arg kwargs = (if truthy (py_get kwargs ''path'') then py_str (py_get kwargs ''path'') else [])"

definition call_path :: "file_env \<Rightarrow> (str, pyval) dict \<Rightarrow> (str, pyval) dict \<Rightarrow> bool \<Rightarrow> str" where
  "call_path F ctx kwargs remote =
     redirect_memory_md F ctx
       ((if remote then apply_remote_working_directory else apply_local_working_directory)
          (path_arg kwargs) (py_get kwargs ''working_directory''))"

definition remote_root :: "remote_state \<Rightarrow> str" where
  "remote_root r = str_or (str_or (rm_resolved r) (rm_requested r)) ''/workspace''"

definition remote_data :: "str \<Rightarrow> str \<Rightarrow> remote_state \<Rightarrow> (str, pyval) dict" where
  "remote_data path_str rel r =
     [(''path'', PyStr (path_str @ '' (remote:'' @ rm_login r @ '')'')), (''remote'', PyBool True),
      (''remote_workspace_root'', PyStr (remote_root r)),
      (''resolved_remote_path'', PyStr (let rel_s = strip rel
         in if rel_s = [] \<or> rel_s = ''.'' then remote_root r else if prefix ''/'' rel_s then rel_s
            else pure_posix (sub_path (remote_root r) [rel_s])))]"

definition ctx_session :: "(str, pyval) dict \<Rightarrow> str" where
  "ctx_session ctx = clean_str (py_get ctx ''session_id'')"

subsection \<open>Reading\<close>

text \<open>A positive whole number, or nothing.\<close>

definition positive_arg :: "pyval \<Rightarrow> int option option" where
  "positive_arg v =
     (if v = PyNone then Some None
      else case py_int v of Inl _ \<Rightarrow> None | Inr i \<Rightarrow> if i < 1 then None else Some (Some i))"

definition line_slice :: "str \<Rightarrow> int option \<Rightarrow> int option \<Rightarrow> str list \<times> int \<times> int \<times> nat \<times> bool" where
  "line_slice content start_line max_lines =
     (let ls = splitlines content; count = length ls;
          start = (case start_line of None \<Rightarrow> 1 | Some i \<Rightarrow> i);
          a = nat (start - 1);
          b = (case max_lines of None \<Rightarrow> count | Some m \<Rightarrow> min count (a + nat m))
      in (drop a (take b ls), start, (case max_lines of Some m \<Rightarrow> m | None \<Rightarrow> int count - int a), count, b < count))"

definition read_data :: "path \<Rightarrow> str \<Rightarrow> int option \<Rightarrow> int option \<Rightarrow> (str, pyval) dict" where
  "read_data p content start_line max_lines =
     (if start_line = None \<and> max_lines = None
      then [(''path'', PyStr (path_text p)), (''content'', PyStr content)]
      else case line_slice content start_line max_lines of (ls, start, m, count, left) \<Rightarrow>
        [(''path'', PyStr (path_text p)), (''content'', PyStr (join [newline] ls)), (''start_line'', PyInt start),
         (''max_lines'', PyInt m), (''total_lines'', PyInt (int count)), (''has_more'', PyBool left)])"

definition read_local :: "path \<Rightarrow> int option \<Rightarrow> int option \<Rightarrow> 'h file_world \<Rightarrow> tool_result" where
  "read_local p start_line max_lines w =
     (case fw_files w p of
        No_File \<Rightarrow> failed ''FILE_NOT_FOUND'' []
      | Not_Text \<Rightarrow> failed ''ENCODING_ERROR'' []
      | Unreadable _ \<Rightarrow> failed ''IO_ERROR'' []
      | Text_File t \<Rightarrow> succeeded (read_data p (universal_newlines t) start_line max_lines))"

definition remote_bounds :: "int option \<Rightarrow> int option \<Rightarrow> int option \<times> int option" where
  "remote_bounds start_line max_lines =
     (case max_lines of None \<Rightarrow> (start_line, None)
      | Some m \<Rightarrow> (case start_line of Some a \<Rightarrow> (Some a, Some (a + m - 1)) | None \<Rightarrow> (Some 1, Some m)))"

definition opt_entry :: "str \<Rightarrow> int option \<Rightarrow> (str, pyval) dict" where
  "opt_entry k v = (case v of None \<Rightarrow> [] | Some i \<Rightarrow> [(k, PyInt i)])"

definition remote_failure :: "str \<Rightarrow> tool_result" where
  "remote_failure e = failed (if e = ''FILE_NOT_FOUND'' \<or> e = ''ENCODING_ERROR'' then e else ''REMOTE_FILE_ERROR'') []"

definition read_remote :: "call_env \<Rightarrow> remote_state \<Rightarrow> str \<Rightarrow> str \<Rightarrow> int option \<Rightarrow> int option \<Rightarrow> 'h file_world \<Rightarrow> tool_result" where
  "read_remote C r sid path_str start_line max_lines w =
     (case normalize_remote_path path_str of None \<Rightarrow> failed ''INVALID_PATH'' []
      | Some rel \<Rightarrow>
          if \<not> ce_read_link C then failed ''REMOTE_FILE_ERROR'' []
          else (case remote_bounds start_line max_lines of (a, b) \<Rightarrow>
            (let fr = worker_file_read (ce_disk C) sid rel a b (fw_worker w)
             in if opt_str (fr_error fr) \<noteq> [] then remote_failure (opt_str (fr_error fr))
                else succeeded (remote_data path_str rel r @ [(''content'', PyStr (fr_content fr)), (''truncated'', PyBool (fr_truncated fr))] @
                  opt_entry ''start_line'' start_line @ opt_entry ''max_lines'' max_lines))))"

definition read_file :: "file_env \<Rightarrow> call_env \<Rightarrow> (str, pyval) dict \<Rightarrow> (str, pyval) dict \<Rightarrow> 'h file_world \<Rightarrow> tool_answer \<times> 'h file_world" where
  "read_file F C ctx kwargs w =
     (if path_arg kwargs = [] then fail_with ''MISSING_PATH'' w
      else if \<not> fe_allow_read F then fail_with ''PERMISSION_DENIED'' w
      else case positive_arg (py_get kwargs ''start_line'') of None \<Rightarrow> fail_with ''INVALID_START_LINE'' w
      | Some start_line \<Rightarrow>
          (case positive_arg (py_get kwargs ''max_lines'') of None \<Rightarrow> fail_with ''INVALID_MAX_LINES'' w
           | Some max_lines \<Rightarrow>
               (case ce_remote C of
                  Some r \<Rightarrow> (Done (read_remote C r (ctx_session ctx) (call_path F ctx kwargs True) start_line max_lines w), w)
                | None \<Rightarrow>
                    (case allow_path F C ''read_file'' Read ctx (call_path F ctx kwargs False) (fw_broker w) of
                       (Path_Raised e, b) \<Rightarrow> (Tool_Raised e, w\<lparr>fw_broker := b\<rparr>)
                     | (Path_Cancelled, b) \<Rightarrow> (Tool_Cancelled, w\<lparr>fw_broker := b\<rparr>)
                     | (Path_Stop t, b) \<Rightarrow> (Done t, w\<lparr>fw_broker := b\<rparr>)
                     | (Path_Ok p, b) \<Rightarrow> (Done (read_local p start_line max_lines w), w\<lparr>fw_broker := b\<rparr>)))))"


subsection \<open>Writing\<close>

text \<open>\<open>ce_confirm\<close> is the answer of the confirmation callback, when there is one.\<close>

definition confirmed :: "call_env \<Rightarrow> bool" where
  "confirmed C \<longleftrightarrow> ce_confirm C \<noteq> Some False"

definition write_local :: "file_env \<Rightarrow> path \<Rightarrow> bool \<Rightarrow> str \<Rightarrow> (str, pyval) dict \<Rightarrow> 'h file_world \<Rightarrow> tool_result \<times> 'h file_world" where
  "write_local F p appending content d w =
     (case fe_write_error F p of
        Some _ \<Rightarrow> (failed ''IO_ERROR'' [], w)
      | None \<Rightarrow>
          (succeeded d,
           w\<lparr>fw_files := (fw_files w)(p := (if appending
               then (case fw_files w p of No_File \<Rightarrow> Text_File content | Text_File t \<Rightarrow> Text_File (t @ content) | f \<Rightarrow> f)
               else Text_File content))\<rparr>))"

definition write_remote :: "call_env \<Rightarrow> str \<Rightarrow> str \<Rightarrow> str \<Rightarrow> str \<Rightarrow> bool \<Rightarrow> (str, pyval) dict \<Rightarrow> 'h file_world \<Rightarrow> tool_result \<times> 'h file_world" where
  "write_remote C encoding sid rel content appending d w =
     (if \<not> ce_write_link C then (failed ''REMOTE_FILE_ERROR'' [], w)
      else case worker_file_write (ce_disk C) encoding sid rel content appending (fw_worker w) of (err, wk) \<Rightarrow>
        ((if opt_str err \<noteq> [] then failed ''REMOTE_FILE_ERROR'' [] else succeeded d), w\<lparr>fw_worker := wk\<rparr>))"

definition encoding_arg :: "(str, pyval) dict \<Rightarrow> str" where
  "encoding_arg kwargs = py_str (py_get_or kwargs ''encoding'' (PyStr ''utf-8''))"

definition on_local_path ::
  "file_env \<Rightarrow> call_env \<Rightarrow> str \<Rightarrow> (str, pyval) dict \<Rightarrow> str \<Rightarrow> (path \<Rightarrow> 'h file_world \<Rightarrow> tool_answer \<times> 'h file_world) \<Rightarrow> 'h file_world \<Rightarrow> tool_answer \<times> 'h file_world" where
  "on_local_path F C tool ctx path_str go w =
     (case allow_path F C tool Write ctx path_str (fw_broker w) of
        (Path_Raised e, b) \<Rightarrow> (Tool_Raised e, w\<lparr>fw_broker := b\<rparr>)
      | (Path_Cancelled, b) \<Rightarrow> (Tool_Cancelled, w\<lparr>fw_broker := b\<rparr>)
      | (Path_Stop t, b) \<Rightarrow> (Done t, w\<lparr>fw_broker := b\<rparr>)
      | (Path_Ok p, b) \<Rightarrow> go p (w\<lparr>fw_broker := b\<rparr>))"

definition on_remote_path ::
  "str \<Rightarrow> (str \<Rightarrow> 'h file_world \<Rightarrow> tool_answer \<times> 'h file_world) \<Rightarrow> 'h file_world \<Rightarrow> tool_answer \<times> 'h file_world" where
  "on_remote_path path_str go w =
     (case normalize_remote_path path_str of None \<Rightarrow> fail_with ''INVALID_PATH'' w | Some rel \<Rightarrow> go rel w)"

definition finish :: "tool_result \<times> 'h file_world \<Rightarrow> tool_answer \<times> 'h file_world" where
  "finish r = (case r of (t, w) \<Rightarrow> (Done t, w))"

definition write_file :: "file_env \<Rightarrow> call_env \<Rightarrow> (str, pyval) dict \<Rightarrow> (str, pyval) dict \<Rightarrow> 'h file_world \<Rightarrow> tool_answer \<times> 'h file_world" where
  "write_file F C ctx kwargs w =
     (if sub_forbids_mutation ctx then fail_with ''PERMISSION_DENIED'' w
      else if path_arg kwargs = [] then fail_with ''MISSING_PATH'' w
      else if py_get kwargs ''content'' = PyNone then fail_with ''MISSING_CONTENT'' w
      else if \<not> fe_allow_write F then fail_with ''PERMISSION_DENIED'' w
      else let content = py_str (py_get kwargs ''content'') in
        case ce_remote C of
          Some r \<Rightarrow>
            (let path_str = call_path F ctx kwargs True
             in on_remote_path path_str (\<lambda>rel w.
                  if \<not> confirmed C then fail_with ''USER_DENIED'' w
                  else finish (write_remote C (encoding_arg kwargs) (ctx_session ctx) rel content False (remote_data path_str rel r) w)) w)
        | None \<Rightarrow>
            on_local_path F C ''write_file'' ctx (call_path F ctx kwargs False) (\<lambda>p w.
              if \<not> confirmed C then fail_with ''USER_DENIED'' w
              else finish (write_local F p False content [(''path'', PyStr (path_text p))] w)) w)"

subsection \<open>Modifying\<close>

definition edit_local :: "file_env \<Rightarrow> call_env \<Rightarrow> str \<Rightarrow> str \<Rightarrow> bool \<Rightarrow> path \<Rightarrow> 'h file_world \<Rightarrow> tool_answer \<times> 'h file_world" where
  "edit_local F C old new all p w =
     (case fw_files w p of
        No_File \<Rightarrow> fail_with ''FILE_NOT_FOUND'' w
      | Not_Text \<Rightarrow> (Tool_Raised (ValueError ''UnicodeDecodeError''), w)
      | Unreadable _ \<Rightarrow> fail_with ''IO_ERROR'' w
      | Text_File t \<Rightarrow>
          (case search_replace (universal_newlines t) old new all of
             None \<Rightarrow> (Never_Returns, w)
           | Some (Inl _) \<Rightarrow> fail_with ''SEARCH_REPLACE_FAILED'' w
           | Some (Inr c) \<Rightarrow>
               if \<not> confirmed C then fail_with ''USER_DENIED'' w
               else finish (write_local F p False c [(''path'', PyStr (path_text p)), (''mode'', PyStr ''search_replace'')] w)))"

definition edit_remote :: "call_env \<Rightarrow> str \<Rightarrow> str \<Rightarrow> str \<Rightarrow> str \<Rightarrow> bool \<Rightarrow> (str, pyval) dict \<Rightarrow> str \<Rightarrow> 'h file_world \<Rightarrow> tool_answer \<times> 'h file_world" where
  "edit_remote C encoding sid old new all d rel w =
     (if \<not> ce_read_link C then fail_with ''REMOTE_FILE_ERROR'' w
      else let fr = worker_file_read (ce_disk C) sid rel None None (fw_worker w); e = opt_str (fr_error fr) in
        if e \<noteq> [] then fail_with (if e = ''FILE_NOT_FOUND'' then e else ''REMOTE_FILE_ERROR'') w
        else case search_replace (fr_content fr) old new all of
          None \<Rightarrow> (Never_Returns, w)
        | Some (Inl _) \<Rightarrow> fail_with ''SEARCH_REPLACE_FAILED'' w
        | Some (Inr c) \<Rightarrow>
            if \<not> confirmed C then fail_with ''USER_DENIED'' w
            else finish (write_remote C encoding sid rel c False d w))"

definition modify_file :: "file_env \<Rightarrow> call_env \<Rightarrow> (str, pyval) dict \<Rightarrow> (str, pyval) dict \<Rightarrow> 'h file_world \<Rightarrow> tool_answer \<times> 'h file_world" where
  "modify_file F C ctx kwargs w =
     (let mode = py_str (py_get_or kwargs ''mode'' (PyStr ''search_replace''));
          all = truthy (py_get_or kwargs ''replace_all'' (PyBool False));
          old = py_get kwargs ''old_text''; new = py_get kwargs ''new_text''; content = py_get kwargs ''content'';
          appending = (mode = ''append'')
      in if sub_forbids_mutation ctx then fail_with ''PERMISSION_DENIED'' w
         else if path_arg kwargs = [] then fail_with ''MISSING_PATH'' w
         else if \<not> fe_allow_modify F then fail_with ''PERMISSION_DENIED'' w
         else if mode \<notin> {''search_replace'', ''append'', ''overwrite''} then fail_with ''INVALID_MODE'' w
         else case ce_remote C of
           Some r \<Rightarrow>
             (let path_str = call_path F ctx kwargs True
              in on_remote_path path_str (\<lambda>rel w.
                   let d = remote_data path_str rel r @ [(''mode'', PyStr mode)] in
                   if mode = ''search_replace''
                   then if old = PyNone \<or> new = PyNone then fail_with ''MISSING_PARAMS'' w
                        else edit_remote C (encoding_arg kwargs) (ctx_session ctx) (py_str old) (py_str new) all d rel w
                   else if content = PyNone then fail_with ''MISSING_CONTENT'' w
                   else if \<not> confirmed C then fail_with ''USER_DENIED'' w
                   else finish (write_remote C (encoding_arg kwargs) (ctx_session ctx) rel (py_str content) appending d w)) w)
         | None \<Rightarrow>
             on_local_path F C ''modify_file'' ctx (call_path F ctx kwargs False) (\<lambda>p w.
               if mode = ''search_replace''
               then if old = PyNone \<or> new = PyNone then fail_with ''MISSING_PARAMS'' w
                    else edit_local F C (py_str old) (py_str new) all p w
               else if content = PyNone then fail_with ''MISSING_CONTENT'' w
               else if \<not> confirmed C then fail_with ''USER_DENIED'' w
               else finish (write_local F p appending (py_str content) [(''path'', PyStr (path_text p)), (''mode'', PyStr mode)] w)) w)"

section \<open>Laws\<close>

lemma fail_with_world [simp]: "snd (fail_with code w) = w"
  by (simp add: fail_with_def)

lemma write_local_files:
  "write_local F p a c d w = (t, w') \<Longrightarrow> fw_broker w' = fw_broker w \<and> fw_worker w' = fw_worker w \<and> (\<forall>q. q \<noteq> p \<longrightarrow> fw_files w' q = fw_files w q)"
  by (auto simp: write_local_def split: option.splits)

lemma write_remote_files:
  "write_remote C e sid rel c a d w = (t, w') \<Longrightarrow> fw_broker w' = fw_broker w \<and> fw_files w' = fw_files w"
  by (auto simp: write_remote_def split: if_splits prod.splits)

text \<open>A step touches one local file at most, and no state of the broker.\<close>

definition touches :: "path \<Rightarrow> 'h file_world \<Rightarrow> 'h file_world \<Rightarrow> bool" where
  "touches p w w' \<longleftrightarrow> fw_broker w' = fw_broker w \<and> fw_worker w' = fw_worker w \<and> (\<forall>q. q \<noteq> p \<longrightarrow> fw_files w' q = fw_files w q)"

lemma touches_same [simp]: "touches p w w"
  by (simp add: touches_def)

lemma touches_write [simp]: "touches p w (snd (finish (write_local F p a c d w)))"
  by (auto simp: finish_def touches_def split: prod.split dest!: write_local_files)

lemma touches_edit: "touches p w (snd (edit_local F C old new all p w))"
  by (auto simp: edit_local_def split: file_state.split option.split sum.split)

lemma allow_path_ok:
  assumes "allow_path F C tool acc ctx path_str b = (Path_Ok p, b')"
  shows "check_path F acc ctx (bs_acl b') path_str = Inr (Some p)"
  using assms by (auto simp: allow_path_def rechecked_def split: sum.splits option.splits prod.splits if_splits)

lemma on_local_path_changes:
  assumes "on_local_path F C tool ctx path_str go w = (a, w')" "\<And>p w. touches p w (snd (go p w))" "fw_files w' q \<noteq> fw_files w q"
  shows "check_path F Write ctx (bs_acl (fw_broker w')) path_str = Inr (Some q)"
proof -
  obtain ans b where ans: "allow_path F C tool Write ctx path_str (fw_broker w) = (ans, b)" by fastforce
  show ?thesis
  proof (cases ans)
    case (Path_Ok p)
    have g: "go p (w\<lparr>fw_broker := b\<rparr>) = (a, w')" using assms(1) ans Path_Ok by (simp add: on_local_path_def)
    have "touches p (w\<lparr>fw_broker := b\<rparr>) w'" using assms(2) [of p "w\<lparr>fw_broker := b\<rparr>"] unfolding g by simp
    then have "fw_broker w' = b" "q = p" using assms(3) by (auto simp: touches_def)
    then show ?thesis using allow_path_ok ans Path_Ok by blast
  qed (use assms ans in \<open>auto simp: on_local_path_def\<close>)
qed

lemma on_remote_path_local:
  assumes "on_remote_path path_str go w = (a, w')" "\<And>rel w. fw_files (snd (go rel w)) = fw_files w"
  shows "fw_files w' = fw_files w"
  using assms(2) [of _ w] assms(1) by (auto simp: on_remote_path_def fail_with_def split: option.splits) (metis snd_conv)

lemma finish_write_remote [simp]: "fw_files (snd (finish (write_remote C e sid rel c a d w))) = fw_files w"
  by (auto simp: finish_def split: prod.split dest!: write_remote_files)

lemma edit_remote_local: "fw_files (snd (edit_remote C e sid old new all d rel w)) = fw_files w"
  by (auto simp: edit_remote_def Let_def split: option.split sum.split)

section \<open>What a session may reach\<close>

text \<open>The tools and the broker see the same disk.\<close>

definition same_disk :: "file_env \<Rightarrow> bool" where
  "same_disk F \<longleftrightarrow> disk_ok (fe_gate F) \<and> wh_resolve (fe_host F) = ge_resolve (fe_gate F)"

lemma merged_granted:
  assumes "merged_write_roots E src uid acl = Inr ps" "configured_write_roots E (ge_extra_write_roots E) = Inr c"
  shows "set ps = set c \<union> ge_resolve E ` granted_at (ge_host E) (src, uid) Write acl \<union> set_option (ge_memory_root E)"
  using assms unfolding merged_write_roots_def granted_def
  by (auto simp: set_fold_add_new set_add_new split: sum.splits option.splits)

lemma merged_total:
  assumes "merged_write_roots E src uid acl = Inr ps"
  shows "\<exists>c. configured_write_roots E (ge_extra_write_roots E) = Inr c \<and> (\<forall>acl'. \<exists>qs. merged_write_roots E src uid acl' = Inr qs)"
proof -
  obtain m where m: "normalize_mode ''write'' = Inr m" using normalize_mode_str [of Write] by auto
  show ?thesis using assms m
    by (auto simp: merged_write_roots_def load_user_path_prefixes_def list_ephemeral_path_prefixes_def split: sum.splits option.splits)
qed

lemma read_granted:
  assumes "read_grants F src uid acl = Inr rs"
  shows "set rs = wh_resolve (fe_host F) ` granted_at (ge_host (fe_gate F)) (src, uid) Read acl"
  using assms unfolding read_grants_def granted_def by (auto split: sum.splits)

lemma read_total:
  assumes "read_grants F src uid acl = Inr rs"
  shows "\<exists>qs. read_grants F src uid acl' = Inr qs"
proof -
  obtain m where m: "normalize_mode ''read'' = Inr m" using normalize_mode_str [of Read] by auto
  show ?thesis using assms m
    by (auto simp: read_grants_def load_user_path_prefixes_def list_ephemeral_path_prefixes_def split: sum.splits option.splits)
qed

lemma set_dedupe: "set (dedupe_paths H ps) = (\<lambda>p. wh_resolve H (path_text p)) ` set ps"
  using in_dedupe by blast

lemma session_gate_same [simp]:
  "ge_resolve (session_gate F s u) = ge_resolve (fe_gate F)" "ge_host (session_gate F s u) = ge_host (fe_gate F)"
  "ge_extra_write_roots (session_gate F s u) = ge_extra_write_roots (fe_gate F)"
  by (simp_all add: session_gate_def)

lemma session_capabilities_depend:
  assumes "session_capabilities H C src uid pa asked (Inr ws) (Inr rs) = Inr cap"
  shows "\<exists>fixed. \<forall>ws' rs'. \<exists>cap'. session_capabilities H C src uid pa asked (Inr ws') (Inr rs') = Inr cap' \<and>
    sc_owner_root cap' = sc_owner_root cap \<and> sc_isolated cap' = sc_isolated cap \<and>
    set (sc_writable cap') = (\<lambda>p. wh_resolve H (path_text p)) ` (fixed \<union> set ws') \<and>
    set (sc_readable cap') = (\<lambda>p. wh_resolve H (path_text p)) ` (fixed \<union> set ws' \<union> set rs')"
proof -
  let ?M = "case wc_memory_base C of None \<Rightarrow> [] | Some b \<Rightarrow> (case memory_owner_dir H C b src uid of Inl _ \<Rightarrow> [] | Inr p \<Rightarrow> [p])"
  let ?P = "if sc_project cap then [wh_project H] else []"
  let ?fixed = "{sc_owner_root cap, sc_tmp_root cap} \<union> set ?M \<union> set ?P"
  have "\<exists>cap'. session_capabilities H C src uid pa asked (Inr ws') (Inr rs') = Inr cap' \<and>
    sc_owner_root cap' = sc_owner_root cap \<and> sc_isolated cap' = sc_isolated cap \<and>
    sc_writable cap' = dedupe_paths H ([sc_owner_root cap, sc_tmp_root cap] @ ?M @ ws' @ ?P) \<and>
    sc_readable cap' = dedupe_paths H ([sc_owner_root cap, sc_tmp_root cap] @ ?M @ ws' @ rs' @ ?P)" for ws' rs'
    using assms by (simp add: session_capabilities_def Let_def split: sum.splits prod.splits) clarsimp
  note each = this
  have "set ([sc_owner_root cap, sc_tmp_root cap] @ ?M @ ws' @ ?P) = ?fixed \<union> set ws'"
    "set ([sc_owner_root cap, sc_tmp_root cap] @ ?M @ ws' @ rs' @ ?P) = ?fixed \<union> set ws' \<union> set rs'" for ws' rs'
    unfolding set_append list.set by blast+
  note sets = this
  show ?thesis
  proof (intro exI [of _ ?fixed] allI)
    fix ws' rs'
    obtain cap' where c: "session_capabilities H C src uid pa asked (Inr ws') (Inr rs') = Inr cap'"
      "sc_owner_root cap' = sc_owner_root cap" "sc_isolated cap' = sc_isolated cap"
      "sc_writable cap' = dedupe_paths H ([sc_owner_root cap, sc_tmp_root cap] @ ?M @ ws' @ ?P)"
      "sc_readable cap' = dedupe_paths H ([sc_owner_root cap, sc_tmp_root cap] @ ?M @ ws' @ rs' @ ?P)" using each by blast
    show "\<exists>cap'. session_capabilities H C src uid pa asked (Inr ws') (Inr rs') = Inr cap' \<and>
      sc_owner_root cap' = sc_owner_root cap \<and> sc_isolated cap' = sc_isolated cap \<and>
      set (sc_writable cap') = (\<lambda>p. wh_resolve H (path_text p)) ` (?fixed \<union> set ws') \<and>
      set (sc_readable cap') = (\<lambda>p. wh_resolve H (path_text p)) ` (?fixed \<union> set ws' \<union> set rs')"
      by (intro exI [of _ cap'] conjI c(1-3)) (simp_all only: c(4,5) set_dedupe sets)
  qed
qed

text \<open>The roots are fixed ones and those granted to the owner the execution context names.\<close>

lemma caps_depend:
  assumes "caps_for F ctx acl = Inr cap" "same_disk F"
  shows "\<exists>fixed. \<forall>acl'. \<exists>cap'. caps_for F ctx acl' = Inr cap' \<and>
    sc_owner_root cap' = sc_owner_root cap \<and> sc_isolated cap' = sc_isolated cap \<and>
    set (roots_for acc cap') = fixed \<union> ge_resolve (fe_gate F) `
      (granted_at (ge_host (fe_gate F)) (effective_namespace ctx) Write acl' \<union>
       (if acc = Read then granted_at (ge_host (fe_gate F)) (effective_namespace ctx) Read acl' else {}))"
proof -
  let ?R = "ge_resolve (fe_gate F)" and ?h = "ge_host (fe_gate F)"
  obtain src uid where o: "effective_namespace ctx = (src, uid)" by fastforce
  let ?E = "session_gate F src uid"
  let ?asked = "if py_get ctx ''bash_workspace_admin'' = PyNone then None else Some (truthy (py_get ctx ''bash_workspace_admin''))"
  have caps: "caps_for F ctx a = session_capabilities (fe_host F) (fe_cfg F) src uid False ?asked
      (merged_write_roots ?E src uid a) (read_grants F src uid a)" for a
    by (simp add: caps_for_def o)
  have same: "wh_resolve (fe_host F) = ?R" and ok: "disk_ok (fe_gate F)" using assms(2) by (simp_all add: same_disk_def)
  obtain ws rs where w: "merged_write_roots ?E src uid acl = Inr ws" "read_grants F src uid acl = Inr rs"
    using assms(1) unfolding caps by (auto simp: session_capabilities_def split: sum.splits prod.splits)
  obtain c where c: "configured_write_roots ?E (ge_extra_write_roots ?E) = Inr c"
    "\<And>a. \<exists>qs. merged_write_roots ?E src uid a = Inr qs" using merged_total [OF w(1)] by blast
  have r: "\<exists>qs. read_grants F src uid a = Inr qs" for a using read_total [OF w(2)] .
  have "session_capabilities (fe_host F) (fe_cfg F) src uid False ?asked (Inr ws) (Inr rs) = Inr cap"
    using assms(1) unfolding caps w .
  from session_capabilities_depend [OF this] obtain fixed where
    fixed: "\<And>ws' rs'. \<exists>cap'. session_capabilities (fe_host F) (fe_cfg F) src uid False ?asked (Inr ws') (Inr rs') = Inr cap' \<and>
      sc_owner_root cap' = sc_owner_root cap \<and> sc_isolated cap' = sc_isolated cap \<and>
      set (sc_writable cap') = (\<lambda>p. ?R (path_text p)) ` (fixed \<union> set ws') \<and>
      set (sc_readable cap') = (\<lambda>p. ?R (path_text p)) ` (fixed \<union> set ws' \<union> set rs')" unfolding same by blast
  have idem: "(\<lambda>p. ?R (path_text p)) ` (?R ` X) = ?R ` X" for X
    using disk_okD(3) [OF ok] by (auto simp: image_iff)
  let ?base = "(\<lambda>p. ?R (path_text p)) ` (fixed \<union> set c \<union> set_option (ge_memory_root ?E))"
  show ?thesis
  proof (intro exI [of _ ?base] allI)
    fix a
    obtain ws' rs' where q: "merged_write_roots ?E src uid a = Inr ws'" "read_grants F src uid a = Inr rs'" using c(2) r by blast
    obtain cap' where cap': "session_capabilities (fe_host F) (fe_cfg F) src uid False ?asked (Inr ws') (Inr rs') = Inr cap'"
      "sc_owner_root cap' = sc_owner_root cap" "sc_isolated cap' = sc_isolated cap"
      "set (sc_writable cap') = (\<lambda>p. ?R (path_text p)) ` (fixed \<union> set ws')"
      "set (sc_readable cap') = (\<lambda>p. ?R (path_text p)) ` (fixed \<union> set ws' \<union> set rs')" using fixed by blast
    have ws': "set ws' = set c \<union> ?R ` granted_at ?h (src, uid) Write a \<union> set_option (ge_memory_root ?E)"
      using merged_granted [OF q(1) c(1)] by simp
    have rs': "set rs' = ?R ` granted_at ?h (src, uid) Read a" using read_granted [OF q(2)] same by simp
    have wr: "set (sc_writable cap') = ?base \<union> ?R ` granted_at ?h (src, uid) Write a"
      unfolding cap'(4) ws' image_Un idem by blast
    have rd: "set (sc_readable cap') = ?base \<union> ?R ` (granted_at ?h (src, uid) Write a \<union> granted_at ?h (src, uid) Read a)"
      unfolding cap'(5) ws' rs' image_Un idem by blast
    have "set (roots_for acc cap') = ?base \<union> ?R ` (granted_at ?h (src, uid) Write a \<union>
        (if acc = Read then granted_at ?h (src, uid) Read a else {}))"
      using wr rd by (cases acc) (simp_all add: roots_for_def)
    then show "\<exists>cap'. caps_for F ctx a = Inr cap' \<and>
      sc_owner_root cap' = sc_owner_root cap \<and> sc_isolated cap' = sc_isolated cap \<and>
      set (roots_for acc cap') = ?base \<union> ?R ` (granted_at ?h (effective_namespace ctx) Write a \<union>
        (if acc = Read then granted_at ?h (effective_namespace ctx) Read a else {}))"
      unfolding o using cap'(1-3) by (intro exI [of _ cap'] conjI) (simp_all add: caps q)
  qed
qed

lemma resolve_tool_path_cong:
  "sc_owner_root cap' = sc_owner_root cap \<Longrightarrow> sc_isolated cap' = sc_isolated cap \<Longrightarrow>
     resolve_tool_path H ex base cap' s = resolve_tool_path H ex base cap s"
  unfolding resolve_tool_path_def by (simp only:)

text \<open>What a check that found the path outside the roots says of any later check.\<close>

lemma check_again:
  assumes "check_path F acc ctx acl s = Inr None" "same_disk F"
  shows "\<exists>cap p fixed. caps_for F ctx acl = Inr cap \<and>
    resolve_tool_path (fe_host F) (ge_expanduser (fe_gate F)) (fe_base_dir F) cap s = Inr p \<and> wc_isolated (fe_cfg F) \<and>
    (\<forall>acl'. check_path F acc ctx acl' s =
      Inr (if \<exists>r \<in> fixed \<union> ge_resolve (fe_gate F) `
          (granted_at (ge_host (fe_gate F)) (effective_namespace ctx) Write acl' \<union>
           (if acc = Read then granted_at (ge_host (fe_gate F)) (effective_namespace ctx) Read acl' else {})).
          within_root (fe_host F) p r then Some p else None))"
proof -
  obtain cap p where c: "caps_for F ctx acl = Inr cap"
    "resolve_tool_path (fe_host F) (ge_expanduser (fe_gate F)) (fe_base_dir F) cap s = Inr p" "wc_isolated (fe_cfg F)"
    using assms(1) by (auto simp: check_path_def split: sum.splits if_splits)
  obtain fixed where fixed: "\<And>acl'. \<exists>cap'. caps_for F ctx acl' = Inr cap' \<and>
    sc_owner_root cap' = sc_owner_root cap \<and> sc_isolated cap' = sc_isolated cap \<and>
    set (roots_for acc cap') = fixed \<union> ge_resolve (fe_gate F) `
      (granted_at (ge_host (fe_gate F)) (effective_namespace ctx) Write acl' \<union>
       (if acc = Read then granted_at (ge_host (fe_gate F)) (effective_namespace ctx) Read acl' else {}))"
    using caps_depend [OF c(1) assms(2), of acc] by blast
  have "check_path F acc ctx acl' s =
      Inr (if \<exists>r \<in> fixed \<union> ge_resolve (fe_gate F) `
          (granted_at (ge_host (fe_gate F)) (effective_namespace ctx) Write acl' \<union>
           (if acc = Read then granted_at (ge_host (fe_gate F)) (effective_namespace ctx) Read acl' else {})).
          within_root (fe_host F) p r then Some p else None)" for acl'
  proof -
    obtain cap' where cap': "caps_for F ctx acl' = Inr cap'" "sc_owner_root cap' = sc_owner_root cap" "sc_isolated cap' = sc_isolated cap"
      "set (roots_for acc cap') = fixed \<union> ge_resolve (fe_gate F) `
        (granted_at (ge_host (fe_gate F)) (effective_namespace ctx) Write acl' \<union>
         (if acc = Read then granted_at (ge_host (fe_gate F)) (effective_namespace ctx) Read acl' else {}))" using fixed by blast
    have "check_path F acc ctx acl' s = Inr (if \<not> list_ex (within_root (fe_host F) p) (roots_for acc cap') then None else Some p)"
      by (simp add: check_path_def cap'(1) resolve_tool_path_cong [OF cap'(2,3)] c(2,3))
    then show ?thesis unfolding list_ex_iff cap'(4) by simp
  qed
  then show ?thesis using c by blast
qed

text \<open>A request that was allowed with its own grant: the prefix is granted to the caller.\<close>

lemma file_grant_applied:
  assumes "same_disk F" "ask_broker (fe_gate F) loop nid (file_request tool acc s pfx ctx) out b = (Some r, b')" "br_allowed r"
    "bypass_enabled ctx \<or> (\<forall>d. out = Decided d \<longrightarrow> d_path_grants d = None)"
  shows "\<exists>q. h_resolve (ge_host (fe_gate F)) pfx = Some q \<and> ge_resolve (fe_gate F) q = ge_resolve (fe_gate F) pfx \<and>
      q \<in> granted_at (ge_host (fe_gate F)) (source_user ctx) acc (bs_acl b')"
    "\<not> same_owner (fst who) (snd who) (fst (source_user ctx)) (snd (source_user ctx)) \<Longrightarrow>
      granted_at (ge_host (fe_gate F)) who m (bs_acl b') = granted_at (ge_host (fe_gate F)) who m (bs_acl b)"
proof -
  let ?h = "ge_host (fe_gate F)"
  have ctx: "rq_exec_ctx (file_request tool acc s pfx ctx) = ctx" by (simp add: file_request_def)
  obtain persist gs ns where g: "apply_grants ?h (source_user ctx) persist gs (bs_acl b) = (Inr ns, bs_acl b')"
    "set (rq_path_grants (file_request tool acc s pfx ctx)) \<subseteq> set gs"
    using own_grants_applied [OF assms(2,3)] assms(4) unfolding ctx by blast
  have ok: "disk_ok (fe_gate F)" and host: "host_ok ?h" using assms(1) by (simp_all add: same_disk_def disk_ok_def)
  obtain i where i: "i < length gs" "pg_path_prefix (gs ! i) = pfx" "pg_access_mode (gs ! i) = acc"
    using g(2) by (auto simp: file_request_def in_set_conv_nth)
  have own: "map (\<lambda>g. h_resolve ?h (pg_path_prefix g)) gs = map (\<lambda>n. Some (pg_path_prefix n)) ns"
    "map pg_access_mode ns = map pg_access_mode gs"
    "granted_at ?h (source_user ctx) acc (bs_acl b') =
       granted_at ?h (source_user ctx) acc (bs_acl b) \<union> pg_path_prefix ` {n \<in> set ns. pg_access_mode n = acc}"
    using apply_grants_own [OF host g(1), where m = acc] by blast+
  have len: "length ns = length gs" using arg_cong [OF own(2), of length] by simp
  have n: "h_resolve ?h pfx = Some (pg_path_prefix (ns ! i))" "pg_access_mode (ns ! i) = acc"
    using arg_cong [OF own(1), of "\<lambda>l. l ! i"] arg_cong [OF own(2), of "\<lambda>l. l ! i"] len i by simp_all
  then have "pg_path_prefix (ns ! i) \<in> granted_at ?h (source_user ctx) acc (bs_acl b')"
    unfolding own(3) using i(1) len nth_mem [of i ns] by simp
  then show "\<exists>q. h_resolve ?h pfx = Some q \<and> ge_resolve (fe_gate F) q = ge_resolve (fe_gate F) pfx \<and>
      q \<in> granted_at ?h (source_user ctx) acc (bs_acl b')" using n(1) disk_okD(1) [OF ok n(1)] by blast
  show "\<not> same_owner (fst who) (snd who) (fst (source_user ctx)) (snd (source_user ctx)) \<Longrightarrow>
      granted_at ?h who m (bs_acl b') = granted_at ?h who m (bs_acl b)"
    using apply_grants_other [OF g(1)] by blast
qed

section \<open>Properties\<close>

text \<open>C12: With isolation a file of the host changes only in a call of a core that is no subagent, with no remote workspace, and only below a directory that the session may write to when the call ends.\<close>

theorem file_writes_stay_inside_roots:
  assumes "write_file F C ctx kwargs w = (a, w') \<or> modify_file F C ctx kwargs w = (a, w')"
    and "fw_files w' p \<noteq> fw_files w p" "wc_isolated (fe_cfg F)"
  shows "\<not> sub_forbids_mutation ctx \<and> ce_remote C = None \<and>
    (\<exists>cap. caps_for F ctx (bs_acl (fw_broker w')) = Inr cap \<and> list_ex (within_root (fe_host F) p) (sc_writable cap))"
proof -
  have remote: "fw_files w' = fw_files w" if "ce_remote C = Some r" for r
    using assms(1)
  proof
    assume "write_file F C ctx kwargs w = (a, w')"
    then show ?thesis unfolding write_file_def that
      by (auto simp: fail_with_def Let_def split: if_splits elim!: on_remote_path_local)
  next
    assume "modify_file F C ctx kwargs w = (a, w')"
    then show ?thesis unfolding modify_file_def that
      by (auto simp: fail_with_def Let_def edit_remote_local split: if_splits elim!: on_remote_path_local)
  qed
  then have loc: "ce_remote C = None" using assms(2) by (cases "ce_remote C") auto
  have sub: "\<not> sub_forbids_mutation ctx"
    using assms(1,2) by (auto simp: write_file_def modify_file_def fail_with_def Let_def split: if_splits)
  obtain tool path_str go where g: "on_local_path F C tool ctx path_str go w = (a, w')" "\<And>p w. touches p w (snd (go p w))"
    using assms(1)
  proof
    assume "write_file F C ctx kwargs w = (a, w')"
    then show ?thesis using assms(2) that unfolding write_file_def loc
      by (fastforce simp: fail_with_def Let_def split: if_splits)
  next
    assume "modify_file F C ctx kwargs w = (a, w')"
    then show ?thesis using assms(2) that unfolding modify_file_def loc
      by (fastforce simp: fail_with_def Let_def touches_edit split: if_splits)
  qed
  have "check_path F Write ctx (bs_acl (fw_broker w')) path_str = Inr (Some p)"
    by (rule on_local_path_changes [OF g assms(2)])
  then show ?thesis using sub loc assms(3)
    by (auto simp: check_path_def roots_for_def split: sum.splits if_splits)
qed

text \<open>C29: Once a human has allowed the access a file call asked for, the call goes on with its path, when the grant covers the path and the call acts for the user it came from.\<close>

theorem approved_file_access_goes_through:
  assumes disk: "same_disk F" and own: "effective_namespace ctx = source_user ctx"
    and asks: "check_path F acc ctx (bs_acl b) s = Inr None" "infer_prefix F ctx (bs_acl b) s = Inr (Some pfx)"
    and covers: "caps_for F ctx (bs_acl b) = Inr cap"
      "resolve_tool_path (fe_host F) (ge_expanduser (fe_gate F)) (fe_base_dir F) cap s = Inr p"
      "prefix (ge_resolve (fe_gate F) pfx) p"
    and allowed: "ask_broker (fe_gate F) (ce_loop C) (ce_new_id C) (file_request tool acc s pfx ctx) (ce_outcome C) b = (Some r, b')"
      "br_allowed r" "bypass_enabled ctx \<or> (\<forall>d. ce_outcome C = Decided d \<longrightarrow> d_path_grants d = None)"
  shows "fst (allow_path F C tool acc ctx s b) = Path_Ok p"
proof -
  let ?R = "ge_resolve (fe_gate F)" and ?h = "ge_host (fe_gate F)"
  have same: "wh_resolve (fe_host F) = ?R" and ok: "disk_ok (fe_gate F)" using disk by (simp_all add: same_disk_def)
  obtain fixed where again: "check_path F acc ctx (bs_acl b') s =
      Inr (if \<exists>r \<in> fixed \<union> ?R ` (granted_at ?h (effective_namespace ctx) Write (bs_acl b') \<union>
           (if acc = Read then granted_at ?h (effective_namespace ctx) Read (bs_acl b') else {})).
          within_root (fe_host F) p r then Some p else None)"
    using check_again [OF asks(1) disk] covers(1,2) by auto
  obtain q where q: "?R q = ?R pfx" "q \<in> granted_at ?h (source_user ctx) acc (bs_acl b')"
    using file_grant_applied(1) [OF disk allowed] by blast
  obtain t where p: "p = ?R t" using covers(2) same by (auto simp: resolve_tool_path_def split: option.splits)
  have "within_root (fe_host F) p (?R q)"
    using covers(3) unfolding within_root_def same p q(1) disk_okD(3) [OF ok] .
  moreover have "q \<in> granted_at ?h (effective_namespace ctx) Write (bs_acl b') \<union>
      (if acc = Read then granted_at ?h (effective_namespace ctx) Read (bs_acl b') else {})"
    using q(2) unfolding own by (cases acc) simp_all
  ultimately have "check_path F acc ctx (bs_acl b') s = Inr (Some p)" unfolding again by auto
  then show ?thesis using asks allowed by (simp add: allow_path_def rechecked_def)
qed

text \<open>A call that acts for another user than the one it came from (the owner of a scheduled task) is refused even after the human has allowed it: the directory is granted to the user the call came from, who did not need it.\<close>

theorem approval_for_another_owner_is_lost:
  assumes disk: "same_disk F"
    and other: "\<not> same_owner (fst (effective_namespace ctx)) (snd (effective_namespace ctx)) (fst (source_user ctx)) (snd (source_user ctx))"
    and asks: "check_path F acc ctx (bs_acl b) s = Inr None" "infer_prefix F ctx (bs_acl b) s = Inr (Some pfx)"
    and allowed: "ask_broker (fe_gate F) (ce_loop C) (ce_new_id C) (file_request tool acc s pfx ctx) (ce_outcome C) b = (Some r, b')"
      "br_allowed r" "bypass_enabled ctx \<or> (\<forall>d. ce_outcome C = Decided d \<longrightarrow> d_path_grants d = None)"
  shows "allow_path F C tool acc ctx s b = (Path_Stop (failed ''FORBIDDEN_PATH'' []), b') \<and>
    (\<exists>q. h_resolve (ge_host (fe_gate F)) pfx = Some q \<and> q \<in> granted_at (ge_host (fe_gate F)) (source_user ctx) acc (bs_acl b'))"
proof -
  have same: "granted_at (ge_host (fe_gate F)) (effective_namespace ctx) m (bs_acl b') =
      granted_at (ge_host (fe_gate F)) (effective_namespace ctx) m (bs_acl b)" for m
    by (rule file_grant_applied(2) [OF disk allowed other])
  obtain p fixed where again: "\<And>acl'. check_path F acc ctx acl' s =
      Inr (if \<exists>r \<in> fixed \<union> ge_resolve (fe_gate F) ` (granted_at (ge_host (fe_gate F)) (effective_namespace ctx) Write acl' \<union>
           (if acc = Read then granted_at (ge_host (fe_gate F)) (effective_namespace ctx) Read acl' else {})).
          within_root (fe_host F) p r then Some p else None)"
    using check_again [OF asks(1) disk] by blast
  have "check_path F acc ctx (bs_acl b') s = check_path F acc ctx (bs_acl b) s" unfolding again same ..
  then show ?thesis
    using asks allowed file_grant_applied(1) [OF disk allowed] by (auto simp: allow_path_def rechecked_def)
qed

text \<open>Allowing the write of one file named like \<open>/notes.txt\<close> opens the whole disk: the directory asked for is the parent of the file, and afterwards no path is outside the roots of the session.\<close>

theorem one_file_can_open_the_disk:
  assumes disk: "same_disk F" and own: "effective_namespace ctx = source_user ctx"
    and asks: "check_path F Write ctx (bs_acl b) ''/notes.txt'' = Inr None"
    and plain: "ge_expanduser (fe_gate F) ''/notes.txt'' = Some ''/notes.txt''" "ge_resolve (fe_gate F) ''/'' = []"
    and allowed: "ask_broker (fe_gate F) (ce_loop C) (ce_new_id C) (file_request tool Write ''/notes.txt'' ''/'' ctx) (ce_outcome C) b = (Some r, b')"
      "br_allowed r" "bypass_enabled ctx \<or> (\<forall>d. ce_outcome C = Decided d \<longrightarrow> d_path_grants d = None)"
  shows "infer_prefix F ctx (bs_acl b) ''/notes.txt'' = Inr (Some ''/'') \<and> check_path F acc ctx (bs_acl b') s \<noteq> Inr None"
proof
  let ?R = "ge_resolve (fe_gate F)" and ?h = "ge_host (fe_gate F)"
  have same: "wh_resolve (fe_host F) = ?R" and ok: "disk_ok (fe_gate F)" using disk by (simp_all add: same_disk_def)
  obtain cap where cap: "caps_for F ctx (bs_acl b) = Inr cap" using asks by (auto simp: check_path_def split: sum.splits)
  have st: "strip ''/notes.txt'' = ''/notes.txt''" by (simp add: strip_id_iff_ends is_space_def)
  have pt: "has_suffix ''/notes.txt''" "parent_text ''/notes.txt'' = ''/''" by code_simp+
  have "remap_tilde (fe_host F) (ge_expanduser (fe_gate F)) h i ''/notes.txt'' = Some ''/notes.txt''" for h i
    by (simp add: remap_tilde_def st plain(1) Let_def)
  then show "infer_prefix F ctx (bs_acl b) ''/notes.txt'' = Inr (Some ''/'')"
    by (simp add: infer_prefix_def st cap pt same plain(2) path_text_def)
  obtain q where q: "?R q = []" "q \<in> granted_at ?h (source_user ctx) Write (bs_acl b')"
    using file_grant_applied(1) [OF disk allowed] plain(2) by auto
  show "check_path F acc ctx (bs_acl b') s \<noteq> Inr None"
  proof
    assume "check_path F acc ctx (bs_acl b') s = Inr None"
    note outside = this
    obtain p fixed where again: "\<And>acl'. check_path F acc ctx acl' s =
        Inr (if \<exists>r \<in> fixed \<union> ?R ` (granted_at ?h (effective_namespace ctx) Write acl' \<union>
           (if acc = Read then granted_at ?h (effective_namespace ctx) Read acl' else {})).
            within_root (fe_host F) p r then Some p else None)" using check_again [OF outside disk] by blast
    have "\<not> (\<exists>r \<in> fixed \<union> ?R ` (granted_at ?h (effective_namespace ctx) Write (bs_acl b') \<union>
         (if acc = Read then granted_at ?h (effective_namespace ctx) Read (bs_acl b') else {})). within_root (fe_host F) p r)"
    proof
      assume "\<exists>r \<in> fixed \<union> ?R ` (granted_at ?h (effective_namespace ctx) Write (bs_acl b') \<union>
         (if acc = Read then granted_at ?h (effective_namespace ctx) Read (bs_acl b') else {})). within_root (fe_host F) p r"
      then have "check_path F acc ctx (bs_acl b') s = Inr (Some p)" unfolding again by (intro arg_cong [OF if_P])
      then show False using outside by simp
    qed
    moreover have "within_root (fe_host F) p (?R q)"
      using disk_okD(3) [OF ok, of q] q(1) by (simp add: within_root_def same)
    ultimately show False using q(2) unfolding own by blast
  qed
qed

text \<open>Reading a file page by page reads every line once, and the last page is the one that says there is no more.\<close>

theorem pages_cover_the_file:
  assumes "0 < m" "length (splitlines content) \<le> k * m"
  shows "concat (map (\<lambda>i. fst (line_slice content (Some (int (i * m) + 1)) (Some (int m)))) [0..<k]) = splitlines content \<and>
    (snd (snd (snd (snd (line_slice content (Some (int (i * m) + 1)) (Some (int m)))))) \<longleftrightarrow> Suc i * m < length (splitlines content))"
proof -
  let ?ls = "splitlines content"
  have page: "fst (line_slice content (Some (int (i * m) + 1)) (Some (int m))) = take m (drop (i * m) ?ls)" for i
    by (simp add: line_slice_def Let_def min_def take_drop add.commute del: of_nat_mult)
  have "concat (map (\<lambda>i. take m (drop (i * m) xs)) [0..<k]) = take (k * m) xs" for xs :: "str list" and k
  proof (induction k)
    case (Suc k)
    have "take (Suc k * m) xs = take (k * m) xs @ take m (drop (k * m) xs)"
      using take_add [of "k * m" m xs] by (simp only: mult_Suc add.commute)
    then show ?case using Suc.IH by (simp del: mult_Suc)
  qed simp
  then have all: "concat (map (\<lambda>i. fst (line_slice content (Some (int (i * m) + 1)) (Some (int m)))) [0..<k]) = ?ls"
    using assms(2) unfolding page by simp
  have "snd (snd (snd (snd (line_slice content (Some (int (i * m) + 1)) (Some (int m)))))) \<longleftrightarrow> Suc i * m < length ?ls"
    by (simp add: line_slice_def Let_def min_def add.commute del: of_nat_mult)
  then show ?thesis using all by blast
qed

text \<open>C31: Replacing a passage of a remote file drops everything after its first two million characters, and reports success.\<close>

theorem remote_edit_drops_the_rest:
  assumes "map_of (wk_roots (fw_worker w)) sid = Some base" "resolve_under_workspace (ce_disk C) base rel = Inr p"
    "wk_files (fw_worker w) p = Text_File t" "wd_write_error (ce_disk C) p = None"
    "ce_read_link C" "ce_write_link C" "confirmed C"
    and "old \<noteq> []" "contains old (take 2000000 (universal_newlines t))"
  shows "\<exists>r w'. edit_remote C encoding sid old new False d rel w = (Done r, w') \<and> tr_success r \<and>
    wk_files (fw_worker w') p = Text_File (replace_first old new (take 2000000 (universal_newlines t)))"
proof -
  have read: "worker_file_read (ce_disk C) sid rel None None (fw_worker w) =
      \<lparr>fr_content = take 2000000 (universal_newlines t), fr_truncated = (2000000 < length (universal_newlines t)), fr_error = None\<rparr>"
    using assms(1-3) by (simp add: worker_file_read_def read_workspace_text_def max_chars_def Let_def)
  have edit: "search_replace (take 2000000 (universal_newlines t)) old new False =
      Some (Inr (replace_first old new (take 2000000 (universal_newlines t))))"
    using assms(8,9) by (simp add: search_replace_def)
  show ?thesis
    using assms(1,2,4-7)
    by (simp add: edit_remote_def read edit write_remote_def worker_file_write_def write_workspace_text_def finish_def succeeded_def)
qed

section \<open>Witnesses\<close>

definition demo_files :: file_env where
  "demo_files = \<lparr>fe_gate = demo_gate_host, fe_host = plain_host, fe_cfg = plain_cfg, fe_memory_dir = [], fe_base_dir = ''.'',
     fe_allow_read = True, fe_allow_write = True, fe_allow_modify = True, fe_write_error = (\<lambda>_. None)\<rparr>"

lemma demo_same_disk: "same_disk demo_files"
  using demo_disk_ok by (simp add: same_disk_def demo_files_def demo_gate_host_def plain_host_def) (simp add: demo_gate_env_def)

lemma demo_no_grants:
  assumes "validate_segment (str_or (strip src) ''cli'') = Inr fe" "validate_segment (str_or (strip uid) ''root'') = Inr u"
  shows "load_user_path_prefixes res base src uid (mode_str m) no_grants = Inr []"
    "list_ephemeral_path_prefixes src uid (mode_str m) no_grants = Inr []"
proof -
  obtain k where "acl_path base src uid m = Inr k" using assms by (simp add: acl_path_def)
  then show "load_user_path_prefixes res base src uid (mode_str m) no_grants = Inr []"
    by (simp add: load_user_path_prefixes_def no_grants_def)
  show "list_ephemeral_path_prefixes src uid (mode_str m) no_grants = Inr []"
    by (simp add: list_ephemeral_path_prefixes_def no_grants_def)
qed

lemma demo_caps:
  assumes "effective_namespace ctx = (src, uid)" "both_segments src uid = Inr (src, uid)" "strip src = src" "strip uid = uid"
    "py_get ctx ''bash_workspace_admin'' = PyBool False"
  shows "\<exists>cap. caps_for demo_files ctx no_grants = Inr cap \<and> sc_isolated cap \<and>
    roots_for acc cap = [[''ws'', src, uid], [''tmp'', src, uid]]"
proof -
  have v: "validate_segment src = Inr src" "validate_segment uid = Inr uid"
    using both_segments_again(2,3) [OF assms(2)] assms(2) by (auto simp: both_segments_def split: sum.splits)
  have ne: "src \<noteq> []" "uid \<noteq> []" "CHR ''/'' \<notin> set src" "CHR ''/'' \<notin> set uid"
    using validate_segment_safe [OF v(1)] validate_segment_safe [OF v(2)] by auto
  have "validate_segment (str_or (strip src) ''cli'') = Inr src" "validate_segment (str_or (strip uid) ''root'') = Inr uid"
    using v ne assms(3,4) by simp_all
  note none = demo_no_grants [OF this]
  have gate: "session_gate demo_files src uid = demo_gate_host"
    by (simp add: session_gate_def demo_files_def plain_cfg_def demo_gate_host_def demo_gate_env_def)
  have w: "merged_write_roots demo_gate_host src uid no_grants = Inr []"
    using none [where m = Write] by (simp add: merged_write_roots_def) (simp add: demo_gate_host_def demo_gate_env_def)
  have r: "read_grants demo_files src uid no_grants = Inr []" using none [where m = Read] by (simp add: read_grants_def)
  have res: "plain_resolve (sub_path b [src, uid]) = plain_resolve b @ [src, uid]" for b by (rule plain_resolve_sub) (use ne in simp_all)
  have b: "plain_resolve ''/ws'' = [''ws'']" "plain_resolve ''/tmp'' = [''tmp'']" by code_simp+
  have p: "plain_path [''ws'', src, uid]" "plain_path [''tmp'', src, uid]" using ne by (simp_all add: plain_path_def)
  have t: "resolve_workspace_tmp_dir plain_host src uid = Inr [''tmp'', src, uid]"
    by (simp add: resolve_workspace_tmp_dir_def assms(2)) (simp add: plain_host_def res b)
  have d: "resolve_workspace_owner_dir plain_host plain_cfg src uid = Inr [''ws'', src, uid]"
    by (simp add: resolve_workspace_owner_dir_def assms(2)) (simp add: plain_host_def plain_cfg_def res b str_or_def strip_id_iff_ends is_space_def)
  have dd: "dedupe_paths plain_host [[''ws'', src, uid], [''tmp'', src, uid]] = [[''ws'', src, uid], [''tmp'', src, uid]]"
    by (simp add: dedupe_paths_def plain_host_def plain_resolve_text p add_new_def)
  have iso: "wc_isolated plain_cfg" "\<not> wc_os_users plain_cfg" "wc_memory_base plain_cfg = None" by (simp_all add: plain_cfg_def)
  show ?thesis
    by (cases acc) (simp_all add: caps_for_def assms(1,5) gate w r, simp_all add: demo_files_def session_capabilities_def t owner_root_of_def,
      simp_all add: iso d dd Let_def roots_for_def)
qed

lemma demo_bypassed:
  assumes "bypass_enabled ctx"
  shows "\<exists>r b. ask_broker demo_gate_host loop nid (file_request tool acc s pfx ctx) out demo_broker = (Some r, b) \<and> br_allowed r"
proof -
  let ?rq = "file_request tool acc s pfx ctx"
  obtain g where g: "rq_path_grants ?rq = [g]" by (simp add: file_request_def)
  moreover obtain n acl where "apply_one (ge_host demo_gate_host) (source_user (rq_exec_ctx ?rq)) False g no_grants = Inr (n, acl)"
    using ephemeral_succeeds [of "h_norm open_host" "fst (source_user (rq_exec_ctx ?rq))" "snd (source_user (rq_exec_ctx ?rq))"
        "path_text (plain_resolve (pg_path_prefix g))" "pg_access_mode g" no_grants]
    by (auto simp: apply_one_def demo_gate_host_def open_host_def)
  moreover have "bypass_enabled (rq_exec_ctx ?rq)" using assms by (simp add: file_request_def)
  ultimately show ?thesis
    by (simp add: ask_broker_def broker_begin_def bypass_request_def apply_path_grants_eq blank_result_def demo_broker_def)
qed

text \<open>A call of the user \<open>cli:root\<close>, and one that acts for \<open>a:c\<close>.\<close>

definition file_ctx :: "(str, pyval) dict" where
  "file_ctx = [(''approval_bypass_enabled'', PyBool True), (''bash_workspace_admin'', PyBool False)]"

definition owner_ctx :: "(str, pyval) dict" where
  "owner_ctx = (''memory_owner'', PyStr ''a:c'') # file_ctx"

lemma demo_ctxs:
  "effective_namespace file_ctx = (''cli'', ''root'')" "source_user file_ctx = (''cli'', ''root'')" "bypass_enabled file_ctx"
  "effective_namespace owner_ctx = (''a'', ''c'')" "source_user owner_ctx = (''cli'', ''root'')" "bypass_enabled owner_ctx"
  "py_get file_ctx ''bash_workspace_admin'' = PyBool False" "py_get owner_ctx ''bash_workspace_admin'' = PyBool False"
proof -
  have "strip ''a:c'' = ''a:c''" by (simp add: strip_id_iff_ends is_space_def)
  then show "effective_namespace owner_ctx = (''a'', ''c'')"
    by (simp add: effective_namespace_def owner_ctx_def py_get_def Let_def)
qed (simp_all add: effective_namespace_def source_user_def file_ctx_def owner_ctx_def py_get_def py_or_def Let_def bypass_enabled_def py_get_or_def)

lemma demo_check:
  assumes "effective_namespace ctx = (src, uid)" "both_segments src uid = Inr (src, uid)" "strip src = src" "strip uid = uid"
    "py_get ctx ''bash_workspace_admin'' = PyBool False" "bypass_enabled ctx"
  shows "check_path demo_files acc ctx no_grants ''/notes.txt'' = Inr None"
    "\<exists>cap. caps_for demo_files ctx no_grants = Inr cap \<and>
       resolve_tool_path plain_host Some ''.'' cap ''/notes.txt'' = Inr [''notes.txt'']"
    "infer_prefix demo_files ctx no_grants ''/notes.txt'' = Inr (Some ''/'')"
proof -
  have st: "strip ''/notes.txt'' = ''/notes.txt''" by (simp add: strip_id_iff_ends is_space_def)
  have rt: "remap_tilde H Some h i ''/notes.txt'' = Some ''/notes.txt''" for H h i by (simp add: remap_tilde_def st Let_def)
  have pr: "plain_resolve ''/notes.txt'' = [''notes.txt'']" "plain_resolve ''/'' = []" by code_simp+
  have r: "resolve_tool_path plain_host Some ''.'' cap ''/notes.txt'' = Inr [''notes.txt'']" for cap
    by (simp add: resolve_tool_path_def rt) (simp add: plain_host_def pr)
  obtain cap where cap: "caps_for demo_files ctx no_grants = Inr cap" "roots_for acc cap = [[''ws'', src, uid], [''tmp'', src, uid]]"
    using demo_caps [OF assms(1-5)] by blast
  then show "\<exists>cap. caps_for demo_files ctx no_grants = Inr cap \<and>
       resolve_tool_path plain_host Some ''.'' cap ''/notes.txt'' = Inr [''notes.txt'']" using r by blast
  have ne: "src \<noteq> []" "uid \<noteq> []" "CHR ''/'' \<notin> set src" "CHR ''/'' \<notin> set uid"
  proof -
    have "validate_segment src = Inr src" "validate_segment uid = Inr uid"
      using both_segments_again(2,3) [OF assms(2)] assms(2) by (auto simp: both_segments_def split: sum.splits)
    from validate_segment_safe [OF this(1)] validate_segment_safe [OF this(2)]
    show "src \<noteq> []" "uid \<noteq> []" "CHR ''/'' \<notin> set src" "CHR ''/'' \<notin> set uid" by auto
  qed
  have p: "plain_path [''ws'', src, uid]" "plain_path [''tmp'', src, uid]" "plain_path [''notes.txt'']" using ne by (simp_all add: plain_path_def)
  have "ge_expanduser demo_gate_host = Some" by (simp add: demo_gate_host_def demo_gate_env_def)
  note ex = this
  show "check_path demo_files acc ctx no_grants ''/notes.txt'' = Inr None"
    by (simp add: check_path_def cap) (simp add: demo_files_def ex r cap within_root_def, simp add: plain_host_def plain_cfg_def plain_resolve_text p)
  have "has_suffix ''/notes.txt''" "parent_text ''/notes.txt'' = ''/''" by code_simp+
  then show "infer_prefix demo_files ctx no_grants ''/notes.txt'' = Inr (Some ''/'')"
    by (simp add: infer_prefix_def st cap) (simp add: demo_files_def ex rt plain_host_def pr path_text_def)
qed

definition demo_call :: call_env where
  "demo_call = \<lparr>ce_loop = True, ce_new_id = ''p'', ce_outcome = TimedOut, ce_confirm = None, ce_remote = None, ce_read_link = True,
     ce_write_link = True, ce_disk = plain_disk\<rparr>"

lemma root_names: "both_segments ''cli'' ''root'' = Inr (''cli'', ''root'')" "both_segments ''a'' ''c'' = Inr (''a'', ''c'')"
  by (simp_all add: both_segments_def path_segment_def validate_segment_def)

lemmas demo_root = demo_check [OF demo_ctxs(1) root_names(1) strip_words demo_ctxs(7,3)]
lemmas demo_owner = demo_check [OF demo_ctxs(4) root_names(2) strip_names(2,5) demo_ctxs(8,6)]

lemma demo_parts: "ge_host demo_gate_host = open_host" "fe_gate demo_files = demo_gate_host" "fe_host demo_files = plain_host"
    "fe_base_dir demo_files = ''.''" "ge_expanduser demo_gate_host = Some" "ge_resolve demo_gate_host = plain_resolve" "bs_acl demo_broker = no_grants"
    "ce_loop demo_call = True" "ce_new_id demo_call = ''p''" "ce_outcome demo_call = TimedOut"
  by (simp_all add: demo_files_def demo_gate_host_def demo_gate_env_def demo_call_def demo_broker_def)

theorem approved_file_access_goes_through_witness:
  "fst (allow_path demo_files demo_call ''write_file'' Write file_ctx ''/notes.txt'' demo_broker) = Path_Ok [''notes.txt'']"
proof -
  obtain r b where r: "ask_broker demo_gate_host True ''p'' (file_request ''write_file'' Write ''/notes.txt'' ''/'' file_ctx) TimedOut demo_broker = (Some r, b)"
    "br_allowed r" using demo_bypassed [OF demo_ctxs(3)] by blast
  obtain cap where cap: "caps_for demo_files file_ctx no_grants = Inr cap"
    "resolve_tool_path plain_host Some ''.'' cap ''/notes.txt'' = Inr [''notes.txt'']" using demo_root(2) by blast
  have "plain_resolve ''/'' = []" by code_simp
  then show ?thesis
    by (intro approved_file_access_goes_through [OF demo_same_disk _ _ _ _ _ _ _ r(2), where b = demo_broker and cap = cap and pfx = "''/''" and b' = b])
      (simp_all add: demo_parts demo_ctxs demo_root cap r)
qed

theorem approval_for_another_owner_is_lost_witness:
  "\<exists>b. allow_path demo_files demo_call ''write_file'' Write owner_ctx ''/notes.txt'' demo_broker = (Path_Stop (failed ''FORBIDDEN_PATH'' []), b) \<and>
     (\<exists>q. q \<in> granted_at open_host (''cli'', ''root'') Write (bs_acl b))"
proof -
  obtain r b where r: "ask_broker demo_gate_host True ''p'' (file_request ''write_file'' Write ''/notes.txt'' ''/'' owner_ctx) TimedOut demo_broker = (Some r, b)"
    "br_allowed r" using demo_bypassed [OF demo_ctxs(6)] by blast
  have other: "\<not> same_owner ''a'' ''c'' ''cli'' ''root''" by (simp add: same_owner_def grant_key_def)
  have "allow_path demo_files demo_call ''write_file'' Write owner_ctx ''/notes.txt'' demo_broker = (Path_Stop (failed ''FORBIDDEN_PATH'' []), b) \<and>
    (\<exists>q. h_resolve (ge_host (fe_gate demo_files)) ''/'' = Some q \<and> q \<in> granted_at (ge_host (fe_gate demo_files)) (source_user owner_ctx) Write (bs_acl b))"
    by (intro approval_for_another_owner_is_lost [OF demo_same_disk _ _ _ _ r(2)]) (simp_all add: demo_parts demo_ctxs demo_owner other r)
  then show ?thesis by (auto simp: demo_parts demo_ctxs)
qed

theorem one_file_can_open_the_disk_witness:
  "\<exists>b :: nat broker_state. check_path demo_files Write file_ctx (bs_acl b) ''/etc/passwd'' \<noteq> Inr None"
proof -
  obtain r b where r: "ask_broker demo_gate_host True ''p'' (file_request ''write_file'' Write ''/notes.txt'' ''/'' file_ctx) TimedOut demo_broker = (Some r, b)"
    "br_allowed r" using demo_bypassed [OF demo_ctxs(3)] by blast
  have "plain_resolve ''/'' = []" by code_simp
  then have "infer_prefix demo_files file_ctx (bs_acl demo_broker) ''/notes.txt'' = Inr (Some ''/'') \<and>
      check_path demo_files Write file_ctx (bs_acl b) ''/etc/passwd'' \<noteq> Inr None"
    by (intro one_file_can_open_the_disk [OF demo_same_disk _ _ _ _ _ r(2), where C = demo_call and tool = "''write_file''"])
      (simp_all add: demo_parts demo_ctxs demo_root r)
  then show ?thesis by blast
qed

theorem pages_cover_the_file_witness:
  "concat (map (\<lambda>i. fst (line_slice [CHR ''a'', newline, CHR ''b''] (Some (int (i * 1) + 1)) (Some (int 1)))) [0..<2]) = [''a'', ''b'']"
proof -
  have s: "splitlines [CHR ''a'', newline, CHR ''b''] = [''a'', ''b'']" by code_simp
  have l: "length (splitlines [CHR ''a'', newline, CHR ''b'']) \<le> 2 * 1" by (simp add: s)
  have "(0::nat) < 1" by simp
  from pages_cover_the_file [OF this l] s show ?thesis by simp
qed

text \<open>A file of three million characters of which the first is replaced.\<close>

definition long_world :: "nat file_world" where
  "long_world = \<lparr>fw_files = (\<lambda>_. No_File), fw_broker = demo_broker,
     fw_worker = \<lparr>wk_roots = [(''s'', [''w''])], wk_files = (\<lambda>_. Text_File (replicate 3000000 (CHR ''a'')))\<rparr>\<rparr>"

lemma replicate_head: "0 < n \<Longrightarrow> replicate n x = x # replicate (n - 1) x"
  by (cases n) simp_all

theorem remote_edit_drops_the_rest_witness:
  "\<exists>r w'. edit_remote demo_call ''utf-8'' ''s'' ''a'' ''b'' False [] ''f'' long_world = (Done r, w') \<and> tr_success r \<and>
     wk_files (fw_worker w') [''w'', ''f''] = Text_File (CHR ''b'' # replicate 1999999 (CHR ''a''))"
proof -
  let ?t = "replicate 3000000 (CHR ''a'')"
  have u: "universal_newlines ?t = ?t" by (rule universal_newlines_id) simp
  have rep: "replicate 2000000 (CHR ''a'') = CHR ''a'' # replicate 1999999 (CHR ''a'')"
    using replicate_head [of 2000000 "CHR ''a''"] by simp
  have c: "take 2000000 (universal_newlines ?t) = CHR ''a'' # replicate 1999999 (CHR ''a'')" unfolding u by (simp add: rep)
  have r: "resolve_under_workspace (ce_disk demo_call) [''w''] ''f'' = Inr [''w'', ''f'']"
  proof -
    have "resolve_under_workspace plain_disk [''w''] ''f'' = Inr [''w'', ''f'']" by code_simp
    then show ?thesis by (simp add: demo_call_def)
  qed
  have o: "contains ''a'' (take 2000000 (universal_newlines ?t))" unfolding c contains_def by (simp add: sublist_Cons_right)
  have f: "replace_first ''a'' ''b'' (take 2000000 (universal_newlines ?t)) = CHR ''b'' # replicate 1999999 (CHR ''a'')" unfolding c by simp
  have "\<exists>r w'. edit_remote demo_call ''utf-8'' ''s'' ''a'' ''b'' False [] ''f'' long_world = (Done r, w') \<and> tr_success r \<and>
    wk_files (fw_worker w') [''w'', ''f''] = Text_File (replace_first ''a'' ''b'' (take 2000000 (universal_newlines ?t)))"
    by (intro remote_edit_drops_the_rest [OF _ r _ _ _ _ _ _ o]) (simp_all add: long_world_def demo_call_def plain_disk_def confirmed_def)
  then show ?thesis unfolding f .
qed

text \<open>A write below the session's own directory.\<close>

theorem file_writes_stay_inside_roots_witness:
  "\<exists>cap. caps_for demo_files file_ctx no_grants = Inr cap \<and> list_ex (within_root plain_host [''ws'', ''cli'', ''root'', ''f'']) (sc_writable cap)"
proof -
  let ?s = "''/ws/cli/root/f''" and ?p = "[''ws'', ''cli'', ''root'', ''f'']"
  let ?kw = "[(''path'', PyStr ?s), (''content'', PyStr ''x'')]"
  let ?w = "long_world"
  have st: "strip ?s = ?s" by (simp add: strip_id_iff_ends is_space_def)
  have cp: "call_path demo_files file_ctx ?kw False = ?s"
  proof -
    have "path_parts ?s = ?p" by code_simp
    then show ?thesis
      by (simp add: call_path_def apply_local_working_directory_def redirect_memory_md_def path_arg_def py_get_def st
          is_explicit_absolute_or_home_def)
  qed
  obtain cap where cap: "caps_for demo_files file_ctx no_grants = Inr cap" "roots_for Write cap = [[''ws'', ''cli'', ''root''], [''tmp'', ''cli'', ''root'']]"
    using demo_caps [OF demo_ctxs(1) root_names(1) strip_words demo_ctxs(7)] by blast
  have rt: "remap_tilde H Some h i ?s = Some ?s" for H h i by (simp add: remap_tilde_def st Let_def)
  have "plain_resolve ?s = ?p" by code_simp
  then have r: "resolve_tool_path plain_host Some ''.'' cap ?s = Inr ?p"
    by (simp add: resolve_tool_path_def rt) (simp add: plain_host_def)
  have "plain_path ?p" "plain_path [''ws'', ''cli'', ''root'']" by (simp_all add: plain_path_def)
  then have "within_root plain_host ?p [''ws'', ''cli'', ''root'']"
    by (simp add: within_root_def plain_host_def plain_resolve_text)
  then have "check_path demo_files Write file_ctx no_grants ?s = Inr (Some ?p)"
    by (simp add: check_path_def cap demo_parts r)
  then have ok: "allow_path demo_files demo_call ''write_file'' Write file_ctx ?s demo_broker = (Path_Ok ?p, demo_broker)"
    by (simp add: allow_path_def demo_parts)
  have m: "\<not> sub_forbids_mutation file_ctx"
    by (simp add: sub_forbids_mutation_def file_ctx_def py_get_def py_or_def lower_def lower_char_def)
  have sel: "ce_remote demo_call = None" "confirmed demo_call" "fe_allow_write demo_files" "fe_write_error demo_files ?p = None"
    "fw_broker ?w = demo_broker" "fw_files ?w ?p = No_File"
    by (simp_all add: demo_call_def confirmed_def demo_files_def long_world_def)
  have args: "path_arg ?kw = ?s" "py_get ?kw ''content'' = PyStr ''x''" by (simp_all add: path_arg_def py_get_def)
  define w' where "w' = ?w\<lparr>fw_broker := demo_broker, fw_files := (fw_files ?w)(?p := Text_File ''x'')\<rparr>"
  have "write_file demo_files demo_call file_ctx ?kw ?w = (Done (succeeded [(''path'', PyStr (path_text ?p))]), w')"
    by (simp add: write_file_def m args sel cp on_local_path_def ok finish_def write_local_def w'_def)
  moreover have "fw_files w' ?p \<noteq> fw_files ?w ?p" "wc_isolated (fe_cfg demo_files)"
    by (simp_all add: w'_def long_world_def demo_files_def plain_cfg_def)
  ultimately have "\<exists>cap. caps_for demo_files file_ctx (bs_acl (fw_broker w')) = Inr cap \<and>
      list_ex (within_root (fe_host demo_files) ?p) (sc_writable cap)"
    using file_writes_stay_inside_roots [of demo_files demo_call file_ctx ?kw ?w _ w' ?p] by blast
  then show ?thesis by (simp add: w'_def demo_parts)
qed

end
