(* ===== verification/Remote_Blobs.thy ===== *)
theory Remote_Blobs
  imports Remote_Files "HOL-Library.Word"
begin

text \<open>
  Files sent in pieces between the daemon and a worker: the binary frames
  (\<open>macchiato_remote/protocol.py\<close>), the receiving end of a pull (\<open>_PullSession\<close> in
  \<open>agent_core/remote/worker_registry.py\<close>) and its sender, and a push from the daemon into a
  worker (\<open>_IncomingPush\<close>, \<open>_handle_binary\<close>, \<open>_blob_push_begin\<close>, \<open>_blob_push_end\<close> in
  \<open>macchiato_remote/client.py\<close>).

  Bytes are words of eight bits. A disk maps paths to contents; what the system refuses, the
  digest and clock readings are parameters. A write to an open file does not fail here.
\<close>

section \<open>Frames\<close>

type_synonym bytes = "8 word list"

definition byte_of :: "char \<Rightarrow> 8 word" where "byte_of c = word_of_nat (of_char c)"

definition char_of_byte :: "8 word \<Rightarrow> char" where "char_of_byte b = char_of (unat b)"

definition ascii :: "char \<Rightarrow> bool" where "ascii c \<longleftrightarrow> (of_char c :: nat) < 128"

definition request_id_bytes :: nat where "request_id_bytes = 32"

definition normalize_blob_request_id :: "str \<Rightarrow> py_exn + str" where
  "normalize_blob_request_id request_id =
     (let raw = strip request_id
      in if \<not> list_all ascii raw then Inl (ValueError ''UnicodeEncodeError'')
         else Inr (take request_id_bytes raw @ replicate (request_id_bytes - length raw) (CHR ''0'')))"

definition to_bytes4 :: "nat \<Rightarrow> bytes" where
  "to_bytes4 n = map word_of_nat [n div 16777216, n div 65536, n div 256, n]"

definition from_bytes :: "bytes \<Rightarrow> nat" where
  "from_bytes bs = fold (\<lambda>b a. a * 256 + unat b) bs 0"

definition pack_blob_chunk :: "str \<Rightarrow> nat \<Rightarrow> bytes \<Rightarrow> py_exn + bytes" where
  "pack_blob_chunk request_id seq payload =
     (case normalize_blob_request_id request_id of Inl e \<Rightarrow> Inl e
      | Inr rid \<Rightarrow>
          if 4294967295 < seq then Inl (ValueError ''BLOB_SEQ_OUT_OF_RANGE'')
          else Inr (map byte_of rid @ to_bytes4 seq @ payload))"

definition unpack_blob_chunk :: "bytes \<Rightarrow> py_exn + str \<times> nat \<times> bytes" where
  "unpack_blob_chunk frame =
     (if length frame < 36 then Inl (ValueError ''BLOB_FRAME_TOO_SHORT'')
      else let rid = take 32 frame
           in if \<not> list_all (\<lambda>b. unat b < 128) rid then Inl (ValueError ''UnicodeDecodeError'')
              else Inr (map char_of_byte rid, from_bytes (take 4 (drop 32 frame)), drop 36 frame))"

definition hex_char :: "char \<Rightarrow> bool" where
  "hex_char c \<longleftrightarrow> c \<in> set ''0123456789abcdefABCDEF''"

definition looks_like_blob_chunk :: "bytes \<Rightarrow> bool" where
  "looks_like_blob_chunk frame \<longleftrightarrow>
     36 \<le> length frame \<and> hd frame \<notin> {byte_of (CHR ''{''), byte_of (CHR ''['')} \<and>
     list_all (\<lambda>b. unat b < 128) (take 32 frame) \<and> list_all hex_char (map char_of_byte (take 32 frame))"

definition encode_file_too_large :: "int \<Rightarrow> int \<Rightarrow> str" where
  "encode_file_too_large actual limit = ''FILE_TOO_LARGE:'' @ int_str actual @ '':'' @ int_str limit"

definition parse_file_too_large :: "str option \<Rightarrow> (int \<times> int) option" where
  "parse_file_too_large error =
     (let raw = strip (opt_str error)
      in if \<not> prefix ''FILE_TOO_LARGE:'' raw then None
         else case split_on (CHR '':'') raw of
           _ # a # b # _ \<Rightarrow> (case (int_of_str a, int_of_str b) of (Some x, Some y) \<Rightarrow> Some (x, y) | _ \<Rightarrow> None)
         | _ \<Rightarrow> None)"

section \<open>Receiving a pull\<close>

record pull_outcome =
  po_dest :: "path option"
  po_name :: str
  po_mime :: str
  po_bytes :: int
  po_sha :: str
  po_error :: "str option"

definition octet_stream :: str where "octet_stream = ''application/octet-stream''"

definition failed_pull :: "str \<Rightarrow> str \<Rightarrow> pull_outcome" where
  "failed_pull name e = \<lparr>po_dest = None, po_name = name, po_mime = octet_stream, po_bytes = 0, po_sha = [], po_error = Some e\<rparr>"

record pull_session =
  ps_dest :: path
  ps_tmp :: path
  ps_open :: bool
  ps_hashed :: bytes
  ps_next :: nat
  ps_written :: nat
  ps_expected :: "int option"
  ps_name :: str
  ps_mime :: str
  ps_last :: real
  ps_done :: "pull_outcome option"

definition new_pull :: "path \<Rightarrow> str \<Rightarrow> real \<Rightarrow> pull_session" where
  "new_pull dest request_id now =
     \<lparr>ps_dest = dest, ps_tmp = butlast dest @ [last dest @ ''.'' @ take 8 request_id @ ''.part''], ps_open = False, ps_hashed = [],
      ps_next = 0, ps_written = 0, ps_expected = None, ps_name = last dest, ps_mime = octet_stream, ps_last = now, ps_done = None\<rparr>"

type_synonym disk = "path \<Rightarrow> bytes option"

record blob_host =
  bh_open_error :: "path \<Rightarrow> str option"
  bh_replace_error :: "path \<Rightarrow> str option"
  bh_sha :: "bytes \<Rightarrow> str"

definition pull_fail :: "str \<Rightarrow> pull_session \<times> disk \<Rightarrow> pull_session \<times> disk" where
  "pull_fail e sd =
     (case sd of (s, d) \<Rightarrow>
        (s\<lparr>ps_open := False, ps_done := (if ps_done s = None then Some (failed_pull (ps_name s) e) else ps_done s)\<rparr>, d(ps_tmp s := None)))"

definition seq_gap :: "nat \<Rightarrow> nat \<Rightarrow> str" where
  "seq_gap expected got = ''BLOB_SEQ_GAP: expected '' @ int_str (int expected) @ '' got '' @ int_str (int got)"

definition sha_mismatch :: "str \<Rightarrow> str \<Rightarrow> str" where
  "sha_mismatch actual expected = ''BLOB_SHA256_MISMATCH: '' @ actual @ '' != '' @ expected"

definition size_mismatch :: "nat \<Rightarrow> int \<Rightarrow> str" where
  "size_mismatch written expected = ''BLOB_SIZE_MISMATCH: '' @ int_str (int written) @ '' != '' @ int_str expected"

text \<open>A number that is none raises; the flag tells the connection.\<close>

definition pull_begin :: "blob_host \<Rightarrow> real \<Rightarrow> (str, pyval) dict \<Rightarrow> pull_session \<times> disk \<Rightarrow> py_exn option \<times> pull_session \<times> disk" where
  "pull_begin H now payload sd =
     (case sd of (s, d) \<Rightarrow>
        (let s = s\<lparr>ps_last := now\<rparr>; err = py_get payload ''error''
         in if truthy err then (None, pull_fail (py_str err) (s, d))
            else case py_int (py_or (py_get payload ''size'') (PyInt 0)) of
              Inl e \<Rightarrow> (Some e, s, d)
            | Inr n \<Rightarrow>
                (let s = s\<lparr>ps_expected := Some n, ps_name := text_or payload ''file_name'' (ps_name s),
                           ps_mime := text_or payload ''mime_type'' (ps_mime s)\<rparr>
                 in case bh_open_error H (ps_tmp s) of
                      Some e \<Rightarrow> (None, pull_fail e (s, d))
                    | None \<Rightarrow> (None, s\<lparr>ps_open := True\<rparr>, d(ps_tmp s := Some [])))))"

definition pull_chunk :: "real \<Rightarrow> nat \<Rightarrow> bytes \<Rightarrow> pull_session \<times> disk \<Rightarrow> pull_session \<times> disk" where
  "pull_chunk now seq payload sd =
     (case sd of (s, d) \<Rightarrow>
        (let s = s\<lparr>ps_last := now\<rparr>
         in if \<not> ps_open s then pull_fail ''BLOB_BEGIN_MISSING'' (s, d)
            else if seq \<noteq> ps_next s then pull_fail (seq_gap (ps_next s) seq) (s, d)
            else (s\<lparr>ps_hashed := ps_hashed s @ payload, ps_written := ps_written s + length payload, ps_next := Suc (ps_next s)\<rparr>,
                  d(ps_tmp s := map_option (\<lambda>c. c @ payload) (d (ps_tmp s))))))"

definition pull_end :: "blob_host \<Rightarrow> real \<Rightarrow> (str, pyval) dict \<Rightarrow> pull_session \<times> disk \<Rightarrow> py_exn option \<times> pull_session \<times> disk" where
  "pull_end H now payload sd =
     (case sd of (s, d) \<Rightarrow>
        (let s = s\<lparr>ps_last := now\<rparr>; err = py_get payload ''error''
         in if truthy err then (None, pull_fail (py_str err) (s, d))
            else if \<not> ps_open s \<and> ps_expected s \<noteq> None \<and> ps_expected s \<noteq> Some 0 then (None, pull_fail ''BLOB_BEGIN_MISSING'' (s, d))
            else let s = s\<lparr>ps_open := False\<rparr>; actual = bh_sha H (ps_hashed s); expected = lower (clean_str (py_get payload ''sha256''))
              in case py_int (py_or (py_get payload ''total_bytes'') (PyInt (int (ps_written s)))) of
                   Inl e \<Rightarrow> (Some e, s, d)
                 | Inr count \<Rightarrow>
                     if expected \<noteq> [] \<and> actual \<noteq> expected then (None, pull_fail (sha_mismatch actual expected) (s, d))
                     else if ps_expected s \<noteq> None \<and> ps_expected s \<noteq> Some (int (ps_written s)) then (None, pull_fail (size_mismatch (ps_written s) (the (ps_expected s))) (s, d))
                     else case d (ps_tmp s) of
                       None \<Rightarrow> (None, pull_fail ''No such file or directory'' (s, d))
                     | Some content \<Rightarrow>
                         (case bh_replace_error H (ps_dest s) of
                            Some e \<Rightarrow> (None, pull_fail e (s, d))
                          | None \<Rightarrow>
                              (None,
                               s\<lparr>ps_done := (if ps_done s \<noteq> None then ps_done s
                                   else Some \<lparr>po_dest = Some (ps_dest s), po_name = text_or payload ''file_name'' (ps_name s),
                                          po_mime = text_or payload ''mime_type'' (ps_mime s), po_bytes = count, po_sha = actual, po_error = None\<rparr>)\<rparr>,
                               d(ps_tmp s := None, ps_dest s := Some content)))))"

definition idle_timeout :: real where "idle_timeout = 30"

text \<open>The watchdog between two sleeps.\<close>

definition pull_idle :: "real \<Rightarrow> pull_session \<times> disk \<Rightarrow> pull_session \<times> disk" where
  "pull_idle now sd =
     (case sd of (s, d) \<Rightarrow>
        if ps_done s = None \<and> now - ps_last s > idle_timeout then pull_fail ''blob stream idle timeout'' (s, d) else (s, d))"

datatype pull_event = Blob_Begin "(str, pyval) dict" | Blob_Chunk nat bytes | Blob_End "(str, pyval) dict" | Blob_Tick | Blob_Broken str

definition pull_step :: "blob_host \<Rightarrow> real \<times> pull_event \<Rightarrow> pull_session \<times> disk \<Rightarrow> pull_session \<times> disk" where
  "pull_step H te sd =
     (case te of (now, ev) \<Rightarrow>
        (case ev of
           Blob_Begin p \<Rightarrow> snd (pull_begin H now p sd)
         | Blob_Chunk n b \<Rightarrow> pull_chunk now n b sd
         | Blob_End p \<Rightarrow> snd (pull_end H now p sd)
         | Blob_Tick \<Rightarrow> pull_idle now sd
         | Blob_Broken e \<Rightarrow> pull_fail e sd))"

section \<open>Sending\<close>

definition chunk_bytes :: nat where "chunk_bytes = 1048576"

definition stream_max :: int where "stream_max = 1073741824"

function read_chunks :: "nat \<Rightarrow> bytes \<Rightarrow> bytes list" where
  "read_chunks k bs = (if bs = [] \<or> k = 0 then [] else take k bs # read_chunks k (drop k bs))"
  by pat_completeness auto
termination by (relation "measure (\<lambda>(k, bs). length bs)") auto

text \<open>\<open>min(max(1, int(x or limit)), limit)\<close>\<close>

definition blob_limit :: "int \<Rightarrow> int" where
  "blob_limit x = min (max 1 (if x = 0 then stream_max else x)) stream_max"

datatype wire = Json str "(str, pyval) dict" | Binary bytes

text \<open>The frames sent, and the exception that stopped them.\<close>

fun pack_all :: "str \<Rightarrow> nat \<Rightarrow> bytes list \<Rightarrow> bytes list \<times> py_exn option" where
  "pack_all rid seq [] = ([], None)"
| "pack_all rid seq (c # cs) =
     (case pack_blob_chunk rid seq c of Inl e \<Rightarrow> ([], Some e)
      | Inr f \<Rightarrow> (case pack_all rid (Suc seq) cs of (fs, e) \<Rightarrow> (f # fs, e)))"

definition blob_begin_payload :: "str \<Rightarrow> str \<Rightarrow> str \<Rightarrow> str \<Rightarrow> int \<Rightarrow> (str, pyval) dict" where
  "blob_begin_payload rid path name mime n =
     [(''request_id'', PyStr rid), (''path'', PyStr path), (''file_name'', PyStr name), (''mime_type'', PyStr mime),
      (''size'', PyInt n), (''chunk_bytes'', PyInt (int chunk_bytes)), (''error'', PyNone)]"

definition blob_end_payload :: "str \<Rightarrow> int \<Rightarrow> str \<Rightarrow> str \<Rightarrow> str \<Rightarrow> pyval \<Rightarrow> (str, pyval) dict" where
  "blob_end_payload rid n sha name mime err =
     [(''request_id'', PyStr rid), (''total_bytes'', PyInt n), (''sha256'', PyStr sha), (''file_name'', PyStr name),
      (''mime_type'', PyStr mime), (''error'', err)]"

definition blob_error :: "str \<Rightarrow> str \<Rightarrow> wire" where
  "blob_error rid e = Json ''blob_end'' (blob_end_payload rid 0 [] [] octet_stream (PyStr e))"

definition path_name :: "path \<Rightarrow> str" where "path_name p = (if p = [] then [] else last p)"

text \<open>What the worker sends for a pull: an error, or the announcement, the pieces and the end; an exception
  leaves the message loop. The path names a file that can be read, or none.\<close>

definition blob_pull :: "worker_disk \<Rightarrow> (bytes \<Rightarrow> str) \<Rightarrow> (str \<Rightarrow> str) \<Rightarrow> disk \<Rightarrow> path option \<Rightarrow> str \<Rightarrow> str \<Rightarrow> int \<Rightarrow> wire list \<times> py_exn option" where
  "blob_pull D sha mime_type files session rid path max_bytes =
     (case session of None \<Rightarrow> ([blob_error rid not_open_error], None)
      | Some base \<Rightarrow>
          (case resolve_under_workspace D base path of
             Inl (ValueError e) \<Rightarrow> ([blob_error rid e], None)
           | Inl e \<Rightarrow> ([], Some e)
           | Inr p \<Rightarrow>
               (case files p of None \<Rightarrow> ([blob_error rid ''FILE_NOT_FOUND''], None)
                | Some content \<Rightarrow>
                    (let limit = blob_limit max_bytes; n = int (length content);
                         name = path_name p; mime = str_or (mime_type name) octet_stream
                     in if n > limit
                        then ([Json ''blob_end'' (blob_end_payload rid n [] name mime (PyStr (encode_file_too_large n limit)))], None)
                        else case pack_all rid 0 (read_chunks chunk_bytes content) of (fs, exn) \<Rightarrow>
                          (Json ''blob_begin'' (blob_begin_payload rid path name mime n) # map Binary fs @
                             (if exn = None then [Json ''blob_end'' (blob_end_payload rid n (sha content) name mime PyNone)] else []),
                           exn)))))"

section \<open>Receiving a push\<close>

record push_session =
  pu_id :: str
  pu_dest :: path
  pu_tmp :: path
  pu_expected :: int
  pu_append :: bool
  pu_hashed :: bytes
  pu_next :: nat
  pu_written :: nat

type_synonym pushes = "(str, push_session) dict"

record push_result =
  pr_path :: str
  pr_written :: int
  pr_error :: "str option"

text \<open>The answer is the error, or nothing when the worker is ready.\<close>

definition push_begin :: "worker_disk \<Rightarrow> blob_host \<Rightarrow> path option \<Rightarrow> str \<Rightarrow> str \<Rightarrow> int \<Rightarrow> int \<Rightarrow> bool \<Rightarrow> pushes \<times> disk \<Rightarrow> (py_exn + str option) \<times> pushes \<times> disk" where
  "push_begin D H session request_id path size_bytes max_bytes appending pd =
     (case pd of (ps, d) \<Rightarrow>
        (case normalize_blob_request_id request_id of Inl e \<Rightarrow> (Inl e, pd)
         | Inr rid \<Rightarrow>
             (case session of None \<Rightarrow> (Inr (Some not_open_error), pd)
              | Some base \<Rightarrow>
                  if size_bytes > blob_limit max_bytes then (Inr (Some (encode_file_too_large size_bytes (blob_limit max_bytes))), pd)
                  else case resolve_under_workspace D base path of
                    Inl (ValueError e) \<Rightarrow> (Inr (Some e), pd)
                  | Inl e \<Rightarrow> (Inl e, pd)
                  | Inr dest \<Rightarrow>
                      if dest = [] then (Inl (ValueError ''has an empty name''), pd) else
                      (let tmp = butlast dest @ [last dest @ ''.'' @ take 8 rid @ ''.part'']
                       in case bh_open_error H tmp of
                            Some e \<Rightarrow> (Inr (Some e), pd)
                          | None \<Rightarrow>
                              (let d1 = d(tmp := Some []);
                                   d2 = (case map_of ps rid of None \<Rightarrow> d1 | Some old \<Rightarrow> d1(pu_tmp old := None))
                               in (Inr None,
                                   dset rid (\<lparr>pu_id = request_id, pu_dest = dest, pu_tmp = tmp, pu_expected = size_bytes, pu_append = appending,
                                      pu_hashed = [], pu_next = 0, pu_written = 0\<rparr>) (dpop rid ps), d2))))))"

text \<open>A frame: what is sent back, if anything.\<close>

definition push_chunk :: "bytes \<Rightarrow> pushes \<times> disk \<Rightarrow> push_result option \<times> pushes \<times> disk" where
  "push_chunk frame pd =
     (case pd of (ps, d) \<Rightarrow>
        (case unpack_blob_chunk frame of Inl _ \<Rightarrow> (None, pd)
         | Inr (request_id, seq, payload) \<Rightarrow>
             (case normalize_blob_request_id request_id of Inl _ \<Rightarrow> (None, pd)
              | Inr rid \<Rightarrow>
                  (case map_of ps rid of None \<Rightarrow> (None, pd)
                   | Some s \<Rightarrow>
                       if seq \<noteq> pu_next s
                       then (Some \<lparr>pr_path = path_text (pu_dest s), pr_written = 0, pr_error = Some (seq_gap (pu_next s) seq)\<rparr>, dpop rid ps, d(pu_tmp s := None))
                       else
                         (let n = pu_written s + length payload
                          in if int n > pu_expected s
                             then (Some \<lparr>pr_path = path_text (pu_dest s), pr_written = 0, pr_error = Some ''BLOB_SIZE_EXCEEDED''\<rparr>,
                                   dpop rid ps, d(pu_tmp s := None))
                             else (None,
                                   dset rid (s\<lparr>pu_hashed := pu_hashed s @ payload, pu_written := n, pu_next := Suc (pu_next s)\<rparr>) ps,
                                   d(pu_tmp s := map_option (\<lambda>c. c @ payload) (d (pu_tmp s)))))))))"

definition push_end :: "blob_host \<Rightarrow> str \<Rightarrow> str \<Rightarrow> pushes \<times> disk \<Rightarrow> (py_exn + push_result) \<times> pushes \<times> disk" where
  "push_end H request_id sha pd =
     (case pd of (ps, d) \<Rightarrow>
        (case normalize_blob_request_id request_id of Inl e \<Rightarrow> (Inl e, pd)
         | Inr rid \<Rightarrow>
             (case map_of ps rid of
                None \<Rightarrow> (Inr \<lparr>pr_path = [], pr_written = 0, pr_error = Some ''BLOB_PUSH_SESSION_MISSING''\<rparr>, pd)
              | Some s \<Rightarrow>
                  (let ps' = dpop rid ps; expected = lower (strip sha); give_up = d(pu_tmp s := None);
                       failure = (\<lambda>e. (Inr \<lparr>pr_path = path_text (pu_dest s), pr_written = 0, pr_error = Some e\<rparr>, ps', give_up))
                   in if expected \<noteq> [] \<and> bh_sha H (pu_hashed s) \<noteq> expected then failure (sha_mismatch (bh_sha H (pu_hashed s)) expected)
                      else if int (pu_written s) \<noteq> pu_expected s then failure (size_mismatch (pu_written s) (pu_expected s))
                      else case d (pu_tmp s) of None \<Rightarrow> failure ''No such file or directory''
                      | Some content \<Rightarrow>
                          (case bh_replace_error H (pu_dest s) of Some e \<Rightarrow> failure e
                           | None \<Rightarrow>
                               (Inr \<lparr>pr_path = path_text (pu_dest s), pr_written = int (pu_written s), pr_error = None\<rparr>, ps',
                                d(pu_tmp s := None,
                                  pu_dest s := Some (if pu_append s then (case d (pu_dest s) of None \<Rightarrow> [] | Some old \<Rightarrow> old) @ content
                                                     else content))))))))"

definition push_abort :: "pushes \<times> disk \<Rightarrow> pushes \<times> disk" where
  "push_abort pd = (case pd of (ps, d) \<Rightarrow> ([], fold (\<lambda>s d. d(pu_tmp s := None)) (map snd ps) d))"

section \<open>Frames keep their contents\<close>

lemma unat_byte: "unat (word_of_nat n :: 8 word) = n mod 256"
  by (simp add: unsigned_of_nat take_bit_eq_mod)

lemma from_to_bytes4:
  assumes "n < 4294967296"
  shows "from_bytes (to_bytes4 n) = n"
proof -
  have "n div 16777216 mod 256 * 16777216 + n div 65536 mod 256 * 65536 + n div 256 mod 256 * 256 + n mod 256 = n"
  proof -
    have "n = 256 * (n div 256) + n mod 256" "n div 256 = 256 * (n div 65536) + n div 256 mod 256"
      "n div 65536 = 256 * (n div 16777216) + n div 65536 mod 256"
      using div_mult2_eq [of n 256 256] div_mult2_eq [of n 65536 256] mult_div_mod_eq [of 256 n]
        mult_div_mod_eq [of 256 "n div 256"] mult_div_mod_eq [of 256 "n div 65536"] by simp_all
    moreover have "n div 16777216 mod 256 = n div 16777216" using assms by simp
    ultimately show ?thesis by linarith
  qed
  moreover have "n div 16777216 mod 256 = n div 16777216" using assms by simp
  ultimately show ?thesis by (simp add: from_bytes_def to_bytes4_def unat_byte algebra_simps)
qed

lemma length_to_bytes4 [simp]: "length (to_bytes4 n) = 4"
  by (simp add: to_bytes4_def)

lemma byte_char: "ascii c \<Longrightarrow> unat (byte_of c) < 128 \<and> char_of_byte (byte_of c) = c"
  by (simp add: byte_of_def char_of_byte_def ascii_def unat_byte)

lemma normalize_id:
  assumes "normalize_blob_request_id r = Inr rid"
  shows "length rid = 32" "list_all ascii rid"
  using assms by (auto simp: normalize_blob_request_id_def request_id_bytes_def Let_def list_all_iff ascii_def
      split: if_splits dest!: in_set_takeD)

lemma unpack_pack:
  assumes "pack_blob_chunk r seq payload = Inr frame" "normalize_blob_request_id r = Inr rid"
  shows "unpack_blob_chunk frame = Inr (rid, seq, payload)"
proof -
  note n = normalize_id [OF assms(2)]
  have f: "frame = map byte_of rid @ to_bytes4 seq @ payload" "seq < 4294967296"
    using assms by (auto simp: pack_blob_chunk_def split: if_splits)
  have t: "take 32 frame = map byte_of rid" "drop 32 frame = to_bytes4 seq @ payload" "drop 36 frame = payload" "36 \<le> length frame"
    by (simp_all add: f n)
  have "map (char_of_byte \<circ> byte_of) rid = rid" "list_all (\<lambda>b. unat b < 128) (map byte_of rid)"
    using n(2) byte_char by (auto simp: list_all_iff map_idI)
  then show ?thesis using t(4) by (simp add: unpack_blob_chunk_def t(1-3) from_to_bytes4 [OF f(2)] Let_def)
qed

section \<open>What a pull leaves on the disk\<close>

lemma tmp_not_dest: "butlast p @ [last p @ ''.'' @ x @ ''.part''] \<noteq> p"
  by (cases p rule: rev_cases) auto

fun is_begin :: "pull_event \<Rightarrow> bool" where
  "is_begin (Blob_Begin _) = True"
| "is_begin _ = False"

definition numbered :: "bytes list \<Rightarrow> pull_event list" where
  "numbered cs = map (\<lambda>(i, c). Blob_Chunk i c) (enumerate 0 cs)"

text \<open>The size was size_announced; the end of the stream does not contradict the digest.\<close>

definition size_announced :: "(real \<times> pull_event) list \<Rightarrow> int \<Rightarrow> bool" where
  "size_announced evs n \<longleftrightarrow> (\<exists>p. Blob_Begin p \<in> snd ` set evs \<and> \<not> truthy (py_get p ''error'') \<and>
     py_int (py_or (py_get p ''size'') (PyInt 0)) = Inr n)"

definition vouched :: "blob_host \<Rightarrow> (real \<times> pull_event) list \<Rightarrow> bytes \<Rightarrow> bool" where
  "vouched H evs content \<longleftrightarrow> (\<exists>p. Blob_End p \<in> snd ` set evs \<and> \<not> truthy (py_get p ''error'') \<and>
     lower (clean_str (py_get p ''sha256'')) \<in> {[], bh_sha H content})"

definition whole :: "blob_host \<Rightarrow> (real \<times> pull_event) list \<Rightarrow> bytes \<Rightarrow> bool" where
  "whole H evs content \<longleftrightarrow> size_announced evs (int (length content)) \<and> vouched H evs content \<and>
     (\<exists>cs. content = concat cs \<and> subseq (numbered cs) (map snd evs))"

lemma numbered_snoc: "numbered (cs @ [c]) = numbered cs @ [Blob_Chunk (length cs) c]"
  by (simp add: numbered_def enumerate_append_eq)

lemma subseq_more: "subseq xs ys \<Longrightarrow> subseq xs (ys @ zs)"
  using list_emb_append_mono [of "(=)" xs ys "[]" zs] by simp

lemma size_announced_more: "size_announced evs n \<Longrightarrow> size_announced (evs @ [e]) n"
  by (auto simp: size_announced_def)

lemma whole_more: "whole H evs c \<Longrightarrow> whole H (evs @ [e]) c"
  by (auto simp: whole_def size_announced_def vouched_def intro: subseq_more)

text \<open>
  The temporary file is absent or holds what was hashed, and only after an announcement; the
  destination is as it was or holds a whole file, and no other file changes.
\<close>

type_synonym pull_history = "(real \<times> pull_event) list"

definition begun :: "pull_history \<Rightarrow> bool" where "begun evs \<longleftrightarrow> list_ex is_begin (map snd evs)"

definition tmp_ok :: "disk \<Rightarrow> pull_session \<Rightarrow> bool" where
  "tmp_ok d s \<longleftrightarrow> ps_dest s \<noteq> ps_tmp s \<and> (ps_open s \<longrightarrow> d (ps_tmp s) \<noteq> None) \<and>
     (d (ps_tmp s) \<noteq> None \<longrightarrow> d (ps_tmp s) = Some (ps_hashed s) \<and> ps_expected s \<noteq> None)"

definition received :: "pull_history \<Rightarrow> pull_session \<Rightarrow> bool" where
  "received evs s \<longleftrightarrow> ps_written s = length (ps_hashed s) \<and>
     (\<exists>cs. length cs = ps_next s \<and> concat cs = ps_hashed s \<and> subseq (numbered cs) (map snd evs))"

definition untouched :: "pull_history \<Rightarrow> disk \<Rightarrow> pull_session \<Rightarrow> bool" where
  "untouched evs d s \<longleftrightarrow> begun evs \<or> ps_next s = 0 \<and> d (ps_tmp s) = None"

definition size_known :: "pull_history \<Rightarrow> pull_session \<Rightarrow> bool" where
  "size_known evs s \<longleftrightarrow> (\<forall>n. ps_expected s = Some n \<longrightarrow> size_announced evs n)"

definition dest_ok :: "blob_host \<Rightarrow> disk \<Rightarrow> pull_history \<Rightarrow> disk \<Rightarrow> pull_session \<Rightarrow> bool" where
  "dest_ok H d0 evs d s \<longleftrightarrow> (\<forall>p. p \<noteq> ps_dest s \<longrightarrow> p \<noteq> ps_tmp s \<longrightarrow> d p = d0 p) \<and>
     (d (ps_dest s) \<noteq> d0 (ps_dest s) \<longrightarrow> (\<exists>c. d (ps_dest s) = Some c \<and> whole H evs c))"

definition success_ok :: "blob_host \<Rightarrow> pull_history \<Rightarrow> disk \<Rightarrow> pull_session \<Rightarrow> bool" where
  "success_ok H evs d s \<longleftrightarrow> (\<forall>out. ps_done s = Some out \<longrightarrow> po_error out = None \<longrightarrow>
     d (ps_tmp s) = None \<and> begun evs \<and> po_dest out = Some (ps_dest s) \<and>
     (\<exists>c. d (ps_dest s) = Some c \<and> whole H evs c \<and> po_sha out = bh_sha H c))"

definition pull_inv :: "blob_host \<Rightarrow> disk \<Rightarrow> pull_history \<Rightarrow> pull_session \<times> disk \<Rightarrow> bool" where
  "pull_inv H d0 evs sd \<longleftrightarrow>
     (case sd of (s, d) \<Rightarrow> tmp_ok d s \<and> received evs s \<and> untouched evs d s \<and> size_known evs s \<and> dest_ok H d0 evs d s \<and> success_ok H evs d s)"

lemmas pull_parts = tmp_ok_def received_def untouched_def size_known_def dest_ok_def success_ok_def

lemma begun_more: "begun evs \<Longrightarrow> begun (evs @ [e])"
  by (simp add: begun_def)

lemma received_more: "received evs s \<Longrightarrow> received (evs @ [e]) s"
proof -
  assume "received evs s"
  then obtain cs where "ps_written s = length (ps_hashed s)" "length cs = ps_next s" "concat cs = ps_hashed s"
    "subseq (numbered cs) (map snd evs)" by (auto simp: received_def)
  moreover from this(4) have "subseq (numbered cs) (map snd (evs @ [e]))" using subseq_more by simp
  ultimately show ?thesis unfolding received_def by blast
qed

lemma pull_inv_more: "pull_inv H d0 evs (s, d) \<Longrightarrow> pull_inv H d0 (evs @ [e]) (s, d)"
  unfolding pull_inv_def prod.case
proof (elim conjE, intro conjI)
  show "dest_ok H d0 evs d s \<Longrightarrow> dest_ok H d0 (evs @ [e]) d s" unfolding dest_ok_def by (blast intro: whole_more)
  show "success_ok H evs d s \<Longrightarrow> success_ok H (evs @ [e]) d s" unfolding success_ok_def by (blast intro: whole_more begun_more)
qed (auto simp: untouched_def size_known_def begun_more size_announced_more received_more)

lemma pull_inv_touch: "pull_inv H d0 evs (s, d) \<Longrightarrow> pull_inv H d0 evs (s\<lparr>ps_last := t\<rparr>, d)"
  by (simp add: pull_inv_def pull_parts)

lemma pull_inv_fail: "pull_inv H d0 evs (s, d) \<Longrightarrow> pull_inv H d0 evs (pull_fail e (s, d))"
  unfolding pull_inv_def pull_fail_def prod.case
proof (elim conjE, intro conjI)
  assume a: "tmp_ok d s" "success_ok H evs d s"
  then show "success_ok H evs (d(ps_tmp s := None)) (s\<lparr>ps_open := False,
      ps_done := (if ps_done s = None then Some (failed_pull (ps_name s) e) else ps_done s)\<rparr>)"
    by (auto simp: success_ok_def tmp_ok_def failed_pull_def)
qed (auto simp: tmp_ok_def received_def untouched_def size_known_def dest_ok_def)

lemma pull_inv_new:
  assumes "d (ps_tmp (new_pull dest rid now)) = None"
  shows "pull_inv H d [] (new_pull dest rid now, d)"
  using assms tmp_not_dest [of dest "take 8 rid", THEN not_sym] unfolding pull_inv_def prod.case pull_parts new_pull_def
  by (auto simp: numbered_def begun_def)

lemma pull_inv_chunk:
  assumes "pull_inv H d0 evs (s, d)"
  shows "pull_inv H d0 (evs @ [(t, Blob_Chunk seq b)]) (pull_chunk t seq b (s, d))"
proof -
  let ?s = "s\<lparr>ps_last := t\<rparr>"
  have I: "pull_inv H d0 (evs @ [(t, Blob_Chunk seq b)]) (?s, d)" using assms by (intro pull_inv_touch pull_inv_more)
  show ?thesis
  proof (cases "ps_open s \<and> seq = ps_next s")
    case False
    then show ?thesis using pull_inv_fail [OF I] by (auto simp: pull_chunk_def Let_def)
  next
    case True
    let ?s' = "?s\<lparr>ps_hashed := ps_hashed s @ b, ps_written := ps_written s + length b, ps_next := Suc (ps_next s)\<rparr>"
    let ?d' = "d(ps_tmp s := map_option (\<lambda>c. c @ b) (d (ps_tmp s)))"
    have p: "tmp_ok d s" "received evs s" using assms by (simp_all add: pull_inv_def)
    obtain cs where cs: "length cs = ps_next s" "concat cs = ps_hashed s" "subseq (numbered cs) (map snd evs)"
      using p(2) by (auto simp: received_def)
    have "subseq (numbered (cs @ [b])) (map snd (evs @ [(t, Blob_Chunk seq b)]))"
      using cs(1,3) True by (simp add: numbered_snoc list_emb_append_mono)
    then have r: "received (evs @ [(t, Blob_Chunk seq b)]) ?s'"
      using p(2) cs(1,2) by (auto simp: received_def intro!: exI [of _ "cs @ [b]"])
    have o: "d (ps_tmp s) = Some (ps_hashed s)" "ps_dest s \<noteq> ps_tmp s" using p(1) True by (auto simp: tmp_ok_def)
    have "begun evs" using assms o(1) by (auto simp: pull_inv_def untouched_def)
    then have "pull_inv H d0 (evs @ [(t, Blob_Chunk seq b)]) (?s', ?d')"
      using I r o True unfolding pull_inv_def prod.case
      by (auto simp: tmp_ok_def untouched_def size_known_def dest_ok_def success_ok_def begun_more)
    then show ?thesis using True by (simp add: pull_chunk_def Let_def)
  qed
qed

lemma pull_inv_begin:
  assumes "pull_inv H d0 evs (s, d)" "\<not> begun evs"
  shows "pull_inv H d0 (evs @ [(t, Blob_Begin p)]) (snd (pull_begin H t p (s, d)))"
proof -
  let ?e = "(t, Blob_Begin p)" and ?s = "s\<lparr>ps_last := t\<rparr>"
  have I: "pull_inv H d0 (evs @ [?e]) (?s, d)" using assms by (intro pull_inv_touch pull_inv_more)
  show ?thesis
  proof (cases "truthy (py_get p ''error'')")
    case True
    then show ?thesis using pull_inv_fail [OF I] by (simp add: pull_begin_def Let_def)
  next
    case ok: False
    show ?thesis
    proof (cases "py_int (py_or (py_get p ''size'') (PyInt 0))")
      case (Inl e)
      then show ?thesis using I ok by (simp add: pull_begin_def Let_def)
    next
      case (Inr n)
      let ?s' = "?s\<lparr>ps_expected := Some n, ps_name := text_or p ''file_name'' (ps_name s), ps_mime := text_or p ''mime_type'' (ps_mime s)\<rparr>"
      have a: "size_announced (evs @ [?e]) n" using ok Inr by (auto simp: size_announced_def)
      have I': "pull_inv H d0 (evs @ [?e]) (?s', d)"
        using I a unfolding pull_inv_def prod.case by (auto simp: pull_parts)
      have n: "ps_next s = 0" "ps_hashed s = []" "d (ps_tmp s) = None"
        using assms by (auto simp: pull_inv_def untouched_def received_def)
      show ?thesis
      proof (cases "bh_open_error H (ps_tmp s)")
        case (Some e)
        then show ?thesis using pull_inv_fail [OF I'] ok Inr by (simp add: pull_begin_def Let_def)
      next
        case None
        have "begun (evs @ [?e])" by (simp add: begun_def)
        moreover have "ps_done s = Some out \<Longrightarrow> po_error out \<noteq> None" for out
          using assms by (auto simp: pull_inv_def success_ok_def)
        ultimately have "pull_inv H d0 (evs @ [?e]) (?s'\<lparr>ps_open := True\<rparr>, d(ps_tmp s := Some []))"
          using I' n unfolding pull_inv_def prod.case
          by (auto simp: tmp_ok_def received_def untouched_def size_known_def dest_ok_def success_ok_def)
        then show ?thesis using ok Inr None by (simp add: pull_begin_def Let_def)
      qed
    qed
  qed
qed

lemma pull_inv_replaced:
  assumes I: "pull_inv H d0 evs (s, d)" and s: "\<not> ps_open s" "d (ps_tmp s) = Some content" "whole H evs content" "begun evs"
    and c: "content = ps_hashed s"
    and outcome: "\<And>out. outcome = Some out \<Longrightarrow> po_error out = None \<Longrightarrow> po_dest out = Some (ps_dest s) \<and> po_sha out = bh_sha H (ps_hashed s)"
  shows "pull_inv H d0 evs (s\<lparr>ps_done := outcome\<rparr>, d(ps_tmp s := None, ps_dest s := Some content))"
  unfolding pull_inv_def prod.case
proof (intro conjI)
  let ?s = "s\<lparr>ps_done := outcome\<rparr>" and ?d = "d(ps_tmp s := None, ps_dest s := Some content)"
  have p: "tmp_ok d s" "received evs s" "size_known evs s" "dest_ok H d0 evs d s" using I by (simp_all add: pull_inv_def)
  have ne: "ps_tmp s \<noteq> ps_dest s" using p(1) by (auto simp: tmp_ok_def)
  show "tmp_ok ?d ?s" using ne s(1) by (simp add: tmp_ok_def)
  show "received evs ?s" using p(2) by (simp add: received_def)
  show "untouched evs ?d ?s" using s(4) by (simp add: untouched_def)
  show "size_known evs ?s" using p(3) by (simp add: size_known_def)
  show "dest_ok H d0 evs ?d ?s" using p(4) s(3) by (simp add: dest_ok_def)
  show "success_ok H evs ?d ?s" using ne s(3,4) outcome c by (auto simp: success_ok_def)
qed

lemma pull_end_cases:
  fixes s d t p H
  defines "s1 \<equiv> s\<lparr>ps_last := t\<rparr>" and "s2 \<equiv> s\<lparr>ps_last := t, ps_open := False\<rparr>" and "r \<equiv> snd (pull_end H t p (s, d))"
  obtains (bad) e x where "x \<in> {s1, s2}" "r = pull_fail e (x, d)"
  | (raised) "r = (s2, d)"
  | (fine) content count where "\<not> truthy (py_get p ''error'')" "lower (clean_str (py_get p ''sha256'')) \<in> {[], bh_sha H (ps_hashed s)}"
      "ps_expected s \<in> {None, Some (int (ps_written s))}" "d (ps_tmp s) = Some content"
      "r = (s2\<lparr>ps_done := (if ps_done s \<noteq> None then ps_done s
              else Some \<lparr>po_dest = Some (ps_dest s), po_name = text_or p ''file_name'' (ps_name s),
                 po_mime = text_or p ''mime_type'' (ps_mime s), po_bytes = count, po_sha = bh_sha H (ps_hashed s), po_error = None\<rparr>)\<rparr>,
            d(ps_tmp s := None, ps_dest s := Some content))"
proof -
  consider "truthy (py_get p ''error'')" | "\<not> truthy (py_get p ''error'')" "\<not> ps_open s \<and> ps_expected s \<noteq> None \<and> ps_expected s \<noteq> Some 0"
    | "\<not> truthy (py_get p ''error'')" "\<not> (\<not> ps_open s \<and> ps_expected s \<noteq> None \<and> ps_expected s \<noteq> Some 0)" by blast
  then show thesis
  proof cases
    case 1
    then have "r = pull_fail (py_str (py_get p ''error'')) (s1, d)" by (simp add: r_def s1_def pull_end_def Let_def)
    then show ?thesis using bad by blast
  next
    case 2
    then have "r = pull_fail ''BLOB_BEGIN_MISSING'' (s1, d)" by (simp add: r_def s1_def pull_end_def Let_def)
    then show ?thesis using bad by blast
  next
    case c: 3
    let ?sha = "lower (clean_str (py_get p ''sha256''))"
    show ?thesis
    proof (cases "py_int (py_or (py_get p ''total_bytes'') (PyInt (int (ps_written s))))")
      case (Inl e)
      then have "r = (s2, d)" using c by (auto simp: r_def s2_def pull_end_def Let_def)
      then show ?thesis by (rule raised)
    next
      case (Inr count)
      consider "?sha \<notin> {[], bh_sha H (ps_hashed s)}"
        | "?sha \<in> {[], bh_sha H (ps_hashed s)}" "ps_expected s \<notin> {None, Some (int (ps_written s))}"
        | "?sha \<in> {[], bh_sha H (ps_hashed s)}" "ps_expected s \<in> {None, Some (int (ps_written s))}" by blast
      then show ?thesis
      proof cases
        case 1
        then have "r = pull_fail (sha_mismatch (bh_sha H (ps_hashed s)) ?sha) (s2, d)"
          using c Inr by (auto simp: r_def s2_def pull_end_def Let_def)
        then show ?thesis using bad by blast
      next
        case 2
        then have "r = pull_fail (size_mismatch (ps_written s) (the (ps_expected s))) (s2, d)"
          using c Inr by (auto simp: r_def s2_def pull_end_def Let_def)
        then show ?thesis using bad by blast
      next
        case g: 3
        have r: "r = (case d (ps_tmp s) of None \<Rightarrow> pull_fail ''No such file or directory'' (s2, d)
            | Some content \<Rightarrow> (case bh_replace_error H (ps_dest s) of Some e \<Rightarrow> pull_fail e (s2, d)
              | None \<Rightarrow> (s2\<lparr>ps_done := (if ps_done s \<noteq> None then ps_done s
                 else Some \<lparr>po_dest = Some (ps_dest s), po_name = text_or p ''file_name'' (ps_name s),
                   po_mime = text_or p ''mime_type'' (ps_mime s), po_bytes = count, po_sha = bh_sha H (ps_hashed s), po_error = None\<rparr>)\<rparr>,
                 d(ps_tmp s := None, ps_dest s := Some content))))"
          using c(2) g by (auto simp: r_def s2_def pull_end_def Let_def Inr c(1) split: option.split)
        show ?thesis
        proof (cases "d (ps_tmp s)")
          case None
          then have "r = pull_fail ''No such file or directory'' (s2, d)" using r by simp
          then show ?thesis using bad by blast
        next
          case content: (Some content)
          show ?thesis
          proof (cases "bh_replace_error H (ps_dest s)")
            case (Some e)
            then have "r = pull_fail e (s2, d)" using r content by simp
            then show ?thesis using bad by blast
          next
            case None
            from r show ?thesis unfolding content None option.case by (rule fine [OF c(1) g content])
          qed
        qed
      qed
    qed
  qed
qed

lemma pull_inv_end:
  assumes "pull_inv H d0 evs (s, d)"
  shows "pull_inv H d0 (evs @ [(t, Blob_End p)]) (snd (pull_end H t p (s, d)))"
proof -
  let ?e = "(t, Blob_End p)" and ?s = "s\<lparr>ps_last := t\<rparr>" and ?s' = "s\<lparr>ps_last := t, ps_open := False\<rparr>"
  let ?sha = "lower (clean_str (py_get p ''sha256''))"
  have I: "pull_inv H d0 (evs @ [?e]) (?s, d)" using assms by (intro pull_inv_touch pull_inv_more)
  then have I': "pull_inv H d0 (evs @ [?e]) (?s', d)" unfolding pull_inv_def prod.case by (auto simp: pull_parts)
  note f = pull_inv_fail [OF I] pull_inv_fail [OF I']
  show ?thesis
  proof (cases rule: pull_end_cases [where s = s and d = d and t = t and p = p and H = H])
    case (bad e x)
    then show ?thesis using f by auto
  next
    case raised
    then show ?thesis using I' by simp
  next
    case (fine content count)
    have p: "tmp_ok d s" "received evs s" "untouched evs d s" "size_known evs s" "success_ok H evs d s"
      using assms by (simp_all add: pull_inv_def)
    have c: "content = ps_hashed s" "ps_expected s = Some (int (length content))" "ps_dest s \<noteq> ps_tmp s"
      using p(1,2) fine(3,4) by (auto simp: tmp_ok_def received_def)
    have b: "begun (evs @ [?e])" using p(3) fine(4) by (auto simp: untouched_def begun_more)
    have "vouched H (evs @ [?e]) content" using fine(1,2) c(1) unfolding vouched_def by (intro exI [of _ p]) auto
    moreover have "size_announced (evs @ [?e]) (int (length content))" using p(4) c(2) by (auto simp: size_known_def size_announced_more)
    moreover have "received (evs @ [?e]) s" using p(2) by (rule received_more)
    ultimately have w: "whole H (evs @ [?e]) content" unfolding whole_def received_def c(1) by metis
    have failed: "ps_done s = Some out \<Longrightarrow> po_error out \<noteq> None" for out using p(5) fine(4) by (auto simp: success_ok_def)
    let ?out = "if ps_done s \<noteq> None then ps_done s
        else Some \<lparr>po_dest = Some (ps_dest s), po_name = text_or p ''file_name'' (ps_name s),
           po_mime = text_or p ''mime_type'' (ps_mime s), po_bytes = count, po_sha = bh_sha H (ps_hashed s), po_error = None\<rparr>"
    have out: "po_dest out = Some (ps_dest s) \<and> po_sha out = bh_sha H (ps_hashed s)" if "?out = Some out" "po_error out = None" for out
      using that failed by (cases "ps_done s") auto
    have "pull_inv H d0 (evs @ [?e]) (?s'\<lparr>ps_done := ?out\<rparr>, d(ps_tmp ?s' := None, ps_dest ?s' := Some content))"
    proof (rule pull_inv_replaced [OF I' _ _ w b])
      show "\<not> ps_open ?s'" "d (ps_tmp ?s') = Some content" "content = ps_hashed ?s'" using fine(4) c(1) by simp_all
      fix out show "?out = Some out \<Longrightarrow> po_error out = None \<Longrightarrow> po_dest out = Some (ps_dest ?s') \<and> po_sha out = bh_sha H (ps_hashed ?s')"
        using out by simp
    qed
    then show ?thesis unfolding fine(5) by simp
  qed
qed

lemma pull_inv_step:
  assumes "pull_inv H d0 evs sd" "is_begin (snd e) \<Longrightarrow> \<not> begun evs"
  shows "pull_inv H d0 (evs @ [e]) (pull_step H e sd)"
proof -
  obtain s d where sd: "sd = (s, d)" by (cases sd)
  obtain t ev where e: "e = (t, ev)" by (cases e)
  have I: "pull_inv H d0 evs (s, d)" using assms(1) by (simp add: sd)
  then have m: "pull_inv H d0 (evs @ [e]) (s, d)" by (rule pull_inv_more)
  show ?thesis
    using pull_inv_begin [OF I] pull_inv_chunk [OF I] pull_inv_end [OF I] pull_inv_fail [OF m] m assms(2)
    by (cases ev) (auto simp: pull_step_def pull_idle_def sd e)
qed

lemma pull_inv_run:
  assumes "d (ps_tmp (new_pull dest rid now)) = None" "length (filter is_begin (map snd evs)) \<le> 1"
  shows "pull_inv H d evs (fold (pull_step H) evs (new_pull dest rid now, d))"
  using assms(2)
proof (induction evs rule: rev_induct)
  case Nil
  then show ?case using pull_inv_new [of d dest rid now H] assms(1) by simp
next
  case (snoc e evs)
  have "is_begin (snd e) \<Longrightarrow> \<not> begun evs"
    using snoc.prems by (auto simp: begun_def list_ex_iff filter_empty_conv)
  then show ?case using snoc pull_inv_step by simp
qed

lemma pull_paths [simp]:
  "ps_dest (fst (pull_fail e sd)) = ps_dest (fst sd)" "ps_tmp (fst (pull_fail e sd)) = ps_tmp (fst sd)"
  by (simp_all add: pull_fail_def split: prod.split)

lemma pull_paths_step:
  "ps_dest (fst (pull_step H e sd)) = ps_dest (fst sd) \<and> ps_tmp (fst (pull_step H e sd)) = ps_tmp (fst sd)"
  by (cases e; cases sd; cases "snd e")
    (auto simp: pull_step_def pull_begin_def pull_chunk_def pull_end_def pull_idle_def Let_def split: sum.split option.split)

lemma pull_paths_run:
  "ps_dest (fst (fold (pull_step H) evs sd)) = ps_dest (fst sd) \<and> ps_tmp (fst (fold (pull_step H) evs sd)) = ps_tmp (fst sd)"
  by (induction evs arbitrary: sd) (auto simp: pull_paths_step)


definition demo_blob_host :: blob_host where
  "demo_blob_host = \<lparr>bh_open_error = \<lambda>_. None, bh_replace_error = \<lambda>_. None, bh_sha = map char_of_byte\<rparr>"

definition demo_dest :: path where "demo_dest = [''tmp'', ''f'']"

definition demo_pull :: pull_history where
  "demo_pull = [(0, Blob_Begin [(''size'', PyInt 2)]), (1, Blob_Chunk 0 [97]), (2, Blob_Chunk 1 [98]), (3, Blob_End [(''sha256'', PyStr ''ab'')])]"

lemmas demo_pull_simps = demo_blob_host_def demo_dest_def demo_pull_def new_pull_def pull_step_def pull_begin_def pull_chunk_def pull_end_def
  Let_def py_get_def py_or_def text_or_def

lemma demo_sha: "map char_of_byte [97, 98] = ''ab''" "lower (strip ''ab'') = ''ab''"
  by code_simp+


text \<open>a second announcement empties the temporary file but not the digest and the count: a pull whose
  pieces are split by one reports success, with the digest of the whole, and leaves only the later pieces.\<close>

theorem second_announcement_loses_pieces:
  "\<exists>s d out. fold (pull_step demo_blob_host)
       [(0, Blob_Begin [(''size'', PyInt 2)]), (1, Blob_Chunk 0 [97]), (2, Blob_Begin [(''size'', PyInt 2)]),
        (3, Blob_Chunk 1 [98]), (4, Blob_End [(''sha256'', PyStr ''ab'')])] (new_pull demo_dest ''r'' 0, (\<lambda>_. None)) = (s, d) \<and>
     d demo_dest = Some [98] \<and> ps_done s = Some out \<and> po_error out = None \<and> po_bytes out = 2 \<and> po_sha out = ''ab''"
  using demo_sha by (simp add: demo_pull_simps)

section \<open>A pull from end to end\<close>

declare read_chunks.simps [simp del]

lemma concat_read_chunks: "0 < k \<Longrightarrow> concat (read_chunks k bs) = bs"
  by (induction k bs rule: read_chunks.induct) (subst read_chunks.simps, simp)

lemma length_read_chunks: "0 < k \<Longrightarrow> length (read_chunks k bs) * k < length bs + k"
proof (induction k bs rule: read_chunks.induct)
  case (1 k bs)
  show ?case
  proof (cases "bs = []")
    case False
    then have "length (read_chunks k (drop k bs)) * k < length (drop k bs) + k" using 1 by simp
    moreover have "length bs < k \<Longrightarrow> read_chunks k (drop k bs) = []" by (simp add: read_chunks.simps)
    ultimately show ?thesis using False 1(2) by (subst read_chunks.simps) (cases "length bs < k"; simp)
  qed (use 1 in \<open>simp add: read_chunks.simps\<close>)
qed

lemma stream_fits:
  assumes "int (length bs) \<le> stream_max"
  shows "length (read_chunks chunk_bytes bs) < 4294967295"
  using length_read_chunks [of chunk_bytes bs] assms by (simp add: chunk_bytes_def stream_max_def)

lemma pack_all_frames:
  assumes "normalize_blob_request_id r = Inr rid" "seq + length cs < 4294967296"
  shows "snd (pack_all r seq cs) = None \<and>
    map unpack_blob_chunk (fst (pack_all r seq cs)) = map (\<lambda>(i, c). Inr (rid, i, c)) (enumerate seq cs)"
  using assms(2)
proof (induction cs arbitrary: seq)
  case (Cons c cs)
  obtain f where f: "pack_blob_chunk r seq c = Inr f"
    using assms(1) Cons.prems by (simp add: pack_blob_chunk_def)
  have "unpack_blob_chunk f = Inr (rid, seq, c)" using unpack_pack f assms(1) by blast
  then show ?case using Cons.IH [of "Suc seq"] Cons.prems f by (cases "pack_all r (Suc seq) cs") simp
qed simp

text \<open>What a message of the worker means to the session it is for.\<close>

fun event_of :: "wire \<Rightarrow> pull_event option" where
  "event_of (Json t p) = (if t = ''blob_begin'' then Some (Blob_Begin p) else if t = ''blob_end'' then Some (Blob_End p) else None)"
| "event_of (Binary f) = (case unpack_blob_chunk f of Inl _ \<Rightarrow> None | Inr (_, seq, payload) \<Rightarrow> Some (Blob_Chunk seq payload))"

lemma events_of_frames:
  "map unpack_blob_chunk fs = map (\<lambda>(i, c). Inr (rid, i, c)) (enumerate seq cs) \<Longrightarrow>
     List.map_filter event_of (map Binary fs) = map (\<lambda>(i, c). Blob_Chunk i c) (enumerate seq cs)"
  by (induction cs arbitrary: fs seq) (auto simp: List.map_filter_def)

lemma chunks_received:
  assumes "map snd evs = map (\<lambda>(i, c). Blob_Chunk i c) (enumerate (ps_next s) cs)" "ps_open s" "d (ps_tmp s) = Some (ps_hashed s)"
  shows "\<exists>t. fold (pull_step H) evs (s, d) =
    (s\<lparr>ps_last := t, ps_hashed := ps_hashed s @ concat cs, ps_written := ps_written s + length (concat cs), ps_next := ps_next s + length cs\<rparr>,
     d(ps_tmp s := Some (ps_hashed s @ concat cs)))"
  using assms
proof (induction cs arbitrary: evs s d)
  case Nil
  then show ?case by (auto simp: fun_upd_idem intro!: exI [of _ "ps_last s"])
next
  case (Cons c cs)
  then obtain t evs' where e: "evs = (t, Blob_Chunk (ps_next s) c) # evs'"
    and r: "map snd evs' = map (\<lambda>(i, c). Blob_Chunk i c) (enumerate (Suc (ps_next s)) cs)" by (cases evs) auto
  let ?s = "s\<lparr>ps_last := t, ps_hashed := ps_hashed s @ c, ps_written := ps_written s + length c, ps_next := Suc (ps_next s)\<rparr>"
  let ?d = "d(ps_tmp s := Some (ps_hashed s @ c))"
  have st: "pull_step H (t, Blob_Chunk (ps_next s) c) (s, d) = (?s, ?d)"
    using Cons.prems by (simp add: pull_step_def pull_chunk_def Let_def)
  have r': "map snd evs' = map (\<lambda>(i, c). Blob_Chunk i c) (enumerate (ps_next ?s) cs)" using r by simp
  have o': "ps_open ?s" and m': "?d (ps_tmp ?s) = Some (ps_hashed ?s)" using Cons.prems by simp_all
  obtain t' where "fold (pull_step H) evs' (?s, ?d) =
    (?s\<lparr>ps_last := t', ps_hashed := ps_hashed ?s @ concat cs, ps_written := ps_written ?s + length (concat cs), ps_next := ps_next ?s + length cs\<rparr>,
     ?d(ps_tmp ?s := Some (ps_hashed ?s @ concat cs)))"
    using Cons.IH [of evs' ?s ?d, OF r' o' m'] by blast
  then show ?case by (intro exI [of _ t']) (simp add: e st add.assoc del: fun_upd_apply)
qed

lemma pull_messages:
  assumes "resolve_under_workspace D base path = Inr p" "files p = Some content" "int (length content) \<le> blob_limit max_bytes"
    and "normalize_blob_request_id rid = Inr r"
  shows "snd (blob_pull D sha mime_type files (Some base) rid path max_bytes) = None"
    and "List.map_filter event_of (fst (blob_pull D sha mime_type files (Some base) rid path max_bytes)) =
      Blob_Begin (blob_begin_payload rid path (path_name p) (str_or (mime_type (path_name p)) octet_stream) (int (length content))) #
      map (\<lambda>(i, c). Blob_Chunk i c) (enumerate 0 (read_chunks chunk_bytes content)) @
      [Blob_End (blob_end_payload rid (int (length content)) (sha content) (path_name p) (str_or (mime_type (path_name p)) octet_stream) PyNone)]" (is "_ = ?events")
proof -
  let ?cs = "read_chunks chunk_bytes content"
  obtain fs where fs: "pack_all rid 0 ?cs = (fs, None)" "map unpack_blob_chunk fs = map (\<lambda>(i, c). Inr (r, i, c)) (enumerate 0 ?cs)"
    using pack_all_frames [OF assms(4), of 0 ?cs] stream_fits [of content] assms(3)
    by (cases "pack_all rid 0 ?cs") (simp add: blob_limit_def)
  note m = blob_pull_def assms(1,2) Let_def fs(1)
  show "snd (blob_pull D sha mime_type files (Some base) rid path max_bytes) = None"
    using assms(3) by (simp add: m)
  show "List.map_filter event_of (fst (blob_pull D sha mime_type files (Some base) rid path max_bytes)) = ?events"
    using assms(3) events_of_frames [OF fs(2)] by (simp add: m List.map_filter_def)
qed

lemma payload_fields:
  "py_get (blob_begin_payload rid path name mime n) ''error'' = PyNone"
  "py_get (blob_begin_payload rid path name mime n) ''size'' = PyInt n"
  "py_get (blob_begin_payload rid path name mime n) ''file_name'' = PyStr name"
  "py_get (blob_begin_payload rid path name mime n) ''mime_type'' = PyStr mime"
  "py_get (blob_end_payload rid n sha name mime err) ''error'' = err"
  "py_get (blob_end_payload rid n sha name mime err) ''sha256'' = PyStr sha"
  "py_get (blob_end_payload rid n sha name mime err) ''total_bytes'' = PyInt n"
  "py_get (blob_end_payload rid n sha name mime err) ''file_name'' = PyStr name"
  "py_get (blob_end_payload rid n sha name mime err) ''mime_type'' = PyStr mime"
  by (simp_all add: blob_begin_payload_def blob_end_payload_def py_get_def)

lemma py_int_or_zero: "py_int (py_or (PyInt n) (PyInt 0)) = Inr n" "py_int (py_or (PyInt n) (PyInt n)) = Inr n"
  by (simp_all add: py_or_def)

lemma str_or_twice [simp]: "str_or x (str_or x y) = str_or x y"
  by (simp add: str_or_def)

lemma text_or_PyStr: "py_get p k = PyStr x \<Longrightarrow> text_or p k v = str_or x v"
  by (simp add: text_or_def py_or_def str_or_def)

text \<open>C34: a file within the limit arrives as it is: fed with the messages the worker sends for it, with no
  pause too long between them, the session writes exactly its bytes to the destination, removes the temporary
  file, and reports no error, the size and the digest.\<close>

theorem pulled_file_arrives:
  assumes worker: "resolve_under_workspace D base path = Inr p" "files p = Some content" "int (length content) \<le> blob_limit max_bytes"
      "normalize_blob_request_id rid = Inr r"
    and events: "map snd evs = List.map_filter event_of (fst (blob_pull D (bh_sha H) mime_type files (Some base) rid path max_bytes))"
    and host: "bh_open_error H (ps_tmp (new_pull dest rid now)) = None" "bh_replace_error H dest = None"
      "lower (strip (bh_sha H content)) = bh_sha H content"
  shows "\<exists>s'. fold (pull_step H) evs (new_pull dest rid now, d) = (s', d(ps_tmp (new_pull dest rid now) := None, dest := Some content)) \<and>
    ps_done s' = Some \<lparr>po_dest = Some dest, po_name = str_or (path_name p) (last dest),
      po_mime = str_or (mime_type (path_name p)) octet_stream, po_bytes = int (length content), po_sha = bh_sha H content, po_error = None\<rparr>"
proof -
  let ?cs = "read_chunks chunk_bytes content" and ?n = "int (length content)"
  let ?mime = "str_or (mime_type (path_name p)) octet_stream" and ?tmp = "ps_tmp (new_pull dest rid now)"
  let ?b = "blob_begin_payload rid path (path_name p) ?mime ?n" and ?f = "blob_end_payload rid ?n (bh_sha H content) (path_name p) ?mime PyNone"
  obtain t0 cevs t1 where evs: "evs = (t0, Blob_Begin ?b) # cevs @ [(t1, Blob_End ?f)]"
    and cevs: "map snd cevs = map (\<lambda>(i, c). Blob_Chunk i c) (enumerate 0 ?cs)"
    using events unfolding pull_messages(2) [where files = files, OF worker] by (auto simp: map_eq_Cons_conv map_eq_append_conv)
  have mime: "?mime \<noteq> []" by (simp add: octet_stream_def)
  let ?s0 = "(new_pull dest rid now)\<lparr>ps_last := t0, ps_expected := Some ?n, ps_name := str_or (path_name p) (last dest), ps_mime := ?mime, ps_open := True\<rparr>"
  have b: "pull_step H (t0, Blob_Begin ?b) (new_pull dest rid now, d) = (?s0, d(?tmp := Some []))"
    using host(1) mime by (simp add: pull_step_def pull_begin_def Let_def payload_fields py_int_or_zero text_or_PyStr new_pull_def)
  obtain t where c: "fold (pull_step H) cevs (?s0, d(?tmp := Some [])) =
      (?s0\<lparr>ps_last := t, ps_hashed := content, ps_written := length content, ps_next := length ?cs\<rparr>, d(?tmp := Some content))"
    using chunks_received [of cevs ?s0 ?cs "d(?tmp := Some [])" H] cevs concat_read_chunks [of chunk_bytes content]
    by (auto simp: new_pull_def chunk_bytes_def)
  let ?s1 = "?s0\<lparr>ps_last := t, ps_hashed := content, ps_written := length content, ps_next := length ?cs\<rparr>"
  have e: "fold (pull_step H) evs (new_pull dest rid now, d) = pull_step H (t1, Blob_End ?f) (?s1, d(?tmp := Some content))"
    by (simp only: evs fold_simps fold_append comp_apply b c id_apply)
  have "pull_step H (t1, Blob_End ?f) (?s1, d(?tmp := Some content)) =
     (?s1\<lparr>ps_last := t1, ps_open := False, ps_done := Some \<lparr>po_dest = Some dest, po_name = str_or (path_name p) (last dest),
        po_mime = ?mime, po_bytes = ?n, po_sha = bh_sha H content, po_error = None\<rparr>\<rparr>, d(?tmp := None, dest := Some content))"
    using host(2,3) mime
    by (simp add: pull_step_def pull_end_def Let_def payload_fields py_int_or_zero text_or_PyStr new_pull_def)
  then show ?thesis unfolding e by (intro exI conjI, assumption) simp
qed

lemma demo_id: "normalize_blob_request_id (replicate 32 (CHR ''7'')) = Inr (replicate 32 (CHR ''7''))"
  by code_simp

theorem pulled_file_arrives_witness:
  "\<exists>evs s. fold (pull_step demo_blob_host) evs (new_pull demo_dest (replicate 32 (CHR ''7'')) 0, (\<lambda>_. None)) =
     (s, [demo_dest \<mapsto> [97, 98]])"
proof -
  let ?id = "replicate 32 (CHR ''7'')"
  let ?m = "List.map_filter event_of (fst (blob_pull plain_disk (bh_sha demo_blob_host) (\<lambda>_. []) [[''w'', ''a''] \<mapsto> [97, 98]] (Some [''w'']) ?id ''a'' 0))"
  have r: "resolve_under_workspace plain_disk [''w''] ''a'' = Inr [''w'', ''a'']" by code_simp
  have t: "ps_tmp (new_pull demo_dest ?id 0) \<noteq> demo_dest" unfolding new_pull_def by (simp add: demo_dest_def)
  have "lower (strip (bh_sha demo_blob_host [97, 98])) = bh_sha demo_blob_host [97, 98]"
    unfolding demo_blob_host_def blob_host.simps demo_sha(1) by (rule demo_sha(2))
  then have "\<exists>s. fold (pull_step demo_blob_host) (map (Pair 0) ?m) (new_pull demo_dest ?id 0, (\<lambda>_. None)) =
      (s, (\<lambda>_. None)(ps_tmp (new_pull demo_dest ?id 0) := None, demo_dest := Some [97, 98]))"
    using pulled_file_arrives [of plain_disk "[''w'']" "''a''" "[''w'', ''a'']" "[[''w'', ''a''] \<mapsto> [97, 98]]" "[97, 98]" 0 ?id ?id
        "map (Pair 0) ?m" demo_blob_host "\<lambda>_. []" demo_dest 0 "\<lambda>_. None", OF r _ _ demo_id]
    by (auto simp: comp_def blob_limit_def stream_max_def) (auto simp: demo_blob_host_def)
  then show ?thesis using t by (auto simp: fun_upd_def)
qed

section \<open>A push from end to end\<close>

record push_outcome =
  bo_path :: str
  bo_bytes :: int
  bo_error :: "str option"

fun push_frames :: "bytes list \<Rightarrow> pushes \<times> disk \<Rightarrow> push_result list \<times> pushes \<times> disk" where
  "push_frames [] pd = ([], pd)"
| "push_frames (f # fs) pd =
     (case push_chunk f pd of (answer, pd) \<Rightarrow>
        (case push_frames fs pd of (answers, pd) \<Rightarrow> ((case answer of None \<Rightarrow> [] | Some a \<Rightarrow> [a]) @ answers, pd)))"

text \<open>
  The daemon's side with the worker's answers. What the worker says about a piece has the number of the
  transfer: it settles the last request when that is already pending, and is dropped when it comes before
  (\<open>early\<close>). An exception of the worker leaves the daemon without an answer.
\<close>

definition blob_push_stream :: "worker_disk \<Rightarrow> blob_host \<Rightarrow> bool \<Rightarrow> path option \<Rightarrow> str \<Rightarrow> bytes \<Rightarrow> str \<Rightarrow> bool \<Rightarrow> int \<Rightarrow> pushes \<times> disk \<Rightarrow>
    (py_exn + push_outcome) \<times> pushes \<times> disk" where
  "blob_push_stream D H early session rid content dest_path appending max_bytes pd =
     (let limit = blob_limit max_bytes; n = int (length content);
          failure = (\<lambda>e. Inr \<lparr>bo_path = dest_path, bo_bytes = 0, bo_error = Some e\<rparr>)
      in if n > limit then (failure (encode_file_too_large n limit), pd)
         else case push_begin D H session rid dest_path n limit appending pd of
           (Inl e, pd) \<Rightarrow> (Inl e, pd)
         | (Inr ready, pd) \<Rightarrow>
             if opt_str ready \<noteq> [] then (failure (opt_str ready), pd)
             else case pack_all rid 0 (read_chunks chunk_bytes content) of (fs, exn) \<Rightarrow>
               (case push_frames fs pd of (answers, pd) \<Rightarrow>
                  (case exn of Some e \<Rightarrow> (Inl e, pd)
                   | None \<Rightarrow>
                       (case push_end H rid (bh_sha H content) pd of
                          (Inl e, pd) \<Rightarrow> (Inl e, pd)
                        | (Inr result, pd) \<Rightarrow>
                            (let a = (if early \<or> answers = [] then result else hd answers)
                             in (Inr \<lparr>bo_path = str_or (pr_path a) dest_path, bo_bytes = pr_written a, bo_error = pr_error a\<rparr>, pd))))))"

lemma frames_received:
  assumes "map unpack_blob_chunk fs = map (\<lambda>(i, c). Inr (rid, i, c)) (enumerate (pu_next s) cs)" "normalize_blob_request_id rid = Inr rid"
    and "map_of ps rid = Some s" "int (pu_written s + length (concat cs)) \<le> pu_expected s" "d (pu_tmp s) = Some (pu_hashed s)"
  shows "\<exists>ps'. push_frames fs (ps, d) = ([], ps', d(pu_tmp s := Some (pu_hashed s @ concat cs))) \<and>
    map_of ps' rid = Some (s\<lparr>pu_hashed := pu_hashed s @ concat cs, pu_written := pu_written s + length (concat cs), pu_next := pu_next s + length cs\<rparr>) \<and>
    (\<forall>k. k \<noteq> rid \<longrightarrow> map_of ps' k = map_of ps k)"
  using assms(1,3-)
proof (induction cs arbitrary: fs s ps d)
  case Nil
  then show ?case by (simp add: fun_upd_idem)
next
  case (Cons c cs)
  then obtain f fs' where fs: "fs = f # fs'" "unpack_blob_chunk f = Inr (rid, pu_next s, c)"
    "map unpack_blob_chunk fs' = map (\<lambda>(i, c). Inr (rid, i, c)) (enumerate (Suc (pu_next s)) cs)" by (cases fs) auto
  let ?s = "s\<lparr>pu_hashed := pu_hashed s @ c, pu_written := pu_written s + length c, pu_next := Suc (pu_next s)\<rparr>"
  let ?d = "d(pu_tmp s := Some (pu_hashed s @ c))"
  have st: "push_chunk f (ps, d) = (None, dset rid ?s ps, ?d)"
    using Cons.prems fs(2) assms(2) by (simp add: push_chunk_def Let_def)
  have "\<exists>ps'. push_frames fs' (dset rid ?s ps, ?d) = ([], ps', ?d(pu_tmp ?s := Some (pu_hashed ?s @ concat cs))) \<and>
      map_of ps' rid = Some (?s\<lparr>pu_hashed := pu_hashed ?s @ concat cs, pu_written := pu_written ?s + length (concat cs), pu_next := pu_next ?s + length cs\<rparr>) \<and>
      (\<forall>k. k \<noteq> rid \<longrightarrow> map_of ps' k = map_of (dset rid ?s ps) k)"
    by (rule Cons.IH) (use fs(3) Cons.prems in simp_all)
  then obtain ps' where "push_frames fs' (dset rid ?s ps, ?d) = ([], ps', ?d(pu_tmp ?s := Some (pu_hashed ?s @ concat cs)))"
      "map_of ps' rid = Some (?s\<lparr>pu_hashed := pu_hashed ?s @ concat cs, pu_written := pu_written ?s + length (concat cs), pu_next := pu_next ?s + length cs\<rparr>)"
      "\<forall>k. k \<noteq> rid \<longrightarrow> map_of ps' k = map_of (dset rid ?s ps) k" by blast
  then show ?case by (intro exI [of _ ps']) (simp add: fs(1) st add.assoc del: fun_upd_apply)
qed

definition push_session_for :: "str \<Rightarrow> path \<Rightarrow> int \<Rightarrow> bool \<Rightarrow> push_session" where
  "push_session_for rid dest n appending =
     \<lparr>pu_id = rid, pu_dest = dest, pu_tmp = butlast dest @ [last dest @ ''.'' @ take 8 rid @ ''.part''], pu_expected = n,
      pu_append = appending, pu_hashed = [], pu_next = 0, pu_written = 0\<rparr>"

lemma push_begin_cases:
  assumes "normalize_blob_request_id rid = Inr rid" "map_of ps rid = None"
  obtains (refused) r where "push_begin D H session rid path n limit appending (ps, d) = (r, ps, d)" "r \<noteq> Inr None"
  | (ready) base dest where "session = Some base" "resolve_under_workspace D base path = Inr dest" "dest \<noteq> []"
      "push_begin D H session rid path n limit appending (ps, d) =
         (Inr None, dset rid (push_session_for rid dest n appending) ps, d(pu_tmp (push_session_for rid dest n appending) := Some []))"
proof (cases session)
  case None
  then show ?thesis using refused assms by (simp add: push_begin_def)
next
  case (Some base)
  have ps: "dpop rid ps = ps" using assms(2) by (simp add: dpop_absent has_key_iff)
  have v: "\<exists>e. x = ValueError e" if "resolve_under_workspace D base path = Inl x" for x
    using that by (auto simp: resolve_under_workspace_def Let_def split: if_splits)
  show ?thesis
  proof (cases "n \<le> blob_limit limit")
    case False
    then show ?thesis using refused assms Some by (simp add: push_begin_def)
  next
    case le: True
    show ?thesis
    proof (cases "resolve_under_workspace D base path")
      case (Inl x)
      with v obtain e where "x = ValueError e" by blast
      then show ?thesis using refused assms Some le Inl by (simp add: push_begin_def)
    next
      case (Inr dest)
      let ?tmp = "pu_tmp (push_session_for rid dest n appending)"
      show ?thesis
      proof (cases "dest = [] \<or> bh_open_error H ?tmp \<noteq> None")
        case True
        then have "\<exists>r. push_begin D H session rid path n limit appending (ps, d) = (r, ps, d) \<and> r \<noteq> Inr None"
          using assms Some le Inr by (cases "dest = []") (auto simp: push_begin_def Let_def push_session_for_def)
        then show ?thesis using refused by blast
      next
        case False
        have "push_begin D H session rid path n limit appending (ps, d) =
           (Inr None, dset rid (push_session_for rid dest n appending) ps, d(?tmp := Some []))"
          using False assms Some le Inr ps by (simp add: push_begin_def Let_def push_session_for_def)
        then show ?thesis using ready Some Inr False by blast
      qed
    qed
  qed
qed

lemma frames_missing:
  assumes "map unpack_blob_chunk fs = map (\<lambda>(i, c). Inr (rid, i, c)) (enumerate n cs)" "normalize_blob_request_id rid = Inr rid" "map_of ps rid = None"
  shows "push_frames fs (ps, d) = ([], ps, d)"
  using assms(1)
proof (induction fs arbitrary: n cs)
  case (Cons f fs)
  then show ?case using assms(2,3) by (cases cs) (auto simp: push_chunk_def)
qed simp

lemma blob_limit_idem: "blob_limit (blob_limit n) = blob_limit n"
  by (simp add: blob_limit_def stream_max_def)

text \<open>The last step: the file appears, or an error is reported and the temporary file goes.\<close>

lemma push_end_ready:
  assumes "normalize_blob_request_id rid = Inr rid" "map_of ps rid = Some s" "d (pu_tmp s) = Some (pu_hashed s)"
    and "lower (strip sha) = bh_sha H (pu_hashed s)" "int (pu_written s) = pu_expected s"
  shows "push_end H rid sha (ps, d) =
    (case bh_replace_error H (pu_dest s) of
       Some e \<Rightarrow> (Inr \<lparr>pr_path = path_text (pu_dest s), pr_written = 0, pr_error = Some e\<rparr>, dpop rid ps, d(pu_tmp s := None))
     | None \<Rightarrow> (Inr \<lparr>pr_path = path_text (pu_dest s), pr_written = int (pu_written s), pr_error = None\<rparr>, dpop rid ps,
         d(pu_tmp s := None, pu_dest s := Some (if pu_append s then (case d (pu_dest s) of None \<Rightarrow> [] | Some old \<Rightarrow> old) @ pu_hashed s else pu_hashed s))))"
  using assms by (simp add: push_end_def Let_def)

text \<open>The worker has the workspace open, and can write the file.\<close>

definition accepts :: "worker_disk \<Rightarrow> blob_host \<Rightarrow> path option \<Rightarrow> str \<Rightarrow> str \<Rightarrow> bool" where
  "accepts D H session rid path \<longleftrightarrow> (\<exists>base dest. session = Some base \<and> resolve_under_workspace D base path = Inr dest \<and> dest \<noteq> [] \<and>
     bh_open_error H (butlast dest @ [last dest @ ''.'' @ take 8 rid @ ''.part'']) = None \<and> bh_replace_error H dest = None)"


lemma demo_accepts: "accepts plain_disk demo_blob_host (Some [''w'']) (replicate 32 (CHR ''7'')) ''a''"
proof -
  have "resolve_under_workspace plain_disk [''w''] ''a'' = Inr [''w'', ''a'']" by code_simp
  then show ?thesis by (simp add: accepts_def demo_blob_host_def)
qed


end
