(* ===== verification/Time_Slots.thy ===== *)
theory Time_Slots
  imports Py_Values "HOL-Library.Product_Lexorder"
begin

text \<open>
  Stretches of time (\<open>agent_core/models/time_slot.py\<close>).

  A date is its ordinal, day 1 being a Monday; a datetime without zone counts microseconds from
  the midnight before day 0. Dates past the year 9999 do not occur.
\<close>

section \<open>Dates and times\<close>

type_synonym date = int
type_synonym moment = int

definition minute :: int where "minute = 60000000"

definition day :: int where "day = 86400000000"

definition at_time :: "date \<Rightarrow> int \<Rightarrow> int \<Rightarrow> moment" where
  "at_time dt h m = dt * day + h * 60 * minute + m * minute"

definition date_of :: "moment \<Rightarrow> date" where "date_of t = t div day"

definition isoweekday :: "date \<Rightarrow> int" where "isoweekday dt = (dt - 1) mod 7 + 1"

definition weekday :: "date \<Rightarrow> int" where "weekday dt = (dt - 1) mod 7"

definition date_max :: date where "date_max = 3652059"

text \<open>\<open>int(delta.total_seconds() / 60)\<close>: whole minutes, towards zero.\<close>

definition minutes_between :: "moment \<Rightarrow> moment \<Rightarrow> int" where
  "minutes_between s e = (if s \<le> e then (e - s) div minute else - ((s - e) div minute))"

section \<open>Slots\<close>

datatype slot_type = FREE | BUSY | SLEEP | BUFFER

record time_slot =
  ts_start :: moment
  ts_end :: moment
  ts_type :: slot_type
  ts_title :: "str option"

definition free_slot :: "moment \<Rightarrow> moment \<Rightarrow> str option \<Rightarrow> time_slot" where
  "free_slot s e t = \<lparr>ts_start = s, ts_end = e, ts_type = FREE, ts_title = t\<rparr>"

definition duration_minutes :: "time_slot \<Rightarrow> int" where
  "duration_minutes s = minutes_between (ts_start s) (ts_end s)"

definition is_free :: "time_slot \<Rightarrow> bool" where "is_free s \<longleftrightarrow> ts_type s = FREE"

definition slot_contains :: "time_slot \<Rightarrow> moment \<Rightarrow> bool" where
  "slot_contains s t \<longleftrightarrow> ts_start s \<le> t \<and> t < ts_end s"

definition overlaps_with :: "time_slot \<Rightarrow> time_slot \<Rightarrow> bool" where
  "overlaps_with s r \<longleftrightarrow> ts_start s < ts_end r \<and> ts_end s > ts_start r"

definition can_fit :: "time_slot \<Rightarrow> int \<Rightarrow> bool" where
  "can_fit s minutes \<longleftrightarrow> is_free s \<and> duration_minutes s \<ge> minutes"

definition split_for_task :: "time_slot \<Rightarrow> int \<Rightarrow> time_slot \<times> time_slot option" where
  "split_for_task s minutes =
     (if \<not> can_fit s minutes then (s, None)
      else let task_end = ts_start s + minutes * minute
           in (\<lparr>ts_start = ts_start s, ts_end = task_end, ts_type = BUSY, ts_title = ts_title s\<rparr>,
               if duration_minutes s - minutes > 0 then Some (free_slot task_end (ts_end s) None) else None))"

definition intersect :: "time_slot \<Rightarrow> time_slot \<Rightarrow> time_slot option" where
  "intersect s r =
     (if \<not> overlaps_with s r then None
      else Some \<lparr>ts_start = max (ts_start s) (ts_start r), ts_end = min (ts_end s) (ts_end r), ts_type = ts_type s, ts_title = None\<rparr>)"

definition merge_slots :: "time_slot \<Rightarrow> time_slot \<Rightarrow> time_slot option" where
  "merge_slots s r =
     (if ts_type s \<noteq> ts_type r then None
      else if \<not> overlaps_with s r \<and> ts_end s \<noteq> ts_start r \<and> ts_end r \<noteq> ts_start s then None
      else Some \<lparr>ts_start = min (ts_start s) (ts_start r), ts_end = max (ts_end s) (ts_end r), ts_type = ts_type s,
                 ts_title = (if opt_str (ts_title s) \<noteq> [] then ts_title s else ts_title r)\<rparr>)"

text \<open>\<open>dt.replace(hour=h, minute=m, second=0, microsecond=0)\<close>\<close>

definition replace_time :: "moment \<Rightarrow> int \<Rightarrow> int \<Rightarrow> py_exn + moment" where
  "replace_time t h m =
     (if 0 \<le> h \<and> h \<le> 23 then if 0 \<le> m \<and> m \<le> 59 then Inr (at_time (date_of t) h m) else Inl (ValueError ''minute must be in 0..59'')
      else Inl (ValueError ''hour must be in 0..23''))"

definition create_sleep_slots :: "moment \<Rightarrow> int \<Rightarrow> int \<Rightarrow> int \<Rightarrow> int \<Rightarrow> py_exn + time_slot list" where
  "create_sleep_slots t sleep_h sleep_m wake_h wake_m =
     (case replace_time t sleep_h sleep_m of Inl e \<Rightarrow> Inl e
      | Inr evening \<Rightarrow>
          (case replace_time (t + day) wake_h wake_m of Inl e \<Rightarrow> Inl e
           | Inr morning \<Rightarrow> Inr [\<lparr>ts_start = evening, ts_end = morning, ts_type = SLEEP, ts_title = Some ''sleep''\<rparr>]))"

section \<open>Laws\<close>

lemmas clock_simps = minute_def day_def at_time_def

lemma minutes_le_iff: "s \<le> e \<Longrightarrow> n \<le> minutes_between s e \<longleftrightarrow> s + n * minute \<le> e"
proof -
  assume "s \<le> e"
  have "n \<le> (e - s) div 60000000 \<longleftrightarrow> n * 60000000 \<le> e - s"
    using zdiv_mono1 [of "n * 60000000" "e - s" 60000000] by auto
  then show ?thesis using \<open>s \<le> e\<close> by (auto simp: minutes_between_def minute_def)
qed

lemma merged_contains:
  assumes "merge_slots a b = Some m" "ts_start a < ts_end a" "ts_start b < ts_end b"
  shows "slot_contains m t \<longleftrightarrow> slot_contains a t \<or> slot_contains b t"
  using assms by (auto simp: merge_slots_def slot_contains_def overlaps_with_def min_def max_def split: if_splits)

lemma intersect_contains:
  "(case intersect a b of None \<Rightarrow> False | Some c \<Rightarrow> slot_contains c t) \<longleftrightarrow> slot_contains a t \<and> slot_contains b t"
  by (auto simp: intersect_def slot_contains_def overlaps_with_def)

lemma overlaps_iff_common:
  assumes "ts_start a < ts_end a" "ts_start b < ts_end b"
  shows "overlaps_with a b \<longleftrightarrow> (\<exists>t. slot_contains a t \<and> slot_contains b t)"
proof
  assume "overlaps_with a b"
  then have "slot_contains a (max (ts_start a) (ts_start b)) \<and> slot_contains b (max (ts_start a) (ts_start b))"
    using assms by (auto simp: overlaps_with_def slot_contains_def)
  then show "\<exists>t. slot_contains a t \<and> slot_contains b t" by blast
qed (auto simp: overlaps_with_def slot_contains_def)

text \<open>slots are half-open sets of moments: two that can be merged make exactly their union, the intersection is
  exactly what they share and exists when they overlap, and a free slot split for a task gives the task its
  minutes from the start and keeps the rest, up to less than a minute.\<close>

theorem slots_are_sets_of_moments:
  assumes "ts_start a < ts_end a" "ts_start b < ts_end b" "0 < minutes"
  shows "(\<forall>m. merge_slots a b = Some m \<longrightarrow> (\<forall>t. slot_contains m t \<longleftrightarrow> slot_contains a t \<or> slot_contains b t)) \<and>
    (\<forall>t. (case intersect a b of None \<Rightarrow> False | Some c \<Rightarrow> slot_contains c t) \<longleftrightarrow> slot_contains a t \<and> slot_contains b t) \<and>
    (intersect a b \<noteq> None \<longleftrightarrow> (\<exists>t. slot_contains a t \<and> slot_contains b t)) \<and>
    (can_fit a minutes \<longrightarrow>
       (case split_for_task a minutes of (task, rest) \<Rightarrow>
          duration_minutes task = minutes \<and> ts_start task = ts_start a \<and> ts_end task \<le> ts_end a \<and>
          (case rest of None \<Rightarrow> ts_end a < ts_end task + minute | Some r \<Rightarrow> is_free r \<and> ts_start r = ts_end task \<and> ts_end r = ts_end a)))"
proof (intro conjI allI impI)
  show "intersect a b \<noteq> None \<longleftrightarrow> (\<exists>t. slot_contains a t \<and> slot_contains b t)"
    using overlaps_iff_common [OF assms(1,2)] by (simp add: intersect_def)
  assume fit: "can_fit a minutes"
  then have "ts_start a + minutes * minute \<le> ts_end a"
    using assms(1) by (simp add: can_fit_def duration_minutes_def minutes_le_iff)
  moreover have "ts_end a < ts_start a + (duration_minutes a + 1) * minute"
    using minutes_le_iff [of "ts_start a" "ts_end a" "duration_minutes a + 1"] assms(1) by (simp add: duration_minutes_def)
  ultimately show "case split_for_task a minutes of (task, rest) \<Rightarrow>
      duration_minutes task = minutes \<and> ts_start task = ts_start a \<and> ts_end task \<le> ts_end a \<and>
      (case rest of None \<Rightarrow> ts_end a < ts_end task + minute | Some r \<Rightarrow> is_free r \<and> ts_start r = ts_end task \<and> ts_end r = ts_end a)"
    using fit assms(3)
    by (auto simp: split_for_task_def Let_def free_slot_def is_free_def duration_minutes_def minutes_between_def minute_def algebra_simps)
qed (use merged_contains [OF _ assms(1,2)] intersect_contains in blast)+

theorem slots_are_sets_of_moments_witness:
  "merge_slots (free_slot 0 (2 * minute) None) (free_slot minute (3 * minute) (Some ''x'')) = Some (free_slot 0 (3 * minute) (Some ''x'')) \<and>
   slot_contains (free_slot 0 (3 * minute) (Some ''x'')) minute"
proof -
  let ?a = "free_slot 0 (2 * minute) None" and ?b = "free_slot minute (3 * minute) (Some ''x'')"
  have m: "merge_slots ?a ?b = Some (free_slot 0 (3 * minute) (Some ''x''))"
    by (simp add: merge_slots_def overlaps_with_def free_slot_def minute_def)
  have "slot_contains ?a minute" "ts_start ?a < ts_end ?a" "ts_start ?b < ts_end ?b"
    by (simp_all add: slot_contains_def free_slot_def minute_def)
  then show ?thesis using slots_are_sets_of_moments [of ?a ?b 1] m by simp
qed

end
