(* ===== verification/Planner.thy ===== *)
theory Planner
  imports Time_Slots "HOL-Library.Multiset"
begin

text \<open>
  Planning tasks into free working time (\<open>PlannerEngine\<close> in \<open>agent_core/planner/engine.py\<close>,
  \<open>planner/scoring.py\<close>, the models in \<open>agent_core/models\<close>).

  Scores are real numbers instead of floats. The planner's zone is a function from instants to
  local time.
\<close>

section \<open>Tasks and events\<close>

datatype todo_status = TODO | IN_PROGRESS | COMPLETED | CANCELLED

datatype priority = Low | Medium | High | Urgent

record cal_task =
  tk_id :: str
  tk_title :: str
  tk_description :: "str option"
  tk_minutes :: int
  tk_due :: "date option"
  tk_status :: todo_status
  tk_priority :: priority
  tk_tags :: "str list"
  tk_difficulty :: int
  tk_importance :: int
  tk_source :: str
  tk_origin :: "str option"
  tk_deadline_event :: "str option"
  tk_start :: "moment option"
  tk_end :: "moment option"

definition mark_completed :: "cal_task \<Rightarrow> cal_task" where "mark_completed t = t\<lparr>tk_status := COMPLETED\<rparr>"

definition mark_cancelled :: "cal_task \<Rightarrow> cal_task" where "mark_cancelled t = t\<lparr>tk_status := CANCELLED\<rparr>"

definition is_scheduled :: "cal_task \<Rightarrow> bool" where "is_scheduled t \<longleftrightarrow> tk_start t \<noteq> None \<and> tk_end t \<noteq> None"

definition is_overdue :: "date \<Rightarrow> cal_task \<Rightarrow> bool" where
  "is_overdue today t \<longleftrightarrow>
     (case tk_due t of None \<Rightarrow> False | Some due \<Rightarrow> tk_status t \<notin> {COMPLETED, CANCELLED} \<and> today > due)"

definition schedule_task :: "moment \<Rightarrow> moment \<Rightarrow> cal_task \<Rightarrow> cal_task" where
  "schedule_task s e t = t\<lparr>tk_start := Some s, tk_end := Some e, tk_status := IN_PROGRESS\<rparr>"

definition unschedule_task :: "cal_task \<Rightarrow> cal_task" where
  "unschedule_task t =
     (let t = t\<lparr>tk_start := None, tk_end := None\<rparr> in if tk_status t = IN_PROGRESS then t\<lparr>tk_status := TODO\<rparr> else t)"

text \<open>A datetime without zone, or an instant.\<close>

datatype py_datetime = Naive moment | Aware int

datatype event_status = Scheduled | In_Progress | Completed | Cancelled

record cal_event =
  ev_id :: str
  ev_title :: str
  ev_description :: "str option"
  ev_start :: py_datetime
  ev_end :: py_datetime
  ev_location :: "str option"
  ev_priority :: priority
  ev_status :: event_status
  ev_tags :: "str list"
  ev_source :: str
  ev_type :: str
  ev_blocking :: bool
  ev_origin :: "str option"
  ev_task :: "str option"
  ev_run :: "str option"

section \<open>Scores\<close>

record weights =
  pw_urgency :: real
  pw_difficulty :: real
  pw_importance :: real
  pw_overdue :: real

definition clamp :: "real \<Rightarrow> real \<Rightarrow> real \<Rightarrow> real" where
  "clamp value low high = max low (min high value)"

definition days_to_due :: "date \<Rightarrow> cal_task \<Rightarrow> int" where
  "days_to_due today t = (case tk_due t of None \<Rightarrow> 14 | Some due \<Rightarrow> due - today)"

definition score_task :: "weights \<Rightarrow> date \<Rightarrow> cal_task \<Rightarrow> real" where
  "score_task w today t =
     (let left = days_to_due today t;
          urgency_score = clamp (1 - of_int left / 14) 0 1;
          difficulty_score = clamp (of_int (tk_difficulty t) / 5) 0 1;
          importance_score = clamp (of_int (tk_importance t) / 5) 0 1;
          overdue_bonus = (if left < 0 then 1 else 0)
      in pw_urgency w * urgency_score + pw_difficulty w * difficulty_score + pw_importance w * importance_score + pw_overdue w * overdue_bonus)"

definition rank_key :: "cal_task \<times> real \<Rightarrow> real \<times> date \<times> int \<times> int" where
  "rank_key = (\<lambda>(t, score). (- score, (case tk_due t of None \<Rightarrow> date_max | Some d \<Rightarrow> d), - tk_importance t, - tk_difficulty t))"

definition rank_tasks :: "weights \<Rightarrow> date \<Rightarrow> cal_task list \<Rightarrow> (cal_task \<times> real) list" where
  "rank_tasks w today tasks = sort_key rank_key (map (\<lambda>t. (t, score_task w today t)) tasks)"

section \<open>Working time\<close>

record window =
  wi_weekday :: int
  wi_start :: str
  wi_end :: str

record planning =
  pc_lookahead :: int
  pc_min_block :: int
  pc_break :: int
  pc_weekdays_first :: bool
  pc_hours :: "window list"
  pc_weights :: weights
  pc_local :: "int \<Rightarrow> moment"

definition int_part :: "str \<Rightarrow> py_exn + int" where
  "int_part s = (case int_of_str s of None \<Rightarrow> Inl (ValueError s) | Some i \<Rightarrow> Inr i)"

definition parse_hhmm :: "str \<Rightarrow> py_exn + int \<times> int" where
  "parse_hhmm value =
     (case split_on (CHR '':'') value of
        [a, b] \<Rightarrow>
          (case int_part a of Inl e \<Rightarrow> Inl e
           | Inr h \<Rightarrow> (case int_part b of Inl e \<Rightarrow> Inl e
              | Inr m \<Rightarrow> if h < 0 \<or> h > 23 \<or> m < 0 \<or> m > 59 then Inl (ValueError (''Invalid time value: '' @ value)) else Inr (h, m)))
      | _ \<Rightarrow> Inl (ValueError (''Invalid time format: '' @ value)))"

definition window_slot :: "date \<Rightarrow> window \<Rightarrow> py_exn + time_slot list" where
  "window_slot current w =
     (if wi_weekday w \<noteq> isoweekday current then Inr []
      else case parse_hhmm (wi_start w) of Inl e \<Rightarrow> Inl e
        | Inr (sh, sm) \<Rightarrow> (case parse_hhmm (wi_end w) of Inl e \<Rightarrow> Inl e
           | Inr (eh, em) \<Rightarrow>
               (let s = at_time current sh sm; e = at_time current eh em
                in if e \<le> s then Inr [] else Inr [free_slot s e (Some ''working time'')])))"

fun all_slots :: "(date \<times> window) list \<Rightarrow> py_exn + time_slot list" where
  "all_slots [] = Inr []"
| "all_slots ((d, w) # rest) =
     (case window_slot d w of Inl e \<Rightarrow> Inl e
      | Inr s \<Rightarrow> (case all_slots rest of Inl e \<Rightarrow> Inl e | Inr ss \<Rightarrow> Inr (s @ ss)))"

definition dates_from :: "date \<Rightarrow> int \<Rightarrow> date list" where
  "dates_from start days = map (\<lambda>i. start + int i) [0..<nat days]"

definition build_working_slots :: "planning \<Rightarrow> date \<Rightarrow> int \<Rightarrow> py_exn + time_slot list" where
  "build_working_slots cfg start_date days =
     (case all_slots [(d, w). d \<leftarrow> dates_from start_date days, w \<leftarrow> pc_hours cfg] of Inl e \<Rightarrow> Inl e
      | Inr slots \<Rightarrow> Inr (sort_key ts_start slots))"

section \<open>Busy time\<close>

definition to_naive_local :: "planning \<Rightarrow> py_datetime \<Rightarrow> moment" where
  "to_naive_local cfg dt = (case dt of Naive t \<Rightarrow> t | Aware u \<Rightarrow> pc_local cfg u)"

definition overlap :: "moment \<Rightarrow> moment \<Rightarrow> moment \<Rightarrow> moment \<Rightarrow> bool" where
  "overlap a_start a_end b_start b_end \<longleftrightarrow> a_start < b_end \<and> a_end > b_start"

definition busy_interval :: "planning \<Rightarrow> moment \<Rightarrow> moment \<Rightarrow> cal_event \<Rightarrow> (moment \<times> moment) list" where
  "busy_interval cfg window_start window_end ev =
     (if ev_status ev = Cancelled then []
      else if \<not> ev_blocking ev then []
      else let s = to_naive_local cfg (ev_start ev); e = to_naive_local cfg (ev_end ev)
        in if e \<le> s then []
           else if overlap s e window_start window_end then [(max s window_start, min e window_end)] else [])"

definition collect_busy_intervals :: "planning \<Rightarrow> cal_event list \<Rightarrow> moment \<Rightarrow> moment \<Rightarrow> (moment \<times> moment) list" where
  "collect_busy_intervals cfg events window_start window_end =
     sort_key fst (concat (map (busy_interval cfg window_start window_end) events))"

definition subtract_interval :: "moment \<times> moment \<Rightarrow> time_slot \<Rightarrow> time_slot list" where
  "subtract_interval busy slot =
     (case busy of (b_start, b_end) \<Rightarrow>
        if \<not> overlap (ts_start slot) (ts_end slot) b_start b_end then [slot]
        else (if ts_start slot < b_start then [free_slot (ts_start slot) b_start (ts_title slot)] else []) @
             (if b_end < ts_end slot then [free_slot b_end (ts_end slot) (ts_title slot)] else []))"

definition subtract_busy :: "planning \<Rightarrow> time_slot list \<Rightarrow> (moment \<times> moment) list \<Rightarrow> time_slot list" where
  "subtract_busy cfg working busy =
     sort_key ts_start (filter (\<lambda>s. duration_minutes s \<ge> pc_min_block cfg)
       (fold (\<lambda>b slots. concat (map (subtract_interval b) slots)) busy working))"

definition sort_slots_prefer_weekday :: "time_slot list \<Rightarrow> time_slot list" where
  "sort_slots_prefer_weekday slots =
     sort_key (\<lambda>s. (if isoweekday (date_of (ts_start s)) \<le> 5 then 0 else 1 :: int, ts_start s)) slots"

section \<open>Placing tasks\<close>

record planned_item =
  pi_task :: str
  pi_start :: moment
  pi_end :: moment
  pi_score :: real

record unplanned_item =
  pu_task :: str
  pu_score :: real

record planner_result =
  pr_planned :: "planned_item list"
  pr_unplanned :: "unplanned_item list"
  pr_window :: "(moment \<times> moment) option"

text \<open>The first slot that is long enough, and the others.\<close>

fun choose_slot :: "int \<Rightarrow> time_slot list \<Rightarrow> (time_slot \<times> time_slot list) option" where
  "choose_slot n [] = None"
| "choose_slot n (s # ss) =
     (if duration_minutes s \<ge> n then Some (s, ss)
      else case choose_slot n ss of None \<Rightarrow> None | Some (c, rest) \<Rightarrow> Some (c, s # rest))"

definition required_minutes :: "planning \<Rightarrow> cal_task \<Rightarrow> int" where
  "required_minutes cfg t = max (tk_minutes t) (pc_min_block cfg)"

definition put_back :: "planning \<Rightarrow> moment \<Rightarrow> time_slot \<Rightarrow> time_slot list \<Rightarrow> time_slot list" where
  "put_back cfg end_time chosen slots =
     (if end_time < ts_end chosen
      then let remainder = free_slot end_time (ts_end chosen) (ts_title chosen)
           in if duration_minutes remainder \<ge> pc_min_block cfg then sort_key ts_start (slots @ [remainder]) else slots
      else slots)"

fun place_tasks :: "planning \<Rightarrow> (cal_task \<times> real) list \<Rightarrow> time_slot list \<Rightarrow> planned_item list \<times> unplanned_item list" where
  "place_tasks cfg [] slots = ([], [])"
| "place_tasks cfg ((t, score) # rest) slots =
     (let required = required_minutes cfg t; total_required = required + pc_break cfg
      in case choose_slot total_required slots of
           None \<Rightarrow>
             (case place_tasks cfg rest slots of (ps, us) \<Rightarrow> (ps, \<lparr>pu_task = tk_id t, pu_score = score\<rparr> # us))
         | Some (chosen, others) \<Rightarrow>
             (let end_time = ts_start chosen + total_required * minute;
                  item = \<lparr>pi_task = tk_id t, pi_start = ts_start chosen, pi_end = ts_start chosen + required * minute, pi_score = score\<rparr>
              in case place_tasks cfg rest (put_back cfg end_time chosen others) of (ps, us) \<Rightarrow> (item # ps, us)))"

definition free_time :: "planning \<Rightarrow> cal_event list \<Rightarrow> time_slot list \<Rightarrow> time_slot list" where
  "free_time cfg events working =
     (let free = subtract_busy cfg working (collect_busy_intervals cfg events (ts_start (hd working)) (ts_end (last working)))
      in if pc_weekdays_first cfg then sort_slots_prefer_weekday free else free)"

definition plan_tasks :: "planning \<Rightarrow> cal_task list \<Rightarrow> cal_event list \<Rightarrow> date \<Rightarrow> int \<Rightarrow> py_exn + planner_result" where
  "plan_tasks cfg tasks events start_date days =
     (case build_working_slots cfg start_date (if days < 1 then 1 else days) of
        Inl e \<Rightarrow> Inl e
      | Inr working \<Rightarrow>
          if working = [] then Inr \<lparr>pr_planned = [], pr_unplanned = [], pr_window = None\<rparr>
          else case place_tasks cfg (rank_tasks (pc_weights cfg) start_date tasks) (free_time cfg events working) of
            (ps, us) \<Rightarrow> Inr \<lparr>pr_planned = ps, pr_unplanned = us, pr_window = Some (ts_start (hd working), ts_end (last working))\<rparr>)"

section \<open>Slots that keep apart\<close>

definition slots_apart :: "time_slot \<Rightarrow> time_slot \<Rightarrow> bool" where
  "slots_apart a b \<longleftrightarrow> ts_end a \<le> ts_start b \<or> ts_end b \<le> ts_start a"

definition proper :: "time_slot \<Rightarrow> bool" where "proper s \<longleftrightarrow> ts_start s < ts_end s"

definition inside :: "time_slot \<Rightarrow> time_slot \<Rightarrow> bool" where
  "inside a b \<longleftrightarrow> ts_start b \<le> ts_start a \<and> ts_end a \<le> ts_end b"

definition slots_ok :: "time_slot list \<Rightarrow> bool" where
  "slots_ok ss \<longleftrightarrow> list_all proper ss \<and> sorted_wrt slots_apart ss"

lemma slots_apart_sym: "slots_apart a b \<Longrightarrow> slots_apart b a"
  by (auto simp: slots_apart_def)

lemma inside_apart: "inside a b \<Longrightarrow> slots_apart b c \<Longrightarrow> slots_apart a c"
  by (auto simp: inside_def slots_apart_def)

lemma inside_trans: "inside a b \<Longrightarrow> inside b c \<Longrightarrow> inside a c"
  by (auto simp: inside_def)

lemma inside_refl [simp]: "inside a a"
  by (simp add: inside_def)

lemma free_slot_simps [simp]: "ts_start (free_slot s e t) = s" "ts_end (free_slot s e t) = e"
  by (simp_all add: free_slot_def)

lemma sorted_wrt_sym_perm:
  assumes "\<And>a b. R a b \<Longrightarrow> R b a" "sorted_wrt R xs" "mset xs = mset ys"
  shows "sorted_wrt R ys"
  using assms(2,3)
proof (induction ys arbitrary: xs)
  case (Cons y ys)
  then obtain us vs where xs: "xs = us @ y # vs" by (metis list.set_intros(1) mset_eq_setD split_list)
  have "sorted_wrt R (us @ vs)" "\<forall>x \<in> set (us @ vs). R y x"
    using Cons.prems(1) assms(1) by (auto simp: xs sorted_wrt_append)
  moreover have m: "mset (us @ vs) = mset ys" using Cons.prems(2) by (simp add: xs)
  ultimately show ?case using Cons.IH mset_eq_setD [OF m] by auto
qed simp

lemma slots_ok_perm: "slots_ok xs \<Longrightarrow> mset xs = mset ys \<Longrightarrow> slots_ok ys"
  unfolding slots_ok_def using sorted_wrt_sym_perm [of slots_apart xs ys, OF slots_apart_sym] mset_eq_setD [of xs ys]
  by (auto simp: list_all_iff)

lemma slots_ok_sort [simp]: "slots_ok (sort_key f xs) \<longleftrightarrow> slots_ok xs"
  using slots_ok_perm [of xs "sort_key f xs"] slots_ok_perm [of "sort_key f xs" xs] by auto

lemma slots_ok_filter: "slots_ok xs \<Longrightarrow> slots_ok (filter P xs)"
  by (auto simp: slots_ok_def list_all_iff sorted_wrt_filter)

section \<open>Working time is apart\<close>

definition window_minutes :: "window \<Rightarrow> (int \<times> int) option" where
  "window_minutes w =
     (case (parse_hhmm (wi_start w), parse_hhmm (wi_end w)) of
        (Inr (sh, sm), Inr (eh, em)) \<Rightarrow> if sh * 60 + sm < eh * 60 + em then Some (sh * 60 + sm, eh * 60 + em) else None
      | _ \<Rightarrow> None)"

definition windows_apart :: "window \<Rightarrow> window \<Rightarrow> bool" where
  "windows_apart v w \<longleftrightarrow> wi_weekday v \<noteq> wi_weekday w \<or>
     (case (window_minutes v, window_minutes w) of (Some (a, b), Some (c, d)) \<Rightarrow> b \<le> c \<or> d \<le> a | _ \<Rightarrow> True)"

lemma parse_hhmm_range: "parse_hhmm s = Inr (h, m) \<Longrightarrow> 0 \<le> h \<and> h \<le> 23 \<and> 0 \<le> m \<and> m \<le> 59"
  by (auto simp: parse_hhmm_def split: list.splits sum.splits if_splits)

lemma window_slotD:
  assumes "window_slot dt w = Inr ss" "s \<in> set ss"
  obtains a b where "ss = [s]" "wi_weekday w = isoweekday dt" "window_minutes w = Some (a, b)" "0 \<le> a" "a < b" "b < 1440"
    "ts_start s = dt * day + a * minute" "ts_end s = dt * day + b * minute"
proof -
  obtain sh sm eh em where p: "parse_hhmm (wi_start w) = Inr (sh, sm)" "parse_hhmm (wi_end w) = Inr (eh, em)" "wi_weekday w = isoweekday dt"
    using assms by (auto simp: window_slot_def split: if_splits sum.splits)
  note r = parse_hhmm_range [OF p(1)] parse_hhmm_range [OF p(2)]
  have "at_time dt sh sm < at_time dt eh em" "ss = [s]" "s = free_slot (at_time dt sh sm) (at_time dt eh em) (Some ''working time'')"
    using assms p by (auto simp: window_slot_def Let_def not_le split: if_splits)
  moreover from this(1) have "sh * 60 + sm < eh * 60 + em" by (simp add: clock_simps)
  ultimately show ?thesis using p r
    by (intro that [of "sh * 60 + sm" "eh * 60 + em"]) (auto simp: window_minutes_def clock_simps algebra_simps)
qed

lemma all_slots_from: "all_slots ps = Inr ss \<Longrightarrow> s \<in> set ss \<Longrightarrow> \<exists>(d, w) \<in> set ps. \<exists>xs. window_slot d w = Inr xs \<and> s \<in> set xs"
  by (induction ps arbitrary: ss rule: all_slots.induct) (fastforce split: sum.splits)+

definition pairs_apart :: "date \<times> window \<Rightarrow> date \<times> window \<Rightarrow> bool" where
  "pairs_apart p q \<longleftrightarrow> fst p < fst q \<or> fst p = fst q \<and> windows_apart (snd p) (snd q)"

lemma window_slots_apart:
  assumes "window_slot d v = Inr xs" "a \<in> set xs" "window_slot e w = Inr ys" "b \<in> set ys" "pairs_apart (d, v) (e, w)"
  shows "slots_apart a b"
proof -
  obtain a1 a2 where a: "wi_weekday v = isoweekday d" "window_minutes v = Some (a1, a2)" "0 \<le> a1" "a1 < a2" "a2 < 1440"
    "ts_start a = d * day + a1 * minute" "ts_end a = d * day + a2 * minute" using window_slotD [OF assms(1,2)] by metis
  obtain b1 b2 where b: "wi_weekday w = isoweekday e" "window_minutes w = Some (b1, b2)" "0 \<le> b1" "b1 < b2" "b2 < 1440"
    "ts_start b = e * day + b1 * minute" "ts_end b = e * day + b2 * minute" using window_slotD [OF assms(3,4)] by metis
  show ?thesis
  proof (cases "d < e")
    case True
    then have "d + 1 \<le> e" by simp
    then have "d * day + day \<le> e * day" using mult_right_mono [of "d + 1" e day] by (simp add: day_def algebra_simps)
    then show ?thesis using a b by (simp add: slots_apart_def clock_simps)
  next
    case False
    then have "d = e" "windows_apart v w" using assms(5) by (auto simp: pairs_apart_def)
    then show ?thesis using a b by (auto simp: windows_apart_def slots_apart_def minute_def)
  qed
qed

lemma all_slots_ok: "all_slots ps = Inr ss \<Longrightarrow> sorted_wrt pairs_apart ps \<Longrightarrow> slots_ok ss"
proof (induction ps arbitrary: ss rule: all_slots.induct)
  case (2 d w0 rest)
  obtain xs ys where x: "window_slot d w0 = Inr xs" "all_slots rest = Inr ys" "ss = xs @ ys"
    using 2(2) by (auto split: sum.splits)
  have "slots_ok ys" using 2(1) [OF x(1,2)] 2(3) by simp
  moreover have "slots_apart a b" if ab: "a \<in> set xs" "b \<in> set ys" for a b
  proof -
    obtain e w zs where e: "(e, w) \<in> set rest" "window_slot e w = Inr zs" "b \<in> set zs"
      using all_slots_from [OF x(2) ab(2)] by blast
    then have "pairs_apart (d, w0) (e, w)" using 2(3) by simp
    then show ?thesis by (rule window_slots_apart [OF x(1) ab(1) e(2,3)])
  qed
  moreover have "slots_ok xs"
  proof (cases xs)
    case (Cons a as)
    then have "a \<in> set xs" by simp
    from window_slotD [OF x(1) this] obtain a1 a2 where "xs = [a]" "a1 < a2" "ts_start a = d * day + a1 * minute"
      "ts_end a = d * day + a2 * minute" by metis
    then show ?thesis by (simp add: slots_ok_def proper_def minute_def)
  qed (simp add: slots_ok_def)
  ultimately show ?case by (auto simp: x(3) slots_ok_def sorted_wrt_append)
qed (simp add: slots_ok_def)

lemma pairs_sorted:
  assumes "sorted_wrt (<) ds" "sorted_wrt windows_apart ws"
  shows "sorted_wrt pairs_apart [(d, w). d \<leftarrow> ds, w \<leftarrow> ws]"
  using assms(1)
proof (induction ds)
  case (Cons d ds)
  have "sorted_wrt pairs_apart (map (Pair d) ws)"
    using assms(2) by (auto simp: sorted_wrt_map pairs_apart_def elim: sorted_wrt_mono_rel [rotated])
  moreover have "\<forall>p \<in> set (map (Pair d) ws). \<forall>q \<in> set [(d, w). d \<leftarrow> ds, w \<leftarrow> ws]. pairs_apart p q"
    using Cons.prems by (auto simp: pairs_apart_def)
  moreover have "sorted_wrt pairs_apart [(d, w). d \<leftarrow> ds, w \<leftarrow> ws]" using Cons by simp
  ultimately show ?case by (simp add: sorted_wrt_append)
qed simp

lemma working_slots_ok:
  assumes "build_working_slots cfg start days = Inr ws" "sorted_wrt windows_apart (pc_hours cfg)"
  shows "slots_ok ws"
proof -
  have "sorted_wrt (<) (dates_from start days)" by (simp add: dates_from_def sorted_wrt_map)
  then show ?thesis using assms all_slots_ok [OF _ pairs_sorted]
    by (auto simp: build_working_slots_def split: sum.splits)
qed

section \<open>Free time avoids the busy intervals\<close>

definition avoids :: "moment \<Rightarrow> moment \<Rightarrow> moment \<times> moment \<Rightarrow> bool" where
  "avoids s e b \<longleftrightarrow> \<not> overlap s e (fst b) (snd b)"

text \<open>A stretch has room in one of the slots.\<close>

definition room :: "time_slot list \<Rightarrow> moment \<Rightarrow> moment \<Rightarrow> bool" where
  "room ss s e \<longleftrightarrow> (\<exists>x \<in> set ss. ts_start x \<le> s \<and> e \<le> ts_end x)"

lemma avoids_inside: "inside a b \<Longrightarrow> avoids (ts_start b) (ts_end b) i \<Longrightarrow> avoids (ts_start a) (ts_end a) i"
  by (auto simp: avoids_def overlap_def inside_def)

lemma subtract_inside: "x \<in> set (subtract_interval b s) \<Longrightarrow> inside x s"
  by (cases b) (auto simp: subtract_interval_def overlap_def inside_def split: if_splits)

lemma subtract_slots:
  assumes "proper s" "fst b < snd b"
  shows "slots_ok (subtract_interval b s)" "\<forall>x \<in> set (subtract_interval b s). avoids (ts_start x) (ts_end x) b"
proof -
  show "slots_ok (subtract_interval b s)" using assms
    by (cases b) (auto simp: subtract_interval_def overlap_def slots_ok_def proper_def slots_apart_def)
  show "\<forall>x \<in> set (subtract_interval b s). avoids (ts_start x) (ts_end x) b"
    by (cases b) (auto simp: subtract_interval_def avoids_def overlap_def split: if_splits)
qed

lemma room_in: "x \<in> set ss \<Longrightarrow> ts_start x \<le> s \<Longrightarrow> e \<le> ts_end x \<Longrightarrow> room ss s e"
  unfolding room_def by blast

lemma subtract_room:
  assumes "s < e" "avoids s e b" "ts_start x \<le> s" "e \<le> ts_end x"
  shows "room (subtract_interval b x) s e"
proof -
  obtain b1 b2 where b: "b = (b1, b2)" by (cases b)
  show ?thesis
  proof (cases "overlap (ts_start x) (ts_end x) b1 b2")
    case False
    then have "x \<in> set (subtract_interval b x)" by (simp add: b subtract_interval_def)
    then show ?thesis by (rule room_in) (use assms(3,4) in simp_all)
  next
    case True
    have "b2 \<le> s \<or> e \<le> b1" using assms(2) by (auto simp: avoids_def overlap_def b)
    then show ?thesis
    proof
      assume l: "b2 \<le> s"
      have lt: "b2 < ts_end x" using l assms(1,4) by linarith
      have "subtract_interval b x = (if ts_start x < b1 then [free_slot (ts_start x) b1 (ts_title x)] else []) @ [free_slot b2 (ts_end x) (ts_title x)]"
        by (simp only: b subtract_interval_def prod.case True not_True_eq_False if_True if_False lt)
      then have "free_slot b2 (ts_end x) (ts_title x) \<in> set (subtract_interval b x)"
        by (simp only: set_append Un_iff list.set insert_iff simp_thms)
      then show ?thesis by (rule room_in) (use l assms(4) in simp_all)
    next
      assume r: "e \<le> b1"
      have lt: "ts_start x < b1" using r assms(1,3) by linarith
      have "subtract_interval b x = [free_slot (ts_start x) b1 (ts_title x)] @ (if b2 < ts_end x then [free_slot b2 (ts_end x) (ts_title x)] else [])"
        by (simp only: b subtract_interval_def prod.case True not_True_eq_False if_True if_False lt)
      then have "free_slot (ts_start x) b1 (ts_title x) \<in> set (subtract_interval b x)"
        by (simp only: set_append Un_iff list.set insert_iff simp_thms)
      then show ?thesis by (rule room_in) (use r assms(3) in simp_all)
    qed
  qed
qed

lemma concat_slots_ok:
  assumes "slots_ok ss" "\<And>s. s \<in> set ss \<Longrightarrow> slots_ok (f s) \<and> (\<forall>x \<in> set (f s). inside x s)"
  shows "slots_ok (concat (map f ss))"
  using assms
proof (induction ss)
  case (Cons s ss)
  have "\<forall>a \<in> set (f s). \<forall>b \<in> set (concat (map f ss)). slots_apart a b"
  proof (intro ballI)
    fix a b assume a: "a \<in> set (f s)" and "b \<in> set (concat (map f ss))"
    then obtain t where t: "t \<in> set ss" "b \<in> set (f t)" by auto
    have "slots_apart s t" using Cons.prems(1) t(1) by (simp add: slots_ok_def)
    moreover have "inside a s" "inside b t" using Cons.prems(2) a t by auto
    ultimately show "slots_apart a b" by (meson slots_apart_sym inside_apart)
  qed
  then show ?case using Cons by (auto simp: slots_ok_def sorted_wrt_append)
qed (simp add: slots_ok_def)

abbreviation cut_all :: "time_slot list \<Rightarrow> (moment \<times> moment) list \<Rightarrow> time_slot list" where
  "cut_all ss busy \<equiv> fold (\<lambda>b slots. concat (map (subtract_interval b) slots)) busy ss"

lemma cut_once:
  assumes "slots_ok ss" "fst b < snd b"
  shows "slots_ok (concat (map (subtract_interval b) ss))"
    "\<forall>x \<in> set (concat (map (subtract_interval b) ss)). avoids (ts_start x) (ts_end x) b \<and> (\<exists>s \<in> set ss. inside x s)"
proof -
  have p: "proper s" if "s \<in> set ss" for s using assms(1) that by (auto simp: slots_ok_def list_all_iff)
  show "slots_ok (concat (map (subtract_interval b) ss))"
    by (rule concat_slots_ok [OF assms(1)]) (use subtract_slots [OF p assms(2)] subtract_inside in blast)
  show "\<forall>x \<in> set (concat (map (subtract_interval b) ss)). avoids (ts_start x) (ts_end x) b \<and> (\<exists>s \<in> set ss. inside x s)"
    using subtract_slots(2) [OF p assms(2)] subtract_inside by fastforce
qed

lemma cut_all_ok:
  assumes "slots_ok ss" "\<forall>b \<in> set busy. fst b < snd b"
  shows "slots_ok (cut_all ss busy) \<and> (\<forall>x \<in> set (cut_all ss busy). (\<exists>s \<in> set ss. inside x s) \<and> (\<forall>b \<in> set busy. avoids (ts_start x) (ts_end x) b))"
  using assms
proof (induction busy arbitrary: ss)
  case Nil
  then show ?case by (auto intro: inside_refl)
next
  case (Cons b busy)
  let ?ss = "concat (map (subtract_interval b) ss)"
  have b: "fst b < snd b" using Cons.prems by simp
  note once = cut_once [OF Cons.prems(1) b]
  have IH: "slots_ok (cut_all ?ss busy) \<and> (\<forall>x \<in> set (cut_all ?ss busy). (\<exists>s \<in> set ?ss. inside x s) \<and> (\<forall>b \<in> set busy. avoids (ts_start x) (ts_end x) b))"
    by (rule Cons.IH [OF once(1)]) (use Cons.prems(2) in simp)
  have "(\<exists>s \<in> set ss. inside x s) \<and> avoids (ts_start x) (ts_end x) b" if in_all: "x \<in> set (cut_all ?ss busy)" for x
  proof -
    obtain y where y: "y \<in> set ?ss" "inside x y" using conjunct2 [OF IH, THEN bspec, OF in_all] by blast
    from once(2) [THEN bspec, OF y(1)] obtain z where "avoids (ts_start y) (ts_end y) b" "z \<in> set ss" "inside y z" by blast
    then show ?thesis using y(2) avoids_inside inside_trans by meson
  qed
  note out = this
  have e: "cut_all ss (b # busy) = cut_all ?ss busy" by (simp only: fold_simps)
  show ?case unfolding e
  proof (intro conjI ballI)
    fix x assume x: "x \<in> set (cut_all ?ss busy)"
    show "\<exists>s \<in> set ss. inside x s" using out [OF x] by (rule conjunct1)
    fix c assume "c \<in> set (b # busy)"
    then show "avoids (ts_start x) (ts_end x) c" using out [OF x] IH x by (cases "c = b") (simp only:, simp)
  qed (rule conjunct1 [OF IH])
qed

lemma cut_all_room:
  assumes "s < e" "\<forall>b \<in> set busy. avoids s e b" "room ss s e"
  shows "room (cut_all ss busy) s e"
  using assms(2,3)
proof (induction busy arbitrary: ss)
  case (Cons b busy)
  then obtain x where x: "x \<in> set ss" "ts_start x \<le> s" "e \<le> ts_end x" by (auto simp: room_def)
  then have "room (subtract_interval b x) s e" using subtract_room [OF assms(1), of b x] Cons.prems by simp
  then have "room (concat (map (subtract_interval b) ss)) s e" using x(1) by (auto simp: room_def)
  then show ?case using Cons by simp
qed simp

lemma room_perm: "set xs = set ys \<Longrightarrow> room xs s e \<longleftrightarrow> room ys s e"
  by (simp add: room_def)

section \<open>Placing keeps apart and leaves no room unused\<close>

text \<open>An item with the break after it.\<close>

definition extent :: "planning \<Rightarrow> planned_item \<Rightarrow> moment \<times> moment" where
  "extent cfg p = (pi_start p, pi_end p + pc_break cfg * minute)"

definition clear_of :: "moment \<times> moment \<Rightarrow> moment \<times> moment \<Rightarrow> bool" where
  "clear_of a b \<longleftrightarrow> snd a \<le> fst b \<or> snd b \<le> fst a"

definition cfg_ok :: "planning \<Rightarrow> bool" where
  "cfg_ok cfg \<longleftrightarrow> 1 \<le> pc_min_block cfg \<and> 0 \<le> pc_break cfg"

lemma choose_slotD:
  "choose_slot n ss = Some (c, others) \<Longrightarrow> mset ss = add_mset c (mset others) \<and> duration_minutes c \<ge> n"
  by (induction ss arbitrary: others) (auto split: if_splits option.splits)

lemma choose_slot_None: "choose_slot n ss = None \<Longrightarrow> s \<in> set ss \<Longrightarrow> duration_minutes s < n"
  by (induction ss) (auto split: if_splits option.splits)

lemma chosen_slots:
  assumes "choose_slot n ss = Some (c, others)" "slots_ok ss"
  shows "set ss = insert c (set others)" "slots_ok others" "proper c" "\<forall>s \<in> set others. slots_apart c s" "ts_start c + n * minute \<le> ts_end c"
proof -
  note c = choose_slotD [OF assms(1)]
  have "slots_ok (c # others)" using slots_ok_perm [OF assms(2), of "c # others"] c by simp
  then show ok: "slots_ok others" "proper c" "\<forall>s \<in> set others. slots_apart c s" by (auto simp: slots_ok_def)
  show "set ss = insert c (set others)" using c mset_eq_setD [of ss "c # others"] by simp
  show "ts_start c + n * minute \<le> ts_end c"
    using c ok(2) minutes_le_iff [of "ts_start c" "ts_end c" n] by (simp add: duration_minutes_def proper_def)
qed

lemma set_put_back:
  "set (put_back cfg t c others) \<subseteq> insert (free_slot t (ts_end c) (ts_title c)) (set others)" "set others \<subseteq> set (put_back cfg t c others)"
  by (auto simp: put_back_def Let_def)

lemma put_back_ok:
  assumes "slots_ok others" "proper c" "\<forall>s \<in> set others. slots_apart c s" "ts_start c \<le> t"
  shows "slots_ok (put_back cfg t c others)"
proof -
  have "slots_ok (others @ [free_slot t (ts_end c) (ts_title c)])" if "t < ts_end c"
    using assms that by (auto simp: slots_ok_def sorted_wrt_append proper_def slots_apart_def)
  then show ?thesis using assms(1) by (auto simp: put_back_def Let_def)
qed

lemma put_back_room:
  assumes "s < e" "t \<le> s" "e \<le> ts_end c" "s + pc_min_block cfg * minute \<le> e"
  shows "room (put_back cfg t c others) s e"
proof -
  let ?r = "free_slot t (ts_end c) (ts_title c)"
  have "duration_minutes ?r \<ge> pc_min_block cfg"
    using assms minutes_le_iff [of t "ts_end c" "pc_min_block cfg"] by (simp add: duration_minutes_def)
  then have "?r \<in> set (put_back cfg t c others)" using assms(1-3) by (auto simp: put_back_def Let_def)
  then show ?thesis by (rule room_in) (use assms(2,3) in simp_all)
qed

lemma place_cases:
  assumes "place_tasks cfg ((t, score) # rest) slots = (ps, us)"
  obtains (out) us' where "choose_slot (required_minutes cfg t + pc_break cfg) slots = None" "place_tasks cfg rest slots = (ps, us')"
      "us = \<lparr>pu_task = tk_id t, pu_score = score\<rparr> # us'"
  | (placed) c others ps' where "choose_slot (required_minutes cfg t + pc_break cfg) slots = Some (c, others)"
      "place_tasks cfg rest (put_back cfg (ts_start c + (required_minutes cfg t + pc_break cfg) * minute) c others) = (ps', us)"
      "ps = \<lparr>pi_task = tk_id t, pi_start = ts_start c, pi_end = ts_start c + required_minutes cfg t * minute, pi_score = score\<rparr> # ps'"
  using assms by (auto simp: Let_def split: option.splits prod.splits)

lemma extent_item [simp]:
  "extent cfg (\<lparr>pi_task = i, pi_start = s, pi_end = s + n * minute, pi_score = x\<rparr>) = (s, s + (n + pc_break cfg) * minute)"
  by (simp add: extent_def algebra_simps)

lemma placed_inside:
  assumes "slots_ok slots" "cfg_ok cfg" "place_tasks cfg ts slots = (ps, us)"
  shows "\<forall>p \<in> set ps. room slots (fst (extent cfg p)) (snd (extent cfg p)) \<and> fst (extent cfg p) < snd (extent cfg p)"
  using assms(1,3)
proof (induction ts arbitrary: slots ps us)
  case (Cons x ts)
  obtain t score where x: "x = (t, score)" by (cases x)
  let ?n = "required_minutes cfg t + pc_break cfg"
  have n: "0 < ?n" using assms(2) by (auto simp: cfg_ok_def required_minutes_def)
  from Cons.prems(2) [unfolded x] show ?case
  proof (cases rule: place_cases)
    case (out us')
    then show ?thesis using Cons.IH Cons.prems(1) by blast
  next
    case (placed c others ps')
    note c = chosen_slots [OF placed(1) Cons.prems(1)]
    let ?F = "put_back cfg (ts_start c + ?n * minute) c others"
    have "slots_ok ?F" using put_back_ok [OF c(2-4)] n by (simp add: minute_def)
    then have IH: "\<forall>p \<in> set ps'. room ?F (fst (extent cfg p)) (snd (extent cfg p)) \<and> fst (extent cfg p) < snd (extent cfg p)"
      using Cons.IH placed(2) by blast
    have up: "room slots s e" if r: "room ?F s e" for s e
    proof -
      obtain y where y: "y \<in> set ?F" "ts_start y \<le> s" "e \<le> ts_end y" using r unfolding room_def by blast
      then consider "y = free_slot (ts_start c + ?n * minute) (ts_end c) (ts_title c)" | "y \<in> set others"
        using set_put_back(1) by blast
      then show ?thesis
      proof cases
        case 1
        then have "ts_start c \<le> s" "e \<le> ts_end c" using y n by (simp_all add: minute_def)
        then show ?thesis using c(1) room_in by blast
      qed (use c(1) y room_in in blast)
    qed
    have "room slots (ts_start c) (ts_start c + ?n * minute)" using c(1,5) by (intro room_in [of c]) simp_all
    moreover have "0 < ?n * minute" using n by (simp add: minute_def)
    ultimately show ?thesis using IH up unfolding placed(3) by simp
  qed
qed simp

lemma room_clear:
  assumes "room ss s e" "\<forall>x \<in> set ss. clear_of i (ts_start x, ts_end x)" "s < e"
  shows "clear_of i (s, e)"
proof -
  obtain x where "x \<in> set ss" "ts_start x \<le> s" "e \<le> ts_end x" using assms(1) unfolding room_def by blast
  then show ?thesis using assms(2,3) by (auto simp: clear_of_def)
qed

lemma placed_apart:
  assumes "slots_ok slots" "cfg_ok cfg" "place_tasks cfg ts slots = (ps, us)"
  shows "sorted_wrt (\<lambda>p q. clear_of (extent cfg p) (extent cfg q)) ps"
  using assms(1,3)
proof (induction ts arbitrary: slots ps us)
  case (Cons x ts)
  obtain t score where x: "x = (t, score)" by (cases x)
  let ?n = "required_minutes cfg t + pc_break cfg"
  have n: "0 < ?n" using assms(2) by (auto simp: cfg_ok_def required_minutes_def)
  from Cons.prems(2) [unfolded x] show ?case
  proof (cases rule: place_cases)
    case (out us')
    then show ?thesis using Cons.IH Cons.prems(1) by blast
  next
    case (placed c others ps')
    note c = chosen_slots [OF placed(1) Cons.prems(1)]
    let ?e = "ts_start c + ?n * minute"
    let ?F = "put_back cfg ?e c others"
    have ok: "slots_ok ?F" using put_back_ok [OF c(2-4)] n by (simp add: minute_def)
    have "clear_of (ts_start c, ?e) (ts_start y, ts_end y)" if y: "y \<in> set ?F" for y
    proof -
      have "y = free_slot ?e (ts_end c) (ts_title c) \<or> y \<in> set others" using y set_put_back(1) by blast
      then show ?thesis using c(4,5) by (auto simp: clear_of_def slots_apart_def)
    qed
    then have "clear_of (ts_start c, ?e) (extent cfg p)" if "p \<in> set ps'" for p
      using room_clear [of ?F "fst (extent cfg p)" "snd (extent cfg p)"] placed_inside [OF ok assms(2) placed(2)] that by simp
    then show ?thesis using Cons.IH [OF ok placed(2)] unfolding placed(3) by simp
  qed
qed simp

lemma left_out_has_no_room:
  assumes "slots_ok slots" "cfg_ok cfg" "place_tasks cfg ts slots = (ps, us)" "u \<in> set us"
  shows "\<exists>t score. (t, score) \<in> set ts \<and> pu_task u = tk_id t \<and>
    (\<forall>s. room slots s (s + (required_minutes cfg t + pc_break cfg) * minute) \<longrightarrow>
       (\<exists>p \<in> set ps. \<not> clear_of (extent cfg p) (s, s + (required_minutes cfg t + pc_break cfg) * minute)))"
  using assms(1,3,4)
proof (induction ts arbitrary: slots ps us)
  case (Cons x ts)
  obtain t score where x: "x = (t, score)" by (cases x)
  let ?n = "required_minutes cfg t + pc_break cfg"
  have n: "0 < ?n" using assms(2) by (auto simp: cfg_ok_def required_minutes_def)
  from Cons.prems(2) [unfolded x] show ?case
  proof (cases rule: place_cases)
    case (out us')
    show ?thesis
    proof (cases "u \<in> set us'")
      case True
      then show ?thesis using Cons.IH [OF Cons.prems(1) out(2)] by (metis list.set_intros(2))
    next
      case False
      then have "pu_task u = tk_id t" using Cons.prems(3) out(3) by simp
      moreover have "\<not> room slots s (s + ?n * minute)" for s
      proof
        assume "room slots s (s + ?n * minute)"
        then obtain y where y: "y \<in> set slots" "ts_start y \<le> s" "s + ?n * minute \<le> ts_end y" unfolding room_def by blast
        have "proper y" using Cons.prems(1) y(1) by (auto simp: slots_ok_def list_all_iff)
        then have "?n \<le> duration_minutes y" using y(2,3) minutes_le_iff [of "ts_start y" "ts_end y" ?n]
          by (simp add: duration_minutes_def proper_def)
        then show False using choose_slot_None [OF out(1) y(1)] by simp
      qed
      ultimately show ?thesis unfolding x by (intro exI [of _ t] exI [of _ score]) simp
    qed
  next
    case (placed c others ps')
    note c = chosen_slots [OF placed(1) Cons.prems(1)]
    let ?e = "ts_start c + ?n * minute"
    let ?F = "put_back cfg ?e c others"
    have ok: "slots_ok ?F" using put_back_ok [OF c(2-4)] n by (simp add: minute_def)
    obtain t' score' where t': "(t', score') \<in> set ts" "pu_task u = tk_id t'"
      and IH: "\<forall>s. room ?F s (s + (required_minutes cfg t' + pc_break cfg) * minute) \<longrightarrow>
         (\<exists>p \<in> set ps'. \<not> clear_of (extent cfg p) (s, s + (required_minutes cfg t' + pc_break cfg) * minute))"
      using Cons.IH [OF ok placed(2) Cons.prems(3)] by blast
    let ?m = "required_minutes cfg t' + pc_break cfg"
    have m: "0 < ?m" "pc_min_block cfg \<le> ?m" using assms(2) by (auto simp: cfg_ok_def required_minutes_def)
    have "\<exists>p \<in> set ps. \<not> clear_of (extent cfg p) (s, s + ?m * minute)" if r: "room slots s (s + ?m * minute)" for s
    proof (cases "clear_of (ts_start c, ?e) (s, s + ?m * minute)")
      case False
      then show ?thesis unfolding placed(3) by simp
    next
      case True
      obtain y where y: "y \<in> set slots" "ts_start y \<le> s" "s + ?m * minute \<le> ts_end y" using r unfolding room_def by blast
      have pos: "0 < ?m * minute" "pc_min_block cfg * minute \<le> ?m * minute" using m by (simp_all add: minute_def)
      have "room ?F s (s + ?m * minute)"
      proof (cases "y = c")
        case True
        have "?e \<le> s" using y(2) True \<open>clear_of (ts_start c, ?e) (s, s + ?m * minute)\<close> pos(1) by (auto simp: clear_of_def)
        then show ?thesis using put_back_room [of s "s + ?m * minute" ?e c cfg others] y(3) True pos by simp
      next
        case False
        then have "y \<in> set ?F" using y(1) c(1) set_put_back(2) by blast
        then show ?thesis using y(2,3) room_in by blast
      qed
      then show ?thesis using IH unfolding placed(3) by (meson list.set_intros(2))
    qed
    then show ?thesis using t' by (intro exI [of _ t'] exI [of _ score']) (simp add: x)
  qed
qed simp

lemma place_accounts:
  "place_tasks cfg ts slots = (ps, us) \<Longrightarrow>
     mset (map pi_task ps) + mset (map pu_task us) = mset (map (tk_id \<circ> fst) ts) \<and>
     (\<forall>p \<in> set ps. \<exists>(t, score) \<in> set ts. pi_task p = tk_id t \<and> pi_end p = pi_start p + required_minutes cfg t * minute \<and> pi_score p = score)"
proof (induction ts arbitrary: slots ps us)
  case (Cons x ts)
  obtain t score where x: "x = (t, score)" by (cases x)
  from Cons.prems [unfolded x] show ?case
  proof (cases rule: place_cases)
    case (out us')
    then show ?thesis using Cons.IH [OF out(2)] by (auto simp: x)
  next
    case (placed c others ps')
    then show ?thesis using Cons.IH [OF placed(2)] by (auto simp: x)
  qed
qed simp

section \<open>What a plan promises\<close>

text \<open>An event that is not cancelled and blocks takes up part of a stretch.\<close>

definition occupies :: "planning \<Rightarrow> cal_event \<Rightarrow> moment \<Rightarrow> moment \<Rightarrow> bool" where
  "occupies cfg ev s e \<longleftrightarrow> ev_status ev \<noteq> Cancelled \<and> ev_blocking ev \<and>
     to_naive_local cfg (ev_start ev) < to_naive_local cfg (ev_end ev) \<and>
     overlap s e (to_naive_local cfg (ev_start ev)) (to_naive_local cfg (ev_end ev))"

lemma working_bounds:
  assumes "slots_ok ws" "sorted (map ts_start ws)" "x \<in> set ws"
  shows "ts_start (hd ws) \<le> ts_start x" "ts_end x \<le> ts_end (last ws)" "ts_start x < ts_end x"
proof -
  show "ts_start x < ts_end x" using assms(1,3) by (auto simp: slots_ok_def list_all_iff proper_def)
  show "ts_start (hd ws) \<le> ts_start x" using assms(2,3) by (cases ws) auto
  obtain us y where ws: "ws = us @ [y]" using assms(3) by (metis append_butlast_last_id empty_iff empty_set)
  show "ts_end x \<le> ts_end (last ws)"
  proof (cases "x = y")
    case False
    then have x: "x \<in> set us" using assms(3) ws by simp
    have "slots_apart x y" "ts_start x \<le> ts_start y" "ts_start y < ts_end y"
      using assms(1,2) x by (auto simp: ws slots_ok_def sorted_wrt_append sorted_append proper_def)
    then show ?thesis by (auto simp: ws slots_apart_def)
  qed (simp add: ws)
qed

lemma busy_proper:
  assumes "w1 < w2" "b \<in> set (collect_busy_intervals cfg events w1 w2)"
  shows "fst b < snd b" "\<exists>ev \<in> set events. fst b = max (to_naive_local cfg (ev_start ev)) w1 \<and>
    snd b = min (to_naive_local cfg (ev_end ev)) w2 \<and> ev_status ev \<noteq> Cancelled \<and> ev_blocking ev \<and>
    to_naive_local cfg (ev_start ev) < to_naive_local cfg (ev_end ev)"
proof -
  obtain ev where ev: "ev \<in> set events" "b \<in> set (busy_interval cfg w1 w2 ev)"
    using assms(2) by (auto simp: collect_busy_intervals_def)
  then show "fst b < snd b" using assms(1) by (auto simp: busy_interval_def Let_def overlap_def split: if_splits)
  show "\<exists>ev \<in> set events. fst b = max (to_naive_local cfg (ev_start ev)) w1 \<and>
    snd b = min (to_naive_local cfg (ev_end ev)) w2 \<and> ev_status ev \<noteq> Cancelled \<and> ev_blocking ev \<and>
    to_naive_local cfg (ev_start ev) < to_naive_local cfg (ev_end ev)"
    using ev by (intro bexI [of _ ev]) (auto simp: busy_interval_def Let_def split: if_splits)
qed

lemma busy_covers:
  assumes "ev \<in> set events" "occupies cfg ev s e" "w1 \<le> s" "e \<le> w2" "s < e"
  shows "\<exists>b \<in> set (collect_busy_intervals cfg events w1 w2). \<not> avoids s e b"
proof -
  let ?a = "to_naive_local cfg (ev_start ev)" and ?z = "to_naive_local cfg (ev_end ev)"
  have "(max ?a w1, min ?z w2) \<in> set (busy_interval cfg w1 w2 ev)"
    using assms(2-) by (auto simp: occupies_def busy_interval_def overlap_def Let_def)
  moreover have "\<not> avoids s e (max ?a w1, min ?z w2)"
    using assms(2-) by (auto simp: occupies_def avoids_def overlap_def)
  ultimately show ?thesis using assms(1) by (auto simp: collect_busy_intervals_def)
qed

lemma set_free_time: "set (free_time cfg events ws) =
    {x \<in> set (cut_all ws (collect_busy_intervals cfg events (ts_start (hd ws)) (ts_end (last ws)))). duration_minutes x \<ge> pc_min_block cfg}"
  by (simp add: free_time_def subtract_busy_def sort_slots_prefer_weekday_def Let_def)

lemma free_time_ok:
  assumes "slots_ok ws" "sorted (map ts_start ws)" "ws \<noteq> []"
  shows "slots_ok (free_time cfg events ws)"
    and "x \<in> set (free_time cfg events ws) \<Longrightarrow> (\<exists>w \<in> set ws. inside x w) \<and> (\<forall>ev \<in> set events. \<not> occupies cfg ev (ts_start x) (ts_end x))"
    and "s < e \<Longrightarrow> s + pc_min_block cfg * minute \<le> e \<Longrightarrow> room ws s e \<Longrightarrow> \<forall>ev \<in> set events. \<not> occupies cfg ev s e \<Longrightarrow>
      room (free_time cfg events ws) s e"
proof -
  let ?w1 = "ts_start (hd ws)" and ?w2 = "ts_end (last ws)"
  let ?busy = "collect_busy_intervals cfg events ?w1 ?w2"
  have lt: "?w1 < ?w2" using working_bounds [OF assms(1,2) hd_in_set [OF assms(3)]] by simp
  have b: "\<forall>b \<in> set ?busy. fst b < snd b" using busy_proper(1) [OF lt] by blast
  note cut = cut_all_ok [OF assms(1) b]
  show ok: "slots_ok (free_time cfg events ws)"
    using cut by (auto simp: free_time_def subtract_busy_def sort_slots_prefer_weekday_def Let_def slots_ok_filter)
  show "(\<exists>w \<in> set ws. inside x w) \<and> (\<forall>ev \<in> set events. \<not> occupies cfg ev (ts_start x) (ts_end x))" if x: "x \<in> set (free_time cfg events ws)" for x
  proof -
    have c: "(\<exists>w \<in> set ws. inside x w) \<and> (\<forall>b \<in> set ?busy. avoids (ts_start x) (ts_end x) b)"
      using x conjunct2 [OF cut] unfolding set_free_time by blast
    then obtain w where w: "w \<in> set ws" "inside x w" by blast
    have "?w1 \<le> ts_start x" "ts_end x \<le> ?w2" using working_bounds [OF assms(1,2) w(1)] w(2) by (simp_all add: inside_def)
    moreover have "ts_start x < ts_end x" using ok x by (auto simp: slots_ok_def list_all_iff proper_def)
    ultimately show ?thesis using c busy_covers by meson
  qed
  show "room (free_time cfg events ws) s e"
    if h: "s < e" "s + pc_min_block cfg * minute \<le> e" "room ws s e" "\<forall>ev \<in> set events. \<not> occupies cfg ev s e" for s e
  proof -
    have "avoids s e b" if "b \<in> set ?busy" for b
      using busy_proper(2) [OF lt that] h(4) by (auto simp: avoids_def overlap_def occupies_def)
    then have "room (cut_all ws ?busy) s e" using cut_all_room [OF h(1)] h(3) by blast
    then obtain y where y: "y \<in> set (cut_all ws ?busy)" "ts_start y \<le> s" "e \<le> ts_end y" unfolding room_def by blast
    have "pc_min_block cfg \<le> duration_minutes y"
      using y(2,3) h(1,2) minutes_le_iff [of "ts_start y" "ts_end y" "pc_min_block cfg"] by (simp add: duration_minutes_def)
    then have "y \<in> set (free_time cfg events ws)" using y(1) unfolding set_free_time by blast
    then show ?thesis using y(2,3) room_in by blast
  qed
qed

lemma working_slots_sorted: "build_working_slots cfg start days = Inr ws \<Longrightarrow> sorted (map ts_start ws)"
  by (auto simp: build_working_slots_def split: sum.splits)

lemma planD:
  assumes "plan_tasks cfg tasks events start days = Inr r" "pr_window r \<noteq> None"
  obtains ws where "build_working_slots cfg start (if days < 1 then 1 else days) = Inr ws" "ws \<noteq> []"
    "place_tasks cfg (rank_tasks (pc_weights cfg) start tasks) (free_time cfg events ws) = (pr_planned r, pr_unplanned r)"
  using assms by (auto simp: plan_tasks_def split: sum.splits if_splits prod.splits)

lemma plan_empty: "plan_tasks cfg tasks events start days = Inr r \<Longrightarrow> pr_window r = None \<Longrightarrow> pr_planned r = [] \<and> pr_unplanned r = []"
  by (auto simp: plan_tasks_def split: sum.splits if_splits prod.splits)

lemma free_of_conflicts:
  assumes "cfg_ok cfg" "sorted_wrt windows_apart (pc_hours cfg)" "plan_tasks cfg tasks events start days = Inr r"
  shows "sorted_wrt (\<lambda>p q. clear_of (extent cfg p) (extent cfg q)) (pr_planned r) \<and>
    (\<forall>p \<in> set (pr_planned r).
       (\<exists>ws w. build_working_slots cfg start (if days < 1 then 1 else days) = Inr ws \<and> w \<in> set ws \<and>
          ts_start w \<le> pi_start p \<and> pi_end p + pc_break cfg * minute \<le> ts_end w) \<and>
       (\<forall>ev \<in> set events. \<not> occupies cfg ev (pi_start p) (pi_end p + pc_break cfg * minute)))"
proof (cases "pr_window r")
  case None
  then show ?thesis using plan_empty [OF assms(3)] by simp
next
  case (Some w)
  then have "pr_window r \<noteq> None" by simp
  from planD [OF assms(3) this] obtain ws where ws: "build_working_slots cfg start (if days < 1 then 1 else days) = Inr ws" "ws \<noteq> []"
    "place_tasks cfg (rank_tasks (pc_weights cfg) start tasks) (free_time cfg events ws) = (pr_planned r, pr_unplanned r)" by blast
  note f = free_time_ok [where cfg = cfg and events = events, OF working_slots_ok [OF ws(1) assms(2)] working_slots_sorted [OF ws(1)] ws(2)]
  show ?thesis
  proof (intro conjI ballI)
    show "sorted_wrt (\<lambda>p q. clear_of (extent cfg p) (extent cfg q)) (pr_planned r)"
      by (rule placed_apart [OF f(1) assms(1) ws(3)])
    fix p assume p: "p \<in> set (pr_planned r)"
    obtain y where y: "y \<in> set (free_time cfg events ws)" "ts_start y \<le> pi_start p" "pi_end p + pc_break cfg * minute \<le> ts_end y"
      using placed_inside [OF f(1) assms(1) ws(3)] p unfolding room_def extent_def fst_conv snd_conv by blast
    obtain w where w: "w \<in> set ws" "inside y w" using f(2) [OF y(1)] by blast
    then show "\<exists>ws w. build_working_slots cfg start (if days < 1 then 1 else days) = Inr ws \<and> w \<in> set ws \<and>
          ts_start w \<le> pi_start p \<and> pi_end p + pc_break cfg * minute \<le> ts_end w"
      using ws(1) y(2,3) by (intro exI [of _ ws] exI [of _ w]) (simp add: inside_def)
    fix ev assume "ev \<in> set events"
    then have "\<not> occupies cfg ev (ts_start y) (ts_end y)" using f(2) [OF y(1)] by blast
    then show "\<not> occupies cfg ev (pi_start p) (pi_end p + pc_break cfg * minute)"
      using y(2,3) by (auto simp: occupies_def overlap_def)
  qed
qed

text \<open>C21: when the working windows of a day do not overlap, no plan books anything twice: the planned items, each
  with the break after it, do not overlap one another, each lies inside one working slot of the period, and
  none overlaps an event that blocks and is not cancelled.\<close>

theorem plan_never_double_books:
  assumes "cfg_ok cfg" "sorted_wrt windows_apart (pc_hours cfg)" "plan_tasks cfg tasks events start days = Inr r"
  shows "sorted_wrt (\<lambda>p q. clear_of (extent cfg p) (extent cfg q)) (pr_planned r) \<and>
    (\<forall>p \<in> set (pr_planned r).
       (\<exists>ws w. build_working_slots cfg start (if days < 1 then 1 else days) = Inr ws \<and> w \<in> set ws \<and>
          ts_start w \<le> pi_start p \<and> pi_end p + pc_break cfg * minute \<le> ts_end w) \<and>
       (\<forall>ev \<in> set events. \<not> occupies cfg ev (pi_start p) (pi_end p + pc_break cfg * minute)))"
  by (rule free_of_conflicts [OF assms])


section \<open>Examples\<close>

definition demo_weights :: weights where
  "demo_weights = \<lparr>pw_urgency = 4 / 10, pw_difficulty = 3 / 10, pw_importance = 3 / 10, pw_overdue = 2 / 10\<rparr>"

definition demo_planning :: "bool \<Rightarrow> window list \<Rightarrow> planning" where
  "demo_planning weekdays_first hours = \<lparr>pc_lookahead = 7, pc_min_block = 30, pc_break = 0, pc_weekdays_first = weekdays_first,
     pc_hours = hours, pc_weights = demo_weights, pc_local = (\<lambda>u. u)\<rparr>"

definition demo_task :: "str \<Rightarrow> int \<Rightarrow> cal_task" where
  "demo_task i n = \<lparr>tk_id = i, tk_title = i, tk_description = None, tk_minutes = n, tk_due = None, tk_status = TODO, tk_priority = Medium,
     tk_tags = [], tk_difficulty = 3, tk_importance = 3, tk_source = ''user'', tk_origin = None, tk_deadline_event = None, tk_start = None, tk_end = None\<rparr>"

definition demo_event :: "moment \<Rightarrow> moment \<Rightarrow> cal_event" where
  "demo_event s e = \<lparr>ev_id = ''e'', ev_title = ''lunch'', ev_description = None, ev_start = Naive s, ev_end = Naive e, ev_location = None, ev_priority = Medium, ev_status = Scheduled,
     ev_tags = [], ev_source = ''user'', ev_type = ''normal'', ev_blocking = True, ev_origin = None, ev_task = None, ev_run = None\<rparr>"

definition hours :: "int \<Rightarrow> str \<Rightarrow> str \<Rightarrow> window" where
  "hours d s e = \<lparr>wi_weekday = d, wi_start = s, wi_end = e\<rparr>"

lemma demo_clock:
  "parse_hhmm ''08:00'' = Inr (8, 0)" "parse_hhmm ''09:00'' = Inr (9, 0)" "parse_hhmm ''10:00'' = Inr (10, 0)"
  "parse_hhmm ''12:00'' = Inr (12, 0)" "parse_hhmm ''20:00'' = Inr (20, 0)"
  by code_simp+

lemmas demo_simps = demo_planning_def demo_task_def demo_event_def hours_def build_working_slots_def dates_from_def window_slot_def isoweekday_def
  Let_def clock_simps free_time_def subtract_busy_def collect_busy_intervals_def busy_interval_def to_naive_local_def overlap_def
  duration_minutes_def minutes_between_def subtract_interval_def sort_slots_prefer_weekday_def date_of_def upt_rec required_minutes_def
  put_back_def

lemma demo_weights_used: "pc_weights (demo_planning b hs) = demo_weights"
  by (simp add: demo_planning_def)

text \<open>Tasks of the same weight keep their order.\<close>

lemma demo_ranked:
  assumes "pc_weights cfg = demo_weights"
  shows "rank_tasks (pc_weights cfg) d [demo_task i n, demo_task j m] = [(demo_task i n, 36 / 100), (demo_task j m, 36 / 100)]"
proof -
  have score: "score_task demo_weights d (demo_task i n) = 36 / 100" for i n
    by (simp add: score_task_def demo_task_def days_to_due_def clamp_def demo_weights_def)
  have key: "rank_key (demo_task i n, x) = (- x, date_max, - 3, - 3)" for i n x
    by (simp add: rank_key_def demo_task_def)
  show ?thesis by (simp add: rank_tasks_def assms score key)
qed

text \<open>with a window inside another the period seems to end with the inner one: a meeting at noon does not keep the task that
  fills the day from being planned over it.\<close>

theorem nested_windows_double_book:
  "\<exists>r p. plan_tasks (demo_planning True [hours 1 ''08:00'' ''20:00'', hours 1 ''09:00'' ''10:00'']) [demo_task ''t'' 720]
       [demo_event (at_time 1 12 0) (at_time 1 13 0)] 1 1 = Inr r \<and> p \<in> set (pr_planned r) \<and>
     occupies (demo_planning True []) (demo_event (at_time 1 12 0) (at_time 1 13 0)) (pi_start p) (pi_end p)"
proof -
  let ?cfg = "demo_planning True [hours 1 ''08:00'' ''20:00'', hours 1 ''09:00'' ''10:00'']"
  have w: "build_working_slots ?cfg 1 1 = Inr [free_slot (at_time 1 8 0) (at_time 1 20 0) (Some ''working time''),
      free_slot (at_time 1 9 0) (at_time 1 10 0) (Some ''working time'')]"
    by (simp add: demo_simps demo_clock)
  show ?thesis unfolding plan_tasks_def using w
    by (simp add: rank_tasks_def demo_simps occupies_def)
qed

text \<open>working days come first only until a task has been placed: what is left of its slot goes back by time, and the next
  task is put on Saturday although Monday has room.\<close>

theorem weekend_before_free_weekday:
  "\<exists>r p. plan_tasks (demo_planning True [hours 6 ''09:00'' ''12:00'', hours 1 ''09:00'' ''12:00'']) [demo_task ''a'' 60, demo_task ''b'' 60] [] 6 3 = Inr r \<and>
     pr_planned r = [p, \<lparr>pi_task = ''b'', pi_start = at_time 6 9 0, pi_end = at_time 6 10 0, pi_score = pi_score p\<rparr>] \<and>
     pi_task p = ''a'' \<and> pi_start p = at_time 8 9 0 \<and> pi_end p = at_time 8 10 0"
proof -
  let ?cfg = "demo_planning True [hours 6 ''09:00'' ''12:00'', hours 1 ''09:00'' ''12:00'']"
  have w: "build_working_slots ?cfg 6 3 = Inr [free_slot (at_time 6 9 0) (at_time 6 12 0) (Some ''working time''),
      free_slot (at_time 8 9 0) (at_time 8 12 0) (Some ''working time'')]"
    by (simp add: demo_simps demo_clock)
  show ?thesis unfolding plan_tasks_def using w demo_ranked [OF demo_weights_used]
    by (simp add: demo_simps)
qed

definition demo_hours :: "window list" where "demo_hours = [hours 1 ''09:00'' ''10:00'']"

lemma demo_plan:
  "\<exists>r. plan_tasks (demo_planning True demo_hours) [demo_task ''a'' 60, demo_task ''b'' 60] [] 1 1 = Inr r \<and> pr_window r \<noteq> None \<and>
     map pi_task (pr_planned r) = [''a''] \<and> map pu_task (pr_unplanned r) = [''b'']"
proof -
  have w: "build_working_slots (demo_planning True demo_hours) 1 1 = Inr [free_slot (at_time 1 9 0) (at_time 1 10 0) (Some ''working time'')]"
    by (simp add: demo_simps demo_clock demo_hours_def)
  show ?thesis unfolding plan_tasks_def using w demo_ranked [OF demo_weights_used]
    by (simp add: demo_simps)
qed

lemma demo_cfg_ok: "cfg_ok (demo_planning True demo_hours)" "sorted_wrt windows_apart (pc_hours (demo_planning True demo_hours))"
  by (simp_all add: cfg_ok_def demo_planning_def demo_hours_def)

theorem plan_never_double_books_witness:
  "\<exists>r ws w. plan_tasks (demo_planning True demo_hours) [demo_task ''a'' 60, demo_task ''b'' 60] [] 1 1 = Inr r \<and> pr_planned r \<noteq> [] \<and>
     build_working_slots (demo_planning True demo_hours) 1 1 = Inr ws \<and> w \<in> set ws \<and> ts_start w \<le> pi_start (hd (pr_planned r))"
proof -
  from demo_plan obtain r where r: "plan_tasks (demo_planning True demo_hours) [demo_task ''a'' 60, demo_task ''b'' 60] [] 1 1 = Inr r"
    "pr_window r \<noteq> None" "map pi_task (pr_planned r) = [''a'']" "map pu_task (pr_unplanned r) = [''b'']" by (elim exE conjE)
  have ne: "pr_planned r \<noteq> []" using r(3) by (metis list.simps(8) not_Cons_self2)
  have "(if (1::int) < 1 then 1 else 1) = (1::int)" by simp
  then have "\<exists>ws w. build_working_slots (demo_planning True demo_hours) 1 1 = Inr ws \<and> w \<in> set ws \<and> ts_start w \<le> pi_start (hd (pr_planned r))"
    using conjunct2 [OF plan_never_double_books [OF demo_cfg_ok r(1)], THEN bspec, OF hd_in_set [OF ne]] by metis
  then show ?thesis using r(1) ne by blast
qed


end
