(* ===== verification/Schedule_Store.thy ===== *)
theory Schedule_Store
  imports Planner
begin

text \<open>
  The stored events and tasks (\<open>agent_core/storage/json_repository.py\<close>) and the tools that
  create, query, change and delete them (\<open>system/tools/storage_tools.py\<close>).

  A repository is the dictionary of its file; an entry that does not validate stays there and is
  skipped by every read. Metadata, time stamps and reminders are left out. The parsing of ISO dates, the time
  stamp of a datetime and the current date are parameters.
\<close>

section \<open>Repositories\<close>

definition repo_create :: "('a \<Rightarrow> str) \<Rightarrow> 'a \<Rightarrow> (str, 'a) dict \<Rightarrow> (str, 'a) dict" where
  "repo_create id_of x data = dset (id_of x) x data"

definition repo_get :: "('a \<Rightarrow> bool) \<Rightarrow> str \<Rightarrow> (str, 'a) dict \<Rightarrow> 'a option" where
  "repo_get valid i data = (case map_of data i of Some x \<Rightarrow> if valid x then Some x else None | None \<Rightarrow> None)"

definition repo_update :: "('a \<Rightarrow> str) \<Rightarrow> 'a \<Rightarrow> (str, 'a) dict \<Rightarrow> (str, 'a) dict" where
  "repo_update id_of x data = (if \<not> has_key (id_of x) data then data else dset (id_of x) x data)"

definition repo_delete :: "str \<Rightarrow> (str, 'a) dict \<Rightarrow> bool \<times> (str, 'a) dict" where
  "repo_delete i data = (if \<not> has_key i data then (False, data) else (True, dpop i data))"

definition repo_get_all :: "('a \<Rightarrow> bool) \<Rightarrow> (str, 'a) dict \<Rightarrow> 'a list" where
  "repo_get_all valid data = filter valid (map snd data)"

definition repo_count :: "(str, 'a) dict \<Rightarrow> nat" where "repo_count data = length data"

definition short :: "nat \<Rightarrow> str option \<Rightarrow> bool" where
  "short n s = (case s of None \<Rightarrow> True | Some t \<Rightarrow> length t \<le> n)"

definition event_valid :: "cal_event \<Rightarrow> bool" where
  "event_valid ev \<longleftrightarrow> 1 \<le> length (ev_title ev) \<and> length (ev_title ev) \<le> 200 \<and> short 2000 (ev_description ev) \<and> short 200 (ev_location ev) \<and>
     ev_source ev \<in> {''user'', ''canvas'', ''planner'', ''course_import'', ''system''} \<and>
     ev_type ev \<in> {''normal'', ''course'', ''deadline'', ''planned_block''} \<and>
     short 200 (ev_origin ev) \<and> short 64 (ev_task ev) \<and> short 64 (ev_run ev)"

definition task_valid :: "cal_task \<Rightarrow> bool" where
  "task_valid t \<longleftrightarrow> 1 \<le> length (tk_title t) \<and> length (tk_title t) \<le> 200 \<and> short 2000 (tk_description t) \<and>
     1 \<le> tk_minutes t \<and> tk_minutes t \<le> 1440 \<and> 1 \<le> tk_difficulty t \<and> tk_difficulty t \<le> 5 \<and>
     1 \<le> tk_importance t \<and> tk_importance t \<le> 5 \<and>
     tk_source t \<in> {''user'', ''canvas'', ''planner'', ''system''} \<and> short 200 (tk_origin t) \<and> short 64 (tk_deadline_event t)"

record schedule =
  sc_events :: "(str, cal_event) dict"
  sc_tasks :: "(str, cal_task) dict"

record sched_env =
  se_stamp :: "py_datetime \<Rightarrow> int"
  se_iso :: "str \<Rightarrow> py_datetime option"
  se_iso_date :: "str \<Rightarrow> date option"
  se_strptime :: "str \<Rightarrow> date option"
  se_today :: date

definition all_events :: "schedule \<Rightarrow> cal_event list" where "all_events S = repo_get_all event_valid (sc_events S)"

definition all_tasks :: "schedule \<Rightarrow> cal_task list" where "all_tasks S = repo_get_all task_valid (sc_tasks S)"

definition get_event :: "str \<Rightarrow> schedule \<Rightarrow> cal_event option" where "get_event i S = repo_get event_valid i (sc_events S)"

definition get_task :: "str \<Rightarrow> schedule \<Rightarrow> cal_task option" where "get_task i S = repo_get task_valid i (sc_tasks S)"

definition update_event :: "cal_event \<Rightarrow> schedule \<Rightarrow> schedule" where
  "update_event ev S = S\<lparr>sc_events := repo_update ev_id ev (sc_events S)\<rparr>"

definition update_task :: "cal_task \<Rightarrow> schedule \<Rightarrow> schedule" where
  "update_task t S = S\<lparr>sc_tasks := repo_update tk_id t (sc_tasks S)\<rparr>"

section \<open>Queries\<close>

definition midnight :: "date \<Rightarrow> py_datetime" where "midnight d = Naive (d * day)"

definition get_by_date_range :: "sched_env \<Rightarrow> py_datetime \<Rightarrow> py_datetime \<Rightarrow> schedule \<Rightarrow> cal_event list" where
  "get_by_date_range E s e S =
     filter (\<lambda>ev. se_stamp E (ev_start ev) < se_stamp E e \<and> se_stamp E (ev_end ev) > se_stamp E s \<and> ev_status ev \<noteq> Cancelled) (all_events S)"

definition get_by_date :: "sched_env \<Rightarrow> date \<Rightarrow> schedule \<Rightarrow> cal_event list" where
  "get_by_date E d = get_by_date_range E (midnight d) (Naive (d * day + day - 1))"

definition get_today :: "sched_env \<Rightarrow> schedule \<Rightarrow> cal_event list" where "get_today E = get_by_date E (se_today E)"

definition get_upcoming :: "sched_env \<Rightarrow> int \<Rightarrow> schedule \<Rightarrow> cal_event list" where
  "get_upcoming E days = get_by_date_range E (midnight (se_today E)) (midnight (se_today E + days))"

definition events_by_status :: "event_status \<Rightarrow> schedule \<Rightarrow> cal_event list" where
  "events_by_status st S = filter (\<lambda>ev. ev_status ev = st) (all_events S)"

definition is_conflict_with :: "sched_env \<Rightarrow> cal_event \<Rightarrow> cal_event \<Rightarrow> bool" where
  "is_conflict_with E a b \<longleftrightarrow>
     (if ev_status a = Cancelled \<or> ev_status b = Cancelled then False
      else se_stamp E (ev_start a) < se_stamp E (ev_end b) \<and> se_stamp E (ev_end a) > se_stamp E (ev_start b))"

definition find_conflicts :: "sched_env \<Rightarrow> cal_event \<Rightarrow> str \<Rightarrow> schedule \<Rightarrow> cal_event list" where
  "find_conflicts E ev exclude_id S =
     filter (\<lambda>x. \<not> (exclude_id \<noteq> [] \<and> ev_id x = exclude_id) \<and> is_conflict_with E ev x) (all_events S)"

definition mentions :: "str \<Rightarrow> str \<Rightarrow> str option \<Rightarrow> str list \<Rightarrow> bool" where
  "mentions q title description tags \<longleftrightarrow>
     sublist (lower q) (lower title) \<or> (opt_str description \<noteq> [] \<and> sublist (lower q) (lower (opt_str description))) \<or>
     list_ex (\<lambda>t. sublist (lower q) (lower t)) tags"

definition search_events :: "str \<Rightarrow> schedule \<Rightarrow> cal_event list" where
  "search_events q S = filter (\<lambda>ev. mentions q (ev_title ev) (ev_description ev) (ev_tags ev)) (all_events S)"

definition tasks_by_status :: "todo_status \<Rightarrow> schedule \<Rightarrow> cal_task list" where
  "tasks_by_status st S = filter (\<lambda>t. tk_status t = st) (all_tasks S)"

definition get_todo :: "schedule \<Rightarrow> cal_task list" where "get_todo = tasks_by_status TODO"

definition get_completed :: "schedule \<Rightarrow> cal_task list" where "get_completed = tasks_by_status COMPLETED"

definition get_overdue :: "sched_env \<Rightarrow> schedule \<Rightarrow> cal_task list" where
  "get_overdue E S = filter (is_overdue (se_today E)) (all_tasks S)"

definition get_due_today :: "sched_env \<Rightarrow> schedule \<Rightarrow> cal_task list" where
  "get_due_today E S = filter (\<lambda>t. tk_due t = Some (se_today E) \<and> tk_status t \<notin> {COMPLETED, CANCELLED}) (all_tasks S)"

definition get_due_this_week :: "sched_env \<Rightarrow> schedule \<Rightarrow> cal_task list" where
  "get_due_this_week E S =
     (let week_end = se_today E + (7 - weekday (se_today E))
      in filter (\<lambda>t. (case tk_due t of None \<Rightarrow> False | Some due \<Rightarrow> se_today E \<le> due \<and> due \<le> week_end \<and> tk_status t \<notin> {COMPLETED, CANCELLED})) (all_tasks S))"

definition get_scheduled :: "schedule \<Rightarrow> cal_task list" where "get_scheduled S = filter is_scheduled (all_tasks S)"

definition get_unscheduled :: "schedule \<Rightarrow> cal_task list" where
  "get_unscheduled S = filter (\<lambda>t. \<not> is_scheduled t \<and> tk_status t = TODO) (all_tasks S)"

definition search_tasks :: "str \<Rightarrow> schedule \<Rightarrow> cal_task list" where
  "search_tasks q S = filter (\<lambda>t. mentions q (tk_title t) (tk_description t) (tk_tags t)) (all_tasks S)"

section \<open>Arguments\<close>

text \<open>An exception, or a refusal with its code.\<close>

datatype failure = Raise py_exn | Refuse str

definition and_then :: "'e + 'a \<Rightarrow> ('a \<Rightarrow> 'e + 'b) \<Rightarrow> 'e + 'b" where
  "and_then x f = (case x of Inl e \<Rightarrow> Inl e | Inr a \<Rightarrow> f a)"

lemma and_then_simps [simp]: "and_then (Inl e) f = Inl e" "and_then (Inr a) f = f a"
  by (simp_all add: and_then_def)

definition invalid :: failure where "invalid = Raise (ValueError ''ValidationError'')"

definition text_or_none :: "pyval \<Rightarrow> failure + str option" where
  "text_or_none v = (case v of PyNone \<Rightarrow> Inr None | PyStr s \<Rightarrow> Inr (Some s) | _ \<Rightarrow> Inl invalid)"

definition text_arg :: "pyval \<Rightarrow> failure + str" where
  "text_arg v = (case v of PyStr s \<Rightarrow> Inr s | _ \<Rightarrow> Inl invalid)"

fun all_strs :: "pyval list \<Rightarrow> str list option" where
  "all_strs [] = Some []"
| "all_strs (PyStr s # vs) = (case all_strs vs of None \<Rightarrow> None | Some ss \<Rightarrow> Some (s # ss))"
| "all_strs (v # vs) = None"

definition tags_arg :: "pyval \<Rightarrow> failure + str list" where
  "tags_arg v = (case v of PyList vs \<Rightarrow> (case all_strs vs of None \<Rightarrow> Inl invalid | Some ss \<Rightarrow> Inr ss) | _ \<Rightarrow> Inl invalid)"

definition bool_arg :: "pyval \<Rightarrow> failure + bool" where
  "bool_arg v =
     (case v of PyBool b \<Rightarrow> Inr b
      | PyInt i \<Rightarrow> if i = 0 then Inr False else if i = 1 then Inr True else Inl invalid
      | PyStr s \<Rightarrow> if lower s \<in> {''1'', ''on'', ''t'', ''true'', ''y'', ''yes''} then Inr True
          else if lower s \<in> {''0'', ''off'', ''f'', ''false'', ''n'', ''no''} then Inr False else Inl invalid
      | _ \<Rightarrow> Inl invalid)"

definition metadata_ok :: "pyval \<Rightarrow> failure + unit" where
  "metadata_ok v = (if truthy v \<and> \<not> is_dict v then Inl invalid else Inr ())"

definition priority_of :: "pyval \<Rightarrow> priority option" where
  "priority_of v =
     (if v = PyStr ''low'' then Some Low else if v = PyStr ''medium'' then Some Medium
      else if v = PyStr ''high'' then Some High else if v = PyStr ''urgent'' then Some Urgent else None)"

definition event_status_of :: "pyval \<Rightarrow> event_status option" where
  "event_status_of v =
     (if v = PyStr ''scheduled'' then Some Scheduled else if v = PyStr ''in_progress'' then Some In_Progress
      else if v = PyStr ''completed'' then Some Completed else if v = PyStr ''cancelled'' then Some Cancelled else None)"

definition task_status_of :: "pyval \<Rightarrow> todo_status option" where
  "task_status_of v =
     (if v = PyStr ''todo'' then Some TODO else if v = PyStr ''in_progress'' then Some IN_PROGRESS
      else if v = PyStr ''completed'' then Some COMPLETED else if v = PyStr ''cancelled'' then Some CANCELLED else None)"

text \<open>An integer, in the sense of \<open>isinstance\<close>, within bounds, or else the default.\<close>

definition int_within :: "int \<Rightarrow> int option \<Rightarrow> int \<Rightarrow> pyval \<Rightarrow> int" where
  "int_within low high dflt v =
     (case v of
        PyInt i \<Rightarrow> if i < low \<or> (case high of None \<Rightarrow> False | Some h \<Rightarrow> i > h) then dflt else i
      | PyBool b \<Rightarrow> (let i = (if b then 1 else 0) in if i < low then dflt else i)
      | _ \<Rightarrow> dflt)"

text \<open>\<open>datetime.fromisoformat(s.replace("Z", "+00:00"))\<close>\<close>

definition time_arg :: "sched_env \<Rightarrow> pyval \<Rightarrow> failure + py_datetime" where
  "time_arg E v =
     (case v of
        PyStr s \<Rightarrow> (case se_iso E (utc_suffix s) of None \<Rightarrow> Inl (Refuse ''INVALID_TIME_FORMAT'') | Some t \<Rightarrow> Inr t)
      | _ \<Rightarrow> Inl (Raise (TypeError ''AttributeError: replace'')))"

text \<open>\<open>a <= b\<close>; a naive and an aware datetime cannot be compared.\<close>

definition dt_le :: "py_datetime \<Rightarrow> py_datetime \<Rightarrow> failure + bool" where
  "dt_le a b =
     (case (a, b) of (Naive s, Naive t) \<Rightarrow> Inr (s \<le> t) | (Aware s, Aware t) \<Rightarrow> Inr (s \<le> t)
      | _ \<Rightarrow> Inl (Raise (TypeError ''compare'')))"

definition dt_add :: "py_datetime \<Rightarrow> int \<Rightarrow> py_datetime" where
  "dt_add a n = (case a of Naive t \<Rightarrow> Naive (t + n) | Aware t \<Rightarrow> Aware (t + n))"

section \<open>Tools that add\<close>

record added_event =
  ae_event :: cal_event
  ae_conflicts :: "cal_event list"

definition new_event :: "sched_env \<Rightarrow> str \<Rightarrow> (str, pyval) dict \<Rightarrow> failure + cal_event" where
  "new_event E i kw =
     (let title = py_get kw ''title''; s = py_get kw ''start_time''; e = py_get kw ''end_time''
      in if \<not> truthy title then Inl (Refuse ''MISSING_TITLE'')
         else if \<not> truthy s \<or> \<not> truthy e then Inl (Refuse ''MISSING_TIME'')
         else and_then (time_arg E s) (\<lambda>start_time.
           and_then (time_arg E e) (\<lambda>end_time.
           and_then (dt_le end_time start_time) (\<lambda>backwards.
             if backwards then Inl (Refuse ''INVALID_TIME_RANGE'')
             else and_then (text_arg title) (\<lambda>ttl.
               and_then (text_or_none (py_get kw ''description'')) (\<lambda>description.
               and_then (text_or_none (py_get kw ''location'')) (\<lambda>location.
               and_then (tags_arg (py_get_or kw ''tags'' (PyList []))) (\<lambda>tags.
               and_then (text_arg (py_get_or kw ''source'' (PyStr ''user''))) (\<lambda>source.
               and_then (text_arg (py_get_or kw ''event_type'' (PyStr ''normal''))) (\<lambda>etype.
               and_then (bool_arg (py_get_or kw ''is_blocking'' (PyBool True))) (\<lambda>blocking.
               and_then (text_or_none (py_get kw ''origin_ref'')) (\<lambda>origin.
               and_then (text_or_none (py_get kw ''linked_task_id'')) (\<lambda>linked.
               and_then (text_or_none (py_get kw ''plan_run_id'')) (\<lambda>run.
               and_then (metadata_ok (py_get kw ''metadata'')) (\<lambda>_.
                 let ev = \<lparr>ev_id = i, ev_title = ttl, ev_description = description, ev_start = start_time, ev_end = end_time,
                        ev_location = location,
                        ev_priority = (case priority_of (py_get_or kw ''priority'' (PyStr ''medium'')) of None \<Rightarrow> Medium | Some p \<Rightarrow> p),
                        ev_status = Scheduled, ev_tags = tags, ev_source = source, ev_type = etype, ev_blocking = blocking,
                        ev_origin = origin, ev_task = linked, ev_run = run\<rparr>
                 in if event_valid ev then Inr ev else Inl invalid)))))))))))))))"

definition add_event :: "sched_env \<Rightarrow> str \<Rightarrow> (str, pyval) dict \<Rightarrow> schedule \<Rightarrow> (failure + added_event) \<times> schedule" where
  "add_event E i kw S =
     (case new_event E i kw of Inl f \<Rightarrow> (Inl f, S)
      | Inr ev \<Rightarrow> (Inr \<lparr>ae_event = ev, ae_conflicts = find_conflicts E ev [] S\<rparr>, S\<lparr>sc_events := repo_create ev_id ev (sc_events S)\<rparr>))"

definition new_task :: "sched_env \<Rightarrow> str \<Rightarrow> (str, pyval) dict \<Rightarrow> failure + cal_task" where
  "new_task E i kw =
     (let title = py_get kw ''title''; due = py_get kw ''due_date''
      in if \<not> truthy title then Inl (Refuse ''MISSING_TITLE'')
         else and_then (if \<not> truthy due then Inr None
             else case due of PyStr s \<Rightarrow> (case se_iso_date E s of None \<Rightarrow> Inl (Refuse ''INVALID_DATE_FORMAT'') | Some d \<Rightarrow> Inr (Some d))
               | _ \<Rightarrow> Inl (Raise (TypeError ''fromisoformat: argument must be str''))) (\<lambda>due_date.
           and_then (text_arg title) (\<lambda>ttl.
           and_then (text_or_none (py_get kw ''description'')) (\<lambda>description.
           and_then (tags_arg (py_get_or kw ''tags'' (PyList []))) (\<lambda>tags.
           and_then (text_arg (py_get_or kw ''source'' (PyStr ''user''))) (\<lambda>source.
           and_then (text_or_none (py_get kw ''origin_ref'')) (\<lambda>origin.
           and_then (text_or_none (py_get kw ''deadline_event_id'')) (\<lambda>deadline.
           and_then (metadata_ok (py_get kw ''metadata'')) (\<lambda>_.
             let t = \<lparr>tk_id = i, tk_title = ttl, tk_description = description,
                    tk_minutes = int_within 1 None 60 (py_get_or kw ''estimated_minutes'' (PyInt 60)), tk_due = due_date, tk_status = TODO,
                    tk_priority = (case priority_of (py_get_or kw ''priority'' (PyStr ''medium'')) of None \<Rightarrow> Medium | Some p \<Rightarrow> p),
                    tk_tags = tags, tk_difficulty = int_within 1 (Some 5) 3 (py_get_or kw ''difficulty'' (PyInt 3)),
                    tk_importance = int_within 1 (Some 5) 3 (py_get_or kw ''importance'' (PyInt 3)),
                    tk_source = source, tk_origin = origin, tk_deadline_event = deadline, tk_start = None, tk_end = None\<rparr>
             in if task_valid t then Inr t else Inl invalid)))))))))"

definition add_task :: "sched_env \<Rightarrow> str \<Rightarrow> (str, pyval) dict \<Rightarrow> schedule \<Rightarrow> (failure + cal_task) \<times> schedule" where
  "add_task E i kw S =
     (case new_task E i kw of Inl f \<Rightarrow> (Inl f, S)
      | Inr t \<Rightarrow> (Inr t, S\<lparr>sc_tasks := repo_create tk_id t (sc_tasks S)\<rparr>))"

section \<open>Tools that query\<close>

definition listed_events :: "sched_env \<Rightarrow> (str, pyval) dict \<Rightarrow> schedule \<Rightarrow> failure + str \<times> cal_event list" where
  "listed_events E kw S =
     (let query_type = py_get_or kw ''query_type'' (PyStr ''today''); d = py_get kw ''date'';
          days = int_within 1 None 7 (py_get_or kw ''days'' (PyInt 7)); found = (\<lambda>evs. Inr (py_str query_type, evs))
      in if truthy d then
           (case d of PyStr s \<Rightarrow> (case se_iso_date E s of None \<Rightarrow> Inl (Refuse ''INVALID_DATE_FORMAT'') | Some t \<Rightarrow> Inr (''date'', get_by_date E t S))
            | _ \<Rightarrow> Inl (Raise (TypeError ''fromisoformat: argument must be str'')))
         else if query_type = PyStr ''today'' then found (get_today E S)
         else if query_type = PyStr ''date'' then Inl (Refuse ''MISSING_DATE'')
         else if query_type = PyStr ''upcoming'' then found (get_upcoming E days S)
         else if query_type = PyStr ''search'' then
           (case py_get_or kw ''search_query'' (PyStr []) of
              PyStr q \<Rightarrow> if q = [] then Inl (Refuse ''MISSING_SEARCH_QUERY'') else found (search_events q S)
            | v \<Rightarrow> if truthy v then Inl (Raise (TypeError ''AttributeError: lower'')) else Inl (Refuse ''MISSING_SEARCH_QUERY''))
         else if query_type = PyStr ''all'' then found (filter (\<lambda>ev. ev_status ev \<noteq> Cancelled) (all_events S))
         else if query_type = PyStr ''range'' then
           (let a = py_get kw ''start_date''; b = py_get kw ''end_date''
            in if \<not> truthy a \<or> \<not> truthy b then Inl (Refuse ''MISSING_DATE_RANGE'')
               else case (a, b) of
                 (PyStr s, PyStr e) \<Rightarrow>
                   (case (se_iso E s, se_iso E e) of
                      (Some start_dt, Some end_dt) \<Rightarrow> found (get_by_date_range E start_dt (dt_add (dt_add end_dt day) (- 1000000)) S)
                    | _ \<Rightarrow> Inl (Refuse ''INVALID_DATE_FORMAT''))
               | _ \<Rightarrow> Inl (Raise (TypeError ''fromisoformat: argument must be str'')))
         else found (get_today E S))"

definition get_events :: "sched_env \<Rightarrow> (str, pyval) dict \<Rightarrow> schedule \<Rightarrow> failure + str \<times> cal_event list" where
  "get_events E kw S =
     (case listed_events E kw S of Inl f \<Rightarrow> Inl f
      | Inr (q, evs) \<Rightarrow> Inr (q, sort_key (\<lambda>ev. se_stamp E (ev_start ev)) evs))"

fun priority_order :: "priority \<Rightarrow> int" where
  "priority_order Urgent = 0"
| "priority_order High = 1"
| "priority_order Medium = 2"
| "priority_order Low = 3"

definition get_tasks :: "sched_env \<Rightarrow> (str, pyval) dict \<Rightarrow> schedule \<Rightarrow> failure + cal_task list \<times> str list" where
  "get_tasks E kw S =
     (let query_type = py_get_or kw ''query_type'' (PyStr ''todo'');
          listed = (if query_type = PyStr ''completed'' then Inr (get_completed S)
             else if query_type = PyStr ''overdue'' then Inr (get_overdue E S)
             else if query_type = PyStr ''search'' then
               (case py_get_or kw ''search_query'' (PyStr []) of
                  PyStr q \<Rightarrow> if q = [] then Inl (Refuse ''MISSING_SEARCH_QUERY'') else Inr (search_tasks q S)
                | v \<Rightarrow> if truthy v then Inl (Raise (TypeError ''AttributeError: lower'')) else Inl (Refuse ''MISSING_SEARCH_QUERY''))
             else if query_type = PyStr ''all'' then Inr (filter (\<lambda>t. tk_status t \<noteq> CANCELLED) (all_tasks S))
             else Inr (get_todo S))
      in case listed of Inl f \<Rightarrow> Inl f
         | Inr ts \<Rightarrow>
             (let ts = sort_key (\<lambda>t. (priority_order (tk_priority t), case tk_due t of None \<Rightarrow> date_max | Some d \<Rightarrow> d)) ts
              in Inr (ts, if query_type \<noteq> PyStr ''overdue'' then map tk_id (filter (is_overdue (se_today E)) ts) else [])))"

section \<open>Tools that change\<close>

definition lookup_id :: "(str \<Rightarrow> 'a option) \<Rightarrow> pyval \<Rightarrow> failure + 'a option" where
  "lookup_id look v =
     (case v of PyStr i \<Rightarrow> Inr (look i) | PyList _ \<Rightarrow> Inl (Raise (TypeError ''unhashable'')) | PyDict _ \<Rightarrow> Inl (Raise (TypeError ''unhashable''))
      | _ \<Rightarrow> Inr None)"

text \<open>The status of a deadline goes to its task at once.\<close>

definition close_linked_task :: "cal_event \<Rightarrow> event_status \<Rightarrow> schedule \<Rightarrow> bool \<times> schedule" where
  "close_linked_task ev target S =
     (if ev_type ev = ''deadline'' \<and> opt_str (ev_task ev) \<noteq> []
      then case get_task (opt_str (ev_task ev)) S of None \<Rightarrow> (False, S)
        | Some t \<Rightarrow>
            if target = Completed then (True, update_task (mark_completed t) S)
            else if target = Cancelled then (True, update_task (mark_cancelled t) S)
            else (False, S)
      else (False, S))"

definition change_title :: "pyval \<Rightarrow> cal_event \<Rightarrow> failure + cal_event" where
  "change_title v ev =
     (if v = PyNone then Inr ev
      else case v of PyStr s \<Rightarrow> if strip s = [] then Inl (Refuse ''INVALID_TITLE'') else Inr (ev\<lparr>ev_title := s\<rparr>)
        | _ \<Rightarrow> Inl (Refuse ''INVALID_TITLE''))"

definition change_priority :: "pyval \<Rightarrow> cal_event \<Rightarrow> failure + cal_event" where
  "change_priority v ev =
     (if v = PyNone then Inr ev
      else case priority_of v of None \<Rightarrow> Inl (Refuse ''INVALID_PRIORITY'') | Some p \<Rightarrow> Inr (ev\<lparr>ev_priority := p\<rparr>))"

definition change_tags :: "pyval \<Rightarrow> cal_event \<Rightarrow> failure + cal_event" where
  "change_tags v ev =
     (if v = PyNone then Inr ev
      else case v of PyList vs \<Rightarrow> (case all_strs vs of None \<Rightarrow> Inl (Refuse ''INVALID_TAGS'') | Some ss \<Rightarrow> Inr (ev\<lparr>ev_tags := ss\<rparr>))
        | _ \<Rightarrow> Inl (Refuse ''INVALID_TAGS''))"

definition change_text :: "(str option \<Rightarrow> cal_event \<Rightarrow> cal_event) \<Rightarrow> pyval \<Rightarrow> cal_event \<Rightarrow> cal_event" where
  "change_text put v ev = (if v = PyNone then ev else put (Some (py_str v)) ev)"

definition change_time :: "sched_env \<Rightarrow> (py_datetime \<Rightarrow> cal_event \<Rightarrow> cal_event) \<Rightarrow> pyval \<Rightarrow> cal_event \<Rightarrow> failure + cal_event" where
  "change_time E put v ev = (if v = PyNone then Inr ev else and_then (time_arg E v) (\<lambda>t. Inr (put t ev)))"

definition changed_fields :: "sched_env \<Rightarrow> (str, pyval) dict \<Rightarrow> cal_event \<Rightarrow> failure + cal_event" where
  "changed_fields E kw ev =
     and_then (change_title (py_get kw ''title'') ev) (\<lambda>ev.
       let ev = change_text (\<lambda>d ev. ev\<lparr>ev_description := d\<rparr>) (py_get kw ''description'') ev;
           ev = change_text (\<lambda>l ev. ev\<lparr>ev_location := l\<rparr>) (py_get kw ''location'') ev
       in and_then (change_priority (py_get kw ''priority'') ev) (\<lambda>ev.
          and_then (change_tags (py_get kw ''tags'') ev) (\<lambda>ev.
          and_then (change_time E (\<lambda>t ev. ev\<lparr>ev_start := t\<rparr>) (py_get kw ''start_time'') ev) (\<lambda>ev.
          and_then (change_time E (\<lambda>t ev. ev\<lparr>ev_end := t\<rparr>) (py_get kw ''end_time'') ev) (\<lambda>ev.
          and_then (dt_le (ev_end ev) (ev_start ev)) (\<lambda>backwards.
            if backwards then Inl (Refuse ''INVALID_TIME_RANGE'') else Inr ev))))))"

definition update_keys :: "str list" where
  "update_keys = [''status'', ''title'', ''start_time'', ''end_time'', ''description'', ''location'', ''priority'', ''tags'']"

record changed_event =
  ce_event :: cal_event
  ce_conflicts :: "cal_event list"
  ce_linked :: bool

definition change_event :: "sched_env \<Rightarrow> (str, pyval) dict \<Rightarrow> schedule \<Rightarrow> (failure + changed_event) \<times> schedule" where
  "change_event E kw S =
     (let event_id = py_get kw ''event_id''; st = py_get kw ''status''
      in if \<not> truthy event_id then (Inl (Refuse ''MISSING_EVENT_ID''), S)
         else if list_all (\<lambda>k. py_get kw k = PyNone) update_keys then (Inl (Refuse ''MISSING_UPDATE_PARAM''), S)
         else case lookup_id (\<lambda>i. get_event i S) event_id of Inl f \<Rightarrow> (Inl f, S)
           | Inr None \<Rightarrow> (Inl (Refuse ''EVENT_NOT_FOUND''), S)
           | Inr (Some ev) \<Rightarrow>
               if truthy st \<and> event_status_of st = None then (Inl (Refuse ''INVALID_STATUS''), S)
               else let target = the (event_status_of st);
                        ev1 = (if truthy st then ev\<lparr>ev_status := target\<rparr> else ev);
                        (linked, S1) = (if truthy st then close_linked_task ev1 target S else (False, S))
                 in (case changed_fields E kw ev1 of Inl f \<Rightarrow> (Inl f, S1)
                     | Inr ev2 \<Rightarrow>
                         (let S2 = update_event ev2 S1
                          in (Inr \<lparr>ce_event = ev2, ce_conflicts = find_conflicts E ev2 (ev_id ev2) S2, ce_linked = linked\<rparr>, S2))))"

definition close_deadline_event :: "cal_task \<Rightarrow> todo_status \<Rightarrow> schedule \<Rightarrow> bool \<times> schedule" where
  "close_deadline_event t target S =
     (if opt_str (tk_deadline_event t) \<noteq> []
      then case get_event (opt_str (tk_deadline_event t)) S of None \<Rightarrow> (False, S)
        | Some ev \<Rightarrow>
            if target = COMPLETED then (True, update_event (ev\<lparr>ev_status := Completed\<rparr>) S)
            else if target = CANCELLED then (True, update_event (ev\<lparr>ev_status := Cancelled\<rparr>) S)
            else (False, S)
      else (False, S))"

definition with_status :: "pyval \<Rightarrow> cal_task \<Rightarrow> schedule \<Rightarrow> cal_task \<times> bool \<times> schedule" where
  "with_status st t S =
     (if \<not> truthy st then (t, False, S)
      else let target = the (task_status_of st);
               t1 = (if target = COMPLETED then mark_completed t else if target = CANCELLED then mark_cancelled t else t\<lparr>tk_status := target\<rparr>)
           in (t1, close_deadline_event t1 target S))"

definition with_due :: "sched_env \<Rightarrow> pyval \<Rightarrow> cal_task \<Rightarrow> failure + cal_task" where
  "with_due E due t =
     (if \<not> truthy due then Inr t
      else case due of
        PyStr s \<Rightarrow> (case se_strptime E s of None \<Rightarrow> Inl (Refuse ''INVALID_DATE_FORMAT'') | Some d \<Rightarrow> Inr (t\<lparr>tk_due := Some d\<rparr>))
      | _ \<Rightarrow> Inl (Raise (TypeError ''strptime'')))"

definition change_task :: "sched_env \<Rightarrow> (str, pyval) dict \<Rightarrow> schedule \<Rightarrow> (failure + cal_task \<times> bool) \<times> schedule" where
  "change_task E kw S =
     (let task_id = py_get kw ''task_id''; st = py_get kw ''status''; due = py_get kw ''due_date''
      in if \<not> truthy task_id then (Inl (Refuse ''MISSING_TASK_ID''), S)
         else if \<not> truthy st \<and> \<not> truthy due then (Inl (Refuse ''MISSING_UPDATE_PARAM''), S)
         else case lookup_id (\<lambda>i. get_task i S) task_id of Inl f \<Rightarrow> (Inl f, S)
           | Inr None \<Rightarrow> (Inl (Refuse ''TASK_NOT_FOUND''), S)
           | Inr (Some t) \<Rightarrow>
               if truthy st \<and> task_status_of st = None then (Inl (Refuse ''INVALID_STATUS''), S)
               else case with_status st t S of (t1, linked, S1) \<Rightarrow>
                 (case with_due E due t1 of Inl f \<Rightarrow> (Inl f, S1) | Inr t2 \<Rightarrow> (Inr (t2, linked), update_task t2 S1)))"

section \<open>Deleting\<close>

fun deduplicate_ids :: "str list \<Rightarrow> pyval list \<Rightarrow> str list" where
  "deduplicate_ids seen [] = []"
| "deduplicate_ids seen (v # vs) =
     (case v of PyStr i \<Rightarrow> if i \<noteq> [] \<and> i \<notin> set seen then i # deduplicate_ids (i # seen) vs else deduplicate_ids seen vs
      | _ \<Rightarrow> deduplicate_ids seen vs)"

text \<open>The ids that were there, those that were not, and what is left.\<close>

fun delete_each :: "str list \<Rightarrow> (str, 'a) dict \<Rightarrow> str list \<times> str list \<times> (str, 'a) dict" where
  "delete_each [] data = ([], [], data)"
| "delete_each (i # rest) data =
     (case repo_delete i data of (found, data) \<Rightarrow>
        (case delete_each rest data of (gone, missing, data) \<Rightarrow>
           if found then (i # gone, missing, data) else (gone, i # missing, data)))"

definition delete_targets :: "(str, pyval) dict \<Rightarrow> str list \<Rightarrow> failure + str list" where
  "delete_targets kw every =
     (let raw = (if py_get_or kw ''target_ids'' (PyList []) = PyNone then PyList [] else py_get_or kw ''target_ids'' (PyList []));
          ids = deduplicate_ids [] (list_of raw); delete_all = truthy (py_get_or kw ''delete_all'' (PyBool False))
      in if \<not> is_list raw then Inl (Refuse ''INVALID_TARGET_IDS'')
         else if delete_all \<and> ids \<noteq> [] then Inl (Refuse ''CONFLICTING_PARAMETERS'')
         else if delete_all then Inr every
         else if ids = [] then Inl (Refuse ''MISSING_TARGET_IDS'')
         else Inr ids)"

definition delete_from :: "(str, pyval) dict \<Rightarrow> str list \<Rightarrow> (str, 'a) dict \<Rightarrow> (failure + str list \<times> str list) \<times> (str, 'a) dict" where
  "delete_from kw every data =
     (case delete_targets kw every of Inl f \<Rightarrow> (Inl f, data)
      | Inr ids \<Rightarrow>
          (case delete_each ids data of (gone, missing, data') \<Rightarrow>
             (if gone = [] then Inl (Refuse ''NOTHING_DELETED'') else Inr (gone, missing), data')))"

definition delete_schedule_data :: "(str, pyval) dict \<Rightarrow> schedule \<Rightarrow> (failure + str list \<times> str list) \<times> schedule" where
  "delete_schedule_data kw S =
     (let rt = py_get kw ''resource_type''
      in if rt \<noteq> PyStr ''event'' \<and> rt \<noteq> PyStr ''task'' then (Inl (Refuse ''INVALID_RESOURCE_TYPE''), S)
         else if py_get_or kw ''confirm'' (PyBool False) \<noteq> PyBool True then (Inl (Refuse ''CONFIRMATION_REQUIRED''), S)
         else if rt = PyStr ''event''
         then (case delete_from kw (map ev_id (all_events S)) (sc_events S) of (r, d) \<Rightarrow> (r, S\<lparr>sc_events := d\<rparr>))
         else (case delete_from kw (map tk_id (all_tasks S)) (sc_tasks S) of (r, d) \<Rightarrow> (r, S\<lparr>sc_tasks := d\<rparr>)))"

section \<open>Entries stand under their ids\<close>

definition keyed :: "('a \<Rightarrow> str) \<Rightarrow> (str, 'a) dict \<Rightarrow> bool" where
  "keyed id_of data \<longleftrightarrow> dict_ok data \<and> (\<forall>k x. map_of data k = Some x \<longrightarrow> id_of x = k)"

definition schedule_ok :: "schedule \<Rightarrow> bool" where
  "schedule_ok S \<longleftrightarrow> keyed ev_id (sc_events S) \<and> keyed tk_id (sc_tasks S)"

lemma keyed_dset: "keyed f d \<Longrightarrow> keyed f (dset (f x) x d)"
  by (auto simp: keyed_def)

lemma keyed_update: "keyed f d \<Longrightarrow> keyed f (repo_update f x d)"
  by (simp add: repo_update_def keyed_dset)

lemma keyed_delete: "keyed f d \<Longrightarrow> keyed f (snd (repo_delete i d))"
  by (auto simp: repo_delete_def keyed_def)

lemma keyed_delete_each: "keyed f d \<Longrightarrow> keyed f (snd (snd (delete_each ids d)))"
proof (induction ids arbitrary: d)
  case (Cons i ids)
  then show ?case using Cons.IH [OF keyed_delete [OF Cons.prems, of i]]
    by (auto split: prod.splits)
qed simp

lemma delete_from_data: "snd (delete_from kw every d) = (case delete_targets kw every of Inl f \<Rightarrow> d | Inr ids \<Rightarrow> snd (snd (delete_each ids d)))"
  by (auto simp: delete_from_def split: sum.splits prod.splits)

lemma schedule_ok_update [intro]: "schedule_ok S \<Longrightarrow> schedule_ok (update_event ev S)" "schedule_ok S \<Longrightarrow> schedule_ok (update_task t S)"
  by (simp_all add: schedule_ok_def update_event_def update_task_def keyed_update)

lemma schedule_ok_links: "schedule_ok S \<Longrightarrow> schedule_ok (snd (close_linked_task ev st S))" "schedule_ok S \<Longrightarrow> schedule_ok (snd (close_deadline_event t ts S))"
  by (auto simp: close_linked_task_def close_deadline_event_def split: option.splits)

lemma schedule_ok_change_event: "schedule_ok S \<Longrightarrow> schedule_ok (snd (change_event E kw S))"
  using schedule_ok_links(1)
  by (auto simp: change_event_def Let_def split: sum.splits option.splits prod.splits) (metis snd_conv schedule_ok_update(1))+

lemma schedule_ok_with_status: "schedule_ok S \<Longrightarrow> schedule_ok (snd (snd (with_status st t S)))"
  using schedule_ok_links(2) by (simp add: with_status_def Let_def)

lemma schedule_ok_change_task:
  assumes "schedule_ok S"
  shows "schedule_ok (snd (change_task E kw S))"
proof (cases "lookup_id (\<lambda>i. get_task i S) (py_get kw ''task_id'')")
  case (Inl f)
  then show ?thesis using assms by (simp add: change_task_def Let_def)
next
  case (Inr found)
  show ?thesis
  proof (cases found)
    case None
    then show ?thesis using assms Inr by (simp add: change_task_def Let_def)
  next
    case (Some t)
    obtain t1 linked S1 where w: "with_status (py_get kw ''status'') t S = (t1, linked, S1)" by (metis prod.exhaust)
    then have "schedule_ok S1" using schedule_ok_with_status [OF assms, of "py_get kw ''status''" t] by simp
    then show ?thesis using assms
      by (cases "with_due E (py_get kw ''due_date'') t1") (simp_all add: change_task_def Let_def Inr Some w schedule_ok_update)
  qed
qed

lemma schedule_ok_delete:
  assumes "schedule_ok S"
  shows "schedule_ok (snd (delete_schedule_data kw S))"
proof -
  have "keyed ev_id (snd (delete_from kw is (sc_events S)))" "keyed tk_id (snd (delete_from kw is (sc_tasks S)))" for "is"
    using assms by (auto simp: delete_from_data schedule_ok_def keyed_delete_each split: sum.split)
  then show ?thesis using assms
    by (simp add: delete_schedule_data_def Let_def schedule_ok_def case_prod_beta)
qed

lemma schedule_ok_add: "schedule_ok S \<Longrightarrow> schedule_ok (snd (add_event E i kw S))" "schedule_ok S \<Longrightarrow> schedule_ok (snd (add_task E i kw S))"
  by (auto simp: add_event_def add_task_def schedule_ok_def repo_create_def keyed_dset split: sum.splits)

text \<open>whatever the tools do, each stored event and task stands under its own id, once.\<close>

theorem schedule_stays_keyed:
  assumes "schedule_ok S"
  shows "schedule_ok (snd (add_event E i kw S)) \<and> schedule_ok (snd (add_task E i kw S)) \<and> schedule_ok (snd (change_event E kw S)) \<and>
    schedule_ok (snd (change_task E kw S)) \<and> schedule_ok (snd (delete_schedule_data kw S))"
  using assms schedule_ok_add schedule_ok_change_event schedule_ok_change_task schedule_ok_delete by simp

section \<open>Adding\<close>

lemma new_event_ok: "new_event E i kw = Inr ev \<Longrightarrow> event_valid ev \<and> ev_id ev = i \<and> dt_le (ev_end ev) (ev_start ev) = Inr False"
  by (auto simp: new_event_def and_then_def Let_def split: if_splits sum.splits)

text \<open>an event is added as asked and can be read back, no other entry changes, and the warning names exactly the
  stored events that are not cancelled and overlap it; a refused or failed call changes nothing.\<close>

theorem added_event_and_its_conflicts:
  "case add_event E i kw S of (r, S') \<Rightarrow>
     sc_tasks S' = sc_tasks S \<and>
     (case r of
        Inl f \<Rightarrow> S' = S
      | Inr a \<Rightarrow>
          get_event i S' = Some (ae_event a) \<and> ev_status (ae_event a) = Scheduled \<and> dt_le (ev_end (ae_event a)) (ev_start (ae_event a)) = Inr False \<and>
          (\<forall>j. get_event j S' = (if j = i then Some (ae_event a) else get_event j S)) \<and>
          set (ae_conflicts a) = {x \<in> set (all_events S). ev_status x \<noteq> Cancelled \<and>
            se_stamp E (ev_start (ae_event a)) < se_stamp E (ev_end x) \<and> se_stamp E (ev_start x) < se_stamp E (ev_end (ae_event a))})"
proof (cases "new_event E i kw")
  case (Inl f)
  then show ?thesis by (simp add: add_event_def)
next
  case (Inr ev)
  note ok = new_event_ok [OF Inr]
  have "ev_status ev = Scheduled" using Inr by (auto simp: new_event_def and_then_def Let_def split: if_splits sum.splits)
  then show ?thesis using ok
    by (auto simp: add_event_def Inr get_event_def repo_get_def repo_create_def find_conflicts_def is_conflict_with_def)
qed

section \<open>Changing\<close>

definition completing_with :: "str \<Rightarrow> str \<Rightarrow> (str, pyval) dict" where
  "completing_with i title = [(''event_id'', PyStr i), (''status'', PyStr ''completed''), (''title'', PyStr title)]"

lemma completing_args [simp]:
  "py_get (completing_with i title) ''event_id'' = PyStr i" "py_get (completing_with i title) ''status'' = PyStr ''completed''"
  "py_get (completing_with i title) ''title'' = PyStr title" "py_get (completing_with i title) ''priority'' = PyNone"
  "py_get (completing_with i title) ''description'' = PyNone" "py_get (completing_with i title) ''location'' = PyNone"
  "py_get (completing_with i title) ''tags'' = PyNone" "py_get (completing_with i title) ''start_time'' = PyNone"
  "py_get (completing_with i title) ''end_time'' = PyNone"
  by (simp_all add: completing_with_def py_get_def)

lemma get_event_id: "schedule_ok S \<Longrightarrow> get_event i S = Some ev \<Longrightarrow> ev_id ev = i"
  by (auto simp: get_event_def repo_get_def schedule_ok_def keyed_def split: option.splits if_splits)

lemma get_task_id: "schedule_ok S \<Longrightarrow> get_task i S = Some t \<Longrightarrow> tk_id t = i"
  by (auto simp: get_task_def repo_get_def schedule_ok_def keyed_def split: option.splits if_splits)

lemma get_update_task:
  assumes "schedule_ok S" "get_task j S = Some t" "tk_id t' = j" "task_valid t'"
  shows "get_task j (update_task t' S) = Some t'"
  using assms by (auto simp: get_task_def repo_get_def update_task_def repo_update_def has_key_iff split: option.splits)

text \<open>a refused change is not always without effect: completing a deadline together with a blank title is refused and leaves the event
  as it was, but its task has been completed.\<close>

theorem refused_update_completes_the_task:
  assumes "schedule_ok S" "get_event i S = Some ev" "i \<noteq> []" "ev_type ev = ''deadline''" "ev_task ev = Some j" "j \<noteq> []"
    and "get_task j S = Some t" "strip title = []"
  shows "\<exists>S'. change_event E (completing_with i title) S = (Inl (Refuse ''INVALID_TITLE''), S') \<and> sc_events S' = sc_events S \<and>
    get_task j S' = Some (mark_completed t)"
proof -
  let ?S = "update_task (mark_completed t) S"
  have "task_valid t" using assms(7) by (auto simp: get_task_def repo_get_def split: option.splits if_splits)
  then have "get_task j ?S = Some (mark_completed t)"
    using get_update_task [OF assms(1,7), of "mark_completed t"] get_task_id [OF assms(1,7)]
    by (simp add: mark_completed_def task_valid_def)
  moreover have "change_event E (completing_with i title) S = (Inl (Refuse ''INVALID_TITLE''), ?S)"
    using assms by (simp add: change_event_def update_keys_def lookup_id_def event_status_of_def close_linked_task_def changed_fields_def change_title_def)
  ultimately show ?thesis by (auto simp: update_task_def)
qed

text \<open>a change is not validated when it is stored: an event given a title of more than 200 characters is reported as updated and
  can never be read again.\<close>

theorem long_title_hides_the_event:
  assumes "schedule_ok S" "get_event i S = Some ev" "i \<noteq> []" "ev_type ev \<noteq> ''deadline''" "dt_le (ev_end ev) (ev_start ev) = Inr False"
    and "strip title \<noteq> []" "200 < length title"
  shows "\<exists>r S'. change_event E (completing_with i title) S = (Inr r, S') \<and> ev_title (ce_event r) = title \<and> get_event i S' = None"
proof -
  let ?ev = "ev\<lparr>ev_status := Completed, ev_title := title\<rparr>"
  have "has_key i (sc_events S)" using assms(2) by (auto simp: get_event_def repo_get_def has_key_iff split: option.splits)
  then have "get_event i (update_event ?ev S) = None"
    using get_event_id [OF assms(1,2)] assms(7) by (simp add: get_event_def repo_get_def update_event_def repo_update_def event_valid_def)
  moreover have "\<exists>r. change_event E (completing_with i title) S = (Inr r, update_event ?ev S) \<and> ce_event r = ?ev"
    using assms by (simp add: change_event_def update_keys_def lookup_id_def event_status_of_def close_linked_task_def changed_fields_def
        change_title_def change_text_def change_priority_def change_tags_def change_time_def Let_def)
  ultimately show ?thesis by auto
qed

section \<open>Deleting\<close>

lemma delete_each_result:
  "delete_each ids data = (gone, missing, data') \<Longrightarrow> distinct ids \<Longrightarrow>
     gone = filter (\<lambda>i. has_key i data) ids \<and> missing = filter (\<lambda>i. \<not> has_key i data) ids \<and>
     (\<forall>j. map_of data' j = (if j \<in> set ids then None else map_of data j))"
proof (induction ids arbitrary: data gone missing)
  case (Cons i ids)
  let ?d = "snd (repo_delete i data)"
  obtain g m where r: "delete_each ids ?d = (g, m, data')" "gone = (if has_key i data then i # g else g)" "missing = (if has_key i data then m else i # m)"
    using Cons.prems(1) by (auto simp: repo_delete_def split: prod.splits if_splits)
  have h: "has_key j ?d \<longleftrightarrow> j \<noteq> i \<and> has_key j data" for j by (auto simp: repo_delete_def)
  have m: "map_of ?d j = (if j = i then None else map_of data j)" for j by (auto simp: repo_delete_def has_key_iff)
  have "g = filter (\<lambda>j. has_key j data) ids" "m = filter (\<lambda>j. \<not> has_key j data) ids"
    using Cons.IH [OF r(1)] Cons.prems(2) by (auto simp: h intro!: filter_cong)
  then show ?case using Cons.IH [OF r(1)] Cons.prems(2) m by (simp add: r(2,3))
qed simp

lemma deduplicate_distinct: "distinct (deduplicate_ids seen vs) \<and> set (deduplicate_ids seen vs) \<inter> set seen = {}"
  by (induction seen vs rule: deduplicate_ids.induct) (auto split: pyval.split)

lemma keys_of_repo:
  assumes "keyed f d"
  shows "distinct (map f (repo_get_all v d))"
proof -
  have "map f (map snd d) = dkeys d" using assms by (auto simp: keyed_def dict_ok_def)
  then have "distinct (map f (map snd d))" using assms unfolding keyed_def dict_ok_def by metis
  then show ?thesis unfolding repo_get_all_def by (rule distinct_map_filter)
qed

lemma keys_of_all: "schedule_ok S \<Longrightarrow> distinct (map ev_id (all_events S)) \<and> distinct (map tk_id (all_tasks S))"
  by (simp add: schedule_ok_def all_events_def all_tasks_def keys_of_repo)

text \<open>deleting needs the confirmation and removes exactly the ids it reports as deleted, which were there, from the one kind asked
  for; the ids reported as missing were not there, and nothing else changes, also when nothing is deleted.\<close>

theorem delete_removes_what_it_reports:
  assumes "schedule_ok S" "delete_schedule_data kw S = (r, S')" "py_get kw ''resource_type'' = PyStr ''event''"
  shows "sc_tasks S' = sc_tasks S \<and>
    (case r of
       Inl f \<Rightarrow> (\<forall>j. map_of (sc_events S') j = map_of (sc_events S) j)
     | Inr (gone, missing) \<Rightarrow>
         py_get kw ''confirm'' = PyBool True \<and> gone \<noteq> [] \<and> distinct (gone @ missing) \<and>
         (\<forall>j. map_of (sc_events S') j = (if j \<in> set gone then None else map_of (sc_events S) j)) \<and>
         set gone \<subseteq> set (dkeys (sc_events S)) \<and> set missing \<inter> set (dkeys (sc_events S)) = {})"
proof -
  let ?every = "map ev_id (all_events S)"
  show ?thesis
  proof (cases "py_get_or kw ''confirm'' (PyBool False) = PyBool True")
    case False
    then show ?thesis using assms by (auto simp: delete_schedule_data_def)
  next
    case True
    have conf: "py_get kw ''confirm'' = PyBool True" using True by (auto simp: py_get_or_def py_get_def split: option.splits)
    obtain d where d: "delete_from kw ?every (sc_events S) = (r, d)" "S' = S\<lparr>sc_events := d\<rparr>"
      using assms True by (auto simp: delete_schedule_data_def split: prod.splits)
    show ?thesis
    proof (cases "delete_targets kw ?every")
      case (Inl f)
      then show ?thesis using d by (auto simp: delete_from_def)
    next
      case (Inr ids)
      have "distinct ids"
        using Inr keys_of_all [OF assms(1)] deduplicate_distinct [of "[]"] by (auto simp: delete_targets_def Let_def split: if_splits)
      moreover obtain gone missing where e: "delete_each ids (sc_events S) = (gone, missing, d)"
        "r = (if gone = [] then Inl (Refuse ''NOTHING_DELETED'') else Inr (gone, missing))"
        using d(1) Inr by (auto simp: delete_from_def split: prod.splits)
      ultimately have g: "gone = filter (\<lambda>i. has_key i (sc_events S)) ids" "missing = filter (\<lambda>i. \<not> has_key i (sc_events S)) ids"
        and m: "\<forall>j. map_of d j = (if j \<in> set ids then None else map_of (sc_events S) j)"
        using delete_each_result by blast+
      have m': "map_of d j = (if j \<in> set gone then None else map_of (sc_events S) j)" for j
        using m by (auto simp: g(1) has_key_iff)
      show ?thesis
      proof (cases "gone = []")
        case True
        then show ?thesis using e(2) m' d(2) by simp
      next
        case False
        then show ?thesis using e(2) m' d(2) conf \<open>distinct ids\<close> g by (auto simp: has_key_def)
      qed
    qed
  qed
qed

section \<open>Examples\<close>

definition demo_deadline :: "str \<Rightarrow> cal_event" where
  "demo_deadline k = (demo_event 0 day)\<lparr>ev_id := ''e'', ev_type := k, ev_task := Some ''t''\<rparr>"

definition demo_schedule :: "str \<Rightarrow> schedule" where
  "demo_schedule k = \<lparr>sc_events = [(''e'', demo_deadline k)], sc_tasks = [(''t'', demo_task ''t'' 60)]\<rparr>"

definition demo_sched_env :: sched_env where
  "demo_sched_env = \<lparr>se_stamp = (\<lambda>d. case d of Naive t \<Rightarrow> t | Aware t \<Rightarrow> t), se_iso = (\<lambda>_. None), se_iso_date = (\<lambda>_. None), se_strptime = (\<lambda>_. None), se_today = 0\<rparr>"

lemma demo_schedule_facts:
  "schedule_ok (demo_schedule k)"
  "k \<in> {''normal'', ''deadline''} \<Longrightarrow> get_event ''e'' (demo_schedule k) = Some (demo_deadline k)"
  "get_task ''t'' (demo_schedule k) = Some (demo_task ''t'' 60)"
  by (auto simp: schedule_ok_def keyed_def demo_schedule_def dict_ok_def demo_deadline_def demo_event_def demo_task_def get_event_def get_task_def
      repo_get_def event_valid_def task_valid_def short_def)

theorem schedule_stays_keyed_witness: "schedule_ok (snd (change_event demo_sched_env (completing_with ''e'' ''done'') (demo_schedule ''deadline'')))"
  using schedule_stays_keyed [OF demo_schedule_facts(1)] by blast

theorem refused_update_completes_the_task_witness:
  "\<exists>S'. change_event demo_sched_env (completing_with ''e'' '' '') (demo_schedule ''deadline'') = (Inl (Refuse ''INVALID_TITLE''), S') \<and>
     get_task ''t'' S' = Some (mark_completed (demo_task ''t'' 60))"
proof -
  have b: "strip '' '' = []" by code_simp
  have e: "get_event ''e'' (demo_schedule ''deadline'') = Some (demo_deadline ''deadline'')" by (rule demo_schedule_facts(2)) simp
  show ?thesis
    using refused_update_completes_the_task [OF demo_schedule_facts(1) e _ _ _ _ demo_schedule_facts(3) b, of demo_sched_env]
    by (auto simp: demo_deadline_def)
qed

theorem long_title_hides_the_event_witness:
  "\<exists>r S'. change_event demo_sched_env (completing_with ''e'' (replicate 201 (CHR ''x''))) (demo_schedule ''normal'') = (Inr r, S') \<and> get_event ''e'' S' = None"
proof -
  have e: "get_event ''e'' (demo_schedule ''normal'') = Some (demo_deadline ''normal'')" by (rule demo_schedule_facts(2)) simp
  have d: "dt_le (ev_end (demo_deadline ''normal'')) (ev_start (demo_deadline ''normal'')) = Inr False"
    by (simp add: demo_deadline_def demo_event_def dt_le_def day_def)
  have s: "strip (replicate 201 (CHR ''x'')) \<noteq> []" by (simp add: strip_eq_Nil is_space_def)
  show ?thesis
    using long_title_hides_the_event [OF demo_schedule_facts(1) e _ _ d s, of demo_sched_env] by (auto simp: demo_deadline_def)
qed

theorem delete_removes_what_it_reports_witness:
  "\<exists>r S'. delete_schedule_data [(''resource_type'', PyStr ''event''), (''confirm'', PyBool True), (''delete_all'', PyBool True)] (demo_schedule ''normal'') = (r, S') \<and>
     sc_tasks S' = sc_tasks (demo_schedule ''normal'')"
proof -
  let ?kw = "[(''resource_type'', PyStr ''event''), (''confirm'', PyBool True), (''delete_all'', PyBool True)]"
  obtain r S' where r: "delete_schedule_data ?kw (demo_schedule ''normal'') = (r, S')" by (metis prod.exhaust)
  have "py_get ?kw ''resource_type'' = PyStr ''event''" by (simp add: py_get_def)
  from delete_removes_what_it_reports [OF demo_schedule_facts(1) r this] r show ?thesis by blast
qed

end
