(* ===== verification/Plan_Tool.thy ===== *)
theory Plan_Tool
  imports Schedule_Store
begin

text \<open>
  Planning over the stored schedule (\<open>PlanTasksTool\<close> in \<open>system/tools/planner_tools.py\<close>):
  which tasks are planned, which old blocks are cancelled, and what is written back.

  The ids of new events are a parameter. Texts of events and messages are left out.
\<close>

section \<open>The tool\<close>

record plan_call =
  pl_start :: date
  pl_days :: int
  pl_max :: int
  pl_ids :: "str list option"
  pl_replace :: bool
  pl_dry :: bool

text \<open>Iterating over \<open>task_ids\<close>: what is no string is in no dictionary, what cannot be hashed raises.\<close>

fun hashable_ids :: "pyval list \<Rightarrow> failure + str list" where
  "hashable_ids [] = Inr []"
| "hashable_ids (PyStr s # vs) = and_then (hashable_ids vs) (\<lambda>ss. Inr (s # ss))"
| "hashable_ids (PyList _ # vs) = Inl (Raise (TypeError ''unhashable''))"
| "hashable_ids (PyDict _ # vs) = Inl (Raise (TypeError ''unhashable''))"
| "hashable_ids (v # vs) = hashable_ids vs"

definition task_ids_arg :: "pyval \<Rightarrow> failure + str list option" where
  "task_ids_arg v =
     (if \<not> truthy v then Inr None
      else case v of
        PyList vs \<Rightarrow> and_then (hashable_ids vs) (\<lambda>ss. Inr (Some ss))
      | PyStr s \<Rightarrow> Inr (Some (map (\<lambda>c. [c]) s))
      | PyDict d \<Rightarrow> Inr (Some (map fst d))
      | _ \<Rightarrow> Inl (Raise (TypeError ''not iterable'')))"

definition plan_call_of :: "sched_env \<Rightarrow> planning \<Rightarrow> (str, pyval) dict \<Rightarrow> failure + plan_call" where
  "plan_call_of E cfg kw =
     (if pc_hours cfg = [] then Inl (Refuse ''PLANNING_CONFIG_MISSING'')
      else and_then
        (let d = py_get kw ''start_date''
         in if \<not> truthy d then Inr (se_today E)
            else case d of PyStr s \<Rightarrow> (case se_iso_date E s of None \<Rightarrow> Inl (Refuse ''INVALID_START_DATE'') | Some t \<Rightarrow> Inr t)
              | _ \<Rightarrow> Inl (Raise (TypeError ''fromisoformat: argument must be str''))) (\<lambda>start_date.
        and_then (task_ids_arg (py_get kw ''task_ids'')) (\<lambda>ids.
          Inr \<lparr>pl_start = start_date,
               pl_days = int_within 1 None (pc_lookahead cfg) (py_get_or kw ''days'' (PyInt (pc_lookahead cfg))),
               pl_max = int_within 1 None 50 (py_get_or kw ''max_tasks'' (PyInt 50)), pl_ids = ids,
               pl_replace = truthy (py_get_or kw ''replace_existing_plans'' (PyBool True)), pl_dry = truthy (py_get_or kw ''dry_run'' (PyBool False))\<rparr>)))"

definition tasks_to_plan :: "plan_call \<Rightarrow> schedule \<Rightarrow> cal_task list" where
  "tasks_to_plan c S =
     take (nat (max 1 (pl_max c)))
       (case pl_ids c of
          Some ids \<Rightarrow> filter (\<lambda>t. tk_status t = TODO) (List.map_filter (\<lambda>i. get_task i S) ids)
        | None \<Rightarrow> get_todo S)"

definition planner_block :: "cal_event \<Rightarrow> bool" where
  "planner_block ev \<longleftrightarrow> ev_source ev = ''planner'' \<and> ev_type ev = ''planned_block''"

definition cancel_existing_planned_blocks :: "sched_env \<Rightarrow> py_datetime \<Rightarrow> py_datetime \<Rightarrow> schedule \<Rightarrow> nat \<times> schedule" where
  "cancel_existing_planned_blocks E s e S =
     (let old = filter (\<lambda>ev. planner_block ev \<and> ev_status ev \<noteq> Cancelled) (get_by_date_range E s e S)
      in (length old, fold (\<lambda>ev S. update_event (ev\<lparr>ev_status := Cancelled\<rparr>) S) old S))"

text \<open>A dash stands for each Chinese character: the lengths count.\<close>

definition block_title :: "cal_task \<Rightarrow> str" where "block_title t = ''[--] '' @ tk_title t"

definition block_description :: "cal_task \<Rightarrow> str" where
  "block_description t = ''------'' @ [CHR 0x0A] @ ''--ID: '' @ tk_id t @ [CHR 0x0A] @ opt_str (tk_description t)"

definition block_for :: "str \<Rightarrow> str \<Rightarrow> planned_item \<Rightarrow> cal_task \<Rightarrow> cal_event" where
  "block_for i run p t =
     \<lparr>ev_id = i, ev_title = block_title t, ev_description = Some (block_description t),
      ev_start = Naive (pi_start p), ev_end = Naive (pi_end p), ev_location = None, ev_priority = tk_priority t, ev_status = Scheduled,
      ev_tags = tk_tags t @ [''----''], ev_source = ''planner'', ev_type = ''planned_block'', ev_blocking = True,
      ev_origin = None, ev_task = Some (tk_id t), ev_run = Some run\<rparr>"

text \<open>Items whose task is gone are skipped; a block that does not validate raises after the earlier ones are stored.\<close>

fun write_blocks :: "(nat \<Rightarrow> str) \<Rightarrow> str \<Rightarrow> nat \<Rightarrow> planned_item list \<Rightarrow> schedule \<Rightarrow> (py_exn + cal_event list) \<times> schedule" where
  "write_blocks ids run n [] S = (Inr [], S)"
| "write_blocks ids run n (p # ps) S =
     (case get_task (pi_task p) S of
        None \<Rightarrow> write_blocks ids run n ps S
      | Some t \<Rightarrow>
          (let ev = block_for (ids n) run p t
           in if \<not> event_valid ev then (Inl (ValueError ''ValidationError''), S)
              else let S1 = S\<lparr>sc_events := repo_create ev_id ev (sc_events S)\<rparr>;
                       S2 = update_task (schedule_task (pi_start p) (pi_end p) t) S1
                in (case write_blocks ids run (Suc n) ps S2 of
                      (Inl x, S3) \<Rightarrow> (Inl x, S3) | (Inr evs, S3) \<Rightarrow> (Inr (ev # evs), S3))))"

record plan_reply =
  pp_planned :: "planned_item list"
  pp_unplanned :: "unplanned_item list"
  pp_created :: "cal_event list"
  pp_cancelled :: nat

definition run_plan :: "sched_env \<Rightarrow> planning \<Rightarrow> (nat \<Rightarrow> str) \<Rightarrow> str \<Rightarrow> plan_call \<Rightarrow> schedule \<Rightarrow> (failure + plan_reply) \<times> schedule" where
  "run_plan E cfg ids run c S =
     (let tasks = tasks_to_plan c S; query_start = midnight (pl_start c); query_end = midnight (pl_start c + pl_days c)
      in if tasks = [] then (Inr \<lparr>pp_planned = [], pp_unplanned = [], pp_created = [], pp_cancelled = 0\<rparr>, S)
         else let found = get_by_date_range E query_start query_end S;
                  events = (if pl_replace c then filter (\<lambda>ev. \<not> planner_block ev) found else found)
           in (case plan_tasks cfg tasks events (pl_start c) (pl_days c) of
                 Inl e \<Rightarrow> (Inl (Raise e), S)
               | Inr plan \<Rightarrow>
                   (let (cancelled, S1) = (if pl_replace c \<and> \<not> pl_dry c then cancel_existing_planned_blocks E query_start query_end S else (0, S));
                        kept = filter (\<lambda>p. get_task (pi_task p) S1 \<noteq> None) (pr_planned plan)
                    in if pl_dry c
                       then (Inr \<lparr>pp_planned = kept, pp_unplanned = pr_unplanned plan, pp_created = [], pp_cancelled = cancelled\<rparr>, S1)
                       else case write_blocks ids run 0 (pr_planned plan) S1 of
                         (Inl x, S2) \<Rightarrow> (Inl (Raise x), S2)
                       | (Inr created, S2) \<Rightarrow>
                           (Inr \<lparr>pp_planned = kept, pp_unplanned = pr_unplanned plan, pp_created = created, pp_cancelled = cancelled\<rparr>, S2))))"

definition plan_tasks_tool :: "sched_env \<Rightarrow> planning \<Rightarrow> (nat \<Rightarrow> str) \<Rightarrow> str \<Rightarrow> (str, pyval) dict \<Rightarrow> schedule \<Rightarrow> (failure + plan_reply) \<times> schedule" where
  "plan_tasks_tool E cfg ids run kw S =
     (case plan_call_of E cfg kw of Inl f \<Rightarrow> (Inl f, S) | Inr c \<Rightarrow> run_plan E cfg ids run c S)"

section \<open>What the tool leaves alone\<close>

lemma tasks_to_plan_todo: "t \<in> set (tasks_to_plan c S) \<Longrightarrow> tk_status t = TODO \<and> (\<exists>i. get_task i S = Some t) \<or> t \<in> set (get_todo S)"
proof (cases "pl_ids c")
  case (Some ids)
  assume "t \<in> set (tasks_to_plan c S)"
  then have "t \<in> set (filter (\<lambda>t. tk_status t = TODO) (List.map_filter (\<lambda>i. get_task i S) ids))"
    unfolding tasks_to_plan_def Some option.case by (rule in_set_takeD)
  then show ?thesis by (auto simp: List.map_filter_def)
qed (auto simp: tasks_to_plan_def dest: in_set_takeD)

lemma in_repo:
  assumes "keyed f d"
  shows "x \<in> set (repo_get_all v d) \<longleftrightarrow> repo_get v (f x) d = Some x"
proof
  assume "x \<in> set (repo_get_all v d)"
  then obtain k where k: "(k, x) \<in> set d" "v x" by (auto simp: repo_get_all_def)
  then have "map_of d k = Some x" using assms by (simp add: keyed_def dict_ok_def)
  moreover from this have "f x = k" using assms by (simp add: keyed_def)
  ultimately show "repo_get v (f x) d = Some x" using k(2) by (simp add: repo_get_def)
next
  assume "repo_get v (f x) d = Some x"
  then have "map_of d (f x) = Some x" "v x" by (auto simp: repo_get_def split: option.splits if_splits)
  then show "x \<in> set (repo_get_all v d)" by (force simp: repo_get_all_def dest: map_of_SomeD)
qed

lemma in_all_tasks: "schedule_ok S \<Longrightarrow> t \<in> set (all_tasks S) \<longleftrightarrow> get_task (tk_id t) S = Some t"
  using in_repo [of tk_id "sc_tasks S" t task_valid] by (simp add: schedule_ok_def all_tasks_def get_task_def)

lemma in_all_events: "schedule_ok S \<Longrightarrow> ev \<in> set (all_events S) \<longleftrightarrow> get_event (ev_id ev) S = Some ev"
  using in_repo [of ev_id "sc_events S" ev event_valid] by (simp add: schedule_ok_def all_events_def get_event_def)

lemma planned_are_todo:
  assumes "schedule_ok S" "t \<in> set (tasks_to_plan c S)"
  shows "get_task (tk_id t) S = Some t" "tk_status t = TODO"
  using tasks_to_plan_todo [OF assms(2)] in_all_tasks [OF assms(1)] get_task_id [OF assms(1)]
  by (auto simp: get_todo_def tasks_by_status_def)

lemma planned_task:
  assumes "plan_tasks cfg tasks events start days = Inr r" "p \<in> set (pr_planned r)"
  shows "\<exists>t \<in> set tasks. pi_task p = tk_id t"
proof -
  have "pr_window r \<noteq> None"
  proof
    assume "pr_window r = None"
    then show False using plan_empty [OF assms(1)] assms(2) by simp
  qed
  from planD [OF assms(1) this] obtain ws where
    "place_tasks cfg (rank_tasks (pc_weights cfg) start tasks) (free_time cfg events ws) = (pr_planned r, pr_unplanned r)" by blast
  from place_accounts [OF this] assms(2) show ?thesis by (fastforce simp: rank_tasks_def)
qed

lemma update_event_get:
  assumes "schedule_ok S" "get_event (ev_id ev) S = Some old" "event_valid ev"
  shows "get_event i (update_event ev S) = (if i = ev_id ev then Some ev else get_event i S)"
  using assms by (auto simp: get_event_def repo_get_def update_event_def repo_update_def has_key_iff split: option.splits)

lemma update_event_other: "i \<noteq> ev_id ev \<Longrightarrow> get_event i (update_event ev S) = get_event i S"
  by (simp add: get_event_def repo_get_def update_event_def repo_update_def)

lemma update_task_other: "i \<noteq> tk_id t \<Longrightarrow> get_task i (update_task t S) = get_task i S"
  by (simp add: get_task_def repo_get_def update_task_def repo_update_def)

lemma unchanged_parts [simp]:
  "sc_tasks (update_event ev S) = sc_tasks S" "sc_events (update_task t S) = sc_events S"
  by (simp_all add: update_event_def update_task_def)

abbreviation cancel_all :: "cal_event list \<Rightarrow> schedule \<Rightarrow> schedule" where
  "cancel_all old S \<equiv> fold (\<lambda>ev S. update_event (ev\<lparr>ev_status := Cancelled\<rparr>) S) old S"

lemma cancel_all_result:
  assumes "schedule_ok S" "\<forall>ev \<in> set old. get_event (ev_id ev) S = Some ev" "distinct (map ev_id old)"
  shows "schedule_ok (cancel_all old S) \<and> sc_tasks (cancel_all old S) = sc_tasks S \<and>
    (\<forall>i. get_event i (cancel_all old S) = (case get_event i S of None \<Rightarrow> None
       | Some ev \<Rightarrow> Some (if ev \<in> set old then ev\<lparr>ev_status := Cancelled\<rparr> else ev)))"
  using assms
proof (induction old arbitrary: S)
  case Nil
  then show ?case by (auto split: option.split)
next
  case (Cons ev old)
  let ?c = "ev\<lparr>ev_status := Cancelled\<rparr>"
  let ?S = "update_event ?c S"
  have g: "get_event (ev_id ev) S = Some ev" using Cons.prems(2) by simp
  then have "event_valid ?c" by (auto simp: get_event_def repo_get_def event_valid_def split: option.splits if_splits)
  then have u: "get_event i ?S = (if i = ev_id ev then Some ?c else get_event i S)" for i
    using update_event_get [OF Cons.prems(1), of ?c ev i] g by simp
  have ok: "schedule_ok ?S" using Cons.prems(1) by blast
  have o: "\<forall>x \<in> set old. get_event (ev_id x) ?S = Some x"
  proof
    fix x assume x: "x \<in> set old"
    have "ev_id x \<noteq> ev_id ev" using Cons.prems(3) imageI [OF x, of ev_id] by auto
    moreover have "get_event (ev_id x) S = Some x" using Cons.prems(2) x by simp
    ultimately show "get_event (ev_id x) ?S = Some x" by (simp add: u)
  qed
  have IH: "schedule_ok (cancel_all old ?S) \<and> sc_tasks (cancel_all old ?S) = sc_tasks ?S \<and>
    (\<forall>i. get_event i (cancel_all old ?S) = (case get_event i ?S of None \<Rightarrow> None
       | Some ev \<Rightarrow> Some (if ev \<in> set old then ev\<lparr>ev_status := Cancelled\<rparr> else ev)))"
    using Cons.IH [OF ok o] Cons.prems(3) by simp
  have n: "?c \<notin> set old"
  proof
    assume "?c \<in> set old"
    then have "ev_id ?c \<in> ev_id ` set old" by blast
    then show False using Cons.prems(3) by simp
  qed
  have "get_event i (cancel_all old ?S) = (case get_event i S of None \<Rightarrow> None
       | Some x \<Rightarrow> Some (if x \<in> set (ev # old) then x\<lparr>ev_status := Cancelled\<rparr> else x))" for i
  proof (cases "i = ev_id ev")
    case True
    then show ?thesis using IH n g by (simp add: u)
  next
    case False
    have "x \<noteq> ev" if "get_event i S = Some x" for x using get_event_id [OF Cons.prems(1) that] False by auto
    then show ?thesis using IH False by (auto simp: u split: option.split)
  qed
  with IH show ?case by simp
qed

text \<open>Blocks get fresh ids; the tasks they are for become scheduled, and no other entry changes.\<close>

definition fresh_ids :: "(nat \<Rightarrow> str) \<Rightarrow> schedule \<Rightarrow> bool" where
  "fresh_ids ids S \<longleftrightarrow> (\<forall>n m. ids n = ids m \<longrightarrow> n = m) \<and> (\<forall>n. \<not> has_key (ids n) (sc_events S))"

lemma schedule_ok_create: "schedule_ok S \<Longrightarrow> schedule_ok (S\<lparr>sc_events := repo_create ev_id ev (sc_events S)\<rparr>)"
  by (simp add: schedule_ok_def repo_create_def keyed_dset)

lemma written_all:
  assumes "write_blocks ids run n ps S = (r, S')" "schedule_ok S" "\<forall>m \<ge> n. \<not> has_key (ids m) (sc_events S)" "\<forall>n m. ids n = ids m \<longrightarrow> n = m"
  shows "schedule_ok S' \<and> (\<forall>i. has_key i (sc_events S) \<longrightarrow> get_event i S' = get_event i S) \<and>
    (\<forall>i. i \<notin> pi_task ` set ps \<longrightarrow> get_task i S' = get_task i S) \<and>
    (\<forall>evs. r = Inr evs \<longrightarrow> (\<forall>ev \<in> set (all_events S'). ev \<in> set (all_events S) \<or> ev \<in> set evs) \<and>
       (\<forall>ev \<in> set evs. ev_blocking ev \<and> ev_status ev = Scheduled \<and> planner_block ev \<and>
          (\<exists>p \<in> set ps. ev_start ev = Naive (pi_start p) \<and> ev_end ev = Naive (pi_end p) \<and> ev_task ev = Some (pi_task p))))"
  using assms(1,2,3)
proof (induction ps arbitrary: n S r)
  case Nil
  then show ?case by auto
next
  case (Cons p ps)
  show ?case
  proof (cases "get_task (pi_task p) S")
    case None
    then have w: "write_blocks ids run n ps S = (r, S')" using Cons.prems(1) by simp
    show ?thesis using Cons.IH [OF w Cons.prems(2,3)] by fastforce
  next
    case (Some t)
    have tid: "tk_id t = pi_task p" using get_task_id [OF Cons.prems(2) Some] .
    let ?ev = "block_for (ids n) run p t"
    show ?thesis
    proof (cases "event_valid ?ev")
      case False
      then show ?thesis using Cons.prems Some by auto
    next
      case True
      let ?S1 = "S\<lparr>sc_events := repo_create ev_id ?ev (sc_events S)\<rparr>"
      let ?S2 = "update_task (schedule_task (pi_start p) (pi_end p) t) ?S1"
      have idn: "ev_id ?ev = ids n" by (simp add: block_for_def)
      have ok: "schedule_ok ?S2" using schedule_ok_create [OF Cons.prems(2)] by blast
      have keys: "has_key i (sc_events ?S2) \<longleftrightarrow> i = ids n \<or> has_key i (sc_events S)" for i
        by (simp add: repo_create_def idn)
      have fresh: "\<forall>m \<ge> Suc n. \<not> has_key (ids m) (sc_events ?S2)"
      proof (intro allI impI)
        fix m assume m: "Suc n \<le> m"
        have "ids m \<noteq> ids n" using assms(4) m by (metis not_less_eq_eq order_refl)
        moreover have "\<not> has_key (ids m) (sc_events S)" using Cons.prems(3) m by simp
        ultimately show "\<not> has_key (ids m) (sc_events ?S2)" using keys by blast
      qed
      obtain r' where w: "write_blocks ids run (Suc n) ps ?S2 = (r', S')" "r = (case r' of Inl x \<Rightarrow> Inl x | Inr evs \<Rightarrow> Inr (?ev # evs))"
        using Cons.prems(1) Some True by (auto simp: Let_def split: prod.splits sum.splits)
      note IH = Cons.IH [OF w(1) ok fresh]
      have other: "get_event i ?S2 = get_event i S" if "has_key i (sc_events S)" for i
      proof -
        have "i \<noteq> ids n" using Cons.prems(3) that by auto
        then show ?thesis by (simp add: get_event_def repo_get_def repo_create_def idn)
      qed
      have task: "get_task i ?S2 = get_task i S" if "i \<noteq> pi_task p" for i
        using update_task_other [of i "schedule_task (pi_start p) (pi_end p) t" ?S1] that tid
        by (simp add: schedule_task_def get_task_def)
      have new: "ev \<in> set (all_events S) \<or> ev = ?ev" if "ev \<in> set (all_events ?S2)" for ev
      proof -
        have g: "get_event (ev_id ev) ?S2 = Some ev" using that in_all_events [OF ok] by blast
        show ?thesis
        proof (cases "ev_id ev = ids n")
          case True
          then show ?thesis using g by (simp add: get_event_def repo_get_def repo_create_def idn split: if_splits)
        next
          case False
          then have "get_event (ev_id ev) S = Some ev" using g by (simp add: get_event_def repo_get_def repo_create_def idn)
          then show ?thesis using in_all_events [OF Cons.prems(2)] by blast
        qed
      qed
      have b: "ev_blocking ?ev \<and> ev_status ?ev = Scheduled \<and> planner_block ?ev \<and> ev_start ?ev = Naive (pi_start p) \<and> ev_end ?ev = Naive (pi_end p) \<and>
          ev_task ?ev = Some (pi_task p)" by (simp add: block_for_def planner_block_def tid)
      show ?thesis
      proof (intro conjI allI impI)
        show "schedule_ok S'" using IH by blast
        show "get_event i S' = get_event i S" if "has_key i (sc_events S)" for i
        proof -
          have "has_key i (sc_events ?S2)" using keys that by blast
          then show ?thesis using conjunct1 [OF conjunct2 [OF IH]] other [OF that] by metis
        qed
        show "get_task i S' = get_task i S" if "i \<notin> pi_task ` set (p # ps)" for i
          using IH task [of i] that by simp
        fix evs assume "r = Inr evs"
        then obtain evs' where e: "r' = Inr evs'" "evs = ?ev # evs'" using w(2) by (auto split: sum.splits)
        show "\<forall>ev \<in> set (all_events S'). ev \<in> set (all_events S) \<or> ev \<in> set evs"
          using IH e new by (metis list.set_intros)
        show "\<forall>ev \<in> set evs. ev_blocking ev \<and> ev_status ev = Scheduled \<and> planner_block ev \<and>
          (\<exists>q \<in> set (p # ps). ev_start ev = Naive (pi_start q) \<and> ev_end ev = Naive (pi_end q) \<and> ev_task ev = Some (pi_task q))"
          using IH e b by (metis list.set_intros set_ConsD)
      qed
    qed
  qed
qed

lemma written:
  assumes "write_blocks ids run n ps S = (r, S')" "schedule_ok S" "\<forall>m \<ge> n. \<not> has_key (ids m) (sc_events S)" "\<forall>n m. ids n = ids m \<longrightarrow> n = m"
  shows "schedule_ok S'" and "has_key i (sc_events S) \<Longrightarrow> get_event i S' = get_event i S"
    and "i \<notin> pi_task ` set ps \<Longrightarrow> get_task i S' = get_task i S"
    and "r = Inr evs \<Longrightarrow> ev \<in> set evs \<Longrightarrow> ev_blocking ev \<and> ev_status ev = Scheduled \<and> planner_block ev \<and>
          (\<exists>p \<in> set ps. ev_start ev = Naive (pi_start p) \<and> ev_end ev = Naive (pi_end p) \<and> ev_task ev = Some (pi_task p))"
    and "r = Inr evs \<Longrightarrow> ev \<in> set (all_events S') \<Longrightarrow> ev \<in> set (all_events S) \<or> ev \<in> set evs"
  using written_all [OF assms] by blast+

section \<open>What the tool promises\<close>

lemma keys_cancel_all: "has_key i (sc_events (cancel_all old S)) \<longleftrightarrow> has_key i (sc_events S)"
  by (induction old arbitrary: S) (auto simp: update_event_def repo_update_def)

lemma cancelled_blocks:
  assumes "schedule_ok S" "cancel_existing_planned_blocks E a b S = (n, S1)"
  shows "schedule_ok S1" "sc_tasks S1 = sc_tasks S" "has_key i (sc_events S1) \<longleftrightarrow> has_key i (sc_events S)"
    "get_event i S1 = (case get_event i S of None \<Rightarrow> None
       | Some ev \<Rightarrow> Some (if ev \<in> set (get_by_date_range E a b S) \<and> planner_block ev then ev\<lparr>ev_status := Cancelled\<rparr> else ev))"
proof -
  let ?old = "filter (\<lambda>ev. planner_block ev \<and> ev_status ev \<noteq> Cancelled) (get_by_date_range E a b S)"
  have "distinct (map ev_id ?old)"
    unfolding get_by_date_range_def using keys_of_all [OF assms(1)] by (intro distinct_map_filter) blast
  moreover have "\<forall>ev \<in> set ?old. get_event (ev_id ev) S = Some ev"
    using in_all_events [OF assms(1)] by (simp add: get_by_date_range_def)
  moreover have s: "S1 = cancel_all ?old S" using assms(2) by (simp add: cancel_existing_planned_blocks_def Let_def)
  moreover have m: "(ev \<in> set (get_by_date_range E a b S) \<and> planner_block ev) = (ev \<in> set ?old)" for ev
    by (auto simp: get_by_date_range_def)
  ultimately have r: "schedule_ok S1 \<and> sc_tasks S1 = sc_tasks S \<and>
    (\<forall>i. get_event i S1 = (case get_event i S of None \<Rightarrow> None
       | Some ev \<Rightarrow> Some (if ev \<in> set (get_by_date_range E a b S) \<and> planner_block ev then ev\<lparr>ev_status := Cancelled\<rparr> else ev)))"
    unfolding m s by (intro cancel_all_result [OF assms(1)])
  then show "schedule_ok S1" "sc_tasks S1 = sc_tasks S"
    "get_event i S1 = (case get_event i S of None \<Rightarrow> None
       | Some ev \<Rightarrow> Some (if ev \<in> set (get_by_date_range E a b S) \<and> planner_block ev then ev\<lparr>ev_status := Cancelled\<rparr> else ev))"
    by blast+
  show "has_key i (sc_events S1) \<longleftrightarrow> has_key i (sc_events S)" unfolding s by (rule keys_cancel_all)
qed

lemma run_plan_writes:
  assumes "run_plan E cfg ids run c S = (Inr reply, S')" "tasks_to_plan c S \<noteq> []" "pl_replace c" "\<not> pl_dry c"
  obtains plan S1 n where
    "plan_tasks cfg (tasks_to_plan c S)
       (filter (\<lambda>ev. \<not> planner_block ev) (get_by_date_range E (midnight (pl_start c)) (midnight (pl_start c + pl_days c)) S))
       (pl_start c) (pl_days c) = Inr plan"
    "cancel_existing_planned_blocks E (midnight (pl_start c)) (midnight (pl_start c + pl_days c)) S = (n, S1)"
    "write_blocks ids run 0 (pr_planned plan) S1 = (Inr (pp_created reply), S')"
  using assms by (auto simp: run_plan_def Let_def split: sum.splits prod.splits)

text \<open>C32: planning again drops what was planned before: a block of the planner in the period is cancelled, and when its task has
  been scheduled by the earlier run, and so is no longer to do, the task is not planned again, gets no new
  block and stays marked as in progress at the old time.\<close>

theorem replanning_drops_scheduled_tasks:
  assumes "schedule_ok S" "fresh_ids ids S" "pl_replace c" "\<not> pl_dry c" "tasks_to_plan c S \<noteq> []"
    and "run_plan E cfg ids run c S = (Inr reply, S')"
    and "get_event i S = Some ev" "planner_block ev" "ev_status ev \<noteq> Cancelled"
    and "ev \<in> set (get_by_date_range E (midnight (pl_start c)) (midnight (pl_start c + pl_days c)) S)"
    and "get_task j S = Some t" "tk_status t = IN_PROGRESS"
  shows "get_event i S' = Some (ev\<lparr>ev_status := Cancelled\<rparr>) \<and> get_task j S' = Some t \<and> (\<forall>x \<in> set (pp_created reply). ev_task x \<noteq> Some j)"
proof -
  from run_plan_writes [OF assms(6,5,3,4)] obtain plan S1 n where
    plan: "plan_tasks cfg (tasks_to_plan c S)
       (filter (\<lambda>ev. \<not> planner_block ev) (get_by_date_range E (midnight (pl_start c)) (midnight (pl_start c + pl_days c)) S))
       (pl_start c) (pl_days c) = Inr plan"
    and c: "cancel_existing_planned_blocks E (midnight (pl_start c)) (midnight (pl_start c + pl_days c)) S = (n, S1)"
    and w: "write_blocks ids run 0 (pr_planned plan) S1 = (Inr (pp_created reply), S')" by blast
  note k = cancelled_blocks [OF assms(1) c]
  have fresh: "\<forall>m \<ge> 0. \<not> has_key (ids m) (sc_events S1)" "\<forall>n m. ids n = ids m \<longrightarrow> n = m"
    using assms(2) k(3) by (simp_all add: fresh_ids_def)
  note wr = written [OF w k(1) fresh]
  have "j \<notin> pi_task ` set (pr_planned plan)"
  proof
    assume "j \<in> pi_task ` set (pr_planned plan)"
    then obtain u where u: "u \<in> set (tasks_to_plan c S)" "j = tk_id u" using planned_task [OF plan] by blast
    from planned_are_todo [OF assms(1) u(1)] show False using assms(11,12) u(2) by simp
  qed
  then have "get_task j S' = Some t" using wr(3) k(2) assms(11) by (simp add: get_task_def)
  moreover have "get_event i S1 = Some (ev\<lparr>ev_status := Cancelled\<rparr>)" using k(4) assms(7,8,10) by simp
  moreover from this have "has_key i (sc_events S1)" by (auto simp: get_event_def repo_get_def has_key_iff split: option.splits)
  ultimately show ?thesis using wr(2,4) \<open>j \<notin> pi_task ` set (pr_planned plan)\<close> by fastforce
qed

lemma slot_in_period:
  assumes "build_working_slots cfg start days = Inr ws" "w \<in> set ws"
  shows "start * day \<le> ts_start w" "ts_end w \<le> (start + days) * day"
proof -
  obtain d v xs where v: "d \<in> set (dates_from start days)" "window_slot d v = Inr xs" "w \<in> set xs"
    using assms all_slots_from by (fastforce simp: build_working_slots_def split: sum.splits)
  obtain a b where ab: "0 \<le> a" "a < b" "b < 1440" "ts_start w = d * day + a * minute" "ts_end w = d * day + b * minute"
    using window_slotD [OF v(2,3)] by metis
  have d: "start \<le> d" "d + 1 \<le> start + days" using v(1) by (auto simp: dates_from_def)
  have "start * day \<le> d * day" "(d + 1) * day \<le> (start + days) * day" using d by (simp_all add: day_def)
  then show "start * day \<le> ts_start w" "ts_end w \<le> (start + days) * day" using ab by (simp_all add: clock_simps)
qed

lemma sorted_wrt_subseq: "subseq xs ys \<Longrightarrow> sorted_wrt R ys \<Longrightarrow> sorted_wrt R xs"
proof (induction rule: list_emb.induct)
  case (list_emb_Cons2 x y xs ys)
  then show ?case using list_emb_set [of "(=)" xs ys] by auto
qed auto

lemma blocks_of_items:
  "write_blocks ids run n ps S = (Inr evs, S') \<Longrightarrow>
     \<exists>qs. subseq qs ps \<and> map (\<lambda>ev. (ev_start ev, ev_end ev)) evs = map (\<lambda>p. (Naive (pi_start p), Naive (pi_end p))) qs"
proof (induction ps arbitrary: n S evs)
  case (Cons p ps)
  show ?case
  proof (cases "get_task (pi_task p) S")
    case None
    then have "write_blocks ids run n ps S = (Inr evs, S')" using Cons.prems by simp
    from Cons.IH [OF this] obtain qs where "subseq qs ps" "map (\<lambda>ev. (ev_start ev, ev_end ev)) evs = map (\<lambda>p. (Naive (pi_start p), Naive (pi_end p))) qs" by blast
    then show ?thesis by (intro exI [of _ qs]) (simp add: list_emb_Cons)
  next
    case (Some t)
    then obtain S2 evs' where w: "write_blocks ids run (Suc n) ps S2 = (Inr evs', S')" "evs = block_for (ids n) run p t # evs'"
      using Cons.prems by (auto simp: Let_def split: if_splits prod.splits sum.splits)
    obtain qs where "subseq qs ps" "map (\<lambda>ev. (ev_start ev, ev_end ev)) evs' = map (\<lambda>p. (Naive (pi_start p), Naive (pi_end p))) qs"
      using Cons.IH [OF w(1)] by blast
    then show ?thesis by (intro exI [of _ "p # qs"]) (simp add: w(2) block_for_def)
  qed
qed simp


section \<open>Examples\<close>

definition demo_block :: cal_event where
  "demo_block = (demo_event (at_time 1 9 0) (at_time 1 10 0))\<lparr>ev_id := ''b'', ev_source := ''planner'', ev_type := ''planned_block'', ev_task := Some ''old''\<rparr>"

definition demo_old :: cal_task where
  "demo_old = schedule_task (at_time 1 9 0) (at_time 1 10 0) (demo_task ''old'' 60)"

definition demo_stored :: schedule where
  "demo_stored = \<lparr>sc_events = [(''b'', demo_block)], sc_tasks = [(''old'', demo_old), (''n'', demo_task ''n'' 60)]\<rparr>"

definition demo_plan_call :: plan_call where
  "demo_plan_call = \<lparr>pl_start = 1, pl_days = 1, pl_max = 50, pl_ids = None, pl_replace = True, pl_dry = False\<rparr>"

definition demo_ids :: "nat \<Rightarrow> str" where "demo_ids n = replicate (n + 2) (CHR ''x'')"

lemma demo_stored_facts:
  "schedule_ok demo_stored" "fresh_ids demo_ids demo_stored" "tasks_to_plan demo_plan_call demo_stored = [demo_task ''n'' 60]"
  "get_event ''b'' demo_stored = Some demo_block" "get_task ''old'' demo_stored = Some demo_old" "get_task ''n'' demo_stored = Some (demo_task ''n'' 60)"
  "get_by_date_range demo_sched_env (midnight 1) (midnight 2) demo_stored = [demo_block]"
proof -
  have v: "event_valid demo_block" "task_valid demo_old" "task_valid (demo_task ''n'' 60)"
    by (simp_all add: event_valid_def task_valid_def demo_block_def demo_event_def demo_old_def schedule_task_def demo_task_def short_def)
  have i: "ev_id demo_block = ''b''" "tk_id demo_old = ''old''" "tk_id (demo_task ''n'' 60) = ''n''" "tk_status demo_old = IN_PROGRESS" "tk_status (demo_task ''n'' 60) = TODO"
    by (simp_all add: demo_block_def demo_old_def schedule_task_def demo_task_def)
  show "schedule_ok demo_stored" using i by (auto simp: schedule_ok_def keyed_def demo_stored_def dict_ok_def split: if_splits)
  have "demo_ids n \<noteq> ''b''" for n by (simp add: demo_ids_def)
  moreover have "demo_ids n = demo_ids m \<Longrightarrow> n = m" for n m by (simp add: demo_ids_def replicate_eq_replicate)
  ultimately show "fresh_ids demo_ids demo_stored" by (auto simp: fresh_ids_def demo_stored_def has_key_def)
  show "tasks_to_plan demo_plan_call demo_stored = [demo_task ''n'' 60]"
    using v i by (simp add: tasks_to_plan_def demo_plan_call_def get_todo_def tasks_by_status_def all_tasks_def repo_get_all_def demo_stored_def)
  show "get_event ''b'' demo_stored = Some demo_block" "get_task ''old'' demo_stored = Some demo_old" "get_task ''n'' demo_stored = Some (demo_task ''n'' 60)"
    using v by (simp_all add: get_event_def get_task_def repo_get_def demo_stored_def)
  show "get_by_date_range demo_sched_env (midnight 1) (midnight 2) demo_stored = [demo_block]"
    using v by (simp add: get_by_date_range_def all_events_def repo_get_all_def demo_stored_def)
      (simp add: demo_sched_env_def midnight_def demo_block_def demo_event_def clock_simps)
qed

lemma demo_stored_plan:
  "plan_tasks (demo_planning True demo_hours) [demo_task ''n'' 60] [] 1 1 =
     Inr \<lparr>pr_planned = [\<lparr>pi_task = ''n'', pi_start = at_time 1 9 0, pi_end = at_time 1 10 0, pi_score = score_task demo_weights 1 (demo_task ''n'' 60)\<rparr>],
          pr_unplanned = [], pr_window = Some (at_time 1 9 0, at_time 1 10 0)\<rparr>"
proof -
  have w: "build_working_slots (demo_planning True demo_hours) 1 1 = Inr [free_slot (at_time 1 9 0) (at_time 1 10 0) (Some ''working time'')]"
    by (simp add: demo_simps demo_clock demo_hours_def)
  have "rank_tasks (pc_weights (demo_planning True demo_hours)) 1 [demo_task ''n'' 60] = [(demo_task ''n'' 60, score_task demo_weights 1 (demo_task ''n'' 60))]"
    by (simp add: rank_tasks_def demo_planning_def)
  then show ?thesis unfolding plan_tasks_def using w by (simp add: demo_simps)
qed

lemma demo_run: "\<exists>reply S'. run_plan demo_sched_env (demo_planning True demo_hours) demo_ids ''r'' demo_plan_call demo_stored = (Inr reply, S') \<and> pp_created reply \<noteq> []"
proof -
  let ?p = "\<lparr>pi_task = ''n'', pi_start = at_time 1 9 0, pi_end = at_time 1 10 0, pi_score = score_task demo_weights 1 (demo_task ''n'' 60)\<rparr>"
  obtain n S1 where c: "cancel_existing_planned_blocks demo_sched_env (midnight 1) (midnight 2) demo_stored = (n, S1)" by (metis prod.exhaust)
  then have "get_task ''n'' S1 = Some (demo_task ''n'' 60)"
    using cancelled_blocks(2) [OF demo_stored_facts(1) c] demo_stored_facts(6) by (simp add: get_task_def)
  moreover have "event_valid (block_for (demo_ids 0) ''r'' ?p (demo_task ''n'' 60))"
    by (simp add: event_valid_def block_for_def short_def block_title_def block_description_def demo_task_def)
  ultimately obtain S' where w: "write_blocks demo_ids ''r'' 0 [?p] S1 = (Inr [block_for (demo_ids 0) ''r'' ?p (demo_task ''n'' 60)], S')"
    by (simp add: Let_def)
  have "filter (\<lambda>ev. \<not> planner_block ev) [demo_block] = []" by (simp add: planner_block_def demo_block_def)
  then show ?thesis
    using demo_stored_facts(3,7) demo_stored_plan c w
    by (simp add: run_plan_def Let_def demo_plan_call_def)
qed

lemma demo_call_facts: "pl_replace demo_plan_call" "\<not> pl_dry demo_plan_call" "pl_start demo_plan_call = 1" "pl_days demo_plan_call = 1"
  by (simp_all add: demo_plan_call_def)

theorem replanning_drops_scheduled_tasks_witness:
  "\<exists>reply S'. run_plan demo_sched_env (demo_planning True demo_hours) demo_ids ''r'' demo_plan_call demo_stored = (Inr reply, S') \<and>
     get_event ''b'' S' = Some (demo_block\<lparr>ev_status := Cancelled\<rparr>) \<and> get_task ''old'' S' = Some demo_old \<and> (\<forall>x \<in> set (pp_created reply). ev_task x \<noteq> Some ''old'')"
proof -
  obtain reply S' where r: "run_plan demo_sched_env (demo_planning True demo_hours) demo_ids ''r'' demo_plan_call demo_stored = (Inr reply, S')" using demo_run by blast
  have b: "planner_block demo_block" "ev_status demo_block \<noteq> Cancelled" "tk_status demo_old = IN_PROGRESS"
    by (simp_all add: planner_block_def demo_block_def demo_event_def demo_old_def schedule_task_def)
  have n: "tasks_to_plan demo_plan_call demo_stored \<noteq> []" by (simp add: demo_stored_facts)
  have "demo_block \<in> set (get_by_date_range demo_sched_env (midnight (pl_start demo_plan_call)) (midnight (pl_start demo_plan_call + pl_days demo_plan_call)) demo_stored)"
    using demo_stored_facts(7) by (simp add: demo_call_facts)
  from replanning_drops_scheduled_tasks [OF demo_stored_facts(1,2) demo_call_facts(1,2) n r demo_stored_facts(4) b(1,2) this demo_stored_facts(5) b(3)] r
  show ?thesis by blast
qed


end
