(* ===== verification/Agent_Wakes.thy ===== *)
theory Agent_Wakes
  imports Job_Notify Bash_Args Goals
begin

text \<open>
  Alarms of a session (\<open>agent_core/tools/agent_wake.py\<close>), the loop of the daemon that polls them, the three tools
  over them (\<open>system/tools/automation_tools.py\<close>) and the alarm an agent sets itself when a turn ends with goals
  left (\<open>agent.py\<close>). An alarm whose session is busy is parked as a text; otherwise a turn is injected
  into the scheduler. \<open>wb_turns\<close> are the injected turns that have not ended; the scheduler confirms each turn that was
  run and aborts one that was not. A snapshot of an alarm is the record itself; the metadata of the chat front end beyond the
  chat's id, and the file the front end reads, are left out.
\<close>

section \<open>The registry\<close>

record alarm =
  wk_id :: str
  wk_session :: str
  wk_fire :: real
  wk_message :: str
  wk_label :: str
  wk_created :: real
  wk_frontend :: str
  wk_source :: str
  wk_user :: str
  wk_metadata :: "(str, pyval) dict"
  wk_fired :: bool
  wk_staged :: bool

record parked =
  pk_text :: str
  pk_id :: str
  pk_wake :: "alarm option"

record wake_turn =
  wt_session :: str
  wt_text :: str
  wt_id :: str
  wt_source :: str
  wt_user :: str
  wt_chat :: "str option"

record wake_board =
  wb_wakes :: "(str, alarm) dict"
  wb_pending :: "(str, parked list) dict"
  wb_turns :: "wake_turn list"

definition no_wakes :: wake_board where
  "no_wakes = \<lparr>wb_wakes = [], wb_pending = [], wb_turns = []\<rparr>"

definition parked_in :: "str \<Rightarrow> wake_board \<Rightarrow> parked list" where
  "parked_in sid b = (case map_of (wb_pending b) sid of None \<Rightarrow> [] | Some ps \<Rightarrow> ps)"

definition get_wake :: "str \<Rightarrow> wake_board \<Rightarrow> alarm option" where
  "get_wake wid b = map_of (wb_wakes b) (strip wid)"

text \<open>\<open>register_wake\<close>: \<open>fresh\<close> is the id made when none is given.\<close>

definition register_wake :: "str \<Rightarrow> real \<Rightarrow> alarm \<Rightarrow> wake_board \<Rightarrow> (py_exn + str) \<times> wake_board" where
  "register_wake fresh now w b =
     (let sid = strip (wk_session w); text = strip (wk_message w); wid = str_or (strip (wk_id w)) fresh;
          rec = w\<lparr>wk_id := wid, wk_session := sid, wk_message := text, wk_label := strip (wk_label w), wk_created := now,
                  wk_frontend := str_or (strip (str_or (wk_frontend w) ''cli'')) ''cli'',
                  wk_source := str_or (strip (str_or (wk_source w) ''cli'')) ''cli'',
                  wk_user := str_or (strip (str_or (wk_user w) ''root'')) ''root'', wk_fired := False, wk_staged := False\<rparr>
      in if sid = [] then (Inl (ValueError ''session_id is required''), b)
         else if text = [] then (Inl (ValueError ''message is required''), b)
         else (Inr wid, b\<lparr>wb_wakes := dset wid rec (wb_wakes b)\<rparr>))"

definition remove_pending :: "str \<Rightarrow> str \<Rightarrow> wake_board \<Rightarrow> wake_board" where
  "remove_pending wid sid b =
     (let wid = strip wid; sid = strip sid; keep = filter (\<lambda>p. pk_id p \<noteq> wid)
      in if wid = [] then b
         else if sid \<noteq> []
         then (case map_of (wb_pending b) sid of None \<Rightarrow> b | Some ps \<Rightarrow> b\<lparr>wb_pending := put_list sid (keep ps) (wb_pending b)\<rparr>)
         else b\<lparr>wb_pending := fold (\<lambda>(s, ps). put_list s (keep ps)) (wb_pending b) (wb_pending b)\<rparr>)"

definition label_of :: "parked \<Rightarrow> str" where
  "label_of p = (case pk_wake p of None \<Rightarrow> [] | Some w \<Rightarrow> strip (wk_label w))"

definition purge_by_label :: "str \<Rightarrow> str \<Rightarrow> wake_board \<Rightarrow> wake_board" where
  "purge_by_label sid label b =
     (let sid = strip sid; label = strip label
      in if sid = [] \<or> label = [] \<or> parked_in sid b = [] then b
         else b\<lparr>wb_pending := put_list sid (filter (\<lambda>p. label_of p \<noteq> label) (parked_in sid b)) (wb_pending b)\<rparr>)"

definition cancel_wake :: "str \<Rightarrow> wake_board \<Rightarrow> bool \<times> wake_board" where
  "cancel_wake wid b =
     (let wid = strip wid
      in if wid = [] then (False, b)
         else case map_of (wb_wakes b) wid of None \<Rightarrow> (False, b)
           | Some w \<Rightarrow> (True, remove_pending wid (wk_session w) (b\<lparr>wb_wakes := dpop wid (wb_wakes b)\<rparr>)))"

definition list_wakes :: "str \<Rightarrow> wake_board \<Rightarrow> alarm list" where
  "list_wakes sid b =
     sort_key wk_fire (filter (\<lambda>w. strip sid \<noteq> [] \<longrightarrow> wk_session w = strip sid) (map snd (wb_wakes b)))"

definition session_has_deferred_wake :: "str \<Rightarrow> real \<Rightarrow> real \<Rightarrow> wake_board \<Rightarrow> bool" where
  "session_has_deferred_wake sid lead now b \<longleftrightarrow>
     strip sid \<noteq> [] \<and>
     list_ex (\<lambda>(k, w). \<not> wk_fired w \<and> wk_session w = strip sid \<and> strip (wk_label w) \<noteq> ''goal-check'' \<and> wk_fire w > now + max 0 lead) (wb_wakes b)"

definition wakes_to_cancel :: "str \<Rightarrow> str option \<Rightarrow> wake_board \<Rightarrow> str list" where
  "wakes_to_cancel sid label b =
     map fst (filter (\<lambda>(k, w). \<not> wk_fired w \<and> wk_session w = sid \<and> (case label of None \<Rightarrow> True | Some l \<Rightarrow> strip (wk_label w) = l)) (wb_wakes b))"

definition cancel_pending_wakes :: "str \<Rightarrow> str option \<Rightarrow> wake_board \<Rightarrow> nat \<times> wake_board" where
  "cancel_pending_wakes sid label b =
     (let sid = strip sid; ids = wakes_to_cancel sid label b
      in if sid = [] then (0, b)
         else case run_ops cancel_wake ids b of
           (oks, b') \<Rightarrow> (length (filter id oks), case label of None \<Rightarrow> b' | Some l \<Rightarrow> purge_by_label sid l b'))"

definition poll_due_wakes :: "nat \<Rightarrow> real \<Rightarrow> wake_board \<Rightarrow> alarm list" where
  "poll_due_wakes max_items now b =
     take max_items (sort_key wk_fire (filter (\<lambda>w. \<not> wk_fired w \<and> \<not> wk_staged w \<and> wk_fire w \<le> now) (map snd (wb_wakes b))))"

definition format_wake :: "alarm \<Rightarrow> str" where
  "format_wake w =
     (let label = strip (wk_label w); header = ''[--]'' @ (if label = [] then [] else '' '' @ label)
      in join [CHR 0x0A] ([header, strip (wk_message w)] @ (if wk_id w = [] then [] else [''(wake_id='' @ wk_id w @ '')''])))"

definition mark_fired :: "str \<Rightarrow> wake_board \<Rightarrow> wake_board" where
  "mark_fired wid b = b\<lparr>wb_wakes := dpop (strip wid) (wb_wakes b)\<rparr>"

definition set_staged :: "bool \<Rightarrow> str \<Rightarrow> wake_board \<Rightarrow> wake_board" where
  "set_staged flag wid b =
     (case map_of (wb_wakes b) (strip wid) of None \<Rightarrow> b
      | Some w \<Rightarrow> b\<lparr>wb_wakes := dset (strip wid) (w\<lparr>wk_staged := flag\<rparr>) (wb_wakes b)\<rparr>)"

definition watch_targets :: "real \<Rightarrow> wake_board \<Rightarrow> (str \<times> str \<times> real \<times> real) list" where
  "watch_targets now b =
     rev (fold (\<lambda>(k, w) out.
        let cid = clean_str (py_get (wk_metadata w) ''feishu_chat_id''); sid = strip (wk_session w)
        in if wk_fired w \<or> cid = [] \<or> \<not> startswith sid ''feishu:'' \<or> (sid, cid) \<in> set (map (\<lambda>(s, c, _). (s, c)) out) then out
           else (sid, cid, wk_fire w, max 60 (wk_fire w - now + 120)) # out) (wb_wakes b) [])"

section \<open>Delivery\<close>

text \<open>What the core pool knows of the goals of a session, if there is a pool.\<close>

type_synonym goal_view = "(str \<Rightarrow> goal_store option) option"

definition still_actionable :: "goal_view \<Rightarrow> alarm \<Rightarrow> wake_board \<Rightarrow> bool" where
  "still_actionable G w b \<longleftrightarrow>
     (if strip (wk_id w) \<noteq> [] \<and> get_wake (strip (wk_id w)) b = None then False
      else if strip (wk_label w) \<noteq> ''goal-check'' then True
      else if strip (wk_session w) = [] then True
      else case G of None \<Rightarrow> True
        | Some view \<Rightarrow> (case view (strip (wk_session w)) of None \<Rightarrow> False | Some st \<Rightarrow> should_auto_continue st))"

definition stage_wake :: "str \<Rightarrow> str \<Rightarrow> str \<Rightarrow> wake_board \<Rightarrow> wake_board" where
  "stage_wake sid body wid b =
     (let sid = strip sid; wid = strip wid
      in if sid = [] \<or> body = [] \<or> wid = [] then b
         else let b1 = set_staged True wid b
              in b1\<lparr>wb_pending := dset sid (parked_in sid b1 @ [\<lparr>pk_text = body, pk_id = wid, pk_wake = get_wake wid b1\<rparr>]) (wb_pending b1)\<rparr>)"

definition is_staged_wake :: "str \<Rightarrow> wake_board \<Rightarrow> bool" where
  "is_staged_wake wid b = (case get_wake wid b of None \<Rightarrow> False | Some w \<Rightarrow> wk_staged w)"

definition turn_for :: "alarm \<Rightarrow> str \<Rightarrow> wake_turn" where
  "turn_for w body =
     (let chat = clean_str (py_get (wk_metadata w) ''feishu_chat_id'')
      in \<lparr>wt_session = strip (wk_session w), wt_text = body, wt_id = strip (wk_id w), wt_source = str_or (wk_source w) ''cli'',
          wt_user = str_or (wk_user w) ''root'', wt_chat = (if chat = [] then None else Some chat)\<rparr>)"

definition deliver_wake :: "sched_view \<Rightarrow> goal_view \<Rightarrow> alarm \<Rightarrow> str \<Rightarrow> wake_board \<Rightarrow> bool \<times> wake_board" where
  "deliver_wake v G w text b =
     (let sid = strip (wk_session w); wid = strip (wk_id w); body = strip (str_or text (format_wake w))
      in if sid = [] \<or> body = [] then (False, b)
         else if \<not> sv_present v then (False, b)
         else if \<not> still_actionable G w b then (False, if wid = [] then b else mark_fired wid b)
         else if sv_inflight v sid > 0
         then (if wid \<noteq> [] \<and> is_staged_wake wid b then (True, b) else (True, stage_wake sid body wid b))
         else if \<not> sv_accepts v then (False, if wid = [] then b else set_staged False wid b)
         else (True, (if wid = [] then id else set_staged True wid) (b\<lparr>wb_turns := wb_turns b @ [turn_for w body]\<rparr>)))"

definition bare_wake :: "str \<Rightarrow> str \<Rightarrow> alarm" where
  "bare_wake wid sid = \<lparr>wk_id = wid, wk_session = sid, wk_fire = 0, wk_message = [], wk_label = [], wk_created = 0,
     wk_frontend = [], wk_source = [], wk_user = [], wk_metadata = [], wk_fired = False, wk_staged = False\<rparr>"

definition flush_parked :: "sched_view \<Rightarrow> goal_view \<Rightarrow> str \<Rightarrow> parked \<Rightarrow> wake_board \<Rightarrow> wake_board" where
  "flush_parked v G sid p b =
     (let w = (case pk_wake p of None \<Rightarrow> bare_wake (pk_id p) sid | Some w \<Rightarrow> w)
      in if \<not> still_actionable G w b then (if pk_id p = [] then b else mark_fired (pk_id p) b)
         else snd (deliver_wake v G w (pk_text p) b))"

definition flush_wakes :: "sched_view \<Rightarrow> goal_view \<Rightarrow> str \<Rightarrow> wake_board \<Rightarrow> wake_board" where
  "flush_wakes v G sid b =
     (let sid = strip sid
      in if sid = [] then b
         else fold (flush_parked v G sid) (parked_in sid b) (b\<lparr>wb_pending := dpop sid (wb_pending b)\<rparr>))"

text \<open>One round of the daemon's loop, and the end of a turn.\<close>

definition wake_round :: "sched_view \<Rightarrow> goal_view \<Rightarrow> real \<Rightarrow> wake_board \<Rightarrow> wake_board" where
  "wake_round v G now b = fold (\<lambda>w b. snd (deliver_wake v G w (format_wake w) b)) (poll_due_wakes 20 now b) b"

definition end_wake_turn :: "bool \<Rightarrow> wake_turn \<Rightarrow> wake_board \<Rightarrow> wake_board" where
  "end_wake_turn confirmed t b =
     (let b1 = b\<lparr>wb_turns := remove1 t (wb_turns b)\<rparr>
      in if wt_id t = [] then b1 else if confirmed then mark_fired (wt_id t) b1 else set_staged False (wt_id t) b1)"

section \<open>The tools\<close>

record wake_env =
  we_now :: real
  we_fresh :: str
  we_time :: "str \<Rightarrow> real option"
  we_chat :: "str \<Rightarrow> str"

definition wake_time :: "wake_env \<Rightarrow> (str, pyval) dict \<Rightarrow> str + real" where
  "wake_time E kw =
     (let moment = clean_str (py_get kw ''wake_at''); secs = py_get kw ''delay_seconds''; mins = py_get kw ''delay_minutes'';
          delay = (if secs \<noteq> PyNone then py_float secs else map_option (\<lambda>m. m * 60) (py_float mins))
      in if (moment \<noteq> []) = (secs \<noteq> PyNone \<or> mins \<noteq> PyNone) then Inl ''INVALID_TIME''
         else if moment \<noteq> [] then (case we_time E (utc_suffix moment) of None \<Rightarrow> Inl ''INVALID_WAKE_AT'' | Some t \<Rightarrow> Inr t)
         else case delay of None \<Rightarrow> Inl ''INVALID_DELAY''
           | Some d \<Rightarrow> if d \<le> 0 then Inl ''INVALID_DELAY'' else Inr (we_now E + d))"

definition wake_request :: "wake_env \<Rightarrow> (str, pyval) dict \<Rightarrow> (str, pyval) dict \<Rightarrow> real \<Rightarrow> alarm" where
  "wake_request E ctx kw fire =
     (let sid = clean_str (py_get ctx ''session_id''); given = clean_str (py_get ctx ''feishu_chat_id'');
          chat = (if given = [] \<and> startswith sid ''feishu:'' then strip (we_chat E sid) else given)
      in \<lparr>wk_id = clean_str (py_get kw ''wake_id''), wk_session = sid, wk_fire = fire, wk_message = clean_str (py_get kw ''message''),
          wk_label = clean_str (py_get kw ''label''), wk_created = 0, wk_frontend = text_or ctx ''frontend_id'' ''cli'',
          wk_source = text_or ctx ''source'' ''cli'', wk_user = text_or ctx ''user_id'' ''root'',
          wk_metadata = (if chat = [] then [] else [(''feishu_chat_id'', PyStr chat)]), wk_fired = False, wk_staged = False\<rparr>)"

definition schedule_wake :: "wake_env \<Rightarrow> (str, pyval) dict \<Rightarrow> (str, pyval) dict \<Rightarrow> wake_board \<Rightarrow> (str + str) \<times> wake_board" where
  "schedule_wake E ctx kw b =
     (let sid = clean_str (py_get ctx ''session_id''); wid = clean_str (py_get kw ''wake_id'')
      in if sid = [] then (Inl ''MISSING_SESSION'', b)
         else if clean_str (py_get kw ''message'') = [] then (Inl ''MISSING_MESSAGE'', b)
         else case wake_time E kw of Inl e \<Rightarrow> (Inl e, b)
         | Inr fire \<Rightarrow>
             if wid \<noteq> [] \<and> list_ex (\<lambda>w. wk_id w = wid) (list_wakes [] b) then (Inl ''DUPLICATE_WAKE_ID'', b)
             else case register_wake (we_fresh E) (we_now E) (wake_request E ctx kw fire) b of
               (Inl _, b1) \<Rightarrow> (Inl ''REGISTER_FAILED'', b1)
             | (Inr assigned, b1) \<Rightarrow>
                 (Inr assigned,
                  if clean_str (py_get kw ''label'') \<noteq> ''goal-check'' then snd (cancel_pending_wakes sid (Some ''goal-check'') b1) else b1))"

definition list_scheduled_wakes :: "(str, pyval) dict \<Rightarrow> wake_board \<Rightarrow> str + alarm list" where
  "list_scheduled_wakes ctx b =
     (let sid = clean_str (py_get ctx ''session_id'') in if sid = [] then Inl ''MISSING_SESSION'' else Inr (list_wakes sid b))"

definition cancel_scheduled_wake :: "(str, pyval) dict \<Rightarrow> wake_board \<Rightarrow> (str + str) \<times> wake_board" where
  "cancel_scheduled_wake kw b =
     (let wid = clean_str (py_get kw ''wake_id'')
      in if wid = [] then (Inl ''MISSING_WAKE_ID'', b)
         else case cancel_wake wid b of (ok, b') \<Rightarrow> (if ok then Inr wid else Inl ''NOT_FOUND'', b'))"

text \<open>\<open>_maybe_schedule_goal_continuation_wake\<close>.\<close>

record goal_agent =
  ga_enabled :: bool
  ga_session :: str
  ga_source :: str
  ga_user :: str
  ga_prompt :: str
  ga_goals :: goal_store

definition goal_alarm :: "wake_env \<Rightarrow> goal_agent \<Rightarrow> wake_board \<Rightarrow> wake_board" where
  "goal_alarm E a b =
     (if \<not> ga_enabled a \<or> \<not> has_active_goals (ga_goals a) then b
      else if session_has_deferred_wake (ga_session a) 5 (we_now E) b \<or> goals_defer_auto_continue (ga_goals a) then b
      else snd (register_wake (we_fresh E) (we_now E)
        \<lparr>wk_id = [], wk_session = ga_session a, wk_fire = we_now E + 1, wk_message = ga_prompt a, wk_label = ''goal-check'', wk_created = 0,
         wk_frontend = ga_source a, wk_source = ga_source a, wk_user = ga_user a, wk_metadata = [(''kind'', PyStr ''goal_check'')],
         wk_fired = False, wk_staged = False\<rparr> b))"

section \<open>Views\<close>

lemma parked_in_simps [simp]:
  "parked_in sid (wb_wakes_update f b) = parked_in sid b" "parked_in sid (wb_turns_update g b) = parked_in sid b"
  by (simp_all add: parked_in_def)

lemma parked_in_set: "parked_in sid' (b\<lparr>wb_pending := dset sid ps (wb_pending b)\<rparr>) = (if sid' = sid then ps else parked_in sid' b)"
  by (simp add: parked_in_def)

lemma parked_in_put: "parked_in sid' (b\<lparr>wb_pending := put_list sid ps (wb_pending b)\<rparr>) = (if sid' = sid then ps else parked_in sid' b)"
  by (simp add: parked_in_def put_list_get)

lemma parked_in_pop: "parked_in sid' (b\<lparr>wb_pending := dpop sid (wb_pending b)\<rparr>) = (if sid' = sid then [] else parked_in sid' b)"
  by (simp add: parked_in_def)

lemma set_staged_views [simp]:
  "wb_pending (set_staged flag wid b) = wb_pending b" "wb_turns (set_staged flag wid b) = wb_turns b"
  "parked_in sid (set_staged flag wid b) = parked_in sid b"
  by (simp_all add: set_staged_def parked_in_def split: option.split)

lemma set_staged_wakes:
  "map_of (wb_wakes (set_staged flag wid b)) k =
     (if k = strip wid then map_option (\<lambda>w. w\<lparr>wk_staged := flag\<rparr>) (map_of (wb_wakes b) k) else map_of (wb_wakes b) k)"
  by (auto simp: set_staged_def split: option.split)

lemma dict_ok_set_staged [simp]: "dict_ok (wb_wakes b) \<Longrightarrow> dict_ok (wb_wakes (set_staged flag wid b))"
  by (simp add: set_staged_def split: option.split)

lemma mark_fired_views [simp]:
  "wb_pending (mark_fired wid b) = wb_pending b" "wb_turns (mark_fired wid b) = wb_turns b"
  "parked_in sid (mark_fired wid b) = parked_in sid b"
  by (simp_all add: mark_fired_def parked_in_def)

lemma mark_fired_wakes: "map_of (wb_wakes (mark_fired wid b)) k = (if k = strip wid then None else map_of (wb_wakes b) k)"
  by (simp add: mark_fired_def)

lemma dict_ok_mark_fired [simp]: "dict_ok (wb_wakes b) \<Longrightarrow> dict_ok (wb_wakes (mark_fired wid b))"
  by (simp add: mark_fired_def)

lemma remove_pending_views [simp]:
  "wb_wakes (remove_pending wid sid b) = wb_wakes b" "wb_turns (remove_pending wid sid b) = wb_turns b"
  by (simp_all add: remove_pending_def Let_def split: option.split)

lemma remove_pending_parked:
  assumes "strip wid = wid" "wid \<noteq> []" "strip sid = sid" "sid \<noteq> []"
  shows "parked_in sid' (remove_pending wid sid b) = (if sid' = sid then filter (\<lambda>p. pk_id p \<noteq> wid) (parked_in sid b) else parked_in sid' b)"
proof (cases "map_of (wb_pending b) sid")
  case None
  then show ?thesis using assms by (simp add: remove_pending_def parked_in_def)
next
  case (Some ps)
  then have "parked_in sid b = ps" by (simp add: parked_in_def)
  then show ?thesis using assms Some by (simp add: remove_pending_def parked_in_put)
qed

section \<open>What holds of the registry\<close>

definition clean_wake :: "alarm \<Rightarrow> bool" where
  "clean_wake w \<longleftrightarrow> wk_id w \<noteq> [] \<and> strip (wk_id w) = wk_id w \<and> wk_session w \<noteq> [] \<and> strip (wk_session w) = wk_session w \<and>
     wk_message w \<noteq> [] \<and> strip (wk_message w) = wk_message w \<and> strip (wk_label w) = wk_label w \<and> \<not> wk_fired w"

definition registry_ok :: "wake_board \<Rightarrow> bool" where
  "registry_ok b \<longleftrightarrow> dict_ok (wb_wakes b) \<and> (\<forall>k w. map_of (wb_wakes b) k = Some w \<longrightarrow> wk_id w = k \<and> clean_wake w)"

definition staged_for :: "str \<Rightarrow> str \<Rightarrow> str \<Rightarrow> wake_board \<Rightarrow> bool" where
  "staged_for wid sid label b \<longleftrightarrow>
     (\<exists>r. map_of (wb_wakes b) wid = Some r \<and> wk_staged r \<and> wk_session r = sid \<and> wk_label r = label)"

definition snapshot_ok :: "str \<Rightarrow> parked \<Rightarrow> bool" where
  "snapshot_ok sid p \<longleftrightarrow>
     (\<exists>w. pk_wake p = Some w \<and> clean_wake w \<and> wk_id w = pk_id p \<and> wk_session w = sid) \<and> pk_text p \<noteq> [] \<and> strip (pk_text p) = pk_text p"

text \<open>\<open>q\<close> are texts of the session \<open>s\<close> that a flush has taken out and not dealt with.\<close>

definition queues_ok :: "parked list \<Rightarrow> str \<Rightarrow> wake_board \<Rightarrow> bool" where
  "queues_ok q s b \<longleftrightarrow>
     (\<forall>p \<in> set q. snapshot_ok s p \<and> staged_for (pk_id p) s (label_of p) b) \<and>
     (\<forall>sid. \<forall>p \<in> set (parked_in sid b). snapshot_ok sid p \<and> staged_for (pk_id p) sid (label_of p) b)"

definition turns_ok :: "wake_board \<Rightarrow> bool" where
  "turns_ok b \<longleftrightarrow>
     (\<forall>t \<in> set (wb_turns b). wt_id t \<noteq> [] \<and> strip (wt_id t) = wt_id t \<and>
        (\<forall>r. map_of (wb_wakes b) (wt_id t) = Some r \<longrightarrow> wk_staged r))"

definition once :: "parked list \<Rightarrow> wake_board \<Rightarrow> bool" where
  "once q b \<longleftrightarrow>
     distinct (map pk_id q @ map wt_id (wb_turns b)) \<and>
     (\<forall>sid. distinct (map pk_id (parked_in sid b)) \<and>
        set (map pk_id (parked_in sid b)) \<inter> set (map pk_id q @ map wt_id (wb_turns b)) = {})"

definition nothing_lost :: "parked list \<Rightarrow> wake_board \<Rightarrow> bool" where
  "nothing_lost q b \<longleftrightarrow>
     (\<forall>k r. map_of (wb_wakes b) k = Some r \<longrightarrow> wk_staged r \<longrightarrow>
        k \<in> set (map pk_id q @ map wt_id (wb_turns b)) \<or> k \<in> set (map pk_id (parked_in (wk_session r) b)))"

definition wakes_ok :: "parked list \<Rightarrow> str \<Rightarrow> wake_board \<Rightarrow> bool" where
  "wakes_ok q s b \<longleftrightarrow> registry_ok b \<and> queues_ok q s b \<and> turns_ok b \<and> once q b \<and> nothing_lost q b"

lemmas wake_parts = registry_ok_def queues_ok_def turns_ok_def once_def nothing_lost_def staged_for_def

lemma wakes_ok_new: "wakes_ok [] s no_wakes"
  by (simp add: wakes_ok_def wake_parts no_wakes_def parked_in_def)

lemma wakes_ok_no_queue: "wakes_ok [] s b \<longleftrightarrow> wakes_ok [] s' b"
  by (simp add: wakes_ok_def queues_ok_def)

lemma registered_clean: "wakes_ok q s b \<Longrightarrow> map_of (wb_wakes b) k = Some w \<Longrightarrow> wk_id w = k \<and> clean_wake w"
  by (simp add: wakes_ok_def registry_ok_def)

lemma label_of_snapshot: "snapshot_ok sid p \<Longrightarrow> \<exists>w. pk_wake p = Some w \<and> label_of p = wk_label w \<and> clean_wake w \<and> wk_id w = pk_id p \<and> wk_session w = sid"
  by (auto simp: snapshot_ok_def label_of_def clean_wake_def)

lemma parked_registered:
  "wakes_ok q s b \<Longrightarrow> p \<in> set (parked_in sid b) \<Longrightarrow> staged_for (pk_id p) sid (label_of p) b \<and> snapshot_ok sid p"
  by (auto simp: wakes_ok_def queues_ok_def)

text \<open>Ids of texts and turns of alarms that are not staged.\<close>

lemma unstaged_free:
  assumes "wakes_ok q s b" "map_of (wb_wakes b) k = Some r" "\<not> wk_staged r"
  shows "k \<notin> set (map pk_id q @ map wt_id (wb_turns b)) \<and> k \<notin> set (map pk_id (parked_in sid b))"
proof
  show "k \<notin> set (map pk_id q @ map wt_id (wb_turns b))"
    using assms by (auto simp: wakes_ok_def queues_ok_def turns_ok_def staged_for_def)
  show "k \<notin> set (map pk_id (parked_in sid b))"
  proof
    assume "k \<in> set (map pk_id (parked_in sid b))"
    then obtain p where "p \<in> set (parked_in sid b)" "pk_id p = k" by auto
    then show False using parked_registered [OF assms(1)] assms(2,3) by (fastforce simp: staged_for_def)
  qed
qed

section \<open>Preservation\<close>

lemma wakes_ok_register:
  assumes ok: "wakes_ok [] s b" and fresh: "strip fresh = fresh" "fresh \<noteq> []"
    and new: "map_of (wb_wakes b) (str_or (strip (wk_id w)) fresh) = None" "str_or (strip (wk_id w)) fresh \<notin> set (map wt_id (wb_turns b))"
  shows "wakes_ok [] s (snd (register_wake fresh now w b))"
proof (cases "strip (wk_session w) = [] \<or> strip (wk_message w) = []")
  case True
  then show ?thesis using ok by (auto simp: register_wake_def Let_def)
next
  case False
  define wid where "wid = str_or (strip (wk_id w)) fresh"
  obtain rec where rec: "snd (register_wake fresh now w b) = b\<lparr>wb_wakes := dset wid rec (wb_wakes b)\<rparr>"
    "wk_id rec = wid" "clean_wake rec" "\<not> wk_staged rec"
    using False fresh by (auto simp: register_wake_def Let_def wid_def clean_wake_def str_or_def)
  have n: "map_of (wb_wakes b) wid = None" "wid \<notin> set (map wt_id (wb_turns b))" using new by (simp_all add: wid_def)
  have "registry_ok (b\<lparr>wb_wakes := dset wid rec (wb_wakes b)\<rparr>)" using ok rec by (auto simp: wakes_ok_def registry_ok_def)
  moreover have "queues_ok [] s (b\<lparr>wb_wakes := dset wid rec (wb_wakes b)\<rparr>)"
  proof -
    have "pk_id p \<noteq> wid" if "p \<in> set (parked_in sid b)" for sid p
      using parked_registered [OF ok that] n(1) by (auto simp: staged_for_def)
    then show ?thesis using parked_registered [OF ok] by (simp add: queues_ok_def staged_for_def)
  qed
  moreover have "turns_ok (b\<lparr>wb_wakes := dset wid rec (wb_wakes b)\<rparr>)"
    using ok n(2) by (auto simp: wakes_ok_def turns_ok_def)
  moreover have "once [] (b\<lparr>wb_wakes := dset wid rec (wb_wakes b)\<rparr>)" using ok by (simp add: wakes_ok_def once_def)
  moreover have "nothing_lost [] (b\<lparr>wb_wakes := dset wid rec (wb_wakes b)\<rparr>)"
    using ok rec(4) by (auto simp: wakes_ok_def nothing_lost_def)
  ultimately show ?thesis by (simp add: rec(1) wakes_ok_def)
qed

lemma cancel_wake_cases:
  obtains "cancel_wake wid b = (False, b)" "wakes_ok [] s b \<longrightarrow> map_of (wb_wakes b) (strip wid) = None"
  | w where "strip wid \<noteq> []" "map_of (wb_wakes b) (strip wid) = Some w"
      "cancel_wake wid b = (True, remove_pending (strip wid) (wk_session w) (b\<lparr>wb_wakes := dpop (strip wid) (wb_wakes b)\<rparr>))"
proof (cases "strip wid = []")
  case True
  moreover have "wakes_ok [] s b \<longrightarrow> map_of (wb_wakes b) [] = None"
    by (cases "map_of (wb_wakes b) []") (auto dest: registered_clean simp: clean_wake_def)
  ultimately show ?thesis using that(1) by (simp add: cancel_wake_def)
next
  case False
  then show ?thesis using that by (cases "map_of (wb_wakes b) (strip wid)") (simp_all add: cancel_wake_def Let_def)
qed

lemma wakes_ok_cancel:
  assumes ok: "wakes_ok [] s b"
  shows "wakes_ok [] s (snd (cancel_wake wid b))"
proof (cases rule: cancel_wake_cases [of wid b s])
  case 1
  then show ?thesis using ok by simp
next
  case (2 w)
  define k where "k = strip wid"
  have k: "strip k = k" "k \<noteq> []" using 2 by (simp_all add: k_def)
  have w: "map_of (wb_wakes b) k = Some w" "strip (wk_session w) = wk_session w" "wk_session w \<noteq> []"
    using 2 registered_clean [OF ok 2(2)] by (simp_all add: k_def clean_wake_def)
  define b' where "b' = remove_pending k (wk_session w) (b\<lparr>wb_wakes := dpop k (wb_wakes b)\<rparr>)"
  have wakes: "wb_wakes b' = dpop k (wb_wakes b)" "wb_turns b' = wb_turns b" by (simp_all add: b'_def)
  have parked: "parked_in sid b' = filter (\<lambda>p. pk_id p \<noteq> k) (parked_in sid b)" for sid
  proof (cases "sid = wk_session w")
    case False
    have "\<forall>p \<in> set (parked_in sid b). pk_id p \<noteq> k"
      using parked_registered [OF ok] w(1) False by (fastforce simp: staged_for_def)
    then show ?thesis using k w False by (simp add: b'_def remove_pending_parked filter_True)
  qed (use k w in \<open>simp add: b'_def remove_pending_parked\<close>)
  have "registry_ok b'" using ok by (auto simp: wakes wakes_ok_def registry_ok_def)
  moreover have "queues_ok [] s b'" using ok by (auto simp: wakes parked wakes_ok_def queues_ok_def staged_for_def)
  moreover have "turns_ok b'" using ok by (auto simp: wakes wakes_ok_def turns_ok_def)
  moreover have "once [] b'" using ok by (auto simp: wakes parked wakes_ok_def once_def distinct_map_filter)
  moreover have "nothing_lost [] b'" using ok by (fastforce simp: wakes parked wakes_ok_def nothing_lost_def)
  ultimately show ?thesis by (simp add: 2(3) wakes_ok_def b'_def k_def)
qed

lemma cancel_wake_wakes:
  assumes "wakes_ok [] s b"
  shows "map_of (wb_wakes (snd (cancel_wake wid b))) k = (if k = strip wid then None else map_of (wb_wakes b) k)"
  by (cases rule: cancel_wake_cases [of wid b s]) (use assms in auto)

lemma cancel_alarms:
  assumes "wakes_ok [] s b"
  shows "wakes_ok [] s (snd (run_ops cancel_wake ids b)) \<and>
    map_of (wb_wakes (snd (run_ops cancel_wake ids b))) k = (if k \<in> strip ` set ids then None else map_of (wb_wakes b) k)"
  using assms
proof (induction ids arbitrary: b)
  case (Cons i ids)
  then show ?case using wakes_ok_cancel [OF Cons.prems, of i] by (auto simp: cancel_wake_wakes)
qed simp

lemma wakes_ok_cancel_pending:
  assumes ok: "wakes_ok [] s b" and clean: "\<And>l. label = Some l \<Longrightarrow> strip l = l"
  shows "wakes_ok [] s (snd (cancel_pending_wakes sid label b))"
proof (cases "strip sid = []")
  case False
  define c where "c = strip sid"
  define b' where "b' = snd (run_ops cancel_wake (wakes_to_cancel c label b) b)"
  have ok': "wakes_ok [] s b'" using cancel_alarms [OF ok] by (simp add: b'_def)
  have gone: "map_of (wb_wakes b') k = Some r \<Longrightarrow> map_of (wb_wakes b) k = Some r \<and> k \<notin> set (wakes_to_cancel c label b)" for k r
  proof -
    assume r: "map_of (wb_wakes b') k = Some r"
    then have "k \<notin> strip ` set (wakes_to_cancel c label b)" "map_of (wb_wakes b) k = Some r"
      using cancel_alarms [OF ok, of "wakes_to_cancel c label b" k] by (auto simp: b'_def split: if_splits)
    moreover have "strip k = k" using registered_clean [OF ok calculation(2)] by (auto simp: clean_wake_def)
    ultimately show ?thesis by (metis image_eqI)
  qed
  show ?thesis
  proof (cases label)
    case None
    then show ?thesis using ok' False
      by (cases "run_ops cancel_wake (wakes_to_cancel c None b) b") (simp add: cancel_pending_wakes_def c_def b'_def Let_def)
  next
    case (Some l)
    have none: "label_of p \<noteq> l" if p: "p \<in> set (parked_in c b')" for p
    proof
      assume l: "label_of p = l"
      obtain r where r: "map_of (wb_wakes b') (pk_id p) = Some r" "wk_session r = c" "wk_label r = l"
        using parked_registered [OF ok' p] l by (auto simp: staged_for_def)
      have cl: "clean_wake r" using registered_clean [OF ok' r(1)] by simp
      have "(pk_id p, r) \<in> set (wb_wakes b)" using gone [OF r(1)] by (auto dest: map_of_SomeD)
      then have "pk_id p \<in> set (wakes_to_cancel c label b)"
        using r cl Some clean [OF Some] by (force simp: wakes_to_cancel_def clean_wake_def)
      then show False using gone [OF r(1)] by simp
    qed
    then have "filter (\<lambda>p. label_of p \<noteq> strip l) (parked_in c b') = parked_in c b'" using clean [OF Some] by (simp add: filter_True)
    then have same: "parked_in x (purge_by_label c l b') = parked_in x b'" for x
      by (simp add: purge_by_label_def Let_def c_def parked_in_put)
    have rest: "wb_wakes (purge_by_label c l b') = wb_wakes b'" "wb_turns (purge_by_label c l b') = wb_turns b'"
      by (simp_all add: purge_by_label_def Let_def)
    have "wakes_ok [] s (purge_by_label c l b')" using ok' by (simp add: wakes_ok_def wake_parts same rest)
    moreover have "snd (cancel_pending_wakes sid label b) = purge_by_label c l b'"
      using False by (simp add: cancel_pending_wakes_def c_def b'_def Some Let_def split: prod.split)
    ultimately show ?thesis by simp
  qed
qed (use ok in \<open>simp add: cancel_pending_wakes_def\<close>)

lemma wakes_ok_fire:
  assumes ok: "wakes_ok q s b" and k: "strip wid = wid" and free: "wid \<notin> set (map pk_id q)" "\<And>sid. wid \<notin> set (map pk_id (parked_in sid b))"
  shows "wakes_ok q s (mark_fired wid b)"
proof -
  have "pk_id p \<noteq> wid" if "p \<in> set (parked_in sid b)" for sid p using that free(2) [of sid] by auto
  moreover have "pk_id p \<noteq> wid" if "p \<in> set q" for p using that free(1) by auto
  ultimately have "queues_ok q s (mark_fired wid b)"
    using ok by (simp add: wakes_ok_def queues_ok_def staged_for_def mark_fired_wakes k)
  moreover have "registry_ok (mark_fired wid b)" using ok by (auto simp: wakes_ok_def registry_ok_def mark_fired_wakes)
  moreover have "turns_ok (mark_fired wid b)" using ok by (auto simp: wakes_ok_def turns_ok_def mark_fired_wakes)
  moreover have "once q (mark_fired wid b)" using ok by (simp add: wakes_ok_def once_def)
  moreover have "nothing_lost q (mark_fired wid b)" using ok by (auto simp: wakes_ok_def nothing_lost_def mark_fired_wakes split: if_splits)
  ultimately show ?thesis by (simp add: wakes_ok_def)
qed

text \<open>The text at hand becomes a turn.\<close>

definition send_turn :: "wake_turn \<Rightarrow> wake_board \<Rightarrow> wake_board" where
  "send_turn t b = set_staged True (wt_id t) (b\<lparr>wb_turns := wb_turns b @ [t]\<rparr>)"

lemma send_turn_views [simp]:
  "wb_pending (send_turn t b) = wb_pending b" "parked_in sid (send_turn t b) = parked_in sid b" "wb_turns (send_turn t b) = wb_turns b @ [t]"
  by (simp_all add: send_turn_def)

lemma send_turn_wakes:
  "map_of (wb_wakes (send_turn t b)) k =
     (if k = strip (wt_id t) then map_option (\<lambda>w. w\<lparr>wk_staged := True\<rparr>) (map_of (wb_wakes b) k) else map_of (wb_wakes b) k)"
  by (simp add: send_turn_def set_staged_wakes)

lemma clean_staged [simp]: "clean_wake (w\<lparr>wk_staged := f\<rparr>) = clean_wake w"
  by (simp add: clean_wake_def)

lemma registry_ok_staged: "registry_ok b \<Longrightarrow> registry_ok (set_staged f wid b)"
  by (auto simp: registry_ok_def set_staged_wakes)

lemma staged_for_staged: "staged_for k sid l b \<Longrightarrow> staged_for k sid l (set_staged True wid b)"
  by (auto simp: staged_for_def set_staged_wakes)

lemma queues_mono:
  assumes "queues_ok q s b" "set q' \<subseteq> set q" "\<And>sid. parked_in sid b' = parked_in sid b"
    and "\<And>k sid l. staged_for k sid l b \<Longrightarrow> staged_for k sid l b'"
  shows "queues_ok q' s b'"
  using assms by (auto simp: queues_ok_def)

lemma staged_for_send: "staged_for k sid l b \<Longrightarrow> staged_for k sid l (send_turn t b)"
  by (auto simp: staged_for_def send_turn_wakes)

lemma nothing_lost_send:
  assumes "nothing_lost q' b" "set q' \<subseteq> set q \<or> (\<exists>p. q' = p # q \<and> pk_id p = wt_id t)" "strip (wt_id t) = wt_id t"
  shows "nothing_lost q (send_turn t b)"
  unfolding nothing_lost_def
proof (intro allI impI)
  fix k r
  assume r: "map_of (wb_wakes (send_turn t b)) k = Some r" "wk_staged r"
  show "k \<in> set (map pk_id q @ map wt_id (wb_turns (send_turn t b))) \<or> k \<in> set (map pk_id (parked_in (wk_session r) (send_turn t b)))"
  proof (cases "k = wt_id t")
    case False
    then have "map_of (wb_wakes b) k = Some r" using r assms(3) by (simp add: send_turn_wakes)
    then show ?thesis using assms(1,2) r(2) False by (fastforce simp: nothing_lost_def)
  qed simp
qed

lemma wakes_ok_send:
  assumes ok: "wakes_ok (p # q) s b" and t: "wt_id t = pk_id p"
  shows "wakes_ok q s (send_turn t b)"
proof -
  have k: "strip (pk_id p) = pk_id p" "pk_id p \<noteq> []"
    using ok by (auto simp: wakes_ok_def queues_ok_def snapshot_ok_def clean_wake_def)
  have "registry_ok (send_turn t b)" using ok registry_ok_staged [of "b\<lparr>wb_turns := wb_turns b @ [t]\<rparr>"]
    by (simp add: wakes_ok_def send_turn_def registry_ok_def)
  moreover have "queues_ok q s (send_turn t b)"
    by (rule queues_mono [where b = b and q = "p # q"]) (use ok staged_for_send in \<open>auto simp: wakes_ok_def\<close>)
  moreover have "turns_ok (send_turn t b)" using ok t k by (auto simp: wakes_ok_def turns_ok_def send_turn_wakes)
  moreover have "once q (send_turn t b)" using ok t by (auto simp: wakes_ok_def once_def)
  moreover have "nothing_lost q (send_turn t b)" by (rule nothing_lost_send [where q' = "p # q"]) (use ok t k in \<open>simp_all add: wakes_ok_def\<close>)
  ultimately show ?thesis by (simp add: wakes_ok_def)
qed

lemma wakes_ok_send_free:
  assumes ok: "wakes_ok q s b" and t: "strip (wt_id t) = wt_id t" "wt_id t \<noteq> []" and r: "map_of (wb_wakes b) (wt_id t) = Some r" "\<not> wk_staged r"
  shows "wakes_ok q s (send_turn t b)"
proof -
  note free = unstaged_free [OF ok r]
  have "registry_ok (send_turn t b)" using ok registry_ok_staged [of "b\<lparr>wb_turns := wb_turns b @ [t]\<rparr>"]
    by (simp add: wakes_ok_def send_turn_def registry_ok_def)
  moreover have "queues_ok q s (send_turn t b)"
    by (rule queues_mono [where b = b and q = q]) (use ok staged_for_send in \<open>auto simp: wakes_ok_def\<close>)
  moreover have "turns_ok (send_turn t b)" using ok t by (auto simp: wakes_ok_def turns_ok_def send_turn_wakes)
  moreover have "once q (send_turn t b)" using ok free by (auto simp: wakes_ok_def once_def)
  moreover have "nothing_lost q (send_turn t b)" by (rule nothing_lost_send [where q' = q]) (use ok t in \<open>simp_all add: wakes_ok_def\<close>)
  ultimately show ?thesis by (simp add: wakes_ok_def)
qed

lemma stage_wake_board:
  assumes "strip sid = sid" "strip wid = wid" "sid \<noteq> []" "body \<noteq> []" "wid \<noteq> []" "map_of (wb_wakes b) wid = Some r"
  shows "stage_wake sid body wid b =
    (set_staged True wid b)\<lparr>wb_pending := dset sid (parked_in sid b @ [\<lparr>pk_text = body, pk_id = wid, pk_wake = Some (r\<lparr>wk_staged := True\<rparr>)\<rparr>]) (wb_pending b)\<rparr>"
  using assms by (simp add: stage_wake_def get_wake_def set_staged_wakes)

lemma wakes_ok_stage:
  assumes ok: "wakes_ok q s b" and r: "map_of (wb_wakes b) wid = Some r" "\<not> wk_staged r" and body: "strip body = body" "body \<noteq> []"
  shows "wakes_ok q s (stage_wake (wk_session r) body wid b)"
proof -
  note free = unstaged_free [OF ok r]
  have cl: "wk_id r = wid" "clean_wake r" using registered_clean [OF ok r(1)] by simp_all
  define p where "p = \<lparr>pk_text = body, pk_id = wid, pk_wake = Some (r\<lparr>wk_staged := True\<rparr>)\<rparr>"
  define b' where "b' = stage_wake (wk_session r) body wid b"
  have b': "b' = (set_staged True wid b)\<lparr>wb_pending := dset (wk_session r) (parked_in (wk_session r) b @ [p]) (wb_pending b)\<rparr>"
    unfolding b'_def p_def by (rule stage_wake_board) (use cl body r in \<open>auto simp: clean_wake_def\<close>)
  have parked: "parked_in sid b' = (if sid = wk_session r then parked_in sid b @ [p] else parked_in sid b)" for sid
    by (simp add: b' parked_in_def)
  have wakes: "map_of (wb_wakes b') k = (if k = wid then Some (r\<lparr>wk_staged := True\<rparr>) else map_of (wb_wakes b) k)" for k
    using cl r by (auto simp: b' set_staged_wakes clean_wake_def)
  have turns: "wb_turns b' = wb_turns b" by (simp add: b')
  have up: "staged_for k sid l b \<Longrightarrow> staged_for k sid l b'" for k sid l by (auto simp: staged_for_def wakes r)
  have "snapshot_ok (wk_session r) p \<and> staged_for (pk_id p) (wk_session r) (label_of p) b'"
    using cl body by (auto simp: snapshot_ok_def p_def staged_for_def wakes label_of_def clean_wake_def)
  then have "queues_ok q s b'" using ok up by (auto simp: wakes_ok_def queues_ok_def parked)
  moreover have "registry_ok b'" using ok registry_ok_staged [of b True wid] by (auto simp: wakes_ok_def b' registry_ok_def)
  moreover have "turns_ok b'" using ok by (auto simp: wakes_ok_def turns_ok_def wakes turns)
  moreover have "once q b'" using ok free by (auto simp: wakes_ok_def once_def parked turns p_def)
  moreover have "nothing_lost q b'" using ok by (fastforce simp: wakes_ok_def nothing_lost_def parked turns wakes p_def split: if_splits)
  ultimately show ?thesis by (simp add: wakes_ok_def b'_def)
qed

section \<open>Rounds and flushes\<close>

lemma deliver_wake_clean:
  assumes "clean_wake w" "strip (str_or text (format_wake w)) \<noteq> []"
  shows "deliver_wake v G w text b =
    (if \<not> sv_present v then (False, b)
     else if \<not> still_actionable G w b then (False, mark_fired (wk_id w) b)
     else if sv_inflight v (wk_session w) > 0
     then (True, if is_staged_wake (wk_id w) b then b else stage_wake (wk_session w) (strip (str_or text (format_wake w))) (wk_id w) b)
     else if \<not> sv_accepts v then (False, set_staged False (wk_id w) b)
     else (True, send_turn (turn_for w (strip (str_or text (format_wake w)))) b))"
  using assms by (simp add: deliver_wake_def clean_wake_def send_turn_def turn_for_def Let_def)

lemma deliver_cases:
  assumes w: "clean_wake w" "strip (str_or text (format_wake w)) \<noteq> []"
  obtains "\<not> sv_present v" "deliver_wake v G w text b = (False, b)"
  | "sv_present v" "\<not> still_actionable G w b" "deliver_wake v G w text b = (False, mark_fired (wk_id w) b)"
  | "sv_present v" "still_actionable G w b" "sv_inflight v (wk_session w) > 0" "is_staged_wake (wk_id w) b" "deliver_wake v G w text b = (True, b)"
  | "sv_present v" "still_actionable G w b" "sv_inflight v (wk_session w) > 0" "\<not> is_staged_wake (wk_id w) b"
      "deliver_wake v G w text b = (True, stage_wake (wk_session w) (strip (str_or text (format_wake w))) (wk_id w) b)"
  | "sv_present v" "still_actionable G w b" "sv_inflight v (wk_session w) \<le> 0" "\<not> sv_accepts v" "deliver_wake v G w text b = (False, set_staged False (wk_id w) b)"
  | "sv_present v" "still_actionable G w b" "sv_inflight v (wk_session w) \<le> 0" "sv_accepts v"
      "deliver_wake v G w text b = (True, send_turn (turn_for w (strip (str_or text (format_wake w)))) b)"
proof -
  note eq = deliver_wake_clean [OF w]
  consider "\<not> sv_present v" | "sv_present v" "\<not> still_actionable G w b"
    | "sv_present v" "still_actionable G w b" "sv_inflight v (wk_session w) > 0" "is_staged_wake (wk_id w) b"
    | "sv_present v" "still_actionable G w b" "sv_inflight v (wk_session w) > 0" "\<not> is_staged_wake (wk_id w) b"
    | "sv_present v" "still_actionable G w b" "sv_inflight v (wk_session w) \<le> 0" "\<not> sv_accepts v"
    | "sv_present v" "still_actionable G w b" "sv_inflight v (wk_session w) \<le> 0" "sv_accepts v"
    by linarith
  then show ?thesis by cases (simp_all add: eq that)
qed

lemma format_wake_nonempty [simp]: "strip (format_wake w) \<noteq> []"
proof
  assume "strip (format_wake w) = []"
  then have "is_space (CHR ''['')" if "CHR ''['' \<in> set (format_wake w)" using that by (simp add: strip_eq_Nil)
  moreover have "CHR ''['' \<in> set (format_wake w)" by (simp add: format_wake_def Let_def)
  moreover have "\<not> is_space (CHR ''['')" by (simp add: is_space_def)
  ultimately show False by blast
qed

lemma turn_for_views [simp]:
  "clean_wake w \<Longrightarrow> wt_id (turn_for w body) = wk_id w" "clean_wake w \<Longrightarrow> wt_session (turn_for w body) = wk_session w" "wt_text (turn_for w body) = body"
  by (simp_all add: turn_for_def clean_wake_def Let_def)

lemma wakes_ok_deliver_due:
  assumes ok: "wakes_ok q s b" and w: "map_of (wb_wakes b) (wk_id w) = Some w" "\<not> wk_staged w"
  shows "wakes_ok q s (snd (deliver_wake v G w (format_wake w) b))"
proof -
  have cl: "clean_wake w" using registered_clean [OF ok w(1)] by simp
  then have k: "strip (wk_id w) = wk_id w" "wk_id w \<noteq> []" by (simp_all add: clean_wake_def)
  note free = unstaged_free [OF ok w]
  have body: "strip (str_or (format_wake w) (format_wake w)) \<noteq> []" by (simp add: str_or_def)
  show ?thesis
  proof (cases rule: deliver_cases [OF cl body, of v G b])
    case 2
    then show ?thesis using wakes_ok_fire [OF ok k(1)] free by auto
  next
    case 4
    then show ?thesis using wakes_ok_stage [OF ok w strip_idem] body by simp
  next
    case 5
    have "set_staged False (wk_id w) b = b\<lparr>wb_wakes := dset (wk_id w) w (wb_wakes b)\<rparr>" using w k by (cases w) (simp add: set_staged_def)
    moreover have "map_of (dset (wk_id w) w (wb_wakes b)) x = map_of (wb_wakes b) x" for x using w by simp
    ultimately show ?thesis using ok 5 by (simp add: wakes_ok_def wake_parts)
  next
    case 6
    then show ?thesis using wakes_ok_send_free [OF ok, of "turn_for w _" w] cl k w by simp
  qed (use ok in auto)
qed

lemma still_actionable_bare: "pk_wake p = Some w \<Longrightarrow> flush_parked v G sid p b =
    (if \<not> still_actionable G w b then (if pk_id p = [] then b else mark_fired (pk_id p) b) else snd (deliver_wake v G w (pk_text p) b))"
  by (simp add: flush_parked_def)

lemma once_tail:
  assumes "wakes_ok (p # q) s b"
  shows "pk_id p \<notin> set (map pk_id q)" "pk_id p \<notin> set (map pk_id (parked_in sid b))" "pk_id p \<notin> set (map wt_id (wb_turns b))"
  using assms by (auto simp: wakes_ok_def once_def)

lemma wakes_ok_flush_parked:
  assumes ok: "wakes_ok (p # q) s b" and v: "sv_present v" "sv_inflight v s \<le> 0"
  shows "wakes_ok q s (flush_parked v G s p b)"
proof -
  obtain w where w: "pk_wake p = Some w" "clean_wake w" "wk_id w = pk_id p" "wk_session w = s"
    and words: "pk_text p \<noteq> []" "strip (pk_text p) = pk_text p"
    using ok by (auto simp: wakes_ok_def queues_ok_def snapshot_ok_def)
  have k: "strip (pk_id p) = pk_id p" "pk_id p \<noteq> []" using w(2,3) by (simp_all add: clean_wake_def)
  note tail = once_tail [OF ok]
  have other: "pk_id p' \<noteq> pk_id p" if "p' \<in> set q" for p' using that tail(1) by (metis image_eqI list.set_map)
  have gone: "wakes_ok q s (mark_fired (pk_id p) b)"
  proof -
    have x: "pk_id p' \<noteq> pk_id p" if "p' \<in> set (parked_in sid b)" for sid p' using that tail(2) [of sid] by (metis image_eqI list.set_map)
    have "queues_ok q s (mark_fired (pk_id p) b)"
      using ok other x by (auto simp: wakes_ok_def queues_ok_def staged_for_def mark_fired_wakes k)
    moreover have "registry_ok (mark_fired (pk_id p) b)" using ok by (auto simp: wakes_ok_def registry_ok_def mark_fired_wakes)
    moreover have "turns_ok (mark_fired (pk_id p) b)" using ok by (auto simp: wakes_ok_def turns_ok_def mark_fired_wakes)
    moreover have "once q (mark_fired (pk_id p) b)" using ok by (auto simp: wakes_ok_def once_def)
    moreover have "nothing_lost q (mark_fired (pk_id p) b)"
      using ok k by (auto simp: wakes_ok_def nothing_lost_def mark_fired_wakes split: if_splits)
    ultimately show ?thesis by (simp add: wakes_ok_def)
  qed
  have again: "wakes_ok q s (set_staged False (pk_id p) b)"
  proof -
    have x: "pk_id p' \<noteq> pk_id p" if "p' \<in> set (parked_in sid b)" for sid p' using that tail(2) [of sid] by (metis image_eqI list.set_map)
    have "queues_ok q s (set_staged False (pk_id p) b)"
      using ok other x by (auto simp: wakes_ok_def queues_ok_def staged_for_def set_staged_wakes k)
    moreover have "registry_ok (set_staged False (pk_id p) b)" using ok registry_ok_staged by (simp add: wakes_ok_def)
    moreover have "turns_ok (set_staged False (pk_id p) b)"
    proof -
      have "wt_id t \<noteq> pk_id p" if "t \<in> set (wb_turns b)" for t using that tail(3) by (metis image_eqI list.set_map)
      then show ?thesis using ok by (simp add: wakes_ok_def turns_ok_def set_staged_wakes k)
    qed
    moreover have "once q (set_staged False (pk_id p) b)" using ok by (auto simp: wakes_ok_def once_def)
    moreover have "nothing_lost q (set_staged False (pk_id p) b)"
      using ok k by (auto simp: wakes_ok_def nothing_lost_def set_staged_wakes split: if_splits)
    ultimately show ?thesis by (simp add: wakes_ok_def)
  qed
  show ?thesis
  proof (cases "still_actionable G w b")
    case True
    have body: "strip (str_or (pk_text p) (format_wake w)) \<noteq> []" using words by simp
    show ?thesis
      by (cases rule: deliver_cases [OF w(2) body, of v G b])
        (use v w k True again wakes_ok_send [OF ok, of "turn_for w _"] in \<open>simp_all add: still_actionable_bare [OF w(1)]\<close>)
  qed (use gone k in \<open>simp add: still_actionable_bare [OF w(1)]\<close>)
qed

lemma flush_ready:
  assumes ok: "wakes_ok [] s b"
  shows "wakes_ok (parked_in sid b) sid (b\<lparr>wb_pending := dpop sid (wb_pending b)\<rparr>)"
proof -
  define b0 where "b0 = b\<lparr>wb_pending := dpop sid (wb_pending b)\<rparr>"
  have b0: "wb_wakes b0 = wb_wakes b" "wb_turns b0 = wb_turns b" by (simp_all add: b0_def)
  have parked: "parked_in x b0 = (if x = sid then [] else parked_in x b)" for x by (simp add: b0_def parked_in_pop)
    have "registry_ok b0" "turns_ok b0" using ok by (simp_all add: wakes_ok_def registry_ok_def turns_ok_def b0_def)
    moreover have "queues_ok (parked_in sid b) sid b0"
      using ok by (simp add: wakes_ok_def queues_ok_def parked staged_for_def) (simp add: b0_def)
    moreover have "once (parked_in sid b) b0"
    proof -
      have "set (map pk_id (parked_in x b)) \<inter> set (map pk_id (parked_in y b)) = {}" if "x \<noteq> y" for x y
        using parked_registered [OF ok] that by (auto simp: staged_for_def) (metis option.inject)
      then show ?thesis using ok by (auto simp: wakes_ok_def once_def parked_in_pop disjoint_iff b0_def)
    qed
    moreover have "nothing_lost (parked_in sid b) b0"
      unfolding nothing_lost_def
    proof (intro allI impI)
      fix k r
      assume "map_of (wb_wakes b0) k = Some r" "wk_staged r"
      then have "k \<in> set (map wt_id (wb_turns b)) \<or> k \<in> set (map pk_id (parked_in (wk_session r) b))"
        using ok b0(1) by (simp add: wakes_ok_def nothing_lost_def)
      then show "k \<in> set (map pk_id (parked_in sid b) @ map wt_id (wb_turns b0)) \<or> k \<in> set (map pk_id (parked_in (wk_session r) b0))"
        using b0(2) by (cases "wk_session r = sid") (auto simp: parked)
    qed
    ultimately show ?thesis by (simp add: wakes_ok_def b0_def)
qed

lemma wakes_ok_flush:
  assumes ok: "wakes_ok [] s b" and v: "sv_present v" "sv_inflight v (strip sid) \<le> 0"
  shows "wakes_ok [] s (flush_wakes v G sid b)"
proof (cases "strip sid = []")
  case False
  have "wakes_ok [] (strip sid) (fold (flush_parked v G (strip sid)) q b')" if "wakes_ok q (strip sid) b'" for q b'
    using that by (induction q arbitrary: b') (simp_all add: wakes_ok_flush_parked v)
  from this [OF flush_ready [OF ok]] have "wakes_ok [] (strip sid) (flush_wakes v G sid b)" using False by (simp add: flush_wakes_def Let_def)
  then show ?thesis using wakes_ok_no_queue by blast
qed (use ok in \<open>simp add: flush_wakes_def\<close>)

lemma deliver_keeps_others:
  assumes "clean_wake w" "k \<noteq> wk_id w"
  shows "map_of (wb_wakes (snd (deliver_wake v G w text b))) k = map_of (wb_wakes b) k"
proof -
  have "strip (wk_id w) = wk_id w" using assms(1) by (simp add: clean_wake_def)
  then show ?thesis using assms(2)
    by (simp add: deliver_wake_def Let_def mark_fired_wakes stage_wake_def set_staged_wakes)
qed

text \<open>The alarms of a round, and those that are left of it.\<close>

definition still_due :: "alarm list \<Rightarrow> wake_board \<Rightarrow> bool" where
  "still_due ws b \<longleftrightarrow> distinct (map wk_id ws) \<and> (\<forall>w \<in> set ws. map_of (wb_wakes b) (wk_id w) = Some w \<and> \<not> wk_staged w)"

lemma still_due_poll:
  assumes "wakes_ok q s b"
  shows "still_due (poll_due_wakes n now b) b"
proof -
  let ?ws = "filter (\<lambda>w. \<not> wk_fired w \<and> \<not> wk_staged w \<and> wk_fire w \<le> now) (map snd (wb_wakes b))"
  have "wk_id (snd e) = fst e" if "e \<in> set (wb_wakes b)" for e
    using assms that in_set_dget [of "wb_wakes b" "fst e" "snd e"] by (simp add: wakes_ok_def registry_ok_def)
  then have ids: "map wk_id (map snd (wb_wakes b)) = dkeys (wb_wakes b)" by simp
  have "distinct (map wk_id (map snd (wb_wakes b)))" unfolding ids using assms by (simp add: wakes_ok_def registry_ok_def dict_ok_def)
  then have "distinct (map wk_id ?ws)" by (rule distinct_map_filter)
  then have "distinct (map wk_id (sort_key wk_fire ?ws))" by (simp add: distinct_map del: filter_map)
  then have "distinct (map wk_id (poll_due_wakes n now b))" unfolding poll_due_wakes_def by (simp only: take_map [symmetric] distinct_take)
  moreover have "map_of (wb_wakes b) (wk_id w) = Some w \<and> \<not> wk_staged w" if "w \<in> set (poll_due_wakes n now b)" for w
  proof -
    have "w \<in> set ?ws" using that unfolding poll_due_wakes_def by (auto dest: in_set_takeD)
    then obtain k where k: "(k, w) \<in> set (wb_wakes b)" "\<not> wk_staged w" by auto
    then have "map_of (wb_wakes b) k = Some w" using assms by (simp add: wakes_ok_def registry_ok_def in_set_dget)
    then show ?thesis using registered_clean [OF assms] k(2) by auto
  qed
  ultimately show ?thesis by (simp add: still_due_def)
qed

lemma still_due_step:
  assumes "wakes_ok q s b" "still_due (w # ws) b"
  shows "still_due ws (snd (deliver_wake v G w text b))"
proof -
  have "clean_wake w" using assms by (auto simp: still_due_def dest: registered_clean)
  moreover have "wk_id w \<notin> wk_id ` set ws" using assms(2) by (simp add: still_due_def)
  then have "wk_id w' \<noteq> wk_id w" if "w' \<in> set ws" for w' using that by (metis imageI)
  ultimately show ?thesis using assms(2) deliver_keeps_others [of w] by (simp add: still_due_def)
qed

lemma wakes_ok_due:
  "wakes_ok [] s b \<Longrightarrow> still_due ws b \<Longrightarrow> wakes_ok [] s (fold (\<lambda>w b. snd (deliver_wake v G w (format_wake w) b)) ws b)"
proof (induction ws arbitrary: b)
  case (Cons w ws)
  have "wakes_ok [] s (snd (deliver_wake v G w (format_wake w) b))"
    using wakes_ok_deliver_due [OF Cons.prems(1)] Cons.prems(2) by (auto simp: still_due_def)
  then show ?case using Cons.IH still_due_step [OF Cons.prems] by simp
qed simp

lemma wakes_ok_round: "wakes_ok [] s b \<Longrightarrow> wakes_ok [] s (wake_round v G now b)"
  unfolding wake_round_def by (intro wakes_ok_due still_due_poll)

lemma wakes_ok_end:
  assumes ok: "wakes_ok [] s b" and t: "t \<in> set (wb_turns b)"
  shows "wakes_ok [] s (end_wake_turn confirmed t b)"
proof -
  define b1 where "b1 = b\<lparr>wb_turns := remove1 t (wb_turns b)\<rparr>"
  have id: "wt_id t \<noteq> []" "strip (wt_id t) = wt_id t" using ok t by (auto simp: wakes_ok_def turns_ok_def)
  have dist: "distinct (map wt_id (wb_turns b))" using ok by (simp add: wakes_ok_def once_def)
  then have turns: "wb_turns b1 = filter (\<lambda>t'. wt_id t' \<noteq> wt_id t) (wb_turns b)"
    using t by (auto simp: b1_def distinct_map distinct_remove1_removeAll removeAll_filter_not_eq inj_on_def intro!: filter_cong)
  have free: "pk_id p \<noteq> wt_id t" if "p \<in> set (parked_in sid b)" for p sid
    using ok t that by (auto simp: wakes_ok_def once_def disjoint_iff) 
  let ?out = "\<lambda>b'. wb_turns b' = wb_turns b1 \<and> (\<forall>sid. parked_in sid b' = parked_in sid b) \<and>
    (\<forall>k. k \<noteq> wt_id t \<longrightarrow> map_of (wb_wakes b') k = map_of (wb_wakes b) k)"
  have rest: "wakes_ok [] s b'" if out: "?out b'" and reg: "registry_ok b'"
    and mine: "\<And>r. map_of (wb_wakes b') (wt_id t) = Some r \<Longrightarrow> \<not> wk_staged r" for b'
  proof -
    have "queues_ok [] s b'" using ok out free by (simp add: wakes_ok_def queues_ok_def staged_for_def)
    moreover have "turns_ok b'"
      unfolding turns_ok_def
    proof
      fix t'
      assume "t' \<in> set (wb_turns b')"
      then have "t' \<in> set (wb_turns b)" "wt_id t' \<noteq> wt_id t" using out by (simp_all add: turns)
      then show "wt_id t' \<noteq> [] \<and> strip (wt_id t') = wt_id t' \<and> (\<forall>r. map_of (wb_wakes b') (wt_id t') = Some r \<longrightarrow> wk_staged r)"
        using ok out by (simp add: wakes_ok_def turns_ok_def)
    qed
    moreover have "once [] b'"
    proof -
      have "set (map wt_id (wb_turns b')) \<subseteq> set (map wt_id (wb_turns b))" using out by (auto simp: turns)
      then show ?thesis using ok out unfolding wakes_ok_def once_def by (simp add: turns distinct_map_filter) blast
    qed
    moreover have "nothing_lost [] b'"
      unfolding nothing_lost_def
    proof (intro allI impI)
      fix k r
      assume r: "map_of (wb_wakes b') k = Some r" "wk_staged r"
      then have k: "k \<noteq> wt_id t" using mine by auto
      then have "map_of (wb_wakes b) k = Some r" using r out by simp
      then have "k \<in> wt_id ` set (wb_turns b) \<or> k \<in> set (map pk_id (parked_in (wk_session r) b))"
        using ok r(2) by (simp add: wakes_ok_def nothing_lost_def)
      then show "k \<in> set (map pk_id [] @ map wt_id (wb_turns b')) \<or> k \<in> set (map pk_id (parked_in (wk_session r) b'))"
        using k out by (auto simp: turns)
    qed
    ultimately show ?thesis using reg by (simp add: wakes_ok_def)
  qed
  have reg1: "registry_ok b1" using ok by (simp add: wakes_ok_def registry_ok_def b1_def)
  show ?thesis
  proof (cases confirmed)
    case True
    have "wakes_ok [] s (mark_fired (wt_id t) b1)"
      by (rule rest) (use id reg1 in \<open>auto simp: mark_fired_wakes registry_ok_def b1_def\<close>)
    then show ?thesis using True id by (simp add: end_wake_turn_def b1_def Let_def)
  next
    case False
    have "wakes_ok [] s (set_staged False (wt_id t) b1)"
      by (rule rest) (use id reg1 in \<open>auto simp: set_staged_wakes registry_ok_staged b1_def\<close>)
    then show ?thesis using False id by (simp add: end_wake_turn_def b1_def Let_def)
  qed
qed

section \<open>The system\<close>

definition new_id :: "str \<Rightarrow> wake_board \<Rightarrow> bool" where
  "new_id wid b \<longleftrightarrow> wid \<noteq> [] \<and> strip wid = wid \<and> map_of (wb_wakes b) wid = None \<and> wid \<notin> set (map wt_id (wb_turns b))"

text \<open>Made ids are new, and an id is not chosen again while the turn of its last alarm has not ended.\<close>

inductive wake_step :: "goal_view \<Rightarrow> wake_board \<Rightarrow> wake_board \<Rightarrow> bool" for G where
  schedule: "new_id (we_fresh E) b \<Longrightarrow> clean_str (py_get kw ''wake_id'') \<notin> set (map wt_id (wb_turns b)) \<Longrightarrow>
     wake_step G b (snd (schedule_wake E ctx kw b))"
| goal: "new_id (we_fresh E) b \<Longrightarrow> wake_step G b (goal_alarm E a b)"
| cancel: "wake_step G b (snd (cancel_scheduled_wake kw b))"
| round: "wake_step G b (wake_round v G now b)"
| flush: "sv_present v \<Longrightarrow> sv_inflight v (strip sid) \<le> 0 \<Longrightarrow> wake_step G b (flush_wakes v G sid b)"
| ended: "t \<in> set (wb_turns b) \<Longrightarrow> wake_step G b (end_wake_turn confirmed t b)"

inductive wakes_reachable :: "goal_view \<Rightarrow> wake_board \<Rightarrow> bool" for G where
  initial: "wakes_reachable G no_wakes"
| further: "wakes_reachable G b \<Longrightarrow> wake_step G b b' \<Longrightarrow> wakes_reachable G b'"

lemma strip_goal_check: "strip ''goal-check'' = ''goal-check''"
  by (rule strip_id_iff_ends) (simp_all add: is_space_def)

lemma wakes_ok_schedule:
  assumes ok: "wakes_ok [] s b" and new: "new_id (we_fresh E) b" "clean_str (py_get kw ''wake_id'') \<notin> set (map wt_id (wb_turns b))"
  shows "wakes_ok [] s (snd (schedule_wake E ctx kw b))"
proof -
  have dup: "map_of (wb_wakes b) wid = None" if "\<not> list_ex (\<lambda>w. wk_id w = wid) (list_wakes [] b)" for wid
  proof (rule ccontr)
    assume "map_of (wb_wakes b) wid \<noteq> None"
    then obtain w where w: "map_of (wb_wakes b) wid = Some w" by blast
    then have "w \<in> set (list_wakes [] b)" "wk_id w = wid"
      using registered_clean [OF ok w] by (force simp: list_wakes_def dest: map_of_SomeD)+
    with that show False by (auto simp: list_ex_iff)
  qed
  have reg: "wakes_ok [] s (snd (register_wake (we_fresh E) now w b))"
    if "wk_id w = clean_str (py_get kw ''wake_id'')" "wk_id w \<noteq> [] \<longrightarrow> map_of (wb_wakes b) (wk_id w) = None" for now w
    by (rule wakes_ok_register [OF ok]) (use that new in \<open>auto simp: new_id_def str_or_def\<close>)
  have canc: "wakes_ok [] s b' \<Longrightarrow> wakes_ok [] s (snd (cancel_pending_wakes sid (Some ''goal-check'') b'))" for b' sid
    by (rule wakes_ok_cancel_pending) (auto simp: strip_goal_check)
  let ?sid = "clean_str (py_get ctx ''session_id'')" let ?wid = "clean_str (py_get kw ''wake_id'')"
  show ?thesis
  proof (cases "?sid = [] \<or> clean_str (py_get kw ''message'') = [] \<or> (\<exists>e. wake_time E kw = Inl e) \<or>
      ?wid \<noteq> [] \<and> list_ex (\<lambda>w. wk_id w = ?wid) (list_wakes [] b)")
    case True
    then have "snd (schedule_wake E ctx kw b) = b" by (auto simp: schedule_wake_def Let_def split: sum.split)
    then show ?thesis using ok by simp
  next
    case False
    then obtain fire where fire: "wake_time E kw = Inr fire" by (metis sum.exhaust)
    obtain a b1 where r: "register_wake (we_fresh E) (we_now E) (wake_request E ctx kw fire) b = (a, b1)" by fastforce
    have "wk_id (wake_request E ctx kw fire) = ?wid" by (simp add: wake_request_def Let_def)
    then have "wakes_ok [] s (snd (register_wake (we_fresh E) (we_now E) (wake_request E ctx kw fire) b))" using reg dup False by auto
    then have "wakes_ok [] s b1" by (simp add: r)
    moreover have "snd (schedule_wake E ctx kw b) \<in> {b1, snd (cancel_pending_wakes ?sid (Some ''goal-check'') b1)}"
      using False by (cases a) (auto simp: schedule_wake_def Let_def fire r)
    ultimately show ?thesis using canc by auto
  qed
qed

lemma wakes_ok_goal: "wakes_ok [] s b \<Longrightarrow> new_id (we_fresh E) b \<Longrightarrow> wakes_ok [] s (goal_alarm E a b)"
  by (auto simp: goal_alarm_def new_id_def str_or_def intro!: wakes_ok_register)

lemma wakes_ok_step:
  assumes "wake_step G b b'" "wakes_ok [] [] b"
  shows "wakes_ok [] [] b'"
  using assms
proof cases
  case (cancel kw)
  then show ?thesis using wakes_ok_cancel [OF assms(2)] assms(2)
    by (auto simp: cancel_scheduled_wake_def Let_def split: prod.split) (metis snd_conv)
qed (use assms(2) in \<open>auto intro: wakes_ok_schedule wakes_ok_goal wakes_ok_round wakes_ok_flush wakes_ok_end\<close>)

lemma wakes_reachable_ok: "wakes_reachable G b \<Longrightarrow> wakes_ok [] [] b"
  by (induction rule: wakes_reachable.induct) (auto intro: wakes_ok_step wakes_ok_new)

lemma count_ids: "distinct (map f xs) \<Longrightarrow> length (filter (\<lambda>x. f x = k) xs) = (if k \<in> set (map f xs) then 1 else 0)"
  by (induction xs) (auto simp: filter_empty_conv)


section \<open>Alarms go off\<close>

lemma actionable_iff:
  assumes "clean_wake w" "map_of (wb_wakes b) (wk_id w) \<noteq> None"
  shows "still_actionable G w b \<longleftrightarrow> wk_label w \<noteq> ''goal-check'' \<or>
    (case G of None \<Rightarrow> True | Some view \<Rightarrow> (case view (wk_session w) of None \<Rightarrow> False | Some st \<Rightarrow> should_auto_continue st))"
proof -
  have "strip (wk_id w) = wk_id w" "strip (wk_label w) = wk_label w" "strip (wk_session w) = wk_session w" "wk_session w \<noteq> []"
    using assms(1) by (simp_all add: clean_wake_def)
  then show ?thesis using assms(2) by (auto simp: still_actionable_def get_wake_def split: option.split)
qed

lemma actionable_same:
  assumes "clean_wake w" "map_of (wb_wakes b) (wk_id w) \<noteq> None" "map_of (wb_wakes b') (wk_id w) \<noteq> None"
  shows "still_actionable G (w\<lparr>wk_staged := f\<rparr>) b' = still_actionable G w b"
  using assms by (simp add: actionable_iff split: option.split)

lemma stage_wake_parked:
  "set (parked_in x b) \<subseteq> set (parked_in x (stage_wake sid body wid b))"
  by (auto simp: stage_wake_def Let_def parked_in_def)

lemma stage_wake_turns [simp]: "wb_turns (stage_wake sid body wid b) = wb_turns b"
  by (simp add: stage_wake_def Let_def)

lemma deliver_grows:
  "set (wb_turns b) \<subseteq> set (wb_turns (snd (deliver_wake v G w text b)))"
  "set (parked_in sid b) \<subseteq> set (parked_in sid (snd (deliver_wake v G w text b)))"
  using stage_wake_parked by (auto simp: deliver_wake_def Let_def)

lemma round_turns_grow: "set (wb_turns b) \<subseteq> set (wb_turns (fold (\<lambda>w b. snd (deliver_wake v G w (format_wake w) b)) ws b))"
proof (induction ws arbitrary: b)
  case (Cons w ws)
  show ?case unfolding fold_simps comp_def by (rule subset_trans [OF deliver_grows(1) Cons.IH])
qed simp

lemma round_parked_grow: "set (parked_in sid b) \<subseteq> set (parked_in sid (fold (\<lambda>w b. snd (deliver_wake v G w (format_wake w) b)) ws b))"
proof (induction ws arbitrary: b)
  case (Cons w ws)
  show ?case unfolding fold_simps comp_def by (rule subset_trans [OF deliver_grows(2) Cons.IH])
qed simp

lemma flush_grows: "set (wb_turns b) \<subseteq> set (wb_turns (fold (flush_parked v G s) q b))"
proof (induction q arbitrary: b)
  case (Cons p q)
  have "set (wb_turns b) \<subseteq> set (wb_turns (flush_parked v G s p b))"
    using deliver_grows(1) by (simp add: flush_parked_def Let_def split: option.split)
  then show ?case using Cons.IH [of "flush_parked v G s p b"] by simp
qed simp

lemma flush_wakes_grow: "set (wb_turns b) \<subseteq> set (wb_turns (flush_wakes v G sid b))"
  using flush_grows [of "b\<lparr>wb_pending := dpop (strip sid) (wb_pending b)\<rparr>"] by (simp add: flush_wakes_def Let_def)

definition out_for :: "alarm \<Rightarrow> wake_board \<Rightarrow> bool" where
  "out_for w b \<longleftrightarrow> (\<exists>t \<in> set (wb_turns b). wt_id t = wk_id w \<and> wt_session t = wk_session w \<and> wt_text t = strip (format_wake w))"

definition waits_for :: "alarm \<Rightarrow> wake_board \<Rightarrow> bool" where
  "waits_for w b \<longleftrightarrow>
     (\<exists>p \<in> set (parked_in (wk_session w) b). pk_wake p = Some (w\<lparr>wk_staged := True\<rparr>) \<and> pk_id p = wk_id w \<and> pk_text p = strip (format_wake w))"

lemma due_is_delivered:
  assumes "wakes_ok [] s b" "still_due ws b" "w \<in> set ws" "still_actionable G w b" "sv_present v" "sv_accepts v"
  shows "out_for w (fold (\<lambda>w b. snd (deliver_wake v G w (format_wake w) b)) ws b) \<or>
    waits_for w (fold (\<lambda>w b. snd (deliver_wake v G w (format_wake w) b)) ws b)"
  using assms(1-4)
proof (induction ws arbitrary: b)
  case (Cons x ws)
  let ?b = "snd (deliver_wake v G x (format_wake x) b)"
  have x: "map_of (wb_wakes b) (wk_id x) = Some x" "\<not> wk_staged x" "clean_wake x"
    using Cons.prems(1,2) by (auto simp: still_due_def dest: registered_clean)
  show ?case
  proof (cases "x = w")
    case True
    have body: "strip (str_or (format_wake x) (format_wake x)) \<noteq> []" by (simp add: str_or_def)
    have "\<not> is_staged_wake (wk_id x) b" using x by (simp add: is_staged_wake_def get_wake_def clean_wake_def)
    note deliver = deliver_wake_clean [OF x(3) body, of v G b]
    have fmt: "str_or (format_wake x) (format_wake x) = format_wake x" by (simp add: str_or_def)
    consider "wb_turns ?b = wb_turns b @ [turn_for x (strip (format_wake x))]" | "?b = stage_wake (wk_session x) (strip (format_wake x)) (wk_id x) b"
      using deliver \<open>\<not> is_staged_wake (wk_id x) b\<close> Cons.prems(4) assms(5,6) True fmt by (cases "sv_inflight v (wk_session x) > 0") simp_all
    then have "out_for w ?b \<or> waits_for w ?b"
    proof cases
      case 1
      then have "turn_for x (strip (format_wake x)) \<in> set (wb_turns ?b)" by simp
      then show ?thesis using True x(3) unfolding out_for_def by (metis turn_for_views)
    next
      case 2
      have "\<lparr>pk_text = strip (format_wake x), pk_id = wk_id x, pk_wake = Some (x\<lparr>wk_staged := True\<rparr>)\<rparr> \<in> set (parked_in (wk_session x) ?b)"
        unfolding 2 using x by (subst stage_wake_board) (auto simp: clean_wake_def parked_in_def)
      then show ?thesis using True unfolding waits_for_def by (metis parked.select_convs)
    qed
    then show ?thesis unfolding fold_simps comp_def out_for_def waits_for_def
      using round_turns_grow [of ?b v G ws] round_parked_grow [of "wk_session w" ?b v G ws] by blast
  next
    case False
    then have w: "w \<in> set ws" using Cons.prems(3) by simp
    have "wakes_ok [] s ?b" using wakes_ok_deliver_due [OF Cons.prems(1) x(1,2)] .
    moreover have due: "still_due ws ?b" using still_due_step [OF Cons.prems(1,2)] .
    moreover have "still_actionable G w ?b"
    proof -
      have "map_of (wb_wakes b) (wk_id w) = Some w" "map_of (wb_wakes ?b) (wk_id w) = Some w" "clean_wake w"
        using Cons.prems(1,2) due w by (auto simp: still_due_def dest: registered_clean)
      then show ?thesis using actionable_same [of w b ?b G "wk_staged w"] Cons.prems(4) by simp
    qed
    ultimately show ?thesis using Cons.IH [OF _ _ w] by simp
  qed
qed simp

lemma waiting_is_flushed:
  assumes "wakes_ok q s b" "sv_present v" "sv_accepts v" "sv_inflight v s \<le> 0" "p \<in> set q"
    and p: "pk_wake p = Some (w\<lparr>wk_staged := True\<rparr>)" "pk_id p = wk_id w" "pk_text p = strip (format_wake w)"
    and "clean_wake w" "wk_session w = s" "\<And>b. map_of (wb_wakes b) (wk_id w) \<noteq> None \<Longrightarrow> still_actionable G (w\<lparr>wk_staged := True\<rparr>) b"
  shows "out_for w (fold (flush_parked v G s) q b)"
  using assms(1,5)
proof (induction q arbitrary: b)
  case (Cons x q)
  let ?b = "flush_parked v G s x b"
  have ok: "wakes_ok q s ?b" by (rule wakes_ok_flush_parked [OF Cons.prems(1) assms(2,4)])
  show ?case
  proof (cases "x = p")
    case True
    have "map_of (wb_wakes b) (wk_id w) \<noteq> None"
      using Cons.prems(1) True p(2) by (auto simp: wakes_ok_def queues_ok_def staged_for_def)
    then have act: "still_actionable G (w\<lparr>wk_staged := True\<rparr>) b" by (rule assms(11))
    let ?w = "w\<lparr>wk_staged := True\<rparr>"
    have cl: "clean_wake ?w" using assms(9) by simp
    have fmt: "format_wake ?w = format_wake w" "str_or (strip (format_wake w)) (format_wake w) = strip (format_wake w)"
      by (simp add: format_wake_def) (simp add: str_or_def)
    have body: "strip (str_or (pk_text p) (format_wake ?w)) \<noteq> []" by (simp add: p(3) fmt)
    have "snd (deliver_wake v G ?w (pk_text p) b) = send_turn (turn_for ?w (strip (format_wake w))) b"
      unfolding deliver_wake_clean [OF cl body] using act assms(2-4,10) by (simp add: p(3) fmt)
    then have "turn_for ?w (strip (format_wake w)) \<in> set (wb_turns ?b)" using act True p(1) by (simp add: flush_parked_def)
    moreover have "wt_id (turn_for ?w x) = wk_id w" "wt_session (turn_for ?w x) = wk_session w" for x using cl by simp_all
    ultimately have "out_for w ?b" unfolding out_for_def by (metis turn_for_views(3))
    then show ?thesis using flush_grows [of ?b v G s q] unfolding out_for_def fold_simps comp_def by blast
  next
    case False
    then show ?thesis using Cons.IH [OF ok] Cons.prems(2) by simp
  qed
qed simp


section \<open>Examples\<close>

definition demo_wake_env :: wake_env where
  "demo_wake_env = \<lparr>we_now = 0, we_fresh = ''w'', we_time = (\<lambda>t. None), we_chat = (\<lambda>s. [])\<rparr>"

definition demo_wake :: alarm where
  "demo_wake = \<lparr>wk_id = ''w'', wk_session = ''s'', wk_fire = 60, wk_message = ''m'', wk_label = [], wk_created = 0, wk_frontend = ''cli'',
     wk_source = ''cli'', wk_user = ''root'', wk_metadata = [], wk_fired = False, wk_staged = False\<rparr>"

definition demo_alarms :: wake_board where
  "demo_alarms = \<lparr>wb_wakes = [(''w'', demo_wake)], wb_pending = [], wb_turns = []\<rparr>"

lemma strip_letter: "\<not> is_space c \<Longrightarrow> strip [c] = [c]"
  by (rule strip_id_iff_ends) simp_all

lemma demo_letters: "strip ''w'' = ''w''" "strip ''s'' = ''s''" "strip ''m'' = ''m''" "strip ''cli'' = ''cli''" "strip ''root'' = ''root''"
  by (simp_all add: strip_letter is_space_def strip_id_iff_ends)

lemma demo_alarm_set:
  "snd (schedule_wake demo_wake_env [(''session_id'', PyStr ''s'')] [(''message'', PyStr ''m''), (''delay_seconds'', PyInt 60)] no_wakes) = demo_alarms"
  by (simp add: schedule_wake_def wake_time_def wake_request_def register_wake_def cancel_pending_wakes_def wakes_to_cancel_def purge_by_label_def
      py_get_def text_or_def demo_wake_env_def no_wakes_def demo_alarms_def demo_wake_def demo_letters parked_in_def Let_def strip_goal_check)

lemma demo_alarms_reachable: "wakes_reachable None demo_alarms"
  unfolding demo_alarm_set [symmetric]
  by (rule wakes_reachable.further [OF wakes_reachable.initial wake_step.schedule])
    (simp_all add: new_id_def demo_wake_env_def no_wakes_def demo_letters py_get_def)



end
