(* ===== verification/Job_Schedule.thy ===== *)
theory Job_Schedule
  imports Schedule_Store Task_Queue
begin

text \<open>
  Timed jobs: their definitions (\<open>system/automation/types.py\<close>, \<open>repositories.py\<close>), the jobs taken
  over from the configuration (\<open>config_sync.py\<close>), the scheduler that starts one loop per enabled job and pushes a
  task when it is time (\<open>scheduler.py\<close>), and the tools that create, list and delete jobs (\<open>system/tools/automation_tools.py\<close>).

  Moments and delays are in microseconds. The clock of a time zone and the validity of its name are parameters; differences
  of datetimes of one zone are differences of its clock, as in Python. The hash in a job's name, dates and ids are parameters. The record
  of runs and the snapshot for operators are left out.
\<close>

section \<open>Definitions of jobs\<close>

record job_def =
  jd_name :: str
  jd_agent :: bool
  jd_enabled :: bool
  jd_one_shot :: bool
  jd_run_at :: "py_datetime option"
  jd_interval :: int
  jd_zone :: str
  jd_payload :: "(str, pyval) dict"
  jd_created :: int
  jd_updated :: int

type_synonym job_defs = "(str, job_def) dict"

definition job_valid :: "job_def \<Rightarrow> bool" where
  "job_valid j \<longleftrightarrow> jd_name j \<noteq> [] \<and> 1 \<le> jd_interval j"

definition all_jobs :: "job_defs \<Rightarrow> job_def list" where "all_jobs D = repo_get_all job_valid D"

definition get_enabled :: "job_defs \<Rightarrow> job_def list" where "get_enabled D = filter jd_enabled (all_jobs D)"

record job_env =
  je_local :: "str \<Rightarrow> int \<Rightarrow> moment"
  je_zone_ok :: "str \<Rightarrow> bool"

definition shanghai :: str where "shanghai = ''Asia/Shanghai''"

definition zone_of :: "job_env \<Rightarrow> job_def \<Rightarrow> str" where
  "zone_of E j = (let z = str_or (jd_zone j) shanghai in if je_zone_ok E z then z else shanghai)"

section \<open>The next time\<close>

definition second :: int where "second = 1000000"

text \<open>\<open>h, m = t.split(':', 1)\<close>, both read by \<open>int\<close>.\<close>

definition clock_time :: "str \<Rightarrow> (int \<times> int) option" where
  "clock_time t =
     (if CHR '':'' \<notin> set t then None
      else case (int_of_str (before_sep (CHR '':'') t), int_of_str (after_sep (CHR '':'') t)) of
        (Some h, Some m) \<Rightarrow> Some (h, m) | _ \<Rightarrow> None)"

definition in_range :: "int \<times> int \<Rightarrow> bool" where
  "in_range hm \<longleftrightarrow> 0 \<le> fst hm \<and> fst hm \<le> 23 \<and> 0 \<le> snd hm \<and> snd hm \<le> 59"

definition clock_seconds :: "int \<times> int \<Rightarrow> int" where "clock_seconds hm = fst hm * 3600 + snd hm * 60"

definition times_of :: "pyval \<Rightarrow> str list" where
  "times_of raw =
     (case raw of
        PyList xs \<Rightarrow> filter (\<lambda>t. t \<noteq> []) (map (\<lambda>x. strip (py_str x)) xs)
      | PyStr s \<Rightarrow> filter (\<lambda>t. t \<noteq> []) (map strip (split_on (CHR '','') s))
      | _ \<Rightarrow> [])"

definition alarm_times :: "pyval \<Rightarrow> int list" where
  "alarm_times raw = map clock_seconds (filter in_range (List.map_filter clock_time (times_of raw)))"

definition next_of_times :: "int list \<Rightarrow> moment \<Rightarrow> int" where
  "next_of_times cs now =
     (let now_sec = now mod day div second; future = filter (\<lambda>c. c > now_sec) cs;
          seconds = (if future \<noteq> [] then Min (set future) - now_sec else 86400 - now_sec + Min (set cs))
      in max second (seconds * second))"

function step_past :: "int \<Rightarrow> moment \<Rightarrow> moment \<Rightarrow> moment" where
  "step_past period now t = (if t \<le> now \<and> 0 < period then step_past period now (t + period) else t)"
  by pat_completeness auto

termination by (relation "measure (\<lambda>(p, n, t). nat (n + 1 - t))") auto

declare step_past.simps [simp del]

definition next_of_start :: "int \<times> int \<Rightarrow> int \<Rightarrow> moment \<Rightarrow> int" where
  "next_of_start hm interval now =
     (let period = max 1 interval * second; midnight = now - now mod day;
          t = step_past period now (midnight + clock_seconds hm * second)
      in max second (t - now))"

definition next_of_daily :: "int \<times> int \<Rightarrow> moment \<Rightarrow> int" where
  "next_of_daily hm now =
     (let target = now - now mod day + clock_seconds hm * second; target = (if target \<le> now then target + day else target)
      in max second (target - now))"

definition run_at_local :: "job_env \<Rightarrow> str \<Rightarrow> py_datetime \<Rightarrow> moment" where
  "run_at_local E zone dt = (case dt of Naive t \<Rightarrow> t | Aware i \<Rightarrow> je_local E zone i)"

definition sleep_after_start :: "job_def \<Rightarrow> moment \<Rightarrow> int" where
  "sleep_after_start j now =
     (let daily = py_get (jd_payload j) ''daily_time'' in
      if truthy daily
      then (case clock_time (py_str daily) of
              Some hm \<Rightarrow> if in_range hm then next_of_daily hm now else max 1 (jd_interval j) * second
            | None \<Rightarrow> max 1 (jd_interval j) * second)
      else max 1 (jd_interval j) * second)"

definition compute_sleep :: "job_env \<Rightarrow> int \<Rightarrow> job_def \<Rightarrow> int" where
  "compute_sleep E instant j =
     (let zone = zone_of E j; now = je_local E zone instant; cs = alarm_times (py_get (jd_payload j) ''times'');
          start = py_get (jd_payload j) ''start_time''
      in case (jd_one_shot j, jd_run_at j) of
           (True, Some dt) \<Rightarrow> max 0 (run_at_local E zone dt - now)
         | _ \<Rightarrow>
           if cs \<noteq> [] then next_of_times cs now
           else if truthy start
           then (case clock_time (py_str start) of
                   Some hm \<Rightarrow> if in_range hm then next_of_start hm (jd_interval j) now else sleep_after_start j now
                 | None \<Rightarrow> sleep_after_start j now)
           else sleep_after_start j now)"

section \<open>The scheduler\<close>

record job_loop =
  jl_job :: job_def
  jl_done :: bool

record job_sched =
  js_defs :: job_defs
  js_loops :: "(str, job_loop) dict"
  js_snaps :: job_defs
  js_queue :: task_db

definition new_loop :: "job_def \<Rightarrow> job_loop" where "new_loop j = \<lparr>jl_job = j, jl_done = False\<rparr>"

definition start_loop :: "job_def \<Rightarrow> job_sched \<Rightarrow> job_sched" where
  "start_loop j S = S\<lparr>js_loops := dset (jd_name j) (new_loop j) (js_loops S), js_snaps := dset (jd_name j) j (js_snaps S)\<rparr>"

definition start_all :: "job_sched \<Rightarrow> job_sched" where
  "start_all S = fold start_loop (get_enabled (js_defs S)) S"

definition stop_all :: "job_sched \<Rightarrow> job_sched" where
  "stop_all S = S\<lparr>js_loops := [], js_snaps := []\<rparr>"

definition opt_of :: "str \<Rightarrow> str option" where "opt_of s = (if s = [] then None else Some s)"

definition cron_task :: "str \<Rightarrow> str \<Rightarrow> real \<Rightarrow> job_def \<Rightarrow> agent_task" where
  "cron_task today new_id now j =
     (let p = jd_payload j; instruction = py_get p ''instruction''; ttl = py_get p ''remote_ttl_seconds''
      in make_cron_task today new_id now (jd_name j)
           (if truthy instruction then py_str instruction else ''automation task ('' @ jd_name j @ '')'')
           (text_or p ''user_id'' ''default'')
           \<lparr>co_memory_owner = opt_of (clean_str (py_get p ''memory_owner'')), co_core_mode = opt_of (clean_str (py_get p ''core_mode'')),
            co_tool_template = opt_of (clean_str (py_get p ''tool_template'')), co_feishu_chat_id = opt_of (clean_str (py_get p ''feishu_chat_id'')),
            co_remote_login = opt_of (clean_str (py_get p ''remote_login'')),
            co_remote_path = Some (str_or (clean_str (py_get p ''remote_path'')) ''~''),
            co_remote_profile = Some (str_or (clean_str (py_get p ''remote_profile'')) ''dev''),
            co_remote_ttl_seconds = (if ttl = PyNone then None else case py_int ttl of Inl e \<Rightarrow> None | Inr n \<Rightarrow> Some n),
            co_remote_required = Some (truthy (py_get_or p ''remote_required'' (PyBool True)))\<rparr>)"

text \<open>The body of a loop after its sleep: \<open>run_job_once\<close>, then the end of a job that runs once.\<close>

definition run_job :: "str \<Rightarrow> str \<Rightarrow> real \<Rightarrow> int \<Rightarrow> str \<Rightarrow> job_sched \<Rightarrow> job_sched" where
  "run_job today new_id now stamp name S =
     (case map_of (js_loops S) name of
        None \<Rightarrow> S
      | Some l \<Rightarrow>
          if jl_done l then S
          else
            let j = jl_job l;
                S1 = S\<lparr>js_queue := snd (push (cron_task today new_id now j) (js_queue S))\<rparr>;
                j' = (if jd_one_shot j \<and> jd_enabled j then j\<lparr>jd_enabled := False, jd_updated := stamp\<rparr> else j);
                S2 = (if jd_one_shot j \<and> jd_enabled j then S1\<lparr>js_defs := repo_update jd_name j' (js_defs S1)\<rparr> else S1)
            in S2\<lparr>js_loops := dset name \<lparr>jl_job = j', jl_done = jd_one_shot j\<rparr> (js_loops S2)\<rparr>)"

definition timing_of :: "job_def \<Rightarrow> bool \<times> int \<times> bool \<times> py_datetime option \<times> str \<times> (str, pyval) dict \<times> bool" where
  "timing_of j = (jd_enabled j, jd_interval j, jd_one_shot j, jd_run_at j, jd_zone j, jd_payload j, jd_agent j)"

definition job_changed :: "job_def \<Rightarrow> job_def \<Rightarrow> bool" where
  "job_changed old new \<longleftrightarrow> timing_of old \<noteq> timing_of new"

definition refresh_job :: "job_def \<Rightarrow> job_sched \<Rightarrow> job_sched" where
  "refresh_job j S =
     (case map_of (js_loops S) (jd_name j) of
        None \<Rightarrow> start_loop j S
      | Some l \<Rightarrow>
          if jl_done l then start_loop j S
          else (case map_of (js_snaps S) (jd_name j) of
                  Some old \<Rightarrow> if job_changed old j then start_loop j S else S
                | None \<Rightarrow> S))"

definition drop_job :: "str \<Rightarrow> job_sched \<Rightarrow> job_sched" where
  "drop_job name S = S\<lparr>js_loops := dpop name (js_loops S), js_snaps := dpop name (js_snaps S)\<rparr>"

text \<open>One round of \<open>_watch_job_definitions\<close>; \<open>sync\<close> is the takeover from the configuration.\<close>

definition watch_round :: "(job_defs \<Rightarrow> job_defs) \<Rightarrow> job_sched \<Rightarrow> job_sched" where
  "watch_round sync S =
     (let S1 = S\<lparr>js_defs := sync (js_defs S)\<rparr>; jobs = get_enabled (js_defs S1); S2 = fold refresh_job jobs S1
      in fold drop_job (filter (\<lambda>n. n \<notin> set (map jd_name jobs)) (dkeys (js_loops S2))) S2)"

section \<open>Jobs of the configuration\<close>

record cfg_job =
  cj_name :: str
  cj_description :: str
  cj_minutes :: "int option"
  cj_daily :: "str option"
  cj_times :: "str list option"
  cj_start :: "str option"
  cj_run_at :: "str option"
  cj_one_shot :: bool
  cj_user :: str
  cj_owner :: "str option"
  cj_mode :: "str option"
  cj_template :: "str option"
  cj_login :: "str option"
  cj_path :: "str option"
  cj_profile :: "str option"
  cj_ttl :: "int option"
  cj_required :: bool
  cj_enabled :: bool

record sync_env =
  sy_hash :: "str \<Rightarrow> str"
  sy_iso :: "str \<Rightarrow> py_datetime option"
  sy_zone :: str
  sy_now :: int

definition stable_job_name :: "sync_env \<Rightarrow> str \<Rightarrow> str \<Rightarrow> str" where
  "stable_job_name Y name owner = ''job-config-'' @ sy_hash Y (name @ '':'' @ owner)"

definition put_str :: "str \<Rightarrow> str \<Rightarrow> (str, pyval) dict \<Rightarrow> (str, pyval) dict" where
  "put_str k v d = (if v = [] then d else dset k (PyStr v) d)"

definition cfg_owner :: "cfg_job \<Rightarrow> str" where
  "cfg_owner c = str_or (opt_str (cj_owner c)) (str_or (cj_user c) ''default'')"

definition cfg_remote :: "cfg_job \<Rightarrow> (str, pyval) dict \<Rightarrow> (str, pyval) dict" where
  "cfg_remote c d =
     (let login = strip (opt_str (cj_login c)) in
      if login = [] then d
      else
        let d = dset ''remote_login'' (PyStr login) d;
            d = dset ''remote_path'' (PyStr (str_or (strip (str_or (opt_str (cj_path c)) ''~'')) ''~'')) d;
            d = dset ''remote_profile'' (PyStr (str_or (strip (str_or (opt_str (cj_profile c)) ''dev'')) ''dev'')) d;
            d = dset ''remote_required'' (PyBool (cj_required c)) d
        in (case cj_ttl c of None \<Rightarrow> d | Some n \<Rightarrow> dset ''remote_ttl_seconds'' (PyInt n) d))"

definition cfg_payload :: "cfg_job \<Rightarrow> (str, pyval) dict" where
  "cfg_payload c =
     (let d = [(''name'', PyStr (cj_name c)), (''instruction'', PyStr (cj_description c)), (''user_id'', PyStr (str_or (cj_user c) ''default''))];
          d = put_str ''memory_owner'' (opt_str (cj_owner c)) d; d = put_str ''core_mode'' (opt_str (cj_mode c)) d;
          d = put_str ''tool_template'' (opt_str (cj_template c)) d; d = cfg_remote c d; d = put_str ''daily_time'' (opt_str (cj_daily c)) d;
          clocks = (case cj_times c of None \<Rightarrow> [] | Some ts \<Rightarrow> ts);
          d = (if clocks = [] then d else dset ''times'' (PyList (map PyStr (filter (\<lambda>t. t \<noteq> []) (map strip clocks)))) d)
      in put_str ''start_time'' (opt_str (cj_start c)) d)"

definition config_job :: "sync_env \<Rightarrow> cfg_job \<Rightarrow> job_def" where
  "config_job Y c =
     (let run_at = (if opt_str (cj_run_at c) = [] then None else sy_iso Y (utc_suffix (opt_str (cj_run_at c))));
          one_shot = (cj_one_shot c \<or> run_at \<noteq> None);
          interval = (if one_shot then 1
             else if opt_str (cj_daily c) \<noteq> [] \<or> (cj_times c \<noteq> None \<and> cj_times c \<noteq> Some []) then 86400
             else (case cj_minutes c of Some n \<Rightarrow> if n \<ge> 1 then n * 60 else 86400 | None \<Rightarrow> 86400))
      in \<lparr>jd_name = stable_job_name Y (cj_name c) (cfg_owner c), jd_agent = False, jd_enabled = cj_enabled c, jd_one_shot = one_shot,
          jd_run_at = run_at, jd_interval = interval, jd_zone = sy_zone Y, jd_payload = cfg_payload c, jd_created = sy_now Y, jd_updated = sy_now Y\<rparr>)"

type_synonym job_key = "str \<times> str"

definition key_of_job :: "job_def \<Rightarrow> job_key" where
  "key_of_job j =
     (py_str (py_or (py_get (jd_payload j) ''name'') (PyStr [])),
      py_str (py_or (py_or (py_get (jd_payload j) ''memory_owner'') (py_get (jd_payload j) ''user_id'')) (PyStr ''default'')))"

definition key_of_cfg :: "cfg_job \<Rightarrow> job_key" where "key_of_cfg c = (cj_name c, cfg_owner c)"

definition config_made :: "job_def \<Rightarrow> bool" where "config_made j \<longleftrightarrow> prefix ''job-config-'' (jd_name j)"

definition existing_by_key :: "job_defs \<Rightarrow> (job_key, job_def) dict" where
  "existing_by_key D =
     fold (\<lambda>j m. if fst (key_of_job j) \<noteq> [] \<and> (\<not> has_key (key_of_job j) m \<or> config_made j) then dset (key_of_job j) j m else m) (all_jobs D) []"

text \<open>One job of the configuration: the definitions, the ones known by key, and the names kept.\<close>

type_synonym sync_state = "job_defs \<times> (job_key, job_def) dict \<times> (job_key, str) dict"

definition sync_one :: "sync_env \<Rightarrow> cfg_job \<Rightarrow> sync_state \<Rightarrow> sync_state" where
  "sync_one Y c st =
     (case st of (D, known, kept) \<Rightarrow>
        (let j = config_job Y c; k = key_of_cfg c
         in case map_of known k of
              Some old \<Rightarrow>
                (repo_update jd_name (j\<lparr>jd_name := jd_name old, jd_created := jd_created old\<rparr>) D, dpop k known, dset k (jd_name old) kept)
            | None \<Rightarrow>
                (case repo_get job_valid (jd_name j) D of
                   Some old \<Rightarrow> (repo_update jd_name (j\<lparr>jd_created := jd_created old\<rparr>) D, known, dset k (jd_name j) kept)
                 | None \<Rightarrow> (repo_create jd_name j D, known, dset k (jd_name j) kept))))"

definition sync_clean :: "(job_key, str) dict \<Rightarrow> job_def \<Rightarrow> job_defs \<Rightarrow> job_defs" where
  "sync_clean kept j D =
     (let k = key_of_job j in
      if map_of kept k \<noteq> None \<and> map_of kept k \<noteq> Some (jd_name j) then snd (repo_delete (jd_name j) D)
      else if config_made j \<and> map_of kept k = None \<and> jd_enabled j then repo_update jd_name (j\<lparr>jd_enabled := False\<rparr>) D
      else D)"

definition sync_config :: "sync_env \<Rightarrow> cfg_job list \<Rightarrow> job_defs \<Rightarrow> job_defs" where
  "sync_config Y cs D =
     (if cs = [] then D
      else case fold (sync_one Y) cs (D, existing_by_key D, []) of
        (D1, known, kept) \<Rightarrow> fold (sync_clean kept) (all_jobs D1) D1)"

section \<open>The tools\<close>

record job_caller =
  jc_owner :: "str option"
  jc_mode :: "str option"
  jc_template :: "str option"
  jc_remote :: "str \<Rightarrow> (str \<times> str \<times> str) option"
  jc_iso :: "str \<Rightarrow> py_datetime option"
  jc_zone :: str
  jc_now :: int

definition any_given :: "pyval list \<Rightarrow> bool" where "any_given vs \<longleftrightarrow> list_ex truthy vs"

definition tool_times :: "pyval \<Rightarrow> str list" where
  "tool_times raw =
     (if \<not> truthy raw then []
      else case raw of PyList xs \<Rightarrow> times_of raw | _ \<Rightarrow> times_of (PyStr (py_str raw)))"

text \<open>The interval of a job that repeats.\<close>

definition tool_interval :: "pyval \<Rightarrow> pyval \<Rightarrow> str \<Rightarrow> str list \<Rightarrow> str \<Rightarrow> str + int" where
  "tool_interval secs mins daily clocks start =
     (let given = (if secs \<noteq> PyNone then (case py_int secs of Inl e \<Rightarrow> Inl ''INVALID_INTERVAL_SECONDS'' | Inr n \<Rightarrow> Inr (Some n))
                   else if mins \<noteq> PyNone then (case py_int mins of Inl e \<Rightarrow> Inl ''INVALID_INTERVAL_MINUTES'' | Inr n \<Rightarrow> Inr (Some (n * 60)))
                   else Inr None);
          positive = (\<lambda>v. case v of Some n \<Rightarrow> n > 0 | None \<Rightarrow> False)
      in case given of Inl e \<Rightarrow> Inl e
       | Inr v \<Rightarrow>
           (let v = (if (clocks \<noteq> [] \<or> daily \<noteq> []) \<and> \<not> positive v then Some 86400 else v)
            in if start \<noteq> [] \<and> \<not> positive v then Inl ''MISSING_INTERVAL_FOR_START_TIME''
               else if \<not> positive v then Inl ''MISSING_INTERVAL''
               else Inr (the v)))"

definition tool_remote :: "job_caller \<Rightarrow> (str, pyval) dict \<Rightarrow> (str, pyval) dict \<Rightarrow> str \<times> str \<times> str" where
  "tool_remote C ctx kw =
     (let login = clean_str (py_get kw ''remote_login''); path = str_or (clean_str (py_get kw ''remote_path'')) ''~'';
          profile = str_or (lower (clean_str (py_get kw ''remote_profile''))) ''dev''; sid = clean_str (py_get ctx ''session_id'')
      in if login \<noteq> [] \<or> sid = [] then (login, path, profile)
         else case jc_remote C sid of None \<Rightarrow> (login, path, profile)
           | Some (l, p, pr) \<Rightarrow>
               if strip l = [] then ([], path, profile)
               else (strip l, str_or (strip (str_or p ''~'')) ''~'', str_or (lower (strip (str_or pr ''dev''))) ''dev''))"

definition tool_mode :: "job_caller \<Rightarrow> (str, pyval) dict \<Rightarrow> str option" where
  "tool_mode C kw =
     (let explicit = clean_str (py_get kw ''core_mode'')
      in if explicit \<noteq> [] then Some explicit
         else if lower (strip (opt_str (jc_mode C))) \<in> {''sub'', ''background'', ''cron'', ''heartbeat''} then Some ''full''
         else jc_mode C)"

definition put_opt :: "str \<Rightarrow> str option \<Rightarrow> (str, pyval) dict \<Rightarrow> (str, pyval) dict" where
  "put_opt k v d = (case v of None \<Rightarrow> d | Some s \<Rightarrow> dset k (PyStr s) d)"

definition tool_payload :: "job_caller \<Rightarrow> (str, pyval) dict \<Rightarrow> (str, pyval) dict \<Rightarrow> str \<Rightarrow> str \<Rightarrow> str list \<Rightarrow> str \<Rightarrow> int option \<Rightarrow> (str, pyval) dict" where
  "tool_payload C ctx kw instruction daily clocks start ttl =
     (let (login, path, profile) = tool_remote C ctx kw;
          owner = clean_str (py_get kw ''memory_owner''); template = clean_str (py_get kw ''tool_template'');
          d = [(''instruction'', PyStr instruction), (''user_id'', PyStr (text_or kw ''user_id'' ''default''))];
          d = put_str ''daily_time'' daily d; d = (if clocks = [] then d else dset ''times'' (PyList (map PyStr clocks)) d);
          d = put_str ''start_time'' start d; d = put_opt ''memory_owner'' (if owner \<noteq> [] then Some owner else jc_owner C) d;
          d = put_opt ''core_mode'' (tool_mode C kw) d; d = put_opt ''tool_template'' (if template \<noteq> [] then Some template else jc_template C) d;
          d = put_str ''feishu_chat_id'' (clean_str (py_get ctx ''feishu_chat_id'')) d
      in if login = [] then d
         else
           let d = dset ''remote_profile'' (PyStr profile) (dset ''remote_path'' (PyStr path) (dset ''remote_login'' (PyStr login) d));
               d = (case ttl of None \<Rightarrow> d | Some n \<Rightarrow> dset ''remote_ttl_seconds'' (PyInt n) d)
           in dset ''remote_required'' (PyBool (truthy (py_get_or kw ''remote_required'' (PyBool True)))) d)"

definition tool_ttl :: "pyval \<Rightarrow> str + int option" where
  "tool_ttl v =
     (if v = PyNone then Inr None
      else case py_int v of Inl e \<Rightarrow> Inl ''INVALID_REMOTE_TTL'' | Inr n \<Rightarrow> if n \<le> 0 then Inl ''INVALID_REMOTE_TTL'' else Inr (Some n))"

definition tool_run_at :: "job_caller \<Rightarrow> (str, pyval) dict \<Rightarrow> str + py_datetime option" where
  "tool_run_at C kw =
     (let raw = clean_str (py_or (py_get kw ''run_at'') (py_get kw ''once_at''))
      in if raw = [] then Inr None else case jc_iso C (utc_suffix raw) of None \<Rightarrow> Inl ''INVALID_RUN_AT'' | Some dt \<Rightarrow> Inr (Some dt))"

definition requested_job :: "job_caller \<Rightarrow> (str, pyval) dict \<Rightarrow> (str, pyval) dict \<Rightarrow> str + job_def" where
  "requested_job C ctx kw =
     (let instruction = clean_str (py_get kw ''instruction''); name = clean_str (py_get kw ''job_name'');
          daily = clean_str (py_get kw ''daily_time''); clocks = tool_times (py_get kw ''times''); start = clean_str (py_get kw ''start_time'');
          secs = py_get kw ''interval_seconds''; mins = py_get kw ''interval_minutes''
      in if instruction = [] then Inl ''MISSING_INSTRUCTION''
         else if name = [] then Inl ''MISSING_JOB_NAME''
         else case tool_run_at C kw of Inl e \<Rightarrow> Inl e
         | Inr run_at \<Rightarrow>
             if run_at \<noteq> None \<and> (any_given [secs, mins] \<or> daily \<noteq> [] \<or> clocks \<noteq> [] \<or> start \<noteq> []) then Inl ''MIXED_SCHEDULE_MODE''
             else case (if run_at \<noteq> None then Inr 1 else tool_interval secs mins daily clocks start) of Inl e \<Rightarrow> Inl e
             | Inr interval \<Rightarrow>
                 if snd (snd (tool_remote C ctx kw)) \<notin> {''strict'', ''dev'', ''host-user'', ''host-admin''} then Inl ''INVALID_REMOTE_PROFILE''
                 else case tool_ttl (py_get kw ''remote_ttl_seconds'') of Inl e \<Rightarrow> Inl e
                 | Inr ttl \<Rightarrow>
                     Inr \<lparr>jd_name = name, jd_agent = True, jd_enabled = truthy (py_get_or kw ''enabled'' (PyBool True)), jd_one_shot = (run_at \<noteq> None),
                          jd_run_at = run_at, jd_interval = interval, jd_zone = jc_zone C,
                          jd_payload = tool_payload C ctx kw instruction daily clocks start ttl, jd_created = jc_now C, jd_updated = jc_now C\<rparr>)"

definition create_scheduled_job :: "job_caller \<Rightarrow> (str, pyval) dict \<Rightarrow> (str, pyval) dict \<Rightarrow> job_defs \<Rightarrow> (str + job_def) \<times> job_defs" where
  "create_scheduled_job C ctx kw D = (case requested_job C ctx kw of Inl e \<Rightarrow> (Inl e, D) | Inr j \<Rightarrow> (Inr j, repo_create jd_name j D))"

definition list_scheduled_jobs :: "(str, pyval) dict \<Rightarrow> job_defs \<Rightarrow> str + job_def list" where
  "list_scheduled_jobs kw D =
     (let lim = py_get kw ''limit''; jobs = all_jobs D;
          jobs = (if truthy (py_get_or kw ''enabled_only'' (PyBool False)) then filter jd_enabled jobs else jobs);
          sorted_jobs = rev (sort_key jd_updated (rev jobs))
      in case (if lim = PyNone then Inr 100 else py_int lim) of
           Inl e \<Rightarrow> Inl ''INVALID_LIMIT'' | Inr n \<Rightarrow> Inr (take (nat (if lim = PyNone then 100 else max 1 n)) sorted_jobs))"

definition delete_scheduled_job :: "(str, pyval) dict \<Rightarrow> job_defs \<Rightarrow> (str + str) \<times> job_defs" where
  "delete_scheduled_job kw D =
     (let name = clean_str (py_get kw ''job_name'')
      in if name = [] then (Inl ''MISSING_JOB_NAME'', D)
         else case repo_delete name D of (ok, D') \<Rightarrow> (if ok then Inr name else Inl ''NOT_FOUND'', D'))"

section \<open>Jobs start on time\<close>

lemma day_seconds: "day = 86400 * second"
  by (simp add: day_def second_def)

definition time_of_day :: "moment \<Rightarrow> int" where "time_of_day t = t mod day div second"

lemma time_of_day_whole: "time_of_day (second * k) = k mod 86400"
proof -
  have "second * k mod (second * 86400) = second * (k mod 86400)" by (rule mult_mod_right [symmetric])
  then show ?thesis by (simp add: time_of_day_def day_seconds mult.commute [of _ second]) (simp add: second_def)
qed

lemma clock_seconds_range: "in_range hm \<Longrightarrow> 0 \<le> clock_seconds hm \<and> clock_seconds hm < 86400"
  by (auto simp: in_range_def clock_seconds_def)

lemma alarm_times_range: "c \<in> set (alarm_times raw) \<Longrightarrow> 0 \<le> c \<and> c < 86400"
  using clock_seconds_range by (auto simp: alarm_times_def)

text \<open>Whole seconds of a day after \<open>n\<close>: \<open>s\<close> steps to the first of \<open>cs\<close>.\<close>

lemma first_of_day:
  fixes k n :: int
  assumes n: "k mod 86400 = n" and cs: "cs \<noteq> []" "\<And>c. c \<in> set cs \<Longrightarrow> 0 \<le> c \<and> c < 86400"
    and s: "s = (if filter (\<lambda>c. c > n) cs \<noteq> [] then Min (set (filter (\<lambda>c. c > n) cs)) - n else 86400 - n + Min (set cs))"
  shows "1 \<le> s \<and> (k + s) mod 86400 \<in> set cs \<and> (\<forall>i. 0 < i \<longrightarrow> i < s \<longrightarrow> (k + i) mod 86400 \<notin> set cs)"
proof -
  have n0: "0 \<le> n" "n < 86400" using n by auto
  have shift: "(k + i) mod 86400 = (n + i) mod 86400" for i using n by (metis mod_add_left_eq)
  have low: "(n + i) mod 86400 = n + i" if "0 \<le> i" "n + i < 86400" for i using that n0 by simp
  have high: "(n + i) mod 86400 = n + i - 86400" if "86400 \<le> n + i" "n + i < 2 * 86400" for i
    using that mod_pos_pos_trivial [of "n + i - 86400" 86400] minus_mod_self2 [of "n + i" 86400] by linarith
  show ?thesis
  proof (cases "filter (\<lambda>c. c > n) cs = []")
    case False
    define m where "m = Min (set (filter (\<lambda>c. c > n) cs))"
    have m: "m \<in> set (filter (\<lambda>c. c > n) cs)" unfolding m_def using False by (intro Min_in finite_set) (simp only: set_empty not_False_eq_True)
    have least: "c \<in> set cs \<Longrightarrow> n < c \<Longrightarrow> m \<le> c" for c unfolding m_def by (rule Min_le) auto
    have s': "s = m - n" using s False by (simp add: m_def)
    have "(k + s) mod 86400 = m" using m cs(2) n0 by (simp add: shift s')
    moreover have "(k + i) mod 86400 \<notin> set cs" if "0 < i" "i < s" for i
    proof -
      have "n + i < 86400" using that s' m cs(2) by fastforce
      then have "(k + i) mod 86400 = n + i" using that low by (simp add: shift)
      then show ?thesis using least that s' by force
    qed
    ultimately show ?thesis using m s' by auto
  next
    case True
    define m where "m = Min (set cs)"
    have m: "m \<in> set cs" unfolding m_def using cs(1) by (intro Min_in) auto
    have least: "c \<in> set cs \<Longrightarrow> m \<le> c" for c unfolding m_def by (rule Min_le) auto
    have none: "c \<in> set cs \<Longrightarrow> c \<le> n" for c using True by (auto simp: filter_empty_conv not_less)
    have s': "s = 86400 - n + m" using s True by (simp add: m_def)
    have mr: "0 \<le> m" "m < 86400" using m cs(2) by auto
    have "(k + s) mod 86400 = m" using high [of s] mr by (simp add: shift s')
    moreover have "(k + i) mod 86400 \<notin> set cs" if i: "0 < i" "i < s" for i
    proof (cases "n + i < 86400")
      case True
      then have "(k + i) mod 86400 = n + i" using i low by (simp add: shift)
      then show ?thesis using none i by force
    next
      case False
      then have "(k + i) mod 86400 = n + i - 86400" using high [of i] i s' mr n0 by (simp add: shift)
      then show ?thesis using least i s' by force
    qed
    ultimately show ?thesis using m s' n0 mr by auto
  qed
qed

lemma next_of_times_first:
  assumes "cs \<noteq> []" "\<And>c. c \<in> set cs \<Longrightarrow> 0 \<le> c \<and> c < 86400"
    and start_def: "start = now - now mod second"
  shows "time_of_day (start + next_of_times cs now) \<in> set cs \<and> (start + next_of_times cs now) mod second = 0 \<and> second \<le> next_of_times cs now \<and>
    (\<forall>t. start < t \<longrightarrow> t < start + next_of_times cs now \<longrightarrow> t mod second = 0 \<longrightarrow> time_of_day t \<notin> set cs)"
proof -
  define k where "k = now div second"
  have start: "start = second * k" by (simp add: start_def k_def minus_mod_eq_mult_div)
  have n: "k mod 86400 = now mod day div second"
  proof -
    have "now mod day = second * (k mod 86400) + now mod second"
      using zmod_zmult2_eq [of 86400 now second] by (simp add: k_def day_seconds mult.commute)
    moreover have "(second * x + now mod second) div second = x" for x by (simp add: second_def)
    ultimately show ?thesis by simp
  qed
  define s where "s = (if filter (\<lambda>c. c > now mod day div second) cs \<noteq> [] then Min (set (filter (\<lambda>c. c > now mod day div second) cs)) - now mod day div second
    else 86400 - now mod day div second + Min (set cs))"
  note first = first_of_day [OF n assms(1,2) s_def]
  have "next_of_times cs now = max second (s * second)" by (simp only: next_of_times_def s_def Let_def)
  moreover have "second \<le> s * second" using first by (simp add: second_def)
  ultimately have d: "next_of_times cs now = second * s" by simp
  have sum: "start + next_of_times cs now = second * (k + s)" by (simp add: start d distrib_left)
  have "time_of_day t \<notin> set cs" if t: "start < t" "t < start + next_of_times cs now" "t mod second = 0" for t
  proof -
    obtain j where j: "t = second * j" using t(3) by (metis mod_0_imp_dvd dvdE)
    have "0 < second" by (simp add: second_def)
    moreover have "second * k < second * j" using t(1) by (simp only: j start)
    moreover have "second * j < second * (k + s)" using t(2) unfolding j sum by assumption
    ultimately have "k < j" "j < k + s" by simp_all
    then show ?thesis using first by (auto simp: j time_of_day_whole dest: spec [of _ "j - k"])
  qed
  moreover have "time_of_day (second * (k + s)) \<in> set cs" using first by (simp add: time_of_day_whole)
  moreover have "second \<le> second * s" using first by (simp add: second_def)
  ultimately show ?thesis by (simp add: sum) (simp add: d)
qed

lemma step_past_first:
  assumes "0 < p"
  shows "\<exists>n::nat. step_past p now t = t + int n * p \<and> now < step_past p now t \<and> (0 < n \<longrightarrow> t + int (n - 1) * p \<le> now)"
  using assms
proof (induction p now t rule: step_past.induct)
  case (1 p now t)
  show ?case
  proof (cases "t \<le> now")
    case True
    then obtain n :: nat where n: "step_past p now (t + p) = t + p + int n * p" "now < step_past p now (t + p)" "0 < n \<longrightarrow> t + p + int (n - 1) * p \<le> now"
      using 1 by auto
    have eq: "step_past p now t = step_past p now (t + p)" using True 1(2) by (subst step_past.simps) simp
    have "t + int (Suc n - 1) * p \<le> now"
    proof (cases n)
      case (Suc m)
      then show ?thesis using n(3) by (simp add: algebra_simps)
    qed (use True in simp)
    then show ?thesis using n(1,2) eq by (intro exI [of _ "Suc n"]) (simp add: algebra_simps)
  next
    case False
    then show ?thesis by (intro exI [of _ 0]) (simp add: step_past.simps)
  qed
qed


section \<open>The scheduler follows the definitions\<close>

definition jobs_ok :: "job_sched \<Rightarrow> bool" where
  "jobs_ok S \<longleftrightarrow> keyed jd_name (js_defs S) \<and>
     (\<forall>n l. map_of (js_loops S) n = Some l \<longrightarrow> jd_name (jl_job l) = n) \<and>
     (\<forall>n l. map_of (js_loops S) n = Some l \<longrightarrow> \<not> jl_done l \<longrightarrow>
        (\<exists>old. map_of (js_snaps S) n = Some old \<and> timing_of old = timing_of (jl_job l)))"

definition follows :: "job_sched \<Rightarrow> str \<Rightarrow> job_def \<Rightarrow> bool" where
  "follows S n j \<longleftrightarrow> (\<exists>l. map_of (js_loops S) n = Some l \<and> \<not> jl_done l \<and> timing_of (jl_job l) = timing_of j)"

lemma enabled_defs:
  assumes "keyed jd_name D"
  shows "j \<in> set (get_enabled D) \<longleftrightarrow> map_of D (jd_name j) = Some j \<and> job_valid j \<and> jd_enabled j"
    and "distinct (map jd_name (get_enabled D))"
proof -
  have all: "j \<in> snd ` set D \<longleftrightarrow> map_of D (jd_name j) = Some j" for j
  proof
    assume "j \<in> snd ` set D"
    then obtain k where k: "(k, j) \<in> set D" by auto
    then have "map_of D k = Some j" using assms in_set_dget [of D k j] by (simp add: keyed_def)
    moreover then have "jd_name j = k" using assms by (simp add: keyed_def)
    ultimately show "map_of D (jd_name j) = Some j" by simp
  qed (force dest: map_of_SomeD)
  show "j \<in> set (get_enabled D) \<longleftrightarrow> map_of D (jd_name j) = Some j \<and> job_valid j \<and> jd_enabled j"
    using all [of j] by (auto simp: get_enabled_def all_jobs_def repo_get_all_def)
  have "jd_name (snd e) = fst e" if "e \<in> set D" for e
    using assms that in_set_dget [of D "fst e" "snd e"] by (simp add: keyed_def)
  then have "map jd_name (map snd D) = dkeys D" by simp
  then have "distinct (map jd_name (map snd D))" using assms by (simp only: keyed_def dict_ok_def)
  then show "distinct (map jd_name (get_enabled D))" unfolding get_enabled_def all_jobs_def repo_get_all_def by (intro distinct_map_filter)
qed

lemma jobs_ok_start: "jobs_ok S \<Longrightarrow> jobs_ok (start_loop j S)"
  by (auto simp: jobs_ok_def start_loop_def new_loop_def)

lemma jobs_ok_refresh: "jobs_ok S \<Longrightarrow> jobs_ok (refresh_job j S)"
  using jobs_ok_start by (simp add: refresh_job_def split: option.split)

lemma jobs_ok_drop: "jobs_ok S \<Longrightarrow> jobs_ok (drop_job n S)"
  by (auto simp: jobs_ok_def drop_job_def)

lemma refresh_follows:
  assumes "jobs_ok S"
  shows "follows (refresh_job j S) (jd_name j) j"
proof (cases "map_of (js_loops S) (jd_name j)")
  case None
  then show ?thesis by (simp add: refresh_job_def start_loop_def follows_def new_loop_def)
next
  case (Some l)
  show ?thesis
  proof (cases "jl_done l")
    case True
    then show ?thesis using Some by (simp add: refresh_job_def start_loop_def follows_def new_loop_def)
  next
    case False
    then obtain old where old: "map_of (js_snaps S) (jd_name j) = Some old" "timing_of old = timing_of (jl_job l)"
      using assms Some unfolding jobs_ok_def by blast
    then show ?thesis using Some False
      by (cases "job_changed old j") (simp_all add: refresh_job_def start_loop_def follows_def new_loop_def job_changed_def)
  qed
qed

lemma refresh_others: "n \<noteq> jd_name j \<Longrightarrow> map_of (js_loops (refresh_job j S)) n = map_of (js_loops S) n"
  by (simp add: refresh_job_def start_loop_def split: option.split)

lemma refresh_all:
  assumes "jobs_ok S" "distinct (map jd_name jobs)"
  shows "jobs_ok (fold refresh_job jobs S) \<and> js_defs (fold refresh_job jobs S) = js_defs S \<and>
    (\<forall>j \<in> set jobs. follows (fold refresh_job jobs S) (jd_name j) j) \<and>
    (\<forall>n. n \<notin> jd_name ` set jobs \<longrightarrow> map_of (js_loops (fold refresh_job jobs S)) n = map_of (js_loops S) n)"
  using assms
proof (induction jobs arbitrary: S)
  case (Cons j jobs)
  have ih: "jobs_ok (fold refresh_job jobs (refresh_job j S))" "js_defs (fold refresh_job jobs (refresh_job j S)) = js_defs (refresh_job j S)"
    "\<forall>x \<in> set jobs. follows (fold refresh_job jobs (refresh_job j S)) (jd_name x) x"
    "\<forall>n. n \<notin> jd_name ` set jobs \<longrightarrow> map_of (js_loops (fold refresh_job jobs (refresh_job j S))) n = map_of (js_loops (refresh_job j S)) n"
    using Cons.IH [OF jobs_ok_refresh [OF Cons.prems(1)]] Cons.prems(2) by auto
  have "jd_name j \<notin> jd_name ` set jobs" using Cons.prems(2) by simp
  then have "follows (fold refresh_job jobs (refresh_job j S)) (jd_name j) j"
    using ih(4) refresh_follows [OF Cons.prems(1), of j] by (simp add: follows_def)
  moreover have "js_defs (refresh_job j S) = js_defs S" by (simp add: refresh_job_def start_loop_def split: option.split)
  ultimately show ?case using ih refresh_others [of _ j S] by auto
qed simp

lemma drop_all:
  "js_defs (fold drop_job ns S) = js_defs S \<and>
   map_of (js_loops (fold drop_job ns S)) n = (if n \<in> set ns then None else map_of (js_loops S) n)"
  by (induction ns arbitrary: S) (auto simp: drop_job_def)

lemma jobs_ok_drop_all: "jobs_ok S \<Longrightarrow> jobs_ok (fold drop_job ns S)"
  by (induction ns arbitrary: S) (simp_all add: jobs_ok_drop)

lemma watch_result:
  assumes "jobs_ok S" "keyed jd_name (sync (js_defs S))"
  shows "jobs_ok (watch_round sync S) \<and> js_defs (watch_round sync S) = sync (js_defs S) \<and>
    (\<forall>n. case map_of (js_loops (watch_round sync S)) n of
        None \<Rightarrow> \<forall>j. map_of (sync (js_defs S)) n = Some j \<longrightarrow> \<not> (job_valid j \<and> jd_enabled j)
      | Some l \<Rightarrow> \<not> jl_done l \<and> (\<exists>j. map_of (sync (js_defs S)) n = Some j \<and> job_valid j \<and> jd_enabled j \<and> timing_of (jl_job l) = timing_of j))"
proof -
  define S1 where "S1 = S\<lparr>js_defs := sync (js_defs S)\<rparr>"
  define jobs where "jobs = get_enabled (sync (js_defs S))"
  define S2 where "S2 = fold refresh_job jobs S1"
  define gone where "gone = filter (\<lambda>n. n \<notin> set (map jd_name jobs)) (dkeys (js_loops S2))"
  have w: "watch_round sync S = fold drop_job gone S2" by (simp add: watch_round_def Let_def S1_def jobs_def S2_def gone_def)
  have "jobs_ok S1" using assms by (simp add: jobs_ok_def S1_def)
  note all = refresh_all [OF this enabled_defs(2) [OF assms(2)], folded jobs_def, folded S2_def]
  have ok: "jobs_ok (watch_round sync S)" "js_defs (watch_round sync S) = sync (js_defs S)"
    using all by (simp_all add: w jobs_ok_drop_all drop_all S1_def)
  have loops: "map_of (js_loops (watch_round sync S)) n = (if n \<in> jd_name ` set jobs then map_of (js_loops S2) n else None)" for n
    by (cases "n \<in> set (dkeys (js_loops S2))") (auto simp: w drop_all gone_def map_of_eq_None_iff)
  have "case map_of (js_loops (watch_round sync S)) n of
        None \<Rightarrow> \<forall>j. map_of (sync (js_defs S)) n = Some j \<longrightarrow> \<not> (job_valid j \<and> jd_enabled j)
      | Some l \<Rightarrow> \<not> jl_done l \<and> (\<exists>j. map_of (sync (js_defs S)) n = Some j \<and> job_valid j \<and> jd_enabled j \<and> timing_of (jl_job l) = timing_of j)" for n
  proof (cases "n \<in> jd_name ` set jobs")
    case True
    then obtain j where j: "j \<in> set jobs" "n = jd_name j" by auto
    then have d: "map_of (sync (js_defs S)) n = Some j" "job_valid j" "jd_enabled j"
      using enabled_defs(1) [OF assms(2)] by (simp_all add: jobs_def)
    obtain l where "map_of (js_loops S2) n = Some l" "\<not> jl_done l" "timing_of (jl_job l) = timing_of j"
      using all j by (auto simp: follows_def)
    then show ?thesis using True d by (simp add: loops)
  next
    case False
    then have "\<forall>j. map_of (sync (js_defs S)) n = Some j \<longrightarrow> \<not> (job_valid j \<and> jd_enabled j)"
      using enabled_defs(1) [OF assms(2)] assms(2) unfolding jobs_def keyed_def by (metis image_eqI)
    then show ?thesis using False by (simp add: loops)
  qed
  then show ?thesis using ok by blast
qed

lemma jobs_ok_run:
  assumes "jobs_ok S"
  shows "jobs_ok (run_job today new_id now stamp n S)"
proof (cases "map_of (js_loops S) n")
  case None
  then show ?thesis using assms by (simp add: run_job_def)
next
  case (Some l)
  have n: "jd_name (jl_job l) = n" using assms Some by (simp add: jobs_ok_def)
  show ?thesis
  proof (cases "jl_done l")
    case False
    then obtain old where "map_of (js_snaps S) n = Some old" "timing_of old = timing_of (jl_job l)"
      using assms Some unfolding jobs_ok_def by blast
    then show ?thesis using assms Some False n
      by (auto simp: run_job_def Let_def jobs_ok_def keyed_update)
  qed (use assms Some in \<open>simp add: run_job_def\<close>)
qed

lemma keyed_sync_one: "keyed jd_name D \<Longrightarrow> keyed jd_name (fst (sync_one Y c (D, known, kept)))"
  using keyed_update [of jd_name D] keyed_dset [of jd_name D] by (auto simp: sync_one_def Let_def repo_create_def split: option.split)

lemma keyed_sync_all: "keyed jd_name (fst st) \<Longrightarrow> keyed jd_name (fst (fold (sync_one Y) cs st))"
proof (induction cs arbitrary: st)
  case (Cons c cs)
  then show ?case using keyed_sync_one [of "fst st" Y c "fst (snd st)" "snd (snd st)"] by simp
qed simp

lemma keyed_sync_clean: "keyed jd_name D \<Longrightarrow> keyed jd_name (fold (sync_clean kept) js D)"
proof (induction js arbitrary: D)
  case (Cons j js)
  then show ?case using keyed_delete [of jd_name D] keyed_update [of jd_name D] by (simp add: sync_clean_def Let_def)
qed simp

lemma keyed_sync:
  assumes "keyed jd_name D"
  shows "keyed jd_name (sync_config Y cs D)"
proof -
  obtain D1 known kept where e: "fold (sync_one Y) cs (D, existing_by_key D, []) = (D1, known, kept)" by (metis prod_cases3)
  then have "keyed jd_name D1" using keyed_sync_all [of "(D, existing_by_key D, [])" Y cs] assms by simp
  then show ?thesis using assms by (simp add: sync_config_def e keyed_sync_clean)
qed

lemma jobs_ok_start_each: "jobs_ok S \<Longrightarrow> jobs_ok (fold start_loop js S)"
  by (induction js arbitrary: S) (simp_all add: jobs_ok_start)

lemma jobs_ok_start_all:
  assumes "keyed jd_name (js_defs S)"
  shows "jobs_ok (start_all (stop_all S))"
  unfolding start_all_def by (rule jobs_ok_start_each) (use assms in \<open>simp add: stop_all_def jobs_ok_def\<close>)

inductive jobs_step :: "job_sched \<Rightarrow> job_sched \<Rightarrow> bool" where
  restart: "jobs_step S (start_all (stop_all S))"
| run: "jobs_step S (run_job today new_id now stamp n S)"
| watch: "jobs_step S (watch_round (sync_config Y cs) S)"
| create: "jobs_step S (S\<lparr>js_defs := snd (create_scheduled_job C ctx kw (js_defs S))\<rparr>)"
| delete: "jobs_step S (S\<lparr>js_defs := snd (delete_scheduled_job kw (js_defs S))\<rparr>)"

definition no_jobs :: job_sched where "no_jobs = \<lparr>js_defs = [], js_loops = [], js_snaps = [], js_queue = []\<rparr>"

inductive jobs_reachable :: "job_sched \<Rightarrow> bool" where
  initial: "jobs_reachable no_jobs"
| further: "jobs_reachable S \<Longrightarrow> jobs_step S S' \<Longrightarrow> jobs_reachable S'"

lemma jobs_ok_defs: "jobs_ok S \<Longrightarrow> keyed jd_name D \<Longrightarrow> jobs_ok (S\<lparr>js_defs := D\<rparr>)"
  by (simp add: jobs_ok_def)

lemma jobs_ok_step: "jobs_step S S' \<Longrightarrow> jobs_ok S \<Longrightarrow> jobs_ok S'"
proof (induction rule: jobs_step.induct)
  case (restart S)
  then show ?case by (intro jobs_ok_start_all) (simp add: jobs_ok_def)
next
  case (run S today new_id now stamp n)
  then show ?case by (rule jobs_ok_run)
next
  case (watch S Y cs)
  then show ?case using watch_result [of S "sync_config Y cs"] keyed_sync [of "js_defs S"] by (simp add: jobs_ok_def)
next
  case (create S C ctx kw)
  have "keyed jd_name (snd (create_scheduled_job C ctx kw (js_defs S)))" if "keyed jd_name (js_defs S)"
    using that by (simp add: create_scheduled_job_def repo_create_def keyed_dset split: sum.split)
  then show ?case using create by (intro jobs_ok_defs) (simp_all add: jobs_ok_def)
next
  case (delete S kw)
  have "snd (delete_scheduled_job kw D) = D \<or> (\<exists>n. snd (delete_scheduled_job kw D) = snd (repo_delete n D))" for D
    by (auto simp: delete_scheduled_job_def Let_def split: prod.split) (metis snd_conv)
  then have "keyed jd_name (snd (delete_scheduled_job kw (js_defs S)))" if "keyed jd_name (js_defs S)"
    using that keyed_delete [of jd_name "js_defs S"] by metis
  then show ?case using delete by (intro jobs_ok_defs) (simp_all add: jobs_ok_def)
qed

lemma jobs_reachable_ok: "jobs_reachable S \<Longrightarrow> jobs_ok S"
proof (induction rule: jobs_reachable.induct)
  case initial
  then show ?case by (simp add: jobs_ok_def no_jobs_def keyed_def)
qed (rule jobs_ok_step)

text \<open>C30: the scheduler follows the definitions. Whatever was created, deleted, configured or run before, after a round of the
  watcher exactly the enabled definitions have a loop, which has not ended and runs under the present definition.\<close>

theorem scheduler_follows_definitions:
  assumes "jobs_reachable S" "S' = watch_round (sync_config Y cs) S"
  shows "js_defs S' = sync_config Y cs (js_defs S) \<and>
    (\<forall>n. case map_of (js_loops S') n of
        None \<Rightarrow> \<forall>j. map_of (js_defs S') n = Some j \<longrightarrow> \<not> (job_valid j \<and> jd_enabled j)
      | Some l \<Rightarrow> \<not> jl_done l \<and> (\<exists>j. map_of (js_defs S') n = Some j \<and> job_valid j \<and> jd_enabled j \<and> timing_of (jl_job l) = timing_of j))"
proof -
  have "jobs_ok S" using assms(1) by (rule jobs_reachable_ok)
  moreover then have "keyed jd_name (sync_config Y cs (js_defs S))" by (simp add: jobs_ok_def keyed_sync)
  ultimately have result: "js_defs S' = sync_config Y cs (js_defs S)"
    "\<forall>n. case map_of (js_loops S') n of
        None \<Rightarrow> \<forall>j. map_of (sync_config Y cs (js_defs S)) n = Some j \<longrightarrow> \<not> (job_valid j \<and> jd_enabled j)
      | Some l \<Rightarrow> \<not> jl_done l \<and> (\<exists>j. map_of (sync_config Y cs (js_defs S)) n = Some j \<and> job_valid j \<and> jd_enabled j \<and> timing_of (jl_job l) = timing_of j)"
    using watch_result [of S "sync_config Y cs"] unfolding assms(2) by blast+
  show ?thesis unfolding result(1) using result(2) by blast
qed


section \<open>A job of the configuration that runs once\<close>

definition once_round :: "str \<Rightarrow> real \<Rightarrow> sync_env \<Rightarrow> cfg_job \<Rightarrow> str \<times> int \<Rightarrow> job_sched \<Rightarrow> job_sched" where
  "once_round today now Y c r S =
     run_job today (fst r) now (snd r) (stable_job_name Y (cj_name c) (cfg_owner c)) (watch_round (sync_config (Y\<lparr>sy_now := snd r\<rparr>) [c]) S)"

lemma py_get_put_str [simp]: "py_get (put_str k v d) k' = (if k' = k \<and> v \<noteq> [] then PyStr v else py_get d k')"
  by (simp add: put_str_def)

lemma cfg_remote_get:
  assumes "k \<notin> {''remote_login'', ''remote_path'', ''remote_profile'', ''remote_required'', ''remote_ttl_seconds''}"
  shows "py_get (cfg_remote c d) k = py_get d k"
  using assms by (auto simp: cfg_remote_def Let_def split: option.split)

lemma cfg_payload_keys:
  "py_get (cfg_payload c) ''name'' = PyStr (cj_name c)"
  "py_get (cfg_payload c) ''user_id'' = PyStr (str_or (cj_user c) ''default'')"
  "py_get (cfg_payload c) ''memory_owner'' = (if opt_str (cj_owner c) = [] then PyNone else PyStr (opt_str (cj_owner c)))"
  by (simp_all add: cfg_payload_def Let_def cfg_remote_get) (simp_all add: py_get_def)

lemma config_job_key: "key_of_job (config_job Y c) = key_of_cfg c"
  by (simp add: key_of_job_def key_of_cfg_def config_job_def Let_def cfg_payload_keys py_or_def cfg_owner_def str_or_def)

text \<open>The only definition comes from this job of the configuration.\<close>

definition only_from :: "sync_env \<Rightarrow> cfg_job \<Rightarrow> job_sched \<Rightarrow> bool" where
  "only_from Y c S \<longleftrightarrow> (let n = stable_job_name Y (cj_name c) (cfg_owner c) in
     (js_defs S = [] \<or> (\<exists>j. js_defs S = [(n, j)] \<and> jd_name j = n \<and> 1 \<le> jd_interval j \<and> key_of_job j = key_of_cfg c)) \<and>
     (\<forall>l. map_of (js_loops S) n = Some l \<longrightarrow> jl_done l))"

lemma sync_only:
  assumes "D = [] \<or> (\<exists>j. D = [(n, j)] \<and> jd_name j = n \<and> 1 \<le> jd_interval j \<and> key_of_job j = key_of_cfg c)"
    and n: "n = stable_job_name Y (cj_name c) (cfg_owner c)" "cj_name c \<noteq> []" "1 \<le> jd_interval (config_job Y c)"
  shows "\<exists>t. sync_config Y [c] D = [(n, (config_job Y c)\<lparr>jd_created := t\<rparr>)]"
proof -
  have name: "jd_name (config_job Y c) = n" "n \<noteq> []" by (simp_all add: n config_job_def Let_def stable_job_name_def)
  have same: "key_of_job ((config_job Y c)\<lparr>jd_created := t\<rparr>) = key_of_cfg c" for t
    using config_job_key [of Y c] by (simp add: key_of_job_def)
  have valid: "job_valid ((config_job Y c)\<lparr>jd_created := t\<rparr>)" for t using name n(3) by (simp add: job_valid_def)
  have clean: "fold (sync_clean [(key_of_cfg c, n)]) (all_jobs [(n, (config_job Y c)\<lparr>jd_created := t\<rparr>)]) [(n, (config_job Y c)\<lparr>jd_created := t\<rparr>)] =
      [(n, (config_job Y c)\<lparr>jd_created := t\<rparr>)]" for t
    using valid [of t] by (simp add: all_jobs_def repo_get_all_def sync_clean_def Let_def same name)
  show ?thesis
  proof (cases "D = []")
    case True
    have "(config_job Y c)\<lparr>jd_created := jd_created (config_job Y c)\<rparr> = config_job Y c" by simp
    then show ?thesis using clean [of "jd_created (config_job Y c)"]
      by (intro exI [of _ "jd_created (config_job Y c)"])
         (simp add: True sync_config_def existing_by_key_def all_jobs_def repo_get_all_def sync_one_def Let_def repo_get_def repo_create_def name dset_absent has_key_def)
  next
    case False
    then obtain j where j: "D = [(n, j)]" "jd_name j = n" "1 \<le> jd_interval j" "key_of_job j = key_of_cfg c" using assms(1) by blast
    have known: "existing_by_key D = [(key_of_cfg c, j)]"
      using name j n(2) by (simp add: existing_by_key_def all_jobs_def repo_get_all_def job_valid_def has_key_def key_of_cfg_def dset_absent)
    have renamed: "(config_job Y c)\<lparr>jd_name := n, jd_created := t\<rparr> = (config_job Y c)\<lparr>jd_created := t\<rparr>" for t
      using name by simp
    show ?thesis using clean [of "jd_created j"]
      by (intro exI [of _ "jd_created j"]) (simp add: known [unfolded j] renamed j sync_config_def sync_one_def Let_def repo_update_def name has_key_def dset_absent)
  qed
qed


lemma once_config:
  assumes "opt_str (cj_run_at c) \<noteq> []" "sy_iso Y (utc_suffix (opt_str (cj_run_at c))) = Some dt" "cj_enabled c"
  shows "jd_one_shot (config_job Y c)" "jd_run_at (config_job Y c) = Some dt" "jd_enabled (config_job Y c)" "jd_interval (config_job Y c) = 1"
    "jd_zone (config_job Y c) = sy_zone Y"
  using assms by (simp_all add: config_job_def Let_def)

lemma config_job_clock: "config_job (Y\<lparr>sy_now := t\<rparr>) c = (config_job Y c)\<lparr>jd_created := t, jd_updated := t\<rparr>"
  by (simp add: config_job_def Let_def stable_job_name_def)

lemma refresh_queue: "js_queue (fold refresh_job js S) = js_queue S"
proof (induction js arbitrary: S)
  case (Cons j js)
  then show ?case by (simp add: refresh_job_def start_loop_def split: option.split)
qed simp

lemma drop_queue: "js_queue (fold drop_job ns S) = js_queue S"
  by (induction ns arbitrary: S) (simp_all add: drop_job_def)

lemma watch_queue: "js_queue (watch_round sync S) = js_queue S"
  by (simp add: watch_round_def Let_def refresh_queue drop_queue)

text \<open>After a round of the watcher the job has a loop that starts it at once.\<close>

lemma once_armed:
  assumes "only_from Y c S" "jobs_ok S" "cj_name c \<noteq> []" "opt_str (cj_run_at c) \<noteq> []" "sy_iso Y (utc_suffix (opt_str (cj_run_at c))) = Some dt" "cj_enabled c"
    and n: "n = stable_job_name Y (cj_name c) (cfg_owner c)" and S': "S' = watch_round (sync_config (Y\<lparr>sy_now := t\<rparr>) [c]) S"
  shows "\<exists>j l. js_defs S' = [(n, j)] \<and> jd_name j = n \<and> 1 \<le> jd_interval j \<and> key_of_job j = key_of_cfg c \<and>
    map_of (js_loops S') n = Some l \<and> \<not> jl_done l \<and> timing_of (jl_job l) = timing_of j \<and> timing_of j = timing_of (config_job Y c)"
proof -
  let ?Y = "Y\<lparr>sy_now := t\<rparr>"
  note once = once_config [OF assms(4,5,6)]
  have n': "n = stable_job_name ?Y (cj_name c) (cfg_owner c)" by (simp add: n stable_job_name_def)
  obtain u where D: "sync_config ?Y [c] (js_defs S) = [(n, (config_job ?Y c)\<lparr>jd_created := u\<rparr>)]"
    using sync_only [OF _ n' assms(3)] assms(1) once(4) by (auto simp: only_from_def Let_def n config_job_clock)
  define j where "j = (config_job ?Y c)\<lparr>jd_created := u\<rparr>"
  have j: "jd_name j = n" "1 \<le> jd_interval j" "key_of_job j = key_of_cfg c" "job_valid j" "jd_enabled j" "timing_of j = timing_of (config_job Y c)"
    using once config_job_key [of Y c] by (simp_all add: j_def config_job_clock n key_of_job_def job_valid_def timing_of_def)
      (simp_all add: config_job_def Let_def stable_job_name_def)
  have "keyed jd_name (sync_config ?Y [c] (js_defs S))" using assms(2) by (intro keyed_sync) (simp add: jobs_ok_def)
  note watched = watch_result [where sync = "sync_config ?Y [c]", OF assms(2) this, folded S', unfolded D, folded j_def]
  have "map_of (js_loops S') n \<noteq> None" using watched j by (auto dest!: spec [of _ n] split: option.splits)
  then obtain l where l: "map_of (js_loops S') n = Some l" by blast
  have "\<not> jl_done l \<and> timing_of (jl_job l) = timing_of j" using watched l by (auto dest!: spec [of _ n] split: if_splits)
  then show ?thesis using watched l j by (intro exI [of _ j] exI [of _ l]) simp
qed

lemma once_pushed:
  assumes "map_of (js_loops S) n = Some l" "\<not> jl_done l" "jd_name (jl_job l) = n" "new_id \<notin> set (map r_id (js_queue S))"
    and "timing_of (jl_job l) = timing_of j" "js_defs S = [(n, j)]" "jd_one_shot j" "jd_enabled j" "1 \<le> jd_interval j"
  shows "map r_id (js_queue (run_job today new_id now stamp n S)) = map r_id (js_queue S) @ [new_id] \<and>
    (\<forall>l. map_of (js_loops (run_job today new_id now stamp n S)) n = Some l \<longrightarrow> jl_done l) \<and>
    (\<exists>j'. js_defs (run_job today new_id now stamp n S) = [(n, j')] \<and> jd_name j' = n \<and> \<not> jd_enabled j' \<and> 1 \<le> jd_interval j' \<and> key_of_job j' = key_of_job j)"
proof -
  have l: "jd_one_shot (jl_job l)" "jd_enabled (jl_job l)" "1 \<le> jd_interval (jl_job l)" "jd_payload (jl_job l) = jd_payload j"
    using assms(5,7-9) by (simp_all add: timing_of_def)
  have id: "t_id (cron_task today new_id now (jl_job l)) = new_id" by (simp add: cron_task_def make_cron_task_def Let_def)
  have "filter (\<lambda>r. r_id r \<noteq> new_id) (js_queue S) = js_queue S" using assms(4) by (auto intro!: filter_True)
  then show ?thesis using assms(1-3,6) l
    by (simp add: run_job_def Let_def push_def id repo_update_def has_key_def key_of_job_def)
qed

text \<open>C35: a job of the configuration that is to run once does not run once. When its time is past, every round of the watcher
  enables its definition again, which its run had disabled, so it starts at once and pushes another task, round after round.\<close>

theorem one_shot_config_job_repeats:
  assumes "cj_name c \<noteq> []" "cj_enabled c" "opt_str (cj_run_at c) \<noteq> []" "sy_iso Y (utc_suffix (opt_str (cj_run_at c))) = Some dt"
    and "distinct (map fst rounds)" "S = fold (once_round today now Y c) rounds no_jobs" "n = stable_job_name Y (cj_name c) (cfg_owner c)"
    and past: "run_at_local E (zone_of E (config_job Y c)) dt \<le> je_local E (zone_of E (config_job Y c)) instant"
  shows "map r_id (js_queue S) = map fst rounds \<and> (\<forall>j. map_of (js_defs S) n = Some j \<longrightarrow> \<not> jd_enabled j) \<and>
    (\<exists>l. map_of (js_loops (watch_round (sync_config (Y\<lparr>sy_now := t\<rparr>) [c]) S)) n = Some l \<and> \<not> jl_done l \<and> compute_sleep E instant (jl_job l) = 0)"
proof -
  note once = once_config [OF assms(3,4,2)]
  have "only_from Y c S \<and> jobs_ok S \<and> map r_id (js_queue S) = map fst rounds \<and> (\<forall>j. map_of (js_defs S) n = Some j \<longrightarrow> \<not> jd_enabled j)"
    using assms(5,6)
  proof (induction rounds arbitrary: S rule: rev_induct)
    case Nil
    then show ?case by (simp add: only_from_def no_jobs_def jobs_ok_def keyed_def)
  next
    case (snoc r rounds)
    define S1 where "S1 = fold (once_round today now Y c) rounds no_jobs"
    define S2 where "S2 = watch_round (sync_config (Y\<lparr>sy_now := snd r\<rparr>) [c]) S1"
    have ih: "only_from Y c S1" "jobs_ok S1" "map r_id (js_queue S1) = map fst rounds" using snoc S1_def by auto
    have S: "S = run_job today (fst r) now (snd r) n S2" by (simp add: snoc.prems(2) once_round_def [of _ _ _ _ r] S1_def S2_def assms(7))
    obtain j l where j: "js_defs S2 = [(n, j)]" "jd_name j = n" "1 \<le> jd_interval j" "key_of_job j = key_of_cfg c"
        "map_of (js_loops S2) n = Some l" "\<not> jl_done l" "timing_of (jl_job l) = timing_of j" "timing_of j = timing_of (config_job Y c)"
      using once_armed [OF ih(1,2) assms(1,3,4,2,7) S2_def] by blast
    have ok: "jobs_ok S2" unfolding S2_def using jobs_ok_step [OF jobs_step.watch ih(2)] .
    then have name: "jd_name (jl_job l) = n" using j(5) by (simp add: jobs_ok_def)
    have queue: "js_queue S2 = js_queue S1" by (simp add: S2_def watch_queue)
    have "jd_one_shot j" "jd_enabled j" using j(8) once by (simp_all add: timing_of_def)
    moreover have "fst r \<notin> set (map r_id (js_queue S2))" using snoc.prems(1) ih(3) queue by simp
    ultimately have pushed: "map r_id (js_queue S) = map r_id (js_queue S2) @ [fst r]" "\<forall>l. map_of (js_loops S) n = Some l \<longrightarrow> jl_done l"
        "\<exists>j'. js_defs S = [(n, j')] \<and> jd_name j' = n \<and> \<not> jd_enabled j' \<and> 1 \<le> jd_interval j' \<and> key_of_job j' = key_of_job j"
      using once_pushed [OF j(5,6) name _ j(7,1) _ _ j(3)] unfolding S by blast+
    then show ?case using j(4) ih(3) queue jobs_ok_run [OF ok, folded S] by (auto simp: only_from_def Let_def assms(7) S)
  qed
  note state = this
  obtain j l where l: "map_of (js_loops (watch_round (sync_config (Y\<lparr>sy_now := t\<rparr>) [c]) S)) n = Some l" "\<not> jl_done l"
      "timing_of (jl_job l) = timing_of (config_job Y c)"
    using once_armed [OF _ _ assms(1,3,4,2,7) refl, of S t] state by metis
  have "compute_sleep E instant (jl_job l) = 0"
    using l(3) past once by (simp add: timing_of_def compute_sleep_def Let_def zone_of_def)
  then show ?thesis using state l by blast
qed


section \<open>Examples\<close>

definition demo_job_env :: job_env where "demo_job_env = \<lparr>je_local = (\<lambda>z t. t), je_zone_ok = (\<lambda>z. True)\<rparr>"

definition demo_job_caller :: job_caller where
  "demo_job_caller = \<lparr>jc_owner = None, jc_mode = None, jc_template = None, jc_remote = (\<lambda>s. None), jc_iso = (\<lambda>s. None), jc_zone = ''UTC'', jc_now = 0\<rparr>"

definition demo_args :: "(str, pyval) dict" where
  "demo_args = [(''job_name'', PyStr ''j''), (''instruction'', PyStr ''do''), (''daily_time'', PyStr ''8:30'')]"

definition demo_daily :: job_def where
  "demo_daily = \<lparr>jd_name = ''j'', jd_agent = True, jd_enabled = True, jd_one_shot = False, jd_run_at = None, jd_interval = 86400, jd_zone = ''UTC'',
     jd_payload = [(''instruction'', PyStr ''do''), (''user_id'', PyStr ''default''), (''daily_time'', PyStr ''8:30'')], jd_created = 0, jd_updated = 0\<rparr>"

definition demo_sync :: sync_env where "demo_sync = \<lparr>sy_hash = id, sy_iso = (\<lambda>s. Some (Naive 0)), sy_zone = ''UTC'', sy_now = 0\<rparr>"

definition demo_once :: cfg_job where
  "demo_once = \<lparr>cj_name = ''n'', cj_description = ''d'', cj_minutes = None, cj_daily = None, cj_times = None, cj_start = None, cj_run_at = Some ''t'',
     cj_one_shot = False, cj_user = ''u'', cj_owner = None, cj_mode = None, cj_template = None, cj_login = None, cj_path = None, cj_profile = None,
     cj_ttl = None, cj_required = True, cj_enabled = True\<rparr>"

lemma demo_created: "requested_job demo_job_caller [] demo_args = Inr demo_daily"
  by code_simp

lemma demo_half_past_eight: "clock_time ''8:30'' = Some (8, 30)"
  by code_simp


lemma demo_reachable: "jobs_reachable (no_jobs\<lparr>js_defs := [(''j'', demo_daily)]\<rparr>)"
proof -
  have "snd (create_scheduled_job demo_job_caller [] demo_args []) = [(''j'', demo_daily)]"
    by (simp add: create_scheduled_job_def demo_created repo_create_def) (simp add: demo_daily_def)
  then show ?thesis using jobs_reachable.further [OF jobs_reachable.initial jobs_step.create [of no_jobs demo_job_caller "[]" demo_args]]
    by (simp add: no_jobs_def)
qed

theorem scheduler_follows_definitions_witness:
  "\<exists>l. map_of (js_loops (watch_round (sync_config demo_sync []) (no_jobs\<lparr>js_defs := [(''j'', demo_daily)]\<rparr>))) ''j'' = Some l \<and> \<not> jl_done l"
proof -
  have "job_valid demo_daily \<and> jd_enabled demo_daily" by (simp add: demo_daily_def job_valid_def)
  then show ?thesis using scheduler_follows_definitions [OF demo_reachable refl, of demo_sync "[]"]
    by (auto simp: sync_config_def dest!: spec [of _ "''j''"] split: option.splits)
qed

theorem one_shot_config_job_repeats_witness:
  "map r_id (js_queue (fold (once_round ''d'' 0 demo_sync demo_once) [(''a'', 1), (''b'', 2)] no_jobs)) = [''a'', ''b'']"
proof -
  have "run_at_local demo_job_env (zone_of demo_job_env (config_job demo_sync demo_once)) (Naive 0) \<le>
      je_local demo_job_env (zone_of demo_job_env (config_job demo_sync demo_once)) 5" by (simp add: demo_job_env_def run_at_local_def)
  moreover have "cj_name demo_once \<noteq> []" "cj_enabled demo_once" "opt_str (cj_run_at demo_once) \<noteq> []" by (simp_all add: demo_once_def)
  moreover have "sy_iso demo_sync (utc_suffix (opt_str (cj_run_at demo_once))) = Some (Naive 0)" by (simp add: demo_sync_def)
  ultimately show ?thesis
    using one_shot_config_job_repeats [where c = demo_once and Y = demo_sync and rounds = "[(''a'', 1), (''b'', 2)]", OF _ _ _ _ _ refl refl] by simp
qed

end
