(* ===== verification/Spec2Isabelle.thy ===== *)
theory Spec2Isabelle
  imports Perm_Broker Task_Queue Goals Scheduler Core_Pool Subagents Ask_User Conversation Agent_Loop
    Bash_Tool File_Trees File_Tools Remote_Blobs Plan_Tool Agent_Wakes Job_Schedule
begin

text \<open>
  A model of the core of the Macchiato bot: a daemon that runs language-model agents (``cores'')
  for several users and front ends. All paths below are relative to \<open>src/src\<close>.

  \<^bold>\<open>The program and its parts.\<close> Requests for a session enter the kernel scheduler, which
  serialises them per session, takes a core from the pool and runs one turn of the agent loop in
  it. A turn asks a model, runs the tools the model calls and appends everything to the history
  of the conversation. Tools ask the permission broker before they do what needs a human; the
  command tool checks every command first and leaves long commands to the job manager, whose
  ends are announced to the session later. Cores may start subagents, whose ends are reported to
  the core that started them, ask the user questions, and keep goals; idle cores are saved to
  checkpoints and evicted. Timed jobs are pushed to a task queue in SQLite when it is time, and alarms
  that an agent sets for itself come back as turns of its session. The file tools work on the local
  disk and, through a worker process, on a remote workspace; the calendar tools keep events and tasks
  in JSON files and plan the tasks into free time.

  \<^bold>\<open>Theories and sources.\<close>
  \<^item> \<open>Prelude\<close>, \<open>Py_Values\<close>, \<open>Futures\<close>, \<open>Work_Queue\<close>: strings and dictionaries as Python has
    them, JSON-like values and truthiness, futures that are settled once, and the queue interface.
  \<^item> \<open>Task_Queue\<close>: \<open>system/automation/task_queue.py\<close>, \<open>agent_task.py\<close>; the rows of the table
    in rowid order.
  \<^item> \<open>Path_Grants\<close>, \<open>Permissions\<close>, \<open>Perm_Broker\<close>: \<open>agent_core/agent/path_grants.py\<close> and
    \<open>agent_core/permissions/\<close> (wait registry, licences for dangerous commands, broker). The
    broker is cut at its \<open>await\<close> into \<open>broker_begin\<close> and \<open>broker_finish\<close>.
  \<^item> \<open>Goals\<close>: \<open>agent_core/goals/\<close>. \<open>Ask_User\<close>: \<open>permissions/ask_user_registry.py\<close>.
  \<^item> \<open>Owners\<close>, \<open>Core_Profile\<close>, \<open>Kernel_Requests\<close>, \<open>Output_Bus\<close>, \<open>Scheduler\<close>: the owner of a
    session, the profile of a core with its tool templates (\<open>kernel_interface/profile.py\<close>), and
    \<open>system/kernel/\<close> \<open>output_bus.py\<close> and \<open>scheduler.py\<close>.
  \<^item> \<open>Checkpoints\<close>, \<open>Core_Pool\<close>, \<open>Subagents\<close>: \<open>agent/checkpoint.py\<close>, \<open>system/kernel/core_pool.py\<close>
    and the reporting of a child's end in both \<open>core_pool.py\<close> and \<open>scheduler.py\<close>.
  \<^item> \<open>Conversation\<close>: \<open>context/conversation.py\<close> and the folding of old turns.
  \<^item> \<open>Tool_Base\<close>, \<open>Tool_Results\<close>, \<open>Tool_Registry\<close>: \<open>agent_core/tools/base.py\<close>, the limits on
    results in \<open>agent/tool_result_*.py\<close>, both registries, the tool search and \<open>call_tool\<close>.
  \<^item> \<open>Model_Replies\<close>, \<open>Agent_Loop\<close>: \<open>agent_core/agent/agent.py\<close> and \<open>system/kernel/kernel.py\<close>.
  \<^item> \<open>Shlex\<close>, \<open>Bash_Security\<close>, \<open>Bash_Gate\<close>: the tokenizer of Python's \<open>shlex\<close> as far as
    \<open>agent_core/bash_security.py\<close> uses it, the check of commands, and the gate in front of every
    command in \<open>tools/bash_tool.py\<close>.
  \<^item> \<open>Jobs\<close>, \<open>Job_Notify\<close>: \<open>agent_core/job_manager.py\<close> and \<open>tools/bash_job_notify.py\<close>.
  \<^item> \<open>Bash_Args\<close>, \<open>Bash_Tool\<close>: the arguments of the command tool and its whole call, from the gate to
    the job it starts or waits for, in \<open>tools/bash_tool.py\<close>.
  \<^item> \<open>Workspaces\<close>, \<open>File_Trees\<close>: the names and directories of users and the paths a session may
    read and write, and the merge of directories when a workspace is taken over.
  \<^item> \<open>Text_Edit\<close>, \<open>Remote_Files\<close>, \<open>File_Tools\<close>: the search and replace of the edit tool, the files of a
    remote worker, and the tools that read, write and edit files (\<open>system/tools/file_tools.py\<close>) on
    either disk.
  \<^item> \<open>Remote_Blobs\<close>: files sent to and from a worker in pieces: the frames with their byte layout,
    the receiver of a file, and the sender.
  \<^item> \<open>Time_Slots\<close>, \<open>Planner\<close>, \<open>Schedule_Store\<close>, \<open>Plan_Tool\<close>: \<open>agent_core/models/\<close>, \<open>agent_core/planner/\<close>,
    \<open>storage/json_repository.py\<close>, and the tools over them in \<open>system/tools/\<close> \<open>storage_tools.py\<close> and
    \<open>planner_tools.py\<close>.
  \<^item> \<open>Agent_Wakes\<close>: the alarms of \<open>agent_core/tools/agent_wake.py\<close>, their tools, the daemon's poll and
    the end of their turns in the kernel scheduler.
  \<^item> \<open>Job_Schedule\<close>: timed jobs, \<open>system/automation/\<close> \<open>scheduler.py\<close>, \<open>config_sync.py\<close>, \<open>types.py\<close>, and the
    tools for them in \<open>system/tools/automation_tools.py\<close>.

  \<^bold>\<open>How the code is translated.\<close> Objects are records with the code's fields, dictionaries
  association lists in insertion order, enumerations datatypes. An operation is one function on
  the state; a coroutine is cut at its suspensions into one function per stretch, because that is
  where other coroutines can run in between, and where their order matters a step relation takes
  the stretches in any order (\<open>job_step\<close>, \<open>notify_step\<close>, \<open>wake_step\<close>, \<open>jobs_step\<close>, the operations of the scheduler).
  Exceptions are values on the left of a sum. The clock, fresh identifiers, path resolution, the
  answers of models, humans and other programs are arguments.

  \<^bold>\<open>What is shown.\<close> The properties are numbered in the order of their importance. They say
  that permissions are granted only where a human gave them and a command only runs after its
  check (\<open>Perm_Broker\<close>, \<open>Permissions\<close>, \<open>Bash_Security\<close>, \<open>Bash_Gate\<close>); that a turn ends, runs permitted
  tools only and leaves a history the model accepts (\<open>Agent_Loop\<close>, \<open>Conversation\<close>,
  \<open>Tool_Results\<close>); that requests of a session are served one after the other and every caller gets
  its answer (\<open>Scheduler\<close>); that ends of subagents and jobs are reported once and not lost
  (\<open>Subagents\<close>, \<open>Jobs\<close>, \<open>Job_Notify\<close>, \<open>Task_Queue\<close>); that state survives eviction and restart
  (\<open>Core_Pool\<close>, \<open>Checkpoints\<close>, \<open>Goals\<close>); that users are kept apart on the disk and the file tools stay inside
  what was granted (\<open>Workspaces\<close>, \<open>File_Tools\<close>), and an edit or a transfer changes what it should and
  nothing else (\<open>Text_Edit\<close>, \<open>Remote_Blobs\<close>); that plans do not double-book (\<open>Planner\<close>, \<open>Plan_Tool\<close>); that
  alarms go off once and jobs start on time under their present definitions (\<open>Agent_Wakes\<close>, \<open>Job_Schedule\<close>). Lemmas named \<open>demo_\<dots>\<close> evaluate the model on concrete
  inputs; some lemmas and properties show where the code loses something.

  \<^bold>\<open>Interfaces.\<close> Components that rely on others only through laws use a locale for them: the
  tables of futures that are settled once, the queues of tasks and of requests, and the
  registries of tools, each interpreted on the functions of the component that provides it.

  \<^bold>\<open>Bounds.\<close> The agent loop runs at most the configured number of iterations with at most three
  model calls each; its recursion counts them down, so it needs no fuel. The job machine comes to
  rest after at most \<open>work_left\<close> steps. The poll of finished jobs looks at no more than the
  twenty the daemon asks for, and the same holds for alarms. \<open>replace_blocks\<close> follows a loop of the code that
  may run forever and returns no value then, which a property shows to happen. \<open>step_past\<close>, the loop to
  the next start of a job, ends because its period is at least a second. A stream carries at most
  1 GiB, so at most 1024 pieces of 1 MiB, whose numbers fit the 32 bits of a frame.
  \<open>resolve_tool_args\<close> follows a \<open>call_tool\<close> inside another to a depth that is an argument and gives no
  value beyond it; any depth at least that of the nesting is enough. Everything else is structural recursion.

  \<^bold>\<open>What is not modelled.\<close> Characters are the 256 of Isabelle's \<open>char\<close>, so Chinese wording is a
  parameter or left out and case mapping is that of ASCII. Floating-point numbers are reals; dates are day numbers and moments microseconds, and
  the rules of time zones are parameters.
  Values are copied: where the code shares a mutable dictionary the model gives each holder its
  own. Front ends, network clients, prompts, memory and media files, and the wrappers that only
  translate tool arguments are listed as components with the reason why they are left out.
\<close>

end
